(* ===== verification/Prelude.thy ===== *)
theory Prelude
  imports Main "HOL-Library.Word" "HOL-Library.Monad_Syntax"
begin

unbundle bit_operations_syntax

text \<open>
  Shared vocabulary of the development: byte strings, the machine integers of the Rust code as
  words, the little and big endian byte layouts of \<^verbatim>\<open>to_le_bytes\<close> and \<^verbatim>\<open>to_be_bytes\<close>, the
  cursor that splits a byte string, and the interface of a self-delimiting wire format.
  Collections of rewrite rules used across the theories are declared here.
\<close>

named_theorems byte_len \<open>lengths of encoded fields\<close>
named_theorems wire_simps \<open>decoding what was encoded\<close>

type_synonym u8 = "8 word"
type_synonym u32 = "32 word"
type_synonym u64 = "64 word"
type_synonym bytes = "u8 list"

section \<open>Integers as bytes\<close>

text \<open>
  \<^verbatim>\<open>x.to_le_bytes()\<close> lists the bytes of \<open>x\<close> from the least significant one;
  \<^verbatim>\<open>from_le_bytes\<close> reads them back.  The number of bytes is an argument, so that one
  definition serves every width.
\<close>

fun le_bytes :: "nat \<Rightarrow> 'a::len word \<Rightarrow> bytes" where
  "le_bytes 0 x = []"
| "le_bytes (Suc n) x = ucast x # le_bytes n (drop_bit 8 x)"

fun of_le_bytes :: "bytes \<Rightarrow> 'a::len word" where
  "of_le_bytes [] = 0"
| "of_le_bytes (b # bs) = ucast b OR push_bit 8 (of_le_bytes bs)"

definition be_bytes :: "nat \<Rightarrow> 'a::len word \<Rightarrow> bytes" where
  "be_bytes n x = rev (le_bytes n x)"

definition of_be_bytes :: "bytes \<Rightarrow> 'a::len word" where
  "of_be_bytes bs = of_le_bytes (rev bs)"

abbreviation u64_le :: "u64 \<Rightarrow> bytes" where "u64_le \<equiv> le_bytes 8"
abbreviation u64_be :: "u64 \<Rightarrow> bytes" where "u64_be \<equiv> be_bytes 8"
abbreviation u32_le :: "u32 \<Rightarrow> bytes" where "u32_le \<equiv> le_bytes 4"
abbreviation u32_be :: "u32 \<Rightarrow> bytes" where "u32_be \<equiv> be_bytes 4"

lemma length_le_bytes [simp, byte_len]: "length (le_bytes n x) = n"
  by (induction n x rule: le_bytes.induct) auto

lemma length_be_bytes [simp, byte_len]: "length (be_bytes n x) = n"
  by (simp add: be_bytes_def)

lemma of_le_bytes_le_bytes:
  "(of_le_bytes (le_bytes n x) :: 'a::len word) = take_bit (8 * n) x"
proof (induction n arbitrary: x)
  case 0
  show ?case by simp
next
  case (Suc n)
  show ?case
    by (simp add: Suc) (auto simp: bit_eq_iff bit_simps add.commute)
qed

lemma of_le_bytes_u64 [simp, wire_simps]: "of_le_bytes (u64_le x) = x"
  by (simp add: of_le_bytes_le_bytes take_bit_length_eq del: le_bytes.simps)
     (auto simp: bit_eq_iff bit_simps dest: bit_imp_le_length)

lemma of_le_bytes_u32 [simp, wire_simps]: "of_le_bytes (u32_le x) = x"
  by (simp add: of_le_bytes_le_bytes) (auto simp: bit_eq_iff bit_simps dest: bit_imp_le_length)

lemma of_be_bytes_u64 [simp, wire_simps]: "of_be_bytes (u64_be x) = x"
  by (simp add: of_be_bytes_def be_bytes_def)

lemma of_be_bytes_u32 [simp, wire_simps]: "of_be_bytes (u32_be x) = x"
  by (simp add: of_be_bytes_def be_bytes_def)

lemma not_bit_of_le_bytes:
  "8 * length bs \<le> i \<Longrightarrow> \<not> bit (of_le_bytes bs :: 'a::len word) i"
proof (induction bs arbitrary: i)
  case Nil
  then show ?case by simp
next
  case (Cons b bs)
  then show ?case
    by (auto simp: bit_simps dest: bit_imp_le_length)
qed

lemma le_bytes_of_le_bytes:
  "8 * length bs \<le> LENGTH('a) \<Longrightarrow> le_bytes (length bs) (of_le_bytes bs :: 'a::len word) = bs"
proof (induction bs)
  case Nil
  then show ?case by simp
next
  case (Cons b bs)
  let ?x = "of_le_bytes bs :: 'a word"
  have "ucast (ucast b OR push_bit 8 ?x :: 'a word) = b"
    using Cons.prems by (auto simp: bit_eq_iff bit_simps dest: bit_imp_le_length)
  moreover have "drop_bit 8 (ucast b OR push_bit 8 ?x :: 'a word) = ?x"
    using Cons.prems not_bit_of_le_bytes [of bs, where 'a = 'a]
    by (auto simp: bit_eq_iff bit_simps dest: bit_imp_le_length)
  ultimately show ?case
    using Cons by simp
qed

lemma u32_be_of_be_bytes: "length bs = 4 \<Longrightarrow> u32_be (of_be_bytes bs) = bs"
  using le_bytes_of_le_bytes [of "rev bs", where 'a = 32] by (simp add: be_bytes_def of_be_bytes_def)

lemma u64_be_of_be_bytes: "length bs = 8 \<Longrightarrow> u64_be (of_be_bytes bs) = bs"
  using le_bytes_of_le_bytes [of "rev bs", where 'a = 64] by (simp add: be_bytes_def of_be_bytes_def)

lemma u64_le_of_le_bytes: "length bs = 8 \<Longrightarrow> u64_le (of_le_bytes bs) = bs"
  using le_bytes_of_le_bytes [of bs, where 'a = 64] by simp

lemma u64_le_inject [simp]: "u64_le x = u64_le y \<longleftrightarrow> x = y"
  by (metis of_le_bytes_u64)

lemma u64_be_inject [simp]: "u64_be x = u64_be y \<longleftrightarrow> x = y"
  by (metis of_be_bytes_u64)

lemma u32_le_inject [simp]: "u32_le x = u32_le y \<longleftrightarrow> x = y"
  by (metis of_le_bytes_u32)

lemma u32_be_inject [simp]: "u32_be x = u32_be y \<longleftrightarrow> x = y"
  by (metis of_be_bytes_u32)


section \<open>Text as bytes\<close>

text \<open>
  A Rust \<^verbatim>\<open>String\<close> is its UTF-8 byte string; the protocol's own labels and separators are
  ASCII.  A \<open>string\<close> of the model is a list of such bytes as characters.
\<close>

definition str_bytes :: "string \<Rightarrow> bytes" where
  "str_bytes s = map of_char s"

lemma length_str_bytes [simp, byte_len]: "length (str_bytes s) = length s"
  by (simp add: str_bytes_def)

lemma str_bytes_append [simp]: "str_bytes (s @ t) = str_bytes s @ str_bytes t"
  by (simp add: str_bytes_def)

lemma of_char_u8_inject: "(of_char c :: u8) = of_char d \<longleftrightarrow> c = d"
proof
  assume eq: "(of_char c :: u8) = of_char d"
  have small: "(of_char x :: nat) < 256" for x
    by (rule nat_of_char_less_256)
  have "unat (of_char x :: u8) = (of_char x :: nat)" for x
  proof -
    have "(of_char x :: u8) = of_nat (of_char x)"
      by (rule of_nat_of_char [symmetric])
    then show ?thesis
      using small [of x] by (simp add: unat_of_nat take_bit_nat_eq_self)
  qed
  with eq show "c = d"
    by (metis of_char_eq_iff)
qed simp

lemma str_bytes_inject [simp]: "str_bytes s = str_bytes t \<longleftrightarrow> s = t"
  by (simp add: str_bytes_def inj_map_eq_map inj_def of_char_u8_inject)

section \<open>Masking with a pad, and the constant-time comparison\<close>

text \<open>
  \<^verbatim>\<open>for (b, p) in buf.iter_mut().zip(pad.iter()) { *b ^= *p }\<close>: the buffer keeps its length and
  is left unchanged past the end of the pad.
\<close>

fun xor_pad :: "bytes \<Rightarrow> bytes \<Rightarrow> bytes" where
  "xor_pad [] ps = []"
| "xor_pad (b # bs) [] = b # bs"
| "xor_pad (b # bs) (p # ps) = (b XOR p) # xor_pad bs ps"

lemma length_xor_pad [simp, byte_len]: "length (xor_pad bs ps) = length bs"
  by (induction bs ps rule: xor_pad.induct) auto

lemma xor_pad_xor_pad [simp]: "xor_pad (xor_pad bs ps) ps = bs"
  by (induction bs ps rule: xor_pad.induct) (auto simp: xor.assoc)

lemma xor_pad_eq_iff: "xor_pad bs ps = cs \<longleftrightarrow> bs = xor_pad cs ps"
  by (metis xor_pad_xor_pad)

text \<open>
  \<^verbatim>\<open>ct_eq\<close>: unequal lengths are unequal, otherwise the differences of all byte pairs are collected
  and the collection is compared with zero.
\<close>

definition ct_eq :: "bytes \<Rightarrow> bytes \<Rightarrow> bool" where
  "ct_eq a b =
     (if length a \<noteq> length b then False
      else fold (\<lambda>(x, y) diff. diff OR (x XOR y)) (zip a b) 0 = 0)"

lemma fold_or_eq_0:
  "fold (\<lambda>(x, y) diff. diff OR (x XOR y)) ps (d :: u8) = 0 \<longleftrightarrow>
     d = 0 \<and> (\<forall>(x, y) \<in> set ps. x = y)"
proof (induction ps arbitrary: d)
  case Nil
  then show ?case by simp
next
  case (Cons p ps)
  have "d OR (fst p XOR snd p) = 0 \<longleftrightarrow> d = 0 \<and> fst p = snd p"
    by (auto simp: bit_eq_iff bit_simps)
  then show ?case
    by (auto simp: Cons.IH split: prod.splits)
qed

lemma ct_eq_iff [simp]: "ct_eq a b \<longleftrightarrow> a = b"
  by (auto simp: ct_eq_def fold_or_eq_0 list_eq_iff_nth_eq set_zip split: prod.splits)

section \<open>Splitting a byte string\<close>

text \<open>\<^verbatim>\<open>take(buf, n)\<close>: fails when fewer than \<open>n\<close> bytes are left, else splits there.\<close>

definition take_bytes :: "nat \<Rightarrow> bytes \<Rightarrow> (bytes \<times> bytes) option" where
  "take_bytes n buf = (if length buf < n then None else Some (take n buf, drop n buf))"

lemma take_bytes_append [simp, wire_simps]:
  "length a = n \<Longrightarrow> take_bytes n (a @ rest) = Some (a, rest)"
  by (simp add: take_bytes_def)

lemma take_bytes_SomeD:
  "take_bytes n buf = Some (a, rest) \<Longrightarrow> buf = a @ rest \<and> length a = n"
  by (auto simp: take_bytes_def split: if_splits)

section \<open>The interface of a self-delimiting wire format\<close>

text \<open>
  An encoder and a decoder that stops where the encoding ends and hands back the rest.  The one
  law is that decoding an encoding followed by anything returns the value and that anything; it
  gives injectivity and that no encoding is a proper prefix of another, so fields written one
  after the other cannot be confused.
\<close>

locale wire_codec =
  fixes enc :: "'a \<Rightarrow> bytes"
    and dec :: "bytes \<Rightarrow> ('a \<times> bytes) option"
    and ok :: "'a \<Rightarrow> bool"
  assumes dec_enc: "ok x \<Longrightarrow> dec (enc x @ rest) = Some (x, rest)"
begin

lemma enc_prefix_free:
  assumes "ok x" and "ok y" and "enc x @ r = enc y @ s"
  shows "x = y" and "r = s"
proof -
  have "Some (x, r) = Some (y, s)"
    using assms by (metis dec_enc)
  then show "x = y" and "r = s" by auto
qed

lemma enc_inj: "ok x \<Longrightarrow> ok y \<Longrightarrow> enc x = enc y \<Longrightarrow> x = y"
  using enc_prefix_free [of x y "[]" "[]"] by simp

lemma enc_list_inj:
  assumes "list_all ok xs" and "list_all ok ys" and "length xs = length ys"
    and "concat (map enc xs) @ r = concat (map enc ys) @ s"
  shows "xs = ys \<and> r = s"
  using assms(3,1,2,4)
proof (induction xs ys rule: list_induct2)
  case Nil
  then show ?case by simp
next
  case (Cons x xs y ys)
  have eq: "enc x @ (concat (map enc xs) @ r) = enc y @ (concat (map enc ys) @ s)"
    using Cons.prems(3) by simp
  from Cons.prems(1,2) have okxy: "ok x" "ok y" by simp_all
  have "concat (map enc xs) @ r = concat (map enc ys) @ s"
    by (rule enc_prefix_free(2) [OF okxy eq])
  with Cons.IH Cons.prems(1,2) have "xs = ys \<and> r = s" by simp
  moreover have "x = y"
    by (rule enc_prefix_free(1) [OF okxy eq])
  ultimately show ?case by simp
qed

end

section \<open>Results\<close>

text \<open>A \<^verbatim>\<open>Result<T, E>\<close> is \<open>E + T\<close>; \<open>?\<close> is the bind of this sum.\<close>

type_synonym ('e, 'a) rresult = "'e + 'a"

definition rbind :: "'e + 'a \<Rightarrow> ('a \<Rightarrow> 'e + 'b) \<Rightarrow> 'e + 'b" where
  "rbind r f = (case r of Inl e \<Rightarrow> Inl e | Inr a \<Rightarrow> f a)"

lemma rbind_simps [simp]: "rbind (Inl e) f = Inl e" "rbind (Inr a) f = f a"
  by (simp_all add: rbind_def)

lemma rbind_Inr_conv: "rbind r f = Inr b \<longleftrightarrow> (\<exists>a. r = Inr a \<and> f a = Inr b)"
  by (cases r) auto

definition ok_or :: "'e \<Rightarrow> 'a option \<Rightarrow> 'e + 'a" where
  "ok_or e x = (case x of None \<Rightarrow> Inl e | Some a \<Rightarrow> Inr a)"

lemma ok_or_simps [simp]: "ok_or e None = Inl e" "ok_or e (Some a) = Inr a"
  by (simp_all add: ok_or_def)

lemma ok_or_Inr_iff: "ok_or e x = Inr y \<longleftrightarrow> x = Some y"
  by (cases x) simp_all

definition is_ok :: "'e + 'a \<Rightarrow> bool" where
  "is_ok r = (case r of Inl _ \<Rightarrow> False | Inr _ \<Rightarrow> True)"

lemma is_ok_simps [simp]: "is_ok (Inl e) = False" "is_ok (Inr a) = True"
  by (simp_all add: is_ok_def)

lemma is_ok_iff: "is_ok r \<longleftrightarrow> (\<exists>a. r = Inr a)"
  by (cases r) auto


section \<open>Primitives of third-party crates\<close>

text \<open>
  SHA-512, HMAC-SHA-512, HKDF-SHA-512 and ML-DSA-87 are crates the code calls; the model takes
  them as one record of functions.  Where the Rust type of a result is an array of a fixed
  length, the accessor reads the parameter through \<open>fix_len\<close>, so that the length holds for
  every instance, as it does by typing in the code.  HKDF fails exactly for outputs longer than
  255 hash blocks (RFC 5869).  \<open>sk_sign\<close> and \<open>sk_public\<close> work on a 32-byte seed, \<open>sig_decodes\<close>
  says that an encoded signature decodes, \<open>vk_verify\<close> is the verification equation.
\<close>

record prims =
  raw_sha512 :: "bytes \<Rightarrow> bytes"
  raw_hmac :: "bytes \<Rightarrow> bytes \<Rightarrow> bytes"
  raw_hkdf :: "bytes \<Rightarrow> bytes \<Rightarrow> nat \<Rightarrow> bytes"
  raw_sk_sign :: "bytes \<Rightarrow> bytes \<Rightarrow> bytes"
  raw_sk_public :: "bytes \<Rightarrow> bytes"
  sig_decodes :: "bytes \<Rightarrow> bool"
  vk_verify :: "bytes \<Rightarrow> bytes \<Rightarrow> bytes \<Rightarrow> bool"

definition fix_len :: "nat \<Rightarrow> bytes \<Rightarrow> bytes" where
  "fix_len n bs = take n bs @ replicate (n - length bs) 0"

lemma length_fix_len [simp, byte_len]: "length (fix_len n bs) = n"
  by (simp add: fix_len_def)

lemma fix_len_id [simp]: "length bs = n \<Longrightarrow> fix_len n bs = bs"
  by (simp add: fix_len_def)

definition sha512 :: "prims \<Rightarrow> bytes \<Rightarrow> bytes" where
  "sha512 P m = fix_len 64 (raw_sha512 P m)"

definition hmac_sha512 :: "prims \<Rightarrow> bytes \<Rightarrow> bytes \<Rightarrow> bytes" where
  "hmac_sha512 P k m = fix_len 64 (raw_hmac P k m)"

definition hkdf_sha512 :: "prims \<Rightarrow> bytes \<Rightarrow> bytes \<Rightarrow> nat \<Rightarrow> bytes option" where
  "hkdf_sha512 P ikm info n = (if n \<le> 255 * 64 then Some (fix_len n (raw_hkdf P ikm info n)) else None)"

definition sk_sign :: "prims \<Rightarrow> bytes \<Rightarrow> bytes \<Rightarrow> bytes" where
  "sk_sign P seed m = fix_len 4627 (raw_sk_sign P seed m)"

definition sk_public :: "prims \<Rightarrow> bytes \<Rightarrow> bytes" where
  "sk_public P seed = fix_len 2592 (raw_sk_public P seed)"

lemma length_prims [simp, byte_len]:
  "length (sha512 P m) = 64"
  "length (hmac_sha512 P k m) = 64"
  "length (sk_sign P seed m) = 4627"
  "length (sk_public P seed) = 2592"
  by (simp_all add: sha512_def hmac_sha512_def sk_sign_def sk_public_def)

lemma hkdf_sha512_Some: "n \<le> 255 * 64 \<Longrightarrow> \<exists>okm. hkdf_sha512 P k i n = Some okm \<and> length okm = n"
  by (simp add: hkdf_sha512_def)

text \<open>What the code relies on: a signature made with a seed decodes and verifies under its key.\<close>

definition mldsa_correct :: "prims \<Rightarrow> bool" where
  "mldsa_correct P \<longleftrightarrow>
     (\<forall>seed m. length seed = 32 \<longrightarrow>
        sig_decodes P (sk_sign P seed m) \<and> vk_verify P (sk_public P seed) m (sk_sign P seed m))"

text \<open>
  A concrete instance used by the closed examples: it hashes to the first bytes of the message
  and accepts every signature of the right length.
\<close>

definition demo_prims :: prims where
  "demo_prims =
     \<lparr>raw_sha512 = (\<lambda>m. m), raw_hmac = (\<lambda>k m. k @ m), raw_hkdf = (\<lambda>k i n. k @ i),
      raw_sk_sign = (\<lambda>s m. s @ m), raw_sk_public = (\<lambda>s. s),
      sig_decodes = (\<lambda>_. True), vk_verify = (\<lambda>v m s. True)\<rparr>"

lemma mldsa_correct_demo: "mldsa_correct demo_prims"
  by (simp add: mldsa_correct_def demo_prims_def)

section \<open>Saturating 64-bit arithmetic\<close>

definition saturating_sub :: "u64 \<Rightarrow> u64 \<Rightarrow> u64" where
  "saturating_sub a b = (if a < b then 0 else a - b)"

definition saturating_add :: "u64 \<Rightarrow> u64 \<Rightarrow> u64" where
  "saturating_add a b = (if unat a + unat b < 2 ^ 64 then a + b else - 1)"

lemma unat_saturating_sub: "unat (saturating_sub a b) = unat a - unat b"
  by (auto simp: saturating_sub_def word_less_nat_alt unat_sub_if')

lemma unat_minus_one_u64: "unat (- 1 :: u64) = 2 ^ 64 - 1"
  by (simp add: unsigned_minus_1_eq_mask mask_eq_exp_minus_1)

lemma unat_u64_bound: "unat (x :: u64) < 2 ^ 64"
  using unsigned_less [of x] by simp

lemma unat_saturating_add: "unat (saturating_add a b) = min (unat a + unat b) (2 ^ 64 - 1)"
  using unat_u64_bound [of a] unat_u64_bound [of b]
  by (auto simp: saturating_add_def unat_word_ariths unat_minus_one_u64)

lemma unat_add_1_u64: "x \<noteq> - 1 \<Longrightarrow> unat (x + 1 :: u64) = unat x + 1"
proof -
  assume "x \<noteq> - 1"
  then have "unat x \<noteq> unat (- 1 :: u64)" by (metis word_unat_eq_iff)
  with unat_u64_bound [of x] have "unat x + 1 < 2 ^ 64" by (simp add: unat_minus_one_u64)
  then show ?thesis by (simp add: unat_word_ariths)
qed

section \<open>Decimal numbers\<close>

text \<open>\<^verbatim>\<open>format!("{n}")\<close> of an unsigned integer, and reading digits back.\<close>

fun dec_string :: "nat \<Rightarrow> string" where
  "dec_string n =
     (if n < 10 then [char_of (48 + n)] else dec_string (n div 10) @ [char_of (48 + n mod 10)])"

declare dec_string.simps [simp del]

definition undec :: "string \<Rightarrow> nat" where
  "undec s = foldl (\<lambda>a c. 10 * a + (of_char c - 48)) 0 s"

lemma of_char_digit: "d < 10 \<Longrightarrow> (of_char (char_of (48 + d :: nat)) :: nat) = 48 + d"
  by simp

lemma undec_dec_string: "undec (dec_string n) = n"
proof (induction n rule: dec_string.induct)
  case (1 n)
  show ?case
  proof (cases "n < 10")
    case True
    then show ?thesis
      by (subst dec_string.simps) (simp add: undec_def)
  next
    case False
    then have "undec (dec_string n) = 10 * undec (dec_string (n div 10)) + n mod 10"
      by (subst dec_string.simps) (simp add: undec_def)
    also have "\<dots> = n" using "1.IH" False by simp
    finally show ?thesis .
  qed
qed

lemma dec_string_inject [simp]: "dec_string m = dec_string n \<longleftrightarrow> m = n"
  by (metis undec_dec_string)

lemma set_dec_string: "c \<in> set (dec_string n) \<Longrightarrow> 48 \<le> (of_char c :: nat) \<and> (of_char c :: nat) < 58"
proof (induction n rule: dec_string.induct)
  case (1 n)
  show ?case
  proof (cases "n < 10")
    case True
    then show ?thesis
      using "1.prems" by (subst (asm) dec_string.simps) simp
  next
    case False
    then have "c \<in> set (dec_string (n div 10)) \<or> c = char_of (48 + n mod 10)"
      using "1.prems" by (subst (asm) dec_string.simps) auto
    moreover have "n mod 10 < 10" by simp
    ultimately show ?thesis
      using "1.IH" False of_char_digit by fastforce
  qed
qed

lemma colon_notin_dec_string [simp]: "CHR '':'' \<notin> set (dec_string n)"
proof
  assume "CHR '':'' \<in> set (dec_string n)"
  from set_dec_string [OF this] show False by simp
qed

abbreviation word_string :: "'a::len word \<Rightarrow> string" where
  "word_string x \<equiv> dec_string (unat x)"

end
