(* ===== verification/Canon.thy ===== *)
theory Canon
  imports Prelude
begin

text \<open>
  The crate \<^verbatim>\<open>safehub-types\<close>: identifiers (\<^verbatim>\<open>ids.rs\<close>), the ref-head and key-log records
  (\<^verbatim>\<open>refs.rs\<close>), and the canonical TLS-presentation encoding that is hashed, signed and stored
  (\<^verbatim>\<open>canon.rs\<close>).  The encoders are proved injective and the decoder is characterised exactly.
\<close>

section \<open>Identifiers\<close>

text \<open>
  \<^verbatim>\<open>RepoId([u8; 32])\<close>, \<^verbatim>\<open>BlobId([u8; 64])\<close> and \<^verbatim>\<open>HeadHash([u8; 64])\<close> are newtypes over byte arrays;
  the model keeps the bytes, and \<open>arr\<close> states the array length that Rust's types give.
\<close>

type_synonym repo_id = bytes
type_synonym blob_id = bytes
type_synonym head_hash = bytes
type_synonym user_id = string

abbreviation arr :: "nat \<Rightarrow> bytes \<Rightarrow> bool" where
  "arr n b \<equiv> length b = n"

definition domain_label :: "string \<Rightarrow> bytes" where
  "domain_label suffix = str_bytes (''safehub-v1:'' @ suffix)"

lemma domain_label_inject: "domain_label s = domain_label t \<longleftrightarrow> s = t"
  by (simp add: domain_label_def del: str_bytes_append append.simps)

text \<open>The crate \<^verbatim>\<open>hex\<close> is a pair of functions; what the code uses of it is that they invert each other.\<close>

record hex_codec =
  hex_encode :: "bytes \<Rightarrow> string"
  hex_decode :: "string \<Rightarrow> bytes option"

definition hex_roundtrips :: "hex_codec \<Rightarrow> bool" where
  "hex_roundtrips X \<longleftrightarrow> (\<forall>b. hex_decode X (hex_encode X b) = Some b)"

datatype from_hex_error = HexDecode | InvalidStringLength

definition id_to_hex :: "hex_codec \<Rightarrow> bytes \<Rightarrow> string" where
  "id_to_hex X i = hex_encode X i"

definition id_from_hex :: "hex_codec \<Rightarrow> nat \<Rightarrow> string \<Rightarrow> from_hex_error + bytes" where
  "id_from_hex X n s =
     (case hex_decode X s of
        None \<Rightarrow> Inl HexDecode
      | Some v \<Rightarrow> if length v \<noteq> n then Inl InvalidStringLength else Inr v)"

definition repo_id_from_hex :: "hex_codec \<Rightarrow> string \<Rightarrow> from_hex_error + repo_id" where
  "repo_id_from_hex X s = id_from_hex X 32 s"

definition blob_id_from_hex :: "hex_codec \<Rightarrow> string \<Rightarrow> from_hex_error + blob_id" where
  "blob_id_from_hex X s = id_from_hex X 64 s"

definition head_hash_from_hex :: "hex_codec \<Rightarrow> string \<Rightarrow> from_hex_error + head_hash" where
  "head_hash_from_hex X s = id_from_hex X 64 s"

definition blob_id_of_ciphertext :: "prims \<Rightarrow> bytes \<Rightarrow> blob_id" where
  "blob_id_of_ciphertext P ct = sha512 P ct"

definition head_hash_of :: "prims \<Rightarrow> bytes \<Rightarrow> head_hash" where
  "head_hash_of P b = sha512 P b"

definition head_hash_zero :: head_hash where
  "head_hash_zero = replicate 64 0"

lemma length_ids [simp, byte_len]:
  "length (blob_id_of_ciphertext P ct) = 64"
  "length (head_hash_of P b) = 64"
  "length head_hash_zero = 64"
  by (simp_all add: blob_id_of_ciphertext_def head_hash_of_def head_hash_zero_def)

lemma id_from_hex_to_hex:
  "hex_roundtrips X \<Longrightarrow> id_from_hex X n (id_to_hex X i) = (if length i = n then Inr i else Inl InvalidStringLength)"
  by (simp add: id_from_hex_def id_to_hex_def hex_roundtrips_def)

section \<open>Owner and name\<close>

record repo_name =
  rn_owner :: string
  rn_name :: string

text \<open>\<^verbatim>\<open>s.split_once(c)\<close>: the parts before and after the first occurrence.\<close>

fun split_once :: "char \<Rightarrow> string \<Rightarrow> (string \<times> string) option" where
  "split_once c [] = None"
| "split_once c (x # xs) =
     (if x = c then Some ([], xs)
      else map_option (\<lambda>(a, b). (x # a, b)) (split_once c xs))"

definition repo_name_parse :: "string \<Rightarrow> repo_name option" where
  "repo_name_parse s =
     (case split_once (CHR ''/'') s of
        None \<Rightarrow> None
      | Some (ow, name) \<Rightarrow>
          if ow = [] \<or> name = [] \<or> CHR ''/'' \<in> set name then None
          else Some \<lparr>rn_owner = ow, rn_name = name\<rparr>)"

definition repo_name_display :: "repo_name \<Rightarrow> string" where
  "repo_name_display r = rn_owner r @ ''/'' @ rn_name r"

lemma split_once_Some_iff:
  "split_once c s = Some (a, b) \<longleftrightarrow> s = a @ c # b \<and> c \<notin> set a"
proof (induction s arbitrary: a)
  case Nil
  then show ?case by simp
next
  case (Cons x xs)
  show ?case
    by (cases a) (auto simp: Cons.IH split: if_splits)
qed

lemma repo_name_parse_iff:
  "repo_name_parse s = Some r \<longleftrightarrow>
     s = repo_name_display r \<and> rn_owner r \<noteq> [] \<and> rn_name r \<noteq> [] \<and>
     CHR ''/'' \<notin> set (rn_owner r) \<and> CHR ''/'' \<notin> set (rn_name r)"
proof -
  have "repo_name_parse s = Some r \<longleftrightarrow>
      split_once CHR ''/'' s = Some (rn_owner r, rn_name r) \<and>
      rn_owner r \<noteq> [] \<and> rn_name r \<noteq> [] \<and> CHR ''/'' \<notin> set (rn_name r)"
    by (cases r) (auto simp: repo_name_parse_def split: option.splits if_splits)
  then show ?thesis
    by (auto simp: split_once_Some_iff repo_name_display_def)
qed

section \<open>Records\<close>

text \<open>\<^verbatim>\<open>RefHead\<close>, with its fields in the source's order.\<close>

record ref_head =
  repo_id :: repo_id
  seq :: u64
  enc_refs :: bytes
  bundle_root :: blob_id
  dek_wrap :: bytes
  prev_head_hash :: head_hash
  mls_epoch :: u64
  epoch_tag :: bytes
  non_ff :: bool
  pusher_sig :: bytes
  admin_cosig :: "bytes option"

text \<open>What Rust's array types say of a head.\<close>

definition head_wf :: "ref_head \<Rightarrow> bool" where
  "head_wf h \<longleftrightarrow> arr 32 (repo_id h) \<and> arr 64 (bundle_root h) \<and> arr 64 (prev_head_hash h)"

record key_log_entry =
  drive_epoch :: u64
  wrapped_dkr :: bytes
  kl_prev_hash :: head_hash
  admin_sig :: bytes

record blob_meta =
  bm_id :: blob_id
  bm_size :: u64
  chunk_index :: u32
  chunk_count :: u32
  bm_push_id :: string

definition BUNDLE_CHUNK_SIZE :: nat where
  "BUNDLE_CHUNK_SIZE = 4 * 1024 * 1024"

section \<open>Canonical encoding\<close>

text \<open>
  \<^verbatim>\<open>put_opaque\<close> writes a \<^verbatim>\<open>u32\<close> big-endian length and the bytes.  A length that does not fit
  panics (\<^verbatim>\<open>expect\<close>), which is \<open>None\<close> here.
\<close>

definition put_opaque :: "bytes \<Rightarrow> bytes \<Rightarrow> bytes option" where
  "put_opaque out b =
     (if length b < 2 ^ 32 then Some (out @ u32_be (of_nat (length b)) @ b) else None)"

definition encode_ref_head :: "ref_head \<Rightarrow> bytes option" where
  "encode_ref_head h = do {
     let out = repo_id h @ u64_be (seq h);
     out \<leftarrow> put_opaque out (enc_refs h);
     let out = out @ bundle_root h;
     out \<leftarrow> put_opaque out (dek_wrap h);
     let out = out @ prev_head_hash h @ u64_be (mls_epoch h);
     out \<leftarrow> put_opaque out (epoch_tag h);
     let out = out @ [if non_ff h then 1 else 0];
     out \<leftarrow> put_opaque out (pusher_sig h);
     (case admin_cosig h of
        Some sig \<Rightarrow> put_opaque (out @ [1]) sig
      | None \<Rightarrow> Some (out @ [0]))
   }"

text \<open>
  The byte layout without the panic, and the condition under which the encoder returns.  The
  layout is parameterised by the two flag bytes, which the decoder reads more loosely than the
  encoder writes them.
\<close>

definition opaque :: "bytes \<Rightarrow> bytes" where
  "opaque b = u32_be (of_nat (length b)) @ b"

definition opaque_fits :: "bytes \<Rightarrow> bool" where
  "opaque_fits b \<longleftrightarrow> length b < 2 ^ 32"

definition head_layout :: "u8 \<Rightarrow> u8 \<Rightarrow> ref_head \<Rightarrow> bytes" where
  "head_layout f g h =
     repo_id h @ u64_be (seq h) @ opaque (enc_refs h) @ bundle_root h @ opaque (dek_wrap h) @
     prev_head_hash h @ u64_be (mls_epoch h) @ opaque (epoch_tag h) @ [f] @ opaque (pusher_sig h) @
     [g] @ (case admin_cosig h of Some sig \<Rightarrow> opaque sig | None \<Rightarrow> [])"

definition canonical_bytes :: "ref_head \<Rightarrow> bytes" where
  "canonical_bytes h =
     head_layout (if non_ff h then 1 else 0) (if admin_cosig h = None then 0 else 1) h"

definition opaque_ok :: "ref_head \<Rightarrow> bool" where
  "opaque_ok h \<longleftrightarrow>
     opaque_fits (enc_refs h) \<and> opaque_fits (dek_wrap h) \<and> opaque_fits (epoch_tag h) \<and>
     opaque_fits (pusher_sig h) \<and> (case admin_cosig h of Some s \<Rightarrow> opaque_fits s | None \<Rightarrow> True)"

lemma encode_ref_head_eq:
  "encode_ref_head h = (if opaque_ok h then Some (canonical_bytes h) else None)"
  by (simp add: encode_ref_head_def put_opaque_def canonical_bytes_def head_layout_def opaque_def
      opaque_fits_def opaque_ok_def Let_def split: option.split)

text \<open>The hash that links heads: SHA-512 of the canonical bytes.\<close>

definition ref_head_hash :: "prims \<Rightarrow> ref_head \<Rightarrow> head_hash" where
  "ref_head_hash P h = head_hash_of P (canonical_bytes h)"

lemma length_ref_head_hash [simp, byte_len]: "length (ref_head_hash P h) = 64"
  by (simp add: ref_head_hash_def)

section \<open>Decoding\<close>

datatype canon_error = Truncated | TrailingBytes

definition take_canon :: "nat \<Rightarrow> bytes \<Rightarrow> canon_error + bytes \<times> bytes" where
  "take_canon n buf = (if length buf < n then Inl Truncated else Inr (take n buf, drop n buf))"

definition take_opaque :: "bytes \<Rightarrow> canon_error + bytes \<times> bytes" where
  "take_opaque buf =
     rbind (take_canon 4 buf) (\<lambda>(len_bytes, buf).
     take_canon (unat (of_be_bytes len_bytes :: u32)) buf)"

definition decode_ref_head :: "bytes \<Rightarrow> canon_error + ref_head" where
  "decode_ref_head b =
     rbind (take_canon 32 b) (\<lambda>(repo, b).
     rbind (take_canon 8 b) (\<lambda>(seq_b, b).
     rbind (take_opaque b) (\<lambda>(enc, b).
     rbind (take_canon 64 b) (\<lambda>(bundle, b).
     rbind (take_opaque b) (\<lambda>(dek, b).
     rbind (take_canon 64 b) (\<lambda>(prev, b).
     rbind (take_canon 8 b) (\<lambda>(ep_b, b).
     rbind (take_opaque b) (\<lambda>(tag, b).
     rbind (take_canon 1 b) (\<lambda>(ff, b).
     rbind (take_opaque b) (\<lambda>(psig, b).
     rbind (take_canon 1 b) (\<lambda>(has_admin, b).
     rbind (if has_admin ! 0 \<noteq> 0
            then rbind (take_opaque b) (\<lambda>(s, b). Inr (Some s, b))
            else Inr (None, b)) (\<lambda>(cosig, b).
     if b \<noteq> [] then Inl TrailingBytes
     else Inr \<lparr>repo_id = repo, seq = of_be_bytes seq_b, enc_refs = enc, bundle_root = bundle,
               dek_wrap = dek, prev_head_hash = prev, mls_epoch = of_be_bytes ep_b,
               epoch_tag = tag, non_ff = (ff ! 0 \<noteq> 0), pusher_sig = psig,
               admin_cosig = cosig\<rparr>))))))))))))"

lemma take_canon_append [simp, wire_simps]: "length a = n \<Longrightarrow> take_canon n (a @ r) = Inr (a, r)"
  by (simp add: take_canon_def)

lemma take_canon_Cons [simp]: "take_canon (Suc 0) (x # r) = Inr ([x], r)"
  by (simp add: take_canon_def)

lemma take_canon_Inr_iff: "take_canon n b = Inr (a, r) \<longleftrightarrow> b = a @ r \<and> length a = n"
  by (auto simp: take_canon_def)

lemma unat_of_nat_u32: "n < 2 ^ 32 \<Longrightarrow> unat (of_nat n :: u32) = n"
  by (simp add: unat_of_nat take_bit_nat_eq_self)

lemma take_opaque_append [simp, wire_simps]:
  "opaque_fits b \<Longrightarrow> take_opaque (opaque b @ r) = Inr (b, r)"
  by (simp add: take_opaque_def opaque_def opaque_fits_def unat_of_nat_u32)


lemma take_opaque_Inr_iff: "take_opaque b = Inr (a, r) \<longleftrightarrow> b = opaque a @ r \<and> opaque_fits a"
proof
  assume "take_opaque b = Inr (a, r)"
  then obtain l s where l: "b = l @ s" "length l = 4"
    and s: "s = a @ r" "length a = unat (of_be_bytes l :: u32)"
    by (auto simp: take_opaque_def rbind_Inr_conv take_canon_Inr_iff)
  from s(2) have "length a < 2 ^ 32"
    using unsigned_less [of "of_be_bytes l :: u32"] by simp
  moreover have "u32_be (of_nat (length a)) = l"
    using s(2) l(2) by (simp add: u32_be_of_be_bytes)
  ultimately show "b = opaque a @ r \<and> opaque_fits a"
    using l(1) s(1) by (simp add: opaque_def opaque_fits_def)
qed simp

interpretation opaque_codec:
  wire_codec opaque "\<lambda>b. case take_opaque b of Inl _ \<Rightarrow> None | Inr v \<Rightarrow> Some v" opaque_fits
  by unfold_locales simp

text \<open>
  The decoder accepts exactly the layouts of well-formed heads in which a flag byte is nonzero
  when the flag is set.
\<close>

lemma singleton_conv: "length xs = Suc 0 \<longleftrightarrow> (\<exists>x. xs = [x])"
  by (cases xs) auto

lemma decode_ref_head_iff:
  "decode_ref_head b = Inr h \<longleftrightarrow>
     head_wf h \<and> opaque_ok h \<and>
     (\<exists>f g. b = head_layout f g h \<and> (f \<noteq> 0 \<longleftrightarrow> non_ff h) \<and> (g \<noteq> 0 \<longleftrightarrow> admin_cosig h \<noteq> None))"
  (is "?l \<longleftrightarrow> ?r")
proof
  assume ?r
  then obtain f g where h: "head_wf h" "opaque_ok h" "b = head_layout f g h"
      "f \<noteq> 0 \<longleftrightarrow> non_ff h" "g \<noteq> 0 \<longleftrightarrow> admin_cosig h \<noteq> None"
    by blast
  show ?l
  proof (cases "admin_cosig h")
    case None
    with h show ?thesis
      by (cases h) (simp add: decode_ref_head_def head_layout_def head_wf_def opaque_ok_def)
  next
    case (Some s)
    with h take_opaque_append [of s "[]"] show ?thesis
      by (cases h) (simp add: decode_ref_head_def head_layout_def head_wf_def opaque_ok_def)
  qed
next
  assume ?l
  then show ?r
    by (auto simp: decode_ref_head_def rbind_Inr_conv take_canon_Inr_iff take_opaque_Inr_iff
        singleton_conv head_wf_def opaque_ok_def head_layout_def u64_be_of_be_bytes
        split: if_splits)
qed

lemma decode_canonical_bytes:
  assumes "head_wf h" and "opaque_ok h"
  shows "decode_ref_head (canonical_bytes h) = Inr h"
proof -
  let ?f = "if non_ff h then 1 else 0 :: u8" and ?g = "if admin_cosig h = None then 0 else 1 :: u8"
  have "canonical_bytes h = head_layout ?f ?g h \<and> (?f \<noteq> 0 \<longleftrightarrow> non_ff h) \<and>
      (?g \<noteq> 0 \<longleftrightarrow> admin_cosig h \<noteq> None)"
    by (simp add: canonical_bytes_def)
  with assms show ?thesis
    unfolding decode_ref_head_iff by blast
qed

text \<open>
  C22.  Canonical bytes decode to the head they were encoded from: whenever the encoder returns
  (no field reaches 4 GiB), \<^verbatim>\<open>decode_ref_head\<close> gives back every field, and no error.
\<close>

theorem decode_encode_ref_head:
  assumes "head_wf h" and "encode_ref_head h = Some b"
  shows "decode_ref_head b = Inr h"
  using assms by (auto simp: encode_ref_head_eq decode_canonical_bytes split: if_splits)


lemma canonical_bytes_inject:
  assumes "head_wf h" "opaque_ok h" "head_wf k" "opaque_ok k"
  shows "canonical_bytes h = canonical_bytes k \<longleftrightarrow> h = k"
  using assms decode_canonical_bytes by (metis sum.inject(2))

text \<open>A small head used by the closed examples.\<close>

definition demo_head :: ref_head where
  "demo_head =
     \<lparr>repo_id = replicate 32 1, seq = 1, enc_refs = [1, 2], bundle_root = replicate 64 2,
      dek_wrap = [3], prev_head_hash = head_hash_zero, mls_epoch = 7, epoch_tag = replicate 32 4,
      non_ff = True, pusher_sig = [5], admin_cosig = Some [6]\<rparr>"

lemma demo_head_ok [simp]: "head_wf demo_head" "opaque_ok demo_head"
  by (simp_all add: demo_head_def head_wf_def opaque_ok_def opaque_fits_def)

theorem decode_encode_ref_head_witness:
  "decode_ref_head (canonical_bytes demo_head) = Inr demo_head"
  by (rule decode_encode_ref_head) (simp_all add: encode_ref_head_eq)

text \<open>
  The decoder's exact language: bytes decode to \<open>h\<close> precisely when they are the layout of the
  well-formed head \<open>h\<close>, every length prefix matching its field and nothing trailing, with the two
  flag bytes nonzero exactly when the flag is set.
\<close>

theorem decode_ref_head_language:
  "decode_ref_head b = Inr h \<longleftrightarrow>
     head_wf h \<and> opaque_ok h \<and>
     (\<exists>f g. b = head_layout f g h \<and> (f \<noteq> 0 \<longleftrightarrow> non_ff h) \<and> (g \<noteq> 0 \<longleftrightarrow> admin_cosig h \<noteq> None))"
  by (rule decode_ref_head_iff)

lemma head_layout_flag_inject: "head_layout f g h = head_layout f' g' h \<longleftrightarrow> f = f' \<and> g = g'"
  by (auto simp: head_layout_def split: option.splits)

text \<open>
  Decoding is not the inverse of encoding: every head with the force-push flag set also
  decodes from a byte string that is not its canonical encoding, so hashing received bytes and
  hashing the re-serialised head need not agree.
\<close>

theorem decode_ref_head_malleable:
  assumes "head_wf h" and "opaque_ok h" and "non_ff h"
  shows "\<exists>b. decode_ref_head b = Inr h \<and> b \<noteq> canonical_bytes h"
proof -
  let ?g = "if admin_cosig h = None then 0 else 1 :: u8"
  have "head_layout 2 ?g h \<noteq> canonical_bytes h"
    using assms(3) by (simp add: canonical_bytes_def head_layout_flag_inject)
  moreover have "(2 :: u8) \<noteq> 0 \<longleftrightarrow> non_ff h" and "?g \<noteq> 0 \<longleftrightarrow> admin_cosig h \<noteq> None"
    using assms(3) by simp_all
  ultimately show ?thesis
    using assms(1,2) decode_ref_head_iff by blast
qed

theorem decode_ref_head_malleable_witness:
  "\<exists>b. decode_ref_head b = Inr demo_head \<and> b \<noteq> canonical_bytes demo_head"
  by (rule decode_ref_head_malleable) (simp_all, simp add: demo_head_def)

lemma ref_head_hash_inject:
  assumes "head_wf h" "opaque_ok h" "head_wf k" "opaque_ok k"
    and "inj_on (sha512 P) {canonical_bytes h, canonical_bytes k}"
  shows "ref_head_hash P h = ref_head_hash P k \<longleftrightarrow> h = k"
  using assms by (auto simp: ref_head_hash_def head_hash_of_def inj_on_def canonical_bytes_inject)

text \<open>
  The head hash binds every field: unless SHA-512 collides on their canonical bytes, two heads
  that differ in any field (signatures and flags included) have different hashes.
\<close>

theorem ref_head_hash_binds:
  assumes "head_wf h" "opaque_ok h" "head_wf k" "opaque_ok k"
    and "inj_on (sha512 P) {canonical_bytes h, canonical_bytes k}"
    and "h \<noteq> k"
  shows "ref_head_hash P h \<noteq> ref_head_hash P k"
  using assms by (simp add: ref_head_hash_inject)

theorem ref_head_hash_binds_witness:
  "ref_head_hash demo_prims demo_head \<noteq> ref_head_hash demo_prims (demo_head\<lparr>repo_id := replicate 32 9\<rparr>)"
proof (rule ref_head_hash_binds)
  let ?k = "demo_head\<lparr>repo_id := replicate 32 9\<rparr>"
  have "sha512 demo_prims (canonical_bytes demo_head) ! 0 = 1" and
    "sha512 demo_prims (canonical_bytes ?k) ! 0 = 9"
    by (simp_all add: sha512_def demo_prims_def fix_len_def canonical_bytes_def head_layout_def
        demo_head_def nth_append)
  then show "inj_on (sha512 demo_prims) {canonical_bytes demo_head, canonical_bytes ?k}"
    by (auto simp: inj_on_def)
  show "head_wf ?k" and "opaque_ok ?k" and "demo_head \<noteq> ?k"
    by (simp_all add: demo_head_def head_wf_def opaque_ok_def opaque_fits_def)
qed simp_all

section \<open>Key-log entries\<close>

definition encode_key_log_entry :: "key_log_entry \<Rightarrow> bytes option" where
  "encode_key_log_entry e = do {
     let out = u64_be (drive_epoch e);
     out \<leftarrow> put_opaque out (wrapped_dkr e);
     let out = out @ kl_prev_hash e;
     put_opaque out (admin_sig e)
   }"

lemma encode_key_log_entry_inject:
  assumes "encode_key_log_entry e = Some b" and "encode_key_log_entry e' = Some b"
    and "arr 64 (kl_prev_hash e)" and "arr 64 (kl_prev_hash e')"
  shows "e = e'"
proof -
  have eq: "u64_be (drive_epoch e) @ opaque (wrapped_dkr e) @ kl_prev_hash e @ opaque (admin_sig e) =
      u64_be (drive_epoch e') @ opaque (wrapped_dkr e') @ kl_prev_hash e' @ opaque (admin_sig e')"
    and fits: "opaque_fits (wrapped_dkr e)" "opaque_fits (wrapped_dkr e')"
      "opaque_fits (admin_sig e)" "opaque_fits (admin_sig e')"
    using assms(1,2)
    by (auto simp: encode_key_log_entry_def put_opaque_def opaque_def opaque_fits_def Let_def
        split: if_splits)
  from eq have 1: "drive_epoch e = drive_epoch e'"
    and 2: "opaque (wrapped_dkr e) @ kl_prev_hash e @ opaque (admin_sig e) =
      opaque (wrapped_dkr e') @ kl_prev_hash e' @ opaque (admin_sig e')"
    by (simp_all add: append_eq_append_conv)
  from opaque_codec.enc_prefix_free [OF fits(1,2) 2]
  have 3: "wrapped_dkr e = wrapped_dkr e'" and 4: "kl_prev_hash e = kl_prev_hash e'"
    and 5: "opaque (admin_sig e) = opaque (admin_sig e')"
    using assms(3,4) by simp_all
  from opaque_codec.enc_inj [OF fits(3,4) 5] 1 3 4 show ?thesis
    by (cases e; cases e') simp
qed

section \<open>Grafted snapshots\<close>

record grafted_snapshot =
  history_left :: u64
  snapshot_bundle :: bytes

definition GRAFT_MAGIC :: bytes where
  "GRAFT_MAGIC = str_bytes ''SAFEHUBG''"

definition graft_encode :: "grafted_snapshot \<Rightarrow> bytes" where
  "graft_encode g = GRAFT_MAGIC @ u64_le (history_left g) @ snapshot_bundle g"

definition graft_decode :: "bytes \<Rightarrow> grafted_snapshot option" where
  "graft_decode b =
     (if length b < 16 \<or> take 8 b \<noteq> GRAFT_MAGIC then None
      else Some \<lparr>history_left = of_le_bytes (take 8 (drop 8 b)), snapshot_bundle = drop 16 b\<rparr>)"

lemma length_GRAFT_MAGIC [simp]: "length GRAFT_MAGIC = 8"
  by (simp add: GRAFT_MAGIC_def)

text \<open>
  Graft snapshots: decoding accepts exactly the encodings, and returns the snapshot that was
  encoded; everything shorter than the 16-byte header or with another magic is refused.
\<close>

theorem graft_decode_iff: "graft_decode b = Some g \<longleftrightarrow> b = graft_encode g"
proof
  assume "graft_decode b = Some g"
  then have b: "16 \<le> length b" "take 8 b = GRAFT_MAGIC"
    "g = \<lparr>history_left = of_le_bytes (take 8 (drop 8 b)), snapshot_bundle = drop 16 b\<rparr>"
    by (auto simp: graft_decode_def split: if_splits)
  have "graft_encode g = take 8 b @ take 8 (drop 8 b) @ drop 8 (drop 8 b)"
    using b(1) by (simp add: graft_encode_def b(2,3) u64_le_of_le_bytes)
  also have "\<dots> = b" by (simp only: append_take_drop_id)
  finally show "b = graft_encode g" by simp
next
  assume "b = graft_encode g"
  then show "graft_decode b = Some g"
    by (simp add: graft_decode_def graft_encode_def)
qed

section \<open>A concrete codec for the closed examples\<close>

definition demo_hex :: hex_codec where
  "demo_hex = \<lparr>hex_encode = map (\<lambda>x. char_of (unat x)), hex_decode = (\<lambda>s. Some (map of_char s))\<rparr>"

lemma of_char_of_byte: "of_char (char_of (unat x)) = (x :: u8)"
proof -
  have "of_char (char_of (unat x)) = (of_nat (of_char (char_of (unat x))) :: u8)"
    by (simp only: of_nat_of_char)
  also have "\<dots> = of_nat (unat x mod 256)" by (simp only: of_char_of)
  also have "unat x mod 256 = unat x" using unsigned_less [of x, where ?'a = nat] by simp
  also have "of_nat (unat x) = x" by simp
  finally show ?thesis .
qed

lemma demo_hex_roundtrips: "hex_roundtrips demo_hex"
  by (simp add: hex_roundtrips_def demo_hex_def comp_def of_char_of_byte)

end
