(* ===== verification/Aead.thy ===== *)
theory Aead
  imports Canon
begin

text \<open>
  The transport AEAD of \<^verbatim>\<open>safehub-crypto/src/aead.rs\<close>: key expansion, the counter-mode pad, the
  commitment block, the outer tag, and the key-derivation helpers.  SHA-512, HMAC and HKDF are the
  parameters of \<^verbatim>\<open>prims\<close>; random nonces are arguments.
\<close>

section \<open>The construction\<close>

datatype aead_error = Encrypt | Decrypt | CounterExhausted

definition AEAD_KEY_LEN :: nat where "AEAD_KEY_LEN = 32"
definition TAG_LEN :: nat where "TAG_LEN = 32"

definition COMMIT_BLOCK :: bytes where
  "COMMIT_BLOCK =
    [0x73, 0x61, 0x66, 0x65, 0x68, 0x75, 0x62, 0x2d,
     0x76, 0x31, 0x3a, 0x6b, 0x63, 0x6f, 0x6d, 0x6d,
     0x69, 0x74, 0x2d, 0x62, 0x6c, 0x6f, 0x63, 0x6b,
     0x00, 0x00, 0x00, 0x00, 0x00, 0x00, 0x00, 0x00,
     0x00, 0x00, 0x00, 0x00, 0x00, 0x00, 0x00, 0x00,
     0x00, 0x00, 0x00, 0x00, 0x00, 0x00, 0x00, 0x03]"

lemma length_COMMIT_BLOCK [simp]: "length COMMIT_BLOCK = 48"
  by (simp add: COMMIT_BLOCK_def)

definition MAX_SEALS_PER_KEY :: u64 where
  "MAX_SEALS_PER_KEY = push_bit 32 1"

definition deterministic_nonce :: "u64 \<Rightarrow> bytes" where
  "deterministic_nonce counter = replicate 4 0 @ u64_be counter"

definition expand_aead_keys :: "prims \<Rightarrow> bytes \<Rightarrow> aead_error + bytes \<times> bytes" where
  "expand_aead_keys P key =
     (case hkdf_sha512 P key (domain_label ''aead-keys'') 64 of
        None \<Rightarrow> Inl Encrypt
      | Some okm \<Rightarrow> Inr (take 32 okm, drop 32 okm))"

text \<open>
  The \<^verbatim>\<open>while off < len\<close> loop that fills the pad: block \<open>ctr\<close> is \<open>SHA-512(pad_key, ctr)\<close>, the last
  one cut to what is left.  It ends because a block is 64 bytes.
\<close>

function pad_loop :: "prims \<Rightarrow> bytes \<Rightarrow> nat \<Rightarrow> nat \<Rightarrow> u64 \<Rightarrow> bytes" where
  "pad_loop P pad_key len off ctr =
     (if off < len then
        let block = sha512 P (pad_key @ u64_be ctr);
            tk = min (length block) (len - off)
        in take tk block @ pad_loop P pad_key len (off + tk) (ctr + 1)
      else [])"
  by pat_completeness auto
termination
  by (relation "measure (\<lambda>(P, k, len, off, ctr). len - off)") auto

declare pad_loop.simps [simp del]

definition expand_pad :: "prims \<Rightarrow> bytes \<Rightarrow> bytes \<Rightarrow> bytes \<Rightarrow> nat \<Rightarrow> bytes" where
  "expand_pad P enc_key nonce aad len =
     (let pad_key = hmac_sha512 P enc_key
            (domain_label ''aead-pad'' @ nonce @ aad @ u64_be (of_nat len))
      in pad_loop P pad_key len 0 0)"

definition outer_hmac :: "prims \<Rightarrow> bytes \<Rightarrow> bytes \<Rightarrow> bytes \<Rightarrow> bytes" where
  "outer_hmac P mac_key aad body = take TAG_LEN (hmac_sha512 P mac_key (aad @ body))"

definition seal_with_nonce :: "prims \<Rightarrow> bytes \<Rightarrow> bytes \<Rightarrow> bytes \<Rightarrow> bytes \<Rightarrow> aead_error + bytes" where
  "seal_with_nonce P key aad plaintext nonce =
     rbind (expand_aead_keys P key) (\<lambda>(enc, mac).
       let body_len = length COMMIT_BLOCK + length plaintext;
           pad = expand_pad P enc nonce aad body_len;
           padded = xor_pad (COMMIT_BLOCK @ plaintext) pad;
           tag = outer_hmac P mac aad padded
       in Inr (nonce @ padded @ tag))"

text \<open>\<^verbatim>\<open>seal\<close> draws the nonce; the draw is an argument here.\<close>

definition aead_seal :: "prims \<Rightarrow> bytes \<Rightarrow> bytes \<Rightarrow> bytes \<Rightarrow> bytes \<Rightarrow> aead_error + bytes" where
  "aead_seal P key aad plaintext rng_nonce = seal_with_nonce P key aad plaintext (fix_len 12 rng_nonce)"

definition seal_deterministic :: "prims \<Rightarrow> bytes \<Rightarrow> bytes \<Rightarrow> bytes \<Rightarrow> u64 \<Rightarrow> aead_error + bytes" where
  "seal_deterministic P key aad plaintext counter =
     (if counter \<ge> MAX_SEALS_PER_KEY then Inl CounterExhausted
      else seal_with_nonce P key aad plaintext (deterministic_nonce counter))"

definition aead_open :: "prims \<Rightarrow> bytes \<Rightarrow> bytes \<Rightarrow> bytes \<Rightarrow> aead_error + bytes" where
  "aead_open P key aad sealed =
     (if length sealed < 12 + length COMMIT_BLOCK + TAG_LEN then Inl Decrypt
      else
        let body = take (length sealed - TAG_LEN) sealed;
            tag = drop (length sealed - TAG_LEN) sealed;
            nonce = take 12 body;
            ct_body = drop 12 body
        in rbind (expand_aead_keys P key) (\<lambda>(enc, mac).
             if \<not> ct_eq tag (outer_hmac P mac aad ct_body) then Inl Decrypt
             else
               let pad = expand_pad P enc nonce aad (length ct_body);
                   buf = xor_pad ct_body pad
               in if length buf < length COMMIT_BLOCK \<or> take (length COMMIT_BLOCK) buf \<noteq> COMMIT_BLOCK
                  then Inl Decrypt
                  else Inr (drop (length COMMIT_BLOCK) buf)))"

section \<open>Key derivation\<close>

definition derive_head_seal_key :: "prims \<Rightarrow> bytes \<Rightarrow> u64 \<Rightarrow> aead_error + bytes" where
  "derive_head_seal_key P epoch_key sq =
     ok_or Encrypt (hkdf_sha512 P epoch_key (domain_label ''head-seal'' @ u64_be sq) AEAD_KEY_LEN)"

definition derive_cas_seal_key :: "prims \<Rightarrow> bytes \<Rightarrow> aead_error + bytes" where
  "derive_cas_seal_key P secret =
     ok_or Encrypt (hkdf_sha512 P secret (domain_label ''cas-obj-key'') AEAD_KEY_LEN)"

definition derive_secret_seal_key :: "prims \<Rightarrow> bytes \<Rightarrow> aead_error + bytes" where
  "derive_secret_seal_key P secret =
     ok_or Encrypt (hkdf_sha512 P secret (domain_label ''secret-seal-key'') AEAD_KEY_LEN)"

section \<open>Lengths\<close>

lemma length_pad_loop: "length (pad_loop P k len off ctr) = len - off"
proof (induction P k len off ctr rule: pad_loop.induct)
  case (1 P k len off ctr)
  then show ?case
    by (subst pad_loop.simps) (simp add: Let_def)
qed

lemma length_expand_pad [simp, byte_len]: "length (expand_pad P k n a len) = len"
  by (simp add: expand_pad_def length_pad_loop)

lemma length_outer_hmac [simp, byte_len]: "length (outer_hmac P k a b) = TAG_LEN"
  by (simp add: outer_hmac_def TAG_LEN_def)

lemma length_deterministic_nonce [simp, byte_len]: "length (deterministic_nonce c) = 12"
  by (simp add: deterministic_nonce_def)

lemma expand_aead_keys_ok: "\<exists>enc mac. expand_aead_keys P key = Inr (enc, mac)"
  by (simp add: expand_aead_keys_def hkdf_sha512_def)

lemma derive_seal_keys_ok:
  "\<exists>k. derive_head_seal_key P ek s = Inr k \<and> length k = 32"
  "\<exists>k. derive_cas_seal_key P sec = Inr k \<and> length k = 32"
  "\<exists>k. derive_secret_seal_key P sec = Inr k \<and> length k = 32"
  by (simp_all add: derive_head_seal_key_def derive_cas_seal_key_def derive_secret_seal_key_def
      hkdf_sha512_def AEAD_KEY_LEN_def)

section \<open>Opening inverts sealing\<close>

lemma seal_with_nonce_Inr_iff:
  assumes "expand_aead_keys P key = Inr (enc, mac)"
  shows "seal_with_nonce P key aad pt nonce = Inr s \<longleftrightarrow>
    (let padded = xor_pad (COMMIT_BLOCK @ pt) (expand_pad P enc nonce aad (48 + length pt))
     in s = nonce @ padded @ outer_hmac P mac aad padded)"
  using assms by (auto simp: seal_with_nonce_def Let_def)

lemma aead_open_layout:
  assumes "expand_aead_keys P key = Inr (enc, mac)"
    and "length nonce = 12" and "length tag = TAG_LEN"
  shows "aead_open P key aad (nonce @ ct @ tag) =
    (if length ct < 48 \<or> tag \<noteq> outer_hmac P mac aad ct \<or>
        take 48 (xor_pad ct (expand_pad P enc nonce aad (length ct))) \<noteq> COMMIT_BLOCK
     then Inl Decrypt
     else Inr (drop 48 (xor_pad ct (expand_pad P enc nonce aad (length ct)))))"
  using assms by (simp add: aead_open_def Let_def TAG_LEN_def)

lemma sealed_split:
  assumes "12 + 48 + TAG_LEN \<le> length s"
  obtains nonce ct tag where "s = nonce @ ct @ tag" "length nonce = 12" "length tag = TAG_LEN"
proof
  let ?n = "length s - TAG_LEN"
  show "s = take 12 (take ?n s) @ drop 12 (take ?n s) @ drop ?n s"
    by (simp only: append_take_drop_id append_assoc [symmetric])
  show "length (take 12 (take ?n s)) = 12" and "length (drop ?n s) = TAG_LEN"
    using assms by (auto simp: TAG_LEN_def)
qed

lemma aead_open_Inr_iff:
  "aead_open P key aad s = Inr pt \<longleftrightarrow>
     (\<exists>nonce. length nonce = 12 \<and> seal_with_nonce P key aad pt nonce = Inr s)"
proof -
  obtain enc mac where k: "expand_aead_keys P key = Inr (enc, mac)"
    using expand_aead_keys_ok by blast
  show ?thesis
  proof
    assume op: "aead_open P key aad s = Inr pt"
    then have "12 + 48 + TAG_LEN \<le> length s"
      by (auto simp: aead_open_def split: if_splits)
    then obtain nonce ct tag where s: "s = nonce @ ct @ tag" "length nonce = 12" "length tag = TAG_LEN"
      by (rule sealed_split)
    let ?pad = "expand_pad P enc nonce aad (length ct)"
    from op have ct: "48 \<le> length ct" "tag = outer_hmac P mac aad ct"
      "take 48 (xor_pad ct ?pad) = COMMIT_BLOCK" "pt = drop 48 (xor_pad ct ?pad)"
      unfolding s aead_open_layout [OF k s(2,3)] by (auto split: if_splits)
    then have "xor_pad ct ?pad = COMMIT_BLOCK @ pt"
      by (metis append_take_drop_id)
    then have "ct = xor_pad (COMMIT_BLOCK @ pt) ?pad"
      by (simp add: xor_pad_eq_iff [symmetric])
    moreover have "length ct = 48 + length pt"
      using ct(1,4) by simp
    ultimately have "seal_with_nonce P key aad pt nonce = Inr s"
      unfolding seal_with_nonce_Inr_iff [OF k] Let_def using s ct(2) by metis
    with s(2) show "\<exists>nonce. length nonce = 12 \<and> seal_with_nonce P key aad pt nonce = Inr s"
      by blast
  next
    assume "\<exists>nonce. length nonce = 12 \<and> seal_with_nonce P key aad pt nonce = Inr s"
    then obtain nonce where n: "length nonce = 12" "seal_with_nonce P key aad pt nonce = Inr s"
      by blast
    then show "aead_open P key aad s = Inr pt"
      by (simp add: seal_with_nonce_Inr_iff [OF k] Let_def aead_open_layout [OF k])
  qed
qed

lemma seal_with_nonce_ok: "\<exists>s. seal_with_nonce P key aad pt nonce = Inr s"
  using expand_aead_keys_ok [of P key] by (auto simp: seal_with_nonce_def Let_def)

section \<open>The interface its clients rely on\<close>

text \<open>
  A sealed box seals under a key, associated data and a nonce, and opens exactly what it sealed.
  Sealing is total; the client's proofs use only these two laws.
\<close>

locale sealed_box =
  fixes seal :: "bytes \<Rightarrow> bytes \<Rightarrow> bytes \<Rightarrow> bytes \<Rightarrow> 'e + bytes"
    and open_box :: "bytes \<Rightarrow> bytes \<Rightarrow> bytes \<Rightarrow> 'e + bytes"
  assumes seal_total: "\<exists>s. seal key aad pt nonce = Inr s"
    and open_iff: "open_box key aad s = Inr pt \<longleftrightarrow>
      (\<exists>nonce. length nonce = 12 \<and> seal key aad pt nonce = Inr s)"
begin

lemma open_seal: "length nonce = 12 \<Longrightarrow> seal key aad pt nonce = Inr s \<Longrightarrow> open_box key aad s = Inr pt"
  using open_iff by blast

lemma seal_inj:
  assumes "length n = 12" "length n' = 12" "seal key aad pt n = Inr s" "seal key aad pt' n' = Inr s"
  shows "pt = pt'"
  using open_seal [OF assms(1,3)] open_seal [OF assms(2,4)] by simp

text \<open>Opening a sequence of boxes, each with its own associated data, gives back the plaintexts.\<close>

lemma open_all:
  assumes "\<And>i. i < length ps \<Longrightarrow> length (ns i) = 12"
    and "\<And>i. i < length ps \<Longrightarrow> seal key (aads i) (ps ! i) (ns i) = Inr (cs ! i)"
  shows "i < length ps \<Longrightarrow> open_box key (aads i) (cs ! i) = Inr (ps ! i)"
  using assms open_seal by blast

end

interpretation committing_aead: sealed_box "seal_with_nonce P" "aead_open P" for P
  by unfold_locales (simp_all add: seal_with_nonce_ok aead_open_Inr_iff)

section \<open>Properties\<close>

text \<open>
  C25.  Opening succeeds on exactly the sealed boxes: \<^verbatim>\<open>open\<close> returns \<open>pt\<close> if and only if the input
  is what \<^verbatim>\<open>seal\<close> produces for \<open>pt\<close> under this key, this associated data and some 12-byte nonce.
  Every other byte string, truncated ones included, is refused.
\<close>

theorem aead_open_exactly_sealed:
  "aead_open P key aad s = Inr pt \<longleftrightarrow>
     (\<exists>nonce. length nonce = 12 \<and> seal_with_nonce P key aad pt nonce = Inr s)"
  by (rule committing_aead.open_iff)

lemma u64_add_of_nat_Suc: "(c :: u64) + 1 + of_nat n = c + of_nat (Suc n)"
  by simp

lemma pad_loop_nth:
  "i < len - off \<Longrightarrow>
     pad_loop P k len off ctr ! i = sha512 P (k @ u64_be (ctr + of_nat (i div 64))) ! (i mod 64)"
proof (induction P k len off ctr arbitrary: i rule: pad_loop.induct)
  case (1 P k len off ctr)
  let ?tk = "min 64 (len - off)"
  have off: "off < len" using "1.prems" by simp
  have step: "pad_loop P k len off ctr =
      take ?tk (sha512 P (k @ u64_be ctr)) @ pad_loop P k len (off + ?tk) (ctr + 1)"
    using off by (subst pad_loop.simps) (simp add: Let_def)
  show ?case
  proof (cases "i < 64")
    case True
    then show ?thesis
      using "1.prems" by (simp add: step nth_append)
  next
    case False
    then obtain j where j: "i = 64 + j" by (metis le_Suc_ex not_less)
    have tk: "?tk = 64" using "1.prems" False by simp
    have "pad_loop P k len (off + ?tk) (ctr + 1) ! j =
        sha512 P (k @ u64_be (ctr + 1 + of_nat (j div 64))) ! (j mod 64)"
      using "1.IH" [OF off refl refl, of j] "1.prems" j tk by simp
    moreover have "(64 + j) div 64 = Suc (j div 64)" by simp
    ultimately show ?thesis
      using j tk by (simp add: step nth_append add.assoc)
  qed
qed

text \<open>
  The pad is a counter-mode key stream: byte \<open>i\<close> is byte \<open>i mod 64\<close> of block \<open>i div 64\<close>,
  SHA-512 of the pad key and the block number, for every length (no 255-block limit).
\<close>

theorem expand_pad_counter_mode:
  assumes "i < len"
  shows "expand_pad P enc nonce aad len ! i =
    sha512 P (hmac_sha512 P enc (domain_label ''aead-pad'' @ nonce @ aad @ u64_be (of_nat len)) @
              u64_be (of_nat (i div 64))) ! (i mod 64)"
  using pad_loop_nth [of i len 0] assms by (simp add: expand_pad_def Let_def)

theorem expand_pad_counter_mode_witness:
  "expand_pad demo_prims [] [] [] 200 ! 130 =
    sha512 demo_prims (hmac_sha512 demo_prims [] (domain_label ''aead-pad'' @ u64_be 200) @ u64_be 2) ! 2"
  using expand_pad_counter_mode [of 130 200 demo_prims "[]" "[]" "[]"] by simp

lemma deterministic_nonce_inject [simp]: "deterministic_nonce c = deterministic_nonce d \<longleftrightarrow> c = d"
  by (simp add: deterministic_nonce_def)

lemma take_12_sealed: "length n = 12 \<Longrightarrow> seal_with_nonce P key aad pt n = Inr s \<Longrightarrow> take 12 s = n"
  using expand_aead_keys_ok [of P key] by (auto simp: seal_with_nonce_def Let_def)

text \<open>
  Deterministic sealing never repeats a nonce under a key: it returns only for counters below
  2^32, the box opens to the plaintext, and boxes sealed under different counters differ.
\<close>

theorem seal_deterministic_unique:
  assumes "seal_deterministic P key aad pt c = Inr s"
    and "seal_deterministic P key aad' pt' d = Inr t" and "c \<noteq> d"
  shows "c < MAX_SEALS_PER_KEY \<and> aead_open P key aad s = Inr pt \<and> take 12 s \<noteq> take 12 t"
proof -
  from assms(1,2) have c: "c < MAX_SEALS_PER_KEY"
    and s: "seal_with_nonce P key aad pt (deterministic_nonce c) = Inr s"
    and t: "seal_with_nonce P key aad' pt' (deterministic_nonce d) = Inr t"
    by (auto simp: seal_deterministic_def split: if_splits)
  from assms(3) show ?thesis
    using c take_12_sealed [OF length_deterministic_nonce s] take_12_sealed [OF length_deterministic_nonce t]
      committing_aead.open_seal [OF length_deterministic_nonce s] by simp
qed

lemma seal_deterministic_ok:
  "c < MAX_SEALS_PER_KEY \<Longrightarrow> \<exists>s. seal_deterministic P key aad pt c = Inr s"
  using seal_with_nonce_ok by (simp add: seal_deterministic_def)

theorem seal_deterministic_unique_witness:
  "\<exists>s t. seal_deterministic demo_prims [] [] [7] 0 = Inr s \<and>
     seal_deterministic demo_prims [] [] [8] 1 = Inr t \<and> take 12 s \<noteq> take 12 t"
proof -
  have "0 < MAX_SEALS_PER_KEY" "1 < MAX_SEALS_PER_KEY"
    by (simp_all add: MAX_SEALS_PER_KEY_def push_bit_eq_mult)
  then obtain s t where "seal_deterministic demo_prims [] [] [7] 0 = Inr s"
    and "seal_deterministic demo_prims [] [] [8] 1 = Inr t"
    using seal_deterministic_ok by meson
  with seal_deterministic_unique [of demo_prims "[]" "[]" "[7]" 0 s "[]" "[8]" 1 t] show ?thesis
    by simp
qed

lemma aead_aad_mismatch:
  assumes "expand_aead_keys P key = Inr (enc, mac)"
    and "length n = 12" and "seal_with_nonce P key aad pt n = Inr s" and "aad' \<noteq> aad"
    and "inj_on (\<lambda>m. take TAG_LEN (hmac_sha512 P mac m))
           {aad @ drop 12 (take (length s - TAG_LEN) s), aad' @ drop 12 (take (length s - TAG_LEN) s)}"
  shows "aead_open P key aad' s = Inl Decrypt"
proof -
  let ?ct = "xor_pad (COMMIT_BLOCK @ pt) (expand_pad P enc n aad (48 + length pt))"
  have s: "s = n @ ?ct @ outer_hmac P mac aad ?ct"
    using assms(3) by (simp add: seal_with_nonce_Inr_iff [OF assms(1)] Let_def)
  then have ct: "drop 12 (take (length s - TAG_LEN) s) = ?ct"
    using assms(2) by (simp add: TAG_LEN_def)
  have "outer_hmac P mac aad ?ct \<noteq> outer_hmac P mac aad' ?ct"
    using assms(4,5) unfolding ct by (auto simp: outer_hmac_def inj_on_def)
  then show ?thesis
    by (subst s, subst aead_open_layout [OF assms(1,2)]) simp_all
qed

end
