(* ===== verification/Dkr.thy ===== *)
theory Dkr
  imports Aead
begin

text \<open>
  Dual key regression, \<^verbatim>\<open>safehub-crypto/src/dkr.rs\<close>: interval tokens, segments and the operations
  that start a new segment under a fresh seed.  Random draws are arguments; every operation
  returns the new state next to its result, because \<^verbatim>\<open>advance\<close> seeds the state even when it fails.
\<close>

section \<open>State and operations\<close>

datatype crypto_error =
  NotAdmin | UnknownMember | EpochOutOfWindow u64 u64 u64 | Kdf | AeadFailed aead_error
| Mls string | Stub string

definition SEC_PARAM_LEN :: nat where "SEC_PARAM_LEN = 48"

record dkr_interval =
  iv_from :: u64
  iv_to :: u64
  iv_token :: bytes

definition DKR_SEGMENT_CAPACITY :: u64 where
  "DKR_SEGMENT_CAPACITY = push_bit 20 1"

record interval_dkr =
  dkr_seed :: bytes
  dkr_epoch :: u64
  segment_start :: u64
  segment_epochs :: u64
  segment_gen :: u64

definition with_seed :: "bytes \<Rightarrow> interval_dkr" where
  "with_seed s = \<lparr>dkr_seed = s, dkr_epoch = 0, segment_start = 0, segment_epochs = 0, segment_gen = 0\<rparr>"

definition ensure_seeded :: "bytes \<Rightarrow> interval_dkr \<Rightarrow> interval_dkr" where
  "ensure_seeded rng d =
     (if dkr_seed d = replicate SEC_PARAM_LEN 0 then d\<lparr>dkr_seed := fix_len SEC_PARAM_LEN rng\<rparr> else d)"

definition current_interval :: "interval_dkr \<Rightarrow> dkr_interval" where
  "current_interval d = \<lparr>iv_from = segment_start d, iv_to = dkr_epoch d, iv_token = dkr_seed d\<rparr>"

definition reinit_segment :: "bytes \<Rightarrow> u64 \<Rightarrow> interval_dkr \<Rightarrow> interval_dkr \<times> dkr_interval" where
  "reinit_segment rng epoch d =
     (let d' = d\<lparr>dkr_seed := fix_len SEC_PARAM_LEN rng, dkr_epoch := epoch, segment_start := epoch,
                 segment_epochs := 0, segment_gen := saturating_add (segment_gen d) 1\<rparr>
      in (d', current_interval d'))"

definition dkr_init :: "bytes \<Rightarrow> interval_dkr \<Rightarrow> interval_dkr \<times> dkr_interval" where
  "dkr_init rng d =
     (let d' = (ensure_seeded rng d)\<lparr>dkr_epoch := 0, segment_start := 0, segment_epochs := 0, segment_gen := 0\<rparr>
      in (d', current_interval d'))"

definition dkr_advance ::
    "bytes \<Rightarrow> bytes \<Rightarrow> u64 \<Rightarrow> interval_dkr \<Rightarrow> interval_dkr \<times> (crypto_error + dkr_interval)" where
  "dkr_advance rng rng' epoch d0 =
     (let d = ensure_seeded rng d0
      in if epoch < dkr_epoch d
         then (d, Inl (EpochOutOfWindow epoch (segment_start d) (dkr_epoch d)))
         else
           let delta = saturating_sub epoch (segment_start d) + 1
           in if delta > DKR_SEGMENT_CAPACITY
              then (let (d', iv) = reinit_segment rng' epoch d in (d', Inr iv))
              else (let d' = d\<lparr>dkr_epoch := epoch, segment_epochs := delta\<rparr>
                    in (d', Inr (current_interval d'))))"

definition forward_block :: "bytes \<Rightarrow> u64 \<Rightarrow> interval_dkr \<Rightarrow> interval_dkr" where
  "forward_block rng epoch d =
     d\<lparr>dkr_seed := fix_len SEC_PARAM_LEN rng, dkr_epoch := epoch, segment_start := epoch,
       segment_epochs := 0, segment_gen := saturating_add (segment_gen d) 1\<rparr>"

definition backward_block :: "bytes \<Rightarrow> u64 \<Rightarrow> interval_dkr \<Rightarrow> interval_dkr \<times> dkr_interval" where
  "backward_block rng epoch d =
     (let d' = d\<lparr>dkr_seed := fix_len SEC_PARAM_LEN rng, dkr_epoch := epoch, segment_start := epoch,
                 segment_epochs := 0, segment_gen := saturating_add (segment_gen d) 1\<rparr>
      in (d', current_interval d'))"

definition dkr_epoch_info :: "u64 \<Rightarrow> bytes" where
  "dkr_epoch_info epoch = domain_label (''dkr-epoch:'' @ word_string epoch)"

definition derive_epoch_key :: "prims \<Rightarrow> dkr_interval \<Rightarrow> u64 \<Rightarrow> crypto_error + bytes" where
  "derive_epoch_key P iv epoch =
     (if epoch < iv_from iv \<or> epoch > iv_to iv
      then Inl (EpochOutOfWindow epoch (iv_from iv) (iv_to iv))
      else ok_or Kdf (hkdf_sha512 P (iv_token iv) (dkr_epoch_info epoch) AEAD_KEY_LEN))"

definition cap_interval :: "dkr_interval \<Rightarrow> u64 \<Rightarrow> dkr_interval" where
  "cap_interval iv lst = \<lparr>iv_from = iv_from iv, iv_to = min lst (iv_to iv), iv_token = iv_token iv\<rparr>"

section \<open>Windows\<close>

lemma derive_epoch_key_ok_iff:
  "is_ok (derive_epoch_key P iv e) \<longleftrightarrow> iv_from iv \<le> e \<and> e \<le> iv_to iv"
  by (auto simp: derive_epoch_key_def hkdf_sha512_def AEAD_KEY_LEN_def not_less)

lemma derive_epoch_key_cap:
  "derive_epoch_key P (cap_interval iv lst) e =
     (if iv_from iv \<le> e \<and> e \<le> iv_to iv \<and> lst < e
      then Inl (EpochOutOfWindow e (iv_from iv) (min lst (iv_to iv)))
      else if iv_from iv \<le> e \<and> e \<le> iv_to iv then derive_epoch_key P iv e
      else Inl (EpochOutOfWindow e (iv_from iv) (min lst (iv_to iv))))"
  by (auto simp: derive_epoch_key_def cap_interval_def not_less not_le min_less_iff_disj)

text \<open>
  Capping a removed member's interval at the removal epoch: the capped interval derives
  exactly the epoch keys of the original window up to that epoch, the same keys as before, and
  reports an error for every later epoch.
\<close>

theorem cap_interval_revokes:
  "(\<exists>k. derive_epoch_key P (cap_interval iv lst) e = Inr k) =
     (iv_from iv \<le> e \<and> e \<le> iv_to iv \<and> e \<le> lst) \<and>
   (derive_epoch_key P (cap_interval iv lst) e = Inr k) =
     (derive_epoch_key P iv e = Inr k \<and> e \<le> lst)"
  using derive_epoch_key_ok_iff [of P iv e]
  by (auto simp: derive_epoch_key_cap is_ok_iff not_le split: if_splits)

text \<open>The HKDF inputs of different epochs are different, so no two epochs share one by construction.\<close>

lemma dkr_epoch_info_inject: "dkr_epoch_info e = dkr_epoch_info e' \<longleftrightarrow> e = e'"
  by (simp add: dkr_epoch_info_def domain_label_inject word_unat_eq_iff)

section \<open>Segments\<close>

text \<open>
  The segment invariant: the tip is inside the segment, and a segment spans at most the capacity
  of \<open>2^20\<close> epochs.
\<close>

definition dkr_inv :: "interval_dkr \<Rightarrow> bool" where
  "dkr_inv d \<longleftrightarrow> segment_start d \<le> dkr_epoch d \<and>
     unat (dkr_epoch d) - unat (segment_start d) < 2 ^ 20"

lemmas dkr_op_defs = with_seed_def ensure_seeded_def reinit_segment_def dkr_init_def
  dkr_advance_def forward_block_def backward_block_def current_interval_def

lemma unat_DKR_SEGMENT_CAPACITY: "unat DKR_SEGMENT_CAPACITY = 2 ^ 20"
  by (simp add: DKR_SEGMENT_CAPACITY_def push_bit_eq_mult)

lemma dkr_inv_restart: "dkr_inv (d\<lparr>dkr_seed := s, dkr_epoch := e, segment_start := e, segment_epochs := c, segment_gen := g\<rparr>)"
  by (simp add: dkr_inv_def)

lemma dkr_inv_init: "dkr_inv (with_seed s)" "dkr_inv (fst (dkr_init r d))"
  by (simp_all add: dkr_op_defs dkr_inv_def Let_def)

lemma dkr_inv_blocks:
  "dkr_inv (forward_block r e d)" "dkr_inv (fst (backward_block r e d))" "dkr_inv (fst (reinit_segment r e d))"
  by (simp_all add: forward_block_def backward_block_def reinit_segment_def dkr_inv_restart Let_def)

lemma ensure_seeded_fields [simp]:
  "dkr_epoch (ensure_seeded r d) = dkr_epoch d" "segment_start (ensure_seeded r d) = segment_start d"
  "segment_gen (ensure_seeded r d) = segment_gen d"
  by (simp_all add: ensure_seeded_def)

lemma dkr_inv_ensure_seeded [simp]: "dkr_inv (ensure_seeded r d) = dkr_inv d"
  by (simp add: dkr_inv_def)

lemma dkr_inv_advance:
  assumes "dkr_inv d" and "e \<noteq> - 1"
  shows "dkr_inv (fst (dkr_advance r r' e d))"
proof (cases "e < dkr_epoch d")
  case True
  then show ?thesis using assms(1) by (simp add: dkr_advance_def Let_def)
next
  case False
  let ?s = "segment_start d"
  have le: "?s \<le> e" using assms(1) False by (auto simp: dkr_inv_def)
  have "saturating_sub e ?s \<noteq> - 1"
  proof
    assume "saturating_sub e ?s = - 1"
    then have "unat e - unat ?s = 2 ^ 64 - 1"
      by (metis unat_minus_one_u64 unat_saturating_sub)
    then have "unat e = unat (- 1 :: u64)"
      using unat_u64_bound [of e] by (simp add: unat_minus_one_u64)
    with assms(2) show False by (metis word_unat_eq_iff)
  qed
  then have delta: "unat (saturating_sub e ?s + 1) = unat e - unat ?s + 1"
    by (simp add: unat_add_1_u64 unat_saturating_sub)
  show ?thesis
  proof (cases "saturating_sub e ?s + 1 > DKR_SEGMENT_CAPACITY")
    case True
    with False show ?thesis
      using dkr_inv_blocks(3) by (simp add: dkr_advance_def Let_def split: prod.splits) (metis fst_conv)
  next
    case small: False
    then have "unat e - unat ?s < 2 ^ 20"
      by (simp add: not_less word_le_nat_alt delta unat_DKR_SEGMENT_CAPACITY)
    with False small le show ?thesis
      by (simp add: dkr_advance_def Let_def dkr_inv_def)
  qed
qed

text \<open>
  Runs.  A run starts from a nonzero seed and applies the operations in any order, at any epochs
  below \<open>2^64 - 1\<close>; each random draw is fresh: nonzero and not a seed used before.  \<open>iss\<close> collects
  the intervals handed out, \<open>old\<close> the seeds of earlier segments.
\<close>

definition fresh_draw :: "bytes \<Rightarrow> interval_dkr \<Rightarrow> bytes set \<Rightarrow> bool" where
  "fresh_draw r d old \<longleftrightarrow>
     fix_len SEC_PARAM_LEN r \<notin> insert (dkr_seed d) old \<and>
     fix_len SEC_PARAM_LEN r \<noteq> replicate SEC_PARAM_LEN 0"

inductive dkr_run :: "interval_dkr \<Rightarrow> dkr_interval list \<Rightarrow> bytes set \<Rightarrow> bool" where
  dkr_start: "s \<noteq> replicate SEC_PARAM_LEN 0 \<Longrightarrow> dkr_run (with_seed s) [] {}"
| dkr_advance_ok: "dkr_run d iss old \<Longrightarrow> fresh_draw r' d old \<Longrightarrow> e \<noteq> - 1 \<Longrightarrow>
    dkr_advance r r' e d = (d', Inr iv) \<Longrightarrow>
    dkr_run d' (iv # iss) (if dkr_seed d' = dkr_seed d then old else insert (dkr_seed d) old)"
| dkr_advance_err: "dkr_run d iss old \<Longrightarrow> dkr_advance r r' e d = (d', Inl err) \<Longrightarrow> dkr_run d' iss old"
| dkr_forward: "dkr_run d iss old \<Longrightarrow> fresh_draw r d old \<Longrightarrow>
    dkr_run (forward_block r e d) iss (insert (dkr_seed d) old)"
| dkr_backward: "dkr_run d iss old \<Longrightarrow> fresh_draw r d old \<Longrightarrow> backward_block r e d = (d', iv) \<Longrightarrow>
    dkr_run d' (iv # iss) (insert (dkr_seed d) old)"

text \<open>
  The invariant of runs: a map from tokens to segment starts explains every interval handed out,
  and no interval exceeds the capacity.
\<close>

definition issued_ok :: "(bytes \<Rightarrow> u64) \<Rightarrow> bytes set \<Rightarrow> dkr_interval \<Rightarrow> bool" where
  "issued_ok st used iv \<longleftrightarrow>
     iv_token iv \<in> used \<and> iv_from iv = st (iv_token iv) \<and>
     iv_from iv \<le> iv_to iv \<and> unat (iv_to iv) - unat (iv_from iv) < 2 ^ 20"

definition dkr_run_inv :: "interval_dkr \<Rightarrow> dkr_interval list \<Rightarrow> bytes set \<Rightarrow> bool" where
  "dkr_run_inv d iss old \<longleftrightarrow>
     dkr_inv d \<and> dkr_seed d \<notin> old \<and> dkr_seed d \<noteq> replicate SEC_PARAM_LEN 0 \<and>
     (\<exists>st. st (dkr_seed d) = segment_start d \<and>
        list_all (issued_ok st (insert (dkr_seed d) old)) iss)"

lemma issued_ok_fresh:
  assumes "issued_ok st used iv" and "s \<notin> used"
  shows "issued_ok (st(s := e)) (insert s used) iv"
  using assms by (auto simp: issued_ok_def)

lemma issued_ok_current:
  assumes "dkr_inv d" and "st (dkr_seed d) = segment_start d"
  shows "issued_ok st (insert (dkr_seed d) old) (current_interval d)"
  using assms by (simp add: issued_ok_def current_interval_def dkr_inv_def)

lemma dkr_run_inv_restart:
  assumes "dkr_run_inv d iss old" and "fresh_draw r d old"
    and d': "d' = d\<lparr>dkr_seed := fix_len SEC_PARAM_LEN r, dkr_epoch := e, segment_start := e,
                 segment_epochs := c, segment_gen := g\<rparr>"
  shows "dkr_run_inv d' iss (insert (dkr_seed d) old)"
    and "dkr_run_inv d' (current_interval d' # iss) (insert (dkr_seed d) old)"
proof -
  let ?s = "fix_len SEC_PARAM_LEN r" and ?used = "insert (dkr_seed d) old"
  from assms(1) obtain st where "list_all (issued_ok st ?used) iss"
    by (auto simp: dkr_run_inv_def)
  moreover have new: "?s \<notin> ?used" "?s \<noteq> replicate SEC_PARAM_LEN 0"
    using assms(2) by (simp_all add: fresh_draw_def)
  ultimately have iss: "list_all (issued_ok (st(?s := e)) (insert ?s ?used)) iss"
    by (auto simp: list_all_iff issued_ok_fresh)
  have seed: "dkr_seed d' = ?s" "segment_start d' = e" and inv: "dkr_inv d'"
    by (simp_all add: d' dkr_inv_restart)
  have cur: "issued_ok (st(?s := e)) (insert ?s ?used) (current_interval d')"
    using issued_ok_current [OF inv, of "st(?s := e)" ?used] by (simp add: seed)
  show "dkr_run_inv d' iss ?used"
    unfolding dkr_run_inv_def seed using inv new iss by (intro conjI exI [of _ "st(?s := e)"]) simp_all
  show "dkr_run_inv d' (current_interval d' # iss) ?used"
    unfolding dkr_run_inv_def seed using inv new iss cur
    by (intro conjI exI [of _ "st(?s := e)"]) simp_all
qed

lemma dkr_advance_cases:
  assumes "dkr_advance r r' e d = (d', res)" and "dkr_seed d \<noteq> replicate SEC_PARAM_LEN 0"
  obtains (err) "d' = d" "\<exists>x. res = Inl x"
  | (reinit) "d' = fst (reinit_segment r' e d)" "res = Inr (current_interval d')"
  | (same) "dkr_epoch d \<le> e" "\<exists>c. d' = d\<lparr>dkr_epoch := e, segment_epochs := c\<rparr>" "res = Inr (current_interval d')"
  using assms
  by (auto simp: dkr_advance_def ensure_seeded_def reinit_segment_def Let_def not_less split: if_splits)

lemma dkr_run_inv_advance:
  assumes "dkr_run_inv d iss old" and "fresh_draw r' d old" and "e \<noteq> - 1"
    and "dkr_advance r r' e d = (d', Inr iv)"
  shows "dkr_run_inv d' (iv # iss) (if dkr_seed d' = dkr_seed d then old else insert (dkr_seed d) old)"
proof -
  have nz: "dkr_seed d \<noteq> replicate SEC_PARAM_LEN 0"
    using assms(1) by (simp add: dkr_run_inv_def)
  have inv: "dkr_inv d'"
    using dkr_inv_advance [of d e r r'] assms by (simp add: dkr_run_inv_def)
  from assms(4) nz show ?thesis
  proof (cases rule: dkr_advance_cases)
    case err
    then show ?thesis by simp
  next
    case reinit
    then have d': "d' = d\<lparr>dkr_seed := fix_len SEC_PARAM_LEN r', dkr_epoch := e, segment_start := e,
        segment_epochs := 0, segment_gen := saturating_add (segment_gen d) 1\<rparr>"
      by (simp add: reinit_segment_def Let_def)
    have "dkr_seed d' \<noteq> dkr_seed d"
      using assms(2) by (simp add: d' fresh_draw_def)
    with dkr_run_inv_restart(2) [OF assms(1,2) d'] reinit(2) show ?thesis by simp
  next
    case same
    then obtain c where d': "d' = d\<lparr>dkr_epoch := e, segment_epochs := c\<rparr>" by blast
    from assms(1) obtain st where st: "st (dkr_seed d) = segment_start d"
      and iss: "list_all (issued_ok st (insert (dkr_seed d) old)) iss"
      by (auto simp: dkr_run_inv_def)
    have keep: "dkr_seed d' = dkr_seed d" "segment_start d' = segment_start d"
      by (simp_all add: d')
    have "issued_ok st (insert (dkr_seed d) old) iv"
      using issued_ok_current [OF inv, of st old] same(3) st by (simp add: keep)
    moreover have "dkr_seed d \<notin> old" using assms(1) by (simp add: dkr_run_inv_def)
    ultimately show ?thesis
      unfolding dkr_run_inv_def keep using inv nz st iss by auto
  qed
qed

lemma dkr_run_invariant: "dkr_run d iss old \<Longrightarrow> dkr_run_inv d iss old"
proof (induction rule: dkr_run.induct)
  case (dkr_start s)
  have "\<exists>st. st (dkr_seed (with_seed s)) = segment_start (with_seed s)" by (rule exI [of _ "\<lambda>_. 0"]) (simp add: with_seed_def)
  with dkr_start show ?case by (simp add: dkr_run_inv_def dkr_inv_init) (simp add: with_seed_def)
next
  case (dkr_advance_ok d iss old r' e r d' iv)
  then show ?case by (blast intro: dkr_run_inv_advance)
next
  case (dkr_advance_err d iss old r r' e d' err)
  then have "dkr_seed d \<noteq> replicate SEC_PARAM_LEN 0" by (simp add: dkr_run_inv_def)
  from dkr_advance_err.hyps(2) this dkr_advance_err.IH show ?case
    by (cases rule: dkr_advance_cases) auto
next
  case (dkr_forward d iss old r e)
  from dkr_run_inv_restart(1) [OF dkr_forward.IH dkr_forward.hyps(2) forward_block_def] show ?case .
next
  case (dkr_backward d iss old r e d' iv)
  then have d': "d' = d\<lparr>dkr_seed := fix_len SEC_PARAM_LEN r, dkr_epoch := e, segment_start := e,
      segment_epochs := 0, segment_gen := saturating_add (segment_gen d) 1\<rparr>"
    and iv: "iv = current_interval d'"
    by (auto simp: backward_block_def Let_def)
  from dkr_run_inv_restart(2) [OF dkr_backward.IH dkr_backward.hyps(2) d'] show ?case
    by (simp only: iv)
qed

text \<open>
  Segment isolation: in every run with fresh draws, each interval handed out is non-empty and
  spans at most 2^20 epochs, and two intervals carry the same token only when they start at the
  same epoch.  A token of a later segment therefore never belongs to an earlier window, so a
  forward-only or post-removal token shares nothing with the tokens issued before it.
\<close>

theorem dkr_segments_isolated:
  assumes "dkr_run d iss old" and "iv \<in> set iss" and "jv \<in> set iss"
  shows "iv_from iv \<le> iv_to iv \<and> unat (iv_to iv) - unat (iv_from iv) < 2 ^ 20 \<and>
    (iv_token iv = iv_token jv \<longrightarrow> iv_from iv = iv_from jv)"
  using dkr_run_invariant [OF assms(1)] assms(2,3)
  by (auto simp: dkr_run_inv_def list_all_iff issued_ok_def)

definition demo_dkr :: interval_dkr where
  "demo_dkr = fst (dkr_advance [] (replicate 48 2) 5 (with_seed (replicate 48 1)))"

lemma demo_dkr_run:
  "dkr_run demo_dkr [\<lparr>iv_from = 0, iv_to = 5, iv_token = replicate 48 1\<rparr>] {}"
proof -
  have adv: "dkr_advance [] (replicate 48 2) 5 (with_seed (replicate 48 1)) =
      (demo_dkr, Inr \<lparr>iv_from = 0, iv_to = 5, iv_token = replicate 48 1\<rparr>)"
    by (simp add: demo_dkr_def dkr_op_defs Let_def SEC_PARAM_LEN_def DKR_SEGMENT_CAPACITY_def saturating_sub_def)
  have fresh: "fresh_draw (replicate 48 2) (with_seed (replicate 48 1)) {}"
    by (simp add: fresh_draw_def fix_len_def SEC_PARAM_LEN_def with_seed_def)
  have start: "dkr_run (with_seed (replicate 48 1)) [] {}"
    by (rule dkr_start) (simp add: SEC_PARAM_LEN_def)
  from dkr_advance_ok [OF start fresh _ adv] show ?thesis
    by (simp add: demo_dkr_def dkr_op_defs Let_def SEC_PARAM_LEN_def DKR_SEGMENT_CAPACITY_def saturating_sub_def)
qed

lemma dkr_segments_isolated_witness:
  "\<exists>d iss old. dkr_run d iss old \<and> length iss = 2 \<and>
     (\<forall>iv \<in> set iss. \<forall>jv \<in> set iss. iv_from iv \<noteq> iv_from jv \<longrightarrow> iv_token iv \<noteq> iv_token jv)"
proof -
  let ?r = "replicate 48 (3 :: u8)"
  let ?b = "backward_block ?r 6 demo_dkr"
  have "fresh_draw ?r demo_dkr {}"
    by (simp add: demo_dkr_def fresh_draw_def fix_len_def dkr_op_defs Let_def SEC_PARAM_LEN_def
        DKR_SEGMENT_CAPACITY_def saturating_sub_def)
  from dkr_backward [OF demo_dkr_run this, of 6 "fst ?b" "snd ?b"]
  have run: "dkr_run (fst ?b) (snd ?b # [\<lparr>iv_from = 0, iv_to = 5, iv_token = replicate 48 1\<rparr>])
      {dkr_seed demo_dkr}" by simp
  have "iv_from iv \<noteq> iv_from jv \<longrightarrow> iv_token iv \<noteq> iv_token jv"
    if "iv \<in> set (snd ?b # [\<lparr>iv_from = 0, iv_to = 5, iv_token = replicate 48 1\<rparr>])"
      and "jv \<in> set (snd ?b # [\<lparr>iv_from = 0, iv_to = 5, iv_token = replicate 48 1\<rparr>])" for iv jv
    using dkr_segments_isolated [OF run that] by blast
  with run show ?thesis
    by (intro exI [of _ "fst ?b"] exI [of _ "snd ?b # [\<lparr>iv_from = 0, iv_to = 5, iv_token = replicate 48 1\<rparr>]"]
        exI [of _ "{dkr_seed demo_dkr}"] conjI ballI) simp_all
qed

text \<open>
  At the last epoch \<open>u64::MAX\<close> of a segment that starts at 0 the length computation wraps to 0,
  which is below the capacity: \<^verbatim>\<open>advance\<close> keeps the seed and hands out an interval over all \<open>2^64\<close>
  epochs, where the documentation promises a fresh seed after \<open>2^20\<close>.
\<close>

theorem dkr_advance_wraps_at_max:
  "dkr_advance r r' (- 1) (with_seed (replicate 48 1)) =
     (\<lparr>dkr_seed = replicate 48 1, dkr_epoch = - 1, segment_start = 0, segment_epochs = 0, segment_gen = 0\<rparr>,
      Inr \<lparr>iv_from = 0, iv_to = - 1, iv_token = replicate 48 1\<rparr>)"
  by (simp add: dkr_op_defs Let_def SEC_PARAM_LEN_def saturating_sub_def)

end
