(* ===== verification/Mldsa.thy ===== *)
theory Mldsa
  imports Dkr
begin

text \<open>
  ML-DSA-87 wrappers and the two signed transcripts, \<^verbatim>\<open>safehub-crypto/src/mldsa.rs\<close>.  Signing, key
  derivation, signature decoding and the verification equation are parameters of \<open>prims\<close>; the length
  checks and the error of every step are the code's.
\<close>

section \<open>Keys, signing, verification\<close>

definition MLDSA87_VK_LEN :: nat where "MLDSA87_VK_LEN = 2592"
definition MLDSA87_SIG_LEN :: nat where "MLDSA87_SIG_LEN = 4627"

record mldsa_key_pair =
  kp_seed :: bytes
  kp_public :: bytes

definition kp_from_seed :: "prims \<Rightarrow> bytes \<Rightarrow> crypto_error + mldsa_key_pair" where
  "kp_from_seed P sd =
     (if length sd \<noteq> 32 then Inl (Mls ''ML-DSA-87 seed must be 32 bytes'')
      else Inr \<lparr>kp_seed = sd, kp_public = sk_public P sd\<rparr>)"

definition kp_generate :: "prims \<Rightarrow> bytes \<Rightarrow> crypto_error + mldsa_key_pair" where
  "kp_generate P rng =
     (let sd = fix_len 32 rng in Inr \<lparr>kp_seed = sd, kp_public = sk_public P sd\<rparr>)"

definition sign_with_seed :: "prims \<Rightarrow> bytes \<Rightarrow> bytes \<Rightarrow> crypto_error + bytes" where
  "sign_with_seed P sd msg =
     (if length sd \<noteq> 32 then Inl (Mls ''ML-DSA-87 seed must be 32 bytes'')
      else Inr (sk_sign P sd msg))"

definition kp_sign :: "prims \<Rightarrow> mldsa_key_pair \<Rightarrow> bytes \<Rightarrow> crypto_error + bytes" where
  "kp_sign P kp msg = sign_with_seed P (kp_seed kp) msg"

definition mldsa_verify :: "prims \<Rightarrow> bytes \<Rightarrow> bytes \<Rightarrow> bytes \<Rightarrow> crypto_error + unit" where
  "mldsa_verify P vk msg sig =
     (if length vk \<noteq> MLDSA87_VK_LEN then Inl (Mls ''invalid ML-DSA-87 verifying key length'')
      else if length sig \<noteq> MLDSA87_SIG_LEN then Inl (Mls ''invalid ML-DSA-87 signature length'')
      else if \<not> sig_decodes P sig then Inl (Mls ''ML-DSA-87 signature decode failed'')
      else if \<not> vk_verify P vk msg sig then Inl (Mls ''ML-DSA-87 signature verification failed'')
      else Inr ())"

definition valid_sig :: "prims \<Rightarrow> bytes \<Rightarrow> bytes \<Rightarrow> bytes \<Rightarrow> bool" where
  "valid_sig P vk msg sig \<longleftrightarrow> mldsa_verify P vk msg sig = Inr ()"

lemma is_ok_mldsa_verify: "is_ok (mldsa_verify P vk msg sig) = valid_sig P vk msg sig"
  by (cases "mldsa_verify P vk msg sig") (auto simp: valid_sig_def)

lemma valid_sig_iff:
  "valid_sig P vk msg sig \<longleftrightarrow> length vk = 2592 \<and> length sig = 4627 \<and>
     sig_decodes P sig \<and> vk_verify P vk msg sig"
  by (simp add: valid_sig_def mldsa_verify_def MLDSA87_VK_LEN_def MLDSA87_SIG_LEN_def)

lemma valid_sig_lengths: "valid_sig P vk msg sig \<Longrightarrow> length sig = 4627 \<and> length vk = 2592"
  by (simp add: valid_sig_iff)

definition kp_wf :: "prims \<Rightarrow> mldsa_key_pair \<Rightarrow> bool" where
  "kp_wf P kp \<longleftrightarrow> length (kp_seed kp) = 32 \<and> kp_public kp = sk_public P (kp_seed kp)"

lemma kp_wf_constructors:
  "kp_from_seed P s = Inr kp \<Longrightarrow> kp_wf P kp" "kp_generate P r = Inr kp \<Longrightarrow> kp_wf P kp"
  by (auto simp: kp_wf_def kp_from_seed_def kp_generate_def Let_def split: if_splits)

lemma kp_sign_wf: "kp_wf P kp \<Longrightarrow> kp_sign P kp m = Inr (sk_sign P (kp_seed kp) m)"
  by (simp add: kp_wf_def kp_sign_def sign_with_seed_def)

lemma kp_sign_verifies:
  assumes "mldsa_correct P" and "kp_wf P kp" and "kp_sign P kp m = Inr s"
  shows "valid_sig P (kp_public kp) m s"
  using assms by (auto simp: kp_sign_wf valid_sig_iff mldsa_correct_def kp_wf_def)

definition demo_kp :: mldsa_key_pair where
  "demo_kp = \<lparr>kp_seed = replicate 32 7, kp_public = sk_public demo_prims (replicate 32 7)\<rparr>"

lemma kp_wf_demo: "kp_wf demo_prims demo_kp"
  by (simp add: kp_wf_def demo_kp_def)

section \<open>The head transcript\<close>

definition refhead_leaf_message ::
    "bytes \<Rightarrow> u64 \<Rightarrow> bytes \<Rightarrow> bytes \<Rightarrow> bytes \<Rightarrow> bytes \<Rightarrow> u64 \<Rightarrow> bytes \<Rightarrow> bool \<Rightarrow> bytes" where
  "refhead_leaf_message rid sq refs root wrap prev ep tag nff =
     domain_label ''refhead'' @ rid @ u64_le sq @ refs @ root @ wrap @ prev @ u64_le ep @ tag @
     [if nff then 1 else 0]"

text \<open>The signed message of a head; the signature fields are not part of it.\<close>

definition leaf_sign_message :: "ref_head \<Rightarrow> bytes" where
  "leaf_sign_message h =
     refhead_leaf_message (repo_id h) (seq h) (enc_refs h) (bundle_root h) (dek_wrap h)
       (prev_head_hash h) (mls_epoch h) (epoch_tag h) (non_ff h)"

definition same_statement :: "ref_head \<Rightarrow> ref_head \<Rightarrow> bool" where
  "same_statement h h' \<longleftrightarrow>
     repo_id h = repo_id h' \<and> seq h = seq h' \<and> enc_refs h = enc_refs h' \<and>
     bundle_root h = bundle_root h' \<and> dek_wrap h = dek_wrap h' \<and>
     prev_head_hash h = prev_head_hash h' \<and> mls_epoch h = mls_epoch h' \<and>
     epoch_tag h = epoch_tag h' \<and> non_ff h = non_ff h'"

lemma leaf_sign_message_same_lengths:
  assumes "head_wf h" and "head_wf h'"
    and "length (enc_refs h) = length (enc_refs h')"
    and "length (dek_wrap h) = length (dek_wrap h')"
  shows "leaf_sign_message h = leaf_sign_message h' \<longleftrightarrow> same_statement h h'"
  using assms
  by (auto simp: leaf_sign_message_def refhead_leaf_message_def same_statement_def head_wf_def
      append_eq_append_conv)

text \<open>
  What a leaf signature covers: for heads whose two ciphertext fields have the same lengths, the
  signed bytes are equal exactly when all nine signed fields are equal.
\<close>

theorem leaf_transcript_binds:
  assumes "head_wf h" and "head_wf h'"
    and "length (enc_refs h) = length (enc_refs h')" and "length (dek_wrap h) = length (dek_wrap h')"
  shows "leaf_sign_message h = leaf_sign_message h' \<longleftrightarrow> same_statement h h'"
  by (rule leaf_sign_message_same_lengths [OF assms])

lemma leaf_transcript_binds_witness:
  "head_wf demo_head \<and>
     (leaf_sign_message demo_head = leaf_sign_message (demo_head\<lparr>seq := seq demo_head\<rparr>) \<longleftrightarrow> same_statement demo_head demo_head)"
  using leaf_transcript_binds [of demo_head demo_head] by (simp add: head_wf_def demo_head_def)

text \<open>
  The two ciphertext fields carry no length, so bytes can move over the bundle root between them:
  the signature of one head is a signature of another.
\<close>

definition shift_head_a :: ref_head where
  "shift_head_a = demo_head\<lparr>enc_refs := [], bundle_root := replicate 64 9, dek_wrap := [9]\<rparr>"

definition shift_head_b :: ref_head where
  "shift_head_b = demo_head\<lparr>enc_refs := [9], bundle_root := replicate 64 9, dek_wrap := []\<rparr>"

text \<open>
  The leaf transcript does not determine the head: two well-formed heads that differ in the
  encrypted refs and in the wrapped key have the same signed bytes, so one signature verifies for
  both under every key.
\<close>

theorem leaf_transcript_ambiguous:
  "head_wf shift_head_a \<and> head_wf shift_head_b \<and>
   enc_refs shift_head_a \<noteq> enc_refs shift_head_b \<and> dek_wrap shift_head_a \<noteq> dek_wrap shift_head_b \<and>
   leaf_sign_message shift_head_a = leaf_sign_message shift_head_b \<and>
   valid_sig P vk (leaf_sign_message shift_head_a) s = valid_sig P vk (leaf_sign_message shift_head_b) s"
proof -
  have "leaf_sign_message shift_head_a = leaf_sign_message shift_head_b"
    by (simp add: leaf_sign_message_def refhead_leaf_message_def shift_head_a_def shift_head_b_def
        demo_head_def flip: replicate_append_same)
  then show ?thesis
    by (simp add: shift_head_a_def shift_head_b_def head_wf_def demo_head_def)
qed

section \<open>The administrator's statement\<close>

definition ADMIN_COSIG_POLICY_VERSION :: u32 where "ADMIN_COSIG_POLICY_VERSION = 1"

text \<open>\<^verbatim>\<open>op.len() as u32\<close> keeps the low 32 bits of the length.\<close>

definition admin_cosig_message ::
    "bytes \<Rightarrow> u64 \<Rightarrow> string \<Rightarrow> u64 \<Rightarrow> bytes \<Rightarrow> bytes \<Rightarrow> bytes \<Rightarrow> u32 \<Rightarrow> bytes" where
  "admin_cosig_message rid ep oper sq prev refs_dg roster_dg ver =
     domain_label ''admin-cosig'' @ rid @ u64_le ep @ u32_le (of_nat (length oper)) @ str_bytes oper @
     u64_le sq @ prev @ refs_dg @ roster_dg @ u32_le ver"

text \<open>
  An administrator's co-signature covers the repository, the epoch, the operation, the position
  in the log, the previous head, the refs, the roster and the policy version: for fixed-size ids
  and digests, equal signed bytes mean that all of them are equal, whatever the operation names are.
\<close>

theorem admin_cosig_message_binds:
  assumes "arr 32 r" "arr 32 r'" "arr 64 p" "arr 64 p'" "arr 64 d" "arr 64 d'" "arr 64 g" "arr 64 g'"
    and "admin_cosig_message r e oper sq p d g v = admin_cosig_message r' e' oper' sq' p' d' g' v'"
  shows "r = r' \<and> e = e' \<and> oper = oper' \<and> sq = sq' \<and> p = p' \<and> d = d' \<and> g = g' \<and> v = v'"
proof -
  have "length (admin_cosig_message r e oper sq p d g v) = length (admin_cosig_message r' e' oper' sq' p' d' g' v')"
    using assms(9) by simp
  then have "length oper = length oper'"
    using assms(1-8) by (simp add: admin_cosig_message_def)
  with assms show ?thesis
    by (simp add: admin_cosig_message_def append_eq_append_conv)
qed

lemma admin_cosig_message_binds_witness:
  "admin_cosig_message (replicate 32 1) 3 ''push'' 2 (replicate 64 0) (replicate 64 4) (replicate 64 5) 1 \<noteq>
     admin_cosig_message (replicate 32 1) 3 ''push'' 9 (replicate 64 0) (replicate 64 4) (replicate 64 5) 1"
  using admin_cosig_message_binds [of "replicate 32 1" "replicate 32 1" "replicate 64 0" "replicate 64 0"
      "replicate 64 4" "replicate 64 4" "replicate 64 5" "replicate 64 5" 3 "''push''" 2 1 3 "''push''" 9 1]
  by fastforce

end
