(* ===== verification/Client_Error.thy ===== *)
theory Client_Error
  imports Mldsa
begin

text \<open>The client's errors, \<^verbatim>\<open>safehub-client/src/error.rs\<close>.\<close>

section \<open>Errors\<close>

text \<open>The text of \<^verbatim>\<open>ClientError::Other\<close>, one constructor per message with the values it prints.\<close>

datatype consol_msg =
  NoHeads | NotContiguous u64 | NeedAdminKey | NoAuthorization | NoCheckpoint
| AnchorOtherRepo | AnchorSeq u64 u64 | AnchorHead u64 | AnchorRefs u64 | OutsideSpan u64 u64 u64
| WindowDisjoint | NoProof u64 | WrongIndex u64 nat nat | NotInRoot u64
| EpochOmitted u64 | EpochChanged u64 | EpochRange u64 u64 u64 u64 u64
| AnchorNotInWindow u64 | NotAuthorized | MalformedQuorum | ConsolQuorumFailed u8 u8

datatype client_msg =
  MsgCrypto crypto_error | GitMergeBase | ChainBroken u64 | ChainGap u64 u64
| MissingLeafSig | LeafVerify crypto_error | FalselyLabeled
| UnverifiableGrafted u64 u64 | UnverifiableNoDag u64 | MissingCosig | AdminKeyRequired
| InvalidQuorum | SigTooLong | FewerKeysThanSigs | QuorumFailed u8 u8
| RemoteAdvanced | LostRace u32 | InvalidDekLength | Truncated_log u64 u64 | NoHeadsServed u64 u64
| EpochTagMismatch u64 u64 | MsgConsol consol_msg | EpochBeyond u64 u64 u64 | LeafRejected u64
| BeforeGrant u64 u64 | NoTransportSeed u64 u64 | CorruptSeed u64 | MissingFraming | BadHex
| NoKeyPackage string | NoWelcome | NoDeviceIdentity | RewriteIntegrity | MlsFailed | OtherText string

datatype client_error =
  Config string | NotLoggedIn | Http string | Api nat string | Io | Serde
| Crypto crypto_error | AeadErr aead_error | Other client_msg

fun str_contains :: "string \<Rightarrow> string \<Rightarrow> bool" where
  "str_contains pat [] = (pat = [])"
| "str_contains pat (c # s) = (take (length pat) (c # s) = pat \<or> str_contains pat s)"

definition is_cas_conflict :: "client_error \<Rightarrow> bool" where
  "is_cas_conflict e =
     (case e of Api st body \<Rightarrow> st = 409 \<or> str_contains ''cas conflict'' body | _ \<Rightarrow> False)"

end
