(* ===== verification/Btree.thy ===== *)
theory Btree
  imports Main "HOL-Library.List_Lexorder" "HOL-Library.Char_ord"
begin

text \<open>
  Ordered maps.  A \<^verbatim>\<open>BTreeMap\<close> is the list of its entries in strictly increasing key order; lookup
  is \<open>map_of\<close>, iteration is the list.  Strings are ordered byte by byte.
\<close>

named_theorems bt_simps

definition bt_wf :: "('k::linorder \<times> 'v) list \<Rightarrow> bool" where
  "bt_wf m \<longleftrightarrow> sorted_wrt (<) (map fst m)"

fun bt_insert :: "'k::linorder \<Rightarrow> 'v \<Rightarrow> ('k \<times> 'v) list \<Rightarrow> ('k \<times> 'v) list" where
  "bt_insert k v [] = [(k, v)]"
| "bt_insert k v ((k', v') # m) =
     (if k < k' then (k, v) # (k', v') # m
      else if k = k' then (k, v) # m
      else (k', v') # bt_insert k v m)"

definition bt_remove :: "'k::linorder \<Rightarrow> ('k \<times> 'v) list \<Rightarrow> ('k \<times> 'v) list" where
  "bt_remove k m = filter (\<lambda>p. fst p \<noteq> k) m"

lemma bt_wf_simps [simp, bt_simps]:
  "bt_wf []" "bt_wf (p # m) \<longleftrightarrow> bt_wf m \<and> (\<forall>q \<in> set m. fst p < fst q)"
  by (auto simp: bt_wf_def)

lemma bt_wf_distinct: "bt_wf m \<Longrightarrow> distinct (map fst m)"
  by (simp add: bt_wf_def strict_sorted_iff)

lemma set_bt_insert: "set (bt_insert k v m) \<subseteq> insert (k, v) (set m)"
  by (induction k v m rule: bt_insert.induct) auto

lemma keys_bt_insert: "fst ` set (bt_insert k v m) = insert k (fst ` set m)"
  by (induction k v m rule: bt_insert.induct) auto

lemma bt_wf_insert [simp]: "bt_wf m \<Longrightarrow> bt_wf (bt_insert k v m)"
proof (induction k v m rule: bt_insert.induct)
  case (2 k v k' v' m)
  then have IH: "k' < k \<Longrightarrow> bt_wf (bt_insert k v m)" by auto
  have "\<forall>q \<in> set (bt_insert k v m). k' < fst q" if "k' < k"
    using 2(2) that set_bt_insert [of k v m] by auto
  with IH 2(2) show ?case by auto
qed simp

lemma bt_wf_remove [simp]: "bt_wf m \<Longrightarrow> bt_wf (bt_remove k m)"
  by (induction m) (auto simp: bt_remove_def)

lemma map_of_bt_insert [simp, bt_simps]:
  "bt_wf m \<Longrightarrow> map_of (bt_insert k v m) j = (if j = k then Some v else map_of m j)"
  by (induction k v m rule: bt_insert.induct) auto

lemma map_of_bt_remove [simp, bt_simps]:
  "map_of (bt_remove k m) j = (if j = k then None else map_of m j)"
  by (induction m) (auto simp: bt_remove_def)

lemma bt_wf_Some_iff: "bt_wf m \<Longrightarrow> map_of m k = Some v \<longleftrightarrow> (k, v) \<in> set m"
  by (simp add: bt_wf_distinct)

text \<open>An ordered map is determined by its lookups.\<close>

lemma bt_wf_ext:
  assumes "bt_wf m" and "bt_wf n" and "\<And>k. map_of m k = map_of n k"
  shows "m = n"
proof -
  have "set m = set n"
    using assms bt_wf_Some_iff by (metis subrelI subset_antisym)
  then have "map fst m = map fst n"
    using assms(1,2) by (intro strict_sorted_equal) (simp_all add: bt_wf_def)
  moreover have "inj_on fst (set m \<union> set n)"
    using bt_wf_distinct [OF assms(1)] \<open>set m = set n\<close> by (simp add: distinct_map)
  ultimately show ?thesis by (rule map_inj_on)
qed

text \<open>Collecting entries that come in increasing key order appends them.\<close>

lemma bt_insert_last:
  "\<forall>q \<in> set m. fst q < k \<Longrightarrow> bt_insert k v m = m @ [(k, v)]"
  by (induction k v m rule: bt_insert.induct) auto

definition bt_collect :: "('k::linorder \<times> 'v) list \<Rightarrow> ('k \<times> 'v) list" where
  "bt_collect ps = fold (\<lambda>(k, v) m. bt_insert k v m) ps []"

lemma bt_wf_collect: "bt_wf (bt_collect ps)"
proof -
  have "bt_wf m \<Longrightarrow> bt_wf (fold (\<lambda>(k, v) m. bt_insert k v m) ps m)" for m
    by (induction ps arbitrary: m) (auto split: prod.splits)
  then show ?thesis by (simp add: bt_collect_def)
qed

lemma map_of_bt_collect: "map_of (bt_collect ps) k = map_of (rev ps) k"
proof -
  have "bt_wf m \<Longrightarrow> map_of (fold (\<lambda>(k, v) m. bt_insert k v m) ps m) k = (map_of m ++ map_of (rev ps)) k" for m
    by (induction ps arbitrary: m) (auto simp: map_add_def split: prod.splits option.splits)
  from this [of "[]"] show ?thesis by (simp add: bt_collect_def)
qed

lemma bt_collect_sorted: "bt_wf ps \<Longrightarrow> bt_collect ps = ps"
proof -
  have "bt_wf (m @ ps) \<Longrightarrow> fold (\<lambda>(k, v) m. bt_insert k v m) ps m = m @ ps" for m
  proof (induction ps arbitrary: m)
    case (Cons p ps)
    then have "\<forall>q \<in> set m. fst q < fst p"
      by (auto simp: bt_wf_def sorted_wrt_append)
    with Cons show ?case by (cases p) (simp add: bt_insert_last)
  qed simp
  from this [of "[]"] show "bt_wf ps \<Longrightarrow> bt_collect ps = ps" by (simp add: bt_collect_def)
qed

end
