(* ===== verification/Policy.thy ===== *)
theory Policy
  imports Client_Error Btree "HOL-Library.Multiset"
begin

text \<open>
  Fast-forward classification, force-push policy, head chains and administrator co-signatures,
  \<^verbatim>\<open>safehub-client/src/policy.rs\<close>.  A
  \<^verbatim>\<open>BTreeMap\<close> is the list of its entries in key order; the two git commands are the parameter
  \<open>git_dag\<close>; the serializer of the refs map is a parameter too.
\<close>

section \<open>Fast-forward classification\<close>

type_synonym oid = string
type_synonym refs_map = "(string \<times> oid) list"

text \<open>
  \<open>cat_file oid\<close>: \<^verbatim>\<open>git cat-file -e\<close> ran and succeeded.  \<open>merge_base a b\<close>: the exit of
  \<^verbatim>\<open>git merge-base --is-ancestor\<close>, None when git could not be started.
\<close>

record git_dag =
  cat_file :: "oid \<Rightarrow> bool"
  merge_base :: "oid \<Rightarrow> oid \<Rightarrow> bool option"

definition null_oid :: "oid \<Rightarrow> bool" where
  "null_oid s \<longleftrightarrow> s = [] \<or> list_all (\<lambda>c. c = CHR ''0'') s"

definition is_fast_forward :: "git_dag \<Rightarrow> oid \<Rightarrow> oid \<Rightarrow> client_error + bool" where
  "is_fast_forward G old_oid new_oid =
     (if null_oid old_oid then Inr True
      else if old_oid = new_oid then Inr True
      else ok_or (Other GitMergeBase) (merge_base G old_oid new_oid))"

definition has_object :: "git_dag \<Rightarrow> oid \<Rightarrow> bool" where
  "has_object G x = (if null_oid x then True else cat_file G x)"

datatype ff_status = FastForward | NonFastForward | Unverifiable

definition is_non_ff :: "ff_status \<Rightarrow> bool" where
  "is_non_ff s = (case s of FastForward \<Rightarrow> False | _ \<Rightarrow> True)"

record ancestry_scope =
  history_from :: u64
  grafted :: bool

definition scope_full :: ancestry_scope where
  "scope_full = \<lparr>history_from = 0, grafted = False\<rparr>"

definition grafted_from :: "u64 \<Rightarrow> ancestry_scope" where
  "grafted_from e = \<lparr>history_from = e, grafted = True\<rparr>"

definition scope_is_complete :: "ancestry_scope \<Rightarrow> bool" where
  "scope_is_complete s \<longleftrightarrow> \<not> grafted s \<and> history_from s = 0"

definition starts_with :: "string \<Rightarrow> string \<Rightarrow> bool" where
  "starts_with pre s \<longleftrightarrow> take (length pre) s = pre"

text \<open>The loop over the new refs, with the flag \<^verbatim>\<open>unverifiable\<close> as its accumulator.\<close>

fun classify_loop :: "git_dag option \<Rightarrow> refs_map \<Rightarrow> refs_map \<Rightarrow> bool \<Rightarrow> client_error + ff_status" where
  "classify_loop dir old [] unv = Inr (if unv then Unverifiable else FastForward)"
| "classify_loop dir old ((nm, new_oid) # rest) unv =
     (case map_of old nm of
        None \<Rightarrow> classify_loop dir old rest unv
      | Some old_oid \<Rightarrow>
          if old_oid = new_oid then classify_loop dir old rest unv
          else if starts_with ''refs/tags/'' nm then Inr NonFastForward
          else (case dir of
                  None \<Rightarrow> classify_loop dir old rest True
                | Some G \<Rightarrow>
                    if \<not> has_object G old_oid \<or> \<not> has_object G new_oid
                    then classify_loop dir old rest True
                    else rbind (is_fast_forward G old_oid new_oid) (\<lambda>ff.
                           if \<not> ff then Inr NonFastForward
                           else classify_loop dir old rest unv)))"

definition classify_ff :: "git_dag option \<Rightarrow> refs_map \<Rightarrow> refs_map \<Rightarrow> client_error + ff_status" where
  "classify_ff dir old new =
     (if list_ex (\<lambda>k. map_of new k = None) (map fst old) then Inr NonFastForward
      else classify_loop dir old new False)"

definition classify_non_ff :: "git_dag option \<Rightarrow> refs_map \<Rightarrow> refs_map \<Rightarrow> client_error + bool" where
  "classify_non_ff dir old new = rbind (classify_ff dir old new) (\<lambda>s. Inr (is_non_ff s))"

text \<open>The specification of one changed ref.\<close>

definition ref_advances :: "git_dag option \<Rightarrow> string \<Rightarrow> oid \<Rightarrow> oid \<Rightarrow> bool" where
  "ref_advances dir nm old_oid new_oid \<longleftrightarrow>
     old_oid = new_oid \<or>
     \<not> starts_with ''refs/tags/'' nm \<and>
     (\<exists>G. dir = Some G \<and> has_object G old_oid \<and> has_object G new_oid \<and>
        is_fast_forward G old_oid new_oid = Inr True)"

lemma classify_loop_FastForward_iff:
  "classify_loop dir old new unv = Inr FastForward \<longleftrightarrow>
     \<not> unv \<and> (\<forall>(nm, n) \<in> set new. \<forall>ol. map_of old nm = Some ol \<longrightarrow> ref_advances dir nm ol n)"
proof (induction dir old new unv rule: classify_loop.induct)
  case (1 dir old unv)
  then show ?case by simp
next
  case (2 dir old nm n rest unv)
  then show ?case
    by (auto simp: ref_advances_def rbind_Inr_conv rbind_def split: option.splits sum.splits)
qed

text \<open>
  A tip update is classified as a fast-forward exactly when it deletes no ref and every ref it
  changes is not a tag, has both objects in the local graph, and git confirms that the old object
  is an ancestor; every other outcome (a tag move, a missing object, no local graph, a git failure)
  is reported as something else, so it reaches the policy check.
\<close>

theorem classify_ff_exact:
  "(classify_ff dir old new = Inr FastForward) =
     ((\<forall>nm \<in> fst ` set old. map_of new nm \<noteq> None) \<and>
      (\<forall>(nm, n) \<in> set new. \<forall>ol. map_of old nm = Some ol \<longrightarrow> ref_advances dir nm ol n))"
  by (auto simp: classify_ff_def classify_loop_FastForward_iff list_ex_iff)

lemma classify_ff_exact_witness:
  "classify_ff (Some \<lparr>cat_file = (\<lambda>_. True), merge_base = (\<lambda>a b. Some (a = ''a1''))\<rparr>)
     [(''refs/heads/main'', ''a1'')] [(''refs/heads/dev'', ''c3''), (''refs/heads/main'', ''b2'')] = Inr FastForward"
  by (subst classify_ff_exact)
    (auto simp: ref_advances_def starts_with_def has_object_def is_fast_forward_def null_oid_def)

section \<open>Digests and tags\<close>

text \<open>A length-prefixed field with a 32-bit little-endian length, as the digests use it.\<close>

definition le_opaque :: "bytes \<Rightarrow> bytes" where
  "le_opaque b = u32_le (of_nat (length b)) @ b"

definition take_le_opaque :: "bytes \<Rightarrow> (bytes \<times> bytes) option" where
  "take_le_opaque buf =
     (case take_bytes 4 buf of None \<Rightarrow> None
      | Some (l, rest) \<Rightarrow> take_bytes (unat (of_le_bytes l :: u32)) rest)"

interpretation le_opaque_codec: wire_codec le_opaque take_le_opaque opaque_fits
  by unfold_locales
    (simp add: le_opaque_def take_le_opaque_def opaque_fits_def take_bytes_def unat_of_nat take_bit_nat_eq_self)

definition roster_digest :: "prims \<Rightarrow> bytes list \<Rightarrow> bytes" where
  "roster_digest P vks =
     (let sorted_vks = sort vks in
      sha512 P (domain_label ''roster-digest'' @ u32_le (of_nat (length sorted_vks)) @
        concat (map (\<lambda>vk. u32_le (of_nat (length vk)) @ vk) sorted_vks)))"

definition roster_preimage :: "bytes list \<Rightarrow> bytes" where
  "roster_preimage vks = domain_label ''roster-digest'' @ u32_le (of_nat (length vks)) @
     concat (map le_opaque (sort vks))"

lemma roster_digest_eq: "roster_digest P vks = sha512 P (roster_preimage vks)"
proof -
  have "(\<lambda>vk. u32_le (of_nat (length vk)) @ vk) = le_opaque"
    by (simp add: fun_eq_iff le_opaque_def)
  then show ?thesis
    by (simp add: roster_digest_def roster_preimage_def Let_def)
qed

definition roster_ok :: "bytes list \<Rightarrow> bool" where
  "roster_ok vks \<longleftrightarrow> list_all opaque_fits vks \<and> length vks < 2 ^ 32"

lemma of_nat_u32_inject:
  "m < 2 ^ 32 \<Longrightarrow> n < 2 ^ 32 \<Longrightarrow> (of_nat m :: u32) = of_nat n \<longleftrightarrow> m = n"
proof
  assume "m < 2 ^ 32" "n < 2 ^ 32" and "(of_nat m :: u32) = of_nat n"
  then have "unat (of_nat m :: u32) = unat (of_nat n :: u32)" by simp
  with \<open>m < 2 ^ 32\<close> \<open>n < 2 ^ 32\<close> show "m = n"
    by (simp add: unat_of_nat take_bit_nat_eq_self)
qed simp

lemma roster_preimage_inject:
  assumes "roster_ok vks" and "roster_ok wks"
  shows "roster_preimage vks = roster_preimage wks \<longleftrightarrow> mset vks = mset wks"
proof
  assume eq: "roster_preimage vks = roster_preimage wks"
  have "(of_nat (length vks) :: u32) = of_nat (length wks)"
    using eq by (simp add: roster_preimage_def)
  then have len: "length vks = length wks"
    using of_nat_u32_inject assms by (simp add: roster_ok_def)
  have "concat (map le_opaque (sort vks)) @ [] = concat (map le_opaque (sort wks)) @ []"
    using eq len by (simp add: roster_preimage_def)
  with len assms have "sort vks = sort wks"
    using le_opaque_codec.enc_list_inj [of "sort vks" "sort wks" "[]" "[]"]
    by (simp add: roster_ok_def list_all_iff)
  then show "mset vks = mset wks" by (metis mset_sort)
next
  assume "mset vks = mset wks"
  then have "sort vks = sort wks" "length vks = length wks"
    by (metis mset_sort properties_for_sort sorted_sort) (metis \<open>mset vks = mset wks\<close> size_mset)
  then show "roster_preimage vks = roster_preimage wks"
    by (simp add: roster_preimage_def)
qed

text \<open>
  The roster digest identifies the member set: two rosters have the same digest exactly when
  they hold the same keys with the same multiplicities, in any order, provided SHA-512 does not
  collide on the two inputs that are hashed.
\<close>

theorem roster_digest_binds:
  assumes "roster_ok vks" and "roster_ok wks"
    and "inj_on (sha512 P) {roster_preimage vks, roster_preimage wks}"
  shows "roster_digest P vks = roster_digest P wks \<longleftrightarrow> mset vks = mset wks"
  using roster_preimage_inject [OF assms(1,2)] inj_on_eq_iff [OF assms(3)]
  by (simp add: roster_digest_eq)

lemma roster_digest_binds_witness:
  "roster_digest (demo_prims\<lparr>raw_sha512 := drop 20\<rparr>) [[1], [2, 3]] =
     roster_digest (demo_prims\<lparr>raw_sha512 := drop 20\<rparr>) [[2, 3], [1]] \<and>
   roster_digest (demo_prims\<lparr>raw_sha512 := drop 20\<rparr>) [[1], [2]] \<noteq>
     roster_digest (demo_prims\<lparr>raw_sha512 := drop 20\<rparr>) [[1], [9]]"
proof -
  let ?P = "demo_prims\<lparr>raw_sha512 := drop 20\<rparr>"
  have "roster_preimage [[1], [2, 3]] = roster_preimage [[2, 3], [1]]"
    by (simp add: roster_preimage_inject roster_ok_def opaque_fits_def)
  then have "inj_on (sha512 ?P) {roster_preimage [[1], [2, 3]], roster_preimage [[2, 3], [1]]}" by simp
  from roster_digest_binds [OF _ _ this] have 1: "roster_digest ?P [[1], [2, 3]] = roster_digest ?P [[2, 3], [1]]"
    by (simp add: roster_ok_def opaque_fits_def)
  have "inj_on (sha512 ?P) {roster_preimage [[1], [2]], roster_preimage [[1], [9]]}"
    by (simp add: roster_preimage_def le_opaque_def sha512_def demo_prims_def domain_label_def str_bytes_def
        fix_len_def)
  from roster_digest_binds [OF _ _ this] have 2: "roster_digest ?P [[1], [2]] \<noteq> roster_digest ?P [[1], [9]]"
    by (simp add: roster_ok_def opaque_fits_def)
  from 1 2 show ?thesis by simp
qed

text \<open>The payload sealed in \<^verbatim>\<open>enc_refs\<close> and its serializer.\<close>

record enc_refs_map =
  er_refs :: refs_map
  er_head :: "string option"
  er_push_id :: string
  er_chunk_ids :: "string list"

definition empty_refs_map :: enc_refs_map where
  "empty_refs_map = \<lparr>er_refs = [], er_head = None, er_push_id = [], er_chunk_ids = []\<rparr>"

record refs_json =
  to_json :: "enc_refs_map \<Rightarrow> bytes option"
  from_json :: "bytes \<Rightarrow> enc_refs_map option"

definition refs_digest :: "prims \<Rightarrow> refs_json \<Rightarrow> enc_refs_map \<Rightarrow> bytes" where
  "refs_digest P J refs =
     sha512 P (domain_label ''refs-digest'' @ (case to_json J refs of None \<Rightarrow> [] | Some b \<Rightarrow> b))"

definition epoch_tag_bytes :: "prims \<Rightarrow> bytes \<Rightarrow> u64 \<Rightarrow> blob_id \<Rightarrow> u64 \<Rightarrow> bytes" where
  "epoch_tag_bytes P refs_mac ep root sq =
     take 32 (hmac_sha512 P refs_mac (domain_label ''epoch-tag'' @ u64_le ep @ root @ u64_le sq))"

definition epoch_witness_bytes :: "prims \<Rightarrow> bytes \<Rightarrow> repo_id \<Rightarrow> u64 \<Rightarrow> bytes" where
  "epoch_witness_bytes P refs_mac repo ep =
     take 32 (hmac_sha512 P refs_mac (domain_label ''epoch-witness'' @ repo @ u64_le ep))"

definition verify_epoch_tag :: "prims \<Rightarrow> ref_head \<Rightarrow> bytes \<Rightarrow> bool" where
  "verify_epoch_tag P h refs_mac =
     (let want = epoch_tag_bytes P refs_mac (mls_epoch h) (bundle_root h) (seq h)
      in if length want \<noteq> length (epoch_tag h) then False
         else fold (\<lambda>(a, b) acc. acc OR (a XOR b)) (zip want (epoch_tag h)) 0 = 0)"

lemma verify_epoch_tag_iff:
  "verify_epoch_tag P h mk \<longleftrightarrow>
     epoch_tag h = epoch_tag_bytes P mk (mls_epoch h) (bundle_root h) (seq h)"
proof -
  have "verify_epoch_tag P h mk = ct_eq (epoch_tag_bytes P mk (mls_epoch h) (bundle_root h) (seq h)) (epoch_tag h)"
    by (simp add: verify_epoch_tag_def ct_eq_def Let_def del: ct_eq_iff)
  then show ?thesis by auto
qed

section \<open>Head chains\<close>

fun head_chain_loop :: "prims \<Rightarrow> ref_head list \<Rightarrow> head_hash \<Rightarrow> u64 option \<Rightarrow> client_error + unit" where
  "head_chain_loop P [] expect_prev expect_seq = Inr ()"
| "head_chain_loop P (h # hs) expect_prev expect_seq =
     (if prev_head_hash h \<noteq> expect_prev then Inl (Other (ChainBroken (seq h)))
      else case expect_seq of
             Some prev_seq \<Rightarrow>
               if seq h \<noteq> prev_seq + 1 then Inl (Other (ChainGap (seq h) prev_seq))
               else head_chain_loop P hs (ref_head_hash P h) (Some (seq h))
           | None \<Rightarrow> head_chain_loop P hs (ref_head_hash P h) (Some (seq h)))"

definition verify_head_chain :: "prims \<Rightarrow> ref_head list \<Rightarrow> head_hash \<Rightarrow> client_error + unit" where
  "verify_head_chain P heads anchor = head_chain_loop P heads anchor None"

text \<open>The specification: every head points at its predecessor, positions increase by one.\<close>

fun linked :: "prims \<Rightarrow> head_hash \<Rightarrow> ref_head list \<Rightarrow> bool" where
  "linked P a [] = True"
| "linked P a (h # hs) = (prev_head_hash h = a \<and> linked P (ref_head_hash P h) hs)"

fun consecutive :: "ref_head list \<Rightarrow> bool" where
  "consecutive [] = True"
| "consecutive [h] = True"
| "consecutive (h # h' # hs) = (seq h' = seq h + 1 \<and> consecutive (h' # hs))"

lemma consecutive_Cons:
  "consecutive (h # hs) \<longleftrightarrow> consecutive hs \<and> (hs \<noteq> [] \<longrightarrow> seq (hd hs) = seq h + 1)"
  by (cases hs) auto

lemma head_chain_loop_ok:
  "head_chain_loop P hs a (Some s) = Inr () \<longleftrightarrow>
     linked P a hs \<and> consecutive hs \<and> (hs \<noteq> [] \<longrightarrow> seq (hd hs) = s + 1)"
proof (induction hs arbitrary: a s)
  case Nil
  then show ?case by simp
next
  case (Cons h hs)
  show ?case by (auto simp: Cons.IH consecutive_Cons)
qed

lemma verify_head_chain_ok:
  "verify_head_chain P hs a = Inr () \<longleftrightarrow> linked P a hs \<and> consecutive hs"
  by (cases hs) (auto simp: verify_head_chain_def head_chain_loop_ok consecutive_Cons)

lemma linked_append:
  "linked P a (hs @ hs') \<longleftrightarrow>
     linked P a hs \<and> linked P (if hs = [] then a else ref_head_hash P (last hs)) hs'"
  by (induction hs arbitrary: a) auto

lemma consecutive_seq:
  "consecutive hs \<Longrightarrow> i < length hs \<Longrightarrow> seq (hs ! i) = seq (hd hs) + of_nat i"
proof (induction hs arbitrary: i rule: consecutive.induct)
  case (3 h h' hs)
  then show ?case
    by (cases i) (auto simp: algebra_simps)
qed auto

definition hashes_injective :: "prims \<Rightarrow> ref_head set \<Rightarrow> bool" where
  "hashes_injective P H \<longleftrightarrow>
     inj_on (sha512 P) (canonical_bytes ` H) \<and> (\<forall>h \<in> H. head_wf h \<and> opaque_ok h)"

lemma hashes_injective_mono: "hashes_injective P H \<Longrightarrow> K \<subseteq> H \<Longrightarrow> hashes_injective P K"
  unfolding hashes_injective_def by (meson image_mono inj_on_subset subsetD)

lemma hashes_injectiveD:
  assumes "hashes_injective P H" and "h \<in> H" and "k \<in> H"
  shows "ref_head_hash P h = ref_head_hash P k \<longleftrightarrow> h = k"
proof (rule ref_head_hash_inject)
  show "inj_on (sha512 P) {canonical_bytes h, canonical_bytes k}"
    by (rule inj_on_subset [of _ "canonical_bytes ` H"]) (use assms in \<open>auto simp: hashes_injective_def\<close>)
qed (use assms in \<open>auto simp: hashes_injective_def\<close>)

lemma linked_tip_determines:
  assumes "linked P a hs" and "linked P a hs'" and "length hs = length hs'"
    and "hashes_injective P (set hs \<union> set hs')"
    and "hs \<noteq> []" and "ref_head_hash P (last hs) = ref_head_hash P (last hs')"
  shows "hs = hs'"
  using assms
proof (induction hs arbitrary: hs' rule: rev_induct)
  case (snoc x xs)
  then obtain ys y where hs': "hs' = ys @ [y]" and len: "length xs = length ys"
    by (cases hs' rule: rev_cases) auto
  have xy: "x = y"
    using hashes_injectiveD [OF snoc.prems(4), of x y] snoc.prems(6) by (simp add: hs')
  show ?case
  proof (cases "xs = []")
    case True
    with len xy show ?thesis by (simp add: hs')
  next
    case False
    then have ne: "ys \<noteq> []" using len by auto
    have links: "linked P a xs" "linked P a ys"
      using snoc.prems(1,2) by (simp_all add: linked_append hs')
    have tip: "ref_head_hash P (last xs) = ref_head_hash P (last ys)"
      using snoc.prems(1,2) False ne xy by (simp add: linked_append hs')
    have inj: "hashes_injective P (set xs \<union> set ys)"
      by (rule hashes_injective_mono [OF snoc.prems(4)]) (auto simp: hs')
    from snoc.IH [OF links len inj False tip] xy show ?thesis by (simp add: hs')
  qed
qed simp

lemma all_nat_split: "(\<forall>i::nat. P i) \<longleftrightarrow> P 0 \<and> (\<forall>i. P (Suc i))"
  by (metis not0_implies_Suc)

text \<open>
  What the chain check accepts: exactly the runs in which the first head points at the anchor,
  every later head points at the hash of the one before it, and positions grow by one from the
  first (modulo \<open>2^64\<close>, as the release build adds).
\<close>

theorem verify_head_chain_exact:
  "(verify_head_chain P hs a = Inr ()) =
     ((\<forall>i < length hs. prev_head_hash (hs ! i) = (if i = 0 then a else ref_head_hash P (hs ! (i - 1)))) \<and>
      (\<forall>i. Suc i < length hs \<longrightarrow> seq (hs ! Suc i) = seq (hs ! i) + 1))"
proof -
  have "linked P a hs \<longleftrightarrow>
      (\<forall>i < length hs. prev_head_hash (hs ! i) = (if i = 0 then a else ref_head_hash P (hs ! (i - 1))))"
  proof (induction hs arbitrary: a)
    case (Cons h hs)
    show ?case by (auto simp: Cons.IH All_less_Suc2 nth_Cons')
  qed simp
  moreover have "consecutive hs \<longleftrightarrow> (\<forall>i. Suc i < length hs \<longrightarrow> seq (hs ! Suc i) = seq (hs ! i) + 1)"
  proof (induction hs)
    case (Cons h hs)
    have "(\<forall>i. Suc i < length (h # hs) \<longrightarrow> seq ((h # hs) ! Suc i) = seq ((h # hs) ! i) + 1) \<longleftrightarrow>
        (hs \<noteq> [] \<longrightarrow> seq (hs ! 0) = seq h + 1) \<and>
        (\<forall>i. Suc i < length hs \<longrightarrow> seq (hs ! Suc i) = seq (hs ! i) + 1)"
      by (subst all_nat_split) auto
    then show ?case unfolding consecutive_Cons Cons.IH by (metis hd_conv_nth)
  qed simp
  ultimately show ?thesis by (simp add: verify_head_chain_ok)
qed

text \<open>
  A trusted tip fixes the whole log: two runs of the same length that the check accepts from the
  same anchor and that end in heads with the same hash are the same run, so nothing before a known
  tip can be replaced, dropped or reordered; the hypothesis is that SHA-512 does not collide on the
  encodings of the heads involved.
\<close>

theorem head_chain_tamper_evident:
  assumes "verify_head_chain P hs a = Inr ()" and "verify_head_chain P hs' a = Inr ()"
    and "length hs = length hs'" and "hs \<noteq> []"
    and "hashes_injective P (set hs \<union> set hs')"
    and "ref_head_hash P (last hs) = ref_head_hash P (last hs')"
  shows "hs = hs'"
  by (rule linked_tip_determines [of P a]) (use assms in \<open>simp_all add: verify_head_chain_ok\<close>)

definition other_head :: ref_head where
  "other_head = demo_head\<lparr>repo_id := replicate 32 9\<rparr>"

lemma demo_heads_injective: "hashes_injective demo_prims {demo_head, other_head}"
proof -
  have "sha512 demo_prims (canonical_bytes demo_head) ! 0 = 1"
    and "sha512 demo_prims (canonical_bytes other_head) ! 0 = 9"
    by (simp_all add: sha512_def demo_prims_def fix_len_def canonical_bytes_def head_layout_def
        other_head_def demo_head_def nth_append)
  then have "sha512 demo_prims (canonical_bytes demo_head) \<noteq> sha512 demo_prims (canonical_bytes other_head)"
    by auto
  then show ?thesis
    by (auto simp: hashes_injective_def demo_head_def other_head_def head_wf_def opaque_ok_def
        opaque_fits_def head_hash_zero_def)
qed

lemma head_chain_tamper_evident_witness:
  "ref_head_hash demo_prims (last [demo_head]) \<noteq> ref_head_hash demo_prims (last [other_head])"
proof
  assume "ref_head_hash demo_prims (last [demo_head]) = ref_head_hash demo_prims (last [other_head])"
  then have "[demo_head] = [other_head]"
    using demo_heads_injective
    by (intro head_chain_tamper_evident [of demo_prims _ head_hash_zero])
      (auto simp: verify_head_chain_def demo_head_def other_head_def insert_commute)
  then show False by (simp add: demo_head_def other_head_def)
qed

section \<open>Signatures and the force-push policy\<close>

definition admin_cosig_sign ::
    "prims \<Rightarrow> mldsa_key_pair \<Rightarrow> repo_id \<Rightarrow> u64 \<Rightarrow> string \<Rightarrow> u64 \<Rightarrow> head_hash \<Rightarrow> bytes \<Rightarrow> bytes \<Rightarrow> client_error + bytes" where
  "admin_cosig_sign P admin repo ep oper sq prev refs_dg roster_dg =
     (let msg = admin_cosig_message repo ep oper sq prev refs_dg roster_dg ADMIN_COSIG_POLICY_VERSION
      in case kp_sign P admin msg of Inl e \<Rightarrow> Inl (Other (MsgCrypto e)) | Inr s \<Rightarrow> Inr s)"

definition admin_cosig_verify ::
    "prims \<Rightarrow> bytes \<Rightarrow> repo_id \<Rightarrow> u64 \<Rightarrow> string \<Rightarrow> u64 \<Rightarrow> head_hash \<Rightarrow> bytes \<Rightarrow> bytes \<Rightarrow> bytes \<Rightarrow> client_error + unit" where
  "admin_cosig_verify P admin_vk repo ep oper sq prev refs_dg roster_dg cosig =
     (let msg = admin_cosig_message repo ep oper sq prev refs_dg roster_dg ADMIN_COSIG_POLICY_VERSION
      in case mldsa_verify P admin_vk msg cosig of Inl e \<Rightarrow> Inl (Other (MsgCrypto e)) | Inr u \<Rightarrow> Inr u)"

definition verify_pusher_sig :: "prims \<Rightarrow> ref_head \<Rightarrow> bytes \<Rightarrow> client_error + unit" where
  "verify_pusher_sig P h leaf_vk =
     (if pusher_sig h = [] then Inl (Other MissingLeafSig)
      else case mldsa_verify P leaf_vk (leaf_sign_message h) (pusher_sig h) of
             Inl e \<Rightarrow> Inl (Other (LeafVerify e)) | Inr u \<Rightarrow> Inr u)"

lemma verify_pusher_sig_ok:
  "verify_pusher_sig P h vk = Inr () \<longleftrightarrow> valid_sig P vk (leaf_sign_message h) (pusher_sig h)"
  using valid_sig_lengths [of P vk "leaf_sign_message h" "pusher_sig h"]
  by (auto simp: verify_pusher_sig_def valid_sig_def split: sum.splits)

lemma admin_cosig_verify_ok:
  "admin_cosig_verify P vk repo ep oper sq prev d g s = Inr () \<longleftrightarrow>
     valid_sig P vk (admin_cosig_message repo ep oper sq prev d g ADMIN_COSIG_POLICY_VERSION) s"
  by (auto simp: admin_cosig_verify_def valid_sig_def split: sum.splits)

lemma admin_cosig_sign_ok:
  "kp_wf P kp \<Longrightarrow> admin_cosig_sign P kp repo ep oper sq prev d g =
     Inr (sk_sign P (kp_seed kp) (admin_cosig_message repo ep oper sq prev d g ADMIN_COSIG_POLICY_VERSION))"
  by (simp add: admin_cosig_sign_def kp_sign_wf)

definition verify_force_push_policy_scoped ::
    "prims \<Rightarrow> refs_json \<Rightarrow> ref_head \<Rightarrow> bool \<Rightarrow> ff_status \<Rightarrow> ancestry_scope \<Rightarrow> bytes option \<Rightarrow>
     enc_refs_map \<Rightarrow> bytes list \<Rightarrow> client_error + unit" where
  "verify_force_push_policy_scoped P J h claimed_non_ff status scope admin_vk new_refs roster =
     (if status = FastForward then Inr ()
      else if status = NonFastForward \<and> \<not> claimed_non_ff then Inl (Other FalselyLabeled)
      else case admin_cosig h of
        None \<Rightarrow>
          Inl (Other (if status = Unverifiable \<and> grafted scope then UnverifiableGrafted (seq h) (history_from scope)
                      else if status = Unverifiable then UnverifiableNoDag (seq h)
                      else MissingCosig))
      | Some cosig \<Rightarrow>
          (case admin_vk of
             None \<Rightarrow> Inl (Other AdminKeyRequired)
           | Some vk \<Rightarrow>
               admin_cosig_verify P vk (repo_id h) (mls_epoch h) ''push'' (seq h) (prev_head_hash h)
                 (refs_digest P J new_refs) (roster_digest P roster) cosig))"

definition verify_force_push_policy ::
    "prims \<Rightarrow> refs_json \<Rightarrow> ref_head \<Rightarrow> bool \<Rightarrow> bool \<Rightarrow> bytes option \<Rightarrow> enc_refs_map \<Rightarrow> bytes list \<Rightarrow> client_error + unit" where
  "verify_force_push_policy P J h claimed_non_ff recomputed_non_ff admin_vk new_refs roster =
     verify_force_push_policy_scoped P J h claimed_non_ff
       (if recomputed_non_ff then NonFastForward else FastForward) scope_full admin_vk new_refs roster"

definition push_statement :: "prims \<Rightarrow> refs_json \<Rightarrow> ref_head \<Rightarrow> enc_refs_map \<Rightarrow> bytes list \<Rightarrow> bytes" where
  "push_statement P J h refs roster =
     admin_cosig_message (repo_id h) (mls_epoch h) ''push'' (seq h) (prev_head_hash h)
       (refs_digest P J refs) (roster_digest P roster) ADMIN_COSIG_POLICY_VERSION"

text \<open>
  What an update does to the refs: it only advances them, or it provably rewinds one (deletes it,
  moves a tag, or moves a branch to a commit that git denies to be a descendant).  The two exclude
  each other, and without the objects an update may be neither.
\<close>

definition update_advances :: "git_dag option \<Rightarrow> refs_map \<Rightarrow> refs_map \<Rightarrow> bool" where
  "update_advances dir old new \<longleftrightarrow>
     (\<forall>nm \<in> fst ` set old. map_of new nm \<noteq> None) \<and>
     (\<forall>(nm, n) \<in> set new. \<forall>ol. map_of old nm = Some ol \<longrightarrow> ref_advances dir nm ol n)"

definition ref_rewinds :: "git_dag option \<Rightarrow> string \<Rightarrow> oid \<Rightarrow> oid \<Rightarrow> bool" where
  "ref_rewinds dir nm ol n \<longleftrightarrow> ol \<noteq> n \<and>
     (starts_with ''refs/tags/'' nm \<or>
      (\<exists>G. dir = Some G \<and> has_object G ol \<and> has_object G n \<and> is_fast_forward G ol n = Inr False))"

definition update_rewinds :: "git_dag option \<Rightarrow> refs_map \<Rightarrow> refs_map \<Rightarrow> bool" where
  "update_rewinds dir old new \<longleftrightarrow>
     (\<exists>nm \<in> fst ` set old. map_of new nm = None) \<or>
     (\<exists>(nm, n) \<in> set new. \<exists>ol. map_of old nm = Some ol \<and> ref_rewinds dir nm ol n)"

lemma classify_loop_step:
  assumes "classify_loop dir old ((nm, n) # rest) unv = Inr st"
  shows "if \<exists>ol. map_of old nm = Some ol \<and> ref_rewinds dir nm ol n then st = NonFastForward
    else \<exists>u. classify_loop dir old rest u = Inr st"
proof (cases "map_of old nm")
  case None
  then show ?thesis using assms by auto
next
  case (Some ol)
  show ?thesis
  proof (cases "ol = n \<or> starts_with ''refs/tags/'' nm \<or> dir = None")
    case True
    then show ?thesis using assms Some by (auto simp: ref_rewinds_def split: if_splits)
  next
    case False
    then obtain G where "ol \<noteq> n" "\<not> starts_with ''refs/tags/'' nm" "dir = Some G" by auto
    then show ?thesis using assms Some
      by (cases "is_fast_forward G ol n") (auto simp: ref_rewinds_def split: if_splits)
  qed
qed

lemma classify_loop_NonFastForward_iff:
  "classify_loop dir old new unv = Inr st \<Longrightarrow>
     st = NonFastForward \<longleftrightarrow> (\<exists>(nm, n) \<in> set new. \<exists>ol. map_of old nm = Some ol \<and> ref_rewinds dir nm ol n)"
proof (induction new arbitrary: unv)
  case Nil
  then show ?case by (auto split: if_splits)
next
  case (Cons p rest)
  obtain nm n where p: "p = (nm, n)" by (cases p)
  show ?case
  proof (cases "\<exists>ol. map_of old nm = Some ol \<and> ref_rewinds dir nm ol n")
    case True
    then show ?thesis using classify_loop_step [OF Cons.prems [unfolded p]] by (auto simp: p)
  next
    case False
    then obtain u where "classify_loop dir old rest u = Inr st"
      using classify_loop_step [OF Cons.prems [unfolded p]] by (auto split: if_splits)
    from Cons.IH [OF this] False show ?thesis unfolding p by fastforce
  qed
qed

lemma classify_ff_FastForward_iff:
  "classify_ff dir old new = Inr FastForward \<longleftrightarrow> update_advances dir old new"
  by (auto simp: classify_ff_def classify_loop_FastForward_iff list_ex_iff update_advances_def)

lemma classify_ff_NonFastForward_iff:
  assumes "classify_ff dir old new = Inr st"
  shows "st = NonFastForward \<longleftrightarrow> update_rewinds dir old new"
proof (cases "list_ex (\<lambda>k. map_of new k = None) (map fst old)")
  case True
  then show ?thesis using assms by (auto simp: classify_ff_def update_rewinds_def list_ex_iff)
next
  case False
  then have kept: "\<not> (\<exists>nm \<in> fst ` set old. map_of new nm = None)" by (auto simp: list_ex_iff)
  have "classify_loop dir old new False = Inr st" using assms False by (simp add: classify_ff_def)
  from classify_loop_NonFastForward_iff [OF this] show ?thesis unfolding update_rewinds_def using kept by blast
qed

lemma scoped_policy_ok:
  "verify_force_push_policy_scoped P J h claimed st scope vk refs roster = Inr () \<longleftrightarrow>
     st = FastForward \<or>
     (st = NonFastForward \<longrightarrow> claimed) \<and>
     (\<exists>k c. vk = Some k \<and> admin_cosig h = Some c \<and> valid_sig P k (push_statement P J h refs roster) c)"
  by (cases st)
    (auto simp: verify_force_push_policy_scoped_def push_statement_def admin_cosig_verify_ok split: option.splits)

text \<open>
  C38.  The force-push gate, from the refs to the verdict: when a verifier has classified the update
  from the old refs to the new ones, the policy accepts the head exactly when the update only
  advances refs, or when the head carries a co-signature that verifies under the supplied
  administrator key over this repository, epoch, position, predecessor, refs and roster and the
  sender declared the update in case it provably rewinds a ref.  So a rewind needs both the
  declaration and the co-signature, an update that cannot be decided needs the co-signature alone,
  the declaration alone opens nothing, and the scope of the verifier plays no part in the verdict.
\<close>

theorem force_push_gate:
  assumes "classify_ff dir old new = Inr st"
  shows "(verify_force_push_policy_scoped P J h claimed st scope vk refs roster = Inr ()) =
     (update_advances dir old new \<or>
      (update_rewinds dir old new \<longrightarrow> claimed) \<and>
      (\<exists>k c. vk = Some k \<and> admin_cosig h = Some c \<and> valid_sig P k (push_statement P J h refs roster) c))"
proof -
  have "st = FastForward \<longleftrightarrow> update_advances dir old new"
    using assms classify_ff_FastForward_iff [of dir old new] by auto
  with classify_ff_NonFastForward_iff [OF assms] show ?thesis unfolding scoped_policy_ok by simp
qed

text \<open>
  A branch moved back, with git's denial: declared and co-signed by the administrator it passes;
  co-signed but undeclared, or declared with bytes that are no signature, it does not.
\<close>

lemma force_push_gate_witness:
  "let G = \<lparr>cat_file = (\<lambda>_. True), merge_base = (\<lambda>a b. Some False)\<rparr>;
       J = \<lparr>to_json = (\<lambda>_. Some []), from_json = (\<lambda>_. None)\<rparr>;
       refs = empty_refs_map\<lparr>er_refs := [(''refs/heads/main'', ''a1'')]\<rparr>;
       h = demo_head\<lparr>admin_cosig := Some (sk_sign demo_prims (kp_seed demo_kp) (push_statement demo_prims J demo_head refs []))\<rparr>;
       verdict = (\<lambda>h claimed. rbind (classify_ff (Some G) [(''refs/heads/main'', ''b2'')] (er_refs refs)) (\<lambda>st.
         verify_force_push_policy_scoped demo_prims J h claimed st scope_full (Some (kp_public demo_kp)) refs []))
   in verdict h True = Inr () \<and> verdict h False \<noteq> Inr () \<and> verdict demo_head True \<noteq> Inr ()"
proof -
  define G where "G = \<lparr>cat_file = (\<lambda>_ :: oid. True), merge_base = (\<lambda>(a :: oid) (b :: oid). Some False)\<rparr>"
  define J where "J = \<lparr>to_json = (\<lambda>_ :: enc_refs_map. Some ([] :: bytes)), from_json = (\<lambda>_ :: bytes. None :: enc_refs_map option)\<rparr>"
  define refs where "refs = empty_refs_map\<lparr>er_refs := [(''refs/heads/main'', ''a1'')]\<rparr>"
  let ?s = "push_statement demo_prims J demo_head refs []"
  define h where "h = demo_head\<lparr>admin_cosig := Some (sk_sign demo_prims (kp_seed demo_kp) ?s)\<rparr>"
  have st: "classify_ff (Some G) [(''refs/heads/main'', ''b2'')] (er_refs refs) = Inr NonFastForward"
    by (simp add: classify_ff_def refs_def G_def starts_with_def has_object_def is_fast_forward_def null_oid_def)
  have "is_fast_forward G ''b2'' ''a1'' = Inr False" "has_object G x" for x
    by (simp_all add: is_fast_forward_def has_object_def null_oid_def G_def)
  then have moves: "\<not> update_advances (Some G) [(''refs/heads/main'', ''b2'')] (er_refs refs)"
    "update_rewinds (Some G) [(''refs/heads/main'', ''b2'')] (er_refs refs)"
    by (simp_all add: update_advances_def update_rewinds_def ref_advances_def ref_rewinds_def refs_def)
  have sig: "valid_sig demo_prims (kp_public demo_kp) (push_statement demo_prims J h refs []) (sk_sign demo_prims (kp_seed demo_kp) ?s)"
    by (simp add: h_def push_statement_def kp_sign_verifies [OF mldsa_correct_demo kp_wf_demo kp_sign_wf [OF kp_wf_demo]])
  note gate = force_push_gate [OF st, of demo_prims J _ _ scope_full "Some (kp_public demo_kp)" refs "[]"]
  have "verify_force_push_policy_scoped demo_prims J h True NonFastForward scope_full (Some (kp_public demo_kp)) refs [] = Inr ()"
    using sig unfolding gate by (simp add: h_def)
  moreover have "verify_force_push_policy_scoped demo_prims J h False NonFastForward scope_full (Some (kp_public demo_kp)) refs [] \<noteq> Inr ()"
    using moves unfolding gate by simp
  moreover have "verify_force_push_policy_scoped demo_prims J demo_head True NonFastForward scope_full (Some (kp_public demo_kp)) refs [] \<noteq> Inr ()"
    using moves unfolding gate by (simp add: demo_head_def valid_sig_iff)
  ultimately show ?thesis
    unfolding Let_def G_def [symmetric] J_def [symmetric] refs_def [symmetric] h_def [symmetric] by (simp add: st)
qed

section \<open>Administrator quorums\<close>

definition ADMIN_QUORUM_MAGIC :: bytes where
  "ADMIN_QUORUM_MAGIC = str_bytes ''SHQ1''"

fun put_sigs :: "bytes list \<Rightarrow> client_error + bytes" where
  "put_sigs [] = Inr []"
| "put_sigs (s # ss) =
     (if length s \<ge> 2 ^ 32 then Inl (Other SigTooLong)
      else rbind (put_sigs ss) (\<lambda>out. Inr (u32_be (of_nat (length s)) @ s @ out)))"

definition encode_admin_quorum :: "u8 \<Rightarrow> bytes list \<Rightarrow> client_error + bytes" where
  "encode_admin_quorum m sigs =
     (if m = 0 \<or> sigs = [] \<or> unat m > length sigs \<or> length sigs > 255 then Inl (Other InvalidQuorum)
      else rbind (put_sigs sigs) (\<lambda>out. Inr (ADMIN_QUORUM_MAGIC @ [m, of_nat (length sigs)] @ out)))"

fun take_sigs :: "nat \<Rightarrow> bytes \<Rightarrow> bytes list option" where
  "take_sigs 0 rest = (if rest \<noteq> [] then None else Some [])"
| "take_sigs (Suc n) rest =
     (if length rest < 4 then None
      else let len = unat (of_be_bytes (take 4 rest) :: u32); rest' = drop 4 rest
           in if length rest' < len then None
              else map_option ((#) (take len rest')) (take_sigs n (drop len rest')))"

definition decode_admin_quorum :: "bytes \<Rightarrow> (u8 \<times> bytes list) option" where
  "decode_admin_quorum b =
     (if length b < 6 \<or> take 4 b \<noteq> ADMIN_QUORUM_MAGIC then None
      else map_option (\<lambda>sigs. (b ! 4, sigs)) (take_sigs (unat (b ! 5)) (drop 6 b)))"

definition saturating_inc :: "u8 \<Rightarrow> u8" where
  "saturating_inc x = (if x = - 1 then x else x + 1)"

text \<open>The loop over \<^verbatim>\<open>sigs.iter().enumerate()\<close>; \<^verbatim>\<open>vks[i]\<close> exists because of the length check before it.\<close>

definition count_valid :: "prims \<Rightarrow> bytes \<Rightarrow> bytes list \<Rightarrow> bytes list \<Rightarrow> u8" where
  "count_valid P msg vks sigs =
     fold (\<lambda>(vk, sig) ok. if is_ok (mldsa_verify P vk msg sig) then saturating_inc ok else ok)
       (zip vks sigs) 0"

definition admin_quorum_verify ::
    "prims \<Rightarrow> bytes list \<Rightarrow> repo_id \<Rightarrow> u64 \<Rightarrow> string \<Rightarrow> u64 \<Rightarrow> head_hash \<Rightarrow> bytes \<Rightarrow> bytes \<Rightarrow> bytes \<Rightarrow> client_error + unit" where
  "admin_quorum_verify P vks repo ep oper sq prev refs_dg roster_dg cosig_bytes =
     (let msg = admin_cosig_message repo ep oper sq prev refs_dg roster_dg ADMIN_COSIG_POLICY_VERSION
      in case decode_admin_quorum cosig_bytes of
           Some (m, sigs) \<Rightarrow>
             if length vks < length sigs then Inl (Other FewerKeysThanSigs)
             else let ok = count_valid P msg vks sigs
                  in if ok < m then Inl (Other (QuorumFailed ok m)) else Inr ()
         | None \<Rightarrow>
             (case vks of
                [] \<Rightarrow> Inl (Other AdminKeyRequired)
              | vk # _ \<Rightarrow>
                  (case mldsa_verify P vk msg cosig_bytes of
                     Inl e \<Rightarrow> Inl (Other (MsgCrypto e)) | Inr u \<Rightarrow> Inr u)))"

fun admin_sign_all ::
    "prims \<Rightarrow> mldsa_key_pair list \<Rightarrow> repo_id \<Rightarrow> u64 \<Rightarrow> string \<Rightarrow> u64 \<Rightarrow> head_hash \<Rightarrow> bytes \<Rightarrow> bytes \<Rightarrow>
     client_error + bytes list" where
  "admin_sign_all P [] repo ep oper sq prev d g = Inr []"
| "admin_sign_all P (a # as) repo ep oper sq prev d g =
     rbind (admin_cosig_sign P a repo ep oper sq prev d g) (\<lambda>s.
       rbind (admin_sign_all P as repo ep oper sq prev d g) (\<lambda>ss. Inr (s # ss)))"

definition admin_quorum_sign ::
    "prims \<Rightarrow> mldsa_key_pair list \<Rightarrow> u8 \<Rightarrow> repo_id \<Rightarrow> u64 \<Rightarrow> string \<Rightarrow> u64 \<Rightarrow> head_hash \<Rightarrow> bytes \<Rightarrow> bytes \<Rightarrow>
     client_error + bytes" where
  "admin_quorum_sign P admins m repo ep oper sq prev d g =
     rbind (admin_sign_all P admins repo ep oper sq prev d g) (encode_admin_quorum m)"

lemma put_sigs_iff:
  "put_sigs sigs = Inr out \<longleftrightarrow> list_all opaque_fits sigs \<and> out = concat (map opaque sigs)"
  by (induction sigs arbitrary: out)
    (auto simp: rbind_Inr_conv opaque_def opaque_fits_def not_less)

lemma take_sigs_enc:
  "list_all opaque_fits sigs \<Longrightarrow> take_sigs (length sigs) (concat (map opaque sigs)) = Some sigs"
  by (induction sigs)
    (auto simp: opaque_def opaque_fits_def Let_def unat_of_nat take_bit_nat_eq_self)

lemma take_sigs_SomeD:
  "take_sigs n b = Some sigs \<Longrightarrow>
     length sigs = n \<and> list_all opaque_fits sigs \<and> b = concat (map opaque sigs)"
proof (induction n arbitrary: b sigs)
  case 0
  then show ?case by (auto split: if_splits)
next
  case (Suc n)
  let ?l = "of_be_bytes (take 4 b) :: u32"
  from Suc.prems obtain ss where b: "4 \<le> length b" "unat ?l \<le> length (drop 4 b)"
    and ss: "take_sigs n (drop (unat ?l) (drop 4 b)) = Some ss"
    and sigs: "sigs = take (unat ?l) (drop 4 b) # ss"
    by (auto simp: Let_def split: if_splits)
  have len: "length (take (unat ?l) (drop 4 b)) = unat ?l" using b(2) by simp
  have fits: "opaque_fits (take (unat ?l) (drop 4 b))"
    using unsigned_less [of ?l] by (simp add: opaque_fits_def len del: length_take)
  have "opaque (take (unat ?l) (drop 4 b)) = take 4 b @ take (unat ?l) (drop 4 b)"
    using b(1) unfolding opaque_def len by (simp add: u32_be_of_be_bytes)
  moreover have "b = take 4 b @ take (unat ?l) (drop 4 b) @ drop (unat ?l) (drop 4 b)"
    by (simp only: append_take_drop_id)
  moreover note Suc.IH [OF ss]
  ultimately show ?case using fits by (simp add: sigs del: drop_drop)
qed

definition quorum_layout :: "u8 \<Rightarrow> bytes list \<Rightarrow> bytes" where
  "quorum_layout m sigs = ADMIN_QUORUM_MAGIC @ [m, of_nat (length sigs)] @ concat (map opaque sigs)"

lemma length_ADMIN_QUORUM_MAGIC [simp]: "length ADMIN_QUORUM_MAGIC = 4"
  by (simp add: ADMIN_QUORUM_MAGIC_def)

lemma decode_admin_quorum_iff:
  "decode_admin_quorum b = Some (m, sigs) \<longleftrightarrow>
     length sigs \<le> 255 \<and> list_all opaque_fits sigs \<and> b = quorum_layout m sigs"
proof
  assume "decode_admin_quorum b = Some (m, sigs)"
  then have b: "6 \<le> length b" "take 4 b = ADMIN_QUORUM_MAGIC" "m = b ! 4"
    and ts: "take_sigs (unat (b ! 5)) (drop 6 b) = Some sigs"
    by (auto simp: decode_admin_quorum_def split: if_splits)
  have "b = take 4 b @ [b ! 4, b ! 5] @ drop 6 b"
  proof -
    have "drop 4 b = b ! 4 # b ! 5 # drop 6 b"
      using b(1) Cons_nth_drop_Suc [of 4 b] Cons_nth_drop_Suc [of 5 b] by simp
    then show ?thesis by (metis append_Cons append_Nil append_take_drop_id)
  qed
  moreover have "quorum_layout m sigs = take 4 b @ [b ! 4, b ! 5] @ drop 6 b"
    using take_sigs_SomeD [OF ts] unfolding quorum_layout_def b(2,3) by simp
  ultimately have "b = quorum_layout m sigs" by (simp only:)
  moreover have "length sigs \<le> 255"
  proof -
    have "unat (b ! 5) < 2 ^ LENGTH(8)" by (rule unsigned_less)
    with take_sigs_SomeD [OF ts] show ?thesis by simp
  qed
  ultimately show "length sigs \<le> 255 \<and> list_all opaque_fits sigs \<and> b = quorum_layout m sigs"
    using take_sigs_SomeD [OF ts] by (intro conjI) blast+
next
  assume a: "length sigs \<le> 255 \<and> list_all opaque_fits sigs \<and> b = quorum_layout m sigs"
  then have n: "unat (of_nat (length sigs) :: u8) = length sigs"
    by (simp add: unat_of_nat take_bit_nat_eq_self)
  have b: "b = ADMIN_QUORUM_MAGIC @ m # of_nat (length sigs) # concat (map opaque sigs)"
    using a by (simp add: quorum_layout_def)
  have "6 \<le> length b" "take 4 b = ADMIN_QUORUM_MAGIC" "b ! 4 = m" "b ! 5 = of_nat (length sigs)"
    "drop 6 b = concat (map opaque sigs)"
    unfolding b by (simp_all add: nth_append)
  moreover have "take_sigs (length sigs) (concat (map opaque sigs)) = Some sigs"
    using a take_sigs_enc by blast
  ultimately show "decode_admin_quorum b = Some (m, sigs)"
    by (simp only: decode_admin_quorum_def n) simp
qed

lemma encode_admin_quorum_iff:
  "encode_admin_quorum m sigs = Inr b \<longleftrightarrow>
     m \<noteq> 0 \<and> sigs \<noteq> [] \<and> unat m \<le> length sigs \<and> length sigs \<le> 255 \<and>
     list_all opaque_fits sigs \<and> b = quorum_layout m sigs"
  by (auto simp: encode_admin_quorum_def rbind_Inr_conv put_sigs_iff quorum_layout_def)

text \<open>
  Quorum bundles: whatever the encoder produces decodes to the same threshold and signatures,
  and the decoder accepts a byte string only when it is the layout of what it returns.
\<close>

theorem decode_encode_admin_quorum:
  "(encode_admin_quorum m sigs = Inr b \<longrightarrow> decode_admin_quorum b = Some (m, sigs)) \<and>
   (decode_admin_quorum b = Some (m, sigs) \<longrightarrow>
      b = quorum_layout m sigs \<and> (encode_admin_quorum m sigs = Inr b \<or> m = 0 \<or> sigs = [] \<or> length sigs < unat m))"
  by (auto simp: decode_admin_quorum_iff encode_admin_quorum_iff)

lemma decode_encode_admin_quorum_witness:
  "decode_admin_quorum (quorum_layout 1 [[1, 2], []]) = Some (1, [[1, 2], []])"
  using decode_encode_admin_quorum [of 1 "[[1, 2], []]" "quorum_layout 1 [[1, 2], []]"]
  by (simp add: encode_admin_quorum_iff opaque_fits_def)

lemma unat_count_valid:
  assumes "length (zip vks sigs) \<le> 255"
  shows "unat (count_valid P msg vks sigs) =
    length (filter (\<lambda>(vk, s). valid_sig P vk msg s) (zip vks sigs))"
proof -
  have "unat (fold (\<lambda>(vk, sig) ok. if is_ok (mldsa_verify P vk msg sig) then saturating_inc ok else ok) ps acc) =
      unat acc + length (filter (\<lambda>(vk, s). valid_sig P vk msg s) ps)"
    if "unat acc + length ps \<le> 255" for ps acc
    using that
  proof (induction ps arbitrary: acc)
    case (Cons p ps)
    have inc: "unat (saturating_inc acc) = unat acc + 1"
    proof -
      have "acc \<noteq> - 1" using Cons.prems by (auto simp: unsigned_minus_1_eq_mask mask_eq_exp_minus_1)
      then have "unat (acc + 1) = unat acc + 1" using Cons.prems by (simp add: unat_word_ariths)
      with \<open>acc \<noteq> - 1\<close> show ?thesis by (simp add: saturating_inc_def)
    qed
    show ?case
      using Cons.prems Cons.IH [of acc] Cons.IH [of "saturating_inc acc"] inc
      by (cases p) (auto simp: is_ok_mldsa_verify)
  qed simp
  from this [of 0 "zip vks sigs"] assms show ?thesis
    by (simp add: count_valid_def)
qed

lemma length_zip_quorum: "decode_admin_quorum b = Some (m, sigs) \<Longrightarrow> length (zip vks sigs) \<le> 255"
  by (simp add: decode_admin_quorum_iff min.coboundedI2)

text \<open>
  The quorum threshold: a bundle is accepted exactly when there are at least as many keys as
  signatures and the number of positions at which the signature verifies under the key of that
  position reaches the threshold of the bundle; bytes that are no bundle count as one signature
  under the first key.
\<close>

theorem admin_quorum_verify_exact:
  fixes repo :: repo_id
  defines "msg \<equiv> \<lambda>ep oper sq prev d g. admin_cosig_message repo ep oper sq prev d g ADMIN_COSIG_POLICY_VERSION"
  shows "(admin_quorum_verify P vks repo ep oper sq prev d g b = Inr ()) =
    (case decode_admin_quorum b of
       Some (m, sigs) \<Rightarrow>
         length sigs \<le> length vks \<and>
         unat m \<le> length (filter (\<lambda>(vk, s). valid_sig P vk (msg ep oper sq prev d g) s) (zip vks sigs))
     | None \<Rightarrow> (\<exists>vk rest. vks = vk # rest \<and> valid_sig P vk (msg ep oper sq prev d g) b))"
proof (cases "decode_admin_quorum b")
  case None
  then show ?thesis
    by (auto simp: admin_quorum_verify_def msg_def valid_sig_def split: list.splits sum.splits)
next
  case (Some ms)
  obtain m sigs where ms: "ms = (m, sigs)" by (cases ms)
  with Some have "decode_admin_quorum b = Some (m, sigs)" by simp
  then have "length (zip vks sigs) \<le> 255" by (rule length_zip_quorum)
  from unat_count_valid [OF this] Some ms show ?thesis
    by (auto simp: admin_quorum_verify_def msg_def Let_def word_less_nat_alt)
qed

text \<open>
  A bundle that states the threshold 0 passes the check without a single signature, under every
  key list, for every repository, position and digest; the encoder refuses to build it but the
  decoder accepts it.
\<close>

theorem admin_quorum_zero_threshold:
  "admin_quorum_verify P vks repo ep oper sq prev d g (ADMIN_QUORUM_MAGIC @ [0, 0]) = Inr () \<and>
   encode_admin_quorum 0 sigs = Inl (Other InvalidQuorum)"
proof -
  have "decode_admin_quorum (ADMIN_QUORUM_MAGIC @ [0, 0]) = Some (0, [])"
    by (simp add: decode_admin_quorum_iff quorum_layout_def)
  then show ?thesis
    by (simp add: admin_quorum_verify_def encode_admin_quorum_def count_valid_def)
qed

lemma admin_sign_all_wf:
  "list_all (kp_wf P) as \<Longrightarrow> admin_sign_all P as repo ep oper sq prev d g =
     Inr (map (\<lambda>a. sk_sign P (kp_seed a) (admin_cosig_message repo ep oper sq prev d g ADMIN_COSIG_POLICY_VERSION)) as)"
  by (induction as) (auto simp: admin_cosig_sign_ok)

text \<open>
  Honest quorums verify: when \<open>m\<close> of the listed administrators suffice and all of them sign, with
  between one and 255 of them, signing succeeds and the packed bundle is accepted under their keys.
\<close>

theorem admin_quorum_sign_verifies:
  assumes "mldsa_correct P" and "list_all (kp_wf P) admins"
    and "m \<noteq> 0" and "unat m \<le> length admins" and "length admins \<le> 255"
  shows "\<exists>b. admin_quorum_sign P admins m repo ep oper sq prev d g = Inr b \<and>
    admin_quorum_verify P (map kp_public admins) repo ep oper sq prev d g b = Inr ()"
proof -
  let ?msg = "admin_cosig_message repo ep oper sq prev d g ADMIN_COSIG_POLICY_VERSION"
  let ?sigs = "map (\<lambda>a. sk_sign P (kp_seed a) ?msg) admins"
  have ne: "admins \<noteq> []" using assms(3,4) by (auto simp: unat_eq_0)
  have enc: "encode_admin_quorum m ?sigs = Inr (quorum_layout m ?sigs)"
    using assms ne by (simp add: encode_admin_quorum_iff list_all_iff opaque_fits_def)
  then have dec: "decode_admin_quorum (quorum_layout m ?sigs) = Some (m, ?sigs)"
    by (simp add: encode_admin_quorum_iff decode_admin_quorum_iff)
  have "filter (\<lambda>(vk, s). valid_sig P vk ?msg s) (zip (map kp_public admins) ?sigs) =
      zip (map kp_public admins) ?sigs"
    using assms(1,2)
    by (auto simp: filter_id_conv zip_map_map zip_same_conv_map list_all_iff mldsa_correct_def kp_wf_def valid_sig_iff)
  moreover have "length (zip (map kp_public admins) ?sigs) \<le> 255"
    using assms(5) by simp
  ultimately have "unat (count_valid P ?msg (map kp_public admins) ?sigs) = length admins"
    by (simp add: unat_count_valid)
  then have "admin_quorum_verify P (map kp_public admins) repo ep oper sq prev d g (quorum_layout m ?sigs) = Inr ()"
    using dec assms(4) by (simp add: admin_quorum_verify_def Let_def word_less_nat_alt)
  moreover have "admin_quorum_sign P admins m repo ep oper sq prev d g = Inr (quorum_layout m ?sigs)"
    using enc by (simp add: admin_quorum_sign_def admin_sign_all_wf [OF assms(2)])
  ultimately show ?thesis by blast
qed

lemma admin_quorum_sign_verifies_witness:
  "\<exists>b. admin_quorum_sign demo_prims [demo_kp, demo_kp] 2 [] 3 ''push'' 2 [] [] [] = Inr b \<and>
    admin_quorum_verify demo_prims [kp_public demo_kp, kp_public demo_kp] [] 3 ''push'' 2 [] [] [] b = Inr ()"
  using admin_quorum_sign_verifies [OF mldsa_correct_demo, of "[demo_kp, demo_kp]" 2] kp_wf_demo by simp

end
