(* ===== verification/Merkle.thy ===== *)
theory Merkle
  imports Policy
begin

text \<open>
  The Merkle tree over the logical leaves of a consolidated span, the first part of
  \<^verbatim>\<open>safehub-client/src/consolidate.rs\<close>: roots, inclusion paths and the root a path implies.
\<close>

section \<open>The tree\<close>

definition node_pre :: "bytes \<Rightarrow> bytes \<Rightarrow> bytes" where
  "node_pre l r = domain_label ''consol-node'' @ l @ r"

definition node :: "prims \<Rightarrow> bytes \<Rightarrow> bytes \<Rightarrow> bytes" where
  "node P l r = sha512 P (node_pre l r)"

record merkle_step =
  sibling :: bytes
  sibling_right :: bool

record merkle_path =
  index :: nat
  steps :: "merkle_step list"

text \<open>One level up: \<^verbatim>\<open>level.chunks(2)\<close>, a last single node is paired with itself.\<close>

fun next_level :: "prims \<Rightarrow> bytes list \<Rightarrow> bytes list" where
  "next_level P [] = []"
| "next_level P [a] = [node P a a]"
| "next_level P (a # b # rest) = node P a b # next_level P rest"

lemma length_next_level [simp]: "length (next_level P l) = (length l + 1) div 2"
  by (induction P l rule: next_level.induct) auto

function root_loop :: "prims \<Rightarrow> bytes list \<Rightarrow> bytes" where
  "root_loop P level = (if length level > 1 then root_loop P (next_level P level) else level ! 0)"
  by pat_completeness auto
termination by (relation "measure (\<lambda>(P, l). length l)") auto

declare root_loop.simps [simp del]

lemma root_loop_single: "\<not> 1 < length l \<Longrightarrow> root_loop P l = l ! 0"
  and root_loop_up: "1 < length l \<Longrightarrow> root_loop P l = root_loop P (next_level P l)"
  by (simp_all add: root_loop.simps [of P l])

definition merkle_root :: "prims \<Rightarrow> bytes list \<Rightarrow> bytes" where
  "merkle_root P leaves =
     (if leaves = [] then sha512 P (domain_label ''consol-empty'') else root_loop P leaves)"

function path_loop :: "prims \<Rightarrow> bytes list \<Rightarrow> nat \<Rightarrow> merkle_step list" where
  "path_loop P level i =
     (if length level > 1 then
        let right = (i mod 2 = 0);
            sibling_idx = (if right then i + 1 else i - 1);
            sib = (if sibling_idx < length level then level ! sibling_idx else level ! i)
        in \<lparr>sibling = sib, sibling_right = right\<rparr> # path_loop P (next_level P level) (i div 2)
      else [])"
  by pat_completeness auto
termination by (relation "measure (\<lambda>(P, l, i). length l)") auto

declare path_loop.simps [simp del]

definition merkle_path_of :: "prims \<Rightarrow> bytes list \<Rightarrow> nat \<Rightarrow> merkle_path option" where
  "merkle_path_of P leaves i =
     (if i \<ge> length leaves then None else Some \<lparr>index = i, steps = path_loop P leaves i\<rparr>)"

definition climb :: "prims \<Rightarrow> merkle_step \<Rightarrow> bytes \<Rightarrow> bytes" where
  "climb P s running =
     (if sibling_right s then node P running (sibling s) else node P (sibling s) running)"

definition merkle_root_from_path :: "prims \<Rightarrow> bytes \<Rightarrow> merkle_path \<Rightarrow> bytes" where
  "merkle_root_from_path P leaf path = fold (climb P) (steps path) leaf"

section \<open>Completeness of inclusion paths\<close>

lemma next_level_nth:
  "j < length (next_level P l) \<Longrightarrow>
     next_level P l ! j = node P (l ! (2 * j)) (if 2 * j + 1 < length l then l ! (2 * j + 1) else l ! (2 * j))"
proof (induction P l arbitrary: j rule: next_level.induct)
  case (3 P a b rest)
  then show ?case by (cases j) (auto simp: numeral_eq_Suc)
qed auto

lemma path_loop_root:
  "i < length level \<Longrightarrow> fold (climb P) (path_loop P level i) (level ! i) = root_loop P level"
proof (induction P level i rule: path_loop.induct)
  case (1 P level i)
  show ?case
  proof (cases "length level > 1")
    case False
    with "1.prems" have "i = 0" by linarith
    with False show ?thesis by (simp add: root_loop_single path_loop.simps)
  next
    case True
    let ?up = "next_level P level"
    have up: "i div 2 < length ?up" using "1.prems" by simp
    define st where "st = hd (path_loop P level i)"
    have st: "path_loop P level i = st # path_loop P ?up (i div 2)"
      using True by (subst st_def, subst (1 2) path_loop.simps) (simp add: Let_def)
    have "climb P st (level ! i) = ?up ! (i div 2)"
    proof (cases "even i")
      case True
      then obtain k where "i = 2 * k" by blast
      with \<open>length level > 1\<close> "1.prems" up show ?thesis
        by (subst st_def, subst path_loop.simps) (simp add: Let_def climb_def next_level_nth)
    next
      case False
      then obtain k where "i = 2 * k + 1" by (elim oddE)
      with \<open>length level > 1\<close> "1.prems" up show ?thesis
        by (subst st_def, subst path_loop.simps) (simp add: Let_def climb_def next_level_nth)
    qed
    with "1.IH" [OF True refl refl refl up] show ?thesis
      by (simp add: root_loop_up [OF True] st)
  qed
qed

lemma merkle_path_complete:
  assumes "i < length leaves"
  shows "\<exists>p. merkle_path_of P leaves i = Some p \<and> index p = i \<and>
    merkle_root_from_path P (leaves ! i) p = merkle_root P leaves"
  using assms path_loop_root [OF assms, of P]
  by (auto simp: merkle_path_of_def merkle_root_from_path_def merkle_root_def)

lemma length_node [simp]: "length (node P l r) = 64"
  by (simp add: node_def)

lemma node_pre_inject:
  "length a = 64 \<Longrightarrow> length c = 64 \<Longrightarrow> node_pre a b = node_pre c d \<longleftrightarrow> a = c \<and> b = d"
  by (simp add: node_pre_def)

section \<open>What the tree hashes\<close>

text \<open>The node inputs hashed while building a tree and while climbing a path.\<close>

fun level_inputs :: "bytes list \<Rightarrow> bytes set" where
  "level_inputs [] = {}"
| "level_inputs [a] = {node_pre a a}"
| "level_inputs (a # b # rest) = insert (node_pre a b) (level_inputs rest)"

function tree_inputs :: "prims \<Rightarrow> bytes list \<Rightarrow> bytes set" where
  "tree_inputs P level =
     (if length level > 1 then level_inputs level \<union> tree_inputs P (next_level P level) else {})"
  by pat_completeness auto
termination by (relation "measure (\<lambda>(P, l). length l)") auto

declare tree_inputs.simps [simp del]

lemma tree_inputs_up:
  "1 < length l \<Longrightarrow> tree_inputs P l = level_inputs l \<union> tree_inputs P (next_level P l)"
  by (simp add: tree_inputs.simps [of P l])

fun path_inputs :: "prims \<Rightarrow> bytes \<Rightarrow> merkle_step list \<Rightarrow> bytes set" where
  "path_inputs P r [] = {}"
| "path_inputs P r (s # ss) =
     insert (if sibling_right s then node_pre r (sibling s) else node_pre (sibling s) r)
       (path_inputs P (climb P s r) ss)"

section \<open>Roots bind the leaves\<close>

definition digests :: "bytes list \<Rightarrow> bool" where
  "digests xs \<longleftrightarrow> list_all (\<lambda>x. length x = 64) xs"

lemma digests_simps [simp]:
  "digests []" "digests (x # xs) \<longleftrightarrow> length x = 64 \<and> digests xs"
  by (simp_all add: digests_def)

lemma digests_next_level: "digests (next_level P xs)"
  by (induction P xs rule: next_level.induct) auto

lemma next_level_inject:
  assumes "length xs = length ys" and "digests xs" and "digests ys"
    and "inj_on (sha512 P) (level_inputs xs \<union> level_inputs ys)"
    and "next_level P xs = next_level P ys"
  shows "xs = ys"
  using assms
proof (induction P xs arbitrary: ys rule: next_level.induct)
  case (2 P a)
  then obtain b where ys: "ys = [b]" by (cases ys) auto
  have "node_pre a a = node_pre b b"
    by (rule inj_onD [OF 2(4)]) (use 2(5) ys in \<open>simp_all add: node_def\<close>)
  with 2(2,3) ys show ?case by (simp add: node_pre_inject)
next
  case (3 P a b rest)
  then obtain c d rest' where ys: "ys = c # d # rest'"
    by (metis Suc_length_conv)
  have "node_pre a b = node_pre c d"
    by (rule inj_onD [OF 3(5)]) (use 3(6) ys in \<open>simp_all add: node_def\<close>)
  with 3(3,4) ys have "a = c \<and> b = d" by (simp add: node_pre_inject)
  moreover have "inj_on (sha512 P) (level_inputs rest \<union> level_inputs rest')"
    by (rule inj_on_subset [OF 3(5)]) (auto simp: ys)
  from 3(1) [OF _ _ _ this] 3(2-4,6) ys have "rest = rest'" by simp
  ultimately show ?case by (simp add: ys)
qed simp

lemma root_loop_inject:
  assumes "length xs = length ys" and "xs \<noteq> []" and "digests xs" and "digests ys"
    and "inj_on (sha512 P) (tree_inputs P xs \<union> tree_inputs P ys)"
    and "root_loop P xs = root_loop P ys"
  shows "xs = ys"
  using assms
proof (induction P xs arbitrary: ys rule: root_loop.induct)
  case (1 P xs)
  show ?case
  proof (cases "length xs > 1")
    case False
    with "1.prems" obtain a b where "xs = [a]" "ys = [b]"
      by (cases xs; cases ys) auto
    with "1.prems"(6) show ?thesis by (simp add: root_loop_single)
  next
    case True
    then have True': "length ys > 1" using "1.prems"(1) by simp
    have inputs: "tree_inputs P xs = level_inputs xs \<union> tree_inputs P (next_level P xs)"
      "tree_inputs P ys = level_inputs ys \<union> tree_inputs P (next_level P ys)"
      using tree_inputs_up True True' by blast+
    have "root_loop P (next_level P xs) = root_loop P (next_level P ys)"
      using "1.prems"(6) by (simp only: root_loop_up [OF True] root_loop_up [OF True'])
    moreover have "inj_on (sha512 P) (tree_inputs P (next_level P xs) \<union> tree_inputs P (next_level P ys))"
      by (rule inj_on_subset [OF "1.prems"(5)]) (auto simp: inputs)
    moreover have "next_level P xs \<noteq> []" "length (next_level P xs) = length (next_level P ys)"
      using True "1.prems"(1) by (auto simp flip: length_greater_0_conv)
    ultimately have "next_level P xs = next_level P ys"
      using "1.IH" [OF True] by (simp add: digests_next_level)
    moreover have "inj_on (sha512 P) (level_inputs xs \<union> level_inputs ys)"
      by (rule inj_on_subset [OF "1.prems"(5)]) (auto simp: inputs)
    ultimately show ?thesis
      using next_level_inject "1.prems" by blast
  qed
qed

section \<open>Inclusion is sound\<close>

lemma path_inputs_append:
  "path_inputs P r (a @ b) = path_inputs P r a \<union> path_inputs P (fold (climb P) a r) b"
  by (induction a arbitrary: r) auto

lemma next_level_mem:
  "x \<in> set (next_level P l) \<Longrightarrow>
     \<exists>a \<in> set l. \<exists>b \<in> set l. x = node P a b \<and> node_pre a b \<in> level_inputs l"
  by (induction P l rule: next_level.induct) auto

lemma climb_node_pre:
  "climb P s r = sha512 P (if sibling_right s then node_pre r (sibling s) else node_pre (sibling s) r)"
  by (simp add: climb_def node_def)

lemma root_loop_path:
  assumes "inj_on (sha512 P) (path_inputs P leaf st \<union> tree_inputs P level)"
    and "digests level" and "length leaf = 64" and "list_all (\<lambda>s. length (sibling s) = 64) st"
    and "level \<noteq> []" and "fold (climb P) st leaf = root_loop P level"
  shows "(\<exists>pre suf. st = pre @ suf \<and> fold (climb P) pre leaf \<in> set level) \<or>
    leaf \<in> sha512 P ` tree_inputs P level"
  using assms
proof (induction P level rule: root_loop.induct)
  case (1 P level)
  show ?case
  proof (cases "length level > 1")
    case False
    have "fold (climb P) st leaf \<in> set level"
      using "1.prems"(5,6) by (simp add: root_loop_single [OF False])
    then show ?thesis by (intro disjI1 exI [of _ st] exI [of _ "[]"]) simp
  next
    case True
    let ?up = "next_level P level"
    have inputs: "tree_inputs P level = level_inputs level \<union> tree_inputs P ?up"
      by (rule tree_inputs_up [OF True])
    have "inj_on (sha512 P) (path_inputs P leaf st \<union> tree_inputs P ?up)"
      by (rule inj_on_subset [OF "1.prems"(1)]) (auto simp: inputs)
    moreover have "?up \<noteq> []" using True by (auto simp flip: length_greater_0_conv)
    moreover have "fold (climb P) st leaf = root_loop P ?up"
      using "1.prems"(6) by (simp only: root_loop_up [OF True])
    ultimately consider (at) pre suf where "st = pre @ suf" "fold (climb P) pre leaf \<in> set ?up"
      | (leaf) "leaf \<in> sha512 P ` tree_inputs P ?up"
      using "1.IH" [OF True] "1.prems" digests_next_level by blast
    then show ?thesis
    proof cases
      case leaf
      then show ?thesis by (auto simp: inputs)
    next
      case at
      then obtain a b where ab: "a \<in> set level" "b \<in> set level" "fold (climb P) pre leaf = node P a b"
        "node_pre a b \<in> level_inputs level"
        using next_level_mem by blast
      show ?thesis
      proof (cases pre rule: rev_cases)
        case Nil
        with ab show ?thesis by (auto simp: inputs node_def)
      next
        case (snoc pre' s)
        let ?r = "fold (climb P) pre' leaf"
        let ?n = "if sibling_right s then node_pre ?r (sibling s) else node_pre (sibling s) ?r"
        have "?n \<in> path_inputs P leaf st"
          by (simp add: at(1) snoc path_inputs_append)
        then have n1: "?n \<in> path_inputs P leaf st \<union> tree_inputs P level" by (rule UnI1)
        have n2: "node_pre a b \<in> path_inputs P leaf st \<union> tree_inputs P level"
          unfolding inputs using ab(4) by blast
        have "sha512 P ?n = sha512 P (node_pre a b)"
          using ab(3) by (simp only: snoc fold_append fold.simps comp_apply id_apply climb_node_pre node_def)
        from inj_onD [OF "1.prems"(1) this n1 n2] have eq: "?n = node_pre a b" .
        have "length a = 64" "length (sibling s) = 64"
          using "1.prems"(2,4) ab(1) by (auto simp: digests_def list_all_iff at(1) snoc)
        moreover have "length ?r = 64"
          using "1.prems"(3) by (cases pre' rule: rev_cases) (simp_all add: climb_def)
        ultimately have "?r = a \<or> ?r = b"
          using eq by (simp add: node_pre_inject split: if_splits)
        then have "?r \<in> set level" using ab(1,2) by auto
        then show ?thesis using at(1) snoc by (intro disjI1 exI [of _ pre'] exI [of _ "s # suf"]) simp
      qed
    qed
  qed
qed

end
