(* ===== verification/Consolidate.thy ===== *)
theory Consolidate
  imports Merkle
begin

text \<open>
  Consolidation receipts, \<^verbatim>\<open>safehub-client/src/consolidate.rs\<close>: per-epoch commitments, the signed
  transcript, planning, signing, and the two verifiers.  The map of epoch commitments is the list
  of its entries in epoch order; the proofs handed to a verifier are a map from positions to paths.
\<close>

section \<open>Leaves and receipts\<close>

definition leaf_pre :: "prims \<Rightarrow> ref_head \<Rightarrow> bytes" where
  "leaf_pre P h = domain_label ''consol-leaf'' @ u64_le (seq h) @ ref_head_hash P h @ bundle_root h @
     u64_le (mls_epoch h)"

definition logical_leaf :: "prims \<Rightarrow> ref_head \<Rightarrow> bytes" where
  "logical_leaf P h = sha512 P (leaf_pre P h)"

record checkpoint_binding =
  at_seq :: u64
  anchor_head :: head_hash
  cp_refs_digest :: head_hash
  cp_bundle_root :: blob_id

definition consol_refs_digest :: "prims \<Rightarrow> repo_id \<Rightarrow> u64 \<Rightarrow> bytes \<Rightarrow> head_hash" where
  "consol_refs_digest P repo sq refs_plaintext =
     sha512 P (domain_label ''consol-refs'' @ repo @ u64_le sq @
       u64_le (of_nat (length refs_plaintext)) @ refs_plaintext)"

type_synonym epoch_entry = "u64 \<times> u64 \<times> u64 \<times> head_hash"

record consolidation_receipt =
  cr_repo_id :: repo_id
  cr_epoch :: u64
  from_seq :: u64
  to_seq :: u64
  logical_root :: blob_id
  cr_epoch_commitments :: "epoch_entry list"
  checkpoint :: "checkpoint_binding option"
  admin_sig :: bytes

record consolidation_plan =
  receipt :: consolidation_receipt
  plan_leaves :: "bytes list"

definition proof_for :: "prims \<Rightarrow> consolidation_plan \<Rightarrow> u64 \<Rightarrow> merkle_path option" where
  "proof_for P pl sq =
     (if sq < from_seq (receipt pl) \<or> sq > to_seq (receipt pl) then None
      else merkle_path_of P (plan_leaves pl) (unat (sq - from_seq (receipt pl))))"

definition epoch_group :: "ref_head list \<Rightarrow> u64 \<Rightarrow> ref_head list" where
  "epoch_group heads e = filter (\<lambda>h. mls_epoch h = e) heads"

definition epoch_digest :: "prims \<Rightarrow> u64 \<Rightarrow> ref_head list \<Rightarrow> head_hash" where
  "epoch_digest P e grp =
     sha512 P (domain_label ''consol-epoch'' @ u64_le e @
       concat (map (\<lambda>h. u64_le (seq h) @ ref_head_hash P h) grp))"

definition epoch_commitments :: "prims \<Rightarrow> ref_head list \<Rightarrow> epoch_entry list" where
  "epoch_commitments P heads =
     map (\<lambda>e. let grp = epoch_group heads e
              in (e, (case grp of [] \<Rightarrow> 0 | h # _ \<Rightarrow> seq h),
                  (if grp = [] then 0 else seq (last grp)), epoch_digest P e grp))
       (sorted_list_of_set (set (map mls_epoch heads)))"

definition lookup_epoch :: "epoch_entry list \<Rightarrow> u64 \<Rightarrow> (u64 \<times> u64 \<times> head_hash) option" where
  "lookup_epoch es e = map_of es e"

fun entry_bytes :: "epoch_entry \<Rightarrow> bytes" where
  "entry_bytes (e, lo, hi, dg) = u64_le e @ u64_le lo @ u64_le hi @ dg"

definition checkpoint_bytes :: "checkpoint_binding option \<Rightarrow> bytes" where
  "checkpoint_bytes c =
     (case c of None \<Rightarrow> [0]
      | Some c \<Rightarrow> [1] @ u64_le (at_seq c) @ anchor_head c @ cp_refs_digest c @ cp_bundle_root c)"

definition consolidation_message :: "consolidation_receipt \<Rightarrow> bytes" where
  "consolidation_message r =
     domain_label ''consolidation'' @ cr_repo_id r @ u64_le (cr_epoch r) @ u64_le (from_seq r) @
     u64_le (to_seq r) @ logical_root r @ concat (map entry_bytes (cr_epoch_commitments r)) @
     checkpoint_bytes (checkpoint r)"

section \<open>Planning and signing\<close>

text \<open>\<^verbatim>\<open>heads.windows(2)\<close>: the first neighbouring pair that is not consecutive.\<close>

fun first_gap :: "ref_head list \<Rightarrow> u64 option" where
  "first_gap (h # h' # hs) = (if seq h' \<noteq> seq h + 1 then Some (seq h') else first_gap (h' # hs))"
| "first_gap _ = None"

definition plan_consolidation ::
    "prims \<Rightarrow> repo_id \<Rightarrow> u64 \<Rightarrow> ref_head list \<Rightarrow> client_error + consolidation_plan" where
  "plan_consolidation P repo ep heads =
     (if heads = [] then Inl (Other (MsgConsol NoHeads))
      else case first_gap heads of
        Some s \<Rightarrow> Inl (Other (MsgConsol (NotContiguous s)))
      | None \<Rightarrow>
          let leaves = map (logical_leaf P) heads
          in Inr \<lparr>receipt = \<lparr>cr_repo_id = repo, cr_epoch = ep, from_seq = seq (heads ! 0),
                     to_seq = seq (heads ! (length heads - 1)), logical_root = merkle_root P leaves,
                     cr_epoch_commitments = epoch_commitments P heads, checkpoint = None, admin_sig = []\<rparr>,
                  plan_leaves = leaves\<rparr>)"

definition plan_compaction ::
    "prims \<Rightarrow> repo_id \<Rightarrow> u64 \<Rightarrow> ref_head list \<Rightarrow> bytes \<Rightarrow> blob_id \<Rightarrow> client_error + consolidation_plan" where
  "plan_compaction P repo ep heads checkpoint_refs root =
     rbind (plan_consolidation P repo ep heads) (\<lambda>pl.
       let anchor = last heads
       in Inr (pl\<lparr>receipt := (receipt pl)\<lparr>checkpoint :=
            Some \<lparr>at_seq = seq anchor, anchor_head = ref_head_hash P anchor,
                  cp_refs_digest = consol_refs_digest P repo (seq anchor) checkpoint_refs,
                  cp_bundle_root = root\<rparr>\<rparr>\<rparr>))"

definition sign_consolidation ::
    "prims \<Rightarrow> mldsa_key_pair \<Rightarrow> consolidation_receipt \<Rightarrow> client_error + consolidation_receipt" where
  "sign_consolidation P admin r =
     (case kp_sign P admin (consolidation_message r) of
        Inl e \<Rightarrow> Inl (Other (MsgCrypto e)) | Inr s \<Rightarrow> Inr (r\<lparr>admin_sig := s\<rparr>))"

fun sign_all :: "prims \<Rightarrow> mldsa_key_pair list \<Rightarrow> bytes \<Rightarrow> client_error + bytes list" where
  "sign_all P [] msg = Inr []"
| "sign_all P (a # as) msg =
     (case kp_sign P a msg of
        Inl e \<Rightarrow> Inl (Other (MsgCrypto e))
      | Inr s \<Rightarrow> rbind (sign_all P as msg) (\<lambda>ss. Inr (s # ss)))"

definition sign_consolidation_quorum ::
    "prims \<Rightarrow> mldsa_key_pair list \<Rightarrow> u8 \<Rightarrow> consolidation_receipt \<Rightarrow> client_error + consolidation_receipt" where
  "sign_consolidation_quorum P admins m r =
     rbind (sign_all P admins (consolidation_message r)) (\<lambda>sigs.
     rbind (encode_admin_quorum m sigs) (\<lambda>b. Inr (r\<lparr>admin_sig := b\<rparr>)))"

section \<open>Verification\<close>

text \<open>\<^verbatim>\<open>admin_vks.iter().any(...)\<close>.\<close>

definition any_key_verifies :: "prims \<Rightarrow> bytes \<Rightarrow> bytes list \<Rightarrow> bytes \<Rightarrow> bool" where
  "any_key_verifies P msg vks s = list_ex (\<lambda>vk. is_ok (mldsa_verify P vk msg s)) vks"

definition verify_quorum_over :: "prims \<Rightarrow> bytes \<Rightarrow> bytes list \<Rightarrow> bytes \<Rightarrow> client_error + unit" where
  "verify_quorum_over P msg vks sig =
     (case decode_admin_quorum sig of
        None \<Rightarrow> Inl (Other (MsgConsol MalformedQuorum))
      | Some (m, sigs) \<Rightarrow>
          let ok = fold (\<lambda>s ok. if any_key_verifies P msg vks s then saturating_inc ok else ok) sigs 0
          in if ok < m then Inl (Other (MsgConsol (ConsolQuorumFailed ok m))) else Inr ())"

definition verify_admin_authorization :: "prims \<Rightarrow> bytes \<Rightarrow> bytes list \<Rightarrow> bytes \<Rightarrow> client_error + unit" where
  "verify_admin_authorization P msg vks sig =
     (if decode_admin_quorum sig \<noteq> None then verify_quorum_over P msg vks sig
      else if any_key_verifies P msg vks sig then Inr ()
      else Inl (Other (MsgConsol NotAuthorized)))"

definition verify_checkpoint_anchor ::
    "prims \<Rightarrow> consolidation_receipt \<Rightarrow> bytes list \<Rightarrow> ref_head \<Rightarrow> bytes \<Rightarrow> client_error + unit" where
  "verify_checkpoint_anchor P r vks anchor refs_plaintext =
     (if vks = [] then Inl (Other (MsgConsol NeedAdminKey))
      else if admin_sig r = [] then Inl (Other (MsgConsol NoAuthorization))
      else case checkpoint r of
        None \<Rightarrow> Inl (Other (MsgConsol NoCheckpoint))
      | Some cp \<Rightarrow>
          rbind (verify_admin_authorization P (consolidation_message r) vks (admin_sig r)) (\<lambda>_.
            if repo_id anchor \<noteq> cr_repo_id r then Inl (Other (MsgConsol AnchorOtherRepo))
            else if seq anchor \<noteq> at_seq cp then Inl (Other (MsgConsol (AnchorSeq (at_seq cp) (seq anchor))))
            else if ref_head_hash P anchor \<noteq> anchor_head cp then Inl (Other (MsgConsol (AnchorHead (at_seq cp))))
            else if consol_refs_digest P (cr_repo_id r) (at_seq cp) refs_plaintext \<noteq> cp_refs_digest cp
            then Inl (Other (MsgConsol (AnchorRefs (at_seq cp))))
            else if at_seq cp < from_seq r \<or> at_seq cp > to_seq r
            then Inl (Other (MsgConsol (OutsideSpan (at_seq cp) (from_seq r) (to_seq r))))
            else Inr ()))"

definition in_span :: "consolidation_receipt \<Rightarrow> ref_head list \<Rightarrow> ref_head list" where
  "in_span r heads = filter (\<lambda>h. seq h \<ge> from_seq r \<and> seq h \<le> to_seq r) heads"

fun check_proofs ::
    "prims \<Rightarrow> consolidation_receipt \<Rightarrow> (u64 \<Rightarrow> merkle_path option) \<Rightarrow> ref_head list \<Rightarrow> client_error + unit" where
  "check_proofs P r proofs [] = Inr ()"
| "check_proofs P r proofs (h # hs) =
     (case proofs (seq h) of
        None \<Rightarrow> Inl (Other (MsgConsol (NoProof (seq h))))
      | Some path \<Rightarrow>
          let expect_index = unat (seq h - from_seq r)
          in if index path \<noteq> expect_index
             then Inl (Other (MsgConsol (WrongIndex (seq h) (index path) expect_index)))
             else if merkle_root_from_path P (logical_leaf P h) path \<noteq> logical_root r
             then Inl (Other (MsgConsol (NotInRoot (seq h))))
             else check_proofs P r proofs hs)"

fun check_epochs :: "consolidation_receipt \<Rightarrow> epoch_entry list \<Rightarrow> client_error + unit" where
  "check_epochs r [] = Inr ()"
| "check_epochs r ((e, lo, hi, dg) # es) =
     (case lookup_epoch (cr_epoch_commitments r) e of
        None \<Rightarrow> Inl (Other (MsgConsol (EpochOmitted e)))
      | Some (r_lo, r_hi, r_dg) \<Rightarrow>
          if (lo, hi) = (r_lo, r_hi) \<and> dg \<noteq> r_dg then Inl (Other (MsgConsol (EpochChanged e)))
          else if lo < r_lo \<or> hi > r_hi then Inl (Other (MsgConsol (EpochRange e r_lo r_hi lo hi)))
          else check_epochs r es)"

definition check_checkpoint :: "prims \<Rightarrow> consolidation_receipt \<Rightarrow> ref_head list \<Rightarrow> client_error + unit" where
  "check_checkpoint P r spn =
     (case checkpoint r of
        None \<Rightarrow> Inr ()
      | Some cp \<Rightarrow>
          (case List.find (\<lambda>h. seq h = at_seq cp) spn of
             Some anchor \<Rightarrow>
               if ref_head_hash P anchor \<noteq> anchor_head cp
               then Inl (Other (MsgConsol (AnchorNotInWindow (at_seq cp))))
               else if at_seq cp < from_seq r \<or> at_seq cp > to_seq r
               then Inl (Other (MsgConsol (OutsideSpan (at_seq cp) (from_seq r) (to_seq r))))
               else Inr ()
           | None \<Rightarrow>
               if at_seq cp < from_seq r \<or> at_seq cp > to_seq r
               then Inl (Other (MsgConsol (OutsideSpan (at_seq cp) (from_seq r) (to_seq r))))
               else Inr ()))"

definition verify_consolidation_window ::
    "prims \<Rightarrow> consolidation_receipt \<Rightarrow> bytes list \<Rightarrow> ref_head list \<Rightarrow> (u64 \<Rightarrow> merkle_path option) \<Rightarrow>
     client_error + unit" where
  "verify_consolidation_window P r vks window_heads proofs =
     (if vks = [] then Inl (Other (MsgConsol NeedAdminKey))
      else if admin_sig r = [] then Inl (Other (MsgConsol NoAuthorization))
      else rbind (verify_admin_authorization P (consolidation_message r) vks (admin_sig r)) (\<lambda>_.
        let spn = in_span r window_heads
        in if spn = [] then Inl (Other (MsgConsol WindowDisjoint))
           else rbind (check_proofs P r proofs spn) (\<lambda>_.
                rbind (check_epochs r (epoch_commitments P spn)) (\<lambda>_.
                check_checkpoint P r spn))))"

section \<open>Authorization\<close>

lemma any_key_verifies_iff: "any_key_verifies P msg vks s \<longleftrightarrow> (\<exists>vk \<in> set vks. valid_sig P vk msg s)"
  by (simp add: any_key_verifies_def list_ex_iff is_ok_mldsa_verify)

lemma any_key_verifies_eq: "any_key_verifies P msg vks = (\<lambda>s. \<exists>vk \<in> set vks. valid_sig P vk msg s)"
  by (rule ext) (rule any_key_verifies_iff)

lemma unat_saturating_inc: "unat (saturating_inc x) = min 255 (unat x + 1)"
proof (cases "x = - 1")
  case True
  then show ?thesis by (simp add: saturating_inc_def unsigned_minus_1_eq_mask mask_eq_exp_minus_1)
next
  case False
  then have "unat x \<noteq> unat (- 1 :: u8)" by (metis word_unat_eq_iff)
  moreover have "unat x < 2 ^ LENGTH(8)" by (rule unsigned_less)
  ultimately have "unat x < 255" by (simp add: unsigned_minus_1_eq_mask mask_eq_exp_minus_1)
  then show ?thesis using False by (simp add: saturating_inc_def unat_word_ariths)
qed

lemma unat_count_saturating:
  "unat acc + length xs \<le> 255 \<Longrightarrow>
     unat (fold (\<lambda>s ok. if Q s then saturating_inc ok else ok) xs acc) = unat acc + length (filter Q xs)"
proof (induction xs arbitrary: acc)
  case (Cons x xs)
  then show ?case using Cons.IH [of acc] Cons.IH [of "saturating_inc acc"]
    by (simp add: unat_saturating_inc)
qed simp

lemma verify_admin_authorization_iff:
  "verify_admin_authorization P msg vks sig = Inr () \<longleftrightarrow>
     (case decode_admin_quorum sig of
        Some (m, sigs) \<Rightarrow> unat m \<le> length (filter (\<lambda>s. \<exists>vk \<in> set vks. valid_sig P vk msg s) sigs)
      | None \<Rightarrow> \<exists>vk \<in> set vks. valid_sig P vk msg sig)"
proof (cases "decode_admin_quorum sig")
  case None
  then show ?thesis by (simp add: verify_admin_authorization_def any_key_verifies_iff)
next
  case (Some ms)
  obtain m sigs where ms: "ms = (m, sigs)" by (cases ms)
  have "length sigs \<le> 255" using Some by (simp add: ms decode_admin_quorum_iff)
  then have "unat (fold (\<lambda>s ok. if any_key_verifies P msg vks s then saturating_inc ok else ok) sigs 0) =
      length (filter (\<lambda>s. \<exists>vk \<in> set vks. valid_sig P vk msg s) sigs)"
    by (subst unat_count_saturating) (simp_all add: any_key_verifies_eq)
  with Some show ?thesis
    by (simp add: ms verify_admin_authorization_def verify_quorum_over_def Let_def word_less_nat_alt)
qed

text \<open>
  The m-of-n threshold of a receipt is not a threshold of administrators: each signature of the
  bundle is tried against every key and nothing stops one signature from being counted again, so a
  single administrator's signature, repeated \<open>m\<close> times, authorizes a receipt that asks for \<open>m\<close>.
\<close>

theorem consolidation_quorum_counts_repeats:
  assumes "valid_sig P vk msg s" and "vk \<in> set vks"
  shows "verify_admin_authorization P msg vks (quorum_layout m (replicate (unat m) s)) = Inr ()"
proof -
  have "unat m < 2 ^ LENGTH(8)" by (rule unsigned_less)
  then have "decode_admin_quorum (quorum_layout m (replicate (unat m) s)) = Some (m, replicate (unat m) s)"
    using valid_sig_lengths [OF assms(1)]
    by (simp add: decode_admin_quorum_iff opaque_fits_def list_all_iff)
  with assms show ?thesis
    by (auto simp: verify_admin_authorization_iff filter_replicate)
qed

lemma consolidation_quorum_counts_repeats_witness:
  "verify_admin_authorization demo_prims [1] [kp_public demo_kp]
     (quorum_layout 3 (replicate 3 (sk_sign demo_prims (kp_seed demo_kp) [1]))) = Inr ()"
proof -
  have "valid_sig demo_prims (kp_public demo_kp) [1] (sk_sign demo_prims (kp_seed demo_kp) [1])"
    by (rule kp_sign_verifies [OF mldsa_correct_demo kp_wf_demo kp_sign_wf [OF kp_wf_demo]])
  from consolidation_quorum_counts_repeats [OF this, of _ 3] show ?thesis by simp
qed

section \<open>Honest receipts are accepted from every window\<close>

lemma first_gap_None: "first_gap heads = None \<longleftrightarrow> consecutive heads"
  by (induction heads rule: first_gap.induct) auto

definition no_wrap :: "ref_head list \<Rightarrow> bool" where
  "no_wrap heads \<longleftrightarrow> heads \<noteq> [] \<and> unat (seq (hd heads)) + length heads \<le> 2 ^ 64"

lemma no_wrap_seq:
  assumes "consecutive heads" and "no_wrap heads" and "i < length heads"
  shows "unat (seq (heads ! i)) = unat (seq (hd heads)) + i"
proof -
  have i: "unat (seq (hd heads)) + i < 2 ^ 64"
    using assms(2,3) by (simp add: no_wrap_def)
  then have "unat (of_nat i :: u64) = i"
    by (simp add: unat_of_nat take_bit_nat_eq_self)
  with i show ?thesis
    using consecutive_seq [OF assms(1,3)] by (simp add: unat_word_ariths)
qed

lemma no_wrap_sorted:
  assumes "consecutive heads" and "no_wrap heads"
  shows "sorted_wrt (\<lambda>a b. seq a < seq b) heads"
  using no_wrap_seq [OF assms] by (auto simp: sorted_wrt_iff_nth_less word_less_nat_alt)

lemma no_wrap_index:
  assumes "consecutive heads" and "no_wrap heads" and "i < length heads"
  shows "unat (seq (heads ! i) - seq (hd heads)) = i"
  using no_wrap_seq [OF assms] by (simp add: unat_sub word_le_nat_alt)

lemma plan_consolidation_ok:
  "plan_consolidation P repo ep heads = Inr pl \<longleftrightarrow>
     heads \<noteq> [] \<and> consecutive heads \<and>
     pl = \<lparr>receipt = \<lparr>cr_repo_id = repo, cr_epoch = ep, from_seq = seq (hd heads), to_seq = seq (last heads),
             logical_root = merkle_root P (map (logical_leaf P) heads),
             cr_epoch_commitments = epoch_commitments P heads, checkpoint = None, admin_sig = []\<rparr>,
           plan_leaves = map (logical_leaf P) heads\<rparr>"
  by (auto simp: plan_consolidation_def first_gap_None [symmetric] Let_def hd_conv_nth last_conv_nth
      split: option.splits)

lemma lookup_epoch_commitments:
  assumes "grp = epoch_group heads e" and "grp \<noteq> []"
  shows "lookup_epoch (epoch_commitments P heads) e = Some (seq (hd grp), seq (last grp), epoch_digest P e grp)"
proof -
  have "e \<in> mls_epoch ` set heads"
    using assms by (auto simp: epoch_group_def filter_empty_conv)
  then show ?thesis using assms
    by (auto simp: lookup_epoch_def epoch_commitments_def Let_def map_of_map_restrict restrict_map_def
        split: list.splits)
qed

lemma epoch_commitments_mem:
  "(e, v) \<in> set (epoch_commitments P heads) \<Longrightarrow>
     \<exists>grp. grp = epoch_group heads e \<and> grp \<noteq> [] \<and> v = (seq (hd grp), seq (last grp), epoch_digest P e grp)"
  by (auto simp: epoch_commitments_def Let_def epoch_group_def filter_empty_conv split: list.splits)

lemma check_epochs_ok:
  assumes "\<And>e lo hi dg. (e, lo, hi, dg) \<in> set es \<Longrightarrow> \<exists>r_lo r_hi r_dg.
      lookup_epoch (cr_epoch_commitments r) e = Some (r_lo, r_hi, r_dg) \<and>
      ((lo, hi) = (r_lo, r_hi) \<longrightarrow> dg = r_dg) \<and> r_lo \<le> lo \<and> hi \<le> r_hi"
  shows "check_epochs r es = Inr ()"
  using assms
proof (induction r es rule: check_epochs.induct)
  case (2 r e lo hi dg es)
  obtain r_lo r_hi r_dg where "lookup_epoch (cr_epoch_commitments r) e = Some (r_lo, r_hi, r_dg)"
    "(lo, hi) = (r_lo, r_hi) \<longrightarrow> dg = r_dg" "r_lo \<le> lo" "hi \<le> r_hi"
    using "2.prems" [of e lo hi dg] by auto
  moreover have "check_epochs r es = Inr ()"
    using "2.IH" calculation "2.prems" by (auto simp: not_less)
  ultimately show ?case by (auto simp: not_less)
qed simp

lemma window_group_commitment:
  assumes "sorted_wrt (\<lambda>a b. seq a < seq b) (xs @ win @ ys)"
    and gw: "gw = epoch_group win e" "gw \<noteq> []"
  shows "\<exists>r_lo r_hi r_dg. lookup_epoch (epoch_commitments P (xs @ win @ ys)) e = Some (r_lo, r_hi, r_dg) \<and>
      ((seq (hd gw), seq (last gw)) = (r_lo, r_hi) \<longrightarrow> epoch_digest P e gw = r_dg) \<and>
      r_lo \<le> seq (hd gw) \<and> seq (last gw) \<le> r_hi"
proof -
  let ?gx = "epoch_group xs e" and ?gy = "epoch_group ys e"
  have grp: "epoch_group (xs @ win @ ys) e = ?gx @ gw @ ?gy"
    by (simp add: epoch_group_def gw)
  have lk: "lookup_epoch (epoch_commitments P (xs @ win @ ys)) e =
      Some (seq (hd (?gx @ gw @ ?gy)), seq (last (?gx @ gw @ ?gy)), epoch_digest P e (?gx @ gw @ ?gy))"
    by (rule lookup_epoch_commitments) (use grp gw(2) in simp_all)
  have sub: "set ?gx \<subseteq> set xs" "set gw \<subseteq> set win" "set ?gy \<subseteq> set ys"
    by (auto simp: epoch_group_def gw)
  have lt: "seq a < seq b" if "a \<in> set xs" "b \<in> set win" for a b
    using assms(1) that by (auto simp: sorted_wrt_append)
  have lt': "seq a < seq b" if "a \<in> set win" "b \<in> set ys" for a b
    using assms(1) that by (auto simp: sorted_wrt_append)
  have x: "?gx = [] \<or> seq (hd (?gx @ gw @ ?gy)) < seq (hd gw)"
  proof (cases "?gx = []")
    case False
    with sub gw(2) have "hd ?gx \<in> set xs" "hd gw \<in> set win" by auto
    from lt [OF this] False show ?thesis by simp
  qed simp
  have y: "?gy = [] \<or> seq (last gw) < seq (last (?gx @ gw @ ?gy))"
  proof (cases "?gy = []")
    case False
    with sub gw(2) have "last gw \<in> set win" "last ?gy \<in> set ys" by auto
    from lt' [OF this] False show ?thesis by simp
  qed simp
  show ?thesis
    unfolding lk using x y gw(2) by auto
qed

lemma window_in_span:
  assumes "consecutive (xs @ win @ ys)" and "no_wrap (xs @ win @ ys)"
    and "from_seq r = seq (hd (xs @ win @ ys))" and "to_seq r = seq (last (xs @ win @ ys))"
  shows "in_span r win = win"
proof -
  let ?h = "xs @ win @ ys"
  have srt: "sorted_wrt (\<lambda>a b. seq a < seq b) ?h" by (rule no_wrap_sorted [OF assms(1,2)])
  have ne: "?h \<noteq> []" using assms(2) by (simp add: no_wrap_def)
  have "seq (hd ?h) \<le> seq w \<and> seq w \<le> seq (last ?h)" if "w \<in> set win" for w
  proof -
    from that obtain i where i: "i < length ?h" "?h ! i = w" by (auto simp: in_set_conv_nth)
        (metis in_set_conv_nth in_set_conv_decomp that append_assoc set_append UnCI length_append)
    show ?thesis
      using no_wrap_seq [OF assms(1,2), of i] no_wrap_seq [OF assms(1,2), of "length ?h - 1"] i ne
      by (simp add: word_le_nat_alt last_conv_nth)
  qed
  then show ?thesis using assms(3,4) by (auto simp: in_span_def filter_id_conv)
qed

lemma window_proofs:
  assumes "consecutive (xs @ win @ ys)" and "no_wrap (xs @ win @ ys)"
    and "plan_consolidation P repo ep (xs @ win @ ys) = Inr pl"
    and "from_seq r = from_seq (receipt pl)" and "logical_root r = logical_root (receipt pl)"
  shows "check_proofs P r (proof_for P pl) win = Inr ()"
proof -
  let ?h = "xs @ win @ ys"
  let ?leaves = "map (logical_leaf P) ?h"
  note plan = assms(3) [unfolded plan_consolidation_ok]
  have ne: "?h \<noteq> []" using plan by blast
  have pl: "from_seq (receipt pl) = seq (hd ?h)" "to_seq (receipt pl) = seq (last ?h)"
    "logical_root (receipt pl) = merkle_root P ?leaves" "plan_leaves pl = ?leaves"
    using plan by simp_all
  have one: "\<exists>p. proof_for P pl (seq w) = Some p \<and> index p = unat (seq w - from_seq r) \<and>
      merkle_root_from_path P (logical_leaf P w) p = logical_root r" if "w \<in> set win" for w
  proof -
    have "w \<in> set ?h" using that by simp
    then obtain i where i: "i < length ?h" "w = ?h ! i" by (metis in_set_conv_nth)
    have idx: "unat (seq w - seq (hd ?h)) = i"
      using no_wrap_index [OF assms(1,2) i(1)] i(2) by simp
    have "seq w \<ge> seq (hd ?h) \<and> seq w \<le> seq (last ?h)"
      using no_wrap_seq [OF assms(1,2), of i] no_wrap_seq [OF assms(1,2), of "length ?h - 1"] i ne
      by (simp add: word_le_nat_alt last_conv_nth del: append_assoc)
    then have "proof_for P pl (seq w) = merkle_path_of P ?leaves i"
      by (simp add: proof_for_def pl idx not_less [symmetric] del: map_append append_assoc)
    moreover obtain p where "merkle_path_of P ?leaves i = Some p" "index p = i"
      "merkle_root_from_path P (?leaves ! i) p = merkle_root P ?leaves"
      using merkle_path_complete [of i ?leaves P] i(1) by auto
    moreover have "?leaves ! i = logical_leaf P w" using i by (metis nth_map)
    ultimately show ?thesis using assms(4,5) idx by (simp add: pl del: map_append)
  qed
  have "check_proofs P r (proof_for P pl) ws = Inr ()" if "set ws \<subseteq> set win" for ws
    using that
  proof (induction ws)
    case (Cons w ws)
    with one [of w] show ?case by auto
  qed simp
  then show ?thesis by simp
qed

text \<open>
  C28.  Honest consolidations are accepted by every member: when an administrator plans and signs a
  receipt over a contiguous span, every holder of a non-empty contiguous part of the span, wherever
  it starts and ends, accepts it with the inclusion proofs of the plan (the signature must not parse
  as a quorum bundle, and positions must not wrap past \<open>2^64\<close>).
\<close>

theorem honest_consolidation_accepted:
  assumes "mldsa_correct P" and "kp_wf P admin" and "kp_public admin \<in> set vks"
    and "plan_consolidation P repo ep (xs @ win @ ys) = Inr pl" and "win \<noteq> []"
    and "no_wrap (xs @ win @ ys)"
    and "sign_consolidation P admin (receipt pl) = Inr r" and "decode_admin_quorum (admin_sig r) = None"
  shows "verify_consolidation_window P r vks win (proof_for P pl) = Inr ()"
proof -
  note plan = assms(4) [unfolded plan_consolidation_ok]
  have cons: "consecutive (xs @ win @ ys)" using plan by blast
  let ?msg = "consolidation_message (receipt pl)"
  have r: "r = (receipt pl)\<lparr>admin_sig := sk_sign P (kp_seed admin) ?msg\<rparr>"
    using assms(7) by (simp add: sign_consolidation_def kp_sign_wf [OF assms(2)])
  have msg: "consolidation_message r = ?msg" by (simp add: r consolidation_message_def)
  have sg: "valid_sig P (kp_public admin) ?msg (admin_sig r)"
    using kp_sign_verifies [OF assms(1,2) kp_sign_wf [OF assms(2)]] by (simp add: r)
  then have auth: "verify_admin_authorization P (consolidation_message r) vks (admin_sig r) = Inr ()"
    using assms(3,8) by (auto simp: verify_admin_authorization_iff msg)
  have fields: "from_seq r = seq (hd (xs @ win @ ys))" "to_seq r = seq (last (xs @ win @ ys))"
    "cr_epoch_commitments r = epoch_commitments P (xs @ win @ ys)" "checkpoint r = None"
    "logical_root r = logical_root (receipt pl)" "from_seq r = from_seq (receipt pl)"
    using plan by (simp_all add: r)
  have span: "in_span r win = win" by (rule window_in_span [OF cons assms(6) fields(1,2)])
  have proofs: "check_proofs P r (proof_for P pl) win = Inr ()"
    by (rule window_proofs [OF cons assms(6,4) fields(6,5)])
  have epochs: "check_epochs r (epoch_commitments P win) = Inr ()"
  proof (rule check_epochs_ok)
    fix e lo hi dg assume "(e, lo, hi, dg) \<in> set (epoch_commitments P win)"
    then obtain gw where gw: "gw = epoch_group win e" "gw \<noteq> []"
      and v: "lo = seq (hd gw)" "hi = seq (last gw)" "dg = epoch_digest P e gw"
      using epoch_commitments_mem by fastforce
    show "\<exists>r_lo r_hi r_dg. lookup_epoch (cr_epoch_commitments r) e = Some (r_lo, r_hi, r_dg) \<and>
        ((lo, hi) = (r_lo, r_hi) \<longrightarrow> dg = r_dg) \<and> r_lo \<le> lo \<and> hi \<le> r_hi"
      unfolding fields(3) v by (rule window_group_commitment [OF no_wrap_sorted [OF cons assms(6)] gw])
  qed
  have "vks \<noteq> []" "admin_sig r \<noteq> []"
    using assms(3) valid_sig_lengths [OF sg] by auto
  then show ?thesis
    using auth assms(5) proofs epochs
    by (simp add: verify_consolidation_window_def span Let_def check_checkpoint_def fields(4))
qed

definition demo_plan :: consolidation_plan where
  "demo_plan = \<lparr>receipt = \<lparr>cr_repo_id = replicate 32 1, cr_epoch = 7, from_seq = 1, to_seq = 1,
      logical_root = logical_leaf demo_prims demo_head,
      cr_epoch_commitments = epoch_commitments demo_prims [demo_head], checkpoint = None, admin_sig = []\<rparr>,
      plan_leaves = [logical_leaf demo_prims demo_head]\<rparr>"

definition demo_receipt :: consolidation_receipt where
  "demo_receipt = (receipt demo_plan)\<lparr>admin_sig :=
     sk_sign demo_prims (kp_seed demo_kp) (consolidation_message (receipt demo_plan))\<rparr>"

lemma demo_head_seq: "seq demo_head = 1"
  by (simp add: demo_head_def)

lemma demo_plan: "plan_consolidation demo_prims (replicate 32 1) 7 ([] @ [demo_head] @ []) = Inr demo_plan"
  by (simp add: plan_consolidation_ok merkle_root_def root_loop_single demo_head_seq demo_plan_def)

lemma demo_receipt_sig: "decode_admin_quorum (admin_sig demo_receipt) = None"
proof -
  have "sk_sign demo_prims (kp_seed demo_kp) m ! 0 = 7" for m
    by (simp add: sk_sign_def demo_prims_def demo_kp_def fix_len_def nth_append)
  moreover have "ADMIN_QUORUM_MAGIC ! 0 = 0x53"
    by (simp add: ADMIN_QUORUM_MAGIC_def str_bytes_def)
  ultimately have "take 4 (admin_sig demo_receipt) \<noteq> ADMIN_QUORUM_MAGIC"
    by (auto simp: demo_receipt_def dest!: arg_cong [of "take 4 _" _ "\<lambda>l. l ! 0"])
  then show ?thesis by (simp add: decode_admin_quorum_def)
qed

lemma honest_consolidation_accepted_witness:
  "verify_consolidation_window demo_prims demo_receipt [kp_public demo_kp] [demo_head]
     (proof_for demo_prims demo_plan) = Inr ()"
  by (rule honest_consolidation_accepted [OF mldsa_correct_demo kp_wf_demo _ demo_plan _ _ _ demo_receipt_sig])
    (simp_all add: no_wrap_def demo_head_seq demo_receipt_def sign_consolidation_def kp_sign_wf [OF kp_wf_demo])

section \<open>Accepted windows belong to the span\<close>

lemma leaf_pre_not_node_pre: "leaf_pre P h \<noteq> node_pre a b"
proof
  assume "leaf_pre P h = node_pre a b"
  then have "domain_label ''consol-leaf'' = domain_label ''consol-node''"
    unfolding leaf_pre_def node_pre_def
    by (subst (asm) append_eq_append_conv) (simp_all add: domain_label_def)
  then show False by (simp add: domain_label_inject)
qed

lemma leaf_pre_hash: "leaf_pre P h = leaf_pre P h' \<Longrightarrow> ref_head_hash P h = ref_head_hash P h'"
  by (simp add: leaf_pre_def ref_head_hash_def head_hash_of_def append_eq_append_conv)

lemma digests_leaves: "digests (map (logical_leaf P) heads)"
  by (simp add: digests_def list_all_iff logical_leaf_def)

definition span_inputs :: "prims \<Rightarrow> ref_head list \<Rightarrow> bytes set" where
  "span_inputs P heads = leaf_pre P ` set heads \<union> tree_inputs P (map (logical_leaf P) heads)"

lemma inclusion_sound:
  assumes "inj_on (sha512 P) (span_inputs P heads \<union> insert (leaf_pre P h) (path_inputs P (logical_leaf P h) (steps p)))"
    and "list_all (\<lambda>s. length (sibling s) = 64) (steps p)" and "heads \<noteq> []"
    and "merkle_root_from_path P (logical_leaf P h) p = merkle_root P (map (logical_leaf P) heads)"
  shows "\<exists>h' \<in> set heads. ref_head_hash P h = ref_head_hash P h'"
proof -
  let ?leaf = "logical_leaf P h" and ?leaves = "map (logical_leaf P) heads"
  note inj = inj_onD [OF assms(1)]
  have "inj_on (sha512 P) (path_inputs P ?leaf (steps p) \<union> tree_inputs P ?leaves)"
    by (rule inj_on_subset [OF assms(1)]) (auto simp: span_inputs_def)
  moreover have "fold (climb P) (steps p) ?leaf = root_loop P ?leaves"
    using assms(3,4) by (simp add: merkle_root_from_path_def merkle_root_def)
  ultimately consider (at) pre suf where "steps p = pre @ suf" "fold (climb P) pre ?leaf \<in> set ?leaves"
    | (inner) "?leaf \<in> sha512 P ` tree_inputs P ?leaves"
    using root_loop_path [of P ?leaf "steps p" ?leaves] digests_leaves assms(2,3)
    by (auto simp: logical_leaf_def)
  then show ?thesis
  proof cases
    case inner
    have tree: "\<exists>a b. x = node_pre a b" if "x \<in> tree_inputs P l" for x l
      using that
    proof (induction P l rule: tree_inputs.induct)
      case (1 P l)
      have "x \<in> level_inputs l \<Longrightarrow> \<exists>a b. x = node_pre a b"
        by (induction l rule: level_inputs.induct) auto
      with 1 show ?case by (subst (asm) tree_inputs.simps) (auto split: if_splits)
    qed
    from inner obtain x where x: "x \<in> tree_inputs P ?leaves" "sha512 P (leaf_pre P h) = sha512 P x"
      unfolding logical_leaf_def by blast
    have "leaf_pre P h = x"
      by (rule inj [OF x(2)]) (simp_all add: span_inputs_def x(1))
    with tree [OF x(1)] leaf_pre_not_node_pre show ?thesis by metis
  next
    case at
    then obtain h' where h': "h' \<in> set heads" "fold (climb P) pre ?leaf = sha512 P (leaf_pre P h')"
      by (auto simp: logical_leaf_def)
    show ?thesis
    proof (cases pre rule: rev_cases)
      case Nil
      with h'(2) have "sha512 P (leaf_pre P h) = sha512 P (leaf_pre P h')"
        by (simp add: logical_leaf_def)
      then have "leaf_pre P h = leaf_pre P h'"
        by (rule inj) (simp_all add: span_inputs_def h'(1))
      with h'(1) leaf_pre_hash show ?thesis by blast
    next
      case (snoc pre' s)
      let ?r = "fold (climb P) pre' ?leaf"
      let ?n = "if sibling_right s then node_pre ?r (sibling s) else node_pre (sibling s) ?r"
      have mem: "?n \<in> path_inputs P ?leaf (steps p)"
        by (simp add: at(1) snoc path_inputs_append)
      have "sha512 P ?n = sha512 P (leaf_pre P h')"
        using h'(2) by (simp only: snoc fold_append fold.simps comp_apply id_apply climb_node_pre)
      then have "?n = leaf_pre P h'"
        by (rule inj) (use mem h'(1) in \<open>auto simp: span_inputs_def\<close>)
      with leaf_pre_not_node_pre [of P h'] show ?thesis by (metis (full_types))
    qed
  qed
qed

lemma check_proofs_okD:
  "check_proofs P r proofs hs = Inr () \<Longrightarrow> h \<in> set hs \<Longrightarrow>
     \<exists>p. proofs (seq h) = Some p \<and> index p = unat (seq h - from_seq r) \<and>
       merkle_root_from_path P (logical_leaf P h) p = logical_root r"
  by (induction hs) (auto simp: Let_def split: option.splits if_splits)

text \<open>
  C29.  A consolidator cannot rewrite a head that somebody holds: if the receipt carries the root of
  some list of heads, then every head inside the span that a member holds and checks against it,
  with whatever proofs it is given, hashes like one of the committed heads; a rewritten or foreign
  head is rejected, unless SHA-512 collides on the inputs of this tree and these paths.
\<close>

theorem consolidation_window_sound:
  assumes "verify_consolidation_window P r vks win proofs = Inr ()"
    and "logical_root r = merkle_root P (map (logical_leaf P) heads)" and "heads \<noteq> []"
    and "h \<in> set win" and "from_seq r \<le> seq h" and "seq h \<le> to_seq r" and "proofs (seq h) = Some p"
    and "list_all (\<lambda>s. length (sibling s) = 64) (steps p)"
    and "inj_on (sha512 P) (span_inputs P heads \<union> insert (leaf_pre P h) (path_inputs P (logical_leaf P h) (steps p)))"
  shows "\<exists>h' \<in> set heads. ref_head_hash P h = ref_head_hash P h'"
proof (rule inclusion_sound [OF assms(9,8,3)])
  have "h \<in> set (in_span r win)" using assms(4-6) by (simp add: in_span_def)
  moreover have "check_proofs P r proofs (in_span r win) = Inr ()"
    using assms(1)
    by (auto simp: verify_consolidation_window_def Let_def rbind_Inr_conv split: if_splits)
  ultimately show "merkle_root_from_path P (logical_leaf P h) p = merkle_root P (map (logical_leaf P) heads)"
    using check_proofs_okD assms(2,7) by fastforce
qed

lemma consolidation_window_sound_witness:
  "\<exists>h' \<in> set [demo_head]. ref_head_hash demo_prims demo_head = ref_head_hash demo_prims h'"
proof -
  let ?p = "\<lparr>index = 0, steps = []\<rparr>"
  have 1: "logical_root demo_receipt = merkle_root demo_prims (map (logical_leaf demo_prims) [demo_head])"
    by (simp add: demo_receipt_def demo_plan_def merkle_root_def root_loop_single)
  have 2: "from_seq demo_receipt \<le> seq demo_head" "seq demo_head \<le> to_seq demo_receipt"
    by (simp_all add: demo_receipt_def demo_plan_def demo_head_seq)
  have 3: "proof_for demo_prims demo_plan (seq demo_head) = Some ?p"
    by (simp add: proof_for_def demo_plan_def demo_head_seq merkle_path_of_def path_loop.simps)
  have 4: "inj_on (sha512 demo_prims) (span_inputs demo_prims [demo_head] \<union>
      insert (leaf_pre demo_prims demo_head) (path_inputs demo_prims (logical_leaf demo_prims demo_head) (steps ?p)))"
    by (simp add: span_inputs_def tree_inputs.simps)
  show ?thesis
    by (rule consolidation_window_sound [OF honest_consolidation_accepted_witness 1 _ _ 2 3 _ 4]) simp_all
qed

section \<open>The signed transcript\<close>

fun entry_wf :: "epoch_entry \<Rightarrow> bool" where
  "entry_wf (e, lo, hi, dg) = (length dg = 64)"

definition receipt_wf :: "consolidation_receipt \<Rightarrow> bool" where
  "receipt_wf r \<longleftrightarrow> arr 32 (cr_repo_id r) \<and> arr 64 (logical_root r) \<and>
     list_all entry_wf (cr_epoch_commitments r) \<and>
     (\<forall>c. checkpoint r = Some c \<longrightarrow> arr 64 (anchor_head c) \<and> arr 64 (cp_refs_digest c) \<and> arr 64 (cp_bundle_root c))"

lemma length_entry_bytes: "entry_wf x \<Longrightarrow> length (entry_bytes x) = 88"
  by (cases x) simp

lemma length_entries: "list_all entry_wf es \<Longrightarrow> length (concat (map entry_bytes es)) = 88 * length es"
  by (induction es) (simp_all add: length_entry_bytes)

lemma entry_bytes_inject: "entry_wf x \<Longrightarrow> entry_wf y \<Longrightarrow> entry_bytes x = entry_bytes y \<longleftrightarrow> x = y"
  by (cases x; cases y) (simp add: append_eq_append_conv)

lemma entries_inject:
  assumes "length es = length fs" and "list_all entry_wf es" and "list_all entry_wf fs"
    and "concat (map entry_bytes es) = concat (map entry_bytes fs)"
  shows "es = fs"
  using assms
  by (induction es fs rule: list_induct2) (simp_all add: append_eq_append_conv length_entry_bytes entry_bytes_inject)

lemma checkpoint_bytes_length:
  "receipt_wf r \<Longrightarrow> length (checkpoint_bytes (checkpoint r)) = (if checkpoint r = None then 1 else 201)"
  by (auto simp: checkpoint_bytes_def receipt_wf_def)

lemma checkpoint_bytes_inject:
  assumes "receipt_wf r" and "receipt_wf r'"
    and "checkpoint_bytes (checkpoint r) = checkpoint_bytes (checkpoint r')"
  shows "checkpoint r = checkpoint r'"
proof (cases "checkpoint r")
  case None
  with assms(3) show ?thesis by (cases "checkpoint r'") (simp_all add: checkpoint_bytes_def)
next
  case (Some c)
  with assms(3) obtain c' where c': "checkpoint r' = Some c'"
    by (cases "checkpoint r'") (simp_all add: checkpoint_bytes_def)
  have "c = c'"
    using assms Some c' by (cases c; cases c') (simp add: checkpoint_bytes_def receipt_wf_def append_eq_append_conv)
  with Some c' show ?thesis by simp
qed

text \<open>
  An administrator's signature on a receipt covers all of it: equal transcripts of two receipts
  with ids and digests of their proper sizes mean equal repositories, epochs, spans, roots, epoch
  commitments and checkpoints, although the number of epoch entries is not written.
\<close>

theorem consolidation_message_binds:
  assumes "receipt_wf r" and "receipt_wf r'" and "consolidation_message r = consolidation_message r'"
  shows "r\<lparr>admin_sig := s\<rparr> = r'\<lparr>admin_sig := s\<rparr>"
proof -
  let ?e = "concat (map entry_bytes (cr_epoch_commitments r))" and ?c = "checkpoint_bytes (checkpoint r)"
  let ?e' = "concat (map entry_bytes (cr_epoch_commitments r'))" and ?c' = "checkpoint_bytes (checkpoint r')"
  have fixed: "cr_repo_id r = cr_repo_id r'" "cr_epoch r = cr_epoch r'" "from_seq r = from_seq r'"
    "to_seq r = to_seq r'" "logical_root r = logical_root r'" and tail: "?e @ ?c = ?e' @ ?c'"
    using assms by (auto simp: consolidation_message_def receipt_wf_def append_eq_append_conv)
  have lens: "length ?e = 88 * length (cr_epoch_commitments r)" "length ?e' = 88 * length (cr_epoch_commitments r')"
    using assms(1,2) by (simp_all add: receipt_wf_def length_entries)
  from tail have "length (?e @ ?c) = length (?e' @ ?c')" by (rule arg_cong)
  then have sum: "88 * length (cr_epoch_commitments r) + (if checkpoint r = None then 1 else 201) =
      88 * length (cr_epoch_commitments r') + (if checkpoint r' = None then 1 else 201 :: nat)"
    using lens by (simp only: length_append checkpoint_bytes_length [OF assms(1)] checkpoint_bytes_length [OF assms(2)])
  then have n: "length (cr_epoch_commitments r) = length (cr_epoch_commitments r')"
    by (simp only: split: if_splits) presburger+
  then have "?e = ?e' \<and> ?c = ?c'"
    using tail lens by (subst (asm) append_eq_append_conv) auto
  then have "cr_epoch_commitments r = cr_epoch_commitments r'" "checkpoint r = checkpoint r'"
    using entries_inject [OF n] checkpoint_bytes_inject assms by (auto simp: receipt_wf_def)
  with fixed show ?thesis by (cases r; cases r') simp
qed

lemma consolidation_message_binds_witness:
  "consolidation_message demo_receipt \<noteq> consolidation_message (demo_receipt\<lparr>to_seq := 9\<rparr>)"
proof
  assume "consolidation_message demo_receipt = consolidation_message (demo_receipt\<lparr>to_seq := 9\<rparr>)"
  moreover have "receipt_wf demo_receipt" "receipt_wf (demo_receipt\<lparr>to_seq := 9\<rparr>)"
    by (auto simp: receipt_wf_def demo_receipt_def demo_plan_def logical_leaf_def epoch_commitments_def
        epoch_digest_def Let_def list_all_iff)
  ultimately have "demo_receipt\<lparr>admin_sig := []\<rparr> = demo_receipt\<lparr>to_seq := 9, admin_sig := []\<rparr>"
    by (intro consolidation_message_binds)
  then have "to_seq demo_receipt = 9" by (metis consolidation_receipt.select_convs(4) consolidation_receipt.surjective consolidation_receipt.update_convs(4) consolidation_receipt.update_convs(8))
  then show False by (simp add: demo_receipt_def demo_plan_def)
qed

text \<open>
  The checkpoint check: a reader without history accepts a checkpoint exactly when an authorized
  receipt publishes one for this repository at the anchor's position inside the span, bound to the
  anchor's hash and to the refs the reader decrypted itself.
\<close>

theorem checkpoint_anchor_exact:
  "(verify_checkpoint_anchor P r vks anchor refs = Inr ()) =
     (vks \<noteq> [] \<and> admin_sig r \<noteq> [] \<and>
      verify_admin_authorization P (consolidation_message r) vks (admin_sig r) = Inr () \<and>
      repo_id anchor = cr_repo_id r \<and> from_seq r \<le> seq anchor \<and> seq anchor \<le> to_seq r \<and>
      (\<exists>cp. checkpoint r = Some cp \<and> at_seq cp = seq anchor \<and> anchor_head cp = ref_head_hash P anchor \<and>
         cp_refs_digest cp = consol_refs_digest P (cr_repo_id r) (seq anchor) refs))"
  by (auto simp: verify_checkpoint_anchor_def rbind_Inr_conv not_less split: option.splits)

end
