(* ===== verification/Fork.thy ===== *)
theory Fork
  imports Policy
begin

text \<open>
  Checkpoints and their comparison, \<^verbatim>\<open>safehub-client/src/fork.rs\<close>: windowed views of the head log,
  epoch witnesses, the tip binding, and the Compare predicate.
\<close>

section \<open>Checkpoints\<close>

record chain_entry =
  ce_seq :: u64
  ce_hash :: head_hash
  ce_prev :: head_hash
  ce_epoch :: u64

record ref_checkpoint =
  rc_repo_id :: repo_id
  chain :: "chain_entry list"
  window_from :: u64
  epoch_witnesses :: "(u64 \<times> bytes) list"
  tip_binding :: head_hash

definition entry_binding :: "chain_entry \<Rightarrow> bytes" where
  "entry_binding e = u64_le (ce_seq e) @ ce_hash e @ ce_prev e @ u64_le (ce_epoch e)"

definition checkpoint_pre :: "ref_checkpoint \<Rightarrow> bytes" where
  "checkpoint_pre cp =
     str_bytes ''safehub-v1:checkpoint'' @ u64_le (window_from cp) @
     concat (map entry_binding (chain cp)) @
     concat (map (\<lambda>(e, w). u64_le e @ w) (epoch_witnesses cp))"

definition bind_checkpoint :: "prims \<Rightarrow> ref_checkpoint \<Rightarrow> head_hash" where
  "bind_checkpoint P cp = sha512 P (checkpoint_pre cp)"

definition rebind :: "prims \<Rightarrow> ref_checkpoint \<Rightarrow> ref_checkpoint" where
  "rebind P cp = cp\<lparr>tip_binding := bind_checkpoint P cp\<rparr>"

definition chain_entry_of :: "prims \<Rightarrow> ref_head \<Rightarrow> chain_entry" where
  "chain_entry_of P h = \<lparr>ce_seq = seq h, ce_hash = ref_head_hash P h, ce_prev = prev_head_hash h, ce_epoch = mls_epoch h\<rparr>"

definition from_heads_windowed :: "prims \<Rightarrow> repo_id \<Rightarrow> ref_head list \<Rightarrow> u64 \<Rightarrow> ref_checkpoint" where
  "from_heads_windowed P repo heads w =
     rebind P \<lparr>rc_repo_id = repo,
       chain = map (chain_entry_of P) (filter (\<lambda>h. mls_epoch h \<ge> w) heads),
       window_from = w, epoch_witnesses = [], tip_binding = head_hash_zero\<rparr>"

definition from_heads :: "prims \<Rightarrow> repo_id \<Rightarrow> ref_head list \<Rightarrow> ref_checkpoint" where
  "from_heads P repo heads = from_heads_windowed P repo heads 0"

definition with_epoch_witness :: "prims \<Rightarrow> u64 \<Rightarrow> bytes \<Rightarrow> ref_checkpoint \<Rightarrow> ref_checkpoint" where
  "with_epoch_witness P ep refs_mac cp =
     (let witness = epoch_witness_bytes P refs_mac (rc_repo_id cp) ep
      in rebind P (cp\<lparr>epoch_witnesses := bt_insert ep witness (epoch_witnesses cp)\<rparr>))"

definition tip_seq :: "ref_checkpoint \<Rightarrow> u64 option" where
  "tip_seq cp = (if chain cp = [] then None else Some (ce_seq (last (chain cp))))"

definition tip_hash :: "ref_checkpoint \<Rightarrow> head_hash option" where
  "tip_hash cp = (if chain cp = [] then None else Some (ce_hash (last (chain cp))))"

definition entries_at :: "chain_entry list \<Rightarrow> u64 \<Rightarrow> chain_entry list" where
  "entries_at c e = filter (\<lambda>x. ce_epoch x = e) c"

definition epoch_commit_digest :: "prims \<Rightarrow> u64 \<Rightarrow> chain_entry list \<Rightarrow> head_hash" where
  "epoch_commit_digest P e xs =
     sha512 P (domain_label ''epoch-commit'' @ u64_le e @ concat (map (\<lambda>x. u64_le (ce_seq x) @ ce_hash x) xs))"

definition cp_epoch_commitments :: "prims \<Rightarrow> ref_checkpoint \<Rightarrow> (u64 \<times> u64 \<times> u64 \<times> head_hash) list" where
  "cp_epoch_commitments P cp =
     map (\<lambda>e. let xs = entries_at (chain cp) e
              in (e, (case xs of [] \<Rightarrow> 0 | x # _ \<Rightarrow> ce_seq x), (if xs = [] then 0 else ce_seq (last xs)),
                  epoch_commit_digest P e xs))
       (sorted_list_of_set (set (map ce_epoch (chain cp))))"

section \<open>Compare\<close>

datatype fork_reason = DivergentHead | EpochWitness u64 | EpochCommitment u64

datatype compare_result =
  Consistent | PrefixCompatible char | CmpWindowDisjoint | Forked "u64 option" fork_reason

datatype compare_error = RepoMismatch | BindingMismatch | ChainInvalid | OutsideWindow

fun chain_internally_valid :: "chain_entry list \<Rightarrow> bool" where
  "chain_internally_valid (a # b # rest) =
     (if ce_seq b \<noteq> ce_seq a + 1 then False
      else if ce_prev b \<noteq> ce_hash a then False
      else if ce_epoch b < ce_epoch a then False
      else chain_internally_valid (b # rest))"
| "chain_internally_valid _ = True"

definition projection :: "chain_entry list \<Rightarrow> u64 \<Rightarrow> (u64 \<times> chain_entry) list" where
  "projection c w = bt_collect (map (\<lambda>e. (ce_seq e, e)) (filter (\<lambda>e. ce_epoch e \<ge> w) c))"

text \<open>The loop over the witnesses of \<open>a\<close>: the first epoch where both sides have one and they differ.\<close>

fun witness_conflict :: "(u64 \<times> bytes) list \<Rightarrow> (u64 \<times> bytes) list \<Rightarrow> u64 option" where
  "witness_conflict [] wb = None"
| "witness_conflict ((e, wa) # rest) wb =
     (case map_of wb e of
        Some w \<Rightarrow> if wa \<noteq> w then Some e else witness_conflict rest wb
      | None \<Rightarrow> witness_conflict rest wb)"

text \<open>The loop over \<^verbatim>\<open>lo..=hi\<close>: the first position where the projections do not agree.\<close>

function divergence ::
    "(u64 \<times> chain_entry) list \<Rightarrow> (u64 \<times> chain_entry) list \<Rightarrow> nat \<Rightarrow> nat \<Rightarrow> u64 option" where
  "divergence pa pb s hi =
     (if s > hi then None
      else case (map_of pa (of_nat s), map_of pb (of_nat s)) of
             (Some ea, Some eb) \<Rightarrow>
               if ce_hash ea \<noteq> ce_hash eb \<or> ce_epoch ea \<noteq> ce_epoch eb then Some (of_nat s)
               else divergence pa pb (Suc s) hi
           | _ \<Rightarrow> Some (of_nat s))"
  by pat_completeness auto
termination by (relation "measure (\<lambda>(pa, pb, s, hi). Suc hi - s)") auto

declare divergence.simps [simp del]

fun commit_conflict ::
    "u64 \<Rightarrow> (u64 \<times> u64 \<times> u64 \<times> head_hash) list \<Rightarrow> (u64 \<times> u64 \<times> u64 \<times> head_hash) list \<Rightarrow> (u64 \<times> u64) option" where
  "commit_conflict w [] cb = None"
| "commit_conflict w ((e, lo_a, hi_a, dig_a) # rest) cb =
     (if e < w then commit_conflict w rest cb
      else case map_of cb e of
        Some (lo_b, hi_b, dig_b) \<Rightarrow>
          if (lo_a, hi_a) = (lo_b, hi_b) \<and> dig_a \<noteq> dig_b then Some (e, lo_a)
          else commit_conflict w rest cb
      | None \<Rightarrow> commit_conflict w rest cb)"

definition compare_views :: "prims \<Rightarrow> ref_checkpoint \<Rightarrow> ref_checkpoint \<Rightarrow> compare_result" where
  "compare_views P a b =
     (let window = max (window_from a) (window_from b);
          pa = projection (chain a) window;
          pb = projection (chain b) window
      in if pa = [] \<or> pb = [] then CmpWindowDisjoint
         else
           let lo = max (fst (hd pa)) (fst (hd pb));
               hi_a = fst (last pa); hi_b = fst (last pb);
               hi = min hi_a hi_b
           in if lo > hi then CmpWindowDisjoint
              else case divergence pa pb (unat lo) (unat hi) of
                Some s \<Rightarrow> Forked (Some s) DivergentHead
              | None \<Rightarrow>
                  (case commit_conflict window (cp_epoch_commitments P a) (cp_epoch_commitments P b) of
                     Some (e, lo_a) \<Rightarrow> Forked (Some lo_a) (EpochCommitment e)
                   | None \<Rightarrow>
                       if hi_a = hi_b then Consistent
                       else if hi_a < hi_b then PrefixCompatible (CHR ''B'')
                       else PrefixCompatible (CHR ''A'')))"

definition compare_checkpoints :: "prims \<Rightarrow> ref_checkpoint \<Rightarrow> ref_checkpoint \<Rightarrow> compare_error + compare_result" where
  "compare_checkpoints P a b =
     (if rc_repo_id a \<noteq> rc_repo_id b then Inl RepoMismatch
      else if bind_checkpoint P a \<noteq> tip_binding a \<or> bind_checkpoint P b \<noteq> tip_binding b then Inl BindingMismatch
      else if \<not> chain_internally_valid (chain a) \<or> \<not> chain_internally_valid (chain b) then Inl ChainInvalid
      else if list_ex (\<lambda>e. ce_epoch e < window_from a) (chain a) \<or>
              list_ex (\<lambda>e. ce_epoch e < window_from b) (chain b) then Inl OutsideWindow
      else case witness_conflict (epoch_witnesses a) (epoch_witnesses b) of
        Some e \<Rightarrow>
          Inr (Forked (map_option ce_seq (List.find (\<lambda>x. ce_epoch x = e) (chain a))) (EpochWitness e))
      | None \<Rightarrow> Inr (compare_views P a b))"

section \<open>Two views of one honest log\<close>

text \<open>
  An honest log: positions grow by one without wrapping, every head points at its predecessor, and
  epochs never go back.
\<close>

definition log_entries_ok :: "chain_entry list \<Rightarrow> bool" where
  "log_entries_ok c \<longleftrightarrow>
     chain_internally_valid c \<and> (c \<noteq> [] \<longrightarrow> unat (ce_seq (hd c)) + length c \<le> 2 ^ 64)"

lemma chain_valid_Cons:
  "chain_internally_valid (a # c) \<longleftrightarrow>
     chain_internally_valid c \<and>
     (c \<noteq> [] \<longrightarrow> ce_seq (hd c) = ce_seq a + 1 \<and> ce_prev (hd c) = ce_hash a \<and> ce_epoch a \<le> ce_epoch (hd c))"
  by (cases c) (auto simp: not_less)

lemma chain_valid_drop: "chain_internally_valid c \<Longrightarrow> chain_internally_valid (drop k c)"
  by (induction c arbitrary: k) (auto simp: chain_valid_Cons drop_Cons' split: if_splits)

lemma chain_valid_take: "chain_internally_valid c \<Longrightarrow> chain_internally_valid (take k c)"
proof (induction c arbitrary: k)
  case (Cons a c)
  then show ?case
    by (cases k) (auto simp: chain_valid_Cons hd_take)
qed simp

lemma chain_valid_epochs: "chain_internally_valid c \<Longrightarrow> sorted_wrt (\<lambda>x y. ce_epoch x \<le> ce_epoch y) c"
proof (induction c)
  case (Cons a c)
  then have "sorted_wrt (\<lambda>x y. ce_epoch x \<le> ce_epoch y) c" by (simp add: chain_valid_Cons)
  with Cons.prems show ?case
    by (cases c) (force simp: chain_valid_Cons)+
qed simp

lemma chain_valid_seq:
  assumes "log_entries_ok c" and "i < length c"
  shows "unat (ce_seq (c ! i)) = unat (ce_seq (hd c)) + i"
proof -
  have "ce_seq (c ! i) = ce_seq (hd c) + of_nat i"
    using assms(2) assms(1) [unfolded log_entries_ok_def, THEN conjunct1]
  proof (induction c arbitrary: i)
    case (Cons a c)
    show ?case
    proof (cases i)
      case (Suc j)
      with Cons.prems have "c \<noteq> []" "j < length c" by auto
      with Cons Suc show ?thesis by (simp add: chain_valid_Cons algebra_simps)
    qed simp
  qed simp
  moreover have "unat (ce_seq (hd c)) + i < 2 ^ 64"
    using assms by (auto simp: log_entries_ok_def)
  moreover from this have "unat (of_nat i :: u64) = i"
    by (simp add: unat_of_nat take_bit_nat_eq_self)
  ultimately show ?thesis by (simp add: unat_word_ariths)
qed

lemma log_entries_take: "log_entries_ok c \<Longrightarrow> log_entries_ok (take n c)"
  by (cases n) (auto simp: log_entries_ok_def chain_valid_take hd_take)

lemma log_entries_drop:
  assumes "log_entries_ok c"
  shows "log_entries_ok (drop k c)"
proof (cases "k < length c")
  case True
  have "c \<noteq> []" using True by auto
  with assms have bound: "unat (ce_seq (hd c)) + length c \<le> 2 ^ 64" by (simp add: log_entries_ok_def)
  have "ce_seq (hd (drop k c)) = ce_seq (c ! k)"
    using True by (simp add: hd_drop_conv_nth)
  then have "unat (ce_seq (hd (drop k c))) = unat (ce_seq (hd c)) + k"
    using chain_valid_seq [OF assms True] by simp
  then show ?thesis using assms True bound by (simp add: log_entries_ok_def chain_valid_drop)
qed (simp add: log_entries_ok_def)

lemma filter_sorted_drop:
  "sorted_wrt (\<lambda>x y. f x \<le> f y) xs \<Longrightarrow> \<exists>k. filter (\<lambda>x. (w :: 'b :: linorder) \<le> f x) xs = drop k xs"
proof (induction xs)
  case (Cons x xs)
  show ?case
  proof (cases "w \<le> f x")
    case True
    then have "filter (\<lambda>x. w \<le> f x) (x # xs) = x # xs"
      using Cons.prems by (auto simp: filter_id_conv)
    then show ?thesis by (intro exI [of _ 0]) simp
  next
    case False
    with Cons obtain k where "filter (\<lambda>x. w \<le> f x) xs = drop k xs" by auto
    with False show ?thesis by (intro exI [of _ "Suc k"]) simp
  qed
qed simp

lemma log_entries_filter:
  "log_entries_ok c \<Longrightarrow> log_entries_ok (filter (\<lambda>e. w \<le> ce_epoch e) c)"
  using filter_sorted_drop [OF chain_valid_epochs, of c w] log_entries_drop
  by (auto simp: log_entries_ok_def)

lemma log_entries_strict:
  "log_entries_ok c \<Longrightarrow> sorted_wrt (\<lambda>x y. ce_seq x < ce_seq y) c"
  using chain_valid_seq by (auto simp: sorted_wrt_iff_nth_less word_less_nat_alt)

lemma projection_log:
  assumes "log_entries_ok c"
  shows "projection c w = map (\<lambda>e. (ce_seq e, e)) (filter (\<lambda>e. w \<le> ce_epoch e) c)"
  unfolding projection_def
  by (rule bt_collect_sorted)
    (use log_entries_strict [OF log_entries_filter [OF assms]] in \<open>simp add: bt_wf_def sorted_wrt_map comp_def\<close>)

lemma map_of_log:
  assumes "log_entries_ok c" and "i < length c"
  shows "map_of (map (\<lambda>e. (ce_seq e, e)) c) (ce_seq (hd c) + of_nat i) = Some (c ! i)"
proof -
  have "bt_wf (map (\<lambda>e. (ce_seq e, e)) c)"
    using log_entries_strict [OF assms(1)] by (simp add: bt_wf_def sorted_wrt_map comp_def)
  moreover have "ce_seq (c ! i) = ce_seq (hd c) + of_nat i"
  proof -
    have "unat (ce_seq (hd c)) + i < 2 ^ 64" using assms by (auto simp: log_entries_ok_def)
    then have "unat (ce_seq (hd c) + of_nat i) = unat (ce_seq (hd c)) + i"
      by (simp add: unat_word_ariths unat_of_nat take_bit_nat_eq_self)
    then show ?thesis using chain_valid_seq [OF assms] by (simp add: word_unat_eq_iff)
  qed
  moreover have "(ce_seq (c ! i), c ! i) \<in> set (map (\<lambda>e. (ce_seq e, e)) c)"
    using assms(2) by auto
  ultimately show ?thesis by (simp add: bt_wf_Some_iff)
qed

lemma divergence_None:
  assumes "\<And>s. lo \<le> s \<Longrightarrow> s \<le> hi \<Longrightarrow>
      \<exists>ea eb. map_of pa (of_nat s) = Some ea \<and> map_of pb (of_nat s) = Some eb \<and>
        ce_hash ea = ce_hash eb \<and> ce_epoch ea = ce_epoch eb"
  shows "divergence pa pb lo hi = None"
  using assms
proof (induction pa pb lo hi rule: divergence.induct)
  case (1 pa pb s hi)
  show ?case
  proof (cases "s > hi")
    case False
    then obtain ea eb where "map_of pa (of_nat s) = Some ea" "map_of pb (of_nat s) = Some eb"
      "ce_hash ea = ce_hash eb" "ce_epoch ea = ce_epoch eb"
      using "1.prems" [of s] by auto
    moreover have "divergence pa pb (Suc s) hi = None"
      using "1.IH" [OF False _ refl refl] calculation "1.prems" by auto
    ultimately show ?thesis by (subst divergence.simps) simp
  qed (subst divergence.simps, simp)
qed

lemma commit_conflict_None:
  "\<forall>(e, lo, hi, dg) \<in> set ca. w \<le> e \<longrightarrow>
     (\<forall>lo' hi' dg'. map_of cb e = Some (lo', hi', dg') \<longrightarrow> (lo, hi) = (lo', hi') \<longrightarrow> dg = dg') \<Longrightarrow>
   commit_conflict w ca cb = None"
  by (induction w ca cb rule: commit_conflict.induct) (auto split: option.splits simp: not_less)

lemma cp_commit_mem:
  "(e, lo, hi, dg) \<in> set (cp_epoch_commitments P cp) \<Longrightarrow>
     entries_at (chain cp) e \<noteq> [] \<and> lo = ce_seq (hd (entries_at (chain cp) e)) \<and>
     hi = ce_seq (last (entries_at (chain cp) e)) \<and> dg = epoch_commit_digest P e (entries_at (chain cp) e)"
  by (auto simp: cp_epoch_commitments_def Let_def entries_at_def filter_empty_conv split: list.splits)

lemma cp_commit_lookup:
  "map_of (cp_epoch_commitments P cp) e = Some (lo, hi, dg) \<Longrightarrow> (e, lo, hi, dg) \<in> set (cp_epoch_commitments P cp)"
  by (rule map_of_SomeD)

definition view_chain :: "chain_entry list \<Rightarrow> nat \<Rightarrow> u64 \<Rightarrow> chain_entry list" where
  "view_chain c n w = filter (\<lambda>e. w \<le> ce_epoch e) (take n c)"

lemma prefix_or: "(\<exists>x. take m c = take n c @ x) \<or> (\<exists>x. take n c = take m c @ x)"
  by (metis le_add_diff_inverse nle_le take_add)

lemma view_divergence:
  assumes "log_entries_ok d" and "xs = take k d" and "xs \<noteq> []"
    and "lo = ce_seq (hd d)" and "hi = ce_seq (last xs)"
  defines "key \<equiv> map (\<lambda>e. (ce_seq e, e))"
  shows "divergence (key xs) (key d) (unat lo) (unat hi) = None"
    and "divergence (key d) (key xs) (unat lo) (unat hi) = None"
proof -
  have xs: "log_entries_ok xs" using assms(1,2) log_entries_take by simp
  have hd_eq: "hd xs = hd d" using assms(2,3) by (simp add: hd_take)
  have hi: "unat hi = unat lo + (length xs - 1)"
    using chain_valid_seq [OF xs, of "length xs - 1"] assms(3,4,5) hd_eq by (simp add: last_conv_nth)
  have at: "map_of (key xs) (of_nat s) = Some (xs ! (s - unat lo)) \<and>
      map_of (key d) (of_nat s) = Some (xs ! (s - unat lo))" if "unat lo \<le> s" "s \<le> unat hi" for s
  proof -
    define i where "i = s - unat lo"
    have "0 < length xs" using assms(3) by simp
    then have i: "i < length xs" "s = unat lo + i"
      using that hi unfolding i_def by linarith+
    have "(of_nat s :: u64) = lo + of_nat i" by (simp add: i(2))
    moreover have "i < length d" "xs ! i = d ! i" using i(1) assms(2) by auto
    ultimately show ?thesis
      using map_of_log [OF xs i(1)] map_of_log [OF assms(1), of i] hd_eq assms(4) by (simp add: key_def i_def)
  qed
  show "divergence (key xs) (key d) (unat lo) (unat hi) = None"
    and "divergence (key d) (key xs) (unat lo) (unat hi) = None"
    by (rule divergence_None, use at in blast)+
qed

lemma view_chain_ok: "log_entries_ok c \<Longrightarrow> log_entries_ok (view_chain c n w)"
  by (simp add: view_chain_def log_entries_filter log_entries_take)

lemma projection_view:
  assumes "log_entries_ok c" and "w \<le> v"
  shows "projection (view_chain c n w) v = map (\<lambda>e. (ce_seq e, e)) (view_chain c n v)"
proof -
  have "filter (\<lambda>e. v \<le> ce_epoch e) (view_chain c n w) = view_chain c n v"
    using assms(2) by (auto simp: view_chain_def intro: filter_cong)
  then show ?thesis
    using projection_log [OF view_chain_ok [OF assms(1)]] by simp
qed

lemma view_chain_prefix:
  "(\<exists>x. view_chain c m v = view_chain c n v @ x) \<or> (\<exists>x. view_chain c n v = view_chain c m v @ x)"
proof -
  from prefix_or [of m c n] show ?thesis
    by (elim disjE exE) (simp_all add: view_chain_def)
qed

lemma prefix_views_divergence:
  assumes d: "log_entries_ok d" and xs: "d = xs @ y" "xs \<noteq> []"
  defines "key \<equiv> map (\<lambda>e. (ce_seq e, e))"
  shows "hd d = hd xs" and "min (ce_seq (last xs)) (ce_seq (last d)) = ce_seq (last xs)"
    and "divergence (key xs) (key d) (unat (ce_seq (hd d))) (unat (ce_seq (last xs))) = None"
    and "divergence (key d) (key xs) (unat (ce_seq (hd d))) (unat (ce_seq (last xs))) = None"
proof -
  show "hd d = hd xs" using xs by simp
  have take: "xs = take (length xs) d" using xs by simp
  have len: "length xs - 1 < length d" "length d - 1 < length d" "length xs - 1 \<le> length d - 1"
    using xs by (cases xs; simp)+
  have "last d = d ! (length d - 1)" "last xs = d ! (length xs - 1)"
    using xs by (auto simp: last_conv_nth nth_append)
  then have "ce_seq (last xs) \<le> ce_seq (last d)"
    using chain_valid_seq [OF d len(1)] chain_valid_seq [OF d len(2)] len(3)
    by (simp only: word_le_nat_alt)
  then show "min (ce_seq (last xs)) (ce_seq (last d)) = ce_seq (last xs)" by (simp add: min_absorb1)
  show "divergence (key xs) (key d) (unat (ce_seq (hd d))) (unat (ce_seq (last xs))) = None"
    and "divergence (key d) (key xs) (unat (ce_seq (hd d))) (unat (ce_seq (last xs))) = None"
    unfolding key_def by (rule view_divergence [OF d take xs(2) refl refl])+
qed

lemma same_span_same_group:
  assumes "log_entries_ok c" and "g = entries_at (take n c) e" and "g' = entries_at (take m c) e"
    and "g \<noteq> []" and "g' \<noteq> []" and "ce_seq (last g) = ce_seq (last g')"
  shows "g = g'"
proof -
  have strict: "sorted_wrt (\<lambda>x y. ce_seq x < ce_seq y) (entries_at (take k c) e)" for k
    unfolding entries_at_def
    by (rule sorted_wrt_filter) (rule log_entries_strict [OF log_entries_take [OF assms(1)]])
  have "y = []" if "g1 @ y = entries_at (take k c) e" "g1 \<noteq> []" "ce_seq (last g1) = ce_seq (last (g1 @ y))"
    for g1 y k
  proof (rule ccontr)
    assume "y \<noteq> []"
    with that strict [of k] have "ce_seq (last g1) < ce_seq (last y)"
      by (metis last_in_set sorted_wrt_append)
    with that(3) \<open>y \<noteq> []\<close> show False by simp
  qed
  moreover have "(\<exists>y. g' = g @ y) \<or> (\<exists>y. g = g' @ y)"
    using prefix_or [of m c n] assms(2,3) by (auto simp: entries_at_def)
  ultimately show ?thesis using assms by (metis append_Nil2)
qed

lemma honest_commitments:
  assumes c: "log_entries_ok c" and "wa \<le> w" and "wb \<le> w"
    and "chain a = view_chain c n wa" and "chain b = view_chain c m wb"
  shows "commit_conflict w (cp_epoch_commitments P a) (cp_epoch_commitments P b) = None"
proof (rule commit_conflict_None, clarify)
  fix e lo hi dg dg'
  assume a: "(e, lo, hi, dg) \<in> set (cp_epoch_commitments P a)" and "w \<le> e"
    and b: "map_of (cp_epoch_commitments P b) e = Some (lo, hi, dg')"
  have at: "entries_at (view_chain c k v) e = entries_at (take k c) e" if "v \<le> w" for k v
    using \<open>w \<le> e\<close> that by (auto simp: entries_at_def view_chain_def intro: filter_cong)
  let ?ga = "entries_at (take n c) e" and ?gb = "entries_at (take m c) e"
  have "?ga \<noteq> [] \<and> hi = ce_seq (last ?ga) \<and> dg = epoch_commit_digest P e ?ga"
    using cp_commit_mem [OF a] assms(2,4) by (simp add: at)
  moreover have "?gb \<noteq> [] \<and> hi = ce_seq (last ?gb) \<and> dg' = epoch_commit_digest P e ?gb"
    using cp_commit_mem [OF cp_commit_lookup [OF b]] assms(3,5) by (simp add: at)
  ultimately show "dg = dg'"
    using same_span_same_group [OF c refl refl] by metis
qed

lemma honest_views_not_forked:
  assumes c: "log_entries_ok c"
    and a: "chain a = view_chain c n (window_from a)" and b: "chain b = view_chain c m (window_from b)"
  shows "compare_views P a b \<noteq> Forked s why"
proof -
  let ?w = "max (window_from a) (window_from b)"
  let ?da = "view_chain c n ?w" and ?db = "view_chain c m ?w"
  let ?key = "map (\<lambda>e. (ce_seq e, e))"
  have pa: "projection (chain a) ?w = ?key ?da" and pb: "projection (chain b) ?w = ?key ?db"
    unfolding a b by (simp_all add: projection_view [OF c])
  have commits: "commit_conflict ?w (cp_epoch_commitments P a) (cp_epoch_commitments P b) = None"
    by (rule honest_commitments [OF c _ _ a b]) simp_all
  have "divergence (?key ?da) (?key ?db)
      (unat (max (ce_seq (hd ?da)) (ce_seq (hd ?db)))) (unat (min (ce_seq (last ?da)) (ce_seq (last ?db)))) = None"
    if ne: "?da \<noteq> []" "?db \<noteq> []"
    using view_chain_prefix [of c m ?w n]
  proof (elim disjE exE)
    fix x assume x: "?db = ?da @ x"
    note pre = prefix_views_divergence [OF view_chain_ok [OF c] x ne(1)]
    show ?thesis using pre(3) unfolding pre(2) by (simp add: pre(1))
  next
    fix x assume x: "?da = ?db @ x"
    note pre = prefix_views_divergence [OF view_chain_ok [OF c] x ne(2)]
    have "min (ce_seq (last ?da)) (ce_seq (last ?db)) = ce_seq (last ?db)"
      using pre(2) by (simp add: min.commute)
    then show ?thesis using pre(4) by (simp add: pre(1))
  qed
  then show ?thesis
    by (auto simp: compare_views_def Let_def pa pb commits hd_map last_map)
qed

definition honest_log :: "prims \<Rightarrow> ref_head list \<Rightarrow> bool" where
  "honest_log P log \<longleftrightarrow>
     (\<exists>a. verify_head_chain P log a = Inr ()) \<and> sorted_wrt (\<lambda>h k. mls_epoch h \<le> mls_epoch k) log \<and>
     (log \<noteq> [] \<longrightarrow> unat (seq (hd log)) + length log \<le> 2 ^ 64)"

lemma honest_log_entries:
  assumes "honest_log P log"
  shows "log_entries_ok (map (chain_entry_of P) log)"
proof -
  obtain a where "linked P a log" "consecutive log"
    using assms by (auto simp: honest_log_def verify_head_chain_ok)
  moreover have "sorted_wrt (\<lambda>h k. mls_epoch h \<le> mls_epoch k) log"
    using assms by (simp add: honest_log_def)
  ultimately have "chain_internally_valid (map (chain_entry_of P) log)"
  proof (induction log arbitrary: a)
    case (Cons h log)
    then show ?case
      by (cases log) (auto simp: chain_valid_Cons chain_entry_of_def)
  qed simp
  then show ?thesis
    using assms by (auto simp: log_entries_ok_def honest_log_def hd_map chain_entry_of_def)
qed

text \<open>
  A member's export: the first \<open>n\<close> heads of the log, its window, and a witness for every epoch whose
  key it holds.
\<close>

definition member_view ::
    "prims \<Rightarrow> repo_id \<Rightarrow> ref_head list \<Rightarrow> nat \<Rightarrow> u64 \<Rightarrow> (u64 \<Rightarrow> bytes) \<Rightarrow> u64 list \<Rightarrow> ref_checkpoint" where
  "member_view P repo log n w mk es =
     fold (\<lambda>e. with_epoch_witness P e (mk e)) es (from_heads_windowed P repo (take n log) w)"

definition view_inv :: "prims \<Rightarrow> repo_id \<Rightarrow> ref_head list \<Rightarrow> nat \<Rightarrow> u64 \<Rightarrow> (u64 \<Rightarrow> bytes) \<Rightarrow> ref_checkpoint \<Rightarrow> bool" where
  "view_inv P repo log n w mk cp \<longleftrightarrow>
     rc_repo_id cp = repo \<and> window_from cp = w \<and> tip_binding cp = bind_checkpoint P cp \<and>
     chain cp = view_chain (map (chain_entry_of P) log) n w \<and>
     (\<forall>(e, x) \<in> set (epoch_witnesses cp). x = epoch_witness_bytes P (mk e) repo e)"

lemma bind_checkpoint_tip [simp]: "bind_checkpoint P (cp\<lparr>tip_binding := t\<rparr>) = bind_checkpoint P cp"
  by (simp add: bind_checkpoint_def checkpoint_pre_def)

lemma rebind_simps [simp]:
  "rc_repo_id (rebind P cp) = rc_repo_id cp" "chain (rebind P cp) = chain cp"
  "window_from (rebind P cp) = window_from cp" "epoch_witnesses (rebind P cp) = epoch_witnesses cp"
  "tip_binding (rebind P cp) = bind_checkpoint P cp" "bind_checkpoint P (rebind P cp) = bind_checkpoint P cp"
  by (simp_all add: rebind_def)

lemma view_chain_heads:
  "view_chain (map (chain_entry_of P) log) n w =
     map (chain_entry_of P) (filter (\<lambda>h. mls_epoch h \<ge> w) (take n log))"
proof -
  have "ce_epoch (chain_entry_of P h) = mls_epoch h" for h by (simp add: chain_entry_of_def)
  then show ?thesis by (simp add: view_chain_def take_map filter_map comp_def)
qed

lemma view_inv_member: "view_inv P repo log n w mk (member_view P repo log n w mk es)"
proof -
  have "view_inv P repo log n w mk (from_heads_windowed P repo (take n log) w)"
    by (simp add: view_inv_def from_heads_windowed_def view_chain_heads)
  moreover have "view_inv P repo log n w mk (with_epoch_witness P e (mk e) cp)"
    if "view_inv P repo log n w mk cp" for e cp
    using that set_bt_insert [of e "epoch_witness_bytes P (mk e) repo e" "epoch_witnesses cp"]
    by (auto simp: view_inv_def with_epoch_witness_def Let_def)
  ultimately have "view_inv P repo log n w mk (fold (\<lambda>e. with_epoch_witness P e (mk e)) es cp)"
    if "view_inv P repo log n w mk cp" for cp
    using that by (induction es arbitrary: cp) auto
  then show ?thesis
    using \<open>view_inv P repo log n w mk (from_heads_windowed P repo (take n log) w)\<close>
    by (simp add: member_view_def)
qed

lemma witness_conflict_None:
  assumes "\<forall>(e, x) \<in> set wa. x = f e" and "\<forall>(e, x) \<in> set wb. x = f e"
  shows "witness_conflict wa wb = None"
  using assms(1)
proof (induction wa)
  case (Cons p wa)
  show ?case
  proof (cases "map_of wb (fst p)")
    case None
    with Cons show ?thesis by (cases p) simp
  next
    case (Some y)
    with assms(2) have "y = f (fst p)" by (auto dest!: map_of_SomeD)
    with Cons Some show ?thesis by (cases p) auto
  qed
qed simp

lemma compare_honest:
  assumes "log_entries_ok (map (chain_entry_of P) log)"
    and "view_inv P repo log n wa mk a" and "view_inv P repo log m wb mk b"
  shows "compare_checkpoints P a b = Inr (compare_views P a b)"
proof -
  have "witness_conflict (epoch_witnesses a) (epoch_witnesses b) = None"
    by (rule witness_conflict_None [of _ "\<lambda>e. epoch_witness_bytes P (mk e) repo e"])
      (use assms(2,3) in \<open>simp_all add: view_inv_def\<close>)
  moreover have "chain_internally_valid (view_chain (map (chain_entry_of P) log) k v)" for k v
    using view_chain_ok [OF assms(1)] by (simp add: log_entries_ok_def)
  moreover have "\<not> list_ex (\<lambda>e. ce_epoch e < v) (view_chain (map (chain_entry_of P) log) k v)" for k v
    by (auto simp: list_ex_iff view_chain_def)
  ultimately show ?thesis
    using assms(2,3) by (auto simp: compare_checkpoints_def view_inv_def)
qed

text \<open>
  C30.  No false alarm: two members of one honest log, each at its own length of the log, with its own
  window and its own set of epoch witnesses, always complete the comparison and are never reported
  as forked; they agree, or one is ahead, or their windows do not meet.
\<close>

theorem honest_members_never_forked:
  assumes "honest_log P log"
  shows "\<exists>r. compare_checkpoints P (member_view P repo log n wa mk es) (member_view P repo log m wb mk fs) = Inr r \<and>
    (\<forall>s why. r \<noteq> Forked s why)"
proof -
  note c = honest_log_entries [OF assms]
  let ?a = "member_view P repo log n wa mk es" and ?b = "member_view P repo log m wb mk fs"
  have "chain ?a = view_chain (map (chain_entry_of P) log) n (window_from ?a)"
    "chain ?b = view_chain (map (chain_entry_of P) log) m (window_from ?b)"
    using view_inv_member by (metis view_inv_def)+
  from honest_views_not_forked [OF c this]
  show ?thesis using compare_honest [OF c view_inv_member view_inv_member] by blast
qed

lemma honest_members_never_forked_witness:
  "\<exists>r. compare_checkpoints demo_prims
      (member_view demo_prims [] [demo_head] 1 0 (\<lambda>_. [1]) [7]) (member_view demo_prims [] [demo_head] 1 7 (\<lambda>_. [1]) []) = Inr r \<and>
    (\<forall>s why. r \<noteq> Forked s why)"
proof (rule honest_members_never_forked)
  have "verify_head_chain demo_prims [demo_head] head_hash_zero = Inr ()"
    by (simp add: verify_head_chain_def demo_head_def)
  then show "honest_log demo_prims [demo_head]"
    by (auto simp: honest_log_def) (simp add: demo_head_def)
qed

section \<open>Divergence is reported\<close>

lemma divergence_NoneD:
  assumes "divergence pa pb lo hi = None" and "lo \<le> s" and "s \<le> hi"
  shows "\<exists>ea eb. map_of pa (of_nat s) = Some ea \<and> map_of pb (of_nat s) = Some eb \<and>
    ce_hash ea = ce_hash eb \<and> ce_epoch ea = ce_epoch eb"
  using assms
proof (induction pa pb lo hi rule: divergence.induct)
  case (1 pa pb l hi)
  then have "\<not> l > hi" by simp
  with "1.prems"(1) obtain ea eb where at: "map_of pa (of_nat l) = Some ea" "map_of pb (of_nat l) = Some eb"
    "ce_hash ea = ce_hash eb" "ce_epoch ea = ce_epoch eb" and "divergence pa pb (Suc l) hi = None"
    by (subst (asm) divergence.simps) (auto split: option.splits if_splits)
  with "1.IH" [OF \<open>\<not> l > hi\<close> refl at(1,2)] "1.prems"(2,3) show ?case
    by (cases "s = l") auto
qed

lemma bt_wf_projection: "bt_wf (projection c w)"
  by (simp add: projection_def bt_wf_collect)

lemma projection_mem:
  assumes "log_entries_ok c" and "e \<in> set c" and "w \<le> ce_epoch e"
  shows "(ce_seq e, e) \<in> set (projection c w)"
  using assms by (auto simp: projection_log)

lemma bt_wf_bounds:
  assumes "bt_wf m" and "(k, v) \<in> set m"
  shows "fst (hd m) \<le> k" and "k \<le> fst (last m)"
proof -
  obtain i where i: "i < length m" "m ! i = (k, v)" using assms(2) by (auto simp: in_set_conv_nth)
  have "m \<noteq> []" using assms(2) by auto
  have mono: "fst (m ! j) \<le> fst (m ! l)" if "j \<le> l" "l < length m" for j l
    using assms(1) that unfolding bt_wf_def sorted_wrt_iff_nth_less
    by (cases "j = l") (force simp: less_imp_le)+
  show "fst (hd m) \<le> k" using mono [of 0 i] i \<open>m \<noteq> []\<close> by (simp add: hd_conv_nth)
  show "k \<le> fst (last m)" using mono [of i "length m - 1"] i \<open>m \<noteq> []\<close> by (simp add: last_conv_nth)
qed

text \<open>
  A passed comparison means agreement: when two checkpoints over real chains are compared and the
  result is neither a fork nor disjoint windows, every position both sides hold inside the shared
  window carries the same head hash and the same epoch, so an equivocating host is caught by the
  first comparison whose windows meet the divergence.
\<close>

theorem compare_detects_divergence:
  assumes "compare_checkpoints P a b = Inr r" and "\<forall>s why. r \<noteq> Forked s why" and "r \<noteq> CmpWindowDisjoint"
    and "log_entries_ok (chain a)" and "log_entries_ok (chain b)"
    and "ea \<in> set (chain a)" and "eb \<in> set (chain b)" and "ce_seq ea = ce_seq eb"
    and "max (window_from a) (window_from b) \<le> ce_epoch ea" and "max (window_from a) (window_from b) \<le> ce_epoch eb"
  shows "ce_hash ea = ce_hash eb \<and> ce_epoch ea = ce_epoch eb"
proof -
  let ?w = "max (window_from a) (window_from b)"
  let ?pa = "projection (chain a) ?w" and ?pb = "projection (chain b) ?w"
  let ?lo = "max (fst (hd ?pa)) (fst (hd ?pb))" and ?hi = "min (fst (last ?pa)) (fst (last ?pb))"
  have mem: "(ce_seq ea, ea) \<in> set ?pa" "(ce_seq ea, eb) \<in> set ?pb"
    using projection_mem assms(4-10) by metis+
  have "r = compare_views P a b"
    using assms(1,2) by (auto simp: compare_checkpoints_def split: if_splits option.splits)
  then have div: "divergence ?pa ?pb (unat ?lo) (unat ?hi) = None"
    using assms(2,3) by (auto simp: compare_views_def Let_def split: if_splits option.splits)
  have "?lo \<le> ce_seq ea" "ce_seq ea \<le> ?hi"
    using bt_wf_bounds [OF bt_wf_projection mem(1)] bt_wf_bounds [OF bt_wf_projection mem(2)] by simp_all
  then have range: "unat ?lo \<le> unat (ce_seq ea)" "unat (ce_seq ea) \<le> unat ?hi"
    by (simp_all only: word_le_nat_alt)
  have "map_of ?pa (ce_seq ea) = Some ea" "map_of ?pb (ce_seq ea) = Some eb"
    using mem bt_wf_Some_iff [OF bt_wf_projection] by blast+
  with divergence_NoneD [OF div range] show ?thesis by simp
qed

lemma compare_detects_divergence_witness:
  "let v = from_heads demo_prims [] [demo_head]; e = chain_entry_of demo_prims demo_head
   in ce_hash e = ce_hash e \<and> compare_checkpoints demo_prims v v = Inr Consistent"
proof -
  let ?v = "from_heads demo_prims [] [demo_head]" and ?e = "chain_entry_of demo_prims demo_head"
  have chain: "chain ?v = [?e]" "window_from ?v = 0"
    by (simp_all add: from_heads_def from_heads_windowed_def)
  have cmp: "compare_checkpoints demo_prims ?v ?v = Inr Consistent"
    by (simp add: compare_checkpoints_def from_heads_def from_heads_windowed_def compare_views_def projection_def
        bt_collect_def divergence.simps cp_epoch_commitments_def entries_at_def Let_def)
  have "log_entries_ok (chain ?v)"
    unfolding chain by (simp add: log_entries_ok_def chain_entry_of_def demo_head_def)
  from compare_detects_divergence [OF cmp _ _ this this, of ?e ?e] cmp show ?thesis
    by (simp add: chain Let_def)
qed

section \<open>What the tip binding leaves open\<close>

definition entry_export :: ref_checkpoint where
  "entry_export = \<lparr>rc_repo_id = replicate 32 1,
     chain = [\<lparr>ce_seq = 5, ce_hash = replicate 64 2, ce_prev = replicate 64 3, ce_epoch = 4\<rparr>],
     window_from = 0, epoch_witnesses = [], tip_binding = []\<rparr>"

definition witness_export :: ref_checkpoint where
  "witness_export = \<lparr>rc_repo_id = replicate 32 9, chain = [], window_from = 0,
     epoch_witnesses = [(5, replicate 64 2 @ replicate 64 3 @ u64_le 4)], tip_binding = []\<rparr>"

text \<open>
  The tip binding is not binding: it covers neither the repository nor where the chain ends, so a
  checkpoint of one repository with one head and a checkpoint of another repository with no head
  and one long witness have the same binding under every hash function.
\<close>

theorem tip_binding_ambiguous:
  "bind_checkpoint P entry_export = bind_checkpoint P witness_export \<and>
   rc_repo_id entry_export \<noteq> rc_repo_id witness_export \<and> tip_seq entry_export \<noteq> tip_seq witness_export"
  by (simp add: bind_checkpoint_def checkpoint_pre_def entry_export_def witness_export_def entry_binding_def
      tip_seq_def)

end
