(* ===== verification/Identity.thy ===== *)
theory Identity
  imports Fork
begin

text \<open>
  KeyPackage pins, first-use anchors for new devices and the compare cadence,
  \<^verbatim>\<open>safehub-client/src/identity.rs\<close>.
\<close>

section \<open>Pins\<close>

record key_package_pin =
  pin_user :: string
  pin_device :: string
  pin_digest :: head_hash
  kt_root :: "head_hash option"

datatype identity_error =
  PinMismatch string string | NoAnchor | AnchorNotBinding | AnchorUnsigned | IdCrypto crypto_error

definition keypackage_digest :: "prims \<Rightarrow> bytes \<Rightarrow> head_hash" where
  "keypackage_digest P kp = sha512 P (domain_label ''keypackage-pin'' @ kp)"

definition hex_digit :: "nat \<Rightarrow> char" where
  "hex_digit n = ''0123456789abcdef'' ! n"

definition hex_byte :: "u8 \<Rightarrow> string" where
  "hex_byte b = [hex_digit (unat b div 16), hex_digit (unat b mod 16)]"

fun join_with :: "string \<Rightarrow> string list \<Rightarrow> string" where
  "join_with sep [] = []"
| "join_with sep [s] = s"
| "join_with sep (s # t # ss) = s @ sep @ join_with sep (t # ss)"

definition safety_number :: "key_package_pin \<Rightarrow> string" where
  "safety_number pin = join_with '' '' (map hex_byte (take 8 (pin_digest pin)))"

definition pin_new :: "prims \<Rightarrow> string \<Rightarrow> string \<Rightarrow> bytes \<Rightarrow> key_package_pin" where
  "pin_new P user device kp =
     \<lparr>pin_user = user, pin_device = device, pin_digest = keypackage_digest P kp, kt_root = None\<rparr>"

definition pin_verify :: "prims \<Rightarrow> key_package_pin \<Rightarrow> bytes \<Rightarrow> identity_error + unit" where
  "pin_verify P pin kp =
     (if keypackage_digest P kp = pin_digest pin then Inr ()
      else Inl (PinMismatch (pin_user pin) (pin_device pin)))"

section \<open>Anchors\<close>

record device_anchor =
  da_repo_id :: repo_id
  da_tip_binding :: head_hash
  da_tip_seq :: u64
  da_sig :: bytes

definition anchor_message :: "repo_id \<Rightarrow> head_hash \<Rightarrow> u64 \<Rightarrow> bytes" where
  "anchor_message repo tip sq = domain_label ''device-anchor'' @ repo @ tip @ u64_le sq"

definition sign_device_anchor ::
    "prims \<Rightarrow> repo_id \<Rightarrow> ref_checkpoint \<Rightarrow> mldsa_key_pair \<Rightarrow> identity_error + device_anchor" where
  "sign_device_anchor P repo cp dev =
     (let sq = (case tip_seq cp of None \<Rightarrow> 0 | Some s \<Rightarrow> s);
          msg = anchor_message repo (tip_binding cp) sq
      in case kp_sign P dev msg of
           Inl e \<Rightarrow> Inl (IdCrypto e)
         | Inr sig \<Rightarrow> Inr \<lparr>da_repo_id = repo, da_tip_binding = tip_binding cp, da_tip_seq = sq, da_sig = sig\<rparr>)"

definition accept_first_tip ::
    "prims \<Rightarrow> repo_id \<Rightarrow> ref_checkpoint \<Rightarrow> device_anchor option \<Rightarrow> bytes list \<Rightarrow> identity_error + unit" where
  "accept_first_tip P repo cp anchor vks =
     (case anchor of
        None \<Rightarrow> Inl NoAnchor
      | Some a \<Rightarrow>
          if da_repo_id a \<noteq> repo \<or> da_tip_binding a \<noteq> tip_binding cp then Inl AnchorNotBinding
          else if list_ex (\<lambda>vk. is_ok (mldsa_verify P vk (anchor_message repo (da_tip_binding a) (da_tip_seq a)) (da_sig a))) vks
          then Inr () else Inl AnchorUnsigned)"

definition periodic_compare_due :: "u64 \<Rightarrow> u64 \<Rightarrow> u64 \<Rightarrow> bool" where
  "periodic_compare_due last_secs now cadence \<longleftrightarrow> cadence > 0 \<and> saturating_sub now last_secs \<ge> cadence"

section \<open>Properties\<close>

lemma accept_first_tip_iff:
  "accept_first_tip P repo cp anchor vks = Inr () \<longleftrightarrow>
     (\<exists>a. anchor = Some a \<and> da_repo_id a = repo \<and> da_tip_binding a = tip_binding cp \<and>
        (\<exists>vk \<in> set vks. valid_sig P vk (anchor_message repo (tip_binding cp) (da_tip_seq a)) (da_sig a)))"
  by (auto simp: accept_first_tip_def list_ex_iff is_ok_mldsa_verify split: option.splits)

lemma signed_anchor_accepted:
  assumes "mldsa_correct P" and "kp_wf P dev" and "sign_device_anchor P repo cp dev = Inr a"
  shows "da_repo_id a = repo \<and> da_tip_binding a = tip_binding cp \<and>
    valid_sig P (kp_public dev) (anchor_message repo (tip_binding cp) (da_tip_seq a)) (da_sig a)"
  using assms(3) kp_sign_verifies [OF assms(1,2)]
  by (auto simp: sign_device_anchor_def Let_def split: sum.splits)

text \<open>
  No trust on first use: a new device accepts a presented checkpoint exactly when it is given an
  anchor for its repository and this tip binding whose signature verifies under a known device key;
  what an existing device signs over its own view is accepted, and no anchor means refusal.
\<close>

theorem first_tip_needs_anchor:
  "((accept_first_tip P repo cp anchor vks = Inr ()) =
     (\<exists>a. anchor = Some a \<and> da_repo_id a = repo \<and> da_tip_binding a = tip_binding cp \<and>
        (\<exists>vk \<in> set vks. valid_sig P vk (anchor_message repo (tip_binding cp) (da_tip_seq a)) (da_sig a)))) \<and>
   (mldsa_correct P \<and> kp_wf P dev \<and> sign_device_anchor P repo cp dev = Inr a \<and> kp_public dev \<in> set vks \<longrightarrow>
      accept_first_tip P repo cp (Some a) vks = Inr ())"
  using signed_anchor_accepted by (simp add: accept_first_tip_iff) blast

lemma first_tip_needs_anchor_witness:
  "accept_first_tip demo_prims [1] (from_heads demo_prims [1] [demo_head])
     (case sign_device_anchor demo_prims [1] (from_heads demo_prims [1] [demo_head]) demo_kp of
        Inr a \<Rightarrow> Some a | Inl _ \<Rightarrow> None) [kp_public demo_kp] = Inr ()"
proof -
  let ?cp = "from_heads demo_prims [1] [demo_head]"
  obtain a where a: "sign_device_anchor demo_prims [1] ?cp demo_kp = Inr a"
    by (auto simp: sign_device_anchor_def kp_sign_wf [OF kp_wf_demo] Let_def)
  from first_tip_needs_anchor [of demo_prims "[1]" ?cp "Some a" "[kp_public demo_kp]" demo_kp a] a
  show ?thesis by (simp add: mldsa_correct_demo kp_wf_demo)
qed

text \<open>
  The anchor check never looks at the repository id or at the position inside the presented
  checkpoint: replacing the checkpoint's repository or its whole chain under the same tip binding
  does not change the decision, and the tip binding does not cover the repository either.
\<close>

theorem first_tip_ignores_checkpoint_repo:
  "accept_first_tip P repo (cp\<lparr>rc_repo_id := other, chain := c\<rparr>) anchor vks =
     accept_first_tip P repo cp anchor vks \<and>
   bind_checkpoint P (cp\<lparr>rc_repo_id := other\<rparr>) = bind_checkpoint P cp"
  by (simp add: accept_first_tip_def bind_checkpoint_def checkpoint_pre_def split: option.splits)

text \<open>
  A pin defeats substitution: the package that was pinned verifies, and any other package is
  refused unless its domain-separated SHA-512 digest collides with the pinned one.
\<close>

theorem pin_verify_exact:
  assumes "inj_on (sha512 P) {domain_label ''keypackage-pin'' @ kp, domain_label ''keypackage-pin'' @ kp'}"
  shows "pin_verify P (pin_new P user device kp) kp' = (if kp' = kp then Inr () else Inl (PinMismatch user device))"
  using assms by (auto simp: pin_verify_def pin_new_def keypackage_digest_def inj_on_def)

lemma pin_verify_exact_witness:
  "pin_verify demo_prims (pin_new demo_prims ''ann'' ''laptop'' [1]) [2] = Inl (PinMismatch ''ann'' ''laptop'')"
  by (subst pin_verify_exact)
    (simp_all add: sha512_def demo_prims_def fix_len_def domain_label_def str_bytes_def)

lemma periodic_compare_due_iff:
  "periodic_compare_due l n c \<longleftrightarrow> 0 < unat c \<and> unat l + unat c \<le> unat n"
  by (auto simp: periodic_compare_due_def word_le_nat_alt word_less_nat_alt unat_saturating_sub)

end
