(* ===== verification/Storage.thy ===== *)
theory Storage
  imports Policy
begin

text \<open>
  The filesystem store of \<^verbatim>\<open>safehub-storage\<close> (\<^verbatim>\<open>local.rs\<close>, \<^verbatim>\<open>traits.rs\<close>, \<^verbatim>\<open>error.rs\<close>): blobs, head logs
  with compare-and-swap append, key logs, MLS queues and the repository directory.  A directory is
  the list of its entries in the order \<^verbatim>\<open>read_dir\<close> returns them; records that are stored as JSON are
  kept as values; the JSON parser for legacy heads is a parameter.  Calls that only fail when the
  disk fails are taken to succeed.
\<close>

section \<open>Data\<close>

record mls_envelope =
  env_repo_id :: repo_id
  env_seq :: u64
  env_payload :: bytes
  env_sender_hint :: "string option"

record repo_record =
  rr_id :: repo_id
  rr_name :: repo_name
  rr_created_by :: user_id
  rr_private :: bool
  rr_archived :: bool
  rr_deleted :: bool
  rr_description :: "string option"

record key_package_record =
  kpr_user :: user_id
  kpr_device :: string
  kpr_key_package :: bytes

text \<open>The name of a log file: \<^verbatim>\<open>{seq}.bin\<close>, \<^verbatim>\<open>{seq}.json\<close>, or a name that parses as neither.\<close>

datatype log_name = LogBin u64 | LogJson u64 | OtherName string

fun parse_log_name :: "log_name \<Rightarrow> u64 option" where
  "parse_log_name (LogBin n) = Some n"
| "parse_log_name (LogJson n) = Some n"
| "parse_log_name (OtherName _) = None"

record head_dir =
  tip_bin :: "bytes option"
  tip_json :: "bytes option"
  log_dir :: "(log_name \<times> bytes) list"

datatype storage_error =
  NotFound blob_id | CasConflict head_hash | DecodeHead | SeqMustBe u64 u64 | GenesisSeq
| RepoExists repo_name | RepoNotFound repo_name

text \<open>The repository directory \<^verbatim>\<open>repos/{owner}/{name}.json\<close> and its index \<^verbatim>\<open>repos_by_id\<close>.\<close>

record local_store =
  blobs :: "blob_id \<Rightarrow> bytes option"
  blobmeta :: "blob_id \<Rightarrow> blob_meta option"
  heads :: "repo_id \<Rightarrow> head_dir"
  keylog :: "repo_id \<Rightarrow> (u64 \<times> key_log_entry) list"
  mls :: "repo_id \<Rightarrow> (u64 \<times> mls_envelope) list"
  repos :: "(repo_name \<times> repo_record) list"
  repos_by_id :: "repo_id \<Rightarrow> repo_record option"
  key_packages :: "((user_id \<times> string) \<times> bytes) list"

definition store_open :: local_store where
  "store_open = \<lparr>blobs = (\<lambda>_. None), blobmeta = (\<lambda>_. None),
     heads = (\<lambda>_. \<lparr>tip_bin = None, tip_json = None, log_dir = []\<rparr>),
     keylog = (\<lambda>_. []), mls = (\<lambda>_. []), repos = [], repos_by_id = (\<lambda>_. None), key_packages = []\<rparr>"

text \<open>Writing a file: an existing entry keeps its place, a new one is added.\<close>

fun dir_write :: "'k \<Rightarrow> 'v \<Rightarrow> ('k \<times> 'v) list \<Rightarrow> ('k \<times> 'v) list" where
  "dir_write k v [] = [(k, v)]"
| "dir_write k v ((k', v') # d) = (if k' = k then (k, v) # d else (k', v') # dir_write k v d)"

lemma map_of_dir_write [simp]: "map_of (dir_write k v d) j = (if j = k then Some v else map_of d j)"
  by (induction k v d rule: dir_write.induct) auto

lemma keys_dir_write: "fst ` set (dir_write k v d) = insert k (fst ` set d)"
  by (induction k v d rule: dir_write.induct) auto

lemma distinct_dir_write [simp]: "distinct (map fst d) \<Longrightarrow> distinct (map fst (dir_write k v d))"
  by (induction k v d rule: dir_write.induct) (auto simp: keys_dir_write)

lemma set_dir_write:
  "distinct (map fst d) \<Longrightarrow> set (dir_write k v d) = insert (k, v) {p \<in> set d. fst p \<noteq> k}"
  by (induction k v d rule: dir_write.induct) (auto simp: rev_image_eqI)

section \<open>Blobs\<close>

definition blob_put :: "prims \<Rightarrow> blob_meta \<Rightarrow> bytes \<Rightarrow> local_store \<Rightarrow> local_store \<times> blob_id" where
  "blob_put P meta ct st =
     (let i = blob_id_of_ciphertext P ct;
          meta' = meta\<lparr>bm_id := i, bm_size := of_nat (length ct)\<rparr>;
          st' = (if blobs st i = None then st\<lparr>blobs := (blobs st)(i := Some ct)\<rparr> else st)
      in (st'\<lparr>blobmeta := (blobmeta st')(i := Some meta')\<rparr>, i))"

definition blob_get :: "blob_id \<Rightarrow> local_store \<Rightarrow> storage_error + bytes" where
  "blob_get i st = ok_or (NotFound i) (blobs st i)"

definition blob_meta_of :: "blob_id \<Rightarrow> local_store \<Rightarrow> storage_error + blob_meta" where
  "blob_meta_of i st = ok_or (NotFound i) (blobmeta st i)"

definition blob_exists :: "blob_id \<Rightarrow> local_store \<Rightarrow> bool" where
  "blob_exists i st \<longleftrightarrow> blobs st i \<noteq> None"

section \<open>Heads\<close>

type_synonym head_json = "bytes \<Rightarrow> ref_head option"

definition decode_head_bytes :: "head_json \<Rightarrow> bytes \<Rightarrow> storage_error + ref_head" where
  "decode_head_bytes J b =
     (case decode_ref_head b of Inr h \<Rightarrow> Inr h | Inl _ \<Rightarrow> ok_or DecodeHead (J b))"

definition tip :: "head_json \<Rightarrow> repo_id \<Rightarrow> local_store \<Rightarrow> storage_error + ref_head option" where
  "tip J repo st =
     (let dir = heads st repo
      in case (tip_bin dir, tip_json dir) of
           (Some b, _) \<Rightarrow> rbind (decode_head_bytes J b) (\<lambda>h. Inr (Some h))
         | (None, Some b) \<Rightarrow> rbind (decode_head_bytes J b) (\<lambda>h. Inr (Some h))
         | (None, None) \<Rightarrow> Inr None)"

text \<open>
  \<^verbatim>\<open>cas_append\<close> runs under the head lock: the checks, the durable write of the log entry, the
  durable write of the tip, the removal of a legacy tip.  The two writes are separate steps of the
  model so that a crash between them is a state.
\<close>

definition cas_check :: "prims \<Rightarrow> head_json \<Rightarrow> ref_head \<Rightarrow> local_store \<Rightarrow> storage_error + unit" where
  "cas_check P J h st =
     rbind (tip J (repo_id h) st) (\<lambda>current.
       let expected_prev = (case current of Some c \<Rightarrow> ref_head_hash P c | None \<Rightarrow> head_hash_zero)
       in if prev_head_hash h \<noteq> expected_prev then Inl (CasConflict expected_prev)
          else case current of
            Some cur \<Rightarrow> if seq h \<noteq> seq cur + 1 then Inl (SeqMustBe (seq cur + 1) (seq h)) else Inr ()
          | None \<Rightarrow> if seq h \<noteq> 1 then Inl GenesisSeq else Inr ())"

definition cas_write_log :: "ref_head \<Rightarrow> local_store \<Rightarrow> local_store" where
  "cas_write_log h st =
     (let dir = heads st (repo_id h)
      in st\<lparr>heads := (heads st)(repo_id h :=
           dir\<lparr>log_dir := dir_write (LogBin (seq h)) (canonical_bytes h) (log_dir dir)\<rparr>)\<rparr>)"

definition cas_write_tip :: "ref_head \<Rightarrow> local_store \<Rightarrow> local_store" where
  "cas_write_tip h st =
     (let dir = heads st (repo_id h)
      in st\<lparr>heads := (heads st)(repo_id h := dir\<lparr>tip_bin := Some (canonical_bytes h), tip_json := None\<rparr>)\<rparr>)"

definition cas_append :: "prims \<Rightarrow> head_json \<Rightarrow> ref_head \<Rightarrow> local_store \<Rightarrow> local_store \<times> (storage_error + head_hash)" where
  "cas_append P J h st =
     (case cas_check P J h st of
        Inl e \<Rightarrow> (st, Inl e)
      | Inr _ \<Rightarrow> (cas_write_tip h (cas_write_log h st), Inr (ref_head_hash P h)))"

fun read_log :: "head_json \<Rightarrow> u64 \<Rightarrow> (log_name \<times> bytes) list \<Rightarrow> storage_error + ref_head list" where
  "read_log J after [] = Inr []"
| "read_log J after ((nm, b) # d) =
     (case parse_log_name nm of
        Some n \<Rightarrow>
          if n > after
          then rbind (decode_head_bytes J b) (\<lambda>h. rbind (read_log J after d) (\<lambda>hs. Inr (h # hs)))
          else read_log J after d
      | None \<Rightarrow> read_log J after d)"

definition since :: "head_json \<Rightarrow> repo_id \<Rightarrow> u64 \<Rightarrow> local_store \<Rightarrow> storage_error + ref_head list" where
  "since J repo after st =
     rbind (read_log J after (log_dir (heads st repo))) (\<lambda>out. Inr (sort_key seq out))"

section \<open>Key log and MLS queue\<close>

definition append_key_log :: "repo_id \<Rightarrow> key_log_entry \<Rightarrow> local_store \<Rightarrow> local_store" where
  "append_key_log repo e st =
     st\<lparr>keylog := (keylog st)(repo := dir_write (drive_epoch e) e (keylog st repo))\<rparr>"

definition key_log_since :: "repo_id \<Rightarrow> u64 \<Rightarrow> local_store \<Rightarrow> key_log_entry list" where
  "key_log_since repo after st =
     sort_key drive_epoch (map snd (filter (\<lambda>(ep, _). ep > after) (keylog st repo)))"

definition enqueue :: "mls_envelope \<Rightarrow> local_store \<Rightarrow> local_store \<times> u64" where
  "enqueue env st =
     (let dir = mls st (env_repo_id env);
          mx = fold max (map fst dir) 0;
          env' = env\<lparr>env_seq := mx + 1\<rparr>
      in (st\<lparr>mls := (mls st)(env_repo_id env := dir_write (mx + 1) env' dir)\<rparr>, mx + 1))"

definition fetch :: "repo_id \<Rightarrow> u64 \<Rightarrow> nat \<Rightarrow> local_store \<Rightarrow> mls_envelope list" where
  "fetch repo after limit st =
     take limit (sort_key env_seq (map snd (filter (\<lambda>(n, _). n > after) (mls st repo))))"

section \<open>Repository directory\<close>

definition repo_create :: "repo_record \<Rightarrow> local_store \<Rightarrow> local_store \<times> (storage_error + unit)" where
  "repo_create r st =
     (if map_of (repos st) (rr_name r) \<noteq> None then (st, Inl (RepoExists (rr_name r)))
      else (st\<lparr>repos := dir_write (rr_name r) r (repos st), repos_by_id := (repos_by_id st)(rr_id r := Some r)\<rparr>, Inr ()))"

definition get_by_name :: "string \<Rightarrow> string \<Rightarrow> local_store \<Rightarrow> repo_record option" where
  "get_by_name own nm st = map_of (repos st) \<lparr>rn_owner = own, rn_name = nm\<rparr>"

definition get_by_id :: "repo_id \<Rightarrow> local_store \<Rightarrow> repo_record option" where
  "get_by_id i st = repos_by_id st i"

definition list_for_user :: "user_id \<Rightarrow> local_store \<Rightarrow> repo_record list" where
  "list_for_user user st =
     filter (\<lambda>r. \<not> rr_deleted r) (map snd (filter (\<lambda>(nm, _). rn_owner nm = user) (repos st)))"

definition repo_update :: "repo_record \<Rightarrow> local_store \<Rightarrow> local_store \<times> (storage_error + unit)" where
  "repo_update r st =
     (if map_of (repos st) (rr_name r) = None then (st, Inl (RepoNotFound (rr_name r)))
      else (st\<lparr>repos := dir_write (rr_name r) r (repos st), repos_by_id := (repos_by_id st)(rr_id r := Some r)\<rparr>, Inr ()))"

definition list_all_repos :: "local_store \<Rightarrow> repo_record list" where
  "list_all_repos st = filter (\<lambda>r. \<not> rr_deleted r) (map snd (repos st))"

definition put_key_package :: "key_package_record \<Rightarrow> local_store \<Rightarrow> local_store" where
  "put_key_package r st =
     st\<lparr>key_packages := dir_write (kpr_user r, kpr_device r) (kpr_key_package r) (key_packages st)\<rparr>"

definition list_key_packages :: "user_id \<Rightarrow> local_store \<Rightarrow> key_package_record list" where
  "list_key_packages user st =
     map (\<lambda>((u, dev), b). \<lparr>kpr_user = user, kpr_device = dev, kpr_key_package = b\<rparr>)
       (filter (\<lambda>((u, dev), _). u = user) (key_packages st))"

section \<open>The contract of a compare-and-swap log\<close>

text \<open>
  What a client relies on: a state carries a log of heads, the tip is its last head, an append that
  builds on the tip at the next position adds one head and returns its hash, an append that builds
  on anything else changes nothing and names the hash to build on, and reading from a position
  returns the later heads in order.
\<close>

locale cas_log =
  fixes P :: prims
    and log_inv :: "'s \<Rightarrow> ref_head list \<Rightarrow> bool"
    and ltip :: "'s \<Rightarrow> 'e + ref_head option"
    and lappend :: "ref_head \<Rightarrow> 's \<Rightarrow> 's \<times> ('e + head_hash)"
    and lsince :: "u64 \<Rightarrow> 's \<Rightarrow> 'e + ref_head list"
    and acceptable :: "ref_head \<Rightarrow> bool"
    and conflict :: "head_hash \<Rightarrow> 'e"
  assumes tip_law: "log_inv s l \<Longrightarrow> ltip s = Inr (if l = [] then None else Some (last l))"
    and append_law: "log_inv s l \<Longrightarrow> acceptable h \<Longrightarrow>
        prev_head_hash h = (if l = [] then head_hash_zero else ref_head_hash P (last l)) \<Longrightarrow>
        seq h = of_nat (length l) + 1 \<Longrightarrow> length l + 1 < 2 ^ 64 \<Longrightarrow>
        snd (lappend h s) = Inr (ref_head_hash P h) \<and> log_inv (fst (lappend h s)) (l @ [h])"
    and conflict_law: "log_inv s l \<Longrightarrow> acceptable h \<Longrightarrow>
        prev_head_hash h \<noteq> (if l = [] then head_hash_zero else ref_head_hash P (last l)) \<Longrightarrow>
        lappend h s = (s, Inl (conflict (if l = [] then head_hash_zero else ref_head_hash P (last l))))"
    and since_law: "log_inv s l \<Longrightarrow> lsince a s = Inr (filter (\<lambda>h. a < seq h) l)"
    and shape_law: "log_inv s l \<Longrightarrow> linked P head_hash_zero l \<and> length l < 2 ^ 64 \<and>
        (\<forall>i < length l. seq (l ! i) = of_nat i + 1)"
begin

definition next_prev :: "ref_head list \<Rightarrow> head_hash" where
  "next_prev l = (if l = [] then head_hash_zero else ref_head_hash P (last l))"

lemma log_consecutive:
  assumes "log_inv s l"
  shows "consecutive l"
proof -
  have "\<forall>i < length l. seq (l ! i) = of_nat i + 1" using shape_law [OF assms] by blast
  then have "Suc i < length l \<Longrightarrow> seq (l ! Suc i) = seq (l ! i) + 1" for i by simp
  then show ?thesis
  proof (induction l)
    case (Cons h l)
    have "seq (l ! 0) = seq h + 1" if "l \<noteq> []" using Cons.prems [of 0] that by simp
    moreover have "consecutive l" using Cons.prems [of "Suc _"] by (intro Cons.IH) simp
    ultimately show ?case by (simp add: consecutive_Cons hd_conv_nth)
  qed simp
qed

lemma log_chain_ok: "log_inv s l \<Longrightarrow> verify_head_chain P l head_hash_zero = Inr ()"
  using shape_law log_consecutive by (simp add: verify_head_chain_ok)

lemma log_since_drop:
  assumes "log_inv s l" and "a \<le> length l"
  shows "lsince (of_nat a) s = Inr (drop a l)"
proof -
  note shape = shape_law [OF assms(1)]
  have num: "unat (seq (l ! i)) = i + 1" if "i < length l" for i
  proof -
    have "i + 1 < 2 ^ 64" using that shape by linarith
    then show ?thesis using shape that
      by (simp add: unat_word_ariths unat_of_nat take_bit_nat_eq_self)
  qed
  have "filter (\<lambda>h. of_nat a < seq h) l = drop a l"
  proof -
    have ua: "unat (of_nat a :: u64) = a"
      using assms(2) shape by (simp add: unat_of_nat take_bit_nat_eq_self)
    have "filter (\<lambda>h. of_nat a < seq h) (take a l) = []"
      by (auto simp: filter_empty_conv in_set_conv_nth word_less_nat_alt ua num)
    moreover have "filter (\<lambda>h. of_nat a < seq h) (drop a l) = drop a l"
      by (auto simp: filter_id_conv in_set_conv_nth word_less_nat_alt ua num)
    ultimately show ?thesis by (metis append_Nil append_take_drop_id filter_append)
  qed
  then show ?thesis using since_law [OF assms(1)] by simp
qed

text \<open>
  An anchored reader: whoever holds the hash of the last head it trusts, at any position of the log,
  and fetches the rest, gets a run that passes the chain check from that hash.
\<close>

lemma anchored_fetch_ok:
  assumes "log_inv s l" and "a \<le> length l"
  shows "\<exists>hs. lsince (of_nat a) s = Inr hs \<and>
    verify_head_chain P hs (if a = 0 then head_hash_zero else ref_head_hash P (l ! (a - 1))) = Inr ()"
proof -
  have l: "take a l @ drop a l = l" by simp
  have "linked P head_hash_zero (take a l @ drop a l)" using shape_law [OF assms(1)] by simp
  then have "linked P (if take a l = [] then head_hash_zero else ref_head_hash P (last (take a l))) (drop a l)"
    unfolding linked_append by blast
  moreover have "last (take a l) = l ! (a - 1)" if "0 < a" "l \<noteq> []"
    using that assms(2) by (simp add: last_conv_nth)
  ultimately have "linked P (if a = 0 then head_hash_zero else ref_head_hash P (l ! (a - 1))) (drop a l)"
    using assms(2) by (cases "l = []") (auto split: if_splits)
  moreover have "consecutive (drop a l)"
    using log_consecutive [OF assms(1)]
  proof (induction l arbitrary: a)
    case (Cons h l)
    then show ?case by (cases a) (auto simp: consecutive_Cons)
  qed simp
  ultimately show ?thesis using log_since_drop [OF assms] by (simp add: verify_head_chain_ok)
qed

text \<open>Two writers that read the same tip cannot both append: the second sees a conflict.\<close>

lemma one_winner:
  assumes "log_inv s l" and "acceptable h" and "prev_head_hash h = next_prev l"
    and "seq h = of_nat (length l) + 1" and "length l + 1 < 2 ^ 64"
    and "acceptable h'" and "prev_head_hash h' = next_prev l" and "ref_head_hash P h \<noteq> next_prev l"
  shows "lappend h' (fst (lappend h s)) = (fst (lappend h s), Inl (conflict (ref_head_hash P h)))"
proof -
  have inv: "log_inv (fst (lappend h s)) (l @ [h])"
    using append_law [OF assms(1,2) _ assms(4,5)] assms(3) by (simp add: next_prev_def)
  from conflict_law [OF inv assms(6)] assms(7,8) show ?thesis
    by (simp add: next_prev_def)
qed

end

section \<open>The local store is such a log\<close>

definition storable :: "repo_id \<Rightarrow> ref_head \<Rightarrow> bool" where
  "storable repo h \<longleftrightarrow> head_wf h \<and> opaque_ok h \<and> repo_id h = repo"

definition log_file :: "ref_head \<Rightarrow> log_name \<times> bytes" where
  "log_file h = (LogBin (seq h), canonical_bytes h)"

definition log_shape :: "prims \<Rightarrow> ref_head list \<Rightarrow> bool" where
  "log_shape P l \<longleftrightarrow> linked P head_hash_zero l \<and> length l < 2 ^ 64 \<and> (\<forall>i < length l. seq (l ! i) = of_nat i + 1)"

definition head_log_inv :: "prims \<Rightarrow> repo_id \<Rightarrow> local_store \<Rightarrow> ref_head list \<Rightarrow> bool" where
  "head_log_inv P repo st l \<longleftrightarrow>
     (let dir = heads st repo in
      distinct (map fst (log_dir dir)) \<and> set (log_dir dir) = log_file ` set l \<and>
      tip_bin dir = (if l = [] then None else Some (canonical_bytes (last l))) \<and>
      (l = [] \<longrightarrow> tip_json dir = None) \<and> (\<forall>h \<in> set l. storable repo h) \<and> log_shape P l)"

lemma decode_stored: "storable repo h \<Longrightarrow> decode_head_bytes J (canonical_bytes h) = Inr h"
  by (simp add: decode_head_bytes_def storable_def decode_canonical_bytes)

lemma log_shape_num:
  assumes "log_shape P l" and "i < length l"
  shows "unat (seq (l ! i)) = i + 1"
proof -
  have "i + 1 < 2 ^ 64" using assms by (simp add: log_shape_def)
  then show ?thesis using assms
    by (simp add: log_shape_def unat_word_ariths unat_of_nat take_bit_nat_eq_self)
qed

lemma log_shape_strict: "log_shape P l \<Longrightarrow> sorted_wrt (\<lambda>h k. seq h < seq k) l"
  using log_shape_num by (auto simp: sorted_wrt_iff_nth_less word_less_nat_alt)

lemma log_shape_snoc:
  assumes "log_shape P l" and "prev_head_hash h = (if l = [] then head_hash_zero else ref_head_hash P (last l))"
    and "seq h = of_nat (length l) + 1" and "length l + 1 < 2 ^ 64"
  shows "log_shape P (l @ [h])"
  using assms by (auto simp: log_shape_def linked_append nth_append less_Suc_eq)

lemma tip_inv:
  "head_log_inv P repo st l \<Longrightarrow> tip J repo st = Inr (if l = [] then None else Some (last l))"
  using decode_stored [of repo "last l" J]
  by (cases "l = []") (auto simp: head_log_inv_def tip_def Let_def split: option.splits)

lemma cas_check_ok:
  assumes "head_log_inv P repo st l" and "storable repo h"
    and "prev_head_hash h = (if l = [] then head_hash_zero else ref_head_hash P (last l))"
    and "seq h = of_nat (length l) + 1"
  shows "cas_check P J h st = Inr ()"
proof (cases "l = []")
  case True
  with assms show ?thesis
    by (simp add: cas_check_def storable_def tip_inv Let_def)
next
  case False
  have "seq (last l) = of_nat (length l - 1) + 1"
    using assms(1) False by (simp add: head_log_inv_def log_shape_def Let_def last_conv_nth)
  with False have "seq (last l) = of_nat (length l)" by (cases l) simp_all
  with assms False show ?thesis
    by (simp add: cas_check_def storable_def tip_inv Let_def)
qed

text \<open>
  The log directory before an append: exactly the log, or the log and one orphan at the next
  position, left by a crash after the first of the two writes.
\<close>

definition head_log_crashed :: "prims \<Rightarrow> repo_id \<Rightarrow> local_store \<Rightarrow> ref_head list \<Rightarrow> ref_head \<Rightarrow> bool" where
  "head_log_crashed P repo st l orphan \<longleftrightarrow>
     (\<exists>st0. head_log_inv P repo st0 l \<and> storable repo orphan \<and> seq orphan = of_nat (length l) + 1 \<and>
        st = cas_write_log orphan st0)"

lemma next_name_fresh:
  assumes "log_shape P l" and "length l + 1 < 2 ^ 64" and "h \<in> set l"
  shows "seq h \<noteq> of_nat (length l) + 1"
proof
  assume "seq h = of_nat (length l) + 1"
  moreover have "unat (of_nat (length l) + 1 :: u64) = length l + 1"
    using assms(2) by (simp add: unat_word_ariths unat_of_nat take_bit_nat_eq_self)
  moreover obtain i where "i < length l" "l ! i = h" using assms(3) by (auto simp: in_set_conv_nth)
  ultimately show False using log_shape_num [OF assms(1)] by fastforce
qed

lemma head_log_append:
  assumes dir: "distinct (map fst (log_dir (heads st repo)))"
    and files: "{p \<in> set (log_dir (heads st repo)). fst p \<noteq> LogBin (of_nat (length l) + 1)} = log_file ` set l"
    and l: "\<forall>h \<in> set l. storable repo h" "log_shape P l"
    and h: "storable repo h" "prev_head_hash h = (if l = [] then head_hash_zero else ref_head_hash P (last l))"
      "seq h = of_nat (length l) + 1" "length l + 1 < 2 ^ 64"
  shows "head_log_inv P repo (cas_write_tip h (cas_write_log h st)) (l @ [h])"
proof -
  have repo: "repo_id h = repo" using h(1) by (simp add: storable_def)
  have "set (dir_write (LogBin (seq h)) (canonical_bytes h) (log_dir (heads st repo))) = log_file ` set (l @ [h])"
    using set_dir_write [OF dir] files by (simp add: h(3) log_file_def)
  then show ?thesis
    using dir l h(1) log_shape_snoc [OF l(2) h(2-4)]
    by (simp add: head_log_inv_def cas_write_tip_def cas_write_log_def Let_def repo)
qed

lemma inv_files:
  assumes "head_log_inv P repo st l" and "length l + 1 < 2 ^ 64"
  shows "{p \<in> set (log_dir (heads st repo)). fst p \<noteq> LogBin (of_nat (length l) + 1)} = log_file ` set l"
  using assms next_name_fresh [of P l] by (auto simp: head_log_inv_def Let_def log_file_def)

lemma cas_append_inv:
  assumes "head_log_inv P repo st l" and "storable repo h"
    and "prev_head_hash h = (if l = [] then head_hash_zero else ref_head_hash P (last l))"
    and "seq h = of_nat (length l) + 1" and "length l + 1 < 2 ^ 64"
  shows "snd (cas_append P J h st) = Inr (ref_head_hash P h) \<and> head_log_inv P repo (fst (cas_append P J h st)) (l @ [h])"
proof -
  have "head_log_inv P repo (cas_write_tip h (cas_write_log h st)) (l @ [h])"
    by (rule head_log_append [OF _ inv_files [OF assms(1,5)] _ _ assms(2-5)])
      (use assms(1) in \<open>simp_all add: head_log_inv_def Let_def\<close>)
  then show ?thesis by (simp add: cas_append_def cas_check_ok [OF assms(1-4)])
qed

lemma read_log_map:
  assumes "\<forall>p \<in> set d. \<exists>h \<in> H. p = log_file h" and "\<forall>h \<in> H. storable repo h"
  shows "\<exists>hs. read_log J a d = Inr hs \<and> map log_file hs = filter (\<lambda>p. \<exists>n. fst p = LogBin n \<and> a < n) d \<and> set hs \<subseteq> H"
  using assms(1)
proof (induction d)
  case (Cons p d)
  then obtain h hs where h: "h \<in> H" "p = log_file h"
    and hs: "read_log J a d = Inr hs" "map log_file hs = filter (\<lambda>p. \<exists>n. fst p = LogBin n \<and> a < n) d" "set hs \<subseteq> H"
    by auto
  have "decode_head_bytes J (canonical_bytes h) = Inr h" using h(1) assms(2) decode_stored by blast
  then have "read_log J a (log_file h # d) = (if a < seq h then Inr (h # hs) else Inr hs)"
    using hs(1) by (simp add: log_file_def)
  moreover have "fst (log_file h) = LogBin (seq h)" by (simp add: log_file_def)
  ultimately show ?case using h hs(2,3) by auto
qed simp

lemma strict_sorted_key_unique:
  assumes "sorted_wrt (\<lambda>h k. f h < (f k :: 'b :: linorder)) ys" and "distinct (map f xs)" and "set xs = set ys"
  shows "sort_key f xs = ys"
proof -
  have ys: "sorted_wrt (<) (map f ys)" using assms(1) by (simp add: sorted_wrt_map)
  have "sorted (map f (sort_key f xs))" by simp
  moreover have "distinct (map f (sort_key f xs))"
    using assms(2) by (simp add: distinct_map)
  ultimately have "sorted_wrt (<) (map f (sort_key f xs))" by (simp add: strict_sorted_iff)
  with ys have "map f (sort_key f xs) = map f ys"
    by (intro strict_sorted_equal) (simp_all add: assms(3))
  moreover have "inj_on f (set (sort_key f xs) \<union> set ys)"
    using assms(2,3) by (simp add: distinct_map)
  ultimately show ?thesis by (rule map_inj_on)
qed

lemma since_inv:
  assumes "head_log_inv P repo st l"
  shows "since J repo a st = Inr (filter (\<lambda>h. a < seq h) l)"
proof -
  let ?d = "log_dir (heads st repo)"
  have files: "set ?d = log_file ` set l" and dist: "distinct (map fst ?d)" and ok: "\<forall>h \<in> set l. storable repo h"
    and shape: "log_shape P l"
    using assms by (simp_all add: head_log_inv_def Let_def)
  obtain hs where hs: "read_log J a ?d = Inr hs"
    "map log_file hs = filter (\<lambda>p. \<exists>n. fst p = LogBin n \<and> a < n) ?d" "set hs \<subseteq> set l"
    using read_log_map [of ?d "set l" repo J a] files ok by auto
  have "distinct (map log_file hs)" "distinct (map fst (map log_file hs))"
    unfolding hs(2) using dist by (simp_all add: distinct_map inj_on_def)
  then have "distinct (map LogBin (map seq hs))"
    by (simp add: log_file_def comp_def)
  then have "distinct (map seq hs)" using distinct_map by blast
  moreover have "set hs = set (filter (\<lambda>h. a < seq h) l)"
  proof -
    have "log_file ` set hs = log_file ` {h \<in> set l. a < seq h}"
      using arg_cong [OF hs(2), of set] files by (auto simp: log_file_def)
    moreover have "inj_on log_file (set l)"
      using log_shape_strict [OF shape] ok
      by (auto simp: inj_on_def log_file_def storable_def canonical_bytes_inject)
    moreover have "{h \<in> set l. a < seq h} \<subseteq> set l" by blast
    ultimately have "set hs = {h \<in> set l. a < seq h}"
      using hs(3) inj_on_image_eq_iff by blast
    then show ?thesis by simp
  qed
  moreover have "sorted_wrt (\<lambda>h k. seq h < seq k) (filter (\<lambda>h. a < seq h) l)"
    by (rule sorted_wrt_filter) (rule log_shape_strict [OF shape])
  ultimately have "sort_key seq hs = filter (\<lambda>h. a < seq h) l"
    by (intro strict_sorted_key_unique)
  then show ?thesis by (simp add: since_def hs(1))
qed

lemma cas_append_conflict:
  assumes "head_log_inv P repo st l" and "storable repo h"
    and "prev_head_hash h \<noteq> (if l = [] then head_hash_zero else ref_head_hash P (last l))"
  shows "cas_append P J h st = (st, Inl (CasConflict (if l = [] then head_hash_zero else ref_head_hash P (last l))))"
proof -
  have "repo_id h = repo" using assms(2) by (simp add: storable_def)
  with assms(3) show ?thesis
    by (cases "l = []") (simp_all add: cas_append_def cas_check_def tip_inv [OF assms(1)] Let_def)
qed

interpretation store_log: cas_log P "head_log_inv P repo" "tip J repo" "cas_append P J" "since J repo"
  "storable repo" CasConflict for P J repo
proof (unfold_locales, goal_cases)
  case (1 st l)
  then show ?case by (rule tip_inv)
next
  case (2 st l h)
  then show ?case by (rule cas_append_inv)
next
  case (3 st l h)
  then show ?case by (rule cas_append_conflict)
next
  case (4 st l a)
  then show ?case by (rule since_inv)
next
  case (5 st l)
  then show ?case by (simp add: head_log_inv_def log_shape_def Let_def)
qed

lemma cas_append_seq_error:
  assumes "head_log_inv P repo st l" and "storable repo h"
    and "prev_head_hash h = (if l = [] then head_hash_zero else ref_head_hash P (last l))"
    and "seq h \<noteq> of_nat (length l) + 1"
  shows "cas_append P J h st =
    (st, Inl (if l = [] then GenesisSeq else SeqMustBe (of_nat (length l) + 1) (seq h)))"
proof -
  have "repo_id h = repo" using assms(2) by (simp add: storable_def)
  moreover have "seq (last l) = of_nat (length l)" if "l \<noteq> []"
  proof -
    have "seq (last l) = of_nat (length l - 1) + 1"
      using assms(1) that by (simp add: head_log_inv_def log_shape_def Let_def last_conv_nth)
    with that show ?thesis by (cases l) simp_all
  qed
  ultimately show ?thesis
    using assms(3,4) by (auto simp: cas_append_def cas_check_def tip_inv [OF assms(1)] Let_def)
qed

section \<open>Properties of the store\<close>

text \<open>
  C26.  Compare-and-swap: on a store that holds the log \<open>l\<close>, appending a head succeeds exactly when it
  points at the hash of the last head (zero for the first) and takes the next position; then the
  store holds \<open>l\<close> with that head at the end and the head's hash is returned.  Otherwise nothing
  changes, and the error names the hash to build on, or the position that was expected.
\<close>

theorem cas_append_exact:
  assumes "head_log_inv P repo st l" and "storable repo h" and "length l + 1 < 2 ^ 64"
  defines "expected \<equiv> if l = [] then head_hash_zero else ref_head_hash P (last l)"
  shows "if prev_head_hash h \<noteq> expected then cas_append P J h st = (st, Inl (CasConflict expected))
    else if seq h \<noteq> of_nat (length l) + 1
    then cas_append P J h st = (st, Inl (if l = [] then GenesisSeq else SeqMustBe (of_nat (length l) + 1) (seq h)))
    else snd (cas_append P J h st) = Inr (ref_head_hash P h) \<and>
         head_log_inv P repo (fst (cas_append P J h st)) (l @ [h])"
  using cas_append_conflict [OF assms(1,2)] cas_append_seq_error [OF assms(1,2)]
    cas_append_inv [OF assms(1,2) _ _ assms(3)]
  by (simp add: expected_def)

lemma store_open_inv: "head_log_inv P repo store_open []"
  by (simp add: head_log_inv_def store_open_def log_shape_def)

lemma storable_demo: "storable (replicate 32 1) demo_head"
  by (simp add: storable_def demo_head_def head_wf_def opaque_ok_def opaque_fits_def head_hash_zero_def)

lemma cas_append_exact_witness:
  "snd (cas_append demo_prims (\<lambda>_. None) demo_head store_open) = Inr (ref_head_hash demo_prims demo_head)"
  using cas_append_exact [OF store_open_inv storable_demo, of demo_prims "\<lambda>_. None"]
  by (simp add: demo_head_def)

text \<open>
  Every reader of the log is served a verifiable run: for any position the reader has reached, the
  heads served after it are exactly the rest of the log in order, and they pass the chain check
  from the hash of the head at that position.
\<close>

theorem stored_log_verifies:
  assumes "head_log_inv P repo st l" and "a \<le> length l"
  shows "since J repo (of_nat a) st = Inr (drop a l) \<and>
    verify_head_chain P (drop a l) (if a = 0 then head_hash_zero else ref_head_hash P (l ! (a - 1))) = Inr ()"
  using store_log.log_since_drop [OF assms, of J] store_log.anchored_fetch_ok [OF assms, of J] by auto

lemma stored_log_verifies_witness:
  "since (\<lambda>_. None) (replicate 32 1) 0 (fst (cas_append demo_prims (\<lambda>_. None) demo_head store_open)) = Inr [demo_head]"
proof -
  have "head_log_inv demo_prims (replicate 32 1) (fst (cas_append demo_prims (\<lambda>_. None) demo_head store_open)) ([] @ [demo_head])"
    using cas_append_inv [OF store_open_inv storable_demo, of demo_prims "\<lambda>_. None"]
    by (simp add: demo_head_def)
  from stored_log_verifies [OF this, of 0 "\<lambda>_. None"] show ?thesis by simp
qed

text \<open>
  A crash between the two durable writes loses nothing: on the state it leaves, the tip is still
  the last committed head, and the next append of any valid head restores a consistent store that
  holds the old log and that head, overwriting the orphan.
\<close>

theorem crash_then_append_recovers:
  assumes "head_log_crashed P repo st l orphan" and "storable repo h"
    and "prev_head_hash h = (if l = [] then head_hash_zero else ref_head_hash P (last l))"
    and "seq h = of_nat (length l) + 1" and "length l + 1 < 2 ^ 64"
  shows "tip J repo st = Inr (if l = [] then None else Some (last l)) \<and>
    snd (cas_append P J h st) = Inr (ref_head_hash P h) \<and>
    head_log_inv P repo (fst (cas_append P J h st)) (l @ [h])"
proof -
  from assms(1) obtain st0 where st0: "head_log_inv P repo st0 l" and orphan: "storable repo orphan"
    "seq orphan = of_nat (length l) + 1" and st: "st = cas_write_log orphan st0"
    by (auto simp: head_log_crashed_def)
  have repo: "repo_id orphan = repo" "repo_id h = repo"
    using orphan(1) assms(2) by (simp_all add: storable_def)
  have same: "tip J repo st = tip J repo st0"
    by (simp add: st tip_def cas_write_log_def repo Let_def split: option.splits)
  have "cas_check P J h st = cas_check P J h st0"
    by (simp add: cas_check_def repo same)
  then have check: "cas_check P J h st = Inr ()"
    using cas_check_ok [OF st0 assms(2-4)] by simp
  have dir: "log_dir (heads st repo) =
      dir_write (LogBin (of_nat (length l) + 1)) (canonical_bytes orphan) (log_dir (heads st0 repo))"
    by (simp add: st cas_write_log_def repo Let_def orphan(2))
  have d0: "distinct (map fst (log_dir (heads st0 repo)))" "\<forall>k \<in> set l. storable repo k" "log_shape P l"
    using st0 by (simp_all add: head_log_inv_def Let_def)
  have "{p \<in> set (log_dir (heads st repo)). fst p \<noteq> LogBin (of_nat (length l) + 1)} = log_file ` set l"
    using inv_files [OF st0 assms(5)] set_dir_write [OF d0(1)] by (auto simp: dir)
  then have "head_log_inv P repo (cas_write_tip h (cas_write_log h st)) (l @ [h])"
    by (intro head_log_append [OF _ _ d0(2,3) assms(2-5)]) (simp_all add: dir d0(1))
  then show ?thesis
    using tip_inv [OF st0] by (simp add: same cas_append_def check)
qed

lemma crash_then_append_recovers_witness:
  "head_log_inv demo_prims (replicate 32 1)
     (fst (cas_append demo_prims (\<lambda>_. None) demo_head (cas_write_log (demo_head\<lparr>enc_refs := [7]\<rparr>) store_open))) [demo_head]"
proof -
  have "storable (replicate 32 1) (demo_head\<lparr>enc_refs := [7]\<rparr>)"
    by (simp add: storable_def demo_head_def head_wf_def opaque_ok_def opaque_fits_def head_hash_zero_def)
  then have "head_log_crashed demo_prims (replicate 32 1) (cas_write_log (demo_head\<lparr>enc_refs := [7]\<rparr>) store_open) []
      (demo_head\<lparr>enc_refs := [7]\<rparr>)"
    unfolding head_log_crashed_def
    by (intro exI [of _ store_open]) (simp add: store_open_inv, simp add: demo_head_def)
  from crash_then_append_recovers [OF this storable_demo] show ?thesis
    by (simp add: demo_head_def)
qed

text \<open>
  After such a crash the log read serves a head that was never committed: \<^verbatim>\<open>since\<close> returns the
  orphan above the advertised tip, and a later append replaces it, so a reader that fetched in
  between holds a head that is not in the log, and sees a fork where the host was only restarted.
\<close>

theorem crash_serves_uncommitted_head:
  "let h = demo_head; h' = demo_head\<lparr>enc_refs := [7]\<rparr>; crashed = cas_write_log h' store_open;
       later = fst (cas_append demo_prims J h crashed)
   in tip J (replicate 32 1) crashed = Inr None \<and> since J (replicate 32 1) 0 crashed = Inr [h'] \<and>
      since J (replicate 32 1) 0 later = Inr [h] \<and> h \<noteq> h'"
proof -
  let ?h' = "demo_head\<lparr>enc_refs := [7]\<rparr>" and ?r = "replicate 32 (1 :: u8)"
  let ?later = "fst (cas_append demo_prims J demo_head (cas_write_log ?h' store_open))"
  have st: "storable ?r ?h'"
    by (simp add: storable_def demo_head_def head_wf_def opaque_ok_def opaque_fits_def head_hash_zero_def)
  then have crashed: "head_log_crashed demo_prims ?r (cas_write_log ?h' store_open) [] ?h'"
    unfolding head_log_crashed_def
    by (intro exI [of _ store_open]) (simp add: store_open_inv, simp add: demo_head_def)
  have facts: "prev_head_hash demo_head = head_hash_zero" "seq demo_head = 1" "repo_id ?h' = ?r" "seq ?h' = 1"
    "demo_head \<noteq> ?h'"
    by (simp_all add: demo_head_def)
  have read: "log_dir (heads (cas_write_log ?h' store_open) ?r) = [(LogBin 1, canonical_bytes ?h')]"
    by (simp add: cas_write_log_def store_open_def Let_def facts(3,4))
  have "since J ?r 0 (cas_write_log ?h' store_open) = Inr [?h']"
    by (simp add: since_def read decode_stored [OF st])
  moreover have "tip J ?r (cas_write_log ?h' store_open) = Inr None"
    by (simp add: tip_def cas_write_log_def store_open_def Let_def facts(3))
  moreover have "head_log_inv demo_prims ?r ?later [demo_head]"
  proof -
    note dir = head_log_append [of "cas_write_log ?h' store_open" ?r "[]" demo_prims demo_head]
    have "cas_check demo_prims J demo_head (cas_write_log ?h' store_open) = Inr ()"
      using storable_demo calculation(2) by (simp add: cas_check_def storable_def facts(1,2))
    then show ?thesis
      using dir storable_demo by (simp add: cas_append_def read facts(1,2) log_shape_def)
  qed
  then have "since J ?r 0 ?later = Inr [demo_head]"
    by (simp add: since_inv facts(2))
  ultimately show ?thesis using facts(5) by (simp add: Let_def)
qed

section \<open>Blobs, key log, queue\<close>

definition blobs_inv :: "prims \<Rightarrow> local_store \<Rightarrow> bool" where
  "blobs_inv P st \<longleftrightarrow>
     (\<forall>i ct. blobs st i = Some ct \<longrightarrow> i = blob_id_of_ciphertext P ct) \<and>
     (\<forall>i. (blobs st i = None) = (blobmeta st i = None)) \<and>
     (\<forall>i m. blobmeta st i = Some m \<longrightarrow> bm_id m = i)"

lemma blobs_inv_open: "blobs_inv P store_open"
  by (simp add: blobs_inv_def store_open_def)

lemma blobs_inv_put: "blobs_inv P st \<Longrightarrow> blobs_inv P (fst (blob_put P meta ct st))"
  by (auto simp: blobs_inv_def blob_put_def Let_def)

text \<open>
  The blob store is content-addressed and write-once: a put returns the hash of the ciphertext
  whatever id the caller claims, keeps the store's invariant (every blob sits under its own hash and
  has metadata with that id), never changes a blob that is already there, and a get of the returned
  id yields the ciphertext unless SHA-512 collides with one stored before.
\<close>

theorem blob_put_content_addressed:
  assumes "blobs_inv P st"
    and "\<forall>ct0. blobs st (blob_id_of_ciphertext P ct) = Some ct0 \<longrightarrow> inj_on (sha512 P) {ct0, ct}"
  shows "snd (blob_put P meta ct st) = blob_id_of_ciphertext P ct \<and>
    blobs_inv P (fst (blob_put P meta ct st)) \<and>
    (\<forall>i ct0. blobs st i = Some ct0 \<longrightarrow> blobs (fst (blob_put P meta ct st)) i = Some ct0) \<and>
    blob_get (blob_id_of_ciphertext P ct) (fst (blob_put P meta ct st)) = Inr ct"
proof -
  have eq: "ct0 = ct" if "blobs st (blob_id_of_ciphertext P ct) = Some ct0" for ct0
  proof -
    have "blob_id_of_ciphertext P ct = blob_id_of_ciphertext P ct0"
      using assms(1) that by (simp add: blobs_inv_def)
    then have "sha512 P ct0 = sha512 P ct" unfolding blob_id_of_ciphertext_def by (rule sym)
    moreover have "inj_on (sha512 P) {ct0, ct}" using assms(2) that by blast
    ultimately show ?thesis by (auto dest: inj_onD)
  qed
  have "blob_get (blob_id_of_ciphertext P ct) (fst (blob_put P meta ct st)) = Inr ct"
  proof (cases "blobs st (blob_id_of_ciphertext P ct)")
    case None
    then show ?thesis by (simp add: blob_get_def blob_put_def Let_def)
  next
    case (Some c)
    then show ?thesis by (simp add: blob_get_def blob_put_def Let_def eq [OF Some])
  qed
  moreover have "snd (blob_put P meta ct st) = blob_id_of_ciphertext P ct"
    by (simp add: blob_put_def Let_def)
  moreover have "\<forall>i ct0. blobs st i = Some ct0 \<longrightarrow> blobs (fst (blob_put P meta ct st)) i = Some ct0"
    by (auto simp: blob_put_def Let_def)
  ultimately show ?thesis using blobs_inv_put [OF assms(1)] by blast
qed

lemma blob_put_content_addressed_witness:
  "blob_get (blob_id_of_ciphertext demo_prims [1, 2])
     (fst (blob_put demo_prims \<lparr>bm_id = [], bm_size = 0, chunk_index = 0, chunk_count = 1, bm_push_id = []\<rparr> [1, 2] store_open)) = Inr [1, 2]"
  using blob_put_content_addressed [OF blobs_inv_open, where ct = "[1, 2]" and P = demo_prims] by (simp add: store_open_def)

text \<open>The queue: delivery numbers of a repository are \<open>1, 2, \<dots>\<close> in the order of arrival.\<close>

definition queue_inv :: "(u64 \<times> mls_envelope) list \<Rightarrow> bool" where
  "queue_inv d \<longleftrightarrow> length d < 2 ^ 64 \<and>
     (\<forall>i < length d. fst (d ! i) = of_nat i + 1 \<and> env_seq (snd (d ! i)) = of_nat i + 1)"

lemma queue_num:
  assumes "queue_inv d" and "i < length d"
  shows "unat (fst (d ! i)) = i + 1 \<and> unat (env_seq (snd (d ! i))) = i + 1"
proof -
  have "i + 1 < 2 ^ 64" using assms by (simp add: queue_inv_def)
  then show ?thesis using assms
    by (simp add: queue_inv_def unat_word_ariths unat_of_nat take_bit_nat_eq_self)
qed

lemma queue_max:
  assumes "queue_inv d"
  shows "fold max (map fst d) 0 = of_nat (length d)"
proof (cases "d = []")
  case False
  have bound: "x \<le> of_nat (length d)" if "x \<in> set (map fst d)" for x
  proof -
    from that obtain i where i: "i < length d" "x = fst (d ! i)" by (auto simp: in_set_conv_nth)
    have "unat (of_nat (length d) :: u64) = length d"
      using assms by (simp add: queue_inv_def unat_of_nat take_bit_nat_eq_self)
    with queue_num [OF assms i(1)] i show ?thesis by (simp add: word_le_nat_alt)
  qed
  obtain n where n: "length d = Suc n" using False by (cases d) auto
  have "fst (last d) = of_nat (length d)"
    using assms False n by (simp add: queue_inv_def last_conv_nth)
  moreover have "last d \<in> set d" using False by (rule last_in_set)
  ultimately have "of_nat (length d) \<in> set (map fst d)" by (metis image_eqI set_map)
  moreover have "fold max (map fst d) 0 = Max (insert 0 (set (map fst d)))"
    using Max.set_eq_fold [of 0 "map fst d"] by (simp only: list.set(2))
  ultimately show ?thesis using bound by (auto intro!: Max_eqI)
qed simp

lemma dir_write_fresh: "k \<notin> fst ` set d \<Longrightarrow> dir_write k v d = d @ [(k, v)]"
  by (induction k v d rule: dir_write.induct) auto

lemma enqueue_append:
  assumes "queue_inv (mls st (env_repo_id env))" and "length (mls st (env_repo_id env)) + 1 < 2 ^ 64"
  shows "mls (fst (enqueue env st)) = (mls st)(env_repo_id env := mls st (env_repo_id env) @
      [(of_nat (length (mls st (env_repo_id env))) + 1, env\<lparr>env_seq := of_nat (length (mls st (env_repo_id env))) + 1\<rparr>)])"
    and "snd (enqueue env st) = of_nat (length (mls st (env_repo_id env))) + 1"
proof -
  let ?d = "mls st (env_repo_id env)"
  have "of_nat (length ?d) + 1 \<notin> fst ` set ?d"
  proof
    assume "of_nat (length ?d) + 1 \<in> fst ` set ?d"
    then obtain i where i: "i < length ?d" "fst (?d ! i) = of_nat (length ?d) + 1"
      by (auto simp: in_set_conv_nth)
    have "unat (of_nat (length ?d) + 1 :: u64) = length ?d + 1"
      using assms(2) by (simp add: unat_word_ariths unat_of_nat take_bit_nat_eq_self)
    with queue_num [OF assms(1) i(1)] i show False by simp
  qed
  with queue_max [OF assms(1)] show
    "mls (fst (enqueue env st)) = (mls st)(env_repo_id env := ?d @
      [(of_nat (length ?d) + 1, env\<lparr>env_seq := of_nat (length ?d) + 1\<rparr>)])"
    and "snd (enqueue env st) = of_nat (length ?d) + 1"
    by (simp_all add: enqueue_def Let_def dir_write_fresh)
qed

lemma queue_inv_enqueue:
  assumes "queue_inv (mls st (env_repo_id env))" and "length (mls st (env_repo_id env)) + 1 < 2 ^ 64"
  shows "queue_inv (mls (fst (enqueue env st)) (env_repo_id env))"
  using assms by (auto simp: enqueue_append queue_inv_def nth_append less_Suc_eq)

lemma fetch_queue:
  assumes "queue_inv (mls st repo)" and "a \<le> length (mls st repo)"
  shows "fetch repo (of_nat a) n st = take n (drop a (map snd (mls st repo)))"
proof -
  let ?d = "mls st repo"
  have ua: "unat (of_nat a :: u64) = a"
    using assms by (simp add: queue_inv_def unat_of_nat take_bit_nat_eq_self)
  have "filter (\<lambda>(n, _). n > of_nat a) (take a ?d) = []"
  proof -
    have "\<not> of_nat a < fst p" if p: "p \<in> set (take a ?d)" for p
    proof -
      from p obtain i where i: "i < a" "i < length ?d" "p = ?d ! i" by (auto simp: in_set_conv_nth)
      from queue_num [OF assms(1) i(2)] i show ?thesis by (simp add: word_less_nat_alt ua)
    qed
    then show ?thesis by (auto simp: filter_empty_conv)
  qed
  moreover have "filter (\<lambda>(n, _). n > of_nat a) (drop a ?d) = drop a ?d"
  proof -
    have "of_nat a < fst p" if p: "p \<in> set (drop a ?d)" for p
    proof -
      from p obtain i where i: "i < length ?d - a" "p = ?d ! (a + i)"
        by (auto simp: in_set_conv_nth)
      then have "a + i < length ?d" by simp
      from queue_num [OF assms(1) this] i(2) show ?thesis by (simp add: word_less_nat_alt ua)
    qed
    then show ?thesis by (auto simp: filter_id_conv)
  qed
  ultimately have "filter (\<lambda>(n, _). n > of_nat a) ?d = drop a ?d"
    by (metis (no_types, lifting) append_Nil append_take_drop_id filter_append)
  moreover have "sort_key env_seq (drop a (map snd ?d)) = drop a (map snd ?d)"
  proof (rule strict_sorted_key_unique)
    have strict: "sorted_wrt (\<lambda>x y. env_seq x < env_seq y) (map snd ?d)"
      using queue_num [OF assms(1)] by (auto simp: sorted_wrt_iff_nth_less word_less_nat_alt)
    then show "sorted_wrt (\<lambda>x y. env_seq x < env_seq y) (drop a (map snd ?d))"
      by (rule sorted_wrt_drop)
    then have "sorted_wrt (<) (map env_seq (drop a (map snd ?d)))" by (simp only: sorted_wrt_map)
    then show "distinct (map env_seq (drop a (map snd ?d)))" by (simp only: strict_sorted_iff)
  qed simp
  ultimately show ?thesis by (simp add: fetch_def drop_map)
qed

text \<open>
  MLS delivery is a gap-free queue: enqueueing assigns the next number and keeps everything that
  was delivered before; fetching after the \<open>a\<close>-th message returns the following messages in order of
  arrival, at most the limit, so a member that polls with the last number it saw misses nothing.
\<close>

theorem mls_queue_delivers_in_order:
  assumes "queue_inv (mls st repo)" and "length (mls st repo) + 1 < 2 ^ 64" and "env_repo_id env = repo"
    and "a \<le> length (mls st repo)"
  defines "env' \<equiv> env\<lparr>env_seq := of_nat (length (mls st repo)) + 1\<rparr>"
  shows "snd (enqueue env st) = of_nat (length (mls st repo)) + 1 \<and>
    queue_inv (mls (fst (enqueue env st)) repo) \<and>
    fetch repo (of_nat a) n (fst (enqueue env st)) = take n (drop a (map snd (mls st repo)) @ [env'])"
  using enqueue_append [of st env] queue_inv_enqueue [of st env]
    fetch_queue [of "fst (enqueue env st)" repo a n] assms
  by simp

lemma mls_queue_delivers_in_order_witness:
  "snd (enqueue \<lparr>env_repo_id = [], env_seq = 0, env_payload = [1], env_sender_hint = None\<rparr> store_open) = 1"
  using mls_queue_delivers_in_order [of store_open "[]" "\<lparr>env_repo_id = [], env_seq = 0, env_payload = [1], env_sender_hint = None\<rparr>" 0]
  by (simp add: store_open_def queue_inv_def)

text \<open>
  The key log is not append-only: an entry for an epoch that already has one replaces it, so the
  earlier administrator-signed entry is gone from every later read.
\<close>

theorem key_log_overwrites:
  assumes "drive_epoch e = drive_epoch e'" and "drive_epoch e > a" and "e \<noteq> e'"
    and "keylog st repo = []"
  shows "key_log_since repo a (append_key_log repo e' (append_key_log repo e st)) = [e'] \<and>
    key_log_since repo a (append_key_log repo e st) = [e]"
  using assms by (simp add: key_log_since_def append_key_log_def)

lemma key_log_overwrites_witness:
  "let e = \<lparr>drive_epoch = 3, wrapped_dkr = [1], kl_prev_hash = [], admin_sig = []\<rparr>; e' = e\<lparr>wrapped_dkr := [2]\<rparr>
   in key_log_since [] 0 (append_key_log [] e' (append_key_log [] e store_open)) = [e']"
  using key_log_overwrites [of "\<lparr>drive_epoch = 3, wrapped_dkr = [1], kl_prev_hash = [], admin_sig = []\<rparr>"
      "\<lparr>drive_epoch = 3, wrapped_dkr = [2], kl_prev_hash = [], admin_sig = []\<rparr>" 0 store_open "[]"]
  by (simp add: Let_def store_open_def)

end
