(* ===== verification/Users.thy ===== *)
theory Users
  imports Storage
begin

text \<open>
  Accounts, sessions and personal access tokens, \<^verbatim>\<open>safehub-server/src/users.rs\<close>, and the bearer
  extractor, \<^verbatim>\<open>auth.rs\<close>.  Argon2 is a parameter; salts, token ids and timestamps are arguments.
  Hash maps are lists of entries in their iteration order.
\<close>

section \<open>State\<close>

definition SCOPE_REPO :: string where "SCOPE_REPO = ''repo''"
definition SCOPE_READ_USER :: string where "SCOPE_READ_USER = ''read:user''"

record user_record =
  username :: string
  password_hash :: string
  ur_created_at :: string

record token_record =
  tr_token :: string
  tr_user :: string
  tr_note :: string
  tr_scopes :: "string list"
  tr_kind :: string
  tr_created_at :: string

record auth_db =
  users :: "(string \<times> user_record) list"
  tokens :: "(string \<times> token_record) list"

datatype auth_error = BadRequest string | Unauthorized | Conflict string | AuthNotFound | HashFailed

text \<open>\<open>hash_with pw salt\<close> is the PHC string or a failure; \<open>verify_hash pw phc\<close> parses and compares.\<close>

record argon2 =
  hash_with :: "string \<Rightarrow> string \<Rightarrow> string option"
  verify_hash :: "string \<Rightarrow> string \<Rightarrow> bool"

definition argon2_correct :: "argon2 \<Rightarrow> bool" where
  "argon2_correct A \<longleftrightarrow> (\<forall>pw salt h. hash_with A pw salt = Some h \<longrightarrow> verify_hash A pw h)"

definition empty_db :: auth_db where
  "empty_db = \<lparr>users = [], tokens = []\<rparr>"

section \<open>Operations\<close>

definition register ::
    "argon2 \<Rightarrow> string \<Rightarrow> string \<Rightarrow> string \<Rightarrow> string \<Rightarrow> auth_db \<Rightarrow> auth_db \<times> (auth_error + user_record)" where
  "register A salt now user pw db =
     (if user = [] \<or> pw = [] then (db, Inl (BadRequest ''user and password required''))
      else if map_of (users db) user \<noteq> None then (db, Inl (Conflict ''user already exists''))
      else case hash_with A pw salt of
        None \<Rightarrow> (db, Inl HashFailed)
      | Some h \<Rightarrow>
          let r = \<lparr>username = user, password_hash = h, ur_created_at = now\<rparr>
          in (db\<lparr>users := dir_write user r (users db)\<rparr>, Inr r))"

definition verify_password :: "argon2 \<Rightarrow> string \<Rightarrow> string \<Rightarrow> auth_db \<Rightarrow> auth_error + unit" where
  "verify_password A user pw db =
     (case map_of (users db) user of
        None \<Rightarrow> Inl Unauthorized
      | Some r \<Rightarrow> if verify_hash A pw (password_hash r) then Inr () else Inl Unauthorized)"

definition issue_session :: "string \<Rightarrow> string \<Rightarrow> string \<Rightarrow> auth_db \<Rightarrow> auth_db \<times> token_record" where
  "issue_session uuid now user db =
     (let token = ''ph_'' @ uuid;
          r = \<lparr>tr_token = token, tr_user = user, tr_note = ''session'', tr_scopes = [SCOPE_REPO, SCOPE_READ_USER],
               tr_kind = ''session'', tr_created_at = now\<rparr>
      in (db\<lparr>tokens := dir_write token r (tokens db)\<rparr>, r))"

definition create_pat ::
    "string \<Rightarrow> string \<Rightarrow> string \<Rightarrow> string \<Rightarrow> string list \<Rightarrow> auth_db \<Rightarrow> auth_db \<times> (auth_error + token_record)" where
  "create_pat uuid now user note scopes db =
     (case List.find (\<lambda>s. s \<noteq> SCOPE_REPO \<and> s \<noteq> SCOPE_READ_USER) scopes of
        Some s \<Rightarrow> (db, Inl (BadRequest (''unknown scope: '' @ s)))
      | None \<Rightarrow>
          let scopes = (if scopes = [] then [SCOPE_REPO, SCOPE_READ_USER] else scopes);
              token = ''shpat_'' @ uuid;
              r = \<lparr>tr_token = token, tr_user = user, tr_note = note, tr_scopes = scopes,
                   tr_kind = ''pat'', tr_created_at = now\<rparr>
          in (db\<lparr>tokens := dir_write token r (tokens db)\<rparr>, Inr r))"

definition lookup_token :: "string \<Rightarrow> auth_db \<Rightarrow> token_record option" where
  "lookup_token t db = map_of (tokens db) t"

record token_public =
  tp_id :: string
  tp_note :: string
  tp_scopes :: "string list"
  tp_created_at :: string
  tp_token :: "string option"

text \<open>The id of a listed token: its first 12 bytes and an ellipsis (three UTF-8 bytes).\<close>

definition token_from_record :: "token_record \<Rightarrow> token_public" where
  "token_from_record r =
     \<lparr>tp_id = (if length (tr_token r) > 12
               then take 12 (tr_token r) @ [char_of (0xE2 :: nat), char_of (0x80 :: nat), char_of (0xA6 :: nat)]
               else tr_token r),
      tp_note = tr_note r, tp_scopes = tr_scopes r, tp_created_at = tr_created_at r, tp_token = None\<rparr>"

definition token_from_create :: "token_record \<Rightarrow> token_public" where
  "token_from_create r =
     \<lparr>tp_id = tr_token r, tp_note = tr_note r, tp_scopes = tr_scopes r, tp_created_at = tr_created_at r,
      tp_token = Some (tr_token r)\<rparr>"

definition list_pats :: "string \<Rightarrow> auth_db \<Rightarrow> token_public list" where
  "list_pats user db =
     map token_from_record (filter (\<lambda>t. tr_user t = user \<and> tr_kind t = ''pat'') (map snd (tokens db)))"

definition revoke_token :: "string \<Rightarrow> string \<Rightarrow> auth_db \<Rightarrow> auth_db \<times> (auth_error + unit)" where
  "revoke_token user t db =
     (case map_of (tokens db) t of
        Some r \<Rightarrow> if tr_user r = user then (db\<lparr>tokens := filter (\<lambda>p. fst p \<noteq> t) (tokens db)\<rparr>, Inr ())
                 else (db, Inl Unauthorized)
      | None \<Rightarrow> (db, Inl AuthNotFound))"

text \<open>The extractor: a header \<^verbatim>\<open>Authorization: Bearer token\<close> with a live token, or status 401.\<close>

definition auth_user :: "auth_db \<Rightarrow> string option \<Rightarrow> nat + token_record" where
  "auth_user db header =
     (case header of
        None \<Rightarrow> Inl 401
      | Some h \<Rightarrow>
          if starts_with ''Bearer '' h then ok_or 401 (lookup_token (drop 7 h) db) else Inl 401)"

section \<open>The token store\<close>

definition tokens_inv :: "auth_db \<Rightarrow> bool" where
  "tokens_inv db \<longleftrightarrow> distinct (map fst (tokens db)) \<and> (\<forall>(t, r) \<in> set (tokens db). tr_token r = t) \<and>
     distinct (map fst (users db)) \<and> (\<forall>(u, r) \<in> set (users db). username r = u)"

lemma tokens_inv_empty: "tokens_inv empty_db"
  by (simp add: tokens_inv_def empty_db_def)

lemma tokens_inv_ops:
  assumes "tokens_inv db"
  shows "tokens_inv (fst (register A salt now user pw db))"
    and "tokens_inv (fst (issue_session uuid now user db))"
    and "tokens_inv (fst (create_pat uuid now user note scopes db))"
    and "tokens_inv (fst (revoke_token user t db))"
  using assms
  by (auto simp: tokens_inv_def register_def issue_session_def create_pat_def revoke_token_def Let_def
      set_dir_write distinct_map_filter split: option.splits)

lemma map_of_filter_key: "map_of (filter (\<lambda>p. fst p \<noteq> t) m) s = (if s = t then None else map_of m s)"
  by (induction m) auto

lemma register_ok_iff:
  "(\<exists>r. snd (register A salt now user pw db) = Inr r) \<longleftrightarrow>
     user \<noteq> [] \<and> pw \<noteq> [] \<and> map_of (users db) user = None \<and> hash_with A pw salt \<noteq> None"
  by (auto simp: register_def Let_def split: option.splits)

section \<open>The life of a token\<close>

text \<open>
  The four operations of the store that write it, with what the code draws (salt, uuid, time) as
  arguments.  The handlers and forms call no others, and name as user the one they authenticated.
\<close>

datatype auth_op =
    Register_Op string string string string
  | Session_Op string string string
  | Pat_Op string string string string "string list"
  | Revoke_Op string string

fun auth_step :: "argon2 \<Rightarrow> auth_op \<Rightarrow> auth_db \<Rightarrow> auth_db" where
  "auth_step A (Register_Op salt now user pw) db = fst (register A salt now user pw db)"
| "auth_step A (Session_Op uuid now user) db = fst (issue_session uuid now user db)"
| "auth_step A (Pat_Op uuid now user note scopes) db = fst (create_pat uuid now user note scopes db)"
| "auth_step A (Revoke_Op user t) db = fst (revoke_token user t db)"

text \<open>The record an operation issues, and the token string it would issue whatever its other arguments.\<close>

fun issued :: "auth_db \<Rightarrow> auth_op \<Rightarrow> token_record option" where
  "issued db (Session_Op uuid now user) = Some (snd (issue_session uuid now user db))"
| "issued db (Pat_Op uuid now user note scopes) =
     (case snd (create_pat uuid now user note scopes db) of Inl _ \<Rightarrow> None | Inr r \<Rightarrow> Some r)"
| "issued db _ = None"

fun draws_token :: "string \<Rightarrow> auth_op \<Rightarrow> bool" where
  "draws_token t (Session_Op uuid now user) = (''ph_'' @ uuid = t)"
| "draws_token t (Pat_Op uuid now user note scopes) = (''shpat_'' @ uuid = t)"
| "draws_token t _ = False"

fun op_user :: "auth_op \<Rightarrow> string" where
  "op_user (Register_Op salt now user pw) = user"
| "op_user (Session_Op uuid now user) = user"
| "op_user (Pat_Op uuid now user note scopes) = user"
| "op_user (Revoke_Op user t) = user"

lemma auth_user_bearer: "auth_user db (Some (''Bearer '' @ t)) = ok_or 401 (lookup_token t db)"
  by (simp add: auth_user_def starts_with_def numeral_eq_Suc)

lemma issued_lookup:
  "issued db opn = Some r \<Longrightarrow> lookup_token (tr_token r) (auth_step A opn db) = Some r \<and> tr_user r = op_user opn"
  by (cases opn)
    (auto simp: issue_session_def create_pat_def lookup_token_def Let_def split: option.splits)

text \<open>What one operation does to one token it does not draw: only a revocation by its user counts.\<close>

lemma auth_step_lookup:
  assumes "\<not> draws_token t opn"
  shows "lookup_token t (auth_step A opn db) =
    (case lookup_token t db of None \<Rightarrow> None
     | Some r \<Rightarrow> if opn = Revoke_Op (tr_user r) t then None else Some r)"
  using assms
  by (cases opn)
    (auto simp: lookup_token_def register_def issue_session_def create_pat_def revoke_token_def Let_def
      map_of_filter_key split: option.splits)

lemma auth_run_lookup:
  assumes "list_all (\<lambda>p. \<not> draws_token t p) ops"
  shows "lookup_token t (fold (auth_step A) ops db) =
    (case lookup_token t db of None \<Rightarrow> None
     | Some r \<Rightarrow> if Revoke_Op (tr_user r) t \<in> set ops then None else Some r)"
  using assms
proof (induction ops arbitrary: db)
  case (Cons p ops)
  then show ?case by (cases "lookup_token t db") (auto simp: auth_step_lookup)
qed (simp split: option.split)

text \<open>
  C37.  The life of a bearer token: once an operation has issued a token, as a session or as a
  personal access token, then after any sequence of further operations of the store (registrations,
  logins, other tokens, revocations by anybody) that does not draw the same identifier again, the
  extractor answers exactly the record that was issued, whose user is the one it was issued to, as
  long as that user has not revoked it, and 401 from then on for good; and a revocation of it in any
  other user's name fails and leaves the store as it is.
\<close>

theorem token_lifecycle:
  fixes A :: argon2
  assumes "issued db opn = Some r" and "list_all (\<lambda>p. \<not> draws_token (tr_token r) p) ops"
  defines "db' \<equiv> fold (auth_step A) (opn # ops) db"
  shows "tr_user r = op_user opn \<and>
    auth_user db' (Some (''Bearer '' @ tr_token r)) =
      (if Revoke_Op (op_user opn) (tr_token r) \<in> set ops then Inl 401 else Inr r) \<and>
    (\<forall>other. other \<noteq> op_user opn \<longrightarrow>
       (\<exists>e. revoke_token other (tr_token r) db' = (db', Inl e)))"
proof -
  have first: "lookup_token (tr_token r) (auth_step A opn db) = Some r" "tr_user r = op_user opn"
    using issued_lookup [OF assms(1)] by simp_all
  have now: "lookup_token (tr_token r) db' =
      (if Revoke_Op (op_user opn) (tr_token r) \<in> set ops then None else Some r)"
    using auth_run_lookup [OF assms(2), of A "auth_step A opn db"] first by (simp add: db'_def)
  then have "\<exists>e. revoke_token other (tr_token r) db' = (db', Inl e)" if "other \<noteq> op_user opn" for other
    using that first(2) by (auto simp: revoke_token_def lookup_token_def split: if_splits)
  with now first(2) show ?thesis unfolding auth_user_bearer by simp
qed

text \<open>
  A session of ann stays valid while bob registers, draws a token, and tries to revoke hers and
  while she revokes another token; her own revocation ends it, whatever follows.
\<close>

lemma token_lifecycle_witness:
  "let A = \<lparr>hash_with = (\<lambda>p s. Some (s @ p)), verify_hash = (\<lambda>p h. h = p)\<rparr>;
       start = Session_Op ''u1'' ''now'' ''ann'';
       busy = [Register_Op [] ''now'' ''bob'' ''pw'', Pat_Op ''u2'' ''now'' ''ann'' ''ci'' [SCOPE_REPO],
               Session_Op ''u3'' ''now'' ''bob'', Revoke_Op ''bob'' ''ph_u1'', Revoke_Op ''ann'' ''shpat_u2''];
       leave = [Revoke_Op ''ann'' ''ph_u1'', Session_Op ''u4'' ''now'' ''ann'']
   in (\<exists>r. tr_user r = ''ann'' \<and> tr_kind r = ''session'' \<and>
         auth_user (fold (auth_step A) (start # busy) empty_db) (Some ''Bearer ph_u1'') = Inr r) \<and>
      auth_user (fold (auth_step A) (start # busy @ leave) empty_db) (Some ''Bearer ph_u1'') = Inl 401"
proof -
  define A where "A = \<lparr>hash_with = (\<lambda>p s. Some (s @ p :: string)), verify_hash = (\<lambda>p h :: string. h = p)\<rparr>"
  define busy where "busy = [Register_Op [] ''now'' ''bob'' ''pw'', Pat_Op ''u2'' ''now'' ''ann'' ''ci'' [SCOPE_REPO],
    Session_Op ''u3'' ''now'' ''bob'', Revoke_Op ''bob'' ''ph_u1'', Revoke_Op ''ann'' ''shpat_u2'']"
  define leave where "leave = [Revoke_Op ''ann'' ''ph_u1'', Session_Op ''u4'' ''now'' ''ann'']"
  define r where "r = snd (issue_session ''u1'' ''now'' ''ann'' empty_db)"
  have r: "tr_token r = ''ph_u1''" "tr_user r = ''ann''" "tr_kind r = ''session''"
    by (simp_all add: r_def issue_session_def Let_def)
  have iss: "issued empty_db (Session_Op ''u1'' ''now'' ''ann'') = Some r" by (simp add: r_def)
  have fresh: "list_all (\<lambda>p. \<not> draws_token (tr_token r) p) busy" "list_all (\<lambda>p. \<not> draws_token (tr_token r) p) (busy @ leave)"
    by (simp_all add: busy_def leave_def r)
  have "Revoke_Op ''ann'' ''ph_u1'' \<notin> set busy" "Revoke_Op ''ann'' ''ph_u1'' \<in> set (busy @ leave)"
    by (simp_all add: busy_def leave_def)
  then have "auth_user (fold (auth_step A) (Session_Op ''u1'' ''now'' ''ann'' # busy) empty_db) (Some ''Bearer ph_u1'') = Inr r"
    "auth_user (fold (auth_step A) (Session_Op ''u1'' ''now'' ''ann'' # busy @ leave) empty_db) (Some ''Bearer ph_u1'') = Inl 401"
    using token_lifecycle [OF iss fresh(1), of A] token_lifecycle [OF iss fresh(2), of A] by (simp_all add: r(1))
  with r show ?thesis unfolding Let_def A_def [symmetric] busy_def [symmetric] leave_def [symmetric] by blast
qed

text \<open>
  Registration: a new user can log in with the password it registered and is stored under its own
  name; an existing account, an empty name or an empty password is refused, and a refused
  registration changes nothing.
\<close>

theorem register_then_login:
  assumes "argon2_correct A"
  shows "(case register A salt now user pw db of
      (db1, Inr r) \<Rightarrow> map_of (users db) user = None \<and> verify_password A user pw db1 = Inr () \<and>
         username r = user \<and> tokens db1 = tokens db \<and>
         (\<forall>u. u \<noteq> user \<longrightarrow> verify_password A u p db1 = verify_password A u p db) \<and>
         snd (register A salt' now' user pw' db1) \<noteq> Inr r'
    | (db1, Inl e) \<Rightarrow> db1 = db)"
  using assms
  by (auto simp: register_def verify_password_def argon2_correct_def Let_def split: option.splits)

lemma register_then_login_witness:
  "verify_password \<lparr>hash_with = (\<lambda>p s. Some (s @ p)), verify_hash = (\<lambda>p h. True)\<rparr> ''ann'' ''pw''
     (fst (register \<lparr>hash_with = (\<lambda>p s. Some (s @ p)), verify_hash = (\<lambda>p h. True)\<rparr> ''salt'' ''now'' ''ann'' ''pw'' empty_db)) = Inr ()"
  using register_then_login [of "\<lparr>hash_with = (\<lambda>p s. Some (s @ p)), verify_hash = (\<lambda>p h. True)\<rparr>",
      where salt = "''salt''" and now = "''now''" and user = "''ann''" and pw = "''pw''" and db = empty_db]
  by (simp add: argon2_correct_def register_def empty_db_def Let_def split: prod.splits sum.splits)

end
