(* ===== verification/Server.thy ===== *)
theory Server
  imports Users
begin

text \<open>
  The untrusted host: membership files (\<^verbatim>\<open>safehub-server/src/browse.rs\<close>) and the HTTP handlers of
  \<^verbatim>\<open>safehub-server/src/routes.rs\<close> for accounts, repositories, blobs, heads, MLS delivery, key log,
  key packages and collaborators.  A handler maps the server state and its decoded arguments to the
  new state and either an error status or the response; error bodies are left out.  The
  authenticated user is the token record of the extractor.
\<close>

section \<open>State\<close>

record member_entry =
  me_user :: string
  me_history :: string
  me_invited_at :: string

record repo_members =
  rm_owner :: string
  rm_members :: "member_entry list"

record server_state =
  sv_store :: local_store
  sv_auth :: auth_db
  sv_members :: "(string \<times> string) \<Rightarrow> repo_members option"

definition server_open :: server_state where
  "server_open = \<lparr>sv_store = store_open, sv_auth = empty_db, sv_members = (\<lambda>_. None)\<rparr>"

definition load_members :: "string \<Rightarrow> string \<Rightarrow> string \<Rightarrow> server_state \<Rightarrow> repo_members" where
  "load_members now own nm sv =
     (case sv_members sv (own, nm) of
        None \<Rightarrow> \<lparr>rm_owner = own, rm_members = [\<lparr>me_user = own, me_history = ''full'', me_invited_at = now\<rparr>]\<rparr>
      | Some m \<Rightarrow> m)"

definition save_members :: "string \<Rightarrow> string \<Rightarrow> repo_members \<Rightarrow> server_state \<Rightarrow> server_state" where
  "save_members own nm m sv = sv\<lparr>sv_members := (sv_members sv)((own, nm) := Some m)\<rparr>"

definition is_member :: "repo_members \<Rightarrow> string \<Rightarrow> bool" where
  "is_member m user \<longleftrightarrow> rm_owner m = user \<or> list_ex (\<lambda>e. me_user e = user) (rm_members m)"

type_synonym 'a response = "nat + 'a"

definition require_member :: "server_state \<Rightarrow> string \<Rightarrow> string \<Rightarrow> string \<Rightarrow> unit response" where
  "require_member sv user own nm =
     (if is_member (load_members [] own nm sv) user then Inr () else Inl 403)"

definition require_repo_id_member :: "server_state \<Rightarrow> token_record \<Rightarrow> repo_id \<Rightarrow> unit response" where
  "require_repo_id_member sv au repo =
     (case get_by_id repo (sv_store sv) of
        None \<Rightarrow> Inl 404
      | Some r \<Rightarrow> require_member sv (tr_user au) (rn_owner (rr_name r)) (rn_name (rr_name r)))"

definition parse_repo_id :: "hex_codec \<Rightarrow> string \<Rightarrow> repo_id response" where
  "parse_repo_id X s = (case repo_id_from_hex X s of Inl _ \<Rightarrow> Inl 400 | Inr r \<Rightarrow> Inr r)"

definition auth_status :: "auth_error \<Rightarrow> nat" where
  "auth_status e =
     (case e of BadRequest _ \<Rightarrow> 400 | Unauthorized \<Rightarrow> 401 | Conflict _ \<Rightarrow> 409 | AuthNotFound \<Rightarrow> 404 | HashFailed \<Rightarrow> 500)"

section \<open>Accounts\<close>

definition post_register ::
    "argon2 \<Rightarrow> string \<Rightarrow> string \<Rightarrow> string \<Rightarrow> string \<Rightarrow> string \<Rightarrow> server_state \<Rightarrow> server_state \<times> string response" where
  "post_register A salt uuid now user pw sv =
     (case register A salt now user pw (sv_auth sv) of
        (db, Inl e) \<Rightarrow> (sv\<lparr>sv_auth := db\<rparr>, Inl (auth_status e))
      | (db, Inr _) \<Rightarrow>
          (let (db', tok) = issue_session uuid now user db
           in (sv\<lparr>sv_auth := db'\<rparr>, Inr (tr_token tok))))"

definition post_login ::
    "argon2 \<Rightarrow> string \<Rightarrow> string \<Rightarrow> string \<Rightarrow> string \<Rightarrow> server_state \<Rightarrow> server_state \<times> string response" where
  "post_login A uuid now user secret sv =
     (if user = [] \<or> secret = [] then (sv, Inl 400)
      else case verify_password A user secret (sv_auth sv) of
        Inl _ \<Rightarrow> (sv, Inl 401)
      | Inr _ \<Rightarrow>
          (let (db', tok) = issue_session uuid now user (sv_auth sv)
           in (sv\<lparr>sv_auth := db'\<rparr>, Inr (tr_token tok))))"

definition post_token ::
    "string \<Rightarrow> string \<Rightarrow> token_record \<Rightarrow> string \<Rightarrow> string list \<Rightarrow> server_state \<Rightarrow> server_state \<times> token_public response" where
  "post_token uuid now au note scopes sv =
     (case create_pat uuid now (tr_user au) note scopes (sv_auth sv) of
        (db, Inl e) \<Rightarrow> (sv\<lparr>sv_auth := db\<rparr>, Inl (auth_status e))
      | (db, Inr r) \<Rightarrow> (sv\<lparr>sv_auth := db\<rparr>, Inr (token_from_create r)))"

definition get_tokens :: "token_record \<Rightarrow> server_state \<Rightarrow> token_public list response" where
  "get_tokens au sv = Inr (list_pats (tr_user au) (sv_auth sv))"

definition delete_token :: "token_record \<Rightarrow> string \<Rightarrow> server_state \<Rightarrow> server_state \<times> unit response" where
  "delete_token au t sv =
     (case revoke_token (tr_user au) t (sv_auth sv) of
        (db, Inl e) \<Rightarrow> (sv\<lparr>sv_auth := db\<rparr>, Inl (auth_status e))
      | (db, Inr _) \<Rightarrow> (sv\<lparr>sv_auth := db\<rparr>, Inr ()))"

section \<open>Repositories\<close>

definition list_repos :: "token_record \<Rightarrow> server_state \<Rightarrow> repo_record list response" where
  "list_repos au sv =
     Inr (fold (\<lambda>r repos.
            if rn_owner (rr_name r) = tr_user au then repos
            else if is_member (load_members [] (rn_owner (rr_name r)) (rn_name (rr_name r)) sv) (tr_user au) \<and>
                    \<not> list_ex (\<lambda>x. rr_id x = rr_id r) repos
            then repos @ [r] else repos)
          (list_all_repos (sv_store sv)) (list_for_user (tr_user au) (sv_store sv)))"

definition create_repo ::
    "bytes \<Rightarrow> string \<Rightarrow> token_record \<Rightarrow> string \<Rightarrow> bool \<Rightarrow> string option \<Rightarrow> server_state \<Rightarrow> server_state \<times> repo_record response" where
  "create_repo rng now au nm priv descr sv =
     (let r = \<lparr>rr_id = fix_len 32 rng, rr_name = \<lparr>rn_owner = tr_user au, rn_name = nm\<rparr>, rr_created_by = tr_user au,
               rr_private = priv, rr_archived = False, rr_deleted = False, rr_description = descr\<rparr>
      in case repo_create r (sv_store sv) of
           (_, Inl _) \<Rightarrow> (sv, Inl 409)
         | (st, Inr _) \<Rightarrow>
             (save_members (tr_user au) nm
                \<lparr>rm_owner = tr_user au,
                 rm_members = [\<lparr>me_user = tr_user au, me_history = ''full'', me_invited_at = now\<rparr>]\<rparr>
                (sv\<lparr>sv_store := st\<rparr>), Inr r))"

definition get_repo :: "token_record \<Rightarrow> string \<Rightarrow> string \<Rightarrow> server_state \<Rightarrow> repo_record response" where
  "get_repo au own nm sv =
     (case get_by_name own nm (sv_store sv) of
        Some r \<Rightarrow> if rr_deleted r then Inl 404
                 else rbind (require_member sv (tr_user au) own nm) (\<lambda>_. Inr r)
      | None \<Rightarrow> Inl 404)"

definition patch_repo ::
    "token_record \<Rightarrow> string \<Rightarrow> string \<Rightarrow> bool option \<Rightarrow> string option \<Rightarrow> server_state \<Rightarrow> server_state \<times> repo_record response" where
  "patch_repo au own nm arch descr sv =
     (case require_member sv (tr_user au) own nm of
        Inl s \<Rightarrow> (sv, Inl s)
      | Inr _ \<Rightarrow>
          if tr_user au \<noteq> own then (sv, Inl 403)
          else case get_by_name own nm (sv_store sv) of
            None \<Rightarrow> (sv, Inl 404)
          | Some r \<Rightarrow>
              if rr_deleted r then (sv, Inl 404)
              else
                let r1 = (case arch of Some a \<Rightarrow> r\<lparr>rr_archived := a\<rparr> | None \<Rightarrow> r);
                    r2 = (case descr of Some d \<Rightarrow> r1\<lparr>rr_description := Some d\<rparr> | None \<Rightarrow> r1)
                in case repo_update r2 (sv_store sv) of
                     (_, Inl _) \<Rightarrow> (sv, Inl 500)
                   | (st, Inr _) \<Rightarrow> (sv\<lparr>sv_store := st\<rparr>, Inr r2))"

definition delete_repo :: "token_record \<Rightarrow> string \<Rightarrow> string \<Rightarrow> server_state \<Rightarrow> server_state \<times> unit response" where
  "delete_repo au own nm sv =
     (case require_member sv (tr_user au) own nm of
        Inl s \<Rightarrow> (sv, Inl s)
      | Inr _ \<Rightarrow>
          if tr_user au \<noteq> own then (sv, Inl 403)
          else case get_by_name own nm (sv_store sv) of
            None \<Rightarrow> (sv, Inl 404)
          | Some r \<Rightarrow>
              (case repo_update (r\<lparr>rr_deleted := True, rr_archived := True\<rparr>) (sv_store sv) of
                 (_, Inl _) \<Rightarrow> (sv, Inl 500)
               | (st, Inr _) \<Rightarrow> (sv\<lparr>sv_store := st\<rparr>, Inr ())))"

section \<open>Ciphertext routes\<close>

text \<open>The parsers the blob upload uses: header metadata, the legacy JSON body, base64.\<close>

record blob_parsers =
  parse_meta :: "string \<Rightarrow> blob_meta option"
  parse_put_request :: "bytes \<Rightarrow> (blob_meta \<times> string) option"
  b64_decode :: "string \<Rightarrow> bytes option"

definition decode_put :: "blob_parsers \<Rightarrow> string \<Rightarrow> string option \<Rightarrow> bytes \<Rightarrow> (blob_meta \<times> bytes) response" where
  "decode_put B content_type meta_hdr body =
     (if starts_with ''application/octet-stream'' content_type
      then (case meta_hdr of
              None \<Rightarrow> Inl 400
            | Some h \<Rightarrow> (case parse_meta B h of None \<Rightarrow> Inl 400 | Some m \<Rightarrow> Inr (m, body)))
      else (case parse_put_request B body of
              None \<Rightarrow> Inl 400
            | Some (m, b64) \<Rightarrow> (case b64_decode B b64 of None \<Rightarrow> Inl 400 | Some ct \<Rightarrow> Inr (m, ct))))"

definition put_blob ::
    "prims \<Rightarrow> hex_codec \<Rightarrow> blob_parsers \<Rightarrow> token_record \<Rightarrow> string \<Rightarrow> string \<Rightarrow> string option \<Rightarrow> bytes \<Rightarrow>
     server_state \<Rightarrow> server_state \<times> blob_id response" where
  "put_blob P X B au repo_id_s content_type meta_hdr body sv =
     (case rbind (parse_repo_id X repo_id_s) (\<lambda>repo.
           rbind (require_repo_id_member sv au repo) (\<lambda>_. decode_put B content_type meta_hdr body)) of
        Inl s \<Rightarrow> (sv, Inl s)
      | Inr (m, ct) \<Rightarrow>
          (let (st, i) = blob_put P m ct (sv_store sv) in (sv\<lparr>sv_store := st\<rparr>, Inr i)))"

definition get_blob :: "hex_codec \<Rightarrow> token_record \<Rightarrow> string \<Rightarrow> string \<Rightarrow> server_state \<Rightarrow> bytes response" where
  "get_blob X au repo_id_s blob_id_s sv =
     rbind (parse_repo_id X repo_id_s) (\<lambda>repo.
     rbind (require_repo_id_member sv au repo) (\<lambda>_.
       case blob_id_from_hex X blob_id_s of
         Inl _ \<Rightarrow> Inl 400
       | Inr i \<Rightarrow> (case blob_get i (sv_store sv) of Inl _ \<Rightarrow> Inl 404 | Inr b \<Rightarrow> Inr b)))"

definition head_tip :: "head_json \<Rightarrow> hex_codec \<Rightarrow> token_record \<Rightarrow> string \<Rightarrow> server_state \<Rightarrow> ref_head response" where
  "head_tip J X au repo_id_s sv =
     rbind (parse_repo_id X repo_id_s) (\<lambda>repo.
     rbind (require_repo_id_member sv au repo) (\<lambda>_.
       case tip J repo (sv_store sv) of
         Inr (Some h) \<Rightarrow> Inr h | Inr None \<Rightarrow> Inl 404 | Inl _ \<Rightarrow> Inl 500))"

definition append_head ::
    "prims \<Rightarrow> head_json \<Rightarrow> hex_codec \<Rightarrow> token_record \<Rightarrow> string \<Rightarrow> ref_head \<Rightarrow> server_state \<Rightarrow> server_state \<times> head_hash response" where
  "append_head P J X au repo_id_s h sv =
     (case rbind (parse_repo_id X repo_id_s) (\<lambda>repo.
           rbind (require_repo_id_member sv au repo) (\<lambda>_.
             if repo_id h \<noteq> repo then Inl 400 else Inr ())) of
        Inl s \<Rightarrow> (sv, Inl s)
      | Inr _ \<Rightarrow>
          (case cas_append P J h (sv_store sv) of
             (st, Inr hash) \<Rightarrow> (sv\<lparr>sv_store := st\<rparr>, Inr hash)
           | (st, Inl (CasConflict _)) \<Rightarrow> (sv\<lparr>sv_store := st\<rparr>, Inl 409)
           | (st, Inl _) \<Rightarrow> (sv\<lparr>sv_store := st\<rparr>, Inl 400)))"

definition MAX_HEADS_PAGE :: nat where "MAX_HEADS_PAGE = 1000"
definition default_limit :: nat where "default_limit = 100"

definition heads_since ::
    "head_json \<Rightarrow> hex_codec \<Rightarrow> token_record \<Rightarrow> string \<Rightarrow> u64 \<Rightarrow> nat \<Rightarrow> server_state \<Rightarrow> ref_head list response" where
  "heads_since J X au repo_id_s after limit sv =
     rbind (parse_repo_id X repo_id_s) (\<lambda>repo.
     rbind (require_repo_id_member sv au repo) (\<lambda>_.
       case since J repo after (sv_store sv) of
         Inl _ \<Rightarrow> Inl 500
       | Inr hs \<Rightarrow> Inr (take (min (max limit 1) MAX_HEADS_PAGE) hs)))"

definition mls_enqueue ::
    "hex_codec \<Rightarrow> token_record \<Rightarrow> string \<Rightarrow> bytes \<Rightarrow> string option \<Rightarrow> server_state \<Rightarrow> server_state \<times> u64 response" where
  "mls_enqueue X au repo_id_s payload hint sv =
     (case rbind (parse_repo_id X repo_id_s) (\<lambda>repo. rbind (require_repo_id_member sv au repo) (\<lambda>_. Inr repo)) of
        Inl s \<Rightarrow> (sv, Inl s)
      | Inr repo \<Rightarrow>
          (let (st, n) = enqueue \<lparr>env_repo_id = repo, env_seq = 0, env_payload = payload, env_sender_hint = hint\<rparr> (sv_store sv)
           in (sv\<lparr>sv_store := st\<rparr>, Inr n)))"

definition mls_fetch ::
    "hex_codec \<Rightarrow> token_record \<Rightarrow> string \<Rightarrow> u64 \<Rightarrow> nat \<Rightarrow> server_state \<Rightarrow> mls_envelope list response" where
  "mls_fetch X au repo_id_s after limit sv =
     rbind (parse_repo_id X repo_id_s) (\<lambda>repo.
     rbind (require_repo_id_member sv au repo) (\<lambda>_. Inr (fetch repo after limit (sv_store sv))))"

definition append_keylog ::
    "hex_codec \<Rightarrow> token_record \<Rightarrow> string \<Rightarrow> key_log_entry \<Rightarrow> server_state \<Rightarrow> server_state \<times> unit response" where
  "append_keylog X au repo_id_s e sv =
     (case rbind (parse_repo_id X repo_id_s) (\<lambda>repo. rbind (require_repo_id_member sv au repo) (\<lambda>_. Inr repo)) of
        Inl s \<Rightarrow> (sv, Inl s)
      | Inr repo \<Rightarrow> (sv\<lparr>sv_store := append_key_log repo e (sv_store sv)\<rparr>, Inr ()))"

section \<open>Key packages and collaborators\<close>

definition put_key_package_route ::
    "token_record \<Rightarrow> string \<Rightarrow> key_package_record \<Rightarrow> server_state \<Rightarrow> server_state \<times> unit response" where
  "put_key_package_route au path_user r sv =
     (if tr_user au \<noteq> path_user then (sv, Inl 403)
      else let r' = r\<lparr>kpr_user := tr_user au\<rparr>
           in if kpr_key_package r' = [] then (sv, Inl 400)
              else (sv\<lparr>sv_store := put_key_package r' (sv_store sv)\<rparr>, Inr ()))"

definition list_key_packages_route :: "token_record \<Rightarrow> string \<Rightarrow> server_state \<Rightarrow> key_package_record list response" where
  "list_key_packages_route au path_user sv = Inr (list_key_packages path_user (sv_store sv))"

definition list_collabs :: "token_record \<Rightarrow> string \<Rightarrow> string \<Rightarrow> server_state \<Rightarrow> repo_members response" where
  "list_collabs au own nm sv =
     rbind (require_member sv (tr_user au) own nm) (\<lambda>_. Inr (load_members [] own nm sv))"

definition invite_collab ::
    "string \<Rightarrow> token_record \<Rightarrow> string \<Rightarrow> string \<Rightarrow> string \<Rightarrow> string \<Rightarrow> server_state \<Rightarrow> server_state \<times> repo_members response" where
  "invite_collab now au own nm invitee hist sv =
     (case require_member sv (tr_user au) own nm of
        Inl s \<Rightarrow> (sv, Inl s)
      | Inr _ \<Rightarrow>
          if tr_user au \<noteq> own then (sv, Inl 403)
          else
            let history = (if hist = ''forward_only'' \<or> hist = ''forward-only'' then ''forward_only'' else ''full'');
                m = load_members now own nm sv;
                m' = (if \<not> list_ex (\<lambda>e. me_user e = invitee) (rm_members m)
                      then m\<lparr>rm_members := rm_members m @ [\<lparr>me_user = invitee, me_history = history, me_invited_at = now\<rparr>]\<rparr>
                      else m)
            in (save_members own nm m' sv, Inr m'))"

definition remove_collab ::
    "string \<Rightarrow> token_record \<Rightarrow> string \<Rightarrow> string \<Rightarrow> string \<Rightarrow> server_state \<Rightarrow> server_state \<times> unit response" where
  "remove_collab now au own nm target sv =
     (case require_member sv (tr_user au) own nm of
        Inl s \<Rightarrow> (sv, Inl s)
      | Inr _ \<Rightarrow>
          if tr_user au \<noteq> own then (sv, Inl 403)
          else
            let m = load_members now own nm sv;
                m' = m\<lparr>rm_members := filter (\<lambda>e. me_user e \<noteq> target) (rm_members m)\<rparr>
            in (save_members own nm m' sv, Inr ()))"

section \<open>The membership gate\<close>

text \<open>The gate all ciphertext routes share: the repository id parses, exists, and admits the caller.\<close>

definition gate :: "hex_codec \<Rightarrow> token_record \<Rightarrow> string \<Rightarrow> server_state \<Rightarrow> repo_id response" where
  "gate X au repo_id_s sv =
     rbind (parse_repo_id X repo_id_s) (\<lambda>repo. rbind (require_repo_id_member sv au repo) (\<lambda>_. Inr repo))"

definition access :: "string \<Rightarrow> string \<Rightarrow> server_state \<Rightarrow> string set" where
  "access own nm sv =
     (case sv_members sv (own, nm) of
        None \<Rightarrow> {own}
      | Some m \<Rightarrow> insert (rm_owner m) (me_user ` set (rm_members m)))"

lemma is_member_access: "is_member (load_members now own nm sv) u \<longleftrightarrow> u \<in> access own nm sv"
  by (auto simp: is_member_def load_members_def access_def list_ex_iff split: option.splits)

lemma require_member_access: "require_member sv u own nm = (if u \<in> access own nm sv then Inr () else Inl 403)"
  by (simp add: require_member_def is_member_access)

lemma gate_exact:
  "gate X au rid sv =
     (case repo_id_from_hex X rid of
        Inl _ \<Rightarrow> Inl 400
      | Inr repo \<Rightarrow>
          (case repos_by_id (sv_store sv) repo of
             None \<Rightarrow> Inl 404
           | Some r \<Rightarrow> if tr_user au \<in> access (rn_owner (rr_name r)) (rn_name (rr_name r)) sv
                      then Inr repo else Inl 403))"
  by (simp add: gate_def parse_repo_id_def require_repo_id_member_def get_by_id_def require_member_access
      split: sum.splits option.splits)

lemma gate_cases:
  "rbind (parse_repo_id X rid) (\<lambda>repo. rbind (require_repo_id_member sv au repo) (f repo)) =
     (case gate X au rid sv of Inl s \<Rightarrow> Inl s | Inr repo \<Rightarrow> f repo ())"
  by (cases "parse_repo_id X rid"; simp add: gate_def)
    (cases "require_repo_id_member sv au (projr (parse_repo_id X rid))"; simp)

lemmas route_defs = put_blob_def get_blob_def head_tip_def append_head_def heads_since_def
  mls_enqueue_def mls_fetch_def append_keylog_def

text \<open>What the gate refuses, each of the eight routes refuses with the same status, changing nothing.\<close>

lemma gated_routes_refuse:
  assumes "gate X au rid sv = Inl e"
  shows "put_blob P X B au rid ct mh body sv = (sv, Inl e)" "get_blob X au rid bid sv = Inl e"
    "head_tip J X au rid sv = Inl e" "append_head P J X au rid h sv = (sv, Inl e)"
    "heads_since J X au rid after limit sv = Inl e" "mls_enqueue X au rid payload hint sv = (sv, Inl e)"
    "mls_fetch X au rid after limit sv = Inl e" "append_keylog X au rid entry sv = (sv, Inl e)"
  using assms by (simp_all add: route_defs gate_cases)

text \<open>The routes keyed by owner and name, for a caller without access.\<close>

lemma named_routes_refuse:
  assumes "tr_user au \<notin> access own nm sv"
  shows "get_repo au own nm sv =
      (case get_by_name own nm (sv_store sv) of None \<Rightarrow> Inl 404 | Some r \<Rightarrow> Inl (if rr_deleted r then 404 else 403))"
    "patch_repo au own nm arch descr sv = (sv, Inl 403)" "delete_repo au own nm sv = (sv, Inl 403)"
    "list_collabs au own nm sv = Inl 403" "invite_collab now au own nm invitee hist sv = (sv, Inl 403)"
    "remove_collab now au own nm target sv = (sv, Inl 403)"
  using assms
  by (simp_all add: get_repo_def patch_repo_def delete_repo_def list_collabs_def invite_collab_def remove_collab_def
      require_member_access split: option.split)

text \<open>
  Appending a head over HTTP: for a member, on a store that holds the log \<open>l\<close>, the handler answers
  400 when the body names another repository, 409 when the head does not build on the tip, 400 when
  its position is wrong, and otherwise stores the log with the head at the end and answers its hash;
  every error leaves the server as it was.
\<close>

theorem append_head_exact:
  assumes "gate X au rid sv = Inr repo" and "head_log_inv P repo (sv_store sv) l" and "length l + 1 < 2 ^ 64"
    and "head_wf h" and "opaque_ok h"
  defines "prev \<equiv> if l = [] then head_hash_zero else ref_head_hash P (last l)"
  shows "append_head P J X au rid h sv =
    (if repo_id h \<noteq> repo then (sv, Inl 400)
     else if prev_head_hash h \<noteq> prev then (sv, Inl 409)
     else if seq h \<noteq> of_nat (length l) + 1 then (sv, Inl 400)
     else (sv\<lparr>sv_store := cas_write_tip h (cas_write_log h (sv_store sv))\<rparr>, Inr (ref_head_hash P h))) \<and>
    (repo_id h = repo \<longrightarrow> prev_head_hash h = prev \<longrightarrow> seq h = of_nat (length l) + 1 \<longrightarrow>
       head_log_inv P repo (cas_write_tip h (cas_write_log h (sv_store sv))) (l @ [h]))"
proof (cases "repo_id h = repo")
  case False
  then show ?thesis by (simp add: append_head_def gate_cases assms(1))
next
  case True
  then have st: "storable repo h" using assms(4,5) by (simp add: storable_def)
  note conflict = cas_append_conflict [OF assms(2) st, of J]
    and wrong = cas_append_seq_error [OF assms(2) st, of J]
    and ok = cas_check_ok [OF assms(2) st, of J]
    and inv = cas_append_inv [OF assms(2) st _ _ assms(3), of J]
  have sv: "sv\<lparr>sv_store := sv_store sv\<rparr> = sv" by simp
  consider "prev_head_hash h \<noteq> prev" | "prev_head_hash h = prev" "seq h \<noteq> of_nat (length l) + 1"
    | "prev_head_hash h = prev" "seq h = of_nat (length l) + 1" by blast
  then show ?thesis
  proof cases
    case 1
    then show ?thesis using True conflict by (simp add: append_head_def gate_cases assms(1) prev_def)
  next
    case 2
    then show ?thesis using True wrong by (simp add: append_head_def gate_cases assms(1) prev_def)
  next
    case 3
    then show ?thesis
      using True ok inv by (simp add: append_head_def gate_cases assms(1) prev_def cas_append_def)
  qed
qed

section \<open>Membership\<close>

datatype collab_op = Invite token_record string string | Remove token_record string

fun collab_step :: "string \<Rightarrow> string \<Rightarrow> collab_op \<Rightarrow> server_state \<Rightarrow> server_state" where
  "collab_step own nm (Invite au u hist) sv = fst (invite_collab [] au own nm u hist sv)"
| "collab_step own nm (Remove au u) sv = fst (remove_collab [] au own nm u sv)"

text \<open>What the access list promises: only the owner's requests count, and the owner always stays.\<close>

fun access_step :: "string \<Rightarrow> collab_op \<Rightarrow> string set \<Rightarrow> string set" where
  "access_step own (Invite au u hist) S = (if tr_user au = own then insert u S else S)"
| "access_step own (Remove au u) S = (if tr_user au = own then insert own (S - {u}) else S)"

definition members_inv :: "server_state \<Rightarrow> bool" where
  "members_inv sv \<longleftrightarrow> (\<forall>own nm m. sv_members sv (own, nm) = Some m \<longrightarrow> rm_owner m = own)"

lemma owner_access: "members_inv sv \<Longrightarrow> own \<in> access own nm sv"
  by (auto simp: access_def members_inv_def split: option.splits)

lemma members_inv_open: "members_inv server_open"
  by (simp add: members_inv_def server_open_def)

lemma members_inv_create: "members_inv sv \<Longrightarrow> members_inv (fst (create_repo rng now au nm priv descr sv))"
  by (auto simp: create_repo_def members_inv_def save_members_def repo_create_def Let_def split: prod.splits sum.splits)

lemma collab_step_refines:
  assumes "members_inv sv"
  shows "members_inv (collab_step own nm opn sv)"
    and "access own nm (collab_step own nm opn sv) = access_step own opn (access own nm sv)"
    and "(own', nm') \<noteq> (own, nm) \<Longrightarrow> access own' nm' (collab_step own nm opn sv) = access own' nm' sv"
proof -
  note own = owner_access [OF assms, of own nm]
  have owner: "rm_owner m = own" if "sv_members sv (own, nm) = Some m" for m
    using assms that by (simp add: members_inv_def)
  show "members_inv (collab_step own nm opn sv)"
    using assms by (cases opn) (auto simp: invite_collab_def remove_collab_def require_member_access
      members_inv_def save_members_def load_members_def Let_def split: option.splits)
  show "access own nm (collab_step own nm opn sv) = access_step own opn (access own nm sv)"
    using own owner by (cases opn) (auto simp: invite_collab_def remove_collab_def require_member_access
      save_members_def load_members_def Let_def access_def list_ex_iff split: option.splits)
  show "access own' nm' (collab_step own nm opn sv) = access own' nm' sv" if "(own', nm') \<noteq> (own, nm)"
    using that by (cases opn) (auto simp: invite_collab_def remove_collab_def require_member_access
      save_members_def Let_def access_def)
qed


section \<open>A demonstration server\<close>

definition demo_auth :: "string \<Rightarrow> token_record" where
  "demo_auth u = \<lparr>tr_token = ''ph_'' @ u, tr_user = u, tr_note = [], tr_scopes = [SCOPE_REPO], tr_kind = ''session'', tr_created_at = []\<rparr>"

definition demo_rid :: string where "demo_rid = replicate 32 (CHR 0x01)"

definition demo_server :: server_state where
  "demo_server = fst (create_repo (replicate 32 1) [] (demo_auth ''ann'') ''r'' True None server_open)"

lemma demo_rid_parses: "repo_id_from_hex demo_hex demo_rid = Inr (replicate 32 1)"
  by (simp add: repo_id_from_hex_def id_from_hex_def demo_hex_def demo_rid_def)

lemma demo_server_repo:
  "\<exists>r. repos_by_id (sv_store demo_server) (replicate 32 1) = Some r \<and> rn_owner (rr_name r) = ''ann'' \<and> rn_name (rr_name r) = ''r''"
  by (simp add: demo_server_def create_repo_def repo_create_def server_open_def store_open_def demo_auth_def
      save_members_def fix_len_def Let_def)

lemma demo_server_inv: "members_inv demo_server"
  unfolding demo_server_def by (rule members_inv_create) (rule members_inv_open)

lemma demo_server_access: "access ''ann'' ''r'' demo_server = {''ann''}"
  by (simp add: demo_server_def create_repo_def repo_create_def server_open_def store_open_def demo_auth_def
      save_members_def access_def Let_def)

lemma demo_gate: "gate demo_hex (demo_auth ''ann'') demo_rid demo_server = Inr (replicate 32 1)"
  using demo_server_repo by (auto simp: gate_exact demo_rid_parses demo_server_access demo_auth_def)

lemma demo_server_log: "head_log_inv P repo (sv_store demo_server) []"
  by (simp add: demo_server_def create_repo_def repo_create_def server_open_def store_open_def
      save_members_def head_log_inv_def log_shape_def Let_def)

lemma append_head_exact_witness:
  "snd (append_head demo_prims (\<lambda>_. None) demo_hex (demo_auth ''ann'') demo_rid demo_head demo_server)
     = Inr (ref_head_hash demo_prims demo_head)"
proof -
  have "head_wf demo_head" "opaque_ok demo_head" "repo_id demo_head = replicate 32 1"
    using storable_demo by (simp_all add: storable_def)
  moreover have "prev_head_hash demo_head = head_hash_zero" "seq demo_head = 1" by (simp_all add: demo_head_def)
  ultimately show ?thesis
    using append_head_exact [OF demo_gate demo_server_log, of demo_head] by simp
qed


section \<open>What the gate does not look at\<close>

definition repos_inv :: "local_store \<Rightarrow> bool" where
  "repos_inv st \<longleftrightarrow> (\<forall>n r. map_of (repos st) n = Some r \<longrightarrow> rr_name r = n \<and>
     (\<exists>r'. repos_by_id st (rr_id r) = Some r' \<and> rr_name r' = n))"

lemma repos_inv_demo: "repos_inv (sv_store demo_server)"
  by (simp add: repos_inv_def demo_server_def create_repo_def repo_create_def server_open_def store_open_def
      save_members_def Let_def)

lemma cas_append_heads_only:
  "heads st = heads st' \<Longrightarrow> snd (cas_append P J h st) = snd (cas_append P J h st')"
  by (simp add: cas_append_def cas_check_def tip_def Let_def split: sum.splits)

lemma append_head_answer:
  "snd (append_head P J X au rid h sv) =
     (case gate X au rid sv of
        Inl s \<Rightarrow> Inl s
      | Inr repo \<Rightarrow>
          if repo_id h \<noteq> repo then Inl 400
          else case snd (cas_append P J h (sv_store sv)) of
            Inr hash \<Rightarrow> Inr hash | Inl (CasConflict _) \<Rightarrow> Inl 409 | Inl _ \<Rightarrow> Inl 400)"
  by (cases "cas_append P J h (sv_store sv)")
    (auto simp: append_head_def gate_cases split: sum.splits storage_error.splits)

text \<open>
  Deleting a repository does not close it: after the owner deleted it, looking it up by name
  answers 404, but its id still passes the gate for every member, and appending a head gets exactly
  the answer it got before.
\<close>

theorem deleted_repo_still_writable:
  assumes "repos_inv (sv_store sv)" and "delete_repo au own nm sv = (sv1, Inr ())"
  shows "get_repo au own nm sv1 = Inl 404 \<and> gate X au' rid sv1 = gate X au' rid sv \<and>
    snd (append_head P J X au' rid h sv1) = snd (append_head P J X au' rid h sv)"
proof -
  obtain r where r: "map_of (repos (sv_store sv)) \<lparr>rn_owner = own, rn_name = nm\<rparr> = Some r"
    using assms(2) by (auto simp: delete_repo_def get_by_name_def split: if_splits sum.splits option.splits)
  obtain r' where name: "rr_name r = \<lparr>rn_owner = own, rn_name = nm\<rparr>"
    and r': "repos_by_id (sv_store sv) (rr_id r) = Some r'" "rr_name r' = rr_name r"
    using assms(1) r by (auto simp: repos_inv_def)
  let ?d = "r\<lparr>rr_deleted := True, rr_archived := True\<rparr>"
  have sv1: "sv1 = sv\<lparr>sv_store := sv_store sv\<lparr>repos := dir_write (rr_name r) ?d (repos (sv_store sv)),
      repos_by_id := (repos_by_id (sv_store sv))(rr_id r := Some ?d)\<rparr>\<rparr>"
    using assms(2) r by (auto simp: delete_repo_def get_by_name_def repo_update_def name split: if_splits sum.splits)
  have gate: "gate X au' rid sv1 = gate X au' rid sv"
    using r' by (auto simp: gate_exact sv1 access_def split: sum.splits option.splits)
  have "snd (cas_append P J h (sv_store sv1)) = snd (cas_append P J h (sv_store sv))"
    by (rule cas_append_heads_only) (simp add: sv1)
  then have "snd (append_head P J X au' rid h sv1) = snd (append_head P J X au' rid h sv)"
    by (simp add: append_head_answer gate split: sum.split)
  moreover have "get_repo au own nm sv1 = Inl 404"
    by (simp add: get_repo_def get_by_name_def sv1 name)
  ultimately show ?thesis using gate by simp
qed

lemma deleted_repo_still_writable_witness:
  "let sv1 = fst (delete_repo (demo_auth ''ann'') ''ann'' ''r'' demo_server)
   in get_repo (demo_auth ''ann'') ''ann'' ''r'' sv1 = Inl 404 \<and> gate demo_hex (demo_auth ''ann'') demo_rid sv1 = Inr (replicate 32 1)"
proof -
  let ?d = "delete_repo (demo_auth ''ann'') ''ann'' ''r'' demo_server"
  have "require_member demo_server ''ann'' ''ann'' ''r'' = Inr ()"
    by (simp add: require_member_access demo_server_access)
  moreover have "\<exists>r. map_of (repos (sv_store demo_server)) \<lparr>rn_owner = ''ann'', rn_name = ''r''\<rparr> = Some r \<and>
      rr_name r = \<lparr>rn_owner = ''ann'', rn_name = ''r''\<rparr>"
    by (simp add: demo_server_def create_repo_def repo_create_def server_open_def store_open_def demo_auth_def
        save_members_def Let_def)
  ultimately have "?d = (fst ?d, Inr ())"
    by (auto simp: delete_repo_def demo_auth_def get_by_name_def repo_update_def)
  from deleted_repo_still_writable [OF repos_inv_demo this] show ?thesis
    by (simp add: Let_def demo_gate)
qed

text \<open>
  Blob reads are not tied to a repository: what a member of one repository uploads is answered to
  a member of any other repository who names its id, with the other repository's id in the path.
\<close>

theorem blob_read_ignores_repository:
  assumes "gate X au rid sv = Inr repo" and "parse_meta B hdr = Some m"
    and "put_blob P X B au rid ''application/octet-stream'' (Some hdr) ct sv = (sv1, Inr i)"
    and "gate X au' rid' sv = Inr repo'" and "blob_id_from_hex X bs = Inr i"
    and "blobs (sv_store sv) (blob_id_of_ciphertext P ct) = None"
  shows "get_blob X au' rid' bs sv1 = Inr ct"
proof -
  have put: "sv1 = sv\<lparr>sv_store := fst (blob_put P m ct (sv_store sv))\<rparr>" "i = blob_id_of_ciphertext P ct"
    using assms(1-3) by (auto simp: put_blob_def gate_cases decode_put_def starts_with_def blob_put_def Let_def)
  have "gate X au' rid' sv1 = gate X au' rid' sv"
    by (simp add: gate_exact put(1) blob_put_def access_def Let_def split: sum.splits option.splits)
  then show ?thesis
    using assms(4,5,6) by (simp add: get_blob_def gate_cases put blob_get_def blob_put_def Let_def)
qed

lemma blob_read_ignores_repository_witness:
  "let auth = demo_auth ''ann'';
       sv = fst (create_repo (replicate 32 2) [] (demo_auth ''bob'') ''s'' True None demo_server);
       B = \<lparr>parse_meta = (\<lambda>_. Some \<lparr>bm_id = [], bm_size = 0, chunk_index = 0, chunk_count = 1, bm_push_id = []\<rparr>),
            parse_put_request = (\<lambda>_. None), b64_decode = (\<lambda>_. None)\<rparr>;
       (sv1, i) = put_blob demo_prims demo_hex B auth demo_rid ''application/octet-stream'' (Some []) [7] sv
   in get_blob demo_hex (demo_auth ''bob'') (replicate 32 (CHR 0x02)) (hex_encode demo_hex (blob_id_of_ciphertext demo_prims [7])) sv1 = Inr [7]"
proof -
  define sv where "sv = fst (create_repo (replicate 32 2) [] (demo_auth ''bob'') ''s'' True None demo_server)"
  define B where "B = \<lparr>parse_meta = (\<lambda>_. Some \<lparr>bm_id = [], bm_size = 0, chunk_index = 0, chunk_count = 1, bm_push_id = []\<rparr>),
            parse_put_request = (\<lambda>_. None), b64_decode = (\<lambda>_. None)\<rparr>"
  let ?put = "put_blob demo_prims demo_hex B (demo_auth ''ann'') demo_rid ''application/octet-stream'' (Some []) [7] sv"
  let ?s = "hex_encode demo_hex (blob_id_of_ciphertext demo_prims [7])"
  have rid2: "repo_id_from_hex demo_hex (replicate 32 (CHR 0x02)) = Inr (replicate 32 2)"
    by (simp add: repo_id_from_hex_def id_from_hex_def demo_hex_def)
  have a: "gate demo_hex (demo_auth ''ann'') demo_rid sv = Inr (replicate 32 1)"
    by (simp add: sv_def demo_server_def create_repo_def repo_create_def server_open_def store_open_def demo_auth_def
        save_members_def fix_len_def Let_def gate_exact demo_rid_parses access_def)
  have b: "gate demo_hex (demo_auth ''bob'') (replicate 32 (CHR 0x02)) sv = Inr (replicate 32 2)"
    by (simp add: sv_def demo_server_def create_repo_def repo_create_def server_open_def store_open_def demo_auth_def
        save_members_def fix_len_def Let_def gate_exact rid2 access_def)
  have none: "blobs (sv_store sv) i = None" for i
    by (simp add: sv_def demo_server_def create_repo_def repo_create_def server_open_def store_open_def demo_auth_def
        save_members_def Let_def)
  have "decode_put B ''application/octet-stream'' (Some []) [7] =
      Inr (\<lparr>bm_id = [], bm_size = 0, chunk_index = 0, chunk_count = 1, bm_push_id = []\<rparr>, [7])"
    by (simp add: decode_put_def B_def starts_with_def)
  then have put: "?put = (fst ?put, Inr (blob_id_of_ciphertext demo_prims [7]))"
    by (simp add: put_blob_def gate_cases a blob_put_def Let_def)
  have "length (blob_id_of_ciphertext demo_prims [7]) = 64"
    by (simp add: blob_id_of_ciphertext_def demo_prims_def fix_len_def)
  then have "blob_id_from_hex demo_hex ?s = Inr (blob_id_of_ciphertext demo_prims [7])"
    by (simp add: blob_id_from_hex_def id_from_hex_def demo_hex_def comp_def of_char_of_byte)
  from blob_read_ignores_repository [OF a _ put b this none] have "get_blob demo_hex (demo_auth ''bob'') (replicate 32 (CHR 0x02)) ?s (fst ?put) = Inr [7]"
    by (simp add: B_def)
  with put show ?thesis by (auto simp: Let_def sv_def B_def split: prod.splits)
qed

end
