(* ===== verification/Collab.thy ===== *)
theory Collab
  imports Server
begin

text \<open>
  The plaintext issue and pull-request index of the member machine's gateway,
  \<^verbatim>\<open>safehub-server/src/collab.rs\<close>, and the handlers of \<^verbatim>\<open>routes.rs\<close> that serve it.  The index of
  a repository is the file \<^verbatim>\<open>collab/{owner}/{name}.json\<close>; directories are lists of entries in the
  order they are read.  Lower-casing, comment ids and timestamps are arguments.
\<close>

section \<open>Records\<close>

record comment_record =
  cr_id :: string
  cr_author :: string
  cr_body :: string
  cr_created_at :: string

record issue_record =
  ir_id :: u64
  ir_title :: string
  ir_body :: string
  ir_state :: string
  ir_author :: string
  ir_created_at :: string
  ir_comments :: "comment_record list"

record pull_request_record = issue_record +
  pr_base :: string
  pr_head :: string

record collab_index =
  ci_issues :: "issue_record list"
  ci_pulls :: "pull_request_record list"
  next_issue :: u64
  next_pr :: u64

type_synonym collab_tree = "(string \<times> (string \<times> collab_index) list) list"

definition collab_load :: "string \<Rightarrow> string \<Rightarrow> collab_tree \<Rightarrow> collab_index" where
  "collab_load own nm t =
     (case map_of t own of
        None \<Rightarrow> \<lparr>ci_issues = [], ci_pulls = [], next_issue = 1, next_pr = 1\<rparr>
      | Some d \<Rightarrow>
          (case map_of d (nm @ ''.json'') of
             None \<Rightarrow> \<lparr>ci_issues = [], ci_pulls = [], next_issue = 1, next_pr = 1\<rparr>
           | Some idx \<Rightarrow> idx))"

definition collab_save :: "string \<Rightarrow> string \<Rightarrow> collab_index \<Rightarrow> collab_tree \<Rightarrow> collab_tree" where
  "collab_save own nm idx t =
     dir_write own (dir_write (nm @ ''.json'') idx (case map_of t own of None \<Rightarrow> [] | Some d \<Rightarrow> d)) t"

text \<open>\<^verbatim>\<open>iter_mut().find(..)\<close> followed by a change of the element found.\<close>

fun update_first :: "('a \<Rightarrow> bool) \<Rightarrow> ('a \<Rightarrow> 'a) \<Rightarrow> 'a list \<Rightarrow> ('a \<times> 'a list) option" where
  "update_first p f [] = None"
| "update_first p f (x # xs) =
     (if p x then Some (f x, f x # xs)
      else case update_first p f xs of None \<Rightarrow> None | Some (y, ys) \<Rightarrow> Some (y, x # ys))"

section \<open>Operations on the index\<close>

definition create_issue ::
    "string \<Rightarrow> string \<Rightarrow> string \<Rightarrow> string \<Rightarrow> string \<Rightarrow> string \<Rightarrow> collab_tree \<Rightarrow> collab_tree \<times> issue_record" where
  "create_issue now own nm author title body t =
     (let idx = collab_load own nm t;
          r = \<lparr>ir_id = next_issue idx, ir_title = title, ir_body = body, ir_state = ''open'', ir_author = author,
               ir_created_at = now, ir_comments = []\<rparr>
      in (collab_save own nm (idx\<lparr>next_issue := next_issue idx + 1, ci_issues := ci_issues idx @ [r]\<rparr>) t, r))"

definition create_pr ::
    "string \<Rightarrow> string \<Rightarrow> string \<Rightarrow> string \<Rightarrow> string \<Rightarrow> string \<Rightarrow> string \<Rightarrow> string \<Rightarrow> collab_tree \<Rightarrow>
     collab_tree \<times> pull_request_record" where
  "create_pr now own nm author title body bs br t =
     (let idx = collab_load own nm t;
          r = \<lparr>ir_id = next_pr idx, ir_title = title, ir_body = body, ir_state = ''open'', ir_author = author,
               ir_created_at = now, ir_comments = [], pr_base = bs, pr_head = br\<rparr>
      in (collab_save own nm (idx\<lparr>next_pr := next_pr idx + 1, ci_pulls := ci_pulls idx @ [r]\<rparr>) t, r))"

definition set_issue_state ::
    "string \<Rightarrow> string \<Rightarrow> u64 \<Rightarrow> string \<Rightarrow> collab_tree \<Rightarrow> collab_tree \<times> issue_record option" where
  "set_issue_state own nm i s t =
     (let idx = collab_load own nm t
      in case update_first (\<lambda>r. ir_id r = i) (ir_state_update (\<lambda>_. s)) (ci_issues idx) of
           None \<Rightarrow> (t, None)
         | Some (r, rs) \<Rightarrow> (collab_save own nm (idx\<lparr>ci_issues := rs\<rparr>) t, Some r))"

definition set_pr_state ::
    "string \<Rightarrow> string \<Rightarrow> u64 \<Rightarrow> string \<Rightarrow> collab_tree \<Rightarrow> collab_tree \<times> pull_request_record option" where
  "set_pr_state own nm i s t =
     (let idx = collab_load own nm t
      in case update_first (\<lambda>r. ir_id r = i) (ir_state_update (\<lambda>_. s)) (ci_pulls idx) of
           None \<Rightarrow> (t, None)
         | Some (r, rs) \<Rightarrow> (collab_save own nm (idx\<lparr>ci_pulls := rs\<rparr>) t, Some r))"

definition comment_issue ::
    "string \<Rightarrow> string \<Rightarrow> string \<Rightarrow> string \<Rightarrow> u64 \<Rightarrow> string \<Rightarrow> string \<Rightarrow> collab_tree \<Rightarrow> collab_tree \<times> issue_record option" where
  "comment_issue uuid now own nm i author body t =
     (let idx = collab_load own nm t;
          c = \<lparr>cr_id = uuid, cr_author = author, cr_body = body, cr_created_at = now\<rparr>
      in case update_first (\<lambda>r. ir_id r = i) (ir_comments_update (\<lambda>cs. cs @ [c])) (ci_issues idx) of
           None \<Rightarrow> (t, None)
         | Some (r, rs) \<Rightarrow> (collab_save own nm (idx\<lparr>ci_issues := rs\<rparr>) t, Some r))"

definition comment_pr ::
    "string \<Rightarrow> string \<Rightarrow> string \<Rightarrow> string \<Rightarrow> u64 \<Rightarrow> string \<Rightarrow> string \<Rightarrow> collab_tree \<Rightarrow> collab_tree \<times> pull_request_record option" where
  "comment_pr uuid now own nm i author body t =
     (let idx = collab_load own nm t;
          c = \<lparr>cr_id = uuid, cr_author = author, cr_body = body, cr_created_at = now\<rparr>
      in case update_first (\<lambda>r. ir_id r = i) (ir_comments_update (\<lambda>cs. cs @ [c])) (ci_pulls idx) of
           None \<Rightarrow> (t, None)
         | Some (r, rs) \<Rightarrow> (collab_save own nm (idx\<lparr>ci_pulls := rs\<rparr>) t, Some r))"

section \<open>Search\<close>

record search_hit =
  sh_kind :: string
  sh_owner :: string
  sh_repo :: string
  sh_id :: u64
  sh_title :: string
  sh_state :: string
  sh_author :: string

definition ends_with :: "string \<Rightarrow> string \<Rightarrow> bool" where
  "ends_with suf s \<longleftrightarrow> length suf \<le> length s \<and> drop (length s - length suf) s = suf"

fun trim_json :: "string \<Rightarrow> string" where
  "trim_json s = (if ends_with ''.json'' s \<and> s \<noteq> [] then trim_json (take (length s - 5) s) else s)"

declare trim_json.simps [simp del]

definition hit_of :: "string \<Rightarrow> string \<Rightarrow> string \<Rightarrow> 'a issue_record_scheme \<Rightarrow> search_hit" where
  "hit_of kind own repo r = \<lparr>sh_kind = kind, sh_owner = own, sh_repo = repo, sh_id = ir_id r, sh_title = ir_title r,
     sh_state = ir_state r, sh_author = ir_author r\<rparr>"

definition hay_matches :: "(string \<Rightarrow> string) \<Rightarrow> string \<Rightarrow> 'a issue_record_scheme \<Rightarrow> bool" where
  "hay_matches lower query r \<longleftrightarrow> str_contains (lower query) (lower (ir_title r @ '' '' @ ir_body r))"

definition search :: "(string \<Rightarrow> string) \<Rightarrow> string \<Rightarrow> string option \<Rightarrow> collab_tree \<Rightarrow> search_hit list" where
  "search lower query kind t =
     concat (map (\<lambda>(own, d). concat (map (\<lambda>(fname, _).
       if \<not> ends_with ''.json'' fname then []
       else let repo = trim_json fname;
                idx = collab_load own repo t
            in (if kind = None \<or> kind = Some ''issues''
                then map (hit_of ''issue'' own repo) (filter (hay_matches lower query) (ci_issues idx)) else []) @
               (if kind = None \<or> kind = Some ''prs''
                then map (hit_of ''pr'' own repo) (filter (hay_matches lower query) (ci_pulls idx)) else [])) d)) t)"

section \<open>Handlers\<close>

record ui_state =
  ui_server :: server_state
  ui_collab :: collab_tree

definition search_collab ::
    "(string \<Rightarrow> string) \<Rightarrow> token_record \<Rightarrow> string \<Rightarrow> string option \<Rightarrow> ui_state \<Rightarrow> search_hit list response" where
  "search_collab lower au q kind ui = Inr (search lower q kind (ui_collab ui))"

definition as_member :: "token_record \<Rightarrow> string \<Rightarrow> string \<Rightarrow> ui_state \<Rightarrow> 'a response \<Rightarrow> 'a response" where
  "as_member au own nm ui r = rbind (require_member (ui_server ui) (tr_user au) own nm) (\<lambda>_. r)"

definition list_issues_route :: "token_record \<Rightarrow> string \<Rightarrow> string \<Rightarrow> ui_state \<Rightarrow> issue_record list response" where
  "list_issues_route au own nm ui = as_member au own nm ui (Inr (ci_issues (collab_load own nm (ui_collab ui))))"

definition get_issue_route :: "token_record \<Rightarrow> string \<Rightarrow> string \<Rightarrow> u64 \<Rightarrow> ui_state \<Rightarrow> issue_record response" where
  "get_issue_route au own nm i ui =
     as_member au own nm ui (ok_or 404 (List.find (\<lambda>r. ir_id r = i) (ci_issues (collab_load own nm (ui_collab ui)))))"

definition list_pulls_route :: "token_record \<Rightarrow> string \<Rightarrow> string \<Rightarrow> ui_state \<Rightarrow> pull_request_record list response" where
  "list_pulls_route au own nm ui = as_member au own nm ui (Inr (ci_pulls (collab_load own nm (ui_collab ui))))"

definition get_pull_route :: "token_record \<Rightarrow> string \<Rightarrow> string \<Rightarrow> u64 \<Rightarrow> ui_state \<Rightarrow> pull_request_record response" where
  "get_pull_route au own nm i ui =
     as_member au own nm ui (ok_or 404 (List.find (\<lambda>r. ir_id r = i) (ci_pulls (collab_load own nm (ui_collab ui)))))"

text \<open>The handlers that write: the member check, the operation, 404 when it finds nothing.\<close>

definition writing ::
    "token_record \<Rightarrow> string \<Rightarrow> string \<Rightarrow> (collab_tree \<Rightarrow> collab_tree \<times> 'a option) \<Rightarrow> ui_state \<Rightarrow> ui_state \<times> 'a response" where
  "writing au own nm act ui =
     (case require_member (ui_server ui) (tr_user au) own nm of
        Inl s \<Rightarrow> (ui, Inl s)
      | Inr _ \<Rightarrow> (case act (ui_collab ui) of
            (_, None) \<Rightarrow> (ui, Inl 404)
          | (t, Some r) \<Rightarrow> (ui\<lparr>ui_collab := t\<rparr>, Inr r)))"

definition create_issue_route ::
    "string \<Rightarrow> token_record \<Rightarrow> string \<Rightarrow> string \<Rightarrow> string \<Rightarrow> string \<Rightarrow> ui_state \<Rightarrow> ui_state \<times> issue_record response" where
  "create_issue_route now au own nm title body =
     writing au own nm (\<lambda>t. apsnd Some (create_issue now own nm (tr_user au) title body t))"

definition patch_issue_route ::
    "token_record \<Rightarrow> string \<Rightarrow> string \<Rightarrow> u64 \<Rightarrow> string \<Rightarrow> ui_state \<Rightarrow> ui_state \<times> issue_record response" where
  "patch_issue_route au own nm i s = writing au own nm (set_issue_state own nm i s)"

definition comment_issue_route ::
    "string \<Rightarrow> string \<Rightarrow> token_record \<Rightarrow> string \<Rightarrow> string \<Rightarrow> u64 \<Rightarrow> string \<Rightarrow> ui_state \<Rightarrow> ui_state \<times> issue_record response" where
  "comment_issue_route uuid now au own nm i body = writing au own nm (comment_issue uuid now own nm i (tr_user au) body)"

definition create_pull_route ::
    "string \<Rightarrow> token_record \<Rightarrow> string \<Rightarrow> string \<Rightarrow> string \<Rightarrow> string \<Rightarrow> string \<Rightarrow> string \<Rightarrow> ui_state \<Rightarrow>
     ui_state \<times> pull_request_record response" where
  "create_pull_route now au own nm title body bs br =
     writing au own nm (\<lambda>t. apsnd Some (create_pr now own nm (tr_user au) title body bs br t))"

definition patch_pull_route ::
    "token_record \<Rightarrow> string \<Rightarrow> string \<Rightarrow> u64 \<Rightarrow> string \<Rightarrow> ui_state \<Rightarrow> ui_state \<times> pull_request_record response" where
  "patch_pull_route au own nm i s = writing au own nm (set_pr_state own nm i s)"

definition comment_pull_route ::
    "string \<Rightarrow> string \<Rightarrow> token_record \<Rightarrow> string \<Rightarrow> string \<Rightarrow> u64 \<Rightarrow> string \<Rightarrow> ui_state \<Rightarrow> ui_state \<times> pull_request_record response" where
  "comment_pull_route uuid now au own nm i body = writing au own nm (comment_pr uuid now own nm i (tr_user au) body)"

section \<open>Numbering and history\<close>

lemma collab_load_save [simp]:
  "collab_load own nm (collab_save own' nm' idx t) = (if own = own' \<and> nm = nm' then idx else collab_load own nm t)"
  by (auto simp: collab_load_def collab_save_def split: option.splits)

lemma update_first_list_all2:
  assumes "update_first p f xs = Some (y, ys)" and "\<And>x. R x x" and "\<And>x. R x (f x)"
  shows "list_all2 R xs ys \<and> y \<in> set ys \<and> (\<exists>x \<in> set xs. p x \<and> y = f x)"
  using assms(1)
  by (induction xs arbitrary: y ys)
    (auto split: if_splits option.splits simp: assms(2,3) list.rel_refl)

text \<open>What may happen to an entry: its state changes, comments are added at the end.\<close>

definition entry_extends :: "issue_record \<Rightarrow> issue_record \<Rightarrow> bool" where
  "entry_extends a b \<longleftrightarrow> ir_id b = ir_id a \<and> ir_title b = ir_title a \<and> ir_body b = ir_body a \<and>
     ir_author b = ir_author a \<and> ir_created_at b = ir_created_at a \<and> (\<exists>cs. ir_comments b = ir_comments a @ cs)"

definition issues_inv :: "collab_index \<Rightarrow> bool" where
  "issues_inv idx \<longleftrightarrow> map ir_id (ci_issues idx) = map (\<lambda>i. of_nat i + 1) [0..<length (ci_issues idx)] \<and>
     next_issue idx = of_nat (length (ci_issues idx)) + 1"

datatype issue_op =
  OpCreate string string string string
| OpState u64 string
| OpComment string string u64 string string
| OpPull string string string string string string

fun issue_step :: "string \<Rightarrow> string \<Rightarrow> issue_op \<Rightarrow> collab_tree \<Rightarrow> collab_tree" where
  "issue_step own nm (OpCreate now author title body) t = fst (create_issue now own nm author title body t)"
| "issue_step own nm (OpState i s) t = fst (set_issue_state own nm i s t)"
| "issue_step own nm (OpComment uuid now i author body) t = fst (comment_issue uuid now own nm i author body t)"
| "issue_step own nm (OpPull now author title body bs br) t = fst (create_pr now own nm author title body bs br t)"

definition issues_grow :: "issue_record list \<Rightarrow> issue_record list \<Rightarrow> bool" where
  "issues_grow xs ys \<longleftrightarrow> (\<exists>zs new. ys = zs @ new \<and> list_all2 entry_extends xs zs)"

lemma entry_extends_refl [simp]: "entry_extends x x"
  by (simp add: entry_extends_def)

lemma entry_extends_trans: "entry_extends x y \<Longrightarrow> entry_extends y z \<Longrightarrow> entry_extends x z"
  by (auto simp: entry_extends_def)

lemma issues_grow_refl [simp]: "issues_grow xs xs"
  unfolding issues_grow_def by (intro exI [of _ xs] exI [of _ "[]"]) (simp add: list.rel_refl)

lemma issues_grow_trans:
  assumes "issues_grow xs ys" and "issues_grow ys zs"
  shows "issues_grow xs zs"
proof -
  obtain y n where y: "ys = y @ n" "list_all2 entry_extends xs y" using assms(1) by (auto simp: issues_grow_def)
  obtain z m where z: "zs = z @ m" "list_all2 entry_extends (y @ n) z" using assms(2) y by (auto simp: issues_grow_def)
  obtain z1 z2 where "z = z1 @ z2" "list_all2 entry_extends y z1"
    using z(2) by (auto simp: list_all2_append1)
  moreover have "list_all2 entry_extends xs z1"
    by (rule list_all2_trans [OF entry_extends_trans y(2) calculation(2)])
  ultimately show ?thesis using z(1) by (auto simp: issues_grow_def)
qed

lemma entry_ids: "list_all2 entry_extends xs ys \<Longrightarrow> map ir_id ys = map ir_id xs \<and> length ys = length xs"
  by (induction xs ys rule: list_all2_induct) (auto simp: entry_extends_def)

lemma issue_step_keeps:
  assumes "issues_inv (collab_load own nm t)"
  shows "issues_inv (collab_load own nm (issue_step own nm opn t)) \<and>
    issues_grow (ci_issues (collab_load own nm t)) (ci_issues (collab_load own nm (issue_step own nm opn t)))"
proof -
  have upd: "issues_inv (collab_load own nm t\<lparr>ci_issues := rs\<rparr>) \<and> issues_grow (ci_issues (collab_load own nm t)) rs"
    if "update_first p f (ci_issues (collab_load own nm t)) = Some (r, rs)" "\<And>x. entry_extends x (f x)" for p f r rs
  proof -
    have all: "list_all2 entry_extends (ci_issues (collab_load own nm t)) rs"
      using update_first_list_all2 [OF that(1), of entry_extends] that(2) by simp
    then show ?thesis
      using assms entry_ids [OF all] unfolding issues_grow_def
      by (intro conjI exI [of _ rs] exI [of _ "[]"]) (simp_all add: issues_inv_def)
  qed
  show ?thesis
  proof (cases opn)
    case (OpCreate now author title body)
    have "issues_grow xs (xs @ [r])" for xs r
      unfolding issues_grow_def by (intro exI [of _ xs] exI [of _ "[r]"]) (simp add: list.rel_refl)
    then show ?thesis using assms by (simp add: OpCreate create_issue_def Let_def issues_inv_def)
  next
    case (OpState i s)
    then show ?thesis using assms upd
      by (fastforce simp: set_issue_state_def Let_def entry_extends_def split: option.splits)
  next
    case (OpComment uuid now i author body)
    then show ?thesis using assms upd
      by (fastforce simp: comment_issue_def Let_def entry_extends_def split: option.splits)
  next
    case OpPull
    then show ?thesis using assms by (simp add: create_pr_def Let_def issues_inv_def)
  qed
qed

text \<open>
  Issues are numbered \<open>1, 2, \<dots>\<close> without gaps and their history is kept: whatever sequence of
  creations, state changes, comments and pull requests is applied to a repository, the numbering
  holds afterwards, and every issue keeps its place, number, title, body, author and date, with
  its comments extended only at the end.
\<close>

theorem issue_history_kept:
  "issues_inv (collab_load own nm (fold (issue_step own nm) ops [])) \<and>
   issues_grow (ci_issues (collab_load own nm (fold (issue_step own nm) ops0 [])))
     (ci_issues (collab_load own nm (fold (issue_step own nm) (ops0 @ ops1) [])))"
proof -
  have run: "issues_inv (collab_load own nm (fold (issue_step own nm) ops t)) \<and>
      issues_grow (ci_issues (collab_load own nm t)) (ci_issues (collab_load own nm (fold (issue_step own nm) ops t)))"
    if "issues_inv (collab_load own nm t)" for ops t
    using that
  proof (induction ops arbitrary: t)
    case (Cons opn ops)
    from issue_step_keeps [OF Cons.prems, of opn] Cons.IH show ?case
      using issues_grow_trans by fastforce
  qed simp
  have "issues_inv (collab_load own nm [])" by (simp add: collab_load_def issues_inv_def)
  then show ?thesis using run by simp
qed

section \<open>Outsiders\<close>

lemma collab_routes_refuse:
  assumes "tr_user au \<notin> access own nm (ui_server ui)"
  shows "as_member au own nm ui r = Inl 403" and "writing au own nm act ui = (ui, Inl 403)"
  using assms by (simp_all add: as_member_def writing_def require_member_access)

lemmas collab_route_defs = list_issues_route_def get_issue_route_def list_pulls_route_def get_pull_route_def
  create_issue_route_def patch_issue_route_def comment_issue_route_def
  create_pull_route_def patch_pull_route_def comment_pull_route_def

text \<open>
  C34.  A user without access to a repository is refused by the 24 handlers that serve or change data
  of a named repository: whatever id string stands for it, the eight routes keyed by id (blobs, heads,
  MLS queue, key log) answer 403; the six keyed by owner and name for the repository and its
  collaborators answer 403 too (reading the repository answers 404 when it does not exist or is
  deleted), and so do the ten for its issues and pull requests; and none of them changes the state.
  The search over all issues, which names no repository, is not among them, and neither are the
  plaintext git pages, which only run git.
\<close>

theorem outsiders_are_refused:
  assumes "tr_user au \<notin> access own nm (ui_server ui)"
  defines "sv \<equiv> ui_server ui"
  shows "(\<forall>rid repo r. repo_id_from_hex X rid = Inr repo \<longrightarrow> repos_by_id (sv_store sv) repo = Some r \<longrightarrow>
       rr_name r = \<lparr>rn_owner = own, rn_name = nm\<rparr> \<longrightarrow>
       put_blob P X B au rid ct mh body sv = (sv, Inl 403) \<and> get_blob X au rid bid sv = Inl 403 \<and>
       head_tip J X au rid sv = Inl 403 \<and> append_head P J X au rid h sv = (sv, Inl 403) \<and>
       heads_since J X au rid after limit sv = Inl 403 \<and> mls_enqueue X au rid payload hint sv = (sv, Inl 403) \<and>
       mls_fetch X au rid after limit sv = Inl 403 \<and> append_keylog X au rid entry sv = (sv, Inl 403)) \<and>
    get_repo au own nm sv \<in> {Inl 403, Inl 404} \<and>
    (get_repo au own nm sv = Inl 403 \<longleftrightarrow> (\<exists>r. get_by_name own nm (sv_store sv) = Some r \<and> \<not> rr_deleted r)) \<and>
    patch_repo au own nm arch descr sv = (sv, Inl 403) \<and> delete_repo au own nm sv = (sv, Inl 403) \<and>
    list_collabs au own nm sv = Inl 403 \<and> invite_collab now au own nm invitee hist sv = (sv, Inl 403) \<and>
    remove_collab now au own nm target sv = (sv, Inl 403) \<and>
    list_issues_route au own nm ui = Inl 403 \<and> get_issue_route au own nm i ui = Inl 403 \<and>
    create_issue_route now au own nm title body' ui = (ui, Inl 403) \<and> patch_issue_route au own nm i st ui = (ui, Inl 403) \<and>
    comment_issue_route uuid now au own nm i msg ui = (ui, Inl 403) \<and>
    list_pulls_route au own nm ui = Inl 403 \<and> get_pull_route au own nm i ui = Inl 403 \<and>
    create_pull_route now au own nm title body' bs br ui = (ui, Inl 403) \<and> patch_pull_route au own nm i st ui = (ui, Inl 403) \<and>
    comment_pull_route uuid now au own nm i msg ui = (ui, Inl 403)"
proof -
  have "tr_user au \<notin> access own nm sv" using assms by simp
  note named = named_routes_refuse [OF this]
  have "gate X au rid sv = Inl 403"
    if "repo_id_from_hex X rid = Inr repo" "repos_by_id (sv_store sv) repo = Some r"
      "rr_name r = \<lparr>rn_owner = own, rn_name = nm\<rparr>" for rid repo r
    using that assms by (simp add: gate_exact)
  note ids = gated_routes_refuse [OF this]
  have read: "get_repo au own nm sv \<in> {Inl 403, Inl 404} \<and>
      (get_repo au own nm sv = Inl 403 \<longleftrightarrow> (\<exists>r. get_by_name own nm (sv_store sv) = Some r \<and> \<not> rr_deleted r))"
    by (simp add: named(1) split: option.split)
  show ?thesis
    unfolding collab_route_defs by (intro conjI allI impI ids read [THEN conjunct1] read [THEN conjunct2] named(2-)
      collab_routes_refuse [OF assms(1)])
qed

text \<open>
  eve at the demonstration repository of ann, which exists and holds an issue: refused by id and by
  name, for reading and for writing.
\<close>

lemma outsiders_are_refused_witness:
  "let ui = fst (create_issue_route [] (demo_auth ''ann'') ''ann'' ''r'' ''bug'' [] \<lparr>ui_server = demo_server, ui_collab = []\<rparr>);
       eve = demo_auth ''eve''
   in get_blob demo_hex eve demo_rid [] demo_server = Inl 403 \<and>
      mls_enqueue demo_hex eve demo_rid [1] None demo_server = (demo_server, Inl 403) \<and>
      get_repo eve ''ann'' ''r'' demo_server = Inl 403 \<and> delete_repo eve ''ann'' ''r'' demo_server = (demo_server, Inl 403) \<and>
      remove_collab [] eve ''ann'' ''r'' ''ann'' demo_server = (demo_server, Inl 403) \<and>
      get_issue_route eve ''ann'' ''r'' 1 ui = Inl 403 \<and> comment_issue_route [] [] eve ''ann'' ''r'' 1 ''hi'' ui = (ui, Inl 403)"
proof -
  define ui where "ui = fst (create_issue_route [] (demo_auth ''ann'') ''ann'' ''r'' ''bug'' [] \<lparr>ui_server = demo_server, ui_collab = []\<rparr>)"
  have sv: "ui_server ui = demo_server"
    by (simp add: ui_def create_issue_route_def writing_def require_member_access demo_server_access demo_auth_def
        create_issue_def Let_def)
  have out: "tr_user (demo_auth ''eve'') \<notin> access ''ann'' ''r'' (ui_server ui)"
    unfolding sv demo_server_access by (simp add: demo_auth_def)
  obtain r where r: "repos_by_id (sv_store demo_server) (replicate 32 1) = Some r" "rr_name r = \<lparr>rn_owner = ''ann'', rn_name = ''r''\<rparr>"
    using demo_server_repo by auto
  have live: "\<exists>r. get_by_name ''ann'' ''r'' (sv_store demo_server) = Some r \<and> \<not> rr_deleted r"
    by (simp add: get_by_name_def demo_server_def create_repo_def repo_create_def server_open_def store_open_def demo_auth_def
        save_members_def Let_def)
  note refused = outsiders_are_refused [OF out, where X = demo_hex and bid = "[]" and payload = "[1]" and hint = None and
      now = "[]" and target = "''ann''" and i = 1 and uuid = "[]" and msg = "''hi''", unfolded sv]
  show ?thesis
    unfolding Let_def ui_def [symmetric]
    using conjunct1 [OF refused, rule_format, OF demo_rid_parses r] conjunct2 [OF refused] live by simp
qed

text \<open>
  Search reads every repository of the gateway: a user who is refused an issue by the member
  check finds its title, state and author by searching, so the index is only safe because the
  untrusted host does not mount it.
\<close>

theorem search_ignores_membership:
  assumes "tr_user au \<notin> access own nm (ui_server ui)"
    and "own \<in> fst ` set (ui_collab ui)" and "map_of (the (map_of (ui_collab ui) own)) (nm @ ''.json'') = Some idx"
    and "\<not> ends_with ''.json'' nm" and "r \<in> set (ci_issues idx)" and "hay_matches lower q r"
  shows "get_issue_route au own nm (ir_id r) ui = Inl 403 \<and>
    (\<exists>hits. search_collab lower au q None ui = Inr hits \<and> hit_of ''issue'' own nm r \<in> set hits)"
proof -
  obtain d where d: "map_of (ui_collab ui) own = Some d"
    using assms(2) by (metis map_of_eq_None_iff not_None_eq)
  have json: "ends_with ''.json'' (nm @ ''.json'')" by (simp add: ends_with_def)
  moreover have "trim_json nm = nm" using assms(4) by (simp add: trim_json.simps [of nm])
  ultimately have "trim_json (nm @ ''.json'') = nm" by (simp add: trim_json.simps [of "nm @ _"])
  note json = json this
  have "collab_load own nm (ui_collab ui) = idx" using d assms(3) by (simp add: collab_load_def)
  moreover have entry: "map_of d (nm @ ''.json'') = Some idx" using d assms(3) by simp
  ultimately have "hit_of ''issue'' own nm r \<in> set (search lower q None (ui_collab ui))"
    unfolding search_def set_concat set_map image_image
    using assms(5,6)
    by (intro UN_I [OF map_of_SomeD [OF d]])
      (auto simp: json Let_def intro!: exI [of _ "nm @ ''.json''"] bexI [OF _ map_of_SomeD [OF entry]])
  then show ?thesis
    using assms(1) by (simp add: get_issue_route_def as_member_def require_member_access search_collab_def)
qed

lemma search_ignores_membership_witness:
  "let ui = fst (create_issue_route [] (demo_auth ''ann'') ''ann'' ''r'' ''leak'' [] \<lparr>ui_server = demo_server, ui_collab = []\<rparr>)
   in \<exists>hits h. search_collab id (demo_auth ''eve'') ''lea'' None ui = Inr hits \<and> h \<in> set hits \<and> sh_title h = ''leak''"
proof -
  define r where "r = \<lparr>ir_id = 1, ir_title = ''leak'', ir_body = [], ir_state = ''open'', ir_author = ''ann'',
    ir_created_at = [], ir_comments = []\<rparr>"
  define ui where "ui = fst (create_issue_route [] (demo_auth ''ann'') ''ann'' ''r'' ''leak'' [] \<lparr>ui_server = demo_server, ui_collab = []\<rparr>)"
  have ui: "ui = \<lparr>ui_server = demo_server, ui_collab = [(''ann'', [(''r.json'', \<lparr>ci_issues = [r], ci_pulls = [], next_issue = 2, next_pr = 1\<rparr>)])]\<rparr>"
    by (simp add: ui_def create_issue_route_def writing_def require_member_access demo_server_access demo_auth_def
        create_issue_def collab_load_def collab_save_def Let_def r_def)
  have "tr_user (demo_auth ''eve'') \<notin> access ''ann'' ''r'' (ui_server ui)"
    by (simp add: ui demo_server_access) (simp add: demo_auth_def)
  from search_ignores_membership [OF this, of "\<lparr>ci_issues = [r], ci_pulls = [], next_issue = 2, next_pr = 1\<rparr>" r id "''lea''"]
  have "\<exists>hits. search_collab id (demo_auth ''eve'') ''lea'' None ui = Inr hits \<and> hit_of ''issue'' ''ann'' ''r'' r \<in> set hits"
    by (simp add: ui ends_with_def hay_matches_def r_def starts_with_def)
  moreover have "sh_title (hit_of ''issue'' ''ann'' ''r'' r) = ''leak''" by (simp add: hit_of_def r_def)
  ultimately show ?thesis unfolding ui_def [symmetric] Let_def by blast
qed

end
