(* ===== verification/Material.thy ===== *)
theory Material
  imports Policy Btree
begin

text \<open>
  The epoch material a member keeps for a repository, \<^verbatim>\<open>EpochMaterial\<close> of
  \<^verbatim>\<open>safehub-client/src/mls_local.rs\<close>: which epoch keys it derives, which epoch MAC keys it
  retains, and how they are carried across a rotation.  Random draws are arguments.
\<close>

section \<open>Epoch material\<close>

record epoch_material =
  em_epoch :: u64
  em_transport :: bytes
  em_refs_mac :: bytes
  em_history_from :: u64
  em_dkr_token :: bytes
  prior_transport :: "(u64 \<times> bytes) list"
  prior_refs_mac :: "(u64 \<times> bytes) list"

definition map_err :: "('e \<Rightarrow> 'f) \<Rightarrow> 'e + 'a \<Rightarrow> 'f + 'a" where
  "map_err f r = (case r of Inl e \<Rightarrow> Inl (f e) | Inr x \<Rightarrow> Inr x)"

lemma map_err_simps [simp]: "map_err f (Inl e) = Inl (f e)" "map_err f (Inr x) = Inr x"
  by (simp_all add: map_err_def)

lemma map_err_Inr_iff [simp]: "map_err f r = Inr x \<longleftrightarrow> r = Inr x"
  by (cases r) simp_all

definition inherit :: "epoch_material option \<Rightarrow> epoch_material \<Rightarrow> epoch_material" where
  "inherit previous m =
     (case previous of
        None \<Rightarrow> m
      | Some prev \<Rightarrow>
          let m1 = m\<lparr>prior_transport := prior_transport prev, prior_refs_mac := prior_refs_mac prev\<rparr>
          in if em_epoch prev \<noteq> em_epoch m
             then m1\<lparr>prior_transport := bt_insert (em_epoch prev) (em_transport prev) (prior_transport m1),
                     prior_refs_mac := bt_insert (em_epoch prev) (em_refs_mac prev) (prior_refs_mac m1)\<rparr>
             else m1)"

definition refs_mac_at :: "epoch_material \<Rightarrow> u64 \<Rightarrow> bytes option" where
  "refs_mac_at m e = (if e = em_epoch m then Some (em_refs_mac m) else map_of (prior_refs_mac m) e)"

definition interval_seed :: "epoch_material \<Rightarrow> bytes" where
  "interval_seed m = (if length (em_dkr_token m) = SEC_PARAM_LEN then em_dkr_token m else em_transport m)"

definition epoch_key_at :: "prims \<Rightarrow> bytes \<Rightarrow> bytes \<Rightarrow> epoch_material \<Rightarrow> u64 \<Rightarrow> client_error + bytes" where
  "epoch_key_at P rng rng' m e =
     (if e < em_history_from m then Inl (Other (BeforeGrant e (em_history_from m)))
      else rbind
        (if e \<noteq> em_epoch m
         then (case map_of (prior_transport m) e of
                 None \<Rightarrow> Inl (Other (NoTransportSeed e (em_history_from m)))
               | Some prior \<Rightarrow> if length prior \<noteq> SEC_PARAM_LEN then Inl (Other (CorruptSeed e)) else Inr prior)
         else Inr (interval_seed m))
        (\<lambda>seed.
           let (dkr, r) = dkr_advance rng rng' (max (em_epoch m) e) (with_seed seed)
           in rbind (map_err Crypto r) (\<lambda>interval.
                let capped = (if em_history_from m > 0
                              then \<lparr>iv_from = em_history_from m, iv_to = iv_to interval, iv_token = iv_token interval\<rparr>
                              else interval)
                in map_err Crypto (derive_epoch_key P capped e))))"

definition epoch_key :: "prims \<Rightarrow> bytes \<Rightarrow> bytes \<Rightarrow> epoch_material \<Rightarrow> client_error + bytes" where
  "epoch_key P rng rng' m = epoch_key_at P rng rng' m (em_epoch m)"

text \<open>The throughput probe and the collaboration boxes.\<close>

definition consolidate_tip_rewrite ::
    "prims \<Rightarrow> bytes \<Rightarrow> bytes \<Rightarrow> bytes \<Rightarrow> bytes \<Rightarrow> epoch_material \<Rightarrow> client_error + bytes \<times> u64" where
  "consolidate_tip_rewrite P rng rng' nonce pt m =
     rbind (epoch_key P rng rng' m) (\<lambda>ke.
     rbind (map_err AeadErr (aead_seal P ke (domain_label ''consol'') pt nonce)) (\<lambda>sealed.
     rbind (map_err AeadErr (aead_open P ke (domain_label ''consol'') sealed)) (\<lambda>opened.
       if opened \<noteq> pt then Inl (Other RewriteIntegrity) else Inr (sealed, of_nat (length sealed)))))"

definition seal_collab :: "prims \<Rightarrow> bytes \<Rightarrow> epoch_material \<Rightarrow> bytes \<Rightarrow> client_error + bytes" where
  "seal_collab P nonce m pt = map_err AeadErr (aead_seal P (em_refs_mac m) (domain_label ''collab'') pt nonce)"

definition open_collab :: "prims \<Rightarrow> epoch_material \<Rightarrow> bytes \<Rightarrow> client_error + bytes" where
  "open_collab P m sealed = map_err AeadErr (aead_open P (em_refs_mac m) (domain_label ''collab'') sealed)"

section \<open>Which keys a member derives\<close>

text \<open>
  Well-formed material: seeds of the right length, none of them zero (a zero seed is replaced by a
  random one), every retained epoch older than the current one.  \<open>in_capacity\<close> says the epochs
  involved are below \<open>2^20\<close>.
\<close>

definition seed_ok :: "bytes \<Rightarrow> bool" where
  "seed_ok s \<longleftrightarrow> length s = SEC_PARAM_LEN \<and> s \<noteq> replicate SEC_PARAM_LEN 0"

definition mat_ok :: "epoch_material \<Rightarrow> bool" where
  "mat_ok m \<longleftrightarrow> seed_ok (em_transport m) \<and> seed_ok (interval_seed m) \<and> bt_wf (prior_transport m) \<and>
     bt_wf (prior_refs_mac m) \<and>
     (\<forall>(e, s) \<in> set (prior_transport m). e < em_epoch m \<and> seed_ok s) \<and> em_epoch m < DKR_SEGMENT_CAPACITY"

definition seed_for :: "epoch_material \<Rightarrow> u64 \<Rightarrow> bytes option" where
  "seed_for m e = (if e = em_epoch m then Some (interval_seed m) else map_of (prior_transport m) e)"

definition key_of_seed :: "prims \<Rightarrow> bytes \<Rightarrow> u64 \<Rightarrow> bytes" where
  "key_of_seed P s e = the (hkdf_sha512 P s (dkr_epoch_info e) AEAD_KEY_LEN)"

lemma length_key_of_seed [simp]: "length (key_of_seed P s e) = 32"
  by (simp add: key_of_seed_def hkdf_sha512_def AEAD_KEY_LEN_def)

lemma advance_fresh:
  assumes "seed_ok s" and "e < DKR_SEGMENT_CAPACITY"
  shows "\<exists>d. dkr_advance rng rng' e (with_seed s) = (d, Inr \<lparr>iv_from = 0, iv_to = e, iv_token = s\<rparr>)"
proof -
  have "unat e < 2 ^ 20" using assms(2) by (simp add: word_less_nat_alt unat_DKR_SEGMENT_CAPACITY)
  then have "unat (e + 1) = unat e + 1" by (simp add: unat_word_ariths)
  then have "\<not> DKR_SEGMENT_CAPACITY < saturating_sub e 0 + 1"
    using \<open>unat e < 2 ^ 20\<close> by (simp add: word_less_nat_alt unat_DKR_SEGMENT_CAPACITY saturating_sub_def)
  then show ?thesis
    using assms(1) by (simp add: dkr_advance_def with_seed_def ensure_seeded_def seed_ok_def current_interval_def Let_def)
qed

lemma seed_for_older: "mat_ok m \<Longrightarrow> seed_for m e = Some s \<Longrightarrow> e \<le> em_epoch m \<and> seed_ok s"
  by (auto simp: mat_ok_def seed_for_def dest!: map_of_SomeD split: if_splits)

lemma epoch_key_at_eq:
  assumes "mat_ok m"
  shows "epoch_key_at P rng rng' m e =
    (if e < em_history_from m then Inl (Other (BeforeGrant e (em_history_from m)))
     else case seed_for m e of
       None \<Rightarrow> Inl (Other (NoTransportSeed e (em_history_from m)))
     | Some s \<Rightarrow> Inr (key_of_seed P s e))"
proof (cases "seed_for m e")
  case None
  then show ?thesis by (auto simp: epoch_key_at_def seed_for_def split: if_splits)
next
  case (Some s)
  with assms have s: "e \<le> em_epoch m" "seed_ok s" using seed_for_older by blast+
  have cap: "em_epoch m < DKR_SEGMENT_CAPACITY" using assms by (simp add: mat_ok_def)
  obtain d where adv: "dkr_advance rng rng' (em_epoch m) (with_seed s) = (d, Inr \<lparr>iv_from = 0, iv_to = em_epoch m, iv_token = s\<rparr>)"
    using advance_fresh [OF s(2) cap] by blast
  have pick: "(if e \<noteq> em_epoch m
         then (case map_of (prior_transport m) e of
                 None \<Rightarrow> Inl (Other (NoTransportSeed e (em_history_from m)))
               | Some prior \<Rightarrow> if length prior \<noteq> SEC_PARAM_LEN then Inl (Other (CorruptSeed e)) else Inr prior)
         else Inr (interval_seed m)) = Inr s"
    using Some s(2) by (auto simp: seed_for_def seed_ok_def split: if_splits)
  have hk: "hkdf_sha512 P s (dkr_epoch_info e) AEAD_KEY_LEN = Some (key_of_seed P s e)"
    by (simp add: key_of_seed_def hkdf_sha512_def AEAD_KEY_LEN_def)
  show ?thesis
    unfolding epoch_key_at_def pick
    using s(1) by (auto simp: adv max_absorb1 Some derive_epoch_key_def hk Let_def)
qed

section \<open>Rotation\<close>

text \<open>The material a Commit produces before the previous one is inherited.\<close>

definition exported :: "u64 \<Rightarrow> bytes \<Rightarrow> bytes \<Rightarrow> u64 \<Rightarrow> bytes \<Rightarrow> epoch_material" where
  "exported e transport mac from token =
     \<lparr>em_epoch = e, em_transport = transport, em_refs_mac = mac, em_history_from = from, em_dkr_token = token,
      prior_transport = [], prior_refs_mac = []\<rparr>"

lemma inherit_fields [simp]:
  "em_epoch (inherit p m) = em_epoch m" "em_transport (inherit p m) = em_transport m"
  "em_refs_mac (inherit p m) = em_refs_mac m" "em_history_from (inherit p m) = em_history_from m"
  "interval_seed (inherit p m) = interval_seed m"
  by (simp_all add: inherit_def interval_seed_def Let_def split: option.splits)

lemma mat_ok_exported:
  "seed_ok t \<Longrightarrow> seed_ok tok \<or> length tok \<noteq> SEC_PARAM_LEN \<Longrightarrow> e < DKR_SEGMENT_CAPACITY \<Longrightarrow>
     mat_ok (exported e t mac from tok)"
  by (auto simp: mat_ok_def exported_def interval_seed_def)

lemma mat_ok_inherit:
  assumes "mat_ok m" and "mat_ok new" and "em_epoch m < em_epoch new"
  shows "mat_ok (inherit (Some m) new)"
proof -
  have "e < em_epoch new \<and> seed_ok s" if "(e, s) \<in> set (bt_insert (em_epoch m) (em_transport m) (prior_transport m))" for e s
    using that assms set_bt_insert [of "em_epoch m" "em_transport m" "prior_transport m"]
    by (fastforce simp: mat_ok_def)
  moreover have "interval_seed (inherit (Some m) new) = interval_seed new" by simp
  ultimately show ?thesis
    using assms unfolding mat_ok_def by (auto simp: inherit_def Let_def)
qed

lemma seed_for_inherit:
  assumes "mat_ok m" and "em_epoch m < em_epoch new"
  shows "seed_for (inherit (Some m) new) e =
    (if e = em_epoch new then Some (interval_seed new)
     else if e = em_epoch m then Some (em_transport m)
     else map_of (prior_transport m) e)"
proof -
  have "prior_transport (inherit (Some m) new) = bt_insert (em_epoch m) (em_transport m) (prior_transport m)"
    using assms(2) by (auto simp: inherit_def Let_def)
  then show ?thesis using assms by (simp add: seed_for_def mat_ok_def)
qed

lemma refs_mac_at_inherit:
  assumes "mat_ok m" and "em_epoch m < em_epoch new" and "e \<noteq> em_epoch new"
  shows "refs_mac_at (inherit (Some m) new) e = refs_mac_at m e"
proof -
  have "prior_refs_mac (inherit (Some m) new) = bt_insert (em_epoch m) (em_refs_mac m) (prior_refs_mac m)"
    using assms(2) by (auto simp: inherit_def Let_def)
  then show ?thesis using assms by (simp add: refs_mac_at_def mat_ok_def)
qed

text \<open>
  The grant window: well-formed material derives a key for exactly the epochs at or above its
  history grant for which it holds a seed, none of them in the future; the key is the HKDF output of
  that seed, whatever is drawn at random, and every other epoch is refused by name.
\<close>

theorem epoch_keys_exact:
  assumes "mat_ok m"
  shows "(epoch_key_at P rng rng' m e = Inr k) =
      (em_history_from m \<le> e \<and> e \<le> em_epoch m \<and> (\<exists>s. seed_for m e = Some s \<and> k = key_of_seed P s e)) \<and>
    (e < em_history_from m \<longrightarrow> epoch_key_at P rng rng' m e = Inl (Other (BeforeGrant e (em_history_from m)))) \<and>
    (em_epoch m < e \<longrightarrow> em_history_from m \<le> e \<longrightarrow>
       epoch_key_at P rng rng' m e = Inl (Other (NoTransportSeed e (em_history_from m))))"
  using seed_for_older [OF assms, of e] unfolding epoch_key_at_eq [OF assms]
  by (auto simp: not_less split: option.splits)

definition demo_material :: epoch_material where
  "demo_material = exported 1 (replicate 48 7) (replicate 32 11) 0 []"

lemma mat_ok_demo: "mat_ok demo_material"
  unfolding demo_material_def
  by (rule mat_ok_exported) (simp_all add: seed_ok_def SEC_PARAM_LEN_def word_less_nat_alt unat_DKR_SEGMENT_CAPACITY)

lemma epoch_keys_exact_witness:
  "epoch_key_at demo_prims [] [] demo_material 1 = Inr (key_of_seed demo_prims (replicate 48 7) 1)"
  using epoch_keys_exact [OF mat_ok_demo, of demo_prims "[]" "[]" 1 "key_of_seed demo_prims (replicate 48 7) 1"]
  by (simp add: demo_material_def exported_def seed_for_def interval_seed_def SEC_PARAM_LEN_def)

lemma inherit_keeps_history:
  assumes "mat_ok m" and "interval_seed m = em_transport m"
    and "mat_ok new" and "em_epoch m < em_epoch new" and "em_history_from new = 0"
    and "em_history_from m \<le> e" and "e \<noteq> em_epoch new"
  shows "(epoch_key_at P r r' (inherit (Some m) new) e = Inr k) = (epoch_key_at P q q' m e = Inr k) \<and>
    refs_mac_at (inherit (Some m) new) e = refs_mac_at m e"
proof -
  have "seed_for (inherit (Some m) new) e = seed_for m e"
    unfolding seed_for_inherit [OF assms(1,4)] using assms(2,7) by (simp add: seed_for_def)
  then show ?thesis
    unfolding epoch_key_at_eq [OF mat_ok_inherit [OF assms(1,3,4)]] epoch_key_at_eq [OF assms(1)]
      refs_mac_at_inherit [OF assms(1,4,7)]
    using assms(5,6) by (auto split: option.splits)
qed

text \<open>
  Rotation keeps history readable: after a Commit at a later epoch, a member whose current seed is
  its transport secret derives the same key as before for every epoch its grant covers, and keeps
  the epoch MAC key of every epoch it held one for.
\<close>

theorem rotation_keeps_history:
  assumes "mat_ok m" and "interval_seed m = em_transport m"
    and "mat_ok new" and "em_epoch m < em_epoch new" and "em_history_from new = 0"
    and "em_history_from m \<le> e" and "e \<noteq> em_epoch new"
  shows "(epoch_key_at P r r' (inherit (Some m) new) e = Inr k) = (epoch_key_at P q q' m e = Inr k) \<and>
    refs_mac_at (inherit (Some m) new) e = refs_mac_at m e"
  using assms by (rule inherit_keeps_history)

lemma rotation_keeps_history_witness:
  "epoch_key_at demo_prims [] [] (inherit (Some demo_material) (exported 2 (replicate 48 8) [] 0 (replicate 48 8))) 1 =
     Inr (key_of_seed demo_prims (replicate 48 7) 1)"
proof -
  have "mat_ok (exported 2 (replicate 48 8) [] 0 (replicate 48 8))"
    by (rule mat_ok_exported) (simp_all add: seed_ok_def SEC_PARAM_LEN_def word_less_nat_alt unat_DKR_SEGMENT_CAPACITY)
  from rotation_keeps_history [OF mat_ok_demo _ this, of 1 demo_prims "[]" "[]" _ "[]" "[]"] show ?thesis
    by (simp add: epoch_key_at_eq [OF mat_ok_demo])
      (simp add: demo_material_def exported_def seed_for_def interval_seed_def SEC_PARAM_LEN_def)
qed

text \<open>
  A rotation orphans the epoch of a forward-only invitation: in that epoch the member seals under
  the reseeded token, but \<^verbatim>\<open>inherit\<close> retains the transport secret, so after the next Commit the key
  it derives for the epoch is that of the transport secret and the one it sealed with is gone.
\<close>

theorem rotation_orphans_reseeded_epoch:
  assumes "mat_ok m" and "mat_ok new" and "em_epoch m < em_epoch new" and "em_history_from new = 0"
    and "em_history_from m = 0"
    and "key_of_seed P (em_dkr_token m) (em_epoch m) \<noteq> key_of_seed P (em_transport m) (em_epoch m)"
    and "length (em_dkr_token m) = SEC_PARAM_LEN"
  shows "epoch_key P r r' m = Inr (key_of_seed P (em_dkr_token m) (em_epoch m)) \<and>
    epoch_key_at P r r' (inherit (Some m) new) (em_epoch m) = Inr (key_of_seed P (em_transport m) (em_epoch m)) \<and>
    epoch_key P r r' m \<noteq> epoch_key_at P r r' (inherit (Some m) new) (em_epoch m)"
proof -
  have "seed_for (inherit (Some m) new) (em_epoch m) = Some (em_transport m)"
    unfolding seed_for_inherit [OF assms(1,3)] using assms(3) by auto
  moreover have "seed_for m (em_epoch m) = Some (em_dkr_token m)"
    using assms(7) by (simp add: seed_for_def interval_seed_def)
  ultimately show ?thesis
    unfolding epoch_key_def epoch_key_at_eq [OF mat_ok_inherit [OF assms(1-3)]] epoch_key_at_eq [OF assms(1)]
    using assms(4-6) by simp
qed

lemma rotation_orphans_reseeded_epoch_witness:
  "let m = exported 3 (replicate 48 7) [] 0 (replicate 48 9); new = exported 4 (replicate 48 8) [] 0 (replicate 48 8)
   in epoch_key demo_prims [] [] m \<noteq> epoch_key_at demo_prims [] [] (inherit (Some m) new) 3"
proof -
  have "mat_ok (exported 3 (replicate 48 7) [] 0 (replicate 48 9))" "mat_ok (exported 4 (replicate 48 8) [] 0 (replicate 48 8))"
    by (auto intro!: mat_ok_exported simp: seed_ok_def SEC_PARAM_LEN_def word_less_nat_alt unat_DKR_SEGMENT_CAPACITY)
  moreover have "key_of_seed demo_prims (replicate 48 9) 3 \<noteq> key_of_seed demo_prims (replicate 48 7) 3"
    by (simp add: key_of_seed_def hkdf_sha512_def demo_prims_def fix_len_def AEAD_KEY_LEN_def)
  ultimately show ?thesis
    using rotation_orphans_reseeded_epoch [of "exported 3 (replicate 48 7) [] 0 (replicate 48 9)"
        "exported 4 (replicate 48 8) [] 0 (replicate 48 8)" demo_prims "[]" "[]"]
    by (simp add: Let_def exported_def SEC_PARAM_LEN_def)
qed

end
