(* ===== verification/PushPlan.thy ===== *)
theory PushPlan
  imports Material
begin

text \<open>
  Planning a push and opening a fetched head, the pure part of
  \<^verbatim>\<open>safehub-client/src/pushfetch.rs\<close>: chunking, sealing, the ref head, its signatures, reconciling
  refs after a lost race, and the checks a reader makes.  A seekable reader is its bytes; random
  draws are arguments; the MLS group is what the code uses of it: a signing function, the roster
  keys and whether a keystore exists.
\<close>

section \<open>Data\<close>

record encrypted_chunk =
  ec_meta :: blob_meta
  ec_ciphertext :: bytes

record push_plan =
  pp_push_id :: string
  pp_chunks :: "encrypted_chunk list"
  pp_bundle_root :: blob_id
  pp_dek_wrap :: bytes
  pp_enc_refs :: bytes
  pp_epoch :: u64
  pp_epoch_tag :: bytes

record push_result =
  pr_head_accepted :: ref_head
  pr_head_hash :: head_hash
  pr_refs :: enc_refs_map

record fetch_result =
  fr_head :: ref_head
  fr_refs :: enc_refs_map
  fr_bundle :: bytes

definition REF_ONLY_BUNDLE :: bytes where "REF_ONLY_BUNDLE = str_bytes ''safehub-ref-delete''"

definition is_ref_only_bundle :: "bytes \<Rightarrow> bool" where
  "is_ref_only_bundle b \<longleftrightarrow> b = REF_ONLY_BUNDLE"

definition DEFAULT_UPLOAD_WINDOW :: nat where "DEFAULT_UPLOAD_WINDOW = 8"

definition div_ceil :: "nat \<Rightarrow> nat \<Rightarrow> nat" where
  "div_ceil a b = (if a mod b = 0 then a div b else a div b + 1)"

definition push_round_trips :: "nat \<Rightarrow> nat \<Rightarrow> u64" where
  "push_round_trips n window = 1 + of_nat (div_ceil n (max window 1)) + 1"

section \<open>Chunks\<close>

definition chunk_aad :: "hex_codec \<Rightarrow> repo_id \<Rightarrow> string \<Rightarrow> u32 \<Rightarrow> u32 \<Rightarrow> bytes" where
  "chunk_aad X repo push_id i n =
     domain_label ''bundle-chunk'' @ [0x7C] @
     str_bytes (id_to_hex X repo @ '':'' @ push_id @ '':'' @ word_string i @ '':'' @ word_string n)"

text \<open>
  The loop \<^verbatim>\<open>for i in 0..n\<close>: the buffer takes what is left of the source, up to 4 MiB.  \<open>k\<close> counts the
  iterations left.
\<close>

fun chunk_loop ::
    "prims \<Rightarrow> hex_codec \<Rightarrow> (u32 \<Rightarrow> bytes) \<Rightarrow> repo_id \<Rightarrow> string \<Rightarrow> bytes \<Rightarrow> u32 \<Rightarrow> nat \<Rightarrow> u32 \<Rightarrow> bytes \<Rightarrow>
     client_error + encrypted_chunk list" where
  "chunk_loop P X nonces repo push_id dek n 0 i rest = Inr []"
| "chunk_loop P X nonces repo push_id dek n (Suc k) i rest =
     (let buf = take BUNDLE_CHUNK_SIZE rest
      in rbind (map_err AeadErr (aead_seal P dek (chunk_aad X repo push_id i n) buf (nonces i))) (\<lambda>ct.
           let c = \<lparr>ec_meta = \<lparr>bm_id = blob_id_of_ciphertext P ct, bm_size = of_nat (length ct), chunk_index = i,
                               chunk_count = n, bm_push_id = push_id\<rparr>,
                    ec_ciphertext = ct\<rparr>
           in rbind (chunk_loop P X nonces repo push_id dek n k (i + 1) (drop BUNDLE_CHUNK_SIZE rest))
                (\<lambda>cs. Inr (c # cs))))"

definition chunk_total :: "bytes \<Rightarrow> u32" where
  "chunk_total plaintext =
     (if plaintext = [] then 1 else of_nat (div_ceil (length plaintext) BUNDLE_CHUNK_SIZE))"

definition bundle_chunks_seek ::
    "prims \<Rightarrow> hex_codec \<Rightarrow> (u32 \<Rightarrow> bytes) \<Rightarrow> repo_id \<Rightarrow> string \<Rightarrow> bytes \<Rightarrow> bytes \<Rightarrow>
     client_error + encrypted_chunk list" where
  "bundle_chunks_seek P X nonces repo push_id plaintext dek =
     (let n = chunk_total plaintext
      in chunk_loop P X nonces repo push_id dek n (unat n) 0 plaintext)"

definition open_chunk ::
    "prims \<Rightarrow> hex_codec \<Rightarrow> repo_id \<Rightarrow> string \<Rightarrow> u32 \<Rightarrow> u32 \<Rightarrow> bytes \<Rightarrow> bytes \<Rightarrow> client_error + bytes" where
  "open_chunk P X repo push_id i n dek ct = map_err AeadErr (aead_open P dek (chunk_aad X repo push_id i n) ct)"

section \<open>Heads\<close>

record group_view =
  gv_sign :: "bytes \<Rightarrow> bytes option"
  gv_roster :: "bytes list"

text \<open>What the device stores for the repository: the group, the administrator key, the keystore file.\<close>

record push_keys =
  pk_group :: "group_view option"
  pk_admin :: "mldsa_key_pair option"
  pk_durable :: bool

definition sign_ref_head ::
    "prims \<Rightarrow> refs_json \<Rightarrow> push_keys \<Rightarrow> repo_id \<Rightarrow> ref_head \<Rightarrow> enc_refs_map \<Rightarrow> client_error + ref_head" where
  "sign_ref_head P J K repo h refs =
     (case pk_group K of
        None \<Rightarrow> Inl (Config ''missing durable MLS group'')
      | Some g \<Rightarrow>
          (case gv_sign g (leaf_sign_message h) of
             None \<Rightarrow> Inl (Other MlsFailed)
           | Some s \<Rightarrow>
               let h1 = h\<lparr>pusher_sig := s\<rparr>
               in if non_ff h1
                  then (case pk_admin K of
                          None \<Rightarrow> Inl (Config ''missing admin ML-DSA key'')
                        | Some admin \<Rightarrow>
                            rbind (admin_cosig_sign P admin repo (mls_epoch h1) ''push'' (seq h1) (prev_head_hash h1)
                                     (refs_digest P J refs) (roster_digest P (gv_roster g)))
                              (\<lambda>c. Inr (h1\<lparr>admin_cosig := Some c\<rparr>)))
                  else Inr (h1\<lparr>admin_cosig := None\<rparr>)))"

text \<open>The draws of one plan: the data key, the push id, the chunk nonces, the (unused) DKR seeds.\<close>

record push_draw =
  pd_dek :: bytes
  pd_push_id :: bytes
  pd_nonces :: "u32 \<Rightarrow> bytes"
  pd_dkr :: bytes
  pd_dkr' :: bytes

definition build_push_plan ::
    "prims \<Rightarrow> hex_codec \<Rightarrow> refs_json \<Rightarrow> push_keys \<Rightarrow> push_draw \<Rightarrow> repo_id \<Rightarrow> bytes \<Rightarrow> refs_map \<Rightarrow> string option \<Rightarrow>
     epoch_material \<Rightarrow> head_hash \<Rightarrow> u64 \<Rightarrow> bool \<Rightarrow> bool \<Rightarrow> client_error + push_plan \<times> ref_head \<times> enc_refs_map" where
  "build_push_plan P X J K dr repo bundle git_refs head_symref m prev next_seq nonff sign =
     (let dek = fix_len 32 (pd_dek dr);
          push_id = hex_encode X (fix_len 16 (pd_push_id dr));
          ep = em_epoch m
      in rbind (epoch_key P (pd_dkr dr) (pd_dkr' dr) m) (\<lambda>ke.
         rbind (map_err AeadErr (derive_head_seal_key P ke next_seq)) (\<lambda>seal_key.
         rbind (bundle_chunks_seek P X (pd_nonces dr) repo push_id bundle dek) (\<lambda>chunks.
         let root = sha512 P (concat (map (\<lambda>c. bm_id (ec_meta c)) chunks));
             refs = \<lparr>er_refs = git_refs, er_head = head_symref, er_push_id = push_id,
                     er_chunk_ids = map (\<lambda>c. id_to_hex X (bm_id (ec_meta c))) chunks\<rparr>
         in rbind (ok_or Serde (to_json J refs)) (\<lambda>refs_json.
            rbind (map_err AeadErr (seal_deterministic P seal_key (domain_label ''dek-wrap'') dek 0)) (\<lambda>wrap.
            rbind (map_err AeadErr (seal_deterministic P seal_key (domain_label ''refs'') refs_json 1)) (\<lambda>enc.
              let tag = epoch_tag_bytes P (em_refs_mac m) ep root next_seq;
                  h = \<lparr>repo_id = repo, seq = next_seq, enc_refs = enc, bundle_root = root, dek_wrap = wrap,
                       prev_head_hash = prev, mls_epoch = ep, epoch_tag = tag, non_ff = nonff,
                       pusher_sig = [], admin_cosig = None\<rparr>;
                  plan = \<lparr>pp_push_id = push_id, pp_chunks = chunks, pp_bundle_root = root, pp_dek_wrap = wrap,
                          pp_enc_refs = enc, pp_epoch = ep, pp_epoch_tag = tag\<rparr>
              in rbind (if sign then sign_ref_head P J K repo h refs else Inr h) (\<lambda>h'.
                 Inr (plan, h', refs)))))))))"

definition plan_push_reader ::
    "prims \<Rightarrow> hex_codec \<Rightarrow> refs_json \<Rightarrow> push_keys \<Rightarrow> push_draw \<Rightarrow> repo_id \<Rightarrow> bytes \<Rightarrow> refs_map \<Rightarrow> string option \<Rightarrow>
     epoch_material \<Rightarrow> head_hash \<Rightarrow> u64 \<Rightarrow> bool \<Rightarrow> client_error + push_plan \<times> ref_head \<times> enc_refs_map" where
  "plan_push_reader P X J K dr repo bundle git_refs head_symref m prev next_seq nonff =
     build_push_plan P X J K dr repo bundle git_refs head_symref m prev next_seq nonff (pk_durable K)"

definition plan_push_unsigned ::
    "prims \<Rightarrow> hex_codec \<Rightarrow> refs_json \<Rightarrow> push_keys \<Rightarrow> push_draw \<Rightarrow> repo_id \<Rightarrow> bytes \<Rightarrow> refs_map \<Rightarrow> string option \<Rightarrow>
     epoch_material \<Rightarrow> head_hash \<Rightarrow> u64 \<Rightarrow> bool \<Rightarrow> client_error + push_plan \<times> ref_head \<times> enc_refs_map" where
  "plan_push_unsigned P X J K dr repo bundle git_refs head_symref m prev next_seq nonff =
     build_push_plan P X J K dr repo bundle git_refs head_symref m prev next_seq nonff False"

section \<open>Opening\<close>

definition unwrap_dek :: "prims \<Rightarrow> bytes \<Rightarrow> bytes \<Rightarrow> ref_head \<Rightarrow> epoch_material \<Rightarrow> client_error + bytes" where
  "unwrap_dek P rng rng' h m =
     rbind (epoch_key_at P rng rng' m (mls_epoch h)) (\<lambda>ke.
     rbind (map_err AeadErr (derive_head_seal_key P ke (seq h))) (\<lambda>seal_key.
     rbind (map_err AeadErr (aead_open P seal_key (domain_label ''dek-wrap'') (dek_wrap h))) (\<lambda>b.
       if length b \<noteq> 32 then Inl (Other InvalidDekLength) else Inr b)))"

definition open_refs :: "prims \<Rightarrow> bytes \<Rightarrow> bytes \<Rightarrow> ref_head \<Rightarrow> epoch_material \<Rightarrow> client_error + bytes" where
  "open_refs P rng rng' h m =
     rbind (epoch_key_at P rng rng' m (mls_epoch h)) (\<lambda>ke.
     rbind (map_err AeadErr (derive_head_seal_key P ke (seq h))) (\<lambda>seal_key.
       map_err AeadErr (aead_open P seal_key (domain_label ''refs'') (enc_refs h))))"

definition open_refs_map ::
    "prims \<Rightarrow> refs_json \<Rightarrow> bytes \<Rightarrow> bytes \<Rightarrow> ref_head \<Rightarrow> epoch_material \<Rightarrow> client_error + enc_refs_map" where
  "open_refs_map P J rng rng' h m = rbind (open_refs P rng rng' h m) (\<lambda>raw. ok_or Serde (from_json J raw))"

text \<open>Fetching one head: the loop over the chunk ids, in order; \<open>get\<close> downloads a blob.\<close>

fun fetch_chunks ::
    "prims \<Rightarrow> hex_codec \<Rightarrow> (blob_id \<Rightarrow> client_error + bytes) \<Rightarrow> repo_id \<Rightarrow> string \<Rightarrow> u32 \<Rightarrow> bytes \<Rightarrow> u32 \<Rightarrow> string list \<Rightarrow>
     client_error + bytes" where
  "fetch_chunks P X get repo push_id n dek i [] = Inr []"
| "fetch_chunks P X get repo push_id n dek i (s # ids) =
     rbind (map_err (\<lambda>_. Other BadHex) (blob_id_from_hex X s)) (\<lambda>id.
     rbind (get id) (\<lambda>ct.
     rbind (open_chunk P X repo push_id i n dek ct) (\<lambda>chunk.
     rbind (fetch_chunks P X get repo push_id n dek (i + 1) ids) (\<lambda>plain. Inr (chunk @ plain)))))"

definition fetch_head_bundle ::
    "prims \<Rightarrow> hex_codec \<Rightarrow> refs_json \<Rightarrow> (blob_id \<Rightarrow> client_error + bytes) \<Rightarrow> bytes \<Rightarrow> bytes \<Rightarrow> repo_id \<Rightarrow> epoch_material \<Rightarrow>
     ref_head \<Rightarrow> client_error + fetch_result" where
  "fetch_head_bundle P X J get rng rng' repo m h =
     rbind (open_refs_map P J rng rng' h m) (\<lambda>refs.
       if er_push_id refs = [] \<or> er_chunk_ids refs = [] then Inl (Other MissingFraming)
       else rbind (unwrap_dek P rng rng' h m) (\<lambda>dek.
            rbind (fetch_chunks P X get repo (er_push_id refs) (of_nat (length (er_chunk_ids refs))) dek 0 (er_chunk_ids refs))
              (\<lambda>plain. Inr \<lparr>fr_head = h, fr_refs = refs, fr_bundle = plain\<rparr>)))"

section \<open>What was pushed is fetched\<close>

lemma hkdf_32: "\<exists>k. hkdf_sha512 P a b AEAD_KEY_LEN = Some k"
  by (simp add: hkdf_sha512_def AEAD_KEY_LEN_def)

lemma open_chunk_seal:
  "aead_seal P dek (chunk_aad X repo pid i n) buf nonce = Inr ct \<Longrightarrow> open_chunk P X repo pid i n dek ct = Inr buf"
  unfolding aead_seal_def open_chunk_def
  by (simp add: committing_aead.open_seal [where nonce = "fix_len 12 nonce"])

lemma chunk_loop_fetch:
  assumes "chunk_loop P X nonces repo pid dek n k i rest = Inr cs" and "length rest \<le> k * BUNDLE_CHUNK_SIZE"
    and "\<forall>c \<in> set cs. get (bm_id (ec_meta c)) = Inr (ec_ciphertext c)" and "hex_roundtrips X"
  shows "length cs = k \<and>
    fetch_chunks P X get repo pid n dek i (map (\<lambda>c. id_to_hex X (bm_id (ec_meta c))) cs) = Inr rest"
  using assms(1-3)
proof (induction k arbitrary: i rest cs)
  case (Suc k)
  from Suc.prems(1) obtain ct cs' where
    seal: "aead_seal P dek (chunk_aad X repo pid i n) (take BUNDLE_CHUNK_SIZE rest) (nonces i) = Inr ct"
    and loop: "chunk_loop P X nonces repo pid dek n k (i + 1) (drop BUNDLE_CHUNK_SIZE rest) = Inr cs'"
    and cs: "\<exists>c. cs = c # cs' \<and> bm_id (ec_meta c) = blob_id_of_ciphertext P ct \<and> ec_ciphertext c = ct"
    by (auto simp: Let_def rbind_Inr_conv)
  from cs obtain c where c: "cs = c # cs'" "bm_id (ec_meta c) = blob_id_of_ciphertext P ct" "ec_ciphertext c = ct"
    by blast
  have "blob_id_from_hex X (id_to_hex X (bm_id (ec_meta c))) = Inr (bm_id (ec_meta c))"
    using assms(4) by (simp add: blob_id_from_hex_def id_from_hex_def id_to_hex_def hex_roundtrips_def c(2) blob_id_of_ciphertext_def)
  moreover have "get (bm_id (ec_meta c)) = Inr ct" using Suc.prems(3) by (simp add: c)
  moreover have "open_chunk P X repo pid i n dek ct = Inr (take BUNDLE_CHUNK_SIZE rest)"
    by (rule open_chunk_seal [OF seal])
  moreover have "length cs' = k \<and> fetch_chunks P X get repo pid n dek (i + 1)
      (map (\<lambda>c. id_to_hex X (bm_id (ec_meta c))) cs') = Inr (drop BUNDLE_CHUNK_SIZE rest)"
    using Suc.prems by (intro Suc.IH [OF loop]) (simp_all add: c)
  ultimately show ?case by (simp add: c(1))
qed simp

lemma chunk_loop_ok: "\<exists>cs. chunk_loop P X nonces repo pid dek n k i rest = Inr cs"
proof (induction k arbitrary: i rest)
  case (Suc k)
  obtain ct where "aead_seal P dek (chunk_aad X repo pid i n) (take BUNDLE_CHUNK_SIZE rest) (nonces i) = Inr ct"
    unfolding aead_seal_def using seal_with_nonce_ok by blast
  moreover obtain cs where "chunk_loop P X nonces repo pid dek n k (i + 1) (drop BUNDLE_CHUNK_SIZE rest) = Inr cs"
    using Suc by blast
  ultimately show ?case by (simp add: Let_def)
qed simp

text \<open>A bundle of at most \<open>2^32 - 1\<close> chunks; the code's chunk number is 32 bits wide.\<close>

definition bundle_fits :: "bytes \<Rightarrow> bool" where
  "bundle_fits b \<longleftrightarrow> length b \<le> (2 ^ 32 - 1) * BUNDLE_CHUNK_SIZE"

lemma chunk_total_covers:
  assumes "bundle_fits b"
  shows "0 < unat (chunk_total b) \<and> length b \<le> unat (chunk_total b) * BUNDLE_CHUNK_SIZE"
proof (cases "b = []")
  case False
  let ?S = BUNDLE_CHUNK_SIZE and ?d = "div_ceil (length b) BUNDLE_CHUNK_SIZE"
  have S: "0 < ?S" by (simp add: BUNDLE_CHUNK_SIZE_def)
  have le: "length b \<le> ?d * ?S"
  proof -
    have "length b mod ?S < ?S" using S by simp
    then have up: "length b \<le> length b div ?S * ?S + ?S"
      using div_mult_mod_eq [of "length b" ?S] by linarith
    have "length b mod ?S = 0 \<Longrightarrow> length b \<le> length b div ?S * ?S"
      using div_mult_mod_eq [of "length b" ?S] by linarith
    with up show ?thesis by (cases "length b mod ?S = 0") (simp_all add: div_ceil_def)
  qed
  have "?d \<le> 2 ^ 32 - 1"
  proof -
    have "length b div ?S \<le> 2 ^ 32 - 1"
      using div_le_mono [OF assms [unfolded bundle_fits_def], of ?S] S by simp
    moreover have "length b div ?S \<noteq> 2 ^ 32 - 1" if "length b mod ?S \<noteq> 0"
    proof
      assume eq: "length b div ?S = 2 ^ 32 - 1"
      have "(2 ^ 32 - 1) * ?S + length b mod ?S = length b"
        using div_mult_mod_eq [of "length b" ?S] unfolding eq .
      with assms that show False unfolding bundle_fits_def by linarith
    qed
    ultimately show ?thesis by (auto simp: div_ceil_def)
  qed
  then have "unat (of_nat ?d :: u32) = ?d" by (simp add: unat_of_nat take_bit_nat_eq_self)
  moreover have "0 < ?d" using False le S by (cases "?d = 0") auto
  ultimately show ?thesis using False le by (simp add: chunk_total_def)
qed (simp add: chunk_total_def)

lemma sign_ref_head_keeps:
  "sign_ref_head P J K repo h refs = Inr h' \<Longrightarrow>
     \<exists>s c. h' = h\<lparr>pusher_sig := s, admin_cosig := c\<rparr>"
  by (auto simp: sign_ref_head_def Let_def rbind_Inr_conv split: option.splits if_splits)

text \<open>The shape of every plan: two deterministic boxes under the per-head key, counters 0 and 1.\<close>

lemma build_push_plan_shape:
  assumes "build_push_plan P X J K dr repo bundle git_refs hsym m prev sq nonff sign = Inr (plan, h, refs)"
  obtains ke sk json where
    "epoch_key P (pd_dkr dr) (pd_dkr' dr) m = Inr ke" "derive_head_seal_key P ke sq = Inr sk"
    "to_json J refs = Some json"
    "seal_with_nonce P sk (domain_label ''dek-wrap'') (fix_len 32 (pd_dek dr)) (deterministic_nonce 0) = Inr (dek_wrap h)"
    "seal_with_nonce P sk (domain_label ''refs'') json (deterministic_nonce 1) = Inr (enc_refs h)"
    "bundle_chunks_seek P X (pd_nonces dr) repo (er_push_id refs) bundle (fix_len 32 (pd_dek dr)) = Inr (pp_chunks plan)"
    "refs = \<lparr>er_refs = git_refs, er_head = hsym, er_push_id = hex_encode X (fix_len 16 (pd_push_id dr)),
             er_chunk_ids = map (\<lambda>c. id_to_hex X (bm_id (ec_meta c))) (pp_chunks plan)\<rparr>"
    "repo_id h = repo" "seq h = sq" "prev_head_hash h = prev" "mls_epoch h = em_epoch m" "non_ff h = nonff"
    "epoch_tag h = epoch_tag_bytes P (em_refs_mac m) (em_epoch m) (bundle_root h) sq"
    "bundle_root h = sha512 P (concat (map (\<lambda>c. bm_id (ec_meta c)) (pp_chunks plan)))"
  using assms
  by (auto simp: build_push_plan_def Let_def seal_deterministic_def rbind_Inr_conv ok_or_Inr_iff
      split: if_splits dest!: sign_ref_head_keeps)

lemma planned_bundle_opens:
  assumes "build_push_plan P X J K dr repo bundle git_refs hsym m prev sq nonff sign = Inr (plan, h, refs)"
    and "bundle_fits bundle" and "hex_roundtrips X" and "hex_encode X (fix_len 16 (pd_push_id dr)) \<noteq> []"
    and "\<forall>b. to_json J refs = Some b \<longrightarrow> from_json J b = Some refs"
    and "epoch_key_at P rng rng' m' (em_epoch m) = epoch_key P (pd_dkr dr) (pd_dkr' dr) m"
    and "\<forall>c \<in> set (pp_chunks plan). get (bm_id (ec_meta c)) = Inr (ec_ciphertext c)"
  shows "fetch_head_bundle P X J get rng rng' repo m' h =
      Inr \<lparr>fr_head = h, fr_refs = refs, fr_bundle = bundle\<rparr> \<and>
    er_refs refs = git_refs \<and> er_head refs = hsym"
proof -
  from assms(1) obtain ke sk json where
    ke: "epoch_key P (pd_dkr dr) (pd_dkr' dr) m = Inr ke" and sk: "derive_head_seal_key P ke sq = Inr sk"
    and json: "to_json J refs = Some json"
    and wrap: "seal_with_nonce P sk (domain_label ''dek-wrap'') (fix_len 32 (pd_dek dr)) (deterministic_nonce 0) = Inr (dek_wrap h)"
    and enc: "seal_with_nonce P sk (domain_label ''refs'') json (deterministic_nonce 1) = Inr (enc_refs h)"
    and chunks: "bundle_chunks_seek P X (pd_nonces dr) repo (er_push_id refs) bundle (fix_len 32 (pd_dek dr)) = Inr (pp_chunks plan)"
    and refs: "refs = \<lparr>er_refs = git_refs, er_head = hsym, er_push_id = hex_encode X (fix_len 16 (pd_push_id dr)),
             er_chunk_ids = map (\<lambda>c. id_to_hex X (bm_id (ec_meta c))) (pp_chunks plan)\<rparr>"
    and h: "seq h = sq" "mls_epoch h = em_epoch m"
    by (rule build_push_plan_shape)
  have key: "epoch_key_at P rng rng' m' (em_epoch m) = Inr ke" using assms(6) ke by simp
  have "open_refs_map P J rng rng' h m' = Inr refs"
    using assms(5) json committing_aead.open_seal [OF length_deterministic_nonce enc]
    by (simp add: open_refs_map_def open_refs_def key h sk)
  moreover have "unwrap_dek P rng rng' h m' = Inr (fix_len 32 (pd_dek dr))"
    using committing_aead.open_seal [OF length_deterministic_nonce wrap]
    by (simp add: unwrap_dek_def key h sk)
  moreover have "length (pp_chunks plan) = unat (chunk_total bundle) \<and>
      fetch_chunks P X get repo (er_push_id refs) (chunk_total bundle) (fix_len 32 (pd_dek dr)) 0 (er_chunk_ids refs) = Inr bundle"
    using chunk_loop_fetch [OF chunks [unfolded bundle_chunks_seek_def Let_def] _ assms(7,3)]
      chunk_total_covers [OF assms(2)]
    by (simp add: refs)
  moreover have "er_push_id refs \<noteq> []" "length (er_chunk_ids refs) = length (pp_chunks plan)"
    using assms(4) by (simp_all add: refs)
  ultimately show ?thesis
    using chunk_total_covers [OF assms(2)] by (auto simp: fetch_head_bundle_def) (simp_all add: refs)
qed

lemma chunk_loop_ids:
  "chunk_loop P X nonces repo pid dek n k i rest = Inr cs \<Longrightarrow>
     \<forall>c \<in> set cs. bm_id (ec_meta c) = blob_id_of_ciphertext P (ec_ciphertext c)"
  by (induction k arbitrary: i rest cs) (auto simp: Let_def rbind_Inr_conv)

lemma planned_chunk_ids:
  assumes "build_push_plan P X J K dr repo bundle git_refs hsym m prev sq nonff sign = Inr (plan, h, refs)"
    and "c \<in> set (pp_chunks plan)"
  shows "bm_id (ec_meta c) = blob_id_of_ciphertext P (ec_ciphertext c)"
  using assms(2) by (rule_tac build_push_plan_shape [OF assms(1)])
    (auto simp: bundle_chunks_seek_def Let_def dest: chunk_loop_ids)

text \<open>
  C1.  What was pushed is fetched: if a push plan is built for a bundle and refs, and the host serves the
  planned chunks by their ids, then a member who derives the same epoch key opens the head to exactly
  the planned refs and the original bundle bytes, however many chunks the bundle was cut into.
\<close>

theorem push_fetch_roundtrip:
  assumes "build_push_plan P X J K dr repo bundle git_refs hsym m prev sq nonff sign = Inr (plan, h, refs)"
    and "bundle_fits bundle" and "hex_roundtrips X" and "hex_encode X (fix_len 16 (pd_push_id dr)) \<noteq> []"
    and "\<forall>b. to_json J refs = Some b \<longrightarrow> from_json J b = Some refs"
    and "epoch_key_at P rng rng' m' (em_epoch m) = epoch_key P (pd_dkr dr) (pd_dkr' dr) m"
    and "\<forall>c \<in> set (pp_chunks plan). get (bm_id (ec_meta c)) = Inr (ec_ciphertext c)"
  shows "fetch_head_bundle P X J get rng rng' repo m' h =
      Inr \<lparr>fr_head = h, fr_refs = refs, fr_bundle = bundle\<rparr> \<and>
    er_refs refs = git_refs \<and> er_head refs = hsym"
  using assms by (rule planned_bundle_opens)

lemma build_push_plan_unsigned_ok:
  assumes "epoch_key P (pd_dkr dr) (pd_dkr' dr) m = Inr ke"
    and "\<And>cs. bundle_chunks_seek P X (pd_nonces dr) repo (hex_encode X (fix_len 16 (pd_push_id dr))) bundle (fix_len 32 (pd_dek dr)) = Inr cs \<Longrightarrow>
      \<exists>b. to_json J \<lparr>er_refs = git_refs, er_head = hsym, er_push_id = hex_encode X (fix_len 16 (pd_push_id dr)),
             er_chunk_ids = map (\<lambda>c. id_to_hex X (bm_id (ec_meta c))) cs\<rparr> = Some b"
  shows "\<exists>plan h refs. build_push_plan P X J K dr repo bundle git_refs hsym m prev sq nonff False = Inr (plan, h, refs)"
proof -
  obtain sk where sk: "derive_head_seal_key P ke sq = Inr sk" using derive_seal_keys_ok by blast
  obtain cs where cs: "bundle_chunks_seek P X (pd_nonces dr) repo (hex_encode X (fix_len 16 (pd_push_id dr))) bundle (fix_len 32 (pd_dek dr)) = Inr cs"
    unfolding bundle_chunks_seek_def Let_def using chunk_loop_ok by blast
  from assms(2) [OF cs] obtain b where b: "to_json J \<lparr>er_refs = git_refs, er_head = hsym, er_push_id = hex_encode X (fix_len 16 (pd_push_id dr)),
             er_chunk_ids = map (\<lambda>c. id_to_hex X (bm_id (ec_meta c))) cs\<rparr> = Some b" by blast
  have "0 < MAX_SEALS_PER_KEY" "1 < MAX_SEALS_PER_KEY" by (simp_all add: MAX_SEALS_PER_KEY_def push_bit_eq_mult)
  then obtain w e where "seal_deterministic P sk (domain_label ''dek-wrap'') (fix_len 32 (pd_dek dr)) 0 = Inr w"
    "seal_deterministic P sk (domain_label ''refs'') b 1 = Inr e"
    using seal_deterministic_ok by meson
  then show ?thesis by (simp add: build_push_plan_def assms(1) sk cs b Let_def)
qed

definition demo_draw :: push_draw where
  "demo_draw = \<lparr>pd_dek = [5], pd_push_id = [6], pd_nonces = (\<lambda>_. []), pd_dkr = [], pd_dkr' = []\<rparr>"

lemma demo_epoch_key: "epoch_key demo_prims r r' demo_material = Inr (key_of_seed demo_prims (replicate 48 7) 1)"
  by (simp add: epoch_key_def epoch_key_at_eq [OF mat_ok_demo])
    (simp add: demo_material_def exported_def seed_for_def interval_seed_def SEC_PARAM_LEN_def)

lemma push_fetch_roundtrip_witness:
  "\<exists>J K get plan h refs.
     build_push_plan demo_prims demo_hex J K demo_draw [] [1, 2, 3] [] None demo_material [] 1 False False = Inr (plan, h, refs) \<and>
     fetch_head_bundle demo_prims demo_hex J get [] [] [] demo_material h = Inr \<lparr>fr_head = h, fr_refs = refs, fr_bundle = [1, 2, 3]\<rparr>"
proof -
  let ?pid = "hex_encode demo_hex (fix_len 16 (pd_push_id demo_draw))"
  obtain cs where cs: "bundle_chunks_seek demo_prims demo_hex (pd_nonces demo_draw) [] ?pid [1, 2, 3] (fix_len 32 (pd_dek demo_draw)) = Inr cs"
    unfolding bundle_chunks_seek_def Let_def using chunk_loop_ok by blast
  define J where "J = \<lparr>to_json = (\<lambda>r. Some []), from_json = (\<lambda>_. Some \<lparr>er_refs = [], er_head = None, er_push_id = ?pid,
      er_chunk_ids = map (\<lambda>c. id_to_hex demo_hex (bm_id (ec_meta c))) cs\<rparr>)\<rparr>"
  define K where "K = \<lparr>pk_group = None, pk_admin = None, pk_durable = False\<rparr>"
  from build_push_plan_unsigned_ok [OF demo_epoch_key, where J = J] obtain plan h refs where
    plan: "build_push_plan demo_prims demo_hex J K demo_draw [] [1, 2, 3] [] None demo_material [] 1 False False = Inr (plan, h, refs)"
    by (metis J_def refs_json.select_convs(1))
  from plan cs have pc: "pp_chunks plan = cs"
    by (rule_tac build_push_plan_shape [OF plan]) simp
  have "bundle_fits [1, 2, 3]" by (simp add: bundle_fits_def BUNDLE_CHUNK_SIZE_def)
  have n: "unat (chunk_total [1, 2, 3]) = 1"
    by (simp add: chunk_total_def div_ceil_def BUNDLE_CHUNK_SIZE_def)
  then obtain c where c: "cs = [c]"
    using cs by (auto simp: bundle_chunks_seek_def Let_def rbind_Inr_conv)
  have json: "\<forall>b. to_json J refs = Some b \<longrightarrow> from_json J b = Some refs"
    using plan by (rule_tac build_push_plan_shape [OF plan]) (simp add: J_def pc)
  have "hex_encode demo_hex (fix_len 16 (pd_push_id demo_draw)) \<noteq> []"
    by (simp add: demo_hex_def fix_len_def demo_draw_def)
  from push_fetch_roundtrip [OF plan \<open>bundle_fits _\<close> demo_hex_roundtrips this json, of "[]" "[]" demo_material "\<lambda>_. Inr (ec_ciphertext c)"]
  have "fetch_head_bundle demo_prims demo_hex J (\<lambda>_. Inr (ec_ciphertext c)) [] [] [] demo_material h = Inr \<lparr>fr_head = h, fr_refs = refs, fr_bundle = [1, 2, 3]\<rparr>"
    by (simp add: pc c epoch_key_def [symmetric] demo_epoch_key)
  with plan show ?thesis by blast
qed

section \<open>Two pushes at one position\<close>

text \<open>The masked part of a sealed box: everything between the nonce and the tag.\<close>

definition sealed_body :: "bytes \<Rightarrow> bytes" where
  "sealed_body s = drop 12 (take (length s - TAG_LEN) s)"

lemma xor_pad_append:
  "length a = length p \<Longrightarrow> xor_pad (a @ b) (p @ q) = xor_pad a p @ xor_pad b q"
  by (induction a p rule: xor_pad.induct) auto

lemma xor_pad_self: "xor_pad a a = replicate (length a) 0"
  by (induction a) auto

lemma xor_pad_common:
  "length a = length p \<Longrightarrow> length b = length p \<Longrightarrow> xor_pad (xor_pad a p) (xor_pad b p) = xor_pad a b"
proof (induction a p arbitrary: b rule: xor_pad.induct)
  case (3 x xs y ys)
  then obtain z zs where "b = z # zs" by (cases b) auto
  moreover have "(x XOR y) XOR (z XOR y) = x XOR z"
    by (metis xor.assoc xor.commute xor.right_neutral xor_self_eq)
  ultimately show ?case using 3 by simp
qed auto

lemma two_time_pad:
  assumes "seal_with_nonce P key aad p n = Inr s" and "seal_with_nonce P key aad p' n = Inr s'"
    and "length p = length p'" and "length n = 12"
  shows "xor_pad (sealed_body s) (sealed_body s') = replicate 48 0 @ xor_pad p p'"
proof -
  obtain enc mac where k: "expand_aead_keys P key = Inr (enc, mac)" using expand_aead_keys_ok by blast
  let ?pad = "expand_pad P enc n aad (48 + length p)"
  have "sealed_body s = xor_pad (COMMIT_BLOCK @ p) ?pad" "sealed_body s' = xor_pad (COMMIT_BLOCK @ p') ?pad"
    using assms by (simp_all add: seal_with_nonce_Inr_iff [OF k] Let_def sealed_body_def TAG_LEN_def)
  then have "xor_pad (sealed_body s) (sealed_body s') = xor_pad (COMMIT_BLOCK @ p) (COMMIT_BLOCK @ p')"
    using assms(3) by (simp add: xor_pad_common)
  then show ?thesis by (simp add: xor_pad_append xor_pad_self)
qed

text \<open>
  C39.  Two pushes at one position reuse a key stream: whenever two plans are made under the same epoch
  key for the same sequence number, as racing devices and every interrupted push do, the host that
  sees both heads learns the difference of the two data keys, and the difference of the two ref maps
  when they are equally long, by adding the ciphertexts.  The counters 0 and 1 are unique within a
  plan only.
\<close>

theorem racing_pushes_reuse_pad:
  assumes "build_push_plan P X J K dr repo bundle git_refs hsym m prev sq nonff sign = Inr (plan, h, refs)"
    and "build_push_plan P X J K2 dr2 repo bundle2 git_refs2 hsym2 m2 prev2 sq nonff2 sign2 = Inr (plan2, h2, refs2)"
    and "epoch_key P (pd_dkr dr) (pd_dkr' dr) m = epoch_key P (pd_dkr dr2) (pd_dkr' dr2) m2"
  shows "xor_pad (sealed_body (dek_wrap h)) (sealed_body (dek_wrap h2)) =
      replicate 48 0 @ xor_pad (fix_len 32 (pd_dek dr)) (fix_len 32 (pd_dek dr2)) \<and>
    (\<forall>b b2. to_json J refs = Some b \<longrightarrow> to_json J refs2 = Some b2 \<longrightarrow> length b = length b2 \<longrightarrow>
       xor_pad (sealed_body (enc_refs h)) (sealed_body (enc_refs h2)) = replicate 48 0 @ xor_pad b b2)"
proof -
  from assms(1) obtain ke sk b where 1: "epoch_key P (pd_dkr dr) (pd_dkr' dr) m = Inr ke" "derive_head_seal_key P ke sq = Inr sk"
    "to_json J refs = Some b"
    "seal_with_nonce P sk (domain_label ''dek-wrap'') (fix_len 32 (pd_dek dr)) (deterministic_nonce 0) = Inr (dek_wrap h)"
    "seal_with_nonce P sk (domain_label ''refs'') b (deterministic_nonce 1) = Inr (enc_refs h)"
    by (rule build_push_plan_shape)
  from assms(2) obtain ke2 sk2 b2 where 2: "epoch_key P (pd_dkr dr2) (pd_dkr' dr2) m2 = Inr ke2" "derive_head_seal_key P ke2 sq = Inr sk2"
    "to_json J refs2 = Some b2"
    "seal_with_nonce P sk2 (domain_label ''dek-wrap'') (fix_len 32 (pd_dek dr2)) (deterministic_nonce 0) = Inr (dek_wrap h2)"
    "seal_with_nonce P sk2 (domain_label ''refs'') b2 (deterministic_nonce 1) = Inr (enc_refs h2)"
    by (rule build_push_plan_shape)
  have "sk2 = sk" using 1(1,2) 2(1,2) assms(3) by simp
  then show ?thesis
    using two_time_pad [OF 1(4) 2(4) [unfolded \<open>sk2 = sk\<close>]] two_time_pad [OF 1(5) 2(5) [unfolded \<open>sk2 = sk\<close>]] 1(3) 2(3)
    by simp
qed

lemma racing_pushes_reuse_pad_witness:
  "\<exists>J K plan h refs plan2 h2 refs2.
     build_push_plan demo_prims demo_hex J K demo_draw [] [1] [] None demo_material [] 1 False False = Inr (plan, h, refs) \<and>
     build_push_plan demo_prims demo_hex J K (demo_draw\<lparr>pd_dek := [9]\<rparr>) [] [2] [] None demo_material [] 1 False False = Inr (plan2, h2, refs2) \<and>
     xor_pad (sealed_body (dek_wrap h)) (sealed_body (dek_wrap h2)) = replicate 48 0 @ [0x0C] @ replicate 31 0"
proof -
  define J :: refs_json where "J = \<lparr>to_json = (\<lambda>r. Some []), from_json = (\<lambda>_. None)\<rparr>"
  define K where "K = \<lparr>pk_group = None, pk_admin = None, pk_durable = False\<rparr>"
  have J: "\<exists>b. to_json J r = Some b" for r by (simp add: J_def)
  obtain plan h refs where 1: "build_push_plan demo_prims demo_hex J K demo_draw [] [1] [] None demo_material [] 1 False False = Inr (plan, h, refs)"
    using build_push_plan_unsigned_ok [OF demo_epoch_key J] by blast
  obtain plan2 h2 refs2 where 2: "build_push_plan demo_prims demo_hex J K (demo_draw\<lparr>pd_dek := [9]\<rparr>) [] [2] [] None demo_material [] 1 False False = Inr (plan2, h2, refs2)"
    using build_push_plan_unsigned_ok [OF demo_epoch_key J] by blast
  have "xor_pad (sealed_body (dek_wrap h)) (sealed_body (dek_wrap h2)) = replicate 48 0 @ xor_pad (fix_len 32 [5]) (fix_len 32 [9])"
    using racing_pushes_reuse_pad [OF 1 2] by (simp add: demo_epoch_key) (simp add: demo_draw_def)
  moreover have "xor_pad (fix_len 32 [5]) (fix_len 32 [9]) = [0x0C] @ replicate 31 0"
    by (simp add: fix_len_def numeral_eq_Suc)
  ultimately show ?thesis using 1 2 by metis
qed

end
