(* ===== verification/PushFetch.thy ===== *)
theory PushFetch
  imports PushPlan Storage
begin

text \<open>
  Pushing and fetching against a host, the part of \<^verbatim>\<open>safehub-client/src/pushfetch.rs\<close> that talks to
  it.  A host is what the client calls of it; every call maps the host's state to a new state and a
  result.  Other clients act through \<open>env\<close>, which may change the host's state before each read
  of the tip and before each append.
\<close>

section \<open>Reconciling refs\<close>

definition intended_updates :: "refs_map \<Rightarrow> refs_map \<Rightarrow> refs_map" where
  "intended_updates baseline caller =
     fold (\<lambda>(k, v) m. if map_of baseline k \<noteq> Some v then bt_insert k v m else m) caller []"

definition intended_deletes :: "refs_map \<Rightarrow> refs_map \<Rightarrow> string list" where
  "intended_deletes baseline caller = filter (\<lambda>k. map_of caller k = None) (map fst baseline)"

definition moved_under :: "refs_map \<Rightarrow> refs_map \<Rightarrow> string \<times> oid \<Rightarrow> bool" where
  "moved_under baseline remote = (\<lambda>(k, new_oid).
     case map_of remote k of
       None \<Rightarrow> False
     | Some remote_oid \<Rightarrow>
         (case map_of baseline k of None \<Rightarrow> True | Some b \<Rightarrow> b \<noteq> remote_oid) \<and> remote_oid \<noteq> new_oid)"

definition reconcile_refs_for_cas ::
    "refs_map \<Rightarrow> refs_map \<Rightarrow> refs_map \<Rightarrow> bool \<Rightarrow> client_error + refs_map" where
  "reconcile_refs_for_cas baseline caller remote allow_non_ff =
     (let intended = intended_updates baseline caller;
          deleted = intended_deletes baseline caller
      in if \<not> allow_non_ff \<and> list_ex (moved_under baseline remote) intended then Inl (Other RemoteAdvanced)
         else let merged = fold (\<lambda>(k, v) m. bt_insert k v m) intended remote
              in Inr (if allow_non_ff then fold bt_remove deleted merged else merged))"

definition CAS_BACKOFF_BASE_MS :: nat where "CAS_BACKOFF_BASE_MS = 20"
definition CAS_BACKOFF_MAX_MS :: nat where "CAS_BACKOFF_MAX_MS = 750"

text \<open>\<open>draw\<close> is the value of \<^verbatim>\<open>gen_range(0..=half.max(1))\<close>; the numbers stay far below 64 bits.\<close>

definition cas_backoff :: "nat \<Rightarrow> u32 \<Rightarrow> nat" where
  "cas_backoff draw attempt =
     (let e = CAS_BACKOFF_BASE_MS * 2 ^ (min (unat attempt) 6);
          capped = min e CAS_BACKOFF_MAX_MS;
          half = capped div 2
      in half + min draw (max half 1))"

section \<open>Pushing\<close>

record 'h host =
  hc_tip :: "'h \<Rightarrow> client_error + ref_head option"
  hc_append :: "ref_head \<Rightarrow> 'h \<Rightarrow> 'h \<times> (client_error + head_hash)"
  hc_put :: "blob_meta \<Rightarrow> bytes \<Rightarrow> 'h \<Rightarrow> 'h \<times> (client_error + blob_id)"

text \<open>One wave: all its uploads run, then the first failure is reported.\<close>

fun put_wave :: "'h host \<Rightarrow> encrypted_chunk list \<Rightarrow> 'h \<Rightarrow> 'h \<times> (client_error + unit)" where
  "put_wave H [] s = (s, Inr ())"
| "put_wave H (c # cs) s =
     (case hc_put H (ec_meta c) (ec_ciphertext c) s of
        (s1, r) \<Rightarrow> (case put_wave H cs s1 of
          (s2, r2) \<Rightarrow> (s2, rbind r (\<lambda>_. r2))))"

function put_waves :: "'h host \<Rightarrow> nat \<Rightarrow> encrypted_chunk list \<Rightarrow> 'h \<Rightarrow> 'h \<times> (client_error + unit)" where
  "put_waves H w cs s =
     (if cs = [] \<or> w = 0 then (s, Inr ())
      else case put_wave H (take w cs) s of
        (s1, Inl e) \<Rightarrow> (s1, Inl e)
      | (s1, Inr _) \<Rightarrow> put_waves H w (drop w cs) s1)"
  by pat_completeness auto
termination by (relation "measure (\<lambda>(H, w, cs, s). length cs)") auto

declare put_waves.simps [simp del]

definition DEFAULT_CAS_RETRIES :: nat where "DEFAULT_CAS_RETRIES = 16"

text \<open>
  The retry loop; \<open>r\<close> is the number of retries left, \<open>attempt\<close> the number of the attempt, which picks
  the draws and the moves of the other clients, before the tip is read and before the append.
\<close>

record push_args =
  pa_repo :: repo_id
  pa_bundle :: bytes
  pa_refs :: refs_map
  pa_head :: "string option"
  pa_material :: epoch_material
  pa_non_ff :: bool
  pa_window :: nat

definition upload_window :: "push_args \<Rightarrow> nat" where
  "upload_window a = max (pa_window a) 1"

definition next_position :: "prims \<Rightarrow> ref_head option \<Rightarrow> head_hash \<times> u64" where
  "next_position P tp = (case tp of Some h \<Rightarrow> (ref_head_hash P h, seq h + 1) | None \<Rightarrow> (head_hash_zero, 1))"

definition tip_refs :: "prims \<Rightarrow> refs_json \<Rightarrow> bytes \<Rightarrow> bytes \<Rightarrow> epoch_material \<Rightarrow> ref_head option \<Rightarrow> client_error + refs_map" where
  "tip_refs P J rng rng' m tp =
     (case tp of
        Some h \<Rightarrow> rbind (open_refs_map P J rng rng' h m) (\<lambda>r. Inr (er_refs r))
      | None \<Rightarrow> Inr [])"

definition plan_attempt ::
    "prims \<Rightarrow> hex_codec \<Rightarrow> refs_json \<Rightarrow> push_keys \<Rightarrow> push_draw \<Rightarrow> push_args \<Rightarrow> refs_map \<Rightarrow> ref_head option \<Rightarrow>
     client_error + push_plan \<times> ref_head \<times> enc_refs_map" where
  "plan_attempt P X J K dr a baseline tp =
     (let (prev, next_seq) = next_position P tp
      in rbind (tip_refs P J (pd_dkr dr) (pd_dkr' dr) (pa_material a) tp) (\<lambda>remote.
         rbind (reconcile_refs_for_cas baseline (pa_refs a) remote (pa_non_ff a)) (\<lambda>merged.
           plan_push_reader P X J K dr (pa_repo a) (pa_bundle a) merged (pa_head a) (pa_material a) prev next_seq (pa_non_ff a))))"

fun push_loop ::
    "prims \<Rightarrow> hex_codec \<Rightarrow> refs_json \<Rightarrow> push_keys \<Rightarrow> 'h host \<Rightarrow> (nat \<Rightarrow> push_draw) \<Rightarrow> (nat \<Rightarrow> bool \<Rightarrow> 'h \<Rightarrow> 'h) \<Rightarrow> push_args \<Rightarrow>
     refs_map \<Rightarrow> nat \<Rightarrow> nat \<Rightarrow> 'h \<Rightarrow> 'h \<times> (client_error + push_result)" where
  "push_loop P X J K H draws env a baseline r attempt s0 =
     (let s = env attempt False s0
      in case rbind (hc_tip H s) (plan_attempt P X J K (draws attempt) a baseline) of
           Inl e \<Rightarrow> (s, Inl e)
         | Inr (plan, h, refs) \<Rightarrow>
             (case put_waves H (upload_window a) (pp_chunks plan) s of
                (s1, Inl e) \<Rightarrow> (s1, Inl e)
              | (s1, Inr _) \<Rightarrow>
                  (case hc_append H h (env attempt True s1) of
                     (s2, Inr hash) \<Rightarrow> (s2, Inr \<lparr>pr_head_accepted = h, pr_head_hash = hash, pr_refs = refs\<rparr>)
                   | (s2, Inl e) \<Rightarrow>
                       if is_cas_conflict e
                       then (case r of
                               0 \<Rightarrow> (s2, Inl (Other (LostRace (of_nat attempt))))
                             | Suc r' \<Rightarrow> push_loop P X J K H draws env a baseline r' (Suc attempt) s2)
                       else (s2, Inl e))))"

declare push_loop.simps [simp del]

definition push_bundle_with_retries ::
    "prims \<Rightarrow> hex_codec \<Rightarrow> refs_json \<Rightarrow> push_keys \<Rightarrow> 'h host \<Rightarrow> (nat \<Rightarrow> push_draw) \<Rightarrow> (nat \<Rightarrow> bool \<Rightarrow> 'h \<Rightarrow> 'h) \<Rightarrow> push_args \<Rightarrow>
     nat \<Rightarrow> 'h \<Rightarrow> 'h \<times> (client_error + push_result)" where
  "push_bundle_with_retries P X J K H draws env a max_retries s =
     (case rbind (hc_tip H s) (tip_refs P J (pd_dkr (draws 0)) (pd_dkr' (draws 0)) (pa_material a)) of
        Inl e \<Rightarrow> (s, Inl e)
      | Inr baseline \<Rightarrow> push_loop P X J K H draws env a baseline max_retries 0 s)"

definition push_bundle ::
    "prims \<Rightarrow> hex_codec \<Rightarrow> refs_json \<Rightarrow> push_keys \<Rightarrow> 'h host \<Rightarrow> (nat \<Rightarrow> push_draw) \<Rightarrow> (nat \<Rightarrow> bool \<Rightarrow> 'h \<Rightarrow> 'h) \<Rightarrow> push_args \<Rightarrow>
     'h \<Rightarrow> 'h \<times> (client_error + push_result)" where
  "push_bundle P X J K H draws env a s =
     push_bundle_with_retries P X J K H draws env (a\<lparr>pa_window := DEFAULT_UPLOAD_WINDOW\<rparr>) DEFAULT_CAS_RETRIES s"

text \<open>Sealed objects: release assets, large files, graft snapshots.\<close>

definition put_sealed_object ::
    "prims \<Rightarrow> 'h host \<Rightarrow> bytes \<Rightarrow> epoch_material \<Rightarrow> bytes \<Rightarrow> string \<Rightarrow> 'h \<Rightarrow> 'h \<times> (client_error + blob_id)" where
  "put_sealed_object P H nonce m pt push_id s =
     (case rbind (map_err AeadErr (derive_cas_seal_key P (em_transport m)))
             (\<lambda>key. map_err AeadErr (aead_seal P key (domain_label ''cas-obj'') pt nonce)) of
        Inl e \<Rightarrow> (s, Inl e)
      | Inr ct \<Rightarrow>
          (let id = blob_id_of_ciphertext P ct;
               meta = \<lparr>bm_id = id, bm_size = of_nat (length ct), chunk_index = 0, chunk_count = 1, bm_push_id = push_id\<rparr>
           in case hc_put H meta ct s of
                (s1, Inl e) \<Rightarrow> (s1, Inl e)
              | (s1, Inr _) \<Rightarrow> (s1, Inr id)))"

definition get_sealed_object ::
    "prims \<Rightarrow> (blob_id \<Rightarrow> client_error + bytes) \<Rightarrow> epoch_material \<Rightarrow> blob_id \<Rightarrow> client_error + bytes" where
  "get_sealed_object P get m i =
     rbind (get i) (\<lambda>ct.
     rbind (map_err AeadErr (derive_cas_seal_key P (em_transport m))) (\<lambda>key.
       map_err AeadErr (aead_open P key (domain_label ''cas-obj'') ct)))"

section \<open>Fetching\<close>

text \<open>The leaf check of one head: the first key that verifies, else the last error.\<close>

fun leaf_check :: "prims \<Rightarrow> ref_head \<Rightarrow> client_error option \<Rightarrow> bytes list \<Rightarrow> client_error + unit" where
  "leaf_check P h lst [] = Inl (case lst of None \<Rightarrow> Other (LeafRejected (seq h)) | Some e \<Rightarrow> e)"
| "leaf_check P h lst (vk # vks) =
     (case verify_pusher_sig P h vk of Inr _ \<Rightarrow> Inr () | Inl e \<Rightarrow> leaf_check P h (Some e) vks)"

definition head_check :: "prims \<Rightarrow> epoch_material \<Rightarrow> bytes list \<Rightarrow> ref_head \<Rightarrow> client_error + unit" where
  "head_check P m leaf_vks h =
     rbind
       (case refs_mac_at m (mls_epoch h) of
          Some mk \<Rightarrow> if \<not> verify_epoch_tag P h mk then Inl (Other (EpochTagMismatch (seq h) (mls_epoch h))) else Inr ()
        | None \<Rightarrow> if mls_epoch h > em_epoch m then Inl (Other (EpochBeyond (seq h) (mls_epoch h) (em_epoch m))) else Inr ())
       (\<lambda>_. if leaf_vks \<noteq> [] then leaf_check P h None leaf_vks else Inr ())"

fun check_all :: "('a \<Rightarrow> 'e + unit) \<Rightarrow> 'a list \<Rightarrow> 'e + unit" where
  "check_all f [] = Inr ()"
| "check_all f (x # xs) = rbind (f x) (\<lambda>_. check_all f xs)"

definition verify_fetched_heads ::
    "prims \<Rightarrow> ref_head list \<Rightarrow> epoch_material \<Rightarrow> head_hash option \<Rightarrow> bytes list \<Rightarrow> client_error + unit" where
  "verify_fetched_heads P hs m anchor leaf_vks =
     rbind
       (case anchor of
          Some a \<Rightarrow> verify_head_chain P hs a
        | None \<Rightarrow> (case hs of [] \<Rightarrow> Inr () | h # rest \<Rightarrow> verify_head_chain P rest (ref_head_hash P h)))
       (\<lambda>_. check_all (head_check P m leaf_vks) hs)"

fun fetch_all :: "(ref_head \<Rightarrow> client_error + fetch_result) \<Rightarrow> ref_head list \<Rightarrow> client_error + fetch_result list" where
  "fetch_all f [] = Inr []"
| "fetch_all f (h # hs) = rbind (f h) (\<lambda>r. rbind (fetch_all f hs) (\<lambda>rs. Inr (r # rs)))"

text \<open>The comparison with the tip the host advertises.\<close>

definition tip_check :: "u64 \<Rightarrow> ref_head list \<Rightarrow> ref_head option \<Rightarrow> client_error + unit" where
  "tip_check after_seq hs t =
     (case t of
        None \<Rightarrow> Inr ()
      | Some th \<Rightarrow>
          if hs \<noteq> []
          then (if seq (last hs) < seq th then Inl (Other (Truncated_log (seq (last hs)) (seq th))) else Inr ())
          else (if seq th > after_seq then Inl (Other (NoHeadsServed after_seq (seq th))) else Inr ()))"

text \<open>\<open>served\<close> and \<open>tp\<close> are the host's answers to the two requests.\<close>

definition fetch_bundles_since ::
    "prims \<Rightarrow> hex_codec \<Rightarrow> refs_json \<Rightarrow> bytes list \<Rightarrow> (blob_id \<Rightarrow> client_error + bytes) \<Rightarrow> bytes \<Rightarrow> bytes \<Rightarrow>
     (u64 \<Rightarrow> client_error + ref_head list) \<Rightarrow> (client_error + ref_head option) \<Rightarrow> repo_id \<Rightarrow> epoch_material \<Rightarrow> u64 \<Rightarrow>
     head_hash option \<Rightarrow> client_error + fetch_result list" where
  "fetch_bundles_since P X J leaf_vks get rng rng' served tp repo m after_seq anchor =
     rbind (served after_seq) (\<lambda>heads0.
       let heads1 = sort_key seq heads0;
           heads2 = (if em_history_from m > 0 then filter (\<lambda>h. mls_epoch h \<ge> em_history_from m) heads1 else heads1);
           anchor2 = (if em_history_from m > 0 \<and> length heads2 \<noteq> length heads1 then None else anchor)
       in rbind (verify_fetched_heads P heads2 m anchor2 leaf_vks) (\<lambda>_.
          rbind tp (\<lambda>t.
          rbind (tip_check after_seq heads2 t)
            (\<lambda>_. fetch_all (fetch_head_bundle P X J get rng rng' repo m) heads2))))"

definition fetch_tip ::
    "prims \<Rightarrow> hex_codec \<Rightarrow> refs_json \<Rightarrow> (blob_id \<Rightarrow> client_error + bytes) \<Rightarrow> bytes \<Rightarrow> bytes \<Rightarrow>
     (client_error + ref_head option) \<Rightarrow> repo_id \<Rightarrow> epoch_material \<Rightarrow> client_error + fetch_result option" where
  "fetch_tip P X J get rng rng' tp repo m =
     rbind tp (\<lambda>t. case t of
       None \<Rightarrow> Inr None
     | Some h \<Rightarrow> rbind (fetch_head_bundle P X J get rng rng' repo m h) (\<lambda>r. Inr (Some r)))"

section \<open>Properties of reconciling\<close>

lemma map_of_fold_bt_insert:
  assumes "bt_wf m"
  shows "bt_wf (fold (\<lambda>(k, v) m. bt_insert k v m) ps m) \<and>
    (distinct (map fst ps) \<longrightarrow> map_of (fold (\<lambda>(k, v) m. bt_insert k v m) ps m) k = (map_of m ++ map_of ps) k)"
  using assms
proof (induction ps arbitrary: m)
  case (Cons p ps)
  have none: "fst p \<notin> fst ` set ps \<Longrightarrow> map_of ps (fst p) = None" by (simp add: map_of_eq_None_iff)
  show ?case
    using Cons.IH [of "bt_insert (fst p) (snd p) m"] Cons.prems none
    by (cases p) (auto simp: map_add_def split: option.splits)
qed simp

lemma moved_under_iff:
  "moved_under baseline remote (k, v) \<longleftrightarrow> (\<exists>r. map_of remote k = Some r \<and> map_of baseline k \<noteq> Some r \<and> r \<noteq> v)"
  by (auto simp: moved_under_def split: option.splits)

lemma intended_updates_eq:
  "intended_updates baseline caller = bt_collect (filter (\<lambda>(k, v). map_of baseline k \<noteq> Some v) caller)"
proof -
  have "fold (\<lambda>(k, v) m. if map_of baseline k \<noteq> Some v then bt_insert k v m else m) caller m =
      fold (\<lambda>(k, v) m. bt_insert k v m) (filter (\<lambda>(k, v). map_of baseline k \<noteq> Some v) caller) m" for m
    by (induction caller arbitrary: m) (auto split: prod.splits)
  then show ?thesis by (simp add: intended_updates_def bt_collect_def)
qed

lemma bt_wf_filter: "bt_wf m \<Longrightarrow> bt_wf (filter p m)"
  unfolding bt_wf_def sorted_wrt_map by (rule sorted_wrt_filter)

lemma intended_updates_filter:
  "bt_wf caller \<Longrightarrow> intended_updates baseline caller = filter (\<lambda>(k, v). map_of baseline k \<noteq> Some v) caller"
  by (simp add: intended_updates_eq bt_collect_sorted bt_wf_filter)

lemma map_of_intended:
  assumes "bt_wf caller"
  shows "map_of (intended_updates baseline caller) k =
    (if map_of caller k \<noteq> map_of baseline k then map_of caller k else None)"
proof -
  let ?f = "filter (\<lambda>(k, v). map_of baseline k \<noteq> Some v) caller"
  have wf: "bt_wf ?f" by (rule bt_wf_filter [OF assms])
  show ?thesis
  proof (cases "map_of ?f k")
    case None
    then have "\<forall>v. (k, v) \<notin> set ?f" using bt_wf_Some_iff [OF wf] by (metis option.distinct(1))
    then have "\<forall>v. map_of caller k = Some v \<longrightarrow> map_of baseline k = Some v"
      using bt_wf_Some_iff [OF assms] by auto
    with None show ?thesis unfolding intended_updates_filter [OF assms] by (cases "map_of caller k") auto
  next
    case (Some v)
    then have "(k, v) \<in> set ?f" using bt_wf_Some_iff [OF wf] by blast
    then have "map_of caller k = Some v" "map_of baseline k \<noteq> Some v" using bt_wf_Some_iff [OF assms] by auto
    with Some show ?thesis unfolding intended_updates_filter [OF assms] by auto
  qed
qed

lemma bt_remove_fold:
  "map_of (fold bt_remove ks m) k = (if k \<in> set ks then None else map_of m k) \<and> (bt_wf m \<longrightarrow> bt_wf (fold bt_remove ks m))"
  by (induction ks arbitrary: m) auto

lemma reconcile_cases:
  assumes "bt_wf caller" and "bt_wf remote"
  shows "(\<not> force \<and> (\<exists>k v r. map_of caller k = Some v \<and> map_of baseline k \<noteq> Some v \<and>
            map_of remote k = Some r \<and> map_of baseline k \<noteq> Some r \<and> r \<noteq> v)
          \<longrightarrow> reconcile_refs_for_cas baseline caller remote force = Inl (Other RemoteAdvanced)) \<and>
    (\<not> (\<not> force \<and> (\<exists>k v r. map_of caller k = Some v \<and> map_of baseline k \<noteq> Some v \<and>
            map_of remote k = Some r \<and> map_of baseline k \<noteq> Some r \<and> r \<noteq> v))
          \<longrightarrow> (\<exists>merged. reconcile_refs_for_cas baseline caller remote force = Inr merged \<and> bt_wf merged \<and>
             (\<forall>k. map_of merged k =
               (if map_of caller k \<noteq> None \<and> map_of caller k \<noteq> map_of baseline k then map_of caller k
                else if force \<and> map_of baseline k \<noteq> None \<and> map_of caller k = None then None
                else map_of remote k))))"
proof -
  let ?i = "intended_updates baseline caller"
  have wf: "bt_wf ?i" unfolding intended_updates_filter [OF assms(1)] by (rule bt_wf_filter [OF assms(1)])
  have moved: "list_ex (moved_under baseline remote) ?i \<longleftrightarrow>
      (\<exists>k v r. map_of caller k = Some v \<and> map_of baseline k \<noteq> Some v \<and> map_of remote k = Some r \<and>
         map_of baseline k \<noteq> Some r \<and> r \<noteq> v)"
  proof -
    have "list_ex (moved_under baseline remote) ?i \<longleftrightarrow> (\<exists>k v. map_of ?i k = Some v \<and> moved_under baseline remote (k, v))"
      using bt_wf_Some_iff [OF wf] by (auto simp: list_ex_iff)
    moreover have "map_of ?i k = Some v \<longleftrightarrow> map_of caller k = Some v \<and> map_of baseline k \<noteq> Some v" for k v
      unfolding map_of_intended [OF assms(1)] by auto
    ultimately show ?thesis
      unfolding moved_under_iff by blast
  qed
  have dist: "distinct (map fst ?i)" by (rule bt_wf_distinct [OF wf])
  have del: "k \<in> set (intended_deletes baseline caller) \<longleftrightarrow> map_of baseline k \<noteq> None \<and> map_of caller k = None" for k
    by (auto simp: intended_deletes_def map_of_eq_None_iff)
  let ?m = "fold (\<lambda>(k, v) m. bt_insert k v m) ?i remote"
  have m: "bt_wf ?m" "map_of ?m k = (if map_of caller k \<noteq> None \<and> map_of caller k \<noteq> map_of baseline k then map_of caller k else map_of remote k)" for k
    using map_of_fold_bt_insert [OF assms(2), of ?i k] dist
    by (auto simp: map_add_def map_of_intended [OF assms(1)] split: option.splits)
  have "bt_wf (if force then fold bt_remove (intended_deletes baseline caller) ?m else ?m)"
    using m(1) bt_remove_fold [of "intended_deletes baseline caller" ?m] by (cases force) simp_all
  moreover have "map_of (if force then fold bt_remove (intended_deletes baseline caller) ?m else ?m) k =
      (if map_of caller k \<noteq> None \<and> map_of caller k \<noteq> map_of baseline k then map_of caller k
       else if force \<and> map_of baseline k \<noteq> None \<and> map_of caller k = None then None
       else map_of remote k)" for k
    using m(2) [of k] bt_remove_fold [of _ ?m k] del [of k] by auto
  ultimately show ?thesis
    unfolding reconcile_refs_for_cas_def Let_def moved by auto
qed

lemma reconcile_same_baseline:
  assumes "reconcile_refs_for_cas remote caller remote force = Inr merged" and "bt_wf caller" and "bt_wf remote"
  shows "map_of merged = (if force then map_of caller else map_of remote ++ map_of caller)"
proof
  fix k
  have "\<exists>merged. reconcile_refs_for_cas remote caller remote force = Inr merged \<and>
      (\<forall>k. map_of merged k =
         (if map_of caller k \<noteq> None \<and> map_of caller k \<noteq> map_of remote k then map_of caller k
          else if force \<and> map_of remote k \<noteq> None \<and> map_of caller k = None then None
          else map_of remote k))"
    using reconcile_cases [OF assms(2,3), of force remote] by blast
  with assms(1) show "map_of merged k = (if force then map_of caller else map_of remote ++ map_of caller) k"
    by (auto simp: map_add_def split: option.splits)
qed

text \<open>
  C17.  Reconciling after a lost race: without force the push is refused exactly when some ref it changes
  was moved by somebody else to a third value; otherwise the result has, for every ref name, the
  caller's value where the caller changed it, nothing where a forced push deletes it, and the
  remote's value everywhere else, so refs that others pushed in the meantime survive.
\<close>

theorem reconcile_exact:
  assumes "bt_wf caller" and "bt_wf remote"
  shows "(\<not> force \<and> (\<exists>k v r. map_of caller k = Some v \<and> map_of baseline k \<noteq> Some v \<and>
            map_of remote k = Some r \<and> map_of baseline k \<noteq> Some r \<and> r \<noteq> v)
          \<longrightarrow> reconcile_refs_for_cas baseline caller remote force = Inl (Other RemoteAdvanced)) \<and>
    (\<not> (\<not> force \<and> (\<exists>k v r. map_of caller k = Some v \<and> map_of baseline k \<noteq> Some v \<and>
            map_of remote k = Some r \<and> map_of baseline k \<noteq> Some r \<and> r \<noteq> v))
          \<longrightarrow> (\<exists>merged. reconcile_refs_for_cas baseline caller remote force = Inr merged \<and> bt_wf merged \<and>
             (\<forall>k. map_of merged k =
               (if map_of caller k \<noteq> None \<and> map_of caller k \<noteq> map_of baseline k then map_of caller k
                else if force \<and> map_of baseline k \<noteq> None \<and> map_of caller k = None then None
                else map_of remote k))))"
  using assms by (rule reconcile_cases)

lemma reconcile_exact_witness:
  "reconcile_refs_for_cas [(''a'', ''1''), (''b'', ''1'')] [(''a'', ''2''), (''b'', ''1'')] [(''a'', ''1''), (''b'', ''3'')] False
     = Inr [(''a'', ''2''), (''b'', ''3'')] \<and>
   reconcile_refs_for_cas [(''a'', ''1'')] [(''a'', ''2'')] [(''a'', ''3'')] False = Inl (Other RemoteAdvanced)"
proof -
  have wf: "bt_wf [(''a'', ''2''), (''b'', ''1'')]" "bt_wf [(''a'', ''1''), (''b'', ''3'')]" "bt_wf [(''a'', ''2'')]" "bt_wf [(''a'', ''3'')]"
    by (simp_all add: bt_wf_def)
  have "reconcile_refs_for_cas [(''a'', ''1'')] [(''a'', ''2'')] [(''a'', ''3'')] False = Inl (Other RemoteAdvanced)"
    using reconcile_exact [OF wf(3,4), of False "[(''a'', ''1'')]"] by simp
  moreover have "reconcile_refs_for_cas [(''a'', ''1''), (''b'', ''1'')] [(''a'', ''2''), (''b'', ''1'')] [(''a'', ''1''), (''b'', ''3'')] False
     = Inr [(''a'', ''2''), (''b'', ''3'')]"
    by (simp add: reconcile_refs_for_cas_def intended_updates_def moved_under_def Let_def)
  ultimately show ?thesis by blast
qed

section \<open>What a reader accepts\<close>

lemma leaf_check_ok:
  "leaf_check P h lst vks = Inr () \<longleftrightarrow> (\<exists>vk \<in> set vks. valid_sig P vk (leaf_sign_message h) (pusher_sig h))"
proof (induction vks arbitrary: lst)
  case (Cons vk vks)
  then show ?case
    using verify_pusher_sig_ok [of P h vk] by (cases "verify_pusher_sig P h vk") auto
qed simp

lemma check_all_ok: "check_all f xs = Inr () \<longleftrightarrow> (\<forall>x \<in> set xs. f x = Inr ())"
  by (induction xs) (auto simp: rbind_Inr_conv)

text \<open>A head that this member can vouch for: its epoch tag and one of the roster's signatures.\<close>

definition authentic :: "prims \<Rightarrow> epoch_material \<Rightarrow> bytes list \<Rightarrow> ref_head \<Rightarrow> bool" where
  "authentic P m leaf_vks h \<longleftrightarrow>
     (case refs_mac_at m (mls_epoch h) of
        Some mk \<Rightarrow> epoch_tag h = epoch_tag_bytes P mk (mls_epoch h) (bundle_root h) (seq h)
      | None \<Rightarrow> mls_epoch h \<le> em_epoch m) \<and>
     (leaf_vks = [] \<or> (\<exists>vk \<in> set leaf_vks. valid_sig P vk (leaf_sign_message h) (pusher_sig h)))"

lemma head_check_ok: "head_check P m leaf_vks h = Inr () \<longleftrightarrow> authentic P m leaf_vks h"
  by (auto simp: head_check_def authentic_def rbind_Inr_conv leaf_check_ok verify_epoch_tag_iff split: option.splits if_splits)

lemma verify_fetched_heads_ok:
  "verify_fetched_heads P hs m anchor leaf_vks = Inr () \<longleftrightarrow>
     (case anchor of
        Some a \<Rightarrow> linked P a hs \<and> consecutive hs
      | None \<Rightarrow> (case hs of [] \<Rightarrow> True | h # rest \<Rightarrow> linked P (ref_head_hash P h) rest \<and> consecutive rest)) \<and>
     (\<forall>h \<in> set hs. authentic P m leaf_vks h)"
  by (auto simp: verify_fetched_heads_def rbind_Inr_conv check_all_ok head_check_ok verify_head_chain_ok
      split: option.splits list.splits)

lemma fetch_head_bundle_head: "fetch_head_bundle P X J get r r' repo m h = Inr res \<Longrightarrow> fr_head res = h"
  by (auto simp: fetch_head_bundle_def rbind_Inr_conv split: if_splits)

lemma tip_check_ok:
  "tip_check after hs t = Inr () \<longleftrightarrow> (\<forall>th. t = Some th \<longrightarrow> seq th \<le> (if hs = [] then after else seq (last hs)))"
  by (auto simp: tip_check_def not_less split: option.splits)

lemma fetch_all_iff:
  "fetch_all (fetch_head_bundle P X J get rng rng' repo m) hs = Inr rs \<longleftrightarrow>
     map fr_head rs = hs \<and> (\<forall>r \<in> set rs. fetch_head_bundle P X J get rng rng' repo m (fr_head r) = Inr r)"
proof (induction hs arbitrary: rs)
  case (Cons h hs)
  then show ?case by (cases rs) (auto simp: rbind_Inr_conv dest: fetch_head_bundle_head)
qed auto

text \<open>The two conditionals of the fetch on the member's history, as one filter.\<close>

lemma fetch_bundles_since_kept:
  "fetch_bundles_since P X J leaf_vks get rng rng' served tp repo m after anchor =
     rbind (served after) (\<lambda>page.
       let hs = filter (\<lambda>h. em_history_from m \<le> mls_epoch h) (sort_key seq page)
       in rbind (verify_fetched_heads P hs m (if length hs = length page then anchor else None) leaf_vks) (\<lambda>_.
          rbind tp (\<lambda>t.
          rbind (tip_check after hs t) (\<lambda>_. fetch_all (fetch_head_bundle P X J get rng rng' repo m) hs))))"
proof -
  have flip: "(if a \<noteq> b then None else anchor) = (if a = b then anchor else None)" for a b :: nat by simp
  show ?thesis
    by (cases "em_history_from m = 0") (simp_all add: fetch_bundles_since_def word_gt_0 flip)
qed

text \<open>The checks before opening, over the results that are returned.\<close>

lemma fetched_run_checks:
  assumes "map fr_head rs = hs"
  shows "verify_fetched_heads P hs m b leaf_vks = Inr () \<longleftrightarrow>
      (case b of Some a \<Rightarrow> linked P a (map fr_head rs) \<and> consecutive (map fr_head rs)
       | None \<Rightarrow> rs = [] \<or> linked P (ref_head_hash P (fr_head (hd rs))) (map fr_head (tl rs)) \<and>
           consecutive (map fr_head (tl rs))) \<and>
      (\<forall>r \<in> set rs. authentic P m leaf_vks (fr_head r))"
    and "tip_check after hs t = Inr () \<longleftrightarrow>
       (\<forall>th. t = Some th \<longrightarrow> seq th \<le> (if rs = [] then after else seq (fr_head (last rs))))"
  unfolding verify_fetched_heads_ok tip_check_ok assms [symmetric]
  by (auto simp: last_map split: option.split list.split)

text \<open>
  C5.  What a fetch returns, exactly: it succeeds with \<open>rs\<close> if and only if the host answered a page of
  heads and a tip, \<open>rs\<close> are the opened bundles of that page in the order of their positions, without
  the heads of epochs before the member's history, each head carries the epoch tag of a key the
  member holds (or is of an older epoch it holds no key for) and a signature of the roster when one
  is known, the positions are consecutive, and the last one reaches the tip.  If no head was left
  out, the first one links to the trusted hash where the caller gave one; if heads before the
  member's history were left out, or there is no trusted hash, the chain and the positions are
  checked from the first head on and nothing ties that head to what the member trusted.
\<close>

theorem fetch_sound:
  "(fetch_bundles_since P X J leaf_vks get rng rng' served tp repo m after anchor = Inr rs) =
    (\<exists>page t. served after = Inr page \<and> tp = Inr t \<and>
       map fr_head rs = filter (\<lambda>h. em_history_from m \<le> mls_epoch h) (sort_key seq page) \<and>
       (case (if length rs = length page then anchor else None) of
          Some a \<Rightarrow> linked P a (map fr_head rs) \<and> consecutive (map fr_head rs)
        | None \<Rightarrow> rs = [] \<or> linked P (ref_head_hash P (fr_head (hd rs))) (map fr_head (tl rs)) \<and>
            consecutive (map fr_head (tl rs))) \<and>
       (\<forall>r \<in> set rs. authentic P m leaf_vks (fr_head r) \<and>
          fetch_head_bundle P X J get rng rng' repo m (fr_head r) = Inr r) \<and>
       (\<forall>th. t = Some th \<longrightarrow> seq th \<le> (if rs = [] then after else seq (fr_head (last rs)))))"
proof -
  define kept where "kept page = filter (\<lambda>h. em_history_from m \<le> mls_epoch h) (sort_key seq page)" for page :: "ref_head list"
  have len: "length (kept page) = length rs" if "map fr_head rs = kept page" for page
    using that by (metis length_map)
  have code: "fetch_bundles_since P X J leaf_vks get rng rng' served tp repo m after anchor = Inr rs \<longleftrightarrow>
      (\<exists>page t. served after = Inr page \<and> tp = Inr t \<and> map fr_head rs = kept page \<and>
         verify_fetched_heads P (kept page) m (if length rs = length page then anchor else None) leaf_vks = Inr () \<and>
         tip_check after (kept page) t = Inr () \<and>
         (\<forall>r \<in> set rs. fetch_head_bundle P X J get rng rng' repo m (fr_head r) = Inr r))"
    unfolding fetch_bundles_since_kept Let_def rbind_Inr_conv fetch_all_iff kept_def [symmetric]
    by (auto simp: len split del: if_split)
  show ?thesis
    unfolding code kept_def [symmetric]
    by (rule ex_cong1, rule ex_cong1, rule conj_cong [OF refl], rule conj_cong [OF refl],
        rule conj_cong [OF refl], simp only: fetched_run_checks) blast
qed

text \<open>The part of it that the checkout builds on: with full history nothing is left out.\<close>

lemma fetch_links:
  assumes "fetch_bundles_since P X J leaf_vks get rng rng' served tp repo m after (Some a) = Inr rs"
    and "em_history_from m = 0"
  shows "linked P a (map fr_head rs)"
  using assms by (auto simp: fetch_bundles_since_def rbind_Inr_conv Let_def fetch_all_iff verify_fetched_heads_ok)

text \<open>
  The checks on fetched heads, exactly: a run is accepted if and only if it links to the trusted
  hash without gap (without one: the heads after the first link to it, and nothing is asked of the
  first), and every head carries the right epoch tag, or belongs to an older epoch the member has no
  key for, and, when the roster is known, a leaf signature of one of its keys.
\<close>

theorem fetched_heads_exact:
  "(verify_fetched_heads P hs m (Some a) leaf_vks = Inr ()) =
     (linked P a hs \<and> consecutive hs \<and> list_all (authentic P m leaf_vks) hs) \<and>
   (verify_fetched_heads P (h # hs) m None leaf_vks = Inr ()) =
     (linked P (ref_head_hash P h) hs \<and> consecutive hs \<and> list_all (authentic P m leaf_vks) (h # hs))"
  by (simp add: verify_fetched_heads_ok list_all_iff)

lemma fetch_head_bundle_signed:
  "fetch_head_bundle P X J get rng rng' repo m (h\<lparr>pusher_sig := s\<rparr>) =
     rbind (fetch_head_bundle P X J get rng rng' repo m h) (\<lambda>r. Inr (r\<lparr>fr_head := h\<lparr>pusher_sig := s\<rparr>\<rparr>))"
  by (simp add: fetch_head_bundle_def open_refs_map_def open_refs_def unwrap_dek_def rbind_def split: sum.split)

text \<open>
  A signed head at position 1 after the empty log, on a roster of one key, with the host naming it as
  the tip: the fetch returns its bundle, so the theorem's right side holds for a run of one head.
\<close>

lemma fetch_sound_witness:
  "\<exists>J get h r. seq h = 1 \<and> linked demo_prims head_hash_zero [h] \<and> pusher_sig h \<noteq> [] \<and>
     authentic demo_prims demo_material [replicate 2592 2] h \<and> fr_head r = h \<and> fr_bundle r = [1, 2, 3] \<and>
     fetch_bundles_since demo_prims demo_hex J [replicate 2592 2] get [] [] (\<lambda>_. Inr [h]) (Inr (Some h)) [] demo_material 0
       (Some head_hash_zero) = Inr [r]"
proof -
  let ?pid = "hex_encode demo_hex (fix_len 16 (pd_push_id demo_draw))" and ?vk = "replicate 2592 2 :: bytes"
  obtain cs where cs: "bundle_chunks_seek demo_prims demo_hex (pd_nonces demo_draw) [] ?pid [1, 2, 3] (fix_len 32 (pd_dek demo_draw)) = Inr cs"
    unfolding bundle_chunks_seek_def Let_def using chunk_loop_ok by blast
  define J where "J = \<lparr>to_json = (\<lambda>r. Some []), from_json = (\<lambda>_. Some \<lparr>er_refs = [], er_head = None, er_push_id = ?pid,
      er_chunk_ids = map (\<lambda>c. id_to_hex demo_hex (bm_id (ec_meta c))) cs\<rparr>)\<rparr>"
  define K where "K = \<lparr>pk_group = None, pk_admin = None, pk_durable = False\<rparr>"
  from build_push_plan_unsigned_ok [OF demo_epoch_key, where J = J] obtain plan h0 refs where
    plan: "build_push_plan demo_prims demo_hex J K demo_draw [] [1, 2, 3] [] None demo_material head_hash_zero 1 False False = Inr (plan, h0, refs)"
    by (metis J_def refs_json.select_convs(1))
  have pc: "pp_chunks plan = cs" and json: "\<forall>b. to_json J refs = Some b \<longrightarrow> from_json J b = Some refs"
    using cs by (rule_tac [!] build_push_plan_shape [OF plan]) (simp_all add: J_def)
  obtain c where c: "cs = [c]"
    using cs by (auto simp: bundle_chunks_seek_def chunk_total_def div_ceil_def BUNDLE_CHUNK_SIZE_def Let_def rbind_Inr_conv)
  define get where "get = (\<lambda>_ :: blob_id. Inr (ec_ciphertext c) :: client_error + bytes)"
  have opened: "fetch_head_bundle demo_prims demo_hex J get [] [] [] demo_material h0 = Inr \<lparr>fr_head = h0, fr_refs = refs, fr_bundle = [1, 2, 3]\<rparr>"
    by (rule planned_bundle_opens [OF plan _ demo_hex_roundtrips _ json, THEN conjunct1])
      (simp_all add: bundle_fits_def BUNDLE_CHUNK_SIZE_def demo_hex_def fix_len_def demo_draw_def get_def pc c
        epoch_key_def [symmetric] demo_epoch_key [unfolded demo_draw_def])
  define h where "h = h0\<lparr>pusher_sig := replicate MLDSA87_SIG_LEN 0\<rparr>"
  let ?r = "\<lparr>fr_head = h, fr_refs = refs, fr_bundle = [1, 2, 3]\<rparr>"
  have r: "fetch_head_bundle demo_prims demo_hex J get [] [] [] demo_material h = Inr ?r"
    unfolding h_def fetch_head_bundle_signed opened by simp
  have fields: "seq h = 1" "prev_head_hash h = head_hash_zero" "mls_epoch h = em_epoch demo_material"
    "epoch_tag h = epoch_tag_bytes demo_prims (em_refs_mac demo_material) (mls_epoch h) (bundle_root h) (seq h)"
    by (rule_tac [!] build_push_plan_shape [OF plan]) (simp_all add: h_def)
  have sig: "valid_sig demo_prims ?vk (leaf_sign_message h) (pusher_sig h)"
    by (simp add: valid_sig_iff demo_prims_def h_def MLDSA87_SIG_LEN_def)
  have auth: "authentic demo_prims demo_material [?vk] h"
    using sig fields(3,4) by (simp add: authentic_def refs_mac_at_def)
  have "fetch_bundles_since demo_prims demo_hex J [?vk] get [] [] (\<lambda>_. Inr [h]) (Inr (Some h)) [] demo_material 0
       (Some head_hash_zero) = Inr [?r]"
    by (subst fetch_sound) (simp add: demo_material_def exported_def r [unfolded demo_material_def exported_def] auth [unfolded demo_material_def exported_def] fields(1,2))
  moreover have "linked demo_prims head_hash_zero [h]" "pusher_sig h \<noteq> []"
    using fields(2) by (simp_all add: h_def MLDSA87_SIG_LEN_def)
  ultimately show ?thesis using fields(1) auth by force
qed

section \<open>The push loop against a compare-and-swap host\<close>

lemma plan_attempt_head:
  assumes "plan_attempt P X J K dr a baseline tp = Inr (plan, h, refs)"
  shows "prev_head_hash h = fst (next_position P tp) \<and> seq h = snd (next_position P tp) \<and> repo_id h = pa_repo a \<and>
    (\<exists>remote. tip_refs P J (pd_dkr dr) (pd_dkr' dr) (pa_material a) tp = Inr remote \<and>
       reconcile_refs_for_cas baseline (pa_refs a) remote (pa_non_ff a) = Inr (er_refs refs))"
  using assms
  by (auto simp: plan_attempt_def plan_push_reader_def rbind_Inr_conv split: prod.splits
      elim!: build_push_plan_shape)

lemma length_sealed:
  assumes "seal_with_nonce P key aad pt n = Inr s"
  shows "length s = length n + 48 + length pt + TAG_LEN"
proof -
  obtain enc mac where k: "expand_aead_keys P key = Inr (enc, mac)" using expand_aead_keys_ok by blast
  show ?thesis using assms by (simp add: seal_with_nonce_Inr_iff [OF k] Let_def)
qed

lemma planned_storable:
  assumes "build_push_plan P X J K dr repo bundle git_refs hsym m prev sq nonff False = Inr (plan, h, refs)"
    and "length repo = 32" and "length prev = 64" and "\<forall>b. to_json J refs = Some b \<longrightarrow> length b < 2 ^ 31"
  shows "storable repo h"
proof -
  from assms(1) obtain ke sk b where
    "to_json J refs = Some b"
    "seal_with_nonce P sk (domain_label ''dek-wrap'') (fix_len 32 (pd_dek dr)) (deterministic_nonce 0) = Inr (dek_wrap h)"
    "seal_with_nonce P sk (domain_label ''refs'') b (deterministic_nonce 1) = Inr (enc_refs h)"
    "repo_id h = repo" "prev_head_hash h = prev"
    "epoch_tag h = epoch_tag_bytes P (em_refs_mac m) (em_epoch m) (bundle_root h) sq"
    "bundle_root h = sha512 P (concat (map (\<lambda>c. bm_id (ec_meta c)) (pp_chunks plan)))"
    by (rule build_push_plan_shape)
  note f = this
  have "pusher_sig h = []" "admin_cosig h = None"
    using assms(1) by (auto simp: build_push_plan_def Let_def rbind_Inr_conv)
  moreover have "length (epoch_tag h) \<le> 32" by (simp add: f(6) epoch_tag_bytes_def)
  moreover have "length b < 2 ^ 31" using assms(4) f(1) by blast
  ultimately show ?thesis
    using assms(2,3) length_sealed [OF f(2)] length_sealed [OF f(3)]
    by (simp add: storable_def head_wf_def opaque_ok_def opaque_fits_def f(4,5,7) TAG_LEN_def)
qed

lemma plan_attempt_storable:
  assumes "plan_attempt P X J K dr a baseline tp = Inr (plan, h, refs)"
    and "length (pa_repo a) = 32" and "\<not> pk_durable K" and "\<forall>r b. to_json J r = Some b \<longrightarrow> length b < 2 ^ 31"
  shows "storable (pa_repo a) h"
proof -
  have "length (fst (next_position P tp)) = 64"
    by (auto simp: next_position_def split: option.splits)
  with assms show ?thesis
    by (auto simp: plan_attempt_def plan_push_reader_def rbind_Inr_conv split: prod.splits intro: planned_storable)
qed

text \<open>Every field of a signed head fits its length prefix.\<close>

lemma signed_storable:
  assumes "sign_ref_head P J K repo h0 refs = Inr h" and "storable repo h0"
    and "\<forall>g m s. pk_group K = Some g \<longrightarrow> gv_sign g m = Some s \<longrightarrow> opaque_fits s"
  shows "storable repo h"
proof -
  have cosig: "opaque_fits c" if "admin_cosig_sign P a r e k q ph rd md = Inr c" for a r e k q ph rd md c
    using that by (auto simp: admin_cosig_sign_def kp_sign_def sign_with_seed_def opaque_fits_def map_err_def rbind_Inr_conv
        split: if_splits sum.splits)
  show ?thesis
    using assms cosig
    by (auto simp: sign_ref_head_def Let_def rbind_Inr_conv storable_def head_wf_def opaque_ok_def split: option.splits if_splits)
qed

lemma chunk_loop_length: "chunk_loop P X nonces repo pid dek n k i rest = Inr cs \<Longrightarrow> length cs = k"
  by (induction k arbitrary: i rest cs) (auto simp: Let_def rbind_Inr_conv)

lemma chunk_loop_meta:
  assumes "chunk_loop P X nonces repo pid dek n k i rest = Inr cs"
  shows "\<forall>j < k. ec_meta (cs ! j) = \<lparr>bm_id = blob_id_of_ciphertext P (ec_ciphertext (cs ! j)),
    bm_size = of_nat (length (ec_ciphertext (cs ! j))), chunk_index = i + of_nat j, chunk_count = n, bm_push_id = pid\<rparr> \<and>
    length (ec_ciphertext (cs ! j)) \<le> BUNDLE_CHUNK_SIZE + 124"
  using assms
proof (induction k arbitrary: i rest cs)
  case (Suc k)
  from Suc.prems obtain ct cs' where
    seal: "aead_seal P dek (chunk_aad X repo pid i n) (take BUNDLE_CHUNK_SIZE rest) (nonces i) = Inr ct"
    and loop: "chunk_loop P X nonces repo pid dek n k (i + 1) (drop BUNDLE_CHUNK_SIZE rest) = Inr cs'"
    and cs: "cs = \<lparr>ec_meta = \<lparr>bm_id = blob_id_of_ciphertext P ct, bm_size = of_nat (length ct), chunk_index = i,
                     chunk_count = n, bm_push_id = pid\<rparr>, ec_ciphertext = ct\<rparr> # cs'"
    by (auto simp: Let_def rbind_Inr_conv)
  have "length ct = 12 + 48 + length (take BUNDLE_CHUNK_SIZE rest) + TAG_LEN"
    using length_sealed [of P dek _ _ "fix_len 12 (nonces i)" ct] seal by (simp add: aead_seal_def)
  then have len: "length ct \<le> BUNDLE_CHUNK_SIZE + 124" by (simp add: TAG_LEN_def)
  show ?case
  proof (intro allI impI)
    fix j assume "j < Suc k"
    then show "ec_meta (cs ! j) = \<lparr>bm_id = blob_id_of_ciphertext P (ec_ciphertext (cs ! j)),
      bm_size = of_nat (length (ec_ciphertext (cs ! j))), chunk_index = i + of_nat j, chunk_count = n, bm_push_id = pid\<rparr> \<and>
      length (ec_ciphertext (cs ! j)) \<le> BUNDLE_CHUNK_SIZE + 124"
      using Suc.IH [OF loop] len by (cases j) (simp_all add: cs add.assoc)
  qed
qed simp

text \<open>
  C27.  Plans are well formed: the head of every plan, signed or not, is one the host's store accepts, its
  arrays and opaque fields within their lengths; its chunks are numbered from 0 without gap, all carry
  their number, push id, size and hash, and no ciphertext exceeds a chunk by more than the 124 bytes
  of nonce, commitment and tag.
\<close>

theorem plan_well_formed:
  assumes "build_push_plan P X J K dr repo bundle git_refs hsym m prev sq nonff sign = Inr (plan, h, refs)"
    and "length repo = 32" and "length prev = 64" and "bundle_fits bundle"
    and "\<forall>b. to_json J refs = Some b \<longrightarrow> length b < 2 ^ 31"
    and "\<forall>g m s. pk_group K = Some g \<longrightarrow> gv_sign g m = Some s \<longrightarrow> opaque_fits s"
  shows "storable repo h \<and> length (pp_chunks plan) = unat (chunk_total bundle) \<and>
    (\<forall>j < length (pp_chunks plan). ec_meta (pp_chunks plan ! j) =
       \<lparr>bm_id = blob_id_of_ciphertext P (ec_ciphertext (pp_chunks plan ! j)),
        bm_size = of_nat (length (ec_ciphertext (pp_chunks plan ! j))), chunk_index = of_nat j,
        chunk_count = chunk_total bundle, bm_push_id = er_push_id refs\<rparr> \<and>
       length (ec_ciphertext (pp_chunks plan ! j)) \<le> BUNDLE_CHUNK_SIZE + 124)"
proof -
  from assms(1) obtain h0 where un: "build_push_plan P X J K dr repo bundle git_refs hsym m prev sq nonff False = Inr (plan, h0, refs)"
    and h: "h = h0 \<or> sign_ref_head P J K repo h0 refs = Inr h"
    by (cases sign) (auto simp: build_push_plan_def Let_def rbind_Inr_conv)
  have "storable repo h0" by (rule planned_storable [OF un assms(2,3,5)])
  then have "storable repo h" using h signed_storable assms(6) by blast
  moreover from assms(1) have chunks: "bundle_chunks_seek P X (pd_nonces dr) repo (er_push_id refs) bundle (fix_len 32 (pd_dek dr)) = Inr (pp_chunks plan)"
    by (rule build_push_plan_shape)
  moreover have "length (pp_chunks plan) = unat (chunk_total bundle)"
    by (rule chunk_loop_length [OF chunks [unfolded bundle_chunks_seek_def Let_def]])
  ultimately show ?thesis
    using chunk_loop_meta [OF chunks [unfolded bundle_chunks_seek_def Let_def]] by simp
qed

lemma plan_well_formed_witness:
  "\<exists>J K plan h refs.
     build_push_plan demo_prims demo_hex J K demo_draw (replicate 32 1) [1, 2, 3] [] None demo_material head_hash_zero 1 False False
       = Inr (plan, h, refs) \<and> storable (replicate 32 1) h \<and> length (pp_chunks plan) = 1"
proof -
  define J :: refs_json where "J = \<lparr>to_json = (\<lambda>r. Some []), from_json = (\<lambda>_. None)\<rparr>"
  define K where "K = \<lparr>pk_group = None, pk_admin = None, pk_durable = False\<rparr>"
  obtain plan h refs where
    b: "build_push_plan demo_prims demo_hex J K demo_draw (replicate 32 1) [1, 2, 3] [] None demo_material head_hash_zero 1 False False
       = Inr (plan, h, refs)"
    using build_push_plan_unsigned_ok [OF demo_epoch_key, where J = J] by (metis J_def refs_json.select_convs(1))
  have "bundle_fits [1, 2, 3]" "unat (chunk_total [1, 2, 3]) = 1"
    by (simp_all add: bundle_fits_def BUNDLE_CHUNK_SIZE_def chunk_total_def div_ceil_def)
  with plan_well_formed [OF b] b show ?thesis by (simp add: J_def K_def) blast
qed

text \<open>What every upload keeps, a push of any number of chunks keeps.\<close>

lemma put_wave_invariant:
  assumes "\<And>m c s. Q s \<Longrightarrow> Q (fst (hc_put H m c s))" and "Q s"
  shows "Q (fst (put_wave H cs s))"
  using assms(2)
proof (induction cs arbitrary: s)
  case (Cons c cs)
  then show ?case
    using assms(1) by (auto split: prod.splits) (metis fst_conv)
qed simp

lemma put_waves_invariant:
  assumes "\<And>m c s. Q s \<Longrightarrow> Q (fst (hc_put H m c s))" and "Q s"
  shows "Q (fst (put_waves H w cs s))"
  using assms(2)
proof (induction "length cs" arbitrary: cs s rule: less_induct)
  case less
  show ?case
  proof (cases "cs = [] \<or> w = 0")
    case True
    then show ?thesis using less.prems by (simp add: put_waves.simps)
  next
    case False
    then show ?thesis
      using put_wave_invariant [of Q H s "take w cs", OF assms(1) less.prems] less.hyps [of "drop w cs"]
      by (subst put_waves.simps) (auto split: prod.splits sum.splits)
  qed
qed

text \<open>
  A host for pushes is a compare-and-swap log with uploads that leave the log alone, whose conflict
  error the client recognises, and which refuses a head at a wrong position.
\<close>

locale push_host = cas_log P log_inv ltip lappend lsince acceptable conflict
  for P :: prims and log_inv :: "'s \<Rightarrow> ref_head list \<Rightarrow> bool" and ltip :: "'s \<Rightarrow> client_error + ref_head option"
    and lappend :: "ref_head \<Rightarrow> 's \<Rightarrow> 's \<times> (client_error + head_hash)"
    and lsince :: "u64 \<Rightarrow> 's \<Rightarrow> client_error + ref_head list" and acceptable :: "ref_head \<Rightarrow> bool"
    and conflict :: "head_hash \<Rightarrow> client_error" +
  fixes put :: "blob_meta \<Rightarrow> bytes \<Rightarrow> 's \<Rightarrow> 's \<times> (client_error + blob_id)"
  assumes put_keeps: "log_inv s l \<Longrightarrow> log_inv (fst (put m c s)) l"
    and conflict_is: "is_cas_conflict (conflict x)"
    and wrong_seq: "log_inv s l \<Longrightarrow> acceptable h \<Longrightarrow>
        prev_head_hash h = (if l = [] then head_hash_zero else ref_head_hash P (last l)) \<Longrightarrow>
        seq h \<noteq> of_nat (length l) + 1 \<Longrightarrow> \<exists>e. lappend h s = (s, Inl e) \<and> \<not> is_cas_conflict e"
begin

definition H :: "'s host" where
  "H = \<lparr>hc_tip = ltip, hc_append = lappend, hc_put = put\<rparr>"

lemma H_simps [simp]: "hc_tip H = ltip" "hc_append H = lappend" "hc_put H = put"
  by (simp_all add: H_def)

lemma put_waves_keeps: "log_inv s l \<Longrightarrow> log_inv (fst (put_waves H w cs s)) l"
  by (rule put_waves_invariant [where Q = "\<lambda>s. log_inv s l"]) (simp_all add: put_keeps)

text \<open>Other clients only append, and the log stays below the range of positions.\<close>

definition others_append :: "(nat \<Rightarrow> bool \<Rightarrow> 's \<Rightarrow> 's) \<Rightarrow> bool" where
  "others_append env \<longleftrightarrow> (\<forall>i j s l. log_inv s l \<longrightarrow> length l + 1 < 2 ^ 64 \<longrightarrow>
     (\<exists>l'. log_inv (env i j s) (l @ l') \<and> length (l @ l') + 1 < 2 ^ 64))"

lemma next_position_log:
  assumes "log_inv s l"
  shows "next_position P (if l = [] then None else Some (last l)) = (next_prev l, of_nat (length l) + 1)"
proof (cases "l = []")
  case False
  then have "seq (last l) = of_nat (length l - 1) + 1"
    using shape_law [OF assms] by (simp add: last_conv_nth)
  moreover have "of_nat (length l - 1) + 1 = (of_nat (length l) :: u64)"
    using False by (cases l) simp_all
  ultimately show ?thesis using False by (simp add: next_position_def next_prev_def)
qed (simp add: next_position_def next_prev_def)

text \<open>
  The outcome of the loop.  Success: the log is the old one, heads of others, and the pushed head.
  Failure: planning or uploading failed, or more heads of others were appended than there were
  retries, or two different prefixes of the log have the same hash.
\<close>

definition pushed :: "hex_codec \<Rightarrow> refs_json \<Rightarrow> push_keys \<Rightarrow> (nat \<Rightarrow> push_draw) \<Rightarrow> push_args \<Rightarrow> refs_map \<Rightarrow> ref_head list \<Rightarrow> 's \<Rightarrow> push_result \<Rightarrow> bool" where
  "pushed X J K draws a baseline l s' res \<longleftrightarrow>
     (\<exists>others n plan. log_inv s' (l @ others @ [pr_head_accepted res]) \<and>
        pr_head_hash res = ref_head_hash P (pr_head_accepted res) \<and>
        plan_attempt P X J K (draws n) a baseline (if l @ others = [] then None else Some (last (l @ others)))
          = Inr (plan, pr_head_accepted res, pr_refs res))"

definition push_failed :: "hex_codec \<Rightarrow> refs_json \<Rightarrow> push_keys \<Rightarrow> (nat \<Rightarrow> push_draw) \<Rightarrow> push_args \<Rightarrow> refs_map \<Rightarrow> ref_head list \<Rightarrow> nat \<Rightarrow> 's \<Rightarrow> client_error \<Rightarrow> bool" where
  "push_failed X J K draws a baseline l r s' e \<longleftrightarrow>
     (\<exists>n tp. plan_attempt P X J K (draws n) a baseline tp = Inl e) \<or>
     (\<exists>w cs s1 s2. put_waves H w cs s1 = (s2, Inl e)) \<or>
     (\<exists>others. log_inv s' (l @ others) \<and> r < length others) \<or>
     (\<exists>s1 l1 l2. l2 \<noteq> [] \<and> log_inv s1 (l1 @ l2) \<and> next_prev l1 = next_prev (l1 @ l2))"

lemma of_nat_inj_u64:
  assumes "a < 2 ^ 64" and "b < 2 ^ 64"
  shows "(of_nat a :: u64) = of_nat b \<longleftrightarrow> a = b"
proof -
  have "unat (of_nat a :: u64) = a" "unat (of_nat b :: u64) = b"
    using assms by (simp_all add: unat_of_nat take_bit_nat_eq_self)
  then show ?thesis by metis
qed

lemma next_position_moves:
  assumes "l2 \<noteq> []" and "length (l1 @ l2) + 1 < 2 ^ 64"
  shows "of_nat (length l1) + 1 \<noteq> (of_nat (length (l1 @ l2)) + 1 :: u64)"
proof -
  have "length l1 < 2 ^ 64" "length (l1 @ l2) < 2 ^ 64" using assms(2) by simp_all
  then have "(of_nat (length l1) :: u64) = of_nat (length (l1 @ l2)) \<longleftrightarrow> length l1 = length (l1 @ l2)"
    by (rule of_nat_inj_u64)
  with assms(1) show ?thesis by (metis add_right_cancel append_Nil2 length_append length_0_conv add_cancel_right_right)
qed

text \<open>One append of a planned head after the others moved: it lands, loses the race, or hits a collision.\<close>

lemma append_after_others:
  assumes "log_inv s (l1 @ l2)" and "length (l1 @ l2) + 1 < 2 ^ 64" and "acceptable h"
    and "prev_head_hash h = next_prev l1" and "seq h = of_nat (length l1) + 1"
  obtains (landed) s' where "l2 = []" "lappend h s = (s', Inr (ref_head_hash P h))" "log_inv s' (l1 @ [h])"
  | (lost) e where "l2 \<noteq> []" "lappend h s = (s, Inl e)" "is_cas_conflict e"
  | (collision) e where "l2 \<noteq> []" "next_prev l1 = next_prev (l1 @ l2)" "lappend h s = (s, Inl e)" "\<not> is_cas_conflict e"
proof -
  consider "l2 = []" | "l2 \<noteq> []" "next_prev l1 \<noteq> next_prev (l1 @ l2)" | "l2 \<noteq> []" "next_prev l1 = next_prev (l1 @ l2)"
    by blast
  then show thesis
  proof cases
    case 1
    then show ?thesis
      using append_law [of s l1 h] assms by (intro landed [of "fst (lappend h s)"]) (simp_all add: next_prev_def prod_eq_iff)
  next
    case 2
    then show ?thesis
      using conflict_law [OF assms(1,3)] assms(4) conflict_is by (intro lost) (simp_all add: next_prev_def)
  next
    case 3
    then obtain e where "lappend h s = (s, Inl e)" "\<not> is_cas_conflict e"
      using wrong_seq [OF assms(1,3)] assms(2,4,5) next_position_moves [of l2 l1] by (auto simp: next_prev_def)
    with 3 show ?thesis by (intro collision) auto
  qed
qed

definition plans_acceptable :: "hex_codec \<Rightarrow> refs_json \<Rightarrow> push_keys \<Rightarrow> (nat \<Rightarrow> push_draw) \<Rightarrow> push_args \<Rightarrow> refs_map \<Rightarrow> bool" where
  "plans_acceptable X J K draws a baseline \<longleftrightarrow>
     (\<forall>n tp plan h refs. plan_attempt P X J K (draws n) a baseline tp = Inr (plan, h, refs) \<longrightarrow> acceptable h)"

lemma push_loop_attempt:
  assumes "others_append env" and s: "log_inv s l" "length l + 1 < 2 ^ 64"
    and acc: "plans_acceptable X J K draws a baseline"
    and run: "push_loop P X J K H draws env a baseline r n s = (s', out)"
  obtains (failed) e where "out = Inl e" "push_failed X J K draws a baseline l r s' e"
  | (success) res where "out = Inr res" "pushed X J K draws a baseline l s' res"
  | (again) r' s3 l' where "r = Suc r'" "l' \<noteq> []" "log_inv s3 (l @ l')" "length (l @ l') + 1 < 2 ^ 64"
      "push_loop P X J K H draws env a baseline r' (Suc n) s3 = (s', out)"
proof -
  obtain l1 where l1: "log_inv (env n False s) (l @ l1)" "length (l @ l1) + 1 < 2 ^ 64"
    using assms(1) s unfolding others_append_def by blast
  define t where "t = (if l @ l1 = [] then None else Some (last (l @ l1)))"
  let ?s1 = "env n False s"
  have "ltip ?s1 = Inr t" unfolding t_def by (rule tip_law [OF l1(1)])
  note unfold = push_loop.simps [of P X J K H draws env a baseline r] this
  show thesis
  proof (cases "plan_attempt P X J K (draws n) a baseline t")
    case (Inl e)
    then show ?thesis using run by (intro failed [of e]) (auto simp: unfold push_failed_def)
  next
    case (Inr p)
    then obtain plan h refs where p: "plan_attempt P X J K (draws n) a baseline t = Inr (plan, h, refs)"
      by (cases p) auto
    obtain s2 w where put: "put_waves H (upload_window a) (pp_chunks plan) ?s1 = (s2, w)" by fastforce
    show ?thesis
    proof (cases w)
      case (Inl e)
      then show ?thesis using run p put by (intro failed [of e]) (auto simp: unfold push_failed_def)
    next
      case (Inr u)
      have "log_inv s2 (l @ l1)"
        using put_waves_keeps [OF l1(1), of "upload_window a" "pp_chunks plan"] put by simp
      then obtain l2 where l2: "log_inv (env n True s2) ((l @ l1) @ l2)" "length ((l @ l1) @ l2) + 1 < 2 ^ 64"
        using assms(1) l1(2) unfolding others_append_def by blast
      have pos: "prev_head_hash h = next_prev (l @ l1)" "seq h = of_nat (length (l @ l1)) + 1"
        using plan_attempt_head [OF p] next_position_log [OF l1(1), folded t_def] by simp_all
      note unfold = unfold p put Inr
      have "acceptable h" using acc p unfolding plans_acceptable_def by blast
      from l2 this pos show ?thesis
      proof (cases rule: append_after_others)
        case (landed s4)
        then show ?thesis
          using run p [unfolded t_def]
          by (intro success [of "\<lparr>pr_head_accepted = h, pr_head_hash = ref_head_hash P h, pr_refs = refs\<rparr>"])
            (simp add: unfold, unfold pushed_def, intro exI [of _ l1] exI [of _ n] exI [of _ plan], simp add: unfold)
      next
        case (lost e)
        then have rest: "(case r of 0 \<Rightarrow> (env n True s2, Inl (Other (LostRace (of_nat n))))
            | Suc r' \<Rightarrow> push_loop P X J K H draws env a baseline r' (Suc n) (env n True s2)) = (s', out)"
          using run by (simp add: unfold)
        show ?thesis
        proof (cases r)
          case 0
          then show ?thesis using rest lost l2(1)
            by (intro failed [of "Other (LostRace (of_nat n))"])
              (auto simp: push_failed_def intro!: exI [of _ "l1 @ l2"])
        next
          case (Suc r')
          then show ?thesis using rest lost l2 by (intro again [of r' "l1 @ l2"]) auto
        qed
      next
        case (collision e)
        then have "push_failed X J K draws a baseline l r s' e"
          using l2(1) unfolding push_failed_def by blast
        then show ?thesis using run collision by (intro failed [of e]) (simp_all add: unfold)
      qed
    qed
  qed
qed

lemma pushed_shift: "pushed X J K draws a baseline (l @ l') s' res \<Longrightarrow> pushed X J K draws a baseline l s' res"
  unfolding pushed_def by (metis append_assoc)

lemma push_failed_shift:
  "push_failed X J K draws a baseline (l @ l') r s' e \<Longrightarrow> l' \<noteq> [] \<Longrightarrow> push_failed X J K draws a baseline l (Suc r) s' e"
proof -
  assume fail: "push_failed X J K draws a baseline (l @ l') r s' e" and l': "l' \<noteq> []"
  have "\<exists>others. log_inv s' (l @ others) \<and> Suc r < length others"
    if "log_inv s' ((l @ l') @ others)" "r < length others" for others
    using that l' by (intro exI [of _ "l' @ others"]) (cases l', simp_all)
  with fail show ?thesis unfolding push_failed_def by blast
qed

lemma push_loop_outcome:
  assumes "others_append env" and "log_inv s l" and "length l + 1 < 2 ^ 64"
    and "plans_acceptable X J K draws a baseline"
    and "push_loop P X J K H draws env a baseline r n s = (s', out)"
  shows "case out of Inr res \<Rightarrow> pushed X J K draws a baseline l s' res
     | Inl e \<Rightarrow> push_failed X J K draws a baseline l r s' e"
  using assms(2,3,5)
proof (induction r arbitrary: n s l)
  case 0
  from assms(1) 0(1,2) assms(4) 0(3) show ?case
    by (cases rule: push_loop_attempt) auto
next
  case (Suc r)
  from assms(1) Suc.prems(1,2) assms(4) Suc.prems(3) show ?case
  proof (cases rule: push_loop_attempt)
    case (again r' s3 l')
    then have run: "push_loop P X J K H draws env a baseline r (Suc n) s3 = (s', out)" by simp
    have "case out of Inr res \<Rightarrow> pushed X J K draws a baseline (l @ l') s' res
        | Inl e \<Rightarrow> push_failed X J K draws a baseline (l @ l') r s' e"
      by (rule Suc.IH [OF again(3,4) run])
    then show ?thesis
      using again(2) pushed_shift push_failed_shift by (auto split: sum.splits)
  qed auto
qed

text \<open>Nobody else around, nothing failing: the push lands at the first attempt, right after the old log.\<close>

lemma push_alone:
  assumes "log_inv s l" and "length l + 1 < 2 ^ 64"
    and "plan_attempt P X J K (draws n) a baseline (if l = [] then None else Some (last l)) = Inr (plan, h, refs)"
    and "acceptable h" and "put_waves H (upload_window a) (pp_chunks plan) s = (s1, Inr ())"
  shows "push_loop P X J K H draws (\<lambda>_ _ s. s) a baseline r n s =
      (fst (lappend h s1), Inr \<lparr>pr_head_accepted = h, pr_head_hash = ref_head_hash P h, pr_refs = refs\<rparr>) \<and>
    log_inv (fst (lappend h s1)) (l @ [h])"
proof -
  have s1: "log_inv s1 l" using put_waves_keeps [OF assms(1), of "upload_window a" "pp_chunks plan"] assms(5) by simp
  have pos: "prev_head_hash h = next_prev l" "seq h = of_nat (length l) + 1"
    using plan_attempt_head [OF assms(3)] next_position_log [OF assms(1)] by simp_all
  have "log_inv s1 (l @ [])" "length (l @ []) + 1 < 2 ^ 64" using s1 assms(2) by simp_all
  from this assms(4) pos show ?thesis
  proof (cases rule: append_after_others)
    case (landed s')
    then show ?thesis
      using assms(3,5) by (simp add: push_loop.simps [of P X J K H] tip_law [OF assms(1)])
  qed simp_all
qed

end

end
