(* ===== verification/Http.thy ===== *)
theory Http
  imports PushFetch Server
begin

text \<open>
  The HTTP client, \<^verbatim>\<open>safehub-client/src/http.rs\<close>, against the handlers of the host: each method is
  the request the client makes composed with the handler that answers it.  JSON, base64 and the
  transport pass values unchanged; response bodies of errors are empty.  The paging loop is the
  client's own.
\<close>

section \<open>Methods\<close>

definition http_put_blob ::
    "prims \<Rightarrow> hex_codec \<Rightarrow> blob_parsers \<Rightarrow> (blob_meta \<Rightarrow> string) \<Rightarrow> token_record \<Rightarrow> repo_id \<Rightarrow> blob_meta \<Rightarrow> bytes \<Rightarrow>
     server_state \<Rightarrow> server_state \<times> (client_error + blob_id)" where
  "http_put_blob P X B show_meta au repo m ct sv =
     apsnd (map_err (\<lambda>st. Api st []))
       (put_blob P X B au (id_to_hex X repo) ''application/octet-stream'' (Some (show_meta m)) ct sv)"

definition http_get_blob ::
    "hex_codec \<Rightarrow> token_record \<Rightarrow> repo_id \<Rightarrow> server_state \<Rightarrow> blob_id \<Rightarrow> client_error + bytes" where
  "http_get_blob X au repo sv i = map_err (\<lambda>st. Api st []) (get_blob X au (id_to_hex X repo) (id_to_hex X i) sv)"

definition http_head_tip ::
    "head_json \<Rightarrow> hex_codec \<Rightarrow> token_record \<Rightarrow> repo_id \<Rightarrow> server_state \<Rightarrow> client_error + ref_head option" where
  "http_head_tip J X au repo sv =
     (case head_tip J X au (id_to_hex X repo) sv of
        Inl st \<Rightarrow> if st = 404 then Inr None else Inl (Api st [])
      | Inr h \<Rightarrow> Inr (Some h))"

definition http_append_head ::
    "prims \<Rightarrow> head_json \<Rightarrow> hex_codec \<Rightarrow> token_record \<Rightarrow> ref_head \<Rightarrow> server_state \<Rightarrow> server_state \<times> (client_error + head_hash)" where
  "http_append_head P J X au h sv =
     apsnd (map_err (\<lambda>st. Api st [])) (append_head P J X au (id_to_hex X (repo_id h)) h sv)"

definition PAGE :: nat where "PAGE = 500"

definition http_heads_page ::
    "head_json \<Rightarrow> hex_codec \<Rightarrow> token_record \<Rightarrow> repo_id \<Rightarrow> u64 \<Rightarrow> server_state \<Rightarrow> client_error + ref_head list" where
  "http_heads_page J X au repo cursor sv =
     map_err (\<lambda>st. Api st []) (heads_since J X au (id_to_hex X repo) cursor PAGE sv)"

text \<open>
  The loop of \<^verbatim>\<open>heads_since\<close>.  It goes on only when the page moved the cursor forward, so it ends
  whatever the host answers.
\<close>

lemma cursor_decreases:
  assumes "c < d"
  shows "2 ^ 64 - unat d < 2 ^ 64 - unat (c :: u64)"
  using assms unat_u64_bound [of c] by (simp add: word_less_nat_alt)

function page_loop :: "(u64 \<Rightarrow> client_error + ref_head list) \<Rightarrow> u64 \<Rightarrow> ref_head list \<Rightarrow> client_error + ref_head list" where
  "page_loop page cursor acc =
     (case page cursor of
        Inl e \<Rightarrow> Inl e
      | Inr hs \<Rightarrow>
          if hs \<noteq> [] \<and> seq (last hs) > cursor
          then (if length hs < PAGE then Inr (acc @ hs) else page_loop page (seq (last hs)) (acc @ hs))
          else Inr (acc @ hs))"
  by pat_completeness auto
termination
  by (relation "measure (\<lambda>(page, cursor, acc). 2 ^ 64 - unat cursor)")
    (auto simp del: power_numeral intro: cursor_decreases [simplified])

declare page_loop.simps [simp del]

definition http_heads_since ::
    "head_json \<Rightarrow> hex_codec \<Rightarrow> token_record \<Rightarrow> repo_id \<Rightarrow> u64 \<Rightarrow> server_state \<Rightarrow> client_error + ref_head list" where
  "http_heads_since J X au repo after sv = page_loop (\<lambda>c. http_heads_page J X au repo c sv) after []"

definition http_mls_enqueue ::
    "hex_codec \<Rightarrow> token_record \<Rightarrow> repo_id \<Rightarrow> bytes \<Rightarrow> string option \<Rightarrow> server_state \<Rightarrow> server_state \<times> (client_error + u64)" where
  "http_mls_enqueue X au repo payload hint sv =
     apsnd (map_err (\<lambda>st. Api st [])) (mls_enqueue X au (id_to_hex X repo) payload hint sv)"

definition http_mls_fetch ::
    "hex_codec \<Rightarrow> token_record \<Rightarrow> repo_id \<Rightarrow> u64 \<Rightarrow> server_state \<Rightarrow> client_error + mls_envelope list" where
  "http_mls_fetch X au repo after sv = map_err (\<lambda>st. Api st []) (mls_fetch X au (id_to_hex X repo) after 100 sv)"

definition http_append_key_log ::
    "hex_codec \<Rightarrow> token_record \<Rightarrow> repo_id \<Rightarrow> key_log_entry \<Rightarrow> server_state \<Rightarrow> server_state \<times> (client_error + unit)" where
  "http_append_key_log X au repo e sv = apsnd (map_err (\<lambda>st. Api st [])) (append_keylog X au (id_to_hex X repo) e sv)"

definition http_put_key_package ::
    "token_record \<Rightarrow> user_id \<Rightarrow> string \<Rightarrow> bytes \<Rightarrow> server_state \<Rightarrow> server_state \<times> (client_error + unit)" where
  "http_put_key_package au user device kp sv =
     apsnd (map_err (\<lambda>st. Api st []))
       (put_key_package_route au user \<lparr>kpr_user = user, kpr_device = device, kpr_key_package = kp\<rparr> sv)"

definition http_list_key_packages ::
    "token_record \<Rightarrow> user_id \<Rightarrow> server_state \<Rightarrow> client_error + key_package_record list" where
  "http_list_key_packages au user sv = map_err (\<lambda>st. Api st []) (list_key_packages_route au user sv)"

definition http_invite_collaborator ::
    "string \<Rightarrow> token_record \<Rightarrow> repo_name \<Rightarrow> string \<Rightarrow> string \<Rightarrow> server_state \<Rightarrow> server_state \<times> (client_error + repo_members)" where
  "http_invite_collaborator now au rn user history sv =
     apsnd (map_err (\<lambda>st. Api st [])) (invite_collab now au (rn_owner rn) (rn_name rn) user history sv)"

definition http_remove_collaborator ::
    "string \<Rightarrow> token_record \<Rightarrow> repo_name \<Rightarrow> string \<Rightarrow> server_state \<Rightarrow> server_state \<times> (client_error + unit)" where
  "http_remove_collaborator now au rn user sv =
     apsnd (map_err (\<lambda>st. Api st [])) (remove_collab now au (rn_owner rn) (rn_name rn) user sv)"

definition http_get_repo :: "token_record \<Rightarrow> repo_name \<Rightarrow> server_state \<Rightarrow> client_error + repo_record" where
  "http_get_repo au rn sv = map_err (\<lambda>st. Api st []) (get_repo au (rn_owner rn) (rn_name rn) sv)"

definition http_delete_repo :: "token_record \<Rightarrow> repo_name \<Rightarrow> server_state \<Rightarrow> server_state \<times> (client_error + unit)" where
  "http_delete_repo au rn sv = apsnd (map_err (\<lambda>st. Api st [])) (delete_repo au (rn_owner rn) (rn_name rn) sv)"

section \<open>Paging\<close>

text \<open>The contract of a paged log read: at most a page of the heads after the cursor, in order.\<close>

locale paged_log =
  fixes inv :: "'s \<Rightarrow> ref_head list \<Rightarrow> bool"
    and page :: "u64 \<Rightarrow> 's \<Rightarrow> client_error + ref_head list"
  assumes page_law: "inv s l \<Longrightarrow> page c s = Inr (take PAGE (filter (\<lambda>h. c < seq h) l))"
    and ordered: "inv s l \<Longrightarrow> sorted_wrt (\<lambda>h k. seq h < seq k) l"
begin

lemma page_rest:
  assumes "sorted_wrt (\<lambda>h k. seq h < seq k) (l :: ref_head list)" and "n \<noteq> 0"
    and "take n (filter (\<lambda>h. c < seq h) l) \<noteq> []"
  shows "c < seq (last (take n (filter (\<lambda>h. c < seq h) l))) \<and>
    filter (\<lambda>h. seq (last (take n (filter (\<lambda>h. c < seq h) l))) < seq h) l = drop n (filter (\<lambda>h. c < seq h) l)"
proof -
  let ?f = "filter (\<lambda>h. c < seq h) l" and ?q = "seq (last (take n (filter (\<lambda>h. c < seq h) l)))"
  have last_in: "last (take n ?f) \<in> set (take n ?f)" using assms(3) by (rule last_in_set)
  then have c: "c < ?q" using set_take_subset by fastforce
  have s: "sorted_wrt (\<lambda>h k. seq h < seq k) (take n ?f @ drop n ?f)"
    using assms(1) by (simp add: sorted_wrt_filter)
  have "\<not> ?q < seq h" if "h \<in> set (take n ?f)" for h
  proof -
    obtain ys where ys: "take n ?f = ys @ [last (take n ?f)]" using assms(3) by (metis append_butlast_last_id)
    then have "sorted_wrt (\<lambda>h k. seq h < seq k) (ys @ [last (take n ?f)])"
      using s by (simp only: sorted_wrt_append)
    then have "h \<in> set ys \<Longrightarrow> seq h < ?q" by (simp add: sorted_wrt_append)
    moreover have "h \<in> set ys \<or> h = last (take n ?f)" using that ys by (metis Un_iff empty_iff set_ConsD set_append set_empty)
    ultimately show ?thesis by auto
  qed
  moreover have "?q < seq h" if "h \<in> set (drop n ?f)" for h
    using s [unfolded sorted_wrt_append] that last_in by blast
  ultimately have "filter (\<lambda>h. ?q < seq h) (take n ?f @ drop n ?f) = drop n ?f"
    unfolding filter_append by (simp add: filter_empty_conv filter_id_conv)
  moreover have "filter (\<lambda>h. ?q < seq h) l = filter (\<lambda>h. ?q < seq h) ?f"
    using c by (auto intro!: filter_cong)
  ultimately show ?thesis using c by simp
qed

lemma page_loop_all:
  assumes "inv s l"
  shows "page_loop (\<lambda>c. page c s) c acc = Inr (acc @ filter (\<lambda>h. c < seq h) l)"
proof (induction "2 ^ 64 - unat c" arbitrary: c acc rule: less_induct)
  case less
  let ?f = "filter (\<lambda>h. c < seq h) l" and ?hs = "take PAGE (filter (\<lambda>h. c < seq h) l)"
  have P: "PAGE \<noteq> 0" by (simp add: PAGE_def)
  show ?case
  proof (cases "?f = []")
    case True
    then show ?thesis by (simp add: page_loop.simps page_law [OF assms])
  next
    case False
    then have ne: "?hs \<noteq> []" using P by simp
    note rest = page_rest [OF ordered [OF assms] P ne]
    show ?thesis
    proof (cases "length ?hs < PAGE")
      case True
      then have "?hs = ?f" by simp
      with True rest ne show ?thesis by (subst page_loop.simps) (simp add: page_law [OF assms])
    next
      case full: False
      have "page_loop (\<lambda>c. page c s) (seq (last ?hs)) (acc @ ?hs) = Inr ((acc @ ?hs) @ filter (\<lambda>h. seq (last ?hs) < seq h) l)"
        using rest by (intro less cursor_decreases) simp
      with full rest ne show ?thesis by (subst page_loop.simps) (simp add: page_law [OF assms])
    qed
  qed
qed

end

definition client_host ::
    "prims \<Rightarrow> head_json \<Rightarrow> hex_codec \<Rightarrow> blob_parsers \<Rightarrow> (blob_meta \<Rightarrow> string) \<Rightarrow> token_record \<Rightarrow> repo_id \<Rightarrow> server_state host" where
  "client_host P J X B show_meta au repo =
     \<lparr>hc_tip = http_head_tip J X au repo, hc_append = http_append_head P J X au,
      hc_put = http_put_blob P X B show_meta au repo\<rparr>"

section \<open>The handlers keep the contracts\<close>

definition http_inv :: "prims \<Rightarrow> hex_codec \<Rightarrow> token_record \<Rightarrow> repo_id \<Rightarrow> server_state \<Rightarrow> ref_head list \<Rightarrow> bool" where
  "http_inv P X au repo sv l \<longleftrightarrow>
     gate X au (id_to_hex X repo) sv = Inr repo \<and> head_log_inv P repo (sv_store sv) l"

lemma gate_store:
  "repos_by_id st = repos_by_id (sv_store sv) \<Longrightarrow> gate X au rid (sv\<lparr>sv_store := st\<rparr>) = gate X au rid sv"
  by (simp add: gate_exact access_def split: sum.splits option.splits)

lemma cas_append_repos: "repos_by_id (fst (cas_append P J h st)) = repos_by_id st"
  by (simp add: cas_append_def cas_write_tip_def cas_write_log_def Let_def split: sum.splits)

lemma head_log_inv_heads: "heads st = heads st' \<Longrightarrow> head_log_inv P repo st l = head_log_inv P repo st' l"
  by (simp add: head_log_inv_def)

lemma http_append_head_eq:
  assumes "gate X au (id_to_hex X repo) sv = Inr repo" and "repo_id h = repo"
  shows "http_append_head P J X au h sv =
    (case cas_append P J h (sv_store sv) of
       (st, Inr hash) \<Rightarrow> (sv\<lparr>sv_store := st\<rparr>, Inr hash)
     | (st, Inl (CasConflict _)) \<Rightarrow> (sv\<lparr>sv_store := st\<rparr>, Inl (Api 409 []))
     | (st, Inl _) \<Rightarrow> (sv\<lparr>sv_store := st\<rparr>, Inl (Api 400 [])))"
  using assms by (auto simp: http_append_head_def append_head_def gate_cases split: prod.splits sum.splits storage_error.splits)

lemma http_append_ok:
  assumes "http_inv P X au repo sv l" and "storable repo h"
    and "prev_head_hash h = (if l = [] then head_hash_zero else ref_head_hash P (last l))"
    and "seq h = of_nat (length l) + 1" and "length l + 1 < 2 ^ 64"
  shows "snd (http_append_head P J X au h sv) = Inr (ref_head_hash P h) \<and>
    http_inv P X au repo (fst (http_append_head P J X au h sv)) (l @ [h])"
proof -
  have "repo_id h = repo" using assms(2) by (simp add: storable_def)
  note eq = http_append_head_eq [OF _ this, of X au sv P J]
  have log: "head_log_inv P repo (sv_store sv) l" and g: "gate X au (id_to_hex X repo) sv = Inr repo"
    using assms(1) by (simp_all add: http_inv_def)
  obtain st where st: "cas_append P J h (sv_store sv) = (st, Inr (ref_head_hash P h))" "head_log_inv P repo st (l @ [h])"
    using cas_append_inv [OF log assms(2-5), of J] by (cases "cas_append P J h (sv_store sv)") auto
  have "gate X au (id_to_hex X repo) (sv\<lparr>sv_store := st\<rparr>) = gate X au (id_to_hex X repo) sv"
    using cas_append_repos [of P J h "sv_store sv"] st(1) by (intro gate_store) simp
  then show ?thesis using eq [OF g] g st by (simp add: http_inv_def)
qed

lemma http_append_refused:
  assumes "http_inv P X au repo sv l" and "storable repo h" and "cas_append P J h (sv_store sv) = (sv_store sv, Inl e)"
  shows "http_append_head P J X au h sv = (sv, Inl (Api (case e of CasConflict _ \<Rightarrow> 409 | _ \<Rightarrow> 400) []))"
proof -
  have "repo_id h = repo" "gate X au (id_to_hex X repo) sv = Inr repo"
    using assms(1,2) by (simp_all add: storable_def http_inv_def)
  from http_append_head_eq [OF this(2,1), of P J] show ?thesis
    by (simp add: assms(3) split: storage_error.splits)
qed

lemma http_put_blob_keeps:
  assumes "http_inv P X au repo sv l"
  shows "http_inv P X au repo (fst (http_put_blob P X B show_meta au repo m c sv)) l"
proof -
  have keep: "http_inv P X au repo (sv\<lparr>sv_store := fst (blob_put P m' c' (sv_store sv))\<rparr>) l" for m' c'
  proof -
    have "gate X au (id_to_hex X repo) (sv\<lparr>sv_store := fst (blob_put P m' c' (sv_store sv))\<rparr>) = gate X au (id_to_hex X repo) sv"
      by (intro gate_store) (simp add: blob_put_def Let_def)
    moreover have "head_log_inv P repo (fst (blob_put P m' c' (sv_store sv))) l = head_log_inv P repo (sv_store sv) l"
      by (intro head_log_inv_heads) (simp add: blob_put_def Let_def)
    ultimately show ?thesis using assms by (simp add: http_inv_def)
  qed
  have "gate X au (id_to_hex X repo) sv = Inr repo" using assms by (simp add: http_inv_def)
  then show ?thesis
    using assms keep
    by (cases "decode_put B ''application/octet-stream'' (Some (show_meta m)) c")
      (auto simp: http_put_blob_def put_blob_def gate_cases Let_def case_prod_beta)
qed

lemma http_heads_page_inv:
  assumes "http_inv P X au repo sv l"
  shows "http_heads_page J X au repo c sv = Inr (take PAGE (filter (\<lambda>h. c < seq h) l))"
  using assms since_inv [of P repo "sv_store sv" l J c]
  by (simp add: http_heads_page_def heads_since_def gate_cases http_inv_def PAGE_def MAX_HEADS_PAGE_def)

interpretation server_pages: paged_log "http_inv P X au repo" "http_heads_page J X au repo" for P J X au repo
proof (unfold_locales, goal_cases)
  case (1 sv l c)
  then show ?case by (rule http_heads_page_inv)
next
  case (2 sv l)
  then show ?case by (auto simp: http_inv_def head_log_inv_def Let_def intro: log_shape_strict)
qed

interpretation http_host: push_host P "http_inv P X au repo" "http_head_tip J X au repo" "http_append_head P J X au"
  "http_heads_since J X au repo" "storable repo" "\<lambda>_. Api 409 []" "http_put_blob P X B show_meta au repo"
  for P J X B show_meta au repo
proof (unfold_locales, goal_cases)
  case (1 sv l)
  then show ?case
    using tip_inv [of P repo "sv_store sv" l J] by (simp add: http_head_tip_def head_tip_def gate_cases http_inv_def)
next
  case (2 sv l h)
  then show ?case by (rule http_append_ok)
next
  case (3 sv l h)
  then show ?case
    using cas_append_conflict [of P repo "sv_store sv" l h J] by (simp add: http_append_refused http_inv_def)
next
  case (4 sv l a)
  then show ?case using server_pages.page_loop_all [OF 4] by (simp add: http_heads_since_def)
next
  case (5 sv l)
  then show ?case by (simp add: http_inv_def head_log_inv_def log_shape_def Let_def)
next
  case (6 sv l m c)
  then show ?case by (rule http_put_blob_keeps)
next
  case (7 x)
  show ?case by (simp add: is_cas_conflict_def)
next
  case (8 sv l h)
  then have "cas_append P J h (sv_store sv) =
      (sv_store sv, Inl (if l = [] then GenesisSeq else SeqMustBe (of_nat (length l) + 1) (seq h)))"
    using cas_append_seq_error [of P repo "sv_store sv" l h J] by (simp add: http_inv_def)
  from http_append_refused [OF 8(1,2) this] show ?case
    by (simp add: is_cas_conflict_def)
qed

section \<open>Properties\<close>

definition log_tip :: "prims \<Rightarrow> ref_head list \<Rightarrow> head_hash" where
  "log_tip P l = (if l = [] then head_hash_zero else ref_head_hash P (last l))"

text \<open>
  C36.  Paging loses nothing and ends: whatever page a host answers, the loop terminates; against the
  host's handler it returns exactly the heads after the given position, in order, however many pages
  that takes.
\<close>

theorem paging_complete:
  assumes "http_inv P X au repo sv l"
  shows "http_heads_since J X au repo after sv = Inr (filter (\<lambda>h. after < seq h) l)"
  using server_pages.page_loop_all [OF assms] by (simp add: http_heads_since_def)

lemma demo_http_inv: "http_inv demo_prims demo_hex (demo_auth ''ann'') (replicate 32 1) demo_server []"
proof -
  have "char_of (of_char (CHR 0x01) :: nat) = CHR 0x01" by (rule char_of_char)
  then have "id_to_hex demo_hex (replicate 32 1) = demo_rid" by (simp add: id_to_hex_def demo_hex_def demo_rid_def)
  then show ?thesis by (simp add: http_inv_def demo_gate demo_server_log)
qed

lemma paging_complete_witness:
  "http_heads_since (\<lambda>_. None) demo_hex (demo_auth ''ann'') (replicate 32 1) 0
     (fst (http_append_head demo_prims (\<lambda>_. None) demo_hex (demo_auth ''ann'') demo_head demo_server)) = Inr [demo_head]"
proof -
  have facts: "prev_head_hash demo_head = head_hash_zero" "seq demo_head = 1" by (simp_all add: demo_head_def)
  have "http_inv demo_prims demo_hex (demo_auth ''ann'') (replicate 32 1)
      (fst (http_append_head demo_prims (\<lambda>_. None) demo_hex (demo_auth ''ann'') demo_head demo_server)) [demo_head]"
    using http_append_ok [OF demo_http_inv storable_demo, of "\<lambda>_. None"] by (simp add: facts)
  from paging_complete [OF this] show ?thesis by (simp add: facts)
qed

text \<open>
  C3.  Pushing over HTTP, with other clients appending at any time: when the retry loop succeeds, the
  host's log is the old one, whatever others appended, and the pushed head, planned on exactly that
  tip, so nothing that was pushed is overwritten.  When it fails, planning or an upload failed, or
  others appended more heads than there were retries, or two prefixes of a log share a hash.
\<close>

theorem push_over_http:
  assumes "http_inv P X au repo sv l" and "length l + 1 < 2 ^ 64"
    and "\<forall>i j s k. http_inv P X au repo s k \<longrightarrow> length k + 1 < 2 ^ 64 \<longrightarrow>
      (\<exists>k'. http_inv P X au repo (env i j s) (k @ k') \<and> length (k @ k') + 1 < 2 ^ 64)"
    and "\<forall>n t plan h refs. plan_attempt P X RJ K (draws n) a baseline t = Inr (plan, h, refs) \<longrightarrow> storable repo h"
    and "push_loop P X RJ K (client_host P J X B show_meta au repo) draws env a baseline r 0 sv = (sv', out)"
  shows "case out of
      Inr res \<Rightarrow> \<exists>others n plan. http_inv P X au repo sv' (l @ others @ [pr_head_accepted res]) \<and>
        pr_head_hash res = ref_head_hash P (pr_head_accepted res) \<and>
        plan_attempt P X RJ K (draws n) a baseline (if l @ others = [] then None else Some (last (l @ others)))
          = Inr (plan, pr_head_accepted res, pr_refs res)
    | Inl e \<Rightarrow> (\<exists>n t. plan_attempt P X RJ K (draws n) a baseline t = Inl e) \<or>
        (\<exists>w cs s1 s2. put_waves (client_host P J X B show_meta au repo) w cs s1 = (s2, Inl e)) \<or>
        (\<exists>others. http_inv P X au repo sv' (l @ others) \<and> r < length others) \<or>
        (\<exists>s1 l1 l2. l2 \<noteq> [] \<and> http_inv P X au repo s1 (l1 @ l2) \<and>
           log_tip P l1 = log_tip P (l1 @ l2))"
proof -
  have H: "http_host.H J X au repo P B show_meta = client_host P J X B show_meta au repo"
    by (simp add: http_host.H_def client_host_def)
  have others: "http_host.others_append P X au repo env"
    using assms(3) unfolding http_host.others_append_def .
  have acc: "http_host.plans_acceptable P repo X RJ K draws a baseline"
    using assms(4) unfolding http_host.plans_acceptable_def .
  from http_host.push_loop_outcome [OF others assms(1,2) acc assms(5) [folded H]]
  show ?thesis
    unfolding http_host.pushed_def http_host.push_failed_def http_host.next_prev_def log_tip_def H .
qed

end
