(* ===== verification/End_To_End.thy ===== *)
theory End_To_End
  imports Http
begin

text \<open>
  The client and the host together: uploads through the blob handlers, and the journey of a bundle
  from the member who pushes it to the member who fetches it.
\<close>

section \<open>The contract of a blob host\<close>

text \<open>
  Uploads go through \<open>put\<close>, downloads through \<open>get\<close>.  \<open>C\<close> is the set of ciphertexts in play, on
  which the hash is injective: an upload of one of them succeeds, names its hash, can be read back,
  and changes nothing that could be read before.
\<close>

locale blob_host =
  fixes P :: prims and C :: "bytes set" and binv :: "'s \<Rightarrow> bool"
    and H :: "'s host" and get :: "'s \<Rightarrow> blob_id \<Rightarrow> client_error + bytes"
  assumes put_ok: "binv s \<Longrightarrow> c \<in> C \<Longrightarrow> \<exists>s'. hc_put H m c s = (s', Inr (blob_id_of_ciphertext P c)) \<and> binv s' \<and>
      get s' (blob_id_of_ciphertext P c) = Inr c \<and> (\<forall>i d. get s i = Inr d \<longrightarrow> get s' i = Inr d)"
begin

definition uploadable :: "encrypted_chunk list \<Rightarrow> bool" where
  "uploadable cs \<longleftrightarrow> (\<forall>c \<in> set cs. ec_ciphertext c \<in> C \<and> bm_id (ec_meta c) = blob_id_of_ciphertext P (ec_ciphertext c))"

definition readable :: "'s \<Rightarrow> encrypted_chunk list \<Rightarrow> bool" where
  "readable s cs \<longleftrightarrow> (\<forall>c \<in> set cs. get s (bm_id (ec_meta c)) = Inr (ec_ciphertext c))"

lemma put_wave_ok:
  assumes "binv s" and "uploadable cs"
  shows "\<exists>s'. put_wave H cs s = (s', Inr ()) \<and> binv s' \<and> readable s' cs \<and> (\<forall>i d. get s i = Inr d \<longrightarrow> get s' i = Inr d)"
  using assms
proof (induction cs arbitrary: s)
  case (Cons c cs)
  then have c: "ec_ciphertext c \<in> C" "bm_id (ec_meta c) = blob_id_of_ciphertext P (ec_ciphertext c)" and cs: "uploadable cs"
    by (simp_all add: uploadable_def)
  from put_ok [OF Cons.prems(1) c(1), of "ec_meta c"] obtain s1 where
    s1: "hc_put H (ec_meta c) (ec_ciphertext c) s = (s1, Inr (blob_id_of_ciphertext P (ec_ciphertext c)))" "binv s1"
      "get s1 (blob_id_of_ciphertext P (ec_ciphertext c)) = Inr (ec_ciphertext c)" "\<forall>i d. get s i = Inr d \<longrightarrow> get s1 i = Inr d"
    by blast
  from Cons.IH [OF s1(2) cs] obtain s2 where
    "put_wave H cs s1 = (s2, Inr ())" "binv s2" "readable s2 cs" "\<forall>i d. get s1 i = Inr d \<longrightarrow> get s2 i = Inr d"
    by blast
  with s1 c(2) show ?case by (auto simp: readable_def)
qed (simp add: readable_def)

lemma put_waves_ok:
  assumes "binv s" and "uploadable cs" and "0 < w"
  shows "\<exists>s'. put_waves H w cs s = (s', Inr ()) \<and> binv s' \<and> readable s' cs \<and> (\<forall>i d. get s i = Inr d \<longrightarrow> get s' i = Inr d)"
  using assms(1,2)
proof (induction "length cs" arbitrary: cs s rule: less_induct)
  case less
  show ?case
  proof (cases "cs = []")
    case True
    then show ?thesis using less.prems by (simp add: put_waves.simps readable_def)
  next
    case False
    have up: "uploadable (take w cs)" "uploadable (drop w cs)"
      using less.prems(2) by (auto simp: uploadable_def dest: in_set_takeD in_set_dropD)
    from put_wave_ok [OF less.prems(1) up(1)] obtain s1 where
      s1: "put_wave H (take w cs) s = (s1, Inr ())" "binv s1" "readable s1 (take w cs)" "\<forall>i d. get s i = Inr d \<longrightarrow> get s1 i = Inr d"
      by blast
    from less.hyps [OF _ s1(2) up(2)] False assms(3) obtain s2 where
      s2: "put_waves H w (drop w cs) s1 = (s2, Inr ())" "binv s2" "readable s2 (drop w cs)" "\<forall>i d. get s1 i = Inr d \<longrightarrow> get s2 i = Inr d"
      by auto
    have "set cs = set (take w cs) \<union> set (drop w cs)" by (metis append_take_drop_id set_append)
    then have "readable s2 cs" using s1(3) s2(3,4) by (auto simp: readable_def)
    moreover have "put_waves H w cs s = (s2, Inr ())"
      using s1(1) s2(1) False assms(3) by (subst put_waves.simps) simp
    ultimately show ?thesis using s1(4) s2(2,4) by blast
  qed
qed

end

section \<open>The server is such a host\<close>

definition http_blobs ::
    "prims \<Rightarrow> hex_codec \<Rightarrow> blob_parsers \<Rightarrow> (blob_meta \<Rightarrow> string) \<Rightarrow> token_record \<Rightarrow> repo_id \<Rightarrow> bytes set \<Rightarrow> server_state \<Rightarrow> bool" where
  "http_blobs P X B show_meta au repo C sv \<longleftrightarrow>
     gate X au (id_to_hex X repo) sv = Inr repo \<and> hex_roundtrips X \<and> (\<forall>m. parse_meta B (show_meta m) \<noteq> None) \<and>
     inj_on (sha512 P) C \<and> (\<forall>i d. blobs (sv_store sv) i = Some d \<longrightarrow> d \<in> C \<and> i = blob_id_of_ciphertext P d)"

lemma http_get_blob_eq:
  assumes "gate X au (id_to_hex X repo) sv = Inr repo" and "hex_roundtrips X"
  shows "http_get_blob X au repo sv i = Inr d \<longleftrightarrow> length i = 64 \<and> blobs (sv_store sv) i = Some d"
  using assms
  by (auto simp: http_get_blob_def get_blob_def gate_cases blob_id_from_hex_def id_from_hex_to_hex blob_get_def
      split: option.splits) (auto simp: ok_or_def split: option.splits)

lemma http_put_ok:
  assumes "http_blobs P X B show_meta au repo C sv" and "c \<in> C"
  shows "\<exists>sv'. http_put_blob P X B show_meta au repo m c sv = (sv', Inr (blob_id_of_ciphertext P c)) \<and>
    http_blobs P X B show_meta au repo C sv' \<and> http_get_blob X au repo sv' (blob_id_of_ciphertext P c) = Inr c \<and>
    (\<forall>i d. http_get_blob X au repo sv i = Inr d \<longrightarrow> http_get_blob X au repo sv' i = Inr d)"
proof -
  let ?i = "blob_id_of_ciphertext P c"
  have g: "gate X au (id_to_hex X repo) sv = Inr repo" and X: "hex_roundtrips X" and inj: "inj_on (sha512 P) C"
    and old: "\<And>i d. blobs (sv_store sv) i = Some d \<Longrightarrow> d \<in> C \<and> i = blob_id_of_ciphertext P d"
    using assms(1) by (auto simp: http_blobs_def)
  obtain m' where m': "parse_meta B (show_meta m) = Some m'" using assms(1) unfolding http_blobs_def by blast
  define sv' where "sv' = sv\<lparr>sv_store := fst (blob_put P m' c (sv_store sv))\<rparr>"
  have run: "http_put_blob P X B show_meta au repo m c sv = (sv', Inr ?i)"
    by (simp add: http_put_blob_def put_blob_def gate_cases g decode_put_def starts_with_def m' sv'_def blob_put_def Let_def)
  have g': "gate X au (id_to_hex X repo) sv' = Inr repo"
    unfolding sv'_def by (subst gate_store) (simp_all add: blob_put_def Let_def g)
  have here: "d = c" if "blobs (sv_store sv) ?i = Some d" for d
    using old [OF that] inj assms(2) by (auto simp: blob_id_of_ciphertext_def dest: inj_onD)
  then have blobs: "blobs (sv_store sv') = (blobs (sv_store sv))(?i := Some c)"
    by (cases "blobs (sv_store sv) ?i") (auto simp: sv'_def blob_put_def Let_def)
  have "http_blobs P X B show_meta au repo C sv'"
    using assms(1) g' assms(2) by (auto simp: http_blobs_def blobs)
  moreover have "length ?i = 64" by (simp add: blob_id_of_ciphertext_def)
  moreover have "http_get_blob X au repo sv' i = Inr d" if "http_get_blob X au repo sv i = Inr d" for i d
    using that here by (auto simp: http_get_blob_eq [OF g X] http_get_blob_eq [OF g' X] blobs)
  ultimately show ?thesis
    using run by (simp add: http_get_blob_eq [OF g' X] blobs)
qed

interpretation http_blob_host: blob_host P C "http_blobs P X B show_meta au repo C" "client_host P J X B show_meta au repo"
  "http_get_blob X au repo" for P X B show_meta au repo C J
  by unfold_locales (simp add: client_host_def http_put_ok)

section \<open>What other members can still do\<close>

lemma http_put_blob_gate: "gate X au2 rid (fst (http_put_blob P X B show_meta au repo m c sv)) = gate X au2 rid sv"
  by (auto simp: http_put_blob_def put_blob_def blob_put_def Let_def case_prod_beta gate_store split: sum.splits)

lemma http_append_gate: "gate X au2 rid (fst (http_append_head P J X au h sv)) = gate X au2 rid sv"
proof -
  have "gate X au2 rid (sv\<lparr>sv_store := fst (cas_append P J h (sv_store sv))\<rparr>) = gate X au2 rid sv"
    by (intro gate_store) (simp add: cas_append_repos)
  then show ?thesis
    by (auto simp: http_append_head_def append_head_def Let_def split: sum.splits prod.splits storage_error.splits)
qed

lemma cas_append_blobs: "blobs (fst (cas_append P J h st)) = blobs st"
  by (simp add: cas_append_def cas_write_tip_def cas_write_log_def Let_def split: sum.splits)

lemma http_append_blobs: "blobs (sv_store (fst (http_append_head P J X au h sv))) = blobs (sv_store sv)"
  using cas_append_blobs [of P J h "sv_store sv"]
  by (auto simp: http_append_head_def append_head_def Let_def split: sum.splits prod.splits storage_error.splits)

lemma http_append_readable:
  assumes "hex_roundtrips X" and "gate X au2 (id_to_hex X repo) sv = Inr repo" and "http_get_blob X au2 repo sv i = Inr d"
  shows "http_get_blob X au2 repo (fst (http_append_head P J X au h sv)) i = Inr d"
  using assms by (simp add: http_get_blob_eq http_append_gate http_append_blobs)

text \<open>A push nobody races with: it lands, its chunks are readable by every member, and all of them still pass the gate.\<close>

lemma push_lands:
  assumes "http_inv P X au repo sv l" and "length l + 1 < 2 ^ 64" and "http_blobs P X B show_meta au repo C sv"
    and "plan_attempt P X RJ K (draws n) a baseline (if l = [] then None else Some (last l)) = Inr (plan, h, refs)"
    and "storable repo h" and "\<forall>c \<in> set (pp_chunks plan). ec_ciphertext c \<in> C"
    and "gate X au2 (id_to_hex X repo) sv = Inr repo"
  obtains sv' where
    "push_loop P X RJ K (client_host P J X B show_meta au repo) draws (\<lambda>_ _ s. s) a baseline r n sv =
       (sv', Inr \<lparr>pr_head_accepted = h, pr_head_hash = ref_head_hash P h, pr_refs = refs\<rparr>)"
    "http_inv P X au repo sv' (l @ [h])" "http_inv P X au2 repo sv' (l @ [h])"
    "\<forall>c \<in> set (pp_chunks plan). http_get_blob X au2 repo sv' (bm_id (ec_meta c)) = Inr (ec_ciphertext c)"
    "http_blobs P X B show_meta au repo C sv'"
proof -
  let ?H = "client_host P J X B show_meta au repo"
  have H: "http_host.H J X au repo P B show_meta = ?H" by (simp add: http_host.H_def client_host_def)
  have X: "hex_roundtrips X" using assms(3) by (simp add: http_blobs_def)
  have "http_blob_host.uploadable P C (pp_chunks plan)"
    using assms(4,6) unfolding http_blob_host.uploadable_def
    by (auto simp: plan_attempt_def plan_push_reader_def rbind_Inr_conv split: prod.splits intro: planned_chunk_ids)
  moreover have "0 < upload_window a" by (simp add: upload_window_def)
  ultimately obtain s1 where s1: "put_waves ?H (upload_window a) (pp_chunks plan) sv = (s1, Inr ())"
    and blobs1: "http_blobs P X B show_meta au repo C s1" and read: "http_blob_host.readable X au repo s1 (pp_chunks plan)"
    using http_blob_host.put_waves_ok [OF assms(3)] by blast
  have gate1: "gate X au2 (id_to_hex X repo) s1 = Inr repo"
    using put_waves_invariant [of "\<lambda>s. gate X au2 (id_to_hex X repo) s = Inr repo" ?H sv "upload_window a" "pp_chunks plan"]
      assms(7) s1 by (simp add: client_host_def http_put_blob_gate)
  let ?s2 = "fst (http_append_head P J X au h s1)"
  from http_host.push_alone [where draws = draws and n = n and r = r, OF assms(1,2,4,5) s1 [folded H]]
  have run: "push_loop P X RJ K ?H draws (\<lambda>_ _ s. s) a baseline r n sv =
      (?s2, Inr \<lparr>pr_head_accepted = h, pr_head_hash = ref_head_hash P h, pr_refs = refs\<rparr>)"
    and inv: "http_inv P X au repo ?s2 (l @ [h])"
    unfolding H by blast+
  have "http_inv P X au2 repo ?s2 (l @ [h])"
    using inv gate1 by (simp add: http_inv_def http_append_gate)
  moreover have "http_get_blob X au2 repo ?s2 (bm_id (ec_meta c)) = Inr (ec_ciphertext c)" if "c \<in> set (pp_chunks plan)" for c
  proof -
    have g: "gate X au (id_to_hex X repo) s1 = Inr repo" using blobs1 by (simp add: http_blobs_def)
    have "http_get_blob X au repo s1 (bm_id (ec_meta c)) = Inr (ec_ciphertext c)"
      using read that by (simp add: http_blob_host.readable_def)
    then have "http_get_blob X au2 repo s1 (bm_id (ec_meta c)) = Inr (ec_ciphertext c)"
      by (simp add: http_get_blob_eq [OF g X] http_get_blob_eq [OF gate1 X])
    then show ?thesis by (rule http_append_readable [OF X gate1])
  qed
  moreover have "http_blobs P X B show_meta au repo C ?s2"
    using blobs1 by (simp add: http_blobs_def http_append_gate http_append_blobs)
  ultimately show thesis using that run inv by blast
qed

lemma log_shape_newest:
  assumes "log_shape P (l @ [h])"
  shows "filter (\<lambda>k. of_nat (length l) < seq k) (l @ [h]) = [h]"
proof -
  have n: "length l + 1 < 2 ^ 64" using assms by (simp add: log_shape_def)
  then have len: "unat (of_nat (length l) :: u64) = length l" by (simp add: unat_of_nat take_bit_nat_eq_self)
  have "unat (seq k) \<le> length l" if k: "k \<in> set l" for k
  proof -
    obtain i where "i < length l" "k = l ! i" using k by (auto simp: in_set_conv_nth)
    then show ?thesis using log_shape_num [OF assms, of i] by (simp add: nth_append)
  qed
  moreover have "unat (seq h) = length l + 1"
    using log_shape_num [OF assms, of "length l"] by simp
  ultimately show ?thesis by (auto simp: word_less_nat_alt len filter_empty_conv not_less)
qed

lemma newest_fetched:
  assumes "http_inv P X au repo sv (l @ [h])" and "authentic P m leaf_vks h" and "em_history_from m = 0"
    and "fetch_head_bundle P X RJ (http_get_blob X au repo sv) rng rng' repo m h = Inr res"
  shows "fetch_bundles_since P X RJ leaf_vks (http_get_blob X au repo sv) rng rng'
      (\<lambda>c. http_heads_since J X au repo c sv) (http_head_tip J X au repo sv) repo m (of_nat (length l)) (Some (log_tip P l)) = Inr [res]"
proof -
  have log: "head_log_inv P repo (sv_store sv) (l @ [h])" using assms(1) by (simp add: http_inv_def)
  then have shape: "log_shape P (l @ [h])" by (simp add: head_log_inv_def Let_def)
  then have link: "linked P (log_tip P l) [h]"
    by (cases "l = []") (simp_all add: log_shape_def log_tip_def linked_append)
  have "http_heads_since J X au repo (of_nat (length l)) sv = Inr [h]"
    using server_pages.page_loop_all [OF assms(1)] log_shape_newest [OF shape] by (simp add: http_heads_since_def)
  moreover have "http_head_tip J X au repo sv = Inr (Some h)"
    using http_host.tip_law [OF assms(1)] by simp
  moreover have "verify_fetched_heads P [h] m (Some (log_tip P l)) leaf_vks = Inr ()"
    unfolding verify_fetched_heads_ok using link assms(2) by simp
  ultimately show ?thesis
    using assms(3,4) by (simp add: fetch_bundles_since_def tip_check_def)
qed

section \<open>From one member to another\<close>

text \<open>
  C2.  Push, then fetch, over the host: when a member pushes a bundle and ref changes and nobody races,
  the push succeeds, and any other member of the repository who was at the old tip and holds the same
  epoch secrets then fetches exactly that head and exactly the pushed bundle bytes, and sees, ref by
  ref, the pushed value where the pusher has one and the old remote value elsewhere (with force:
  exactly the pusher's refs).
\<close>

theorem push_then_fetch:
  assumes "http_inv P X au repo sv l" and "length l + 1 < 2 ^ 64" and "http_blobs P X B show_meta au repo C sv"
    and "tip_refs P RJ (pd_dkr (draws 0)) (pd_dkr' (draws 0)) (pa_material a) (if l = [] then None else Some (last l)) = Inr remote"
    and "plan_attempt P X RJ K (draws 0) a remote (if l = [] then None else Some (last l)) = Inr (plan, h, refs)"
    and "storable repo h" and "\<forall>c \<in> set (pp_chunks plan). ec_ciphertext c \<in> C"
    and "bundle_fits (pa_bundle a)" and "hex_encode X (fix_len 16 (pd_push_id (draws 0))) \<noteq> []"
    and "\<forall>b. to_json RJ refs = Some b \<longrightarrow> from_json RJ b = Some refs"
    and "bt_wf (pa_refs a)" and "bt_wf remote"
    and "gate X au2 (id_to_hex X repo) sv = Inr repo" and "em_history_from m2 = 0"
    and "epoch_key_at P rng rng' m2 (em_epoch (pa_material a)) = epoch_key P (pd_dkr (draws 0)) (pd_dkr' (draws 0)) (pa_material a)"
    and "authentic P m2 leaf_vks h"
  shows "\<exists>sv'. push_bundle_with_retries P X RJ K (client_host P J X B show_meta au repo) draws (\<lambda>_ _ s. s) a r sv =
      (sv', Inr \<lparr>pr_head_accepted = h, pr_head_hash = ref_head_hash P h, pr_refs = refs\<rparr>) \<and>
    fetch_bundles_since P X RJ leaf_vks (http_get_blob X au2 repo sv') rng rng'
      (\<lambda>c. http_heads_since J X au2 repo c sv') (http_head_tip J X au2 repo sv') repo m2 (of_nat (length l)) (Some (log_tip P l))
      = Inr [\<lparr>fr_head = h, fr_refs = refs, fr_bundle = pa_bundle a\<rparr>] \<and>
    map_of (er_refs refs) = (if pa_non_ff a then map_of (pa_refs a) else map_of remote ++ map_of (pa_refs a))"
proof -
  let ?H = "client_host P J X B show_meta au repo" and ?t = "if l = [] then None else Some (last l)"
  obtain sv' where
    run: "push_loop P X RJ K ?H draws (\<lambda>_ _ s. s) a remote r 0 sv =
       (sv', Inr \<lparr>pr_head_accepted = h, pr_head_hash = ref_head_hash P h, pr_refs = refs\<rparr>)"
    and inv: "http_inv P X au2 repo sv' (l @ [h])"
    and read: "\<forall>c \<in> set (pp_chunks plan). http_get_blob X au2 repo sv' (bm_id (ec_meta c)) = Inr (ec_ciphertext c)"
    using push_lands [where J = J and r = r and draws = draws and n = 0, OF assms(1-3,5-7,13)] by blast
  have X: "hex_roundtrips X" using assms(3) by (simp add: http_blobs_def)
  obtain prev sq merged where
    plan: "build_push_plan P X RJ K (draws 0) (pa_repo a) (pa_bundle a) merged (pa_head a) (pa_material a) prev sq (pa_non_ff a) (pk_durable K)
      = Inr (plan, h, refs)"
    and merged: "reconcile_refs_for_cas remote (pa_refs a) remote (pa_non_ff a) = Inr merged"
    using assms(5) by (auto simp: plan_attempt_def plan_push_reader_def rbind_Inr_conv assms(4) split: prod.splits)
  have "repo = pa_repo a" using plan_attempt_head [OF assms(5)] assms(6) by (simp add: storable_def)
  note opens = planned_bundle_opens [OF plan assms(8) X assms(9,10,15) read, folded this]
  have "hc_tip ?H sv = Inr ?t"
    using http_host.tip_law [OF assms(1), of J] by (simp add: client_host_def)
  then have "push_bundle_with_retries P X RJ K ?H draws (\<lambda>_ _ s. s) a r sv =
      (sv', Inr \<lparr>pr_head_accepted = h, pr_head_hash = ref_head_hash P h, pr_refs = refs\<rparr>)"
    using run by (simp add: push_bundle_with_retries_def assms(4))
  moreover from newest_fetched [OF inv assms(16,14)] opens
  have "fetch_bundles_since P X RJ leaf_vks (http_get_blob X au2 repo sv') rng rng'
      (\<lambda>c. http_heads_since J X au2 repo c sv') (http_head_tip J X au2 repo sv') repo m2 (of_nat (length l)) (Some (log_tip P l))
      = Inr [\<lparr>fr_head = h, fr_refs = refs, fr_bundle = pa_bundle a\<rparr>]" by blast
  moreover have "map_of (er_refs refs) = (if pa_non_ff a then map_of (pa_refs a) else map_of remote ++ map_of (pa_refs a))"
    using opens reconcile_same_baseline [OF merged assms(11,12)] by simp
  ultimately show ?thesis by blast
qed

definition demo_push :: push_args where
  "demo_push = \<lparr>pa_repo = replicate 32 1, pa_bundle = [1, 2, 3], pa_refs = [(''main'', ''1'')], pa_head = None,
     pa_material = demo_material, pa_non_ff = False, pa_window = 8\<rparr>"

definition demo_keys :: push_keys where
  "demo_keys = \<lparr>pk_group = None, pk_admin = None, pk_durable = False\<rparr>"

lemma demo_push_plan:
  obtains RJ plan h refs c where
    "plan_attempt demo_prims demo_hex RJ demo_keys demo_draw demo_push [] None = Inr (plan, h, refs)"
    "pp_chunks plan = [c]" "\<And>r. to_json RJ r = Some []" "from_json RJ [] = Some refs" "storable (replicate 32 1) h"
    "authentic demo_prims demo_material [] h"
proof -
  let ?pid = "hex_encode demo_hex (fix_len 16 (pd_push_id demo_draw))" and ?repo = "replicate 32 1 :: repo_id"
  obtain cs where cs: "bundle_chunks_seek demo_prims demo_hex (pd_nonces demo_draw) ?repo ?pid [1, 2, 3] (fix_len 32 (pd_dek demo_draw)) = Inr cs"
    unfolding bundle_chunks_seek_def Let_def using chunk_loop_ok by blast
  have n: "unat (chunk_total [1, 2, 3]) = 1"
    by (simp add: chunk_total_def div_ceil_def BUNDLE_CHUNK_SIZE_def)
  then obtain c where c: "cs = [c]"
    using cs by (auto simp: bundle_chunks_seek_def Let_def rbind_Inr_conv)
  define RJ where "RJ = \<lparr>to_json = (\<lambda>r. Some []), from_json = (\<lambda>_. Some \<lparr>er_refs = [(''main'', ''1'')], er_head = None, er_push_id = ?pid,
      er_chunk_ids = map (\<lambda>c. id_to_hex demo_hex (bm_id (ec_meta c))) cs\<rparr>)\<rparr>"
  obtain plan h refs where
    b: "build_push_plan demo_prims demo_hex RJ demo_keys demo_draw ?repo [1, 2, 3] [(''main'', ''1'')] None demo_material head_hash_zero 1 False False
      = Inr (plan, h, refs)"
    using build_push_plan_unsigned_ok [OF demo_epoch_key, where J = RJ] by (metis RJ_def refs_json.select_convs(1))
  have "reconcile_refs_for_cas [] [(''main'', ''1'')] [] False = Inr [(''main'', ''1'')]"
    by (simp add: reconcile_refs_for_cas_def intended_updates_def moved_under_def Let_def)
  with b have p: "plan_attempt demo_prims demo_hex RJ demo_keys demo_draw demo_push [] None = Inr (plan, h, refs)"
    by (simp add: plan_attempt_def next_position_def tip_refs_def demo_push_def plan_push_reader_def demo_keys_def)
  have json: "\<And>r. to_json RJ r = Some []" by (simp add: RJ_def)
  have "pp_chunks plan = [c]" "from_json RJ [] = Some refs"
    using cs by (rule_tac [!] build_push_plan_shape [OF b]) (simp_all add: c RJ_def)
  moreover have "storable ?repo h"
    using plan_attempt_storable [OF p] by (simp add: demo_push_def demo_keys_def json)
  moreover have "authentic demo_prims demo_material [] h"
    by (rule build_push_plan_shape [OF b])
      (simp add: authentic_def demo_material_def exported_def refs_mac_at_def)
  ultimately show thesis using that p json by blast
qed

definition demo_parsers :: blob_parsers where
  "demo_parsers = \<lparr>parse_meta = (\<lambda>_. Some \<lparr>bm_id = [], bm_size = 0, chunk_index = 0, chunk_count = 1, bm_push_id = []\<rparr>),
     parse_put_request = (\<lambda>_. None), b64_decode = (\<lambda>_. None)\<rparr>"

lemma demo_blobs:
  "http_blobs demo_prims demo_hex demo_parsers (\<lambda>_. []) (demo_auth ''ann'') (replicate 32 1) {c} demo_server"
proof -
  have "blobs (sv_store demo_server) i = None" for i
    by (simp add: demo_server_def create_repo_def repo_create_def server_open_def store_open_def save_members_def Let_def)
  then show ?thesis
    using demo_http_inv by (simp add: http_blobs_def http_inv_def demo_hex_roundtrips demo_parsers_def)
qed

lemma push_then_fetch_witness:
  "\<exists>RJ h refs sv' res. let P = demo_prims; X = demo_hex; au = demo_auth ''ann''; repo = replicate 32 1; J = (\<lambda>_. None)
   in push_bundle_with_retries P X RJ demo_keys (client_host P J X demo_parsers (\<lambda>_. []) au repo) (\<lambda>_. demo_draw) (\<lambda>_ _ s. s) demo_push 3 demo_server
        = (sv', Inr res) \<and>
      fetch_bundles_since P X RJ [] (http_get_blob X au repo sv') [] [] (\<lambda>c. http_heads_since J X au repo c sv')
        (http_head_tip J X au repo sv') repo demo_material 0 (Some head_hash_zero)
        = Inr [\<lparr>fr_head = h, fr_refs = refs, fr_bundle = [1, 2, 3]\<rparr>] \<and>
      map_of (er_refs refs) = [''main'' \<mapsto> ''1'']"
proof -
  obtain RJ plan h refs c where d:
    "plan_attempt demo_prims demo_hex RJ demo_keys demo_draw demo_push [] None = Inr (plan, h, refs)"
    "pp_chunks plan = [c]" "\<And>r. to_json RJ r = Some []" "from_json RJ [] = Some refs" "storable (replicate 32 1) h"
    "authentic demo_prims demo_material [] h"
    by (rule demo_push_plan) blast
  have facts: "pa_bundle demo_push = [1, 2, 3]" "pa_refs demo_push = [(''main'', ''1'')]" "\<not> pa_non_ff demo_push"
    "pa_material demo_push = demo_material" "em_history_from demo_material = 0" "pd_dkr demo_draw = []" "pd_dkr' demo_draw = []"
    by (simp_all add: demo_push_def demo_material_def exported_def demo_draw_def)
  have side: "bundle_fits [1, 2, 3]" "hex_encode demo_hex (fix_len 16 (pd_push_id demo_draw)) \<noteq> []"
    "bt_wf [(''main'', ''1'')]" "bt_wf []" "gate demo_hex (demo_auth ''ann'') (id_to_hex demo_hex (replicate 32 1)) demo_server = Inr (replicate 32 1)"
    using demo_http_inv
    by (simp_all add: bundle_fits_def BUNDLE_CHUNK_SIZE_def demo_hex_def fix_len_def demo_draw_def bt_wf_def http_inv_def)
  have key: "epoch_key_at demo_prims [] [] demo_material (em_epoch demo_material) = epoch_key demo_prims [] [] demo_material"
    by (simp add: epoch_key_def)
  note claim = push_then_fetch [OF demo_http_inv _ demo_blobs [of "ec_ciphertext c"], where draws = "\<lambda>_. demo_draw" and remote = "[]" and K = demo_keys and a = demo_push
      and RJ = RJ and plan = plan and refs = refs and ?au2.0 = "demo_auth ''ann''" and J = "\<lambda>_. None" and r = 3
      and ?m2.0 = demo_material and rng = "[]" and rng' = "[]" and leaf_vks = "[]" and h = h]
  have "\<exists>sv'. push_bundle_with_retries demo_prims demo_hex RJ demo_keys
        (client_host demo_prims (\<lambda>_. None) demo_hex demo_parsers (\<lambda>_. []) (demo_auth ''ann'') (replicate 32 1))
        (\<lambda>_. demo_draw) (\<lambda>_ _ s. s) demo_push 3 demo_server
      = (sv', Inr \<lparr>pr_head_accepted = h, pr_head_hash = ref_head_hash demo_prims h, pr_refs = refs\<rparr>) \<and>
      fetch_bundles_since demo_prims demo_hex RJ [] (http_get_blob demo_hex (demo_auth ''ann'') (replicate 32 1) sv') [] []
        (\<lambda>c. http_heads_since (\<lambda>_. None) demo_hex (demo_auth ''ann'') (replicate 32 1) c sv')
        (http_head_tip (\<lambda>_. None) demo_hex (demo_auth ''ann'') (replicate 32 1) sv') (replicate 32 1) demo_material 0 (Some head_hash_zero)
        = Inr [\<lparr>fr_head = h, fr_refs = refs, fr_bundle = [1, 2, 3]\<rparr>] \<and> map_of (er_refs refs) = [''main'' \<mapsto> ''1'']"
    using claim d side key by (simp add: facts tip_refs_def log_tip_def)
  then show ?thesis unfolding Let_def by blast
qed

lemma push_over_http_witness:
  "\<exists>RJ sv' res. push_loop demo_prims demo_hex RJ demo_keys
       (client_host demo_prims (\<lambda>_. None) demo_hex demo_parsers (\<lambda>_. []) (demo_auth ''ann'') (replicate 32 1))
       (\<lambda>_. demo_draw) (\<lambda>_ _ s. s) demo_push [] 0 0 demo_server = (sv', Inr res) \<and>
     (\<exists>others. http_inv demo_prims demo_hex (demo_auth ''ann'') (replicate 32 1) sv' (others @ [pr_head_accepted res]))"
proof -
  obtain RJ plan h refs c where d:
    "plan_attempt demo_prims demo_hex RJ demo_keys demo_draw demo_push [] None = Inr (plan, h, refs)"
    "pp_chunks plan = [c]" "\<And>r. to_json RJ r = Some []" "from_json RJ [] = Some refs" "storable (replicate 32 1) h"
    "authentic demo_prims demo_material [] h"
    by (rule demo_push_plan) blast
  let ?au = "demo_auth ''ann''" and ?repo = "replicate 32 1 :: repo_id"
  have acc: "\<forall>n t plan h refs. plan_attempt demo_prims demo_hex RJ demo_keys demo_draw demo_push [] t = Inr (plan, h, refs) \<longrightarrow>
      storable ?repo h"
    using plan_attempt_storable [of demo_prims demo_hex RJ demo_keys demo_draw demo_push "[]"]
    by (auto simp: d(3) demo_push_def demo_keys_def)
  have g: "gate demo_hex ?au (id_to_hex demo_hex ?repo) demo_server = Inr ?repo"
    using demo_http_inv by (simp add: http_inv_def)
  obtain sv' where run: "push_loop demo_prims demo_hex RJ demo_keys
       (client_host demo_prims (\<lambda>_. None) demo_hex demo_parsers (\<lambda>_. []) ?au ?repo)
       (\<lambda>_. demo_draw) (\<lambda>_ _ s. s) demo_push [] 0 0 demo_server
     = (sv', Inr \<lparr>pr_head_accepted = h, pr_head_hash = ref_head_hash demo_prims h, pr_refs = refs\<rparr>)"
    using push_lands [where draws = "\<lambda>_. demo_draw" and n = 0 and r = 0 and J = "\<lambda>_. None" and baseline = "[]" and a = demo_push and plan = plan
        and h = h and refs = refs and RJ = RJ and K = demo_keys, OF demo_http_inv _ demo_blobs, of "ec_ciphertext c"] d g
    by (simp add: list_all_iff) blast
  have env: "\<forall>i j s k. http_inv demo_prims demo_hex ?au ?repo s k \<longrightarrow> length k + 1 < 2 ^ 64 \<longrightarrow>
      (\<exists>k'. http_inv demo_prims demo_hex ?au ?repo ((\<lambda>_ _ s. s) i j s) (k @ k') \<and> length (k @ k') + 1 < 2 ^ 64)"
    by (metis append_Nil2)
  from push_over_http [where draws = "\<lambda>_. demo_draw", OF demo_http_inv _ env acc run]
  have "\<exists>others. http_inv demo_prims demo_hex ?au ?repo sv' (others @ [h])" by auto
  with run show ?thesis by fastforce
qed

end
