(* ===== verification/Mls.thy ===== *)
theory Mls
  imports Dkr
begin

text \<open>
  The repository group, \<^verbatim>\<open>safehub-crypto/src/mls.rs\<close>, over the OpenMLS library.  The library's calls
  are the parameters of \<open>openmls\<close>: an identity \<open>'i\<close> and a group \<open>'g\<close> stand for the Rust structs with
  their key storage, \<open>'k\<close>, \<open>'w\<close>, \<open>'m\<close>, \<open>'c\<close> for parsed key packages, Welcomes, protocol messages and
  staged commits.  A call that draws randomness takes it as its first argument; texts of library errors
  are left out.
\<close>

section \<open>What the code calls\<close>

datatype ('w, 'm) mls_body = BodyWelcome 'w | BodyProtocol 'm | BodyOther

datatype 'c mls_content = StagedCommit 'c | Application bytes | OtherContent

record ('i, 'g, 'k, 'w, 'm, 'c) openmls =
  om_identity :: "bytes \<Rightarrow> bytes \<Rightarrow> 'i option"
  om_identity_store :: "'i \<Rightarrow> bytes"
  om_identity_signer :: "'i \<Rightarrow> bytes"
  om_load_identity :: "bytes \<Rightarrow> bytes \<Rightarrow> bytes \<Rightarrow> 'i option"
  om_key_package :: "bytes \<Rightarrow> 'i \<Rightarrow> ('i \<times> bytes) option"
  om_new_group :: "bytes \<Rightarrow> 'i \<Rightarrow> bytes \<Rightarrow> 'g option"
  om_message :: "bytes \<Rightarrow> ('w, 'm) mls_body option"
  om_stage_welcome :: "'i \<Rightarrow> 'w \<Rightarrow> 'g option"
  om_parse_kp :: "bytes \<Rightarrow> 'k option"
  om_validate_kp :: "'g \<Rightarrow> 'k \<Rightarrow> bool"
  om_add :: "bytes \<Rightarrow> 'g \<Rightarrow> 'k \<Rightarrow> ('g \<times> bytes \<times> bytes) option"
  om_self_update :: "bytes \<Rightarrow> 'g \<Rightarrow> ('g \<times> bytes) option"
  om_merge_pending :: "'g \<Rightarrow> 'g option"
  om_process :: "'g \<Rightarrow> 'm \<Rightarrow> ('g \<times> 'c mls_content) option"
  om_merge_staged :: "'g \<Rightarrow> 'c \<Rightarrow> 'g option"
  om_create_message :: "bytes \<Rightarrow> 'g \<Rightarrow> bytes \<Rightarrow> ('g \<times> bytes) option"
  om_export :: "'g \<Rightarrow> bytes \<Rightarrow> bytes \<Rightarrow> nat \<Rightarrow> bytes option"
  om_epoch :: "'g \<Rightarrow> u64"
  om_members :: "'g \<Rightarrow> bytes list"
  om_sign :: "'g \<Rightarrow> bytes \<Rightarrow> bytes option"
  om_leaf_vk :: "'g \<Rightarrow> bytes"
  om_group_id :: "'g \<Rightarrow> bytes"
  om_store :: "'g \<Rightarrow> bytes"
  om_signer :: "'g \<Rightarrow> bytes"
  om_load :: "bytes \<Rightarrow> bytes \<Rightarrow> bytes \<Rightarrow> 'g option"

definition mls_error :: crypto_error where "mls_error = Mls ''''"
definition wire_error :: crypto_error where "wire_error = Mls ''invalid MLS wire message''"
definition unavailable :: "string \<Rightarrow> crypto_error" where "unavailable s = Mls s"

section \<open>Identities\<close>

definition identity_generate :: "('i, 'g, 'k, 'w, 'm, 'c) openmls \<Rightarrow> bytes \<Rightarrow> bytes \<Rightarrow> crypto_error + 'i" where
  "identity_generate M rng name = ok_or mls_error (om_identity M rng name)"

definition identity_load :: "('i, 'g, 'k, 'w, 'm, 'c) openmls \<Rightarrow> bytes option \<Rightarrow> bytes option \<Rightarrow> bytes \<Rightarrow> crypto_error + 'i" where
  "identity_load M keystore signer name =
     (case (keystore, signer) of
        (Some k, Some s) \<Rightarrow> ok_or mls_error (om_load_identity M k s name)
      | _ \<Rightarrow> Inl mls_error)"

definition identity_key_package :: "('i, 'g, 'k, 'w, 'm, 'c) openmls \<Rightarrow> bytes \<Rightarrow> 'i \<Rightarrow> crypto_error + 'i \<times> bytes" where
  "identity_key_package M rng i = ok_or mls_error (om_key_package M rng i)"

definition create_group :: "('i, 'g, 'k, 'w, 'm, 'c) openmls \<Rightarrow> bytes \<Rightarrow> 'i \<Rightarrow> bytes \<Rightarrow> crypto_error + 'g" where
  "create_group M rng i repo = ok_or mls_error (om_new_group M rng i repo)"

record mls_invitation =
  inv_welcome :: bytes
  inv_commit :: bytes

definition join :: "('i, 'g, 'k, 'w, 'm, 'c) openmls \<Rightarrow> 'i \<Rightarrow> mls_invitation \<Rightarrow> crypto_error + 'g" where
  "join M i invitation =
     rbind (ok_or wire_error (om_message M (inv_welcome invitation))) (\<lambda>body.
       case body of
         BodyWelcome w \<Rightarrow> ok_or mls_error (om_stage_welcome M i w)
       | _ \<Rightarrow> Inl (unavailable ''expected MLS Welcome''))"

section \<open>Groups\<close>

definition group_id_bytes :: "('i, 'g, 'k, 'w, 'm, 'c) openmls \<Rightarrow> 'g \<Rightarrow> crypto_error + bytes" where
  "group_id_bytes M g =
     (if length (om_group_id M g) = 32 then Inr (om_group_id M g)
      else Inl (unavailable ''group id must be 32 bytes''))"

definition sign_detached :: "('i, 'g, 'k, 'w, 'm, 'c) openmls \<Rightarrow> 'g \<Rightarrow> bytes \<Rightarrow> crypto_error + bytes" where
  "sign_detached M g msg = ok_or (Mls ''leaf ML-DSA sign'') (om_sign M g msg)"

definition add_member :: "('i, 'g, 'k, 'w, 'm, 'c) openmls \<Rightarrow> bytes \<Rightarrow> 'g \<Rightarrow> bytes \<Rightarrow> crypto_error + 'g \<times> mls_invitation" where
  "add_member M rng g wire =
     rbind (ok_or wire_error (om_parse_kp M wire)) (\<lambda>kp.
     if \<not> om_validate_kp M g kp then Inl mls_error
     else rbind (ok_or mls_error (om_add M rng g kp)) (\<lambda>(g1, commit, welcome).
          rbind (ok_or mls_error (om_merge_pending M g1)) (\<lambda>g2.
            Inr (g2, \<lparr>inv_welcome = welcome, inv_commit = commit\<rparr>))))"

definition rotate_group :: "('i, 'g, 'k, 'w, 'm, 'c) openmls \<Rightarrow> bytes \<Rightarrow> 'g \<Rightarrow> crypto_error + 'g \<times> bytes" where
  "rotate_group M rng g =
     rbind (ok_or mls_error (om_self_update M rng g)) (\<lambda>(g1, commit).
     rbind (ok_or mls_error (om_merge_pending M g1)) (\<lambda>g2. Inr (g2, commit)))"

definition decode_protocol_message :: "('i, 'g, 'k, 'w, 'm, 'c) openmls \<Rightarrow> bytes \<Rightarrow> crypto_error + 'm" where
  "decode_protocol_message M wire =
     rbind (ok_or wire_error (om_message M wire)) (\<lambda>body.
       case body of BodyProtocol m \<Rightarrow> Inr m | _ \<Rightarrow> Inl wire_error)"

definition apply_commit :: "('i, 'g, 'k, 'w, 'm, 'c) openmls \<Rightarrow> 'g \<Rightarrow> bytes \<Rightarrow> crypto_error + 'g" where
  "apply_commit M g wire =
     rbind (decode_protocol_message M wire) (\<lambda>m.
     rbind (ok_or mls_error (om_process M g m)) (\<lambda>(g1, content).
       case content of
         StagedCommit c \<Rightarrow> ok_or mls_error (om_merge_staged M g1 c)
       | _ \<Rightarrow> Inl (unavailable ''expected MLS commit'')))"

definition protect_application :: "('i, 'g, 'k, 'w, 'm, 'c) openmls \<Rightarrow> bytes \<Rightarrow> 'g \<Rightarrow> bytes \<Rightarrow> crypto_error + 'g \<times> bytes" where
  "protect_application M rng g pt = ok_or mls_error (om_create_message M rng g pt)"

definition unprotect_application :: "('i, 'g, 'k, 'w, 'm, 'c) openmls \<Rightarrow> 'g \<Rightarrow> bytes \<Rightarrow> crypto_error + 'g \<times> bytes" where
  "unprotect_application M g wire =
     rbind (decode_protocol_message M wire) (\<lambda>m.
     rbind (ok_or mls_error (om_process M g m)) (\<lambda>(g1, content).
       case content of
         Application b \<Rightarrow> Inr (g1, b)
       | _ \<Rightarrow> Inl (unavailable ''expected MLS application message'')))"

record mls_epoch_keys =
  ek_transport :: bytes
  ek_refs :: bytes

definition export_epoch_keys :: "('i, 'g, 'k, 'w, 'm, 'c) openmls \<Rightarrow> 'g \<Rightarrow> bytes \<Rightarrow> crypto_error + mls_epoch_keys" where
  "export_epoch_keys M g repo =
     rbind (ok_or mls_error (om_export M g (domain_label ''transport'') repo SEC_PARAM_LEN)) (\<lambda>transport.
     rbind (ok_or mls_error (om_export M g (domain_label ''refs'') repo AEAD_KEY_LEN)) (\<lambda>refs.
       if length transport \<noteq> SEC_PARAM_LEN then Inl (unavailable ''invalid transport exporter length'')
       else if length refs \<noteq> AEAD_KEY_LEN then Inl (unavailable ''invalid refs exporter length'')
       else Inr \<lparr>ek_transport = transport, ek_refs = refs\<rparr>))"

definition load_persisted ::
    "('i, 'g, 'k, 'w, 'm, 'c) openmls \<Rightarrow> bytes \<Rightarrow> bytes \<Rightarrow> bytes \<Rightarrow> crypto_error + 'g" where
  "load_persisted M keystore signer repo = ok_or mls_error (om_load M keystore signer repo)"

section \<open>What the protocol promises\<close>

text \<open>
  RFC 9420: every Commit starts the next epoch, and whoever joins by a Welcome is in the epoch the
  Welcome was made for and shares its exporter.
\<close>

definition commits_advance :: "('i, 'g, 'k, 'w, 'm, 'c) openmls \<Rightarrow> bool" where
  "commits_advance M \<longleftrightarrow>
     (\<forall>rng g k g1 c w g2. om_add M rng g k = Some (g1, c, w) \<longrightarrow> om_merge_pending M g1 = Some g2 \<longrightarrow>
        om_epoch M g2 = om_epoch M g + 1) \<and>
     (\<forall>rng g g1 c g2. om_self_update M rng g = Some (g1, c) \<longrightarrow> om_merge_pending M g1 = Some g2 \<longrightarrow>
        om_epoch M g2 = om_epoch M g + 1)"

definition welcome_agrees :: "('i, 'g, 'k, 'w, 'm, 'c) openmls \<Rightarrow> bool" where
  "welcome_agrees M \<longleftrightarrow>
     (\<forall>rng g k g1 c w g2 b i gj. om_add M rng g k = Some (g1, c, w) \<longrightarrow> om_merge_pending M g1 = Some g2 \<longrightarrow>
        om_message M w = Some (BodyWelcome b) \<longrightarrow> om_stage_welcome M i b = Some gj \<longrightarrow>
        om_epoch M gj = om_epoch M g2 \<and> om_export M gj = om_export M g2)"

lemma add_member_steps:
  assumes "add_member M rng g wire = Inr (g', iv)"
  obtains k g1 where "om_add M rng g k = Some (g1, inv_commit iv, inv_welcome iv)" "om_merge_pending M g1 = Some g'"
  using assms by (auto simp: add_member_def rbind_Inr_conv ok_or_Inr_iff split: if_splits)

lemma rotate_group_steps:
  assumes "rotate_group M rng g = Inr (g', c)"
  obtains g1 where "om_self_update M rng g = Some (g1, c)" "om_merge_pending M g1 = Some g'"
  using assms by (auto simp: rotate_group_def rbind_Inr_conv ok_or_Inr_iff)

lemma add_member_epoch:
  "commits_advance M \<Longrightarrow> add_member M rng g wire = Inr (g', iv) \<Longrightarrow> om_epoch M g' = om_epoch M g + 1"
  unfolding commits_advance_def by (metis add_member_steps)

lemma rotate_group_epoch:
  "commits_advance M \<Longrightarrow> rotate_group M rng g = Inr (g', c) \<Longrightarrow> om_epoch M g' = om_epoch M g + 1"
  unfolding commits_advance_def by (metis rotate_group_steps)

lemma export_cong: "om_export M g = om_export M g' \<Longrightarrow> export_epoch_keys M g repo = export_epoch_keys M g' repo"
  by (simp add: export_epoch_keys_def)

lemma export_lengths:
  "export_epoch_keys M g repo = Inr ks \<Longrightarrow> length (ek_transport ks) = SEC_PARAM_LEN \<and> length (ek_refs ks) = AEAD_KEY_LEN"
  by (auto simp: export_epoch_keys_def rbind_Inr_conv ok_or_Inr_iff split: if_splits)

lemma join_agrees:
  assumes "welcome_agrees M" and "add_member M rng g wire = Inr (g', iv)" and "join M i iv = Inr gj"
  shows "om_epoch M gj = om_epoch M g' \<and> export_epoch_keys M gj repo = export_epoch_keys M g' repo"
proof -
  from assms(2) obtain k g1 where "om_add M rng g k = Some (g1, inv_commit iv, inv_welcome iv)"
    "om_merge_pending M g1 = Some g'" by (rule add_member_steps)
  moreover from assms(3) obtain b where "om_message M (inv_welcome iv) = Some (BodyWelcome b)" "om_stage_welcome M i b = Some gj"
    by (cases "om_message M (inv_welcome iv)") (auto simp: join_def ok_or_Inr_iff split: mls_body.splits)
  ultimately have "om_epoch M gj = om_epoch M g' \<and> om_export M gj = om_export M g'"
    using assms(1) unfolding welcome_agrees_def by blast
  then show ?thesis using export_cong by metis
qed

section \<open>A concrete library for the closed examples\<close>

text \<open>A group is its epoch; a Welcome carries the epoch it leads to.\<close>

definition demo_openmls :: "(unit, u64, unit, u64, unit, unit) openmls" where
  "demo_openmls =
     \<lparr>om_identity = (\<lambda>_ _. Some ()), om_identity_store = (\<lambda>_. []), om_identity_signer = (\<lambda>_. []),
      om_load_identity = (\<lambda>_ _ _. Some ()), om_key_package = (\<lambda>_ _. Some ((), [1])), om_new_group = (\<lambda>_ _ _. Some 0),
      om_message = (\<lambda>w. Some (BodyWelcome (of_le_bytes w))), om_stage_welcome = (\<lambda>_ e. Some e),
      om_parse_kp = (\<lambda>_. Some ()), om_validate_kp = (\<lambda>_ _. True), om_add = (\<lambda>_ g _. Some (g, [], u64_le (g + 1))),
      om_self_update = (\<lambda>_ g. Some (g, [])), om_merge_pending = (\<lambda>g. Some (g + 1)), om_process = (\<lambda>_ _. None),
      om_merge_staged = (\<lambda>_ _. None), om_create_message = (\<lambda>_ g pt. Some (g, pt)),
      om_export = (\<lambda>g label ctx n. Some (fix_len n ([7] @ u64_le g))), om_epoch = (\<lambda>g. g), om_members = (\<lambda>_. [replicate 2592 1, replicate 2592 2]),
      om_sign = (\<lambda>_ m. Some m), om_leaf_vk = (\<lambda>_. [1]), om_group_id = (\<lambda>_. replicate 32 1), om_store = u64_le,
      om_signer = (\<lambda>_. []), om_load = (\<lambda>ks _ _. Some (of_le_bytes ks))\<rparr>"

lemma demo_openmls_laws: "commits_advance demo_openmls" "welcome_agrees demo_openmls"
  by (simp_all add: commits_advance_def welcome_agrees_def demo_openmls_def)

end
