(* ===== verification/Texts.thy ===== *)
theory Texts
  imports Prelude
begin

text \<open>
  The string functions of Rust's standard library that the commands use, on the byte strings of the
  model: prefixes, splitting, lines, white space, decimal numbers and the validity of UTF-8.
\<close>

section \<open>Cutting strings\<close>

text \<open>\<^verbatim>\<open>str::strip_prefix\<close>.\<close>

definition strip_prefix :: "'a list \<Rightarrow> 'a list \<Rightarrow> 'a list option" where
  "strip_prefix pre s = (if take (length pre) s = pre then Some (drop (length pre) s) else None)"

lemma strip_prefix_iff: "strip_prefix pre s = Some r \<longleftrightarrow> s = pre @ r"
proof
  assume "strip_prefix pre s = Some r"
  then have "take (length pre) s = pre" "drop (length pre) s = r" by (simp_all add: strip_prefix_def split: if_splits)
  then show "s = pre @ r" by (metis append_take_drop_id)
qed (simp add: strip_prefix_def)

lemma strip_prefix_append [simp]: "strip_prefix pre (pre @ r) = Some r"
  by (simp add: strip_prefix_iff)

text \<open>The part before the first separator, and what follows it.\<close>

fun cut :: "'a \<Rightarrow> 'a list \<Rightarrow> 'a list \<times> 'a list option" where
  "cut c [] = ([], None)"
| "cut c (x # xs) = (if x = c then ([], Some xs) else apfst ((#) x) (cut c xs))"

lemma cut_spec:
  "case cut c s of (a, None) \<Rightarrow> a = s \<and> c \<notin> set s | (a, Some r) \<Rightarrow> s = a @ c # r \<and> c \<notin> set a"
proof (induction s)
  case (Cons x s)
  then show ?case by (cases "cut c s") (auto simp: apfst_def map_prod_def split: option.splits)
qed simp

lemma cut_append: "c \<notin> set a \<Longrightarrow> cut c (a @ c # r) = (a, Some r)"
  by (induction a) auto

lemma cut_all: "c \<notin> set s \<Longrightarrow> cut c s = (s, None)"
  by (induction s) auto

lemma cut_Some: "cut c s = (a, Some r) \<longleftrightarrow> s = a @ c # r \<and> c \<notin> set a"
  using cut_spec [where c = c and s = s] cut_append [where c = c and a = a and r = r] by (cases "cut c s") auto

lemma cut_None: "cut c s = (a, None) \<longleftrightarrow> a = s \<and> c \<notin> set s"
  using cut_spec [where c = c and s = s] cut_all [where c = c and s = s] by (cases "cut c s") auto

text \<open>What precedes the first separator is determined.\<close>

lemma first_sep: "c \<notin> set a \<Longrightarrow> c \<notin> set b \<Longrightarrow> a @ c # x = b @ c # y \<longleftrightarrow> a = b \<and> x = y"
  by (metis cut_append option.inject prod.inject)

lemma cut_shorter: "cut c s = (a, Some r) \<Longrightarrow> length r < length s"
  by (simp add: cut_Some)

text \<open>\<^verbatim>\<open>split(c)\<close>: one more piece than there are separators.\<close>

function split_on :: "'a \<Rightarrow> 'a list \<Rightarrow> 'a list list" where
  "split_on c s = (case cut c s of (a, None) \<Rightarrow> [a] | (a, Some r) \<Rightarrow> a # split_on c r)"
  by pat_completeness auto
termination by (relation "measure (\<lambda>(c, s). length s)") (auto simp: cut_Some dest: sym)

declare split_on.simps [simp del]

lemma split_on_none: "c \<notin> set s \<Longrightarrow> split_on c s = [s]"
  by (subst split_on.simps) (simp add: cut_all)

lemma split_on_first: "c \<notin> set a \<Longrightarrow> split_on c (a @ c # r) = a # split_on c r"
  by (subst split_on.simps) (simp add: cut_append)

text \<open>\<^verbatim>\<open>trim_matches(c)\<close>.\<close>

definition trim_char :: "'a \<Rightarrow> 'a list \<Rightarrow> 'a list" where
  "trim_char c s = rev (dropWhile (\<lambda>x. x = c) (rev (dropWhile (\<lambda>x. x = c) s)))"

text \<open>\<^verbatim>\<open>str::trim\<close> and the white space it removes, on ASCII.\<close>

definition is_ws :: "char \<Rightarrow> bool" where
  "is_ws c \<longleftrightarrow> of_char c \<in> {9, 10, 11, 12, 13, 32 :: nat}"

definition trim :: "string \<Rightarrow> string" where
  "trim s = rev (dropWhile is_ws (rev (dropWhile is_ws s)))"

lemma trim_id: "list_all (\<lambda>c. \<not> is_ws c) s \<Longrightarrow> trim s = s"
proof -
  have none: "list_all (\<lambda>c. \<not> is_ws c) t \<Longrightarrow> dropWhile is_ws t = t" for t
    by (cases t) simp_all
  assume "list_all (\<lambda>c. \<not> is_ws c) s"
  then show ?thesis by (simp add: trim_def none)
qed

text \<open>\<^verbatim>\<open>str::lines\<close>: pieces between line feeds, a carriage return before one dropped, no empty last piece.\<close>

definition chomp_cr :: "string \<Rightarrow> string" where
  "chomp_cr s = (if s \<noteq> [] \<and> last s = CHR 0x0D then butlast s else s)"

function lines_of :: "string \<Rightarrow> string list" where
  "lines_of s =
     (if s = [] then []
      else case cut (CHR 0x0A) s of (a, None) \<Rightarrow> [a] | (a, Some r) \<Rightarrow> chomp_cr a # lines_of r)"
  by pat_completeness auto
termination by (relation "measure length") (auto simp: cut_Some dest: sym)

declare lines_of.simps [simp del]

text \<open>\<^verbatim>\<open>split_once(char::is_whitespace)\<close>.\<close>

fun split_ws :: "string \<Rightarrow> (string \<times> string) option" where
  "split_ws [] = None"
| "split_ws (c # s) = (if is_ws c then Some ([], s) else map_option (\<lambda>(a, b). (c # a, b)) (split_ws s))"

section \<open>Numbers\<close>

definition is_digit :: "char \<Rightarrow> bool" where
  "is_digit c \<longleftrightarrow> 48 \<le> (of_char c :: nat) \<and> (of_char c :: nat) < 58"

text \<open>\<^verbatim>\<open>parse::<u64>()\<close>: an optional plus sign, at least one digit, no overflow.\<close>

definition parse_u64 :: "string \<Rightarrow> u64 option" where
  "parse_u64 s =
     (let d = (case s of [] \<Rightarrow> [] | c # r \<Rightarrow> if c = CHR ''+'' then r else s)
      in if d = [] \<or> \<not> list_all is_digit d \<or> undec d \<ge> 2 ^ 64 then None else Some (of_nat (undec d)))"

lemma dec_string_digits: "list_all is_digit (dec_string n)"
  using set_dec_string by (auto simp: list_all_iff is_digit_def)

lemma dec_string_not_Nil [simp]: "dec_string n \<noteq> []"
  by (subst dec_string.simps) simp

lemma parse_word_string [simp]: "parse_u64 (word_string x) = Some x"
proof -
  let ?s = "dec_string (unat x)"
  have "\<not> is_digit CHR ''+''" by (simp add: is_digit_def)
  then have "hd ?s \<noteq> CHR ''+''"
    using dec_string_digits [of "unat x"] by (cases ?s) auto
  then have "(case ?s of [] \<Rightarrow> [] | c # r \<Rightarrow> if c = CHR ''+'' then r else ?s) = ?s"
    by (cases ?s) auto
  then show ?thesis
    using dec_string_digits [of "unat x"] unat_u64_bound [of x]
    by (simp add: parse_u64_def Let_def undec_dec_string not_le)
qed

lemma trim_word_string [simp]: "trim (word_string x) = word_string x"
  using dec_string_digits [of "unat x"] by (intro trim_id) (auto simp: list_all_iff is_digit_def is_ws_def)

section \<open>UTF-8\<close>

text \<open>\<^verbatim>\<open>String::from_utf8\<close> accepts exactly the well-formed byte sequences of the Unicode standard.\<close>

definition cont :: "u8 \<Rightarrow> bool" where
  "cont b \<longleftrightarrow> 0x80 \<le> b \<and> b \<le> 0xBF"

fun utf8_ok :: "bytes \<Rightarrow> bool" where
  "utf8_ok [] = True"
| "utf8_ok (b # r) =
     (if b < 0x80 then utf8_ok r
      else case r of
        [] \<Rightarrow> False
      | c # r1 \<Rightarrow>
          if 0xC2 \<le> b \<and> b \<le> 0xDF then cont c \<and> utf8_ok r1
          else (case r1 of
            [] \<Rightarrow> False
          | d # r2 \<Rightarrow>
              if 0xE0 \<le> b \<and> b \<le> 0xEF
              then cont c \<and> (b = 0xE0 \<longrightarrow> 0xA0 \<le> c) \<and> (b = 0xED \<longrightarrow> c \<le> 0x9F) \<and> cont d \<and> utf8_ok r2
              else (case r2 of
                [] \<Rightarrow> False
              | e # r3 \<Rightarrow>
                  0xF0 \<le> b \<and> b \<le> 0xF4 \<and> cont c \<and> (b = 0xF0 \<longrightarrow> 0x90 \<le> c) \<and> (b = 0xF4 \<longrightarrow> c \<le> 0x8F) \<and>
                  cont d \<and> cont e \<and> utf8_ok r3)))"

definition bytes_str :: "bytes \<Rightarrow> string" where
  "bytes_str b = map (\<lambda>x. char_of (unat x)) b"

lemma bytes_str_bytes [simp]: "bytes_str (str_bytes s) = s"
proof -
  have "char_of (unat (of_char c :: u8)) = c" for c
  proof -
    have "(of_char c :: nat) mod 256 = of_char c" by (rule of_char_mod_256)
    moreover have "(of_char c :: u8) = of_nat (of_char c)" by (simp only: of_nat_of_char)
    ultimately have "unat (of_char c :: u8) = of_char c" by (simp only: unat_of_nat) (simp add: take_bit_eq_mod)
    then show ?thesis by simp
  qed
  then show ?thesis by (simp add: bytes_str_def str_bytes_def comp_def)
qed

definition from_utf8 :: "bytes \<Rightarrow> string option" where
  "from_utf8 b = (if utf8_ok b then Some (bytes_str b) else None)"

lemma utf8_ok_ascii: "list_all (\<lambda>b. b < 0x80) bs \<Longrightarrow> utf8_ok bs"
  by (induction bs) auto

end
