(* ===== verification/Group.thy ===== *)
theory Group
  imports End_To_End Mls Texts
begin

text \<open>
  The life of a repository group on a device, the flows of \<^verbatim>\<open>safehub-client/src/mls_local.rs\<close>: creating
  the group, inviting a member, accepting a Welcome, rotating.  The directory of the repository on a
  device is \<open>repo_dir\<close>, one field per file; each flow maps the directory and the host's state to new
  ones and a result, so what a failing flow leaves behind is part of the model.  JSON is a parameter;
  random draws are arguments.
\<close>

section \<open>The directory of a repository\<close>

record repo_dir =
  rd_epoch :: "epoch_material option"
  rd_keystore :: "bytes option"
  rd_signer :: "bytes option"
  rd_admin :: "mldsa_key_pair option"
  rd_admin_vk :: "bytes option"
  rd_leaf_vk :: "bytes option"
  rd_graft :: "(bytes \<times> u64) option"

definition empty_dir :: repo_dir where
  "empty_dir = \<lparr>rd_epoch = None, rd_keystore = None, rd_signer = None, rd_admin = None, rd_admin_vk = None,
     rd_leaf_vk = None, rd_graft = None\<rparr>"

definition other_msg :: "crypto_error \<Rightarrow> client_error" where
  "other_msg e = Other (MsgCrypto e)"

definition result_ok :: "'e + 'a \<Rightarrow> 'a option" where
  "result_ok r = (case r of Inl _ \<Rightarrow> None | Inr x \<Rightarrow> Some x)"

definition load_epoch_material :: "repo_dir \<Rightarrow> client_error + epoch_material" where
  "load_epoch_material d = ok_or (Config ''missing MLS epoch material'') (rd_epoch d)"

definition material_save :: "epoch_material \<Rightarrow> repo_dir \<Rightarrow> repo_dir" where
  "material_save m d = d\<lparr>rd_epoch := Some m\<rparr>"

definition has_durable_group :: "repo_dir \<Rightarrow> bool" where
  "has_durable_group d \<longleftrightarrow> rd_keystore d \<noteq> None"

definition persist_group :: "('i, 'g, 'k, 'w, 'm, 'c) openmls \<Rightarrow> 'g \<Rightarrow> repo_dir \<Rightarrow> repo_dir" where
  "persist_group M g d = d\<lparr>rd_keystore := Some (om_store M g), rd_signer := Some (om_signer M g)\<rparr>"

definition persist_admin_keypair :: "mldsa_key_pair \<Rightarrow> repo_dir \<Rightarrow> repo_dir" where
  "persist_admin_keypair admin d = d\<lparr>rd_admin := Some admin, rd_admin_vk := Some (kp_public admin)\<rparr>"

definition load_admin_keypair :: "repo_dir \<Rightarrow> client_error + mldsa_key_pair" where
  "load_admin_keypair d = ok_or (Config ''missing admin ML-DSA key'') (rd_admin d)"

definition load_admin_vk :: "repo_dir \<Rightarrow> client_error + bytes" where
  "load_admin_vk d =
     (case rd_admin_vk d of Some vk \<Rightarrow> Inr vk | None \<Rightarrow> rbind (load_admin_keypair d) (\<lambda>k. Inr (kp_public k)))"

definition load_persisted_group :: "('i, 'g, 'k, 'w, 'm, 'c) openmls \<Rightarrow> repo_id \<Rightarrow> repo_dir \<Rightarrow> client_error + 'g" where
  "load_persisted_group M repo d =
     (case (rd_keystore d, rd_signer d) of
        (Some ks, Some sp) \<Rightarrow> map_err other_msg (load_persisted M ks sp repo)
      | _ \<Rightarrow> Inl (Config ''missing durable MLS group''))"

definition load_leaf_vk :: "('i, 'g, 'k, 'w, 'm, 'c) openmls \<Rightarrow> repo_id \<Rightarrow> repo_dir \<Rightarrow> client_error + bytes" where
  "load_leaf_vk M repo d = rbind (load_persisted_group M repo d) (\<lambda>g. Inr (om_leaf_vk M g))"

section \<open>Creating a group\<close>

text \<open>The random draws of the flows.\<close>

record group_draws =
  gd_identity :: bytes
  gd_key_package :: bytes
  gd_group :: bytes
  gd_admin :: bytes
  gd_commit :: bytes
  gd_init :: bytes
  gd_block :: bytes
  gd_advance :: bytes
  gd_advance' :: bytes
  gd_object :: bytes

definition bootstrap_repo_group ::
    "prims \<Rightarrow> ('i, 'g, 'k, 'w, 'm, 'c) openmls \<Rightarrow> group_draws \<Rightarrow> repo_id \<Rightarrow> string \<Rightarrow> repo_dir \<Rightarrow>
     repo_dir \<times> (client_error + 'g \<times> epoch_material \<times> bytes)" where
  "bootstrap_repo_group P M gd repo device_name d =
     (case rbind (map_err Crypto (identity_generate M (gd_identity gd) (str_bytes device_name))) (\<lambda>i.
           rbind (map_err Crypto (identity_key_package M (gd_key_package gd) i)) (\<lambda>(i1, kp).
           rbind (map_err Crypto (create_group M (gd_group gd) i1 repo)) (\<lambda>g.
           rbind (map_err Crypto (export_epoch_keys M g repo)) (\<lambda>keys. Inr (kp, g, keys))))) of
        Inl e \<Rightarrow> (d, Inl e)
      | Inr (kp, g, keys) \<Rightarrow>
          (let material = inherit (result_ok (load_epoch_material d))
                 (exported (om_epoch M g) (ek_transport keys) (ek_refs keys) 0 (ek_transport keys));
               d1 = persist_group M g (material_save material d)
           in case map_err other_msg (kp_generate P (gd_admin gd)) of
                Inl e \<Rightarrow> (d1, Inl e)
              | Inr admin \<Rightarrow>
                  ((persist_admin_keypair admin d1)\<lparr>rd_leaf_vk := Some (om_leaf_vk M g)\<rparr>, Inr (g, material, kp))))"

section \<open>Inviting\<close>

record welcome_grant =
  wg_history :: string
  wg_history_from :: u64
  wg_dkr_token :: bytes
  wg_graft_blob_id :: "string option"
  wg_welcome :: bytes
  wg_commit :: bytes
  wg_admin_vk :: "bytes option"
  wg_prior_transport :: "(u64 \<times> bytes) list"
  wg_prior_refs_mac :: "(u64 \<times> bytes) list"

record grant_json =
  gj_print :: "welcome_grant \<Rightarrow> bytes option"
  gj_parse :: "bytes \<Rightarrow> welcome_grant option"

text \<open>What the flows call of the host.\<close>

record 'h mls_client =
  mc_whoami :: "'h \<Rightarrow> client_error + user_id"
  mc_list_key_packages :: "user_id \<Rightarrow> 'h \<Rightarrow> client_error + key_package_record list"
  mc_put_key_package :: "user_id \<Rightarrow> string \<Rightarrow> bytes \<Rightarrow> 'h \<Rightarrow> 'h \<times> (client_error + unit)"
  mc_enqueue :: "bytes \<Rightarrow> string option \<Rightarrow> 'h \<Rightarrow> 'h \<times> (client_error + u64)"
  mc_fetch :: "u64 \<Rightarrow> 'h \<Rightarrow> client_error + mls_envelope list"
  mc_get :: "'h \<Rightarrow> blob_id \<Rightarrow> client_error + bytes"
  mc_host :: "'h host"

text \<open>Up to the new epoch: the group after the Commit, its keys, the start and the token of the grant.\<close>

definition invite_commit ::
    "('i, 'g, 'k, 'w, 'm, 'c) openmls \<Rightarrow> 'h mls_client \<Rightarrow> group_draws \<Rightarrow> repo_id \<Rightarrow> user_id \<Rightarrow> bool \<Rightarrow> repo_dir \<Rightarrow> 'h \<Rightarrow>
     client_error + 'g \<times> mls_invitation \<times> mls_epoch_keys \<times> u64 \<times> bytes" where
  "invite_commit M C gd repo user forward_only d s =
     rbind (load_admin_keypair d) (\<lambda>_.
     rbind (load_persisted_group M repo d) (\<lambda>g0.
     rbind (mc_list_key_packages C user s) (\<lambda>packages.
     rbind (ok_or (Other (NoKeyPackage user)) (find (\<lambda>p. kpr_device p = ''default'') packages)) (\<lambda>kp.
     rbind (map_err other_msg (add_member M (gd_commit gd) g0 (kpr_key_package kp))) (\<lambda>(g, invitation).
     rbind (map_err other_msg (export_epoch_keys M g repo)) (\<lambda>keys.
       let start = (if forward_only then om_epoch M g else 0);
           dkr = fst (dkr_init (gd_init gd) (with_seed (ek_transport keys)))
       in rbind (if forward_only then Inr (snd (backward_block (gd_block gd) (om_epoch M g) dkr))
                 else map_err other_msg (snd (dkr_advance (gd_advance gd) (gd_advance' gd) (om_epoch M g) dkr)))
            (\<lambda>join_interval. Inr (g, invitation, keys, start, iv_token join_interval))))))))"

definition upload_graft ::
    "prims \<Rightarrow> hex_codec \<Rightarrow> 'h mls_client \<Rightarrow> group_draws \<Rightarrow> bool \<Rightarrow> epoch_material \<Rightarrow> u64 \<Rightarrow> bytes option \<Rightarrow> 'h \<Rightarrow>
     'h \<times> (client_error + string option)" where
  "upload_graft P X C gd forward_only material start graft_plaintext s =
     (if forward_only
      then (case graft_plaintext of
              None \<Rightarrow> (s, Inr None)
            | Some bundle \<Rightarrow>
                apsnd (map_sum id (\<lambda>i. Some (id_to_hex X i)))
                  (put_sealed_object P (mc_host C) (gd_object gd) material
                     (graft_encode \<lparr>history_left = start, snapshot_bundle = bundle\<rparr>)
                     (''graft-'' @ word_string start) s))
      else (s, Inr None))"

definition make_grant ::
    "bool \<Rightarrow> u64 \<Rightarrow> bytes \<Rightarrow> string option \<Rightarrow> mls_invitation \<Rightarrow> repo_dir \<Rightarrow> epoch_material \<Rightarrow> welcome_grant" where
  "make_grant forward_only start dkr_token graft_blob_id invitation d material =
     \<lparr>wg_history = (if forward_only then ''forward_only'' else ''full''), wg_history_from = start,
      wg_dkr_token = dkr_token, wg_graft_blob_id = graft_blob_id, wg_welcome = inv_welcome invitation,
      wg_commit = inv_commit invitation, wg_admin_vk = result_ok (load_admin_vk d),
      wg_prior_transport = (if forward_only then [] else prior_transport material),
      wg_prior_refs_mac = (if forward_only then [] else prior_refs_mac material)\<rparr>"

definition invite_member_mls_with_graft ::
    "prims \<Rightarrow> hex_codec \<Rightarrow> ('i, 'g, 'k, 'w, 'm, 'c) openmls \<Rightarrow> grant_json \<Rightarrow> 'h mls_client \<Rightarrow> group_draws \<Rightarrow> repo_id \<Rightarrow>
     user_id \<Rightarrow> bool \<Rightarrow> bytes option \<Rightarrow> repo_dir \<Rightarrow> 'h \<Rightarrow> repo_dir \<times> 'h \<times> (client_error + welcome_grant)" where
  "invite_member_mls_with_graft P X M GJ C gd repo user forward_only graft_plaintext d s =
     (case invite_commit M C gd repo user forward_only d s of
        Inl e \<Rightarrow> (d, s, Inl e)
      | Inr (g, invitation, keys, start, dkr_token) \<Rightarrow>
          (let material = inherit (result_ok (load_epoch_material d))
                 (exported (om_epoch M g) (ek_transport keys) (ek_refs keys) 0 dkr_token);
               d1 = persist_group M g (material_save material d)
           in case upload_graft P X C gd forward_only material start graft_plaintext s of
                (s1, Inl e) \<Rightarrow> (d1, s1, Inl e)
              | (s1, Inr graft_blob_id) \<Rightarrow>
                  (let grant = make_grant forward_only start dkr_token graft_blob_id invitation d1 material
                   in case gj_print GJ grant of
                        None \<Rightarrow> (d1, s1, Inl Serde)
                      | Some payload \<Rightarrow>
                          (case mc_enqueue C payload (Some (''invite:'' @ user)) s1 of
                             (s2, Inl e) \<Rightarrow> (d1, s2, Inl e)
                           | (s2, Inr _) \<Rightarrow> (d1, s2, Inr grant)))))"

definition invite_member_mls ::
    "prims \<Rightarrow> hex_codec \<Rightarrow> ('i, 'g, 'k, 'w, 'm, 'c) openmls \<Rightarrow> grant_json \<Rightarrow> 'h mls_client \<Rightarrow> group_draws \<Rightarrow> repo_id \<Rightarrow>
     user_id \<Rightarrow> bool \<Rightarrow> repo_dir \<Rightarrow> 'h \<Rightarrow> repo_dir \<times> 'h \<times> (client_error + welcome_grant)" where
  "invite_member_mls P X M GJ C gd repo user forward_only d s =
     invite_member_mls_with_graft P X M GJ C gd repo user forward_only None d s"

section \<open>Key packages and Welcomes\<close>

text \<open>A directory \<^verbatim>\<open>device_mls/{label}\<close>.\<close>

record device_dir =
  dd_keystore :: "bytes option"
  dd_signer :: "bytes option"
  dd_name :: "string option"

definition publish_device_key_package ::
    "('i, 'g, 'k, 'w, 'm, 'c) openmls \<Rightarrow> 'h mls_client \<Rightarrow> group_draws \<Rightarrow> string \<Rightarrow> device_dir \<Rightarrow> 'h \<Rightarrow>
     device_dir \<times> 'h \<times> (client_error + unit)" where
  "publish_device_key_package M C gd device_label dev s =
     (case rbind (mc_whoami C s) (\<lambda>user.
           let device_name = user @ ''-'' @ device_label
           in rbind (map_err Crypto (identity_generate M (gd_identity gd) (str_bytes device_name))) (\<lambda>i.
              rbind (map_err Crypto (identity_key_package M (gd_key_package gd) i)) (\<lambda>(i1, kp).
                Inr (user, device_name, i1, kp)))) of
        Inl e \<Rightarrow> (dev, s, Inl e)
      | Inr (user, device_name, i, kp) \<Rightarrow>
          (\<lparr>dd_keystore = Some (om_identity_store M i), dd_signer = Some (om_identity_signer M i), dd_name = Some device_name\<rparr>,
           mc_put_key_package C user device_label kp s))"

text \<open>The last payload of the queue that parses as a grant.\<close>

definition last_grant :: "grant_json \<Rightarrow> mls_envelope list \<Rightarrow> welcome_grant option" where
  "last_grant GJ messages =
     fold (\<lambda>env acc. case gj_parse GJ (env_payload env) of Some g \<Rightarrow> Some g | None \<Rightarrow> acc) messages None"

definition accept_join ::
    "('i, 'g, 'k, 'w, 'm, 'c) openmls \<Rightarrow> grant_json \<Rightarrow> 'h mls_client \<Rightarrow> repo_id \<Rightarrow> device_dir \<Rightarrow> 'h \<Rightarrow>
     client_error + welcome_grant \<times> 'g \<times> mls_epoch_keys" where
  "accept_join M GJ C repo dev s =
     rbind (mc_fetch C 0 s) (\<lambda>messages.
     rbind (ok_or (Other NoWelcome) (last_grant GJ messages)) (\<lambda>grant.
     rbind (ok_or (Config ''missing device MLS identity'') (dd_name dev)) (\<lambda>name.
     rbind (map_err other_msg (identity_load M (dd_keystore dev) (dd_signer dev) (str_bytes (trim name)))) (\<lambda>i.
     rbind (map_err other_msg (join M i \<lparr>inv_welcome = wg_welcome grant, inv_commit = wg_commit grant\<rparr>)) (\<lambda>g.
     rbind (map_err other_msg (export_epoch_keys M g repo)) (\<lambda>keys.
       Inr (grant, g, keys)))))))"

definition joined_material :: "u64 \<Rightarrow> mls_epoch_keys \<Rightarrow> welcome_grant \<Rightarrow> epoch_material" where
  "joined_material e keys grant =
     \<lparr>em_epoch = e, em_transport = ek_transport keys, em_refs_mac = ek_refs keys, em_history_from = wg_history_from grant,
      em_dkr_token = (if length (wg_dkr_token grant) = SEC_PARAM_LEN then wg_dkr_token grant else ek_transport keys),
      prior_transport = wg_prior_transport grant, prior_refs_mac = wg_prior_refs_mac grant\<rparr>"

definition import_graft ::
    "prims \<Rightarrow> hex_codec \<Rightarrow> 'h mls_client \<Rightarrow> epoch_material \<Rightarrow> string option \<Rightarrow> repo_dir \<Rightarrow> 'h \<Rightarrow> repo_dir \<times> (client_error + unit)" where
  "import_graft P X C material blob_hex d s =
     (case blob_hex of
        None \<Rightarrow> (d, Inr ())
      | Some hex \<Rightarrow>
          (case rbind (map_err (\<lambda>_. Other BadHex) (blob_id_from_hex X hex)) (get_sealed_object P (mc_get C s) material) of
             Inl e \<Rightarrow> (d, Inl e)
           | Inr wire \<Rightarrow>
               (case graft_decode wire of
                  None \<Rightarrow> (d, Inr ())
                | Some graft \<Rightarrow> (d\<lparr>rd_graft := Some (snapshot_bundle graft, history_left graft)\<rparr>, Inr ()))))"

definition accept_welcome_mls ::
    "prims \<Rightarrow> hex_codec \<Rightarrow> ('i, 'g, 'k, 'w, 'm, 'c) openmls \<Rightarrow> grant_json \<Rightarrow> 'h mls_client \<Rightarrow> repo_id \<Rightarrow> device_dir \<Rightarrow>
     repo_dir \<Rightarrow> 'h \<Rightarrow> repo_dir \<times> (client_error + epoch_material)" where
  "accept_welcome_mls P X M GJ C repo dev d s =
     (case accept_join M GJ C repo dev s of
        Inl e \<Rightarrow> (d, Inl e)
      | Inr (grant, g, keys) \<Rightarrow>
          (let material = joined_material (om_epoch M g) keys grant;
               d1 = (persist_group M g (material_save material d))\<lparr>rd_leaf_vk := Some (om_leaf_vk M g)\<rparr>;
               d2 = (case wg_admin_vk grant of None \<Rightarrow> d1 | Some vk \<Rightarrow> d1\<lparr>rd_admin_vk := Some vk\<rparr>)
           in apsnd (map_sum id (\<lambda>_. material)) (import_graft P X C material (wg_graft_blob_id grant) d2 s)))"

section \<open>Rotating\<close>

definition rotate_repo_group ::
    "('i, 'g, 'k, 'w, 'm, 'c) openmls \<Rightarrow> group_draws \<Rightarrow> repo_id \<Rightarrow> repo_dir \<Rightarrow> repo_dir \<times> (client_error + epoch_material)" where
  "rotate_repo_group M gd repo d =
     (case rbind (load_admin_keypair d) (\<lambda>_.
           rbind (load_persisted_group M repo d) (\<lambda>g0.
           rbind (map_err other_msg (rotate_group M (gd_commit gd) g0)) (\<lambda>(g, _).
           rbind (map_err other_msg (export_epoch_keys M g repo)) (\<lambda>keys. Inr (g, keys))))) of
        Inl e \<Rightarrow> (d, Inl e)
      | Inr (g, keys) \<Rightarrow>
          (let material = inherit (result_ok (load_epoch_material d))
                 (exported (om_epoch M g) (ek_transport keys) (ek_refs keys) 0 (ek_transport keys))
           in ((persist_group M g (material_save material d))\<lparr>rd_leaf_vk := Some (om_leaf_vk M g)\<rparr>, Inr material)))"

section \<open>What the device signs with\<close>

definition push_keys_of :: "('i, 'g, 'k, 'w, 'm, 'c) openmls \<Rightarrow> repo_id \<Rightarrow> repo_dir \<Rightarrow> push_keys" where
  "push_keys_of M repo d =
     \<lparr>pk_group = map_option (\<lambda>g. \<lparr>gv_sign = om_sign M g, gv_roster = om_members M g\<rparr>) (result_ok (load_persisted_group M repo d)),
      pk_admin = rd_admin d, pk_durable = has_durable_group d\<rparr>"

definition http_mls_client ::
    "prims \<Rightarrow> head_json \<Rightarrow> hex_codec \<Rightarrow> blob_parsers \<Rightarrow> (blob_meta \<Rightarrow> string) \<Rightarrow> token_record \<Rightarrow> repo_id \<Rightarrow> server_state mls_client" where
  "http_mls_client P J X B show_meta au repo =
     \<lparr>mc_whoami = (\<lambda>_. Inr (tr_user au)), mc_list_key_packages = http_list_key_packages au,
      mc_put_key_package = http_put_key_package au, mc_enqueue = http_mls_enqueue X au repo,
      mc_fetch = http_mls_fetch X au repo, mc_get = http_get_blob X au repo,
      mc_host = client_host P J X B show_meta au repo\<rparr>"

section \<open>Inviting and accepting\<close>

lemma result_ok_load [simp]: "result_ok (load_epoch_material d) = rd_epoch d"
  by (simp add: result_ok_def load_epoch_material_def ok_or_def split: option.splits)

definition invited_material :: "'g \<Rightarrow> ('i, 'g, 'k, 'w, 'm, 'c) openmls \<Rightarrow> mls_epoch_keys \<Rightarrow> bytes \<Rightarrow> repo_dir \<Rightarrow> epoch_material" where
  "invited_material g M keys tok d = inherit (rd_epoch d) (exported (om_epoch M g) (ek_transport keys) (ek_refs keys) 0 tok)"

lemma invite_commit_shape:
  assumes "invite_commit M C gd repo user fo d s = Inr (g, invitation, keys, start, tok)"
  obtains g0 wire where "load_persisted_group M repo d = Inr g0" "add_member M (gd_commit gd) g0 wire = Inr (g, invitation)"
    "export_epoch_keys M g repo = Inr keys" "start = (if fo then om_epoch M g else 0)"
    "fo \<Longrightarrow> tok = fix_len SEC_PARAM_LEN (gd_block gd)" "length tok = SEC_PARAM_LEN"
    "\<not> fo \<Longrightarrow> seed_ok (ek_transport keys) \<Longrightarrow> om_epoch M g < DKR_SEGMENT_CAPACITY \<Longrightarrow> tok = ek_transport keys"
proof -
  from assms obtain g0 wire iv where
    g0: "load_persisted_group M repo d = Inr g0" and add: "add_member M (gd_commit gd) g0 wire = Inr (g, invitation)"
    and keys: "export_epoch_keys M g repo = Inr keys" and start: "start = (if fo then om_epoch M g else 0)" and tok: "tok = iv_token iv"
    and iv: "(if fo then Inr (snd (backward_block (gd_block gd) (om_epoch M g) (fst (dkr_init (gd_init gd) (with_seed (ek_transport keys))))))
       else map_err other_msg (snd (dkr_advance (gd_advance gd) (gd_advance' gd) (om_epoch M g)
              (fst (dkr_init (gd_init gd) (with_seed (ek_transport keys))))))) = Inr iv"
    by (auto simp: invite_commit_def rbind_Inr_conv Let_def)
  have len: "length (ek_transport keys) = SEC_PARAM_LEN" using export_lengths [OF keys] by simp
  have "length tok = SEC_PARAM_LEN"
    using iv len by (auto simp: tok backward_block_def dkr_advance_def reinit_segment_def current_interval_def ensure_seeded_def
        dkr_init_def with_seed_def Let_def split: if_splits)
  moreover have "fo \<Longrightarrow> tok = fix_len SEC_PARAM_LEN (gd_block gd)"
    using iv by (auto simp: tok backward_block_def current_interval_def Let_def)
  moreover have "tok = ek_transport keys"
    if "\<not> fo" "seed_ok (ek_transport keys)" "om_epoch M g < DKR_SEGMENT_CAPACITY"
  proof -
    have "fst (dkr_init (gd_init gd) (with_seed (ek_transport keys))) = with_seed (ek_transport keys)"
      using that(2) by (simp add: dkr_init_def with_seed_def ensure_seeded_def seed_ok_def Let_def)
    with iv that advance_fresh [OF that(2,3), of "gd_advance gd" "gd_advance' gd"] show ?thesis by (auto simp: tok)
  qed
  ultimately show thesis using that g0 add keys start by blast
qed

lemma invite_success:
  assumes "invite_member_mls_with_graft P X M GJ C gd repo user fo graft d s = (d1, s2, Inr grant)"
  obtains g invitation keys start tok blob s1 payload n where
    "invite_commit M C gd repo user fo d s = Inr (g, invitation, keys, start, tok)"
    "d1 = persist_group M g (material_save (invited_material g M keys tok d) d)"
    "upload_graft P X C gd fo (invited_material g M keys tok d) start graft s = (s1, Inr blob)"
    "grant = make_grant fo start tok blob invitation d1 (invited_material g M keys tok d)"
    "gj_print GJ grant = Some payload" "mc_enqueue C payload (Some (''invite:'' @ user)) s1 = (s2, Inr n)"
  using assms
  by (auto simp: invite_member_mls_with_graft_def invited_material_def Let_def split: sum.splits prod.splits option.splits)

lemma last_grant_snoc: "gj_parse GJ (env_payload e) = Some g \<Longrightarrow> last_grant GJ (l @ [e]) = Some g"
  by (simp add: last_grant_def)

lemma accept_success:
  assumes "accept_welcome_mls P X M GJ C repo dev d s = (d1, Inr m)"
  obtains grant g keys where "accept_join M GJ C repo dev s = Inr (grant, g, keys)" "m = joined_material (om_epoch M g) keys grant"
    "rd_epoch d1 = Some m"
proof -
  have keep: "rd_epoch (fst (import_graft P X C mm b dd s)) = rd_epoch dd" for mm b dd
    by (simp add: import_graft_def split: option.splits sum.splits)
  from assms obtain grant g keys where j: "accept_join M GJ C repo dev s = Inr (grant, g, keys)"
    by (auto simp: accept_welcome_mls_def split: sum.splits)
  let ?m = "joined_material (om_epoch M g) keys grant"
  define d0 where "d0 = (persist_group M g (material_save ?m d))\<lparr>rd_leaf_vk := Some (om_leaf_vk M g)\<rparr>"
  define dd where "dd = (case wg_admin_vk grant of None \<Rightarrow> d0 | Some vk \<Rightarrow> d0\<lparr>rd_admin_vk := Some vk\<rparr>)"
  obtain d' r where imp: "import_graft P X C ?m (wg_graft_blob_id grant) dd s = (d', r)" by fastforce
  have "accept_welcome_mls P X M GJ C repo dev d s = (d', map_sum id (\<lambda>_. ?m) r)"
    using imp by (cases "wg_admin_vk grant") (simp_all add: accept_welcome_mls_def j Let_def dd_def d0_def)
  with assms have "d1 = d'" "m = ?m" by (cases r; simp)+
  moreover have "rd_epoch dd = Some ?m"
    by (simp add: dd_def d0_def persist_group_def material_save_def split: option.split)
  ultimately show thesis using that [OF j] keep [of ?m "wg_graft_blob_id grant" dd] by (simp add: imp)
qed

section \<open>The delivery queue of the host\<close>

definition queue_of :: "repo_id \<Rightarrow> server_state \<Rightarrow> mls_envelope list" where
  "queue_of repo sv = map snd (mls (sv_store sv) repo)"

definition http_queue :: "hex_codec \<Rightarrow> token_record \<Rightarrow> repo_id \<Rightarrow> server_state \<Rightarrow> bool" where
  "http_queue X au repo sv \<longleftrightarrow> gate X au (id_to_hex X repo) sv = Inr repo \<and> queue_inv (mls (sv_store sv) repo)"

lemma http_mls_fetch_queue:
  assumes "http_queue X au repo sv"
  shows "http_mls_fetch X au repo 0 sv = Inr (take 100 (queue_of repo sv))"
  using assms fetch_queue [of "sv_store sv" repo 0 100]
  by (simp add: http_mls_fetch_def mls_fetch_def gate_cases http_queue_def queue_of_def)

lemma http_mls_enqueue_queue:
  assumes "http_queue X au2 repo sv" and "length (queue_of repo sv) + 1 < 2 ^ 64"
    and "http_mls_enqueue X au repo payload hint sv = (sv', Inr n)"
  shows "http_queue X au2 repo sv' \<and> (\<exists>env. env_payload env = payload \<and> queue_of repo sv' = queue_of repo sv @ [env])"
proof -
  have p: "parse_repo_id X (id_to_hex X repo) = Inr repo" and inv: "queue_inv (mls (sv_store sv) repo)"
    using assms(1) by (auto simp: http_queue_def gate_def rbind_Inr_conv)
  let ?e = "\<lparr>env_repo_id = repo, env_seq = 0, env_payload = payload, env_sender_hint = hint\<rparr>"
  have g: "gate X au (id_to_hex X repo) sv = Inr repo"
    using assms(3) p by (cases "require_repo_id_member sv au repo")
      (auto simp: http_mls_enqueue_def mls_enqueue_def gate_def)
  have sv': "sv' = sv\<lparr>sv_store := fst (enqueue ?e (sv_store sv))\<rparr>"
    using assms(3) by (simp add: http_mls_enqueue_def mls_enqueue_def gate_cases g case_prod_beta)
  have "repos_by_id (fst (enqueue ?e (sv_store sv))) = repos_by_id (sv_store sv)"
    by (simp add: enqueue_def Let_def)
  then have "gate X au2 (id_to_hex X repo) sv' = gate X au2 (id_to_hex X repo) sv"
    unfolding sv' by (rule gate_store)
  then show ?thesis
    using enqueue_append(1) [of "sv_store sv" ?e] queue_inv_enqueue [of "sv_store sv" ?e] inv assms(1,2)
    by (simp add: http_queue_def queue_of_def sv')
qed

lemma put_sealed_queue:
  "mls (sv_store (fst (put_sealed_object P (client_host P J X B show_meta au repo) nonce m pt pid sv))) = mls (sv_store sv) \<and>
   gate X au2 rid (fst (put_sealed_object P (client_host P J X B show_meta au repo) nonce m pt pid sv)) = gate X au2 rid sv"
proof -
  have "mls (sv_store (fst (http_put_blob P X B show_meta au repo mm c sv))) = mls (sv_store sv)" for mm c
    by (auto simp: http_put_blob_def put_blob_def blob_put_def Let_def case_prod_beta split: sum.splits)
  then show ?thesis
    using http_put_blob_gate [of X au2 rid P B show_meta au repo _ _ sv]
    by (auto simp: put_sealed_object_def client_host_def Let_def split: sum.splits prod.splits) (metis fst_conv)+
qed

lemma upload_graft_queue:
  assumes "upload_graft P X (http_mls_client P J X B show_meta au repo) gd fo m start graft sv = (sv', r)"
  shows "mls (sv_store sv') = mls (sv_store sv) \<and> gate X au2 rid sv' = gate X au2 rid sv"
  using assms put_sealed_queue [of P J X B show_meta au repo]
  by (auto simp: upload_graft_def http_mls_client_def apsnd_def map_prod_def split: if_splits option.splits prod.splits)
    (metis fst_conv)+

section \<open>What a joiner receives\<close>

lemma joined_from_grant:
  assumes "welcome_agrees M" and "add_member M rng g0 wire = Inr (g, invitation)"
    and "export_epoch_keys M g repo = Inr keys" and "length tok = SEC_PARAM_LEN"
    and "join M i \<lparr>inv_welcome = inv_welcome invitation, inv_commit = inv_commit invitation\<rparr> = Inr gj"
    and "export_epoch_keys M gj repo = Inr keys'"
    and "ma = invited_material g M keys tok d"
  shows "joined_material (om_epoch M gj) keys' (make_grant fo (if fo then om_epoch M g else 0) tok blob invitation d1 ma) =
    (if fo then ma\<lparr>em_history_from := em_epoch ma, prior_transport := [], prior_refs_mac := []\<rparr> else ma)"
proof -
  have eta: "\<lparr>inv_welcome = inv_welcome invitation, inv_commit = inv_commit invitation\<rparr> = invitation" by simp
  have "om_epoch M gj = om_epoch M g" "keys' = keys"
    using join_agrees [OF assms(1,2) assms(5) [unfolded eta], of repo] assms(3,6) by simp_all
  moreover have "em_epoch ma = om_epoch M g" "em_transport ma = ek_transport keys" "em_refs_mac ma = ek_refs keys" "em_history_from ma = 0"
    by (simp_all add: assms(7) invited_material_def exported_def)
  moreover have "em_dkr_token ma = tok"
    by (simp add: assms(7) invited_material_def exported_def inherit_def Let_def split: option.split)
  ultimately show ?thesis
    using assms(4) by (simp add: joined_material_def make_grant_def)
qed

text \<open>
  C4.  What an invitation hands over: when an administrator's invitation goes through the host and the
  invited member accepts while its Welcome is the newest of at most 100 messages, a full-history
  joiner holds exactly the material the inviter holds, every retained epoch included, and a
  forward-only joiner holds that material without any retained epoch and with the window starting at
  the join epoch.
\<close>

theorem invitation_hands_over:
  assumes "welcome_agrees M"
    and "invite_member_mls_with_graft P X M GJ (http_mls_client P J X B show_meta au repo) gd repo user fo graft d sv = (d1, sv1, Inr grant)"
    and "\<forall>b. gj_print GJ grant = Some b \<longrightarrow> gj_parse GJ b = Some grant"
    and "http_queue X au2 repo sv" and "length (queue_of repo sv) < 100"
    and "accept_welcome_mls P X M GJ (http_mls_client P J X B show_meta au2 repo) repo dev d2 sv1 = (d3, Inr m)"
  shows "\<exists>ma. rd_epoch d1 = Some ma \<and> rd_epoch d3 = Some m \<and>
    m = (if fo then ma\<lparr>em_history_from := em_epoch ma, prior_transport := [], prior_refs_mac := []\<rparr> else ma)"
proof -
  let ?C = "http_mls_client P J X B show_meta au repo" and ?C2 = "http_mls_client P J X B show_meta au2 repo"
  from assms(2) obtain g invitation keys start tok blob s1 payload n where
    ic: "invite_commit M ?C gd repo user fo d sv = Inr (g, invitation, keys, start, tok)"
    and d1: "d1 = persist_group M g (material_save (invited_material g M keys tok d) d)"
    and up: "upload_graft P X ?C gd fo (invited_material g M keys tok d) start graft sv = (s1, Inr blob)"
    and grant: "grant = make_grant fo start tok blob invitation d1 (invited_material g M keys tok d)"
    and pay: "gj_print GJ grant = Some payload" and enq: "mc_enqueue ?C payload (Some (''invite:'' @ user)) s1 = (sv1, Inr n)"
    by (rule invite_success)
  from ic obtain g0 wire where add: "add_member M (gd_commit gd) g0 wire = Inr (g, invitation)"
    and keys: "export_epoch_keys M g repo = Inr keys" and start: "start = (if fo then om_epoch M g else 0)"
    and len: "length tok = SEC_PARAM_LEN"
    by (rule invite_commit_shape)
  note kept = upload_graft_queue [OF up]
  have q1: "http_queue X au2 repo s1" "queue_of repo s1 = queue_of repo sv"
    using assms(4) kept [of au2] by (simp_all add: http_queue_def queue_of_def)
  have "http_mls_enqueue X au repo payload (Some (''invite:'' @ user)) s1 = (sv1, Inr n)"
    using enq by (simp add: http_mls_client_def)
  from http_mls_enqueue_queue [OF q1(1) _ this] obtain env where
    q2: "http_queue X au2 repo sv1" "env_payload env = payload" "queue_of repo sv1 = queue_of repo sv @ [env]"
    using q1(2) assms(5) by auto
  have fetch: "mc_fetch ?C2 0 sv1 = Inr (queue_of repo sv @ [env])"
    using http_mls_fetch_queue [OF q2(1)] assms(5) by (simp add: http_mls_client_def q2(3))
  have parse: "gj_parse GJ (env_payload env) = Some grant" using assms(3) pay q2(2) by simp
  from assms(6) obtain grant' gj keys' where acc: "accept_join M GJ ?C2 repo dev sv1 = Inr (grant', gj, keys')"
    and m: "m = joined_material (om_epoch M gj) keys' grant'" and d3: "rd_epoch d3 = Some m"
    by (rule accept_success)
  from acc obtain i where g': "grant' = grant"
    and join: "join M i \<lparr>inv_welcome = wg_welcome grant, inv_commit = wg_commit grant\<rparr> = Inr gj"
    and keys': "export_epoch_keys M gj repo = Inr keys'"
    by (auto simp: accept_join_def fetch last_grant_snoc [OF parse] rbind_Inr_conv)
  have "m = (if fo then (invited_material g M keys tok d)\<lparr>em_history_from := em_epoch (invited_material g M keys tok d),
      prior_transport := [], prior_refs_mac := []\<rparr> else invited_material g M keys tok d)"
    unfolding m g' grant start
    by (rule joined_from_grant [OF assms(1) add keys len _ keys' refl, where i = i]) (use join in \<open>simp add: grant make_grant_def\<close>)
  moreover have "rd_epoch d1 = Some (invited_material g M keys tok d)"
    by (simp add: d1 persist_group_def material_save_def)
  ultimately show ?thesis using d3 by blast
qed

section \<open>Forward-only invitations\<close>

lemma invite_commit_epoch_free: "invite_commit M C gd repo user fo (d\<lparr>rd_epoch := x\<rparr>) s = invite_commit M C gd repo user fo d s"
  by (simp add: invite_commit_def load_admin_keypair_def load_persisted_group_def)

lemma invited_material_transport:
  "em_transport (invited_material g M keys tok d) = ek_transport keys"
  by (simp add: invited_material_def exported_def)

lemma put_sealed_transport:
  "em_transport m = em_transport m' \<Longrightarrow> put_sealed_object P H nonce m pt pid s = put_sealed_object P H nonce m' pt pid s"
  by (simp add: put_sealed_object_def)

lemma upload_graft_transport:
  "em_transport m = em_transport m' \<Longrightarrow> upload_graft P X C gd fo m start graft s = upload_graft P X C gd fo m' start graft s"
  by (simp add: upload_graft_def put_sealed_transport [of m m'] cong: option.case_cong)

text \<open>
  C16.  A forward-only invitation gives nothing of the past away: everything it sends, to the host and
  to the joiner, is independent of the seeds and MAC keys of earlier epochs that the inviter retains,
  and the token it sends is a fresh draw, independent even of the keys of the new epoch.
\<close>

theorem forward_grant_hides_history:
  "snd (invite_member_mls_with_graft P X M GJ C gd repo user True graft (d\<lparr>rd_epoch := old\<rparr>) s) =
     snd (invite_member_mls_with_graft P X M GJ C gd repo user True graft d s) \<and>
   (case snd (snd (invite_member_mls_with_graft P X M GJ C gd repo user True graft d s)) of
      Inl e \<Rightarrow> True
    | Inr grant \<Rightarrow> wg_dkr_token grant = fix_len SEC_PARAM_LEN (gd_block gd) \<and>
        wg_prior_transport grant = [] \<and> wg_prior_refs_mac grant = [])"
proof
  show "snd (invite_member_mls_with_graft P X M GJ C gd repo user True graft (d\<lparr>rd_epoch := old\<rparr>) s) =
     snd (invite_member_mls_with_graft P X M GJ C gd repo user True graft d s)"
  proof (cases "invite_commit M C gd repo user True d s")
    case (Inl e)
    then show ?thesis by (simp add: invite_member_mls_with_graft_def invite_commit_epoch_free)
  next
    case (Inr r)
    then obtain g invitation keys start tok where ic: "invite_commit M C gd repo user True d s = Inr (g, invitation, keys, start, tok)"
      by (cases r) auto
    let ?m = "\<lambda>x. inherit x (exported (om_epoch M g) (ek_transport keys) (ek_refs keys) 0 tok)"
    have up: "upload_graft P X C gd True (?m x) start graft s = upload_graft P X C gd True (?m y) start graft s" for x y
      by (rule upload_graft_transport) (simp add: exported_def)
    have grant: "make_grant True start tok b invitation (persist_group M g (material_save (?m old) (d\<lparr>rd_epoch := old\<rparr>))) (?m old) =
        make_grant True start tok b invitation (persist_group M g (material_save (?m (rd_epoch d)) d)) (?m (rd_epoch d))" for b
      by (simp add: make_grant_def load_admin_vk_def load_admin_keypair_def persist_group_def material_save_def split: option.split)
    show ?thesis
      unfolding invite_member_mls_with_graft_def invite_commit_epoch_free ic
      using up [of old "rd_epoch d"] grant
      by (simp add: Let_def split: prod.split sum.split option.split)
  qed
next
  show "case snd (snd (invite_member_mls_with_graft P X M GJ C gd repo user True graft d s)) of
      Inl e \<Rightarrow> True
    | Inr grant \<Rightarrow> wg_dkr_token grant = fix_len SEC_PARAM_LEN (gd_block gd) \<and>
        wg_prior_transport grant = [] \<and> wg_prior_refs_mac grant = []"
  proof (cases "snd (snd (invite_member_mls_with_graft P X M GJ C gd repo user True graft d s))")
    case (Inr grant)
    then obtain d1 s2 where "invite_member_mls_with_graft P X M GJ C gd repo user True graft d s = (d1, s2, Inr grant)"
      by (metis prod.collapse)
    then obtain g invitation keys start tok blob where
      "invite_commit M C gd repo user True d s = Inr (g, invitation, keys, start, tok)"
      "grant = make_grant True start tok blob invitation d1 (invited_material g M keys tok d)"
      by (rule invite_success)
    then show ?thesis using Inr by (auto simp: make_grant_def elim!: invite_commit_shape)
  qed simp
qed

text \<open>
  A Welcome behind a hundred messages is never seen: the client asks for messages from the start
  of the queue and the answer is cut at 100, so once a repository's queue holds 100 messages, whatever
  is enqueued afterwards changes nothing in what any device accepts.
\<close>

theorem late_welcome_unseen:
  assumes "http_queue X au2 repo sv" and "100 \<le> length (queue_of repo sv)" and "length (queue_of repo sv) + 1 < 2 ^ 64"
    and "http_mls_enqueue X au repo payload hint sv = (sv', Inr n)"
  shows "accept_welcome_mls P X M GJ (http_mls_client P J X B show_meta au2 repo) repo dev d sv' =
    accept_welcome_mls P X M GJ (http_mls_client P J X B show_meta au2 repo) repo dev d sv"
proof -
  let ?C = "http_mls_client P J X B show_meta au2 repo"
  from http_mls_enqueue_queue [OF assms(1,3,4)] obtain env where
    q: "http_queue X au2 repo sv'" "queue_of repo sv' = queue_of repo sv @ [env]" by blast
  have fetch: "mc_fetch ?C 0 sv' = mc_fetch ?C 0 sv"
    using assms(2) by (simp add: http_mls_client_def http_mls_fetch_queue [OF q(1)] http_mls_fetch_queue [OF assms(1)] q(2))
  have "blobs (sv_store sv') = blobs (sv_store sv)"
    using assms(4) by (auto simp: http_mls_enqueue_def mls_enqueue_def enqueue_def Let_def case_prod_beta split: sum.splits)
  then have "blob_get i (sv_store sv') = blob_get i (sv_store sv)" for i
    by (simp add: blob_get_def)
  then have "mc_get ?C sv' = mc_get ?C sv"
    using q(1) assms(1)
    by (simp add: http_mls_client_def http_get_blob_def get_blob_def gate_cases http_queue_def fun_eq_iff split: sum.split)
  moreover have "accept_join M GJ ?C repo dev sv' = accept_join M GJ ?C repo dev sv"
    by (simp add: accept_join_def fetch)
  moreover from calculation(1) have "import_graft P X ?C m b dd sv' = import_graft P X ?C m b dd sv" for m b dd
    by (simp add: import_graft_def split: option.split)
  ultimately show ?thesis by (simp add: accept_welcome_mls_def Let_def split: sum.split prod.split)
qed

section \<open>Closed examples\<close>

definition demo_dir :: repo_dir where
  "demo_dir = \<lparr>rd_epoch = Some demo_material, rd_keystore = Some (u64_le 1), rd_signer = Some [],
     rd_admin = Some \<lparr>kp_seed = [], kp_public = [9]\<rparr>, rd_admin_vk = None, rd_leaf_vk = None, rd_graft = None\<rparr>"

definition demo_group_draws :: group_draws where
  "demo_group_draws = \<lparr>gd_identity = [], gd_key_package = [], gd_group = [], gd_admin = [], gd_commit = [], gd_init = [],
     gd_block = [3], gd_advance = [], gd_advance' = [], gd_object = []\<rparr>"

text \<open>Bob is a collaborator and has published a key package.\<close>

definition demo_team :: server_state where
  "demo_team =
     fst (http_put_key_package (demo_auth ''bob'') ''bob'' ''default'' [1]
       (fst (invite_collab [] (demo_auth ''ann'') ''ann'' ''r'' ''bob'' ''full'' demo_server)))"

abbreviation demo_repo :: repo_id where "demo_repo \<equiv> replicate 32 1"

abbreviation demo_client :: "string \<Rightarrow> server_state mls_client" where
  "demo_client u \<equiv> http_mls_client demo_prims (\<lambda>_. None) demo_hex demo_parsers (\<lambda>_. []) (demo_auth u) demo_repo"

lemma demo_rid_hex: "id_to_hex demo_hex demo_repo = demo_rid"
proof -
  have "char_of (of_char (CHR 0x01) :: nat) = CHR 0x01" by (rule char_of_char)
  then show ?thesis by (simp add: id_to_hex_def demo_hex_def demo_rid_def)
qed

lemma invite_collab_store: "sv_store (fst (invite_collab now au own nm u h sv)) = sv_store sv"
  by (auto simp: invite_collab_def save_members_def Let_def split: sum.splits)

lemma demo_auth_user: "tr_user (demo_auth u) = u"
  by (simp add: demo_auth_def)

lemma demo_team_parts:
  "sv_members demo_team = sv_members (fst (invite_collab [] (demo_auth ''ann'') ''ann'' ''r'' ''bob'' ''full'' demo_server))"
  "sv_store demo_team = put_key_package \<lparr>kpr_user = ''bob'', kpr_device = ''default'', kpr_key_package = [1]\<rparr> (sv_store demo_server)"
  by (simp_all add: demo_team_def http_put_key_package_def put_key_package_route_def demo_auth_user invite_collab_store Let_def)

lemma demo_team_gate:
  assumes "u \<in> {''ann'', ''bob''}"
  shows "gate demo_hex (demo_auth u) demo_rid demo_team = Inr demo_repo"
proof -
  have "access ''ann'' ''r'' demo_team = access ''ann'' ''r'' (collab_step ''ann'' ''r'' (Invite (demo_auth ''ann'') ''bob'' ''full'') demo_server)"
    by (simp add: access_def demo_team_parts(1))
  also have "\<dots> = {''bob'', ''ann''}"
    unfolding collab_step_refines(2) [OF demo_server_inv] by (simp add: demo_server_access demo_auth_user)
  finally have acc: "access ''ann'' ''r'' demo_team = {''bob'', ''ann''}" .
  obtain r where r: "repos_by_id (sv_store demo_team) demo_repo = Some r" "rn_owner (rr_name r) = ''ann''" "rn_name (rr_name r) = ''r''"
    using demo_server_repo by (auto simp: demo_team_parts(2) put_key_package_def)
  have "u \<in> access ''ann'' ''r'' demo_team" unfolding acc using assms by blast
  then show ?thesis by (simp add: gate_exact demo_rid_parses r demo_auth_user)
qed

lemma demo_team_queue: "http_queue demo_hex (demo_auth ''bob'') demo_repo demo_team \<and> queue_of demo_repo demo_team = []"
proof -
  have "mls (sv_store demo_server) demo_repo = []"
    by (simp add: demo_server_def create_repo_def repo_create_def server_open_def store_open_def save_members_def Let_def)
  then have "mls (sv_store demo_team) demo_repo = []"
    by (simp add: demo_team_parts(2) put_key_package_def)
  then show ?thesis
    using demo_team_gate [of "''bob''"] by (simp add: http_queue_def queue_of_def queue_inv_def demo_rid_hex)
qed

lemma demo_invite_commit:
  "\<exists>g iv keys start tok. invite_commit demo_openmls (demo_client ''ann'') demo_group_draws demo_repo ''bob'' fo demo_dir demo_team
     = Inr (g, iv, keys, start, tok)"
proof -
  have kps: "http_list_key_packages (demo_auth ''ann'') ''bob'' demo_team =
      Inr [\<lparr>kpr_user = ''bob'', kpr_device = ''default'', kpr_key_package = [1]\<rparr>]"
    by (simp add: http_list_key_packages_def list_key_packages_route_def list_key_packages_def demo_team_parts(2) put_key_package_def)
      (simp add: demo_server_def create_repo_def repo_create_def server_open_def store_open_def save_members_def Let_def)
  have load: "load_persisted demo_openmls (u64_le 1) [] demo_repo = Inr 1"
    by (simp add: load_persisted_def demo_openmls_def)
  have add: "add_member demo_openmls (gd_commit demo_group_draws) 1 [1] = Inr (2, \<lparr>inv_welcome = u64_le 2, inv_commit = []\<rparr>)"
    by (simp add: add_member_def demo_openmls_def)
  obtain keys where keys: "export_epoch_keys demo_openmls 2 demo_repo = Inr keys"
    by (simp add: export_epoch_keys_def demo_openmls_def)
  have "\<exists>iv. snd (dkr_advance r r' e (fst (dkr_init q (with_seed t)))) = Inr iv" for r r' e q t
    by (simp add: dkr_op_defs Let_def)
  then obtain iv where adv: "snd (dkr_advance (gd_advance demo_group_draws) (gd_advance' demo_group_draws) (om_epoch demo_openmls 2)
      (fst (dkr_init (gd_init demo_group_draws) (with_seed (ek_transport keys))))) = Inr iv" by blast
  show ?thesis
    by (simp add: invite_commit_def load_admin_keypair_def demo_dir_def load_persisted_group_def http_mls_client_def kps
        load add keys adv Let_def)
qed

definition demo_bob :: device_dir where
  "demo_bob = \<lparr>dd_keystore = Some [], dd_signer = Some [], dd_name = Some ''bob-default''\<rparr>"

lemma demo_export: "\<exists>keys. export_epoch_keys demo_openmls g r = Inr keys"
  by (simp add: export_epoch_keys_def demo_openmls_def)

lemma invitation_hands_over_witness:
  "\<exists>GJ d1 sv1 grant d3 m ma.
     invite_member_mls_with_graft demo_prims demo_hex demo_openmls GJ (demo_client ''ann'') demo_group_draws demo_repo ''bob'' False None demo_dir demo_team
       = (d1, sv1, Inr grant) \<and>
     accept_welcome_mls demo_prims demo_hex demo_openmls GJ (demo_client ''bob'') demo_repo demo_bob empty_dir sv1 = (d3, Inr m) \<and>
     rd_epoch d1 = Some m"
proof -
  obtain g iv keys start tok where ic: "invite_commit demo_openmls (demo_client ''ann'') demo_group_draws demo_repo ''bob'' False demo_dir demo_team
      = Inr (g, iv, keys, start, tok)" using demo_invite_commit by blast
  define ma where "ma = inherit (rd_epoch demo_dir) (exported (om_epoch demo_openmls g) (ek_transport keys) (ek_refs keys) 0 tok)"
  define d1 where "d1 = persist_group demo_openmls g (material_save ma demo_dir)"
  define grant where "grant = make_grant False start tok None iv d1 ma"
  define GJ where "GJ = \<lparr>gj_print = (\<lambda>_. Some []), gj_parse = (\<lambda>_. Some grant)\<rparr>"
  obtain sv1 n where enq: "http_mls_enqueue demo_hex (demo_auth ''ann'') demo_repo [] (Some (''invite:'' @ ''bob'')) demo_team = (sv1, Inr n)"
    using demo_team_gate [of "''ann''"] by (simp add: http_mls_enqueue_def mls_enqueue_def gate_cases demo_rid_hex case_prod_beta)
  have invite: "invite_member_mls_with_graft demo_prims demo_hex demo_openmls GJ (demo_client ''ann'') demo_group_draws demo_repo ''bob'' False None demo_dir demo_team
       = (d1, sv1, Inr grant)"
    unfolding invite_member_mls_with_graft_def ic
    using enq by (simp add: Let_def upload_graft_def)
      (simp add: GJ_def http_mls_client_def grant_def d1_def ma_def)
  obtain env where q: "http_queue demo_hex (demo_auth ''bob'') demo_repo sv1" "queue_of demo_repo sv1 = [env]"
    using http_mls_enqueue_queue [OF _ _ enq, of "demo_auth ''bob''"] demo_team_queue by auto
  have fetch: "mc_fetch (demo_client ''bob'') 0 sv1 = Inr [env]"
    using http_mls_fetch_queue [OF q(1)] by (simp add: http_mls_client_def q(2))
  have last: "last_grant GJ [env] = Some grant" by (simp add: last_grant_def GJ_def)
  have load: "identity_load demo_openmls (Some []) (Some []) n = Inr ()" for n
    by (simp add: identity_load_def demo_openmls_def)
  have join: "join demo_openmls () i = Inr (of_le_bytes (inv_welcome i))" for i
    by (simp add: join_def demo_openmls_def)
  obtain keys' where keys': "export_epoch_keys demo_openmls (of_le_bytes (wg_welcome grant)) demo_repo = Inr keys'"
    using demo_export by blast
  have acc: "accept_join demo_openmls GJ (demo_client ''bob'') demo_repo demo_bob sv1 = Inr (grant, of_le_bytes (wg_welcome grant), keys')"
    by (simp add: accept_join_def fetch last demo_bob_def load join keys')
  have "wg_graft_blob_id grant = None" by (simp add: grant_def make_grant_def)
  then have "\<exists>d3 m. accept_welcome_mls demo_prims demo_hex demo_openmls GJ (demo_client ''bob'') demo_repo demo_bob empty_dir sv1 = (d3, Inr m)"
    by (simp add: accept_welcome_mls_def acc Let_def import_graft_def)
  then obtain d3 m where accept: "accept_welcome_mls demo_prims demo_hex demo_openmls GJ (demo_client ''bob'') demo_repo demo_bob empty_dir sv1 = (d3, Inr m)"
    by blast
  have "\<exists>ma. rd_epoch d1 = Some ma \<and> rd_epoch d3 = Some m \<and> m = ma"
    using invitation_hands_over [OF demo_openmls_laws(2) invite _ _ _ accept] demo_team_queue by (simp add: GJ_def)
  with invite accept show ?thesis by blast
qed

text \<open>A queue of a hundred messages.\<close>

definition demo_crowd :: server_state where
  "demo_crowd = demo_team\<lparr>sv_store := (sv_store demo_team)\<lparr>mls := (\<lambda>_. map (\<lambda>i.
     (of_nat i + 1, \<lparr>env_repo_id = demo_repo, env_seq = of_nat i + 1, env_payload = [], env_sender_hint = None\<rparr>)) [0..<100])\<rparr>\<rparr>"

lemma late_welcome_unseen_witness:
  "\<exists>sv' n. http_mls_enqueue demo_hex (demo_auth ''ann'') demo_repo [7] None demo_crowd = (sv', Inr n) \<and>
     (\<forall>GJ. accept_welcome_mls demo_prims demo_hex demo_openmls GJ (demo_client ''bob'') demo_repo demo_bob empty_dir sv' =
     accept_welcome_mls demo_prims demo_hex demo_openmls GJ (demo_client ''bob'') demo_repo demo_bob empty_dir demo_crowd)"
proof -
  have gate: "gate demo_hex (demo_auth u) demo_rid demo_crowd = Inr demo_repo" if "u \<in> {''ann'', ''bob''}" for u
    using demo_team_gate [OF that] unfolding demo_crowd_def by (subst gate_store) simp_all
  have q: "http_queue demo_hex (demo_auth ''bob'') demo_repo demo_crowd" "length (queue_of demo_repo demo_crowd) = 100"
    using gate [of "''bob''"] by (simp_all add: http_queue_def queue_of_def queue_inv_def demo_crowd_def demo_rid_hex)
  obtain sv' n where enq: "http_mls_enqueue demo_hex (demo_auth ''ann'') demo_repo [7] None demo_crowd = (sv', Inr n)"
    using gate [of "''ann''"] by (simp add: http_mls_enqueue_def mls_enqueue_def gate_cases demo_rid_hex case_prod_beta)
  show ?thesis using late_welcome_unseen [where M = demo_openmls, OF q(1) _ _ enq] q(2) enq by simp
qed

end
