(* ===== verification/Membership.thy ===== *)
theory Membership
  imports Group Consolidate
begin

text \<open>
  The repository commands of \<^verbatim>\<open>safehub-cli/src/cmds/repo.rs\<close> that change membership, keys or the log:
  create, invite, accept, remove, rotate, consolidate, verify.  Each is the sequence of client calls
  the command makes; printing is left out.  The host is the model of Server, the device holds one
  directory per repository and one per device label.
\<close>

section \<open>Commands\<close>

record device =
  dv_repos :: "repo_id \<Rightarrow> repo_dir"
  dv_labels :: "string \<Rightarrow> device_dir"

definition set_repo :: "repo_id \<Rightarrow> repo_dir \<Rightarrow> device \<Rightarrow> device" where
  "set_repo i d dv = dv\<lparr>dv_repos := (dv_repos dv)(i := d)\<rparr>"

definition bail :: "string \<Rightarrow> client_error" where
  "bail s = Other (OtherText s)"

definition http_create_repo ::
    "bytes \<Rightarrow> string \<Rightarrow> token_record \<Rightarrow> string \<Rightarrow> bool \<Rightarrow> string option \<Rightarrow> server_state \<Rightarrow> server_state \<times> (client_error + repo_record)" where
  "http_create_repo rng now au nm private descr sv =
     apsnd (map_err (\<lambda>st. Api st [])) (create_repo rng now au nm private descr sv)"

definition cmd_create ::
    "prims \<Rightarrow> ('i, 'g, 'k, 'w, 'm, 'c) openmls \<Rightarrow> group_draws \<Rightarrow> bytes \<Rightarrow> string \<Rightarrow> token_record \<Rightarrow> string \<Rightarrow> bool \<Rightarrow>
     string option \<Rightarrow> device \<Rightarrow> server_state \<Rightarrow> device \<times> server_state \<times> (client_error + repo_record)" where
  "cmd_create P M gd rng now au nm public descr dv sv =
     (case http_create_repo rng now au nm (\<not> public) descr sv of
        (sv1, Inl e) \<Rightarrow> (dv, sv1, Inl e)
      | (sv1, Inr r) \<Rightarrow>
          (case bootstrap_repo_group P M gd (rr_id r) (tr_user au @ ''-default'') (dv_repos dv (rr_id r)) of
             (d, Inl e) \<Rightarrow> (set_repo (rr_id r) d dv, sv1, Inl e)
           | (d, Inr (_, _, kp)) \<Rightarrow>
               (case http_put_key_package au (tr_user au) ''default'' kp sv1 of
                  (sv2, Inl e) \<Rightarrow> (set_repo (rr_id r) d dv, sv2, Inl e)
                | (sv2, Inr _) \<Rightarrow> (set_repo (rr_id r) d dv, sv2, Inr r))))"

text \<open>\<open>graft\<close> is the bundle \<^verbatim>\<open>build_graft_bundle_for_invite\<close> makes of a local checkout, if any.\<close>

definition cmd_invite ::
    "prims \<Rightarrow> head_json \<Rightarrow> hex_codec \<Rightarrow> blob_parsers \<Rightarrow> (blob_meta \<Rightarrow> string) \<Rightarrow> ('i, 'g, 'k, 'w, 'm, 'c) openmls \<Rightarrow> grant_json \<Rightarrow>
     group_draws \<Rightarrow> string \<Rightarrow> token_record \<Rightarrow> repo_name \<Rightarrow> string \<Rightarrow> bool \<Rightarrow> bytes option \<Rightarrow> device \<Rightarrow> server_state \<Rightarrow>
     device \<times> server_state \<times> (client_error + welcome_grant)" where
  "cmd_invite P J X B show_meta M GJ gd now au nm user forward_only graft dv sv =
     (if tr_user au \<noteq> rn_owner nm then (dv, sv, Inl (bail ''only the repository owner/admin can invite collaborators''))
      else case http_invite_collaborator now au nm user (if forward_only then ''forward_only'' else ''full'') sv of
        (sv1, Inl e) \<Rightarrow> (dv, sv1, Inl e)
      | (sv1, Inr _) \<Rightarrow>
          (case http_get_repo au nm sv1 of
             Inl e \<Rightarrow> (dv, sv1, Inl e)
           | Inr r \<Rightarrow>
               (case invite_member_mls_with_graft P X M GJ (http_mls_client P J X B show_meta au (rr_id r)) gd (rr_id r) user
                       forward_only (if forward_only then graft else None) (dv_repos dv (rr_id r)) sv1 of
                  (d, sv2, res) \<Rightarrow> (set_repo (rr_id r) d dv, sv2, res))))"

definition cmd_accept_welcome ::
    "prims \<Rightarrow> head_json \<Rightarrow> hex_codec \<Rightarrow> blob_parsers \<Rightarrow> (blob_meta \<Rightarrow> string) \<Rightarrow> ('i, 'g, 'k, 'w, 'm, 'c) openmls \<Rightarrow> grant_json \<Rightarrow>
     token_record \<Rightarrow> repo_name \<Rightarrow> device \<Rightarrow> server_state \<Rightarrow> device \<times> (client_error + epoch_material)" where
  "cmd_accept_welcome P J X B show_meta M GJ au nm dv sv =
     (case http_get_repo au nm sv of
        Inl e \<Rightarrow> (dv, Inl e)
      | Inr r \<Rightarrow>
          (case accept_welcome_mls P X M GJ (http_mls_client P J X B show_meta au (rr_id r)) (rr_id r)
                  (dv_labels dv ''default'') (dv_repos dv (rr_id r)) sv of
             (d, res) \<Rightarrow> (set_repo (rr_id r) d dv, res)))"

definition cmd_rotate ::
    "('i, 'g, 'k, 'w, 'm, 'c) openmls \<Rightarrow> group_draws \<Rightarrow> token_record \<Rightarrow> repo_name \<Rightarrow> device \<Rightarrow> server_state \<Rightarrow>
     device \<times> (client_error + epoch_material)" where
  "cmd_rotate M gd au nm dv sv =
     (if tr_user au \<noteq> rn_owner nm then (dv, Inl (bail ''only the repository owner/admin can rotate MLS epoch material''))
      else case http_get_repo au nm sv of
        Inl e \<Rightarrow> (dv, Inl e)
      | Inr r \<Rightarrow>
          (case rotate_repo_group M gd (rr_id r) (dv_repos dv (rr_id r)) of
             (d, res) \<Rightarrow> (set_repo (rr_id r) d dv, res)))"

definition cmd_remove_member ::
    "('i, 'g, 'k, 'w, 'm, 'c) openmls \<Rightarrow> group_draws \<Rightarrow> string \<Rightarrow> token_record \<Rightarrow> repo_name \<Rightarrow> string \<Rightarrow> device \<Rightarrow> server_state \<Rightarrow>
     device \<times> server_state \<times> (client_error + epoch_material)" where
  "cmd_remove_member M gd now au nm user dv sv =
     (if tr_user au \<noteq> rn_owner nm then (dv, sv, Inl (bail ''only the repository owner/admin can remove collaborators''))
      else case http_remove_collaborator now au nm user sv of
        (sv1, Inl e) \<Rightarrow> (dv, sv1, Inl e)
      | (sv1, Inr _) \<Rightarrow>
          (case http_get_repo au nm sv1 of
             Inl e \<Rightarrow> (dv, sv1, Inl e)
           | Inr r \<Rightarrow>
               (case rotate_repo_group M gd (rr_id r) (dv_repos dv (rr_id r)) of
                  (d, Inl e) \<Rightarrow> (set_repo (rr_id r) d dv, sv1, Inl (bail ''the epoch rotation FAILED''))
                | (d, Inr m) \<Rightarrow> (set_repo (rr_id r) d dv, sv1, Inr m))))"

text \<open>The checks of \<^verbatim>\<open>repo verify\<close>: the first loop stops at a broken link, the second looks for duplicates.\<close>

fun verify_loop :: "prims \<Rightarrow> head_hash \<Rightarrow> u64 option \<Rightarrow> bool \<Rightarrow> ref_head list \<Rightarrow> bool" where
  "verify_loop P prev sq ok [] = ok"
| "verify_loop P prev sq ok (h # hs) =
     (if prev_head_hash h \<noteq> prev \<and> sq \<noteq> None then False
      else verify_loop P (ref_head_hash P h) (Some (seq h))
             (ok \<and> (case sq of None \<Rightarrow> True | Some s \<Rightarrow> seq h = s + 1)) hs)"

fun duplicates :: "prims \<Rightarrow> ref_head list \<Rightarrow> bool" where
  "duplicates P [] = False"
| "duplicates P (h # hs) =
     (list_ex (\<lambda>k. seq h = seq k \<and> ref_head_hash P h \<noteq> ref_head_hash P k) hs \<or> duplicates P hs)"

definition verify_heads :: "prims \<Rightarrow> ref_head list \<Rightarrow> bool" where
  "verify_heads P hds \<longleftrightarrow> hds = [] \<or> (verify_loop P (replicate 64 0) None True hds \<and> \<not> duplicates P hds)"

definition cmd_verify ::
    "prims \<Rightarrow> head_json \<Rightarrow> hex_codec \<Rightarrow> token_record \<Rightarrow> repo_name \<Rightarrow> server_state \<Rightarrow> client_error + unit" where
  "cmd_verify P J X au nm sv =
     rbind (http_get_repo au nm sv) (\<lambda>r.
     rbind (http_heads_since J X au (rr_id r) 0 sv) (\<lambda>hds.
       if verify_heads P hds then Inr () else Inl (bail ''verification failed'')))"

definition cmd_consolidate ::
    "prims \<Rightarrow> head_json \<Rightarrow> hex_codec \<Rightarrow> token_record \<Rightarrow> repo_name \<Rightarrow> device \<Rightarrow> server_state \<Rightarrow>
     client_error + consolidation_plan option" where
  "cmd_consolidate P J X au nm dv sv =
     rbind (http_get_repo au nm sv) (\<lambda>r.
     rbind (load_epoch_material (dv_repos dv (rr_id r))) (\<lambda>m.
     rbind (http_heads_since J X au (rr_id r) 0 sv) (\<lambda>hds.
       if hds = [] then Inr None
       else let anchor = last hds
            in rbind (plan_compaction P (rr_id r) (em_epoch m) hds (enc_refs anchor) (bundle_root anchor)) (\<lambda>plan.
               rbind (load_admin_keypair (dv_repos dv (rr_id r))) (\<lambda>admin.
               rbind (sign_consolidation P admin (receipt plan)) (\<lambda>rcpt.
                 Inr (Some (plan\<lparr>receipt := rcpt\<rparr>))))))))"

section \<open>The administrator's device over a run\<close>

text \<open>
  Rotations and full-history invitations, failing ones included, within the epochs a segment covers.
\<close>

definition within_capacity :: "repo_dir \<Rightarrow> bool" where
  "within_capacity d \<longleftrightarrow> (case rd_epoch d of None \<Rightarrow> True | Some m \<Rightarrow> em_epoch m < DKR_SEGMENT_CAPACITY)"

inductive admin_step ::
    "prims \<Rightarrow> hex_codec \<Rightarrow> ('i, 'g, 'k, 'w, 'm, 'c) openmls \<Rightarrow> grant_json \<Rightarrow> 'h mls_client \<Rightarrow> repo_id \<Rightarrow> repo_dir \<Rightarrow> repo_dir \<Rightarrow> bool"
  for P X M GJ C repo where
  rotating: "rotate_repo_group M gd repo d = (d', r) \<Longrightarrow> within_capacity d' \<Longrightarrow> admin_step P X M GJ C repo d d'"
| inviting: "invite_member_mls_with_graft P X M GJ C gd repo user False graft d s = (d', s', r) \<Longrightarrow> within_capacity d' \<Longrightarrow>
    admin_step P X M GJ C repo d d'"

lemma next_epoch: "mat_ok m \<Longrightarrow> em_epoch m < em_epoch m + 1"
  by (simp add: mat_ok_def word_less_nat_alt unat_DKR_SEGMENT_CAPACITY unat_word_ariths)

text \<open>What is written to disk is read back, and no exported secret is zero.\<close>

definition store_law :: "('i, 'g, 'k, 'w, 'm, 'c) openmls \<Rightarrow> repo_id \<Rightarrow> bool" where
  "store_law M repo \<longleftrightarrow> (\<forall>g. om_load M (om_store M g) (om_signer M g) repo = Some g)"

definition exports_ok :: "('i, 'g, 'k, 'w, 'm, 'c) openmls \<Rightarrow> repo_id \<Rightarrow> bool" where
  "exports_ok M repo \<longleftrightarrow> (\<forall>g keys. export_epoch_keys M g repo = Inr keys \<longrightarrow> seed_ok (ek_transport keys))"

definition admin_inv :: "('i, 'g, 'k, 'w, 'm, 'c) openmls \<Rightarrow> repo_id \<Rightarrow> repo_dir \<Rightarrow> bool" where
  "admin_inv M repo d \<longleftrightarrow> (\<exists>g m. load_persisted_group M repo d = Inr g \<and> rd_epoch d = Some m \<and> em_epoch m = om_epoch M g \<and>
     mat_ok m \<and> interval_seed m = em_transport m \<and> em_history_from m = 0)"

text \<open>The effect both have when they get past the Commit.\<close>

definition committed ::
    "('i, 'g, 'k, 'w, 'm, 'c) openmls \<Rightarrow> repo_id \<Rightarrow> repo_dir \<Rightarrow> repo_dir \<Rightarrow> bool" where
  "committed M repo d d' \<longleftrightarrow> (\<exists>g0 g keys tok. load_persisted_group M repo d = Inr g0 \<and> om_epoch M g = om_epoch M g0 + 1 \<and>
     export_epoch_keys M g repo = Inr keys \<and> rd_epoch d' = Some (invited_material g M keys tok d) \<and>
     (seed_ok (ek_transport keys) \<longrightarrow> om_epoch M g < DKR_SEGMENT_CAPACITY \<longrightarrow> tok = ek_transport keys) \<and>
     rd_keystore d' = Some (om_store M g) \<and> rd_signer d' = Some (om_signer M g))"

lemma committedI:
  assumes "load_persisted_group M repo d = Inr g0" and "om_epoch M g = om_epoch M g0 + 1" and "export_epoch_keys M g repo = Inr keys"
    and "seed_ok (ek_transport keys) \<Longrightarrow> om_epoch M g < DKR_SEGMENT_CAPACITY \<Longrightarrow> tok = ek_transport keys"
    and "rd_epoch d' = Some (invited_material g M keys tok d)"
    and "rd_keystore d' = Some (om_store M g)" and "rd_signer d' = Some (om_signer M g)"
  shows "committed M repo d d'"
  unfolding committed_def using assms by (intro exI [of _ g0] exI [of _ g] exI [of _ keys] exI [of _ tok]) simp

lemma rotate_effect:
  assumes "commits_advance M" and "rotate_repo_group M gd repo d = (d', r)"
  shows "d' = d \<and> (\<exists>e. r = Inl e) \<or> committed M repo d d' \<and> (\<exists>m. r = Inr m \<and> rd_epoch d' = Some m)"
proof (cases r)
  case (Inl e)
  then show ?thesis using assms(2) by (auto simp: rotate_repo_group_def Let_def split: sum.splits)
next
  case (Inr m)
  with assms(2) obtain g0 g c keys where s: "load_persisted_group M repo d = Inr g0" "rotate_group M (gd_commit gd) g0 = Inr (g, c)"
    "export_epoch_keys M g repo = Inr keys"
    "d' = (persist_group M g (material_save (invited_material g M keys (ek_transport keys) d) d))\<lparr>rd_leaf_vk := Some (om_leaf_vk M g)\<rparr>"
    "m = invited_material g M keys (ek_transport keys) d"
    by (auto simp: rotate_repo_group_def invited_material_def Let_def rbind_Inr_conv split: sum.splits)
  have "om_epoch M g = om_epoch M g0 + 1" by (rule rotate_group_epoch [OF assms(1) s(2)])
  then have "committed M repo d d'"
    by (intro committedI [OF s(1) _ s(3), where tok = "ek_transport keys"]) (simp_all add: s(4) persist_group_def material_save_def)
  then show ?thesis using s(4,5) Inr by (simp add: persist_group_def material_save_def)
qed

lemma invite_effect:
  assumes "commits_advance M" and "invite_member_mls_with_graft P X M GJ C gd repo user False graft d s = (d', s', r)"
  shows "d' = d \<or> committed M repo d d'"
proof (cases "invite_commit M C gd repo user False d s")
  case (Inl e)
  then show ?thesis using assms(2) by (simp add: invite_member_mls_with_graft_def)
next
  case (Inr p)
  then obtain g iv keys start tok where ic: "invite_commit M C gd repo user False d s = Inr (g, iv, keys, start, tok)"
    by (cases p) auto
  from ic obtain g0 wire where f: "load_persisted_group M repo d = Inr g0" "add_member M (gd_commit gd) g0 wire = Inr (g, iv)"
    "export_epoch_keys M g repo = Inr keys"
    "seed_ok (ek_transport keys) \<Longrightarrow> om_epoch M g < DKR_SEGMENT_CAPACITY \<Longrightarrow> tok = ek_transport keys"
    by (rule invite_commit_shape) blast
  have "d' = persist_group M g (material_save (invited_material g M keys tok d) d)"
    using assms(2) by (simp add: invite_member_mls_with_graft_def ic Let_def invited_material_def
        split: prod.splits sum.splits option.splits)
  moreover have "om_epoch M g = om_epoch M g0 + 1" by (rule add_member_epoch [OF assms(1) f(2)])
  ultimately have "committed M repo d d'"
    using f by (intro committedI [where ?g0.0 = g0 and g = g and keys = keys and tok = tok])
      (simp_all add: persist_group_def material_save_def)
  then show ?thesis ..
qed

lemma invited_exported:
  "rd_epoch d = Some m \<Longrightarrow> invited_material g M keys tok d = inherit (Some m) (exported (om_epoch M g) (ek_transport keys) (ek_refs keys) 0 tok)"
  by (simp add: invited_material_def)

lemma admin_inv_step:
  assumes "commits_advance M" and "store_law M repo" and "exports_ok M repo"
    and "admin_inv M repo d" and "admin_step P X M GJ C repo d d'" and "rd_epoch d = Some m"
  obtains m' where "admin_inv M repo d'" "rd_epoch d' = Some m'"
    "\<And>e k. epoch_key_at P r r' m e = Inr k \<Longrightarrow> epoch_key_at P q q' m' e = Inr k"
    "\<And>e k. e \<le> em_epoch m \<Longrightarrow> refs_mac_at m e = Some k \<Longrightarrow> refs_mac_at m' e = Some k" "em_epoch m \<le> em_epoch m'"
proof -
  from assms(4,6) obtain g0 where inv: "load_persisted_group M repo d = Inr g0" "em_epoch m = om_epoch M g0" "mat_ok m"
    "interval_seed m = em_transport m" "em_history_from m = 0" by (auto simp: admin_inv_def)
  from assms(5) have both: "within_capacity d' \<and> (d' = d \<or> committed M repo d d')"
  proof cases
    case (rotating gd r)
    then show ?thesis using rotate_effect [OF assms(1) rotating(1)] by blast
  next
    case (inviting gd user graft s s' r)
    then show ?thesis using invite_effect [OF assms(1) inviting(1)] by blast
  qed
  then have cap: "within_capacity d'" and eff: "d' = d \<or> committed M repo d d'" by blast+
  show thesis
  proof (cases "d' = d")
    case True
    moreover have "epoch_key_at P r r' m e = epoch_key_at P q q' m e" for e by (simp add: epoch_key_at_eq [OF inv(3)])
    ultimately show thesis using that [of m] assms(4,6) by simp
  next
    case False
    with eff obtain g keys tok where c: "om_epoch M g = om_epoch M g0 + 1" "export_epoch_keys M g repo = Inr keys"
      "rd_epoch d' = Some (invited_material g M keys tok d)"
      "seed_ok (ek_transport keys) \<Longrightarrow> om_epoch M g < DKR_SEGMENT_CAPACITY \<Longrightarrow> tok = ek_transport keys"
      "rd_keystore d' = Some (om_store M g)" "rd_signer d' = Some (om_signer M g)"
      unfolding committed_def by (auto simp: inv(1))
    let ?new = "exported (om_epoch M g) (ek_transport keys) (ek_refs keys) 0 tok"
    have seed: "seed_ok (ek_transport keys)" using assms(3) c(2) by (simp add: exports_ok_def)
    have lim: "om_epoch M g < DKR_SEGMENT_CAPACITY"
      using cap by (simp add: within_capacity_def c(3) invited_exported [OF assms(6)] exported_def)
    have tok: "tok = ek_transport keys" by (rule c(4) [OF seed lim])
    have new: "mat_ok ?new" using seed lim by (auto intro: mat_ok_exported simp: tok)
    have lt: "em_epoch m < em_epoch ?new"
      using next_epoch [OF inv(3)] by (simp add: exported_def c(1) inv(2))
    let ?m' = "inherit (Some m) ?new"
    have m': "rd_epoch d' = Some ?m'" using c(3) by (simp add: invited_exported [OF assms(6)])
    have ok: "mat_ok ?m'" by (rule mat_ok_inherit [OF inv(3) new lt])
    have "interval_seed ?new = ek_transport keys" by (simp add: exported_def interval_seed_def tok)
    then have "admin_inv M repo d'"
      using m' ok c(5,6) assms(2) unfolding admin_inv_def
      by (simp add: load_persisted_group_def load_persisted_def store_law_def exported_def)
    moreover have "epoch_key_at P q q' ?m' e = Inr k" if k: "epoch_key_at P r r' m e = Inr k" for e k
    proof -
      have "e \<noteq> em_epoch ?new"
        using k lt seed_for_older [OF inv(3), of e] by (auto simp: epoch_key_at_eq [OF inv(3)] split: if_splits option.splits)
      from inherit_keeps_history [where P = P and r = q and r' = q' and q = r and q' = r', OF inv(3,4) new lt _ _ this] k show ?thesis by (simp add: inv(5) exported_def)
    qed
    moreover have "refs_mac_at ?m' e = Some k" if "e \<le> em_epoch m" "refs_mac_at m e = Some k" for e k
      using refs_mac_at_inherit [OF inv(3) lt, of e] that lt by auto
    ultimately show thesis using that m' lt by (simp add: less_imp_le)
  qed
qed

text \<open>
  C13.  The administrator can always read on: over any run of rotations and full-history invitations,
  failed ones included, within the 2^20 epochs of a segment, the device's material and its stored
  group stay at the same epoch, and every epoch key and epoch MAC key the device could derive stays
  derivable and the same.
\<close>

theorem admin_keeps_every_epoch:
  assumes "commits_advance M" and "store_law M repo" and "exports_ok M repo"
    and "(admin_step P X M GJ C repo)\<^sup>*\<^sup>* d d'" and "admin_inv M repo d" and "rd_epoch d = Some m"
  shows "\<exists>m'. rd_epoch d' = Some m' \<and> admin_inv M repo d' \<and>
    (\<forall>e k. epoch_key_at P r r' m e = Inr k \<longrightarrow> epoch_key_at P r r' m' e = Inr k) \<and>
    (\<forall>e k. e \<le> em_epoch m \<longrightarrow> refs_mac_at m e = Some k \<longrightarrow> refs_mac_at m' e = Some k)"
proof -
  have "\<exists>m'. rd_epoch d' = Some m' \<and> admin_inv M repo d' \<and> em_epoch m \<le> em_epoch m' \<and>
    (\<forall>e k. epoch_key_at P r r' m e = Inr k \<longrightarrow> epoch_key_at P r r' m' e = Inr k) \<and>
    (\<forall>e k. e \<le> em_epoch m \<longrightarrow> refs_mac_at m e = Some k \<longrightarrow> refs_mac_at m' e = Some k)"
    using assms(4)
  proof (induction rule: rtranclp_induct)
    case base
    then show ?case using assms(5,6) by auto
  next
    case (step d1 d2)
    then obtain m1 where m1: "rd_epoch d1 = Some m1" "admin_inv M repo d1" "em_epoch m \<le> em_epoch m1"
      "\<And>e k. epoch_key_at P r r' m e = Inr k \<Longrightarrow> epoch_key_at P r r' m1 e = Inr k"
      "\<And>e k. e \<le> em_epoch m \<Longrightarrow> refs_mac_at m e = Some k \<Longrightarrow> refs_mac_at m1 e = Some k" by blast
    obtain m2 where m2: "rd_epoch d2 = Some m2" "admin_inv M repo d2" "em_epoch m1 \<le> em_epoch m2"
      "\<And>e k. epoch_key_at P r r' m1 e = Inr k \<Longrightarrow> epoch_key_at P r r' m2 e = Inr k"
      "\<And>e k. e \<le> em_epoch m1 \<Longrightarrow> refs_mac_at m1 e = Some k \<Longrightarrow> refs_mac_at m2 e = Some k"
      by (rule admin_inv_step [OF assms(1-3) m1(2) step.hyps(2) m1(1), where r = r and r' = r' and q = r and q' = r']) blast
    have "epoch_key_at P r r' m2 e = Inr k" if "epoch_key_at P r r' m e = Inr k" for e k
      using that m1(4) m2(4) by blast
    moreover have "refs_mac_at m2 e = Some k" if "e \<le> em_epoch m" "refs_mac_at m e = Some k" for e k
      using that m1(3,5) m2(5) order_trans by blast
    ultimately show ?case using m1(3) m2(1-3) order_trans by blast
  qed
  then show ?thesis by blast
qed

lemma bootstrap_admin_inv:
  assumes "store_law M repo" and "exports_ok M repo"
    and "bootstrap_repo_group P M gd repo name empty_dir = (d, Inr (g, m, kp))" and "om_epoch M g < DKR_SEGMENT_CAPACITY"
  shows "admin_inv M repo d \<and> rd_epoch d = Some m"
proof -
  from assms(3) obtain keys where k: "export_epoch_keys M g repo = Inr keys"
    "m = exported (om_epoch M g) (ek_transport keys) (ek_refs keys) 0 (ek_transport keys)"
    "rd_epoch d = Some m" "rd_keystore d = Some (om_store M g)" "rd_signer d = Some (om_signer M g)"
    by (auto simp: bootstrap_repo_group_def Let_def rbind_Inr_conv empty_dir_def inherit_def persist_group_def material_save_def
        persist_admin_keypair_def load_epoch_material_def result_ok_def split: sum.splits prod.splits)
  have "seed_ok (ek_transport keys)" using assms(2) k(1) by (simp add: exports_ok_def)
  then have "mat_ok m" using assms(4) unfolding k(2) by (intro mat_ok_exported) simp_all
  moreover have "interval_seed m = em_transport m" by (simp add: k(2) exported_def interval_seed_def)
  ultimately show ?thesis
    using k assms(1) unfolding admin_inv_def
    by (simp add: load_persisted_group_def load_persisted_def store_law_def exported_def)
qed

section \<open>What removal and rotation do to the others\<close>

text \<open>RFC 9420: an update path changes the committer's own leaf only.\<close>

definition update_keeps_roster :: "('i, 'g, 'k, 'w, 'm, 'c) openmls \<Rightarrow> bool" where
  "update_keeps_roster M \<longleftrightarrow>
     (\<forall>rng g g1 c g2. om_self_update M rng g = Some (g1, c) \<longrightarrow> om_merge_pending M g1 = Some g2 \<longrightarrow> om_members M g2 = om_members M g)"

lemma remove_collab_access:
  assumes "members_inv sv" and "remove_collab now au own nm user sv = (sv', Inr u)" and "user \<noteq> own"
  shows "user \<notin> access own nm sv' \<and> sv_store sv' = sv_store sv"
proof -
  let ?m = "(load_members now own nm sv)\<lparr>rm_members := filter (\<lambda>e. me_user e \<noteq> user) (rm_members (load_members now own nm sv))\<rparr>"
  have "sv' = save_members own nm ?m sv"
    using assms(2) by (simp add: remove_collab_def require_member_access Let_def split: if_splits)
  moreover have "rm_owner (load_members now own nm sv) = own"
    using assms(1) by (simp add: load_members_def members_inv_def split: option.split)
  ultimately show ?thesis using assms(3) by (auto simp: access_def save_members_def)
qed

lemma cmd_remove_shape:
  assumes "cmd_remove_member M gd now au nm user dv sv = (dv', sv', Inr m)"
  obtains r d where "remove_collab now au (rn_owner nm) (rn_name nm) user sv = (sv', Inr ())" "http_get_repo au nm sv' = Inr r"
    "rotate_repo_group M gd (rr_id r) (dv_repos dv (rr_id r)) = (d, Inr m)" "dv' = set_repo (rr_id r) d dv"
  using assms
  by (auto simp: cmd_remove_member_def http_remove_collaborator_def apsnd_def map_prod_def split: if_splits sum.splits prod.splits)

text \<open>
  C32.  Removing a member closes the host to it and starts a new epoch: after the command the user is not
  on the access list, the gate of the repository's ciphertext routes answers it 403, and the
  administrator's device holds the material of the next epoch.
\<close>

theorem removal_closes_and_rekeys:
  assumes "commits_advance M" and "members_inv sv" and "user \<noteq> rn_owner nm"
    and "cmd_remove_member M gd now au nm user dv sv = (dv', sv', Inr m)"
  shows "user \<notin> access (rn_owner nm) (rn_name nm) sv' \<and>
    (\<forall>X rid repo r au2. repo_id_from_hex X rid = Inr repo \<longrightarrow> repos_by_id (sv_store sv') repo = Some r \<longrightarrow> rr_name r = nm \<longrightarrow>
       tr_user au2 = user \<longrightarrow> gate X au2 rid sv' = Inl 403) \<and>
    (\<exists>r. http_get_repo au nm sv' = Inr r \<and> rd_epoch (dv_repos dv' (rr_id r)) = Some m \<and>
       (\<exists>g. load_persisted_group M (rr_id r) (dv_repos dv (rr_id r)) = Inr g \<and> em_epoch m = om_epoch M g + 1))"
proof -
  from assms(4) obtain r d where c: "remove_collab now au (rn_owner nm) (rn_name nm) user sv = (sv', Inr ())"
    "http_get_repo au nm sv' = Inr r" "rotate_repo_group M gd (rr_id r) (dv_repos dv (rr_id r)) = (d, Inr m)"
    "dv' = set_repo (rr_id r) d dv" by (rule cmd_remove_shape)
  have out: "user \<notin> access (rn_owner nm) (rn_name nm) sv'"
    using remove_collab_access [OF assms(2) c(1) assms(3)] by blast
  from rotate_effect [OF assms(1) c(3)] have "committed M (rr_id r) (dv_repos dv (rr_id r)) d" "rd_epoch d = Some m" by auto
  then have "\<exists>g. load_persisted_group M (rr_id r) (dv_repos dv (rr_id r)) = Inr g \<and> em_epoch m = om_epoch M g + 1"
    by (auto simp: committed_def invited_material_def exported_def)
  then show ?thesis
    using out c(2,4) \<open>rd_epoch d = Some m\<close> by (auto simp: gate_exact set_repo_def)
qed

text \<open>
  Removal leaves the member's leaf in the group: the command commits an update, not a removal, so
  after it a head of the previous epoch that the removed member makes and signs now, with the epoch
  MAC key it still has, passes every check a reader with the new material and the new roster applies.
\<close>

theorem removed_member_still_authentic:
  assumes "commits_advance M" and "update_keeps_roster M" and "store_law M repo"
    and "rotate_repo_group M gd repo d = (d', Inr m')"
    and "admin_inv M repo d" and "rd_epoch d = Some m"
    and "load_persisted_group M repo d = Inr g0" and "vk \<in> set (om_members M g0)"
    and "mls_epoch h = em_epoch m" and "epoch_tag h = epoch_tag_bytes P (em_refs_mac m) (em_epoch m) (bundle_root h) (seq h)"
    and "valid_sig P vk (leaf_sign_message h) (pusher_sig h)"
  shows "\<exists>g. load_persisted_group M repo d' = Inr g \<and> om_epoch M g = om_epoch M g0 + 1 \<and> authentic P m' (om_members M g) h"
proof -
  from assms(4,7) obtain g c keys where s: "rotate_group M (gd_commit gd) g0 = Inr (g, c)" "export_epoch_keys M g repo = Inr keys"
    "d' = (persist_group M g (material_save (invited_material g M keys (ek_transport keys) d) d))\<lparr>rd_leaf_vk := Some (om_leaf_vk M g)\<rparr>"
    "m' = invited_material g M keys (ek_transport keys) d"
    by (auto simp: rotate_repo_group_def invited_material_def Let_def rbind_Inr_conv split: sum.splits)
  have epoch: "om_epoch M g = om_epoch M g0 + 1" by (rule rotate_group_epoch [OF assms(1) s(1)])
  have roster: "om_members M g = om_members M g0"
    using s(1) assms(2) unfolding update_keeps_roster_def by (metis rotate_group_steps)
  have load: "load_persisted_group M repo d' = Inr g"
    using assms(3) by (simp add: s(3) load_persisted_group_def load_persisted_def persist_group_def store_law_def)
  have inv: "mat_ok m" "em_epoch m = om_epoch M g0" using assms(5,6,7) by (auto simp: admin_inv_def)
  let ?new = "exported (om_epoch M g) (ek_transport keys) (ek_refs keys) 0 (ek_transport keys)"
  have m': "m' = inherit (Some m) ?new" by (simp add: s(4) invited_exported [OF assms(6)])
  have lt: "em_epoch m < em_epoch ?new"
    using next_epoch [OF inv(1)] by (simp add: exported_def epoch inv(2))
  have "refs_mac_at m' (mls_epoch h) = Some (em_refs_mac m)"
    using refs_mac_at_inherit [OF inv(1) lt, of "em_epoch m"] lt by (auto simp: m' assms(9) refs_mac_at_def)
  then have "authentic P m' (om_members M g) h"
    using assms(8-11) by (auto simp: authentic_def roster)
  with load epoch show ?thesis by blast
qed

text \<open>
  A rotation locks every other member out: the Commit is sent to nobody, so a member who was up to
  date keeps the previous epoch, and its fetch of the first head the administrator pushes afterwards
  fails, however correct the head is.
\<close>

theorem rotation_locks_members_out:
  assumes "commits_advance M" and "rotate_repo_group M gd repo d = (d', Inr m')" and "load_persisted_group M repo d = Inr g0"
    and "em_epoch mb = om_epoch M g0" and "mat_ok mb" and "map_of (prior_refs_mac mb) (om_epoch M g0 + 1) = None"
    and "em_history_from mb \<le> em_epoch mb"
    and "build_push_plan P X RJ K dr repo bundle refs hsym m' prev sq nonff sign = Inr (plan, h, rm)"
  shows "fetch_bundles_since P X RJ leaf_vks get rng rng' (\<lambda>_. Inr [h]) tp repo mb after (Some prev) =
    Inl (Other (EpochBeyond sq (em_epoch mb + 1) (em_epoch mb)))"
proof -
  from assms(2,3) obtain g c keys where s: "rotate_group M (gd_commit gd) g0 = Inr (g, c)"
    "m' = invited_material g M keys (ek_transport keys) d"
    by (auto simp: rotate_repo_group_def invited_material_def Let_def rbind_Inr_conv split: sum.splits)
  have "em_epoch m' = em_epoch mb + 1"
    using rotate_group_epoch [OF assms(1) s(1)] by (simp add: s(2) invited_material_def exported_def assms(4))
  moreover have f: "seq h = sq" "mls_epoch h = em_epoch m'" "prev_head_hash h = prev"
    using assms(8) by (auto elim: build_push_plan_shape)
  ultimately have ep: "mls_epoch h = em_epoch mb + 1" by simp
  have lt: "em_epoch mb < em_epoch mb + 1" by (rule next_epoch [OF assms(5)])
  then have "refs_mac_at mb (mls_epoch h) = None"
    using assms(4,6) by (auto simp: refs_mac_at_def ep)
  then have "head_check P mb leaf_vks h = Inl (Other (EpochBeyond sq (em_epoch mb + 1) (em_epoch mb)))"
    using lt by (simp add: head_check_def f(1) ep)
  moreover have "verify_head_chain P [h] prev = Inr ()" by (simp add: verify_head_chain_ok f(3))
  moreover have "em_history_from mb \<le> mls_epoch h" using assms(7) lt unfolding ep by (meson le_less_trans less_imp_le)
  ultimately show ?thesis by (simp add: fetch_bundles_since_def verify_fetched_heads_def Let_def)
qed

section \<open>What \<open>repo verify\<close> accepts\<close>

lemma verify_loop_ok:
  "verify_loop P prev (Some s) ok hs \<longleftrightarrow> ok \<and> linked P prev hs \<and> consecutive hs \<and> (hs \<noteq> [] \<longrightarrow> seq (hd hs) = s + 1)"
proof (induction hs arbitrary: prev s ok)
  case (Cons h hs)
  then show ?case by (auto simp: consecutive_Cons)
qed simp

lemma consecutive_nth: "consecutive hs \<Longrightarrow> i < length hs \<Longrightarrow> seq (hs ! i) = seq (hd hs) + of_nat i"
proof (induction hs arbitrary: i)
  case (Cons h hs)
  then show ?case by (cases i) (auto simp: consecutive_Cons add.commute add.left_commute)
qed simp

lemma consecutive_distinct:
  assumes "consecutive hs" and "length hs \<le> 2 ^ 64"
  shows "distinct (map seq hs)"
  unfolding distinct_conv_nth
proof (intro allI impI)
  fix i j assume ij: "i < length (map seq hs)" "j < length (map seq hs)" "i \<noteq> j"
  then have "unat (of_nat i :: u64) = i" "unat (of_nat j :: u64) = j"
    using assms(2) by (simp_all add: unat_of_nat take_bit_nat_eq_self)
  then have "(of_nat i :: u64) \<noteq> of_nat j" using ij(3) by metis
  then show "map seq hs ! i \<noteq> map seq hs ! j" using ij consecutive_nth [OF assms(1)] by simp
qed

lemma no_duplicates: "distinct (map seq hs) \<Longrightarrow> \<not> duplicates P hs"
  by (induction hs) (auto simp: list_ex_iff)

lemma verify_heads_run:
  assumes "length hs \<le> 2 ^ 64"
  shows "verify_heads P hs \<longleftrightarrow>
      (case hs of [] \<Rightarrow> True | h # t \<Rightarrow> linked P (ref_head_hash P h) t \<and> consecutive (h # t))"
    and "verify_heads P hs \<Longrightarrow> verify_heads P (drop n hs)"
proof -
  have exact: "verify_heads P l \<longleftrightarrow>
      (case l of [] \<Rightarrow> True | h # t \<Rightarrow> linked P (ref_head_hash P h) t \<and> consecutive (h # t))" if "length l \<le> 2 ^ 64" for l
  proof (cases l)
    case (Cons h t)
    have "verify_loop P (replicate 64 0) None True l \<longleftrightarrow> linked P (ref_head_hash P h) t \<and> consecutive (h # t)"
      by (auto simp: Cons verify_loop_ok consecutive_Cons)
    moreover have "consecutive (h # t) \<Longrightarrow> \<not> duplicates P l"
      using consecutive_distinct [of l] no_duplicates that Cons by blast
    ultimately show ?thesis by (auto simp: verify_heads_def Cons)
  qed (simp add: verify_heads_def)
  show "verify_heads P hs \<longleftrightarrow>
      (case hs of [] \<Rightarrow> True | h # t \<Rightarrow> linked P (ref_head_hash P h) t \<and> consecutive (h # t))"
    by (rule exact [OF assms])
  have tail: "verify_heads P t" if "verify_heads P (h # t)" "length (h # t) \<le> 2 ^ 64" for h t
    using that exact [of "h # t"] exact [of t] by (cases t) (auto simp: consecutive_Cons)
  show "verify_heads P (drop n hs)" if "verify_heads P hs"
    using that assms
  proof (induction n arbitrary: hs)
    case (Suc n)
    then show ?case by (cases hs) (auto dest: tail)
  qed simp
qed

text \<open>
  What \<^verbatim>\<open>repo verify\<close> accepts: exactly the runs whose heads after the first link to their
  predecessor and follow it by one; nothing ties the first head to the start of the log or to a trusted
  head, so a host that withholds any number of the oldest heads passes, and no signature is asked for.
\<close>

theorem verify_heads_exact:
  assumes "length hs \<le> 2 ^ 64"
  shows "verify_heads P hs =
      (case hs of [] \<Rightarrow> True | h # t \<Rightarrow> linked P (ref_head_hash P h) t \<and> consecutive (h # t)) \<and>
    (verify_heads P hs \<longrightarrow> verify_heads P (drop n hs))"
  using verify_heads_run [OF assms] by blast

section \<open>Closed examples\<close>

lemma demo_more_laws: "store_law demo_openmls demo_repo" "exports_ok demo_openmls demo_repo" "update_keeps_roster demo_openmls"
proof -
  have "fix_len 48 ([7] @ u64_le g) ! 0 = (7 :: u8)" for g by (simp add: fix_len_def)
  moreover have "replicate 48 0 ! 0 = (0 :: u8)" by simp
  ultimately have "fix_len 48 ([7] @ u64_le g) \<noteq> replicate 48 0" for g
    by (auto dest!: arg_cong [where f = "\<lambda>l. l ! 0"])
  then show "exports_ok demo_openmls demo_repo"
    by (auto simp: exports_ok_def export_epoch_keys_def demo_openmls_def rbind_Inr_conv seed_ok_def SEC_PARAM_LEN_def split: if_splits)
qed (simp_all add: store_law_def update_keeps_roster_def demo_openmls_def)

lemma demo_loaded: "load_persisted_group demo_openmls demo_repo demo_dir = Inr 1"
  by (simp add: load_persisted_group_def load_persisted_def demo_dir_def) (simp add: demo_openmls_def)

lemma demo_admin_inv: "admin_inv demo_openmls demo_repo demo_dir"
  unfolding admin_inv_def
  by (intro exI [of _ 1] exI [of _ demo_material])
    (simp add: demo_loaded mat_ok_demo, simp add: demo_dir_def demo_material_def exported_def demo_openmls_def interval_seed_def SEC_PARAM_LEN_def)

lemma demo_rotated:
  obtains d' m' where "rotate_repo_group demo_openmls demo_group_draws demo_repo demo_dir = (d', Inr m')"
    "rd_epoch d' = Some m'" "em_epoch m' = 2" "em_refs_mac m' = fix_len 32 ([7] @ u64_le 2)" "within_capacity d'"
proof -
  have rot: "rotate_group demo_openmls rng 1 = Inr (2, [])" for rng
    by (simp add: rotate_group_def demo_openmls_def)
  obtain keys where keys: "export_epoch_keys demo_openmls 2 demo_repo = Inr keys" "ek_refs keys = fix_len 32 ([7] @ u64_le 2)"
    by (simp add: export_epoch_keys_def demo_openmls_def AEAD_KEY_LEN_def)
  define m' where "m' = inherit (Some demo_material) (exported 2 (ek_transport keys) (ek_refs keys) 0 (ek_transport keys))"
  define d' where "d' = (persist_group demo_openmls 2 (material_save m' demo_dir))\<lparr>rd_leaf_vk := Some (om_leaf_vk demo_openmls 2)\<rparr>"
  have facts: "om_epoch demo_openmls 2 = 2" "rd_epoch demo_dir = Some demo_material" "load_admin_keypair demo_dir = Inr \<lparr>kp_seed = [], kp_public = [9]\<rparr>"
    by (simp add: demo_openmls_def, simp_all add: demo_dir_def load_admin_keypair_def)
  have "rotate_repo_group demo_openmls demo_group_draws demo_repo demo_dir = (d', Inr m')"
    by (simp add: rotate_repo_group_def demo_loaded rot keys(1) facts Let_def m'_def d'_def)
  moreover have "rd_epoch d' = Some m'" by (simp add: d'_def persist_group_def material_save_def)
  moreover have "em_epoch m' = 2" "em_refs_mac m' = fix_len 32 ([7] @ u64_le 2)"
    by (simp_all add: m'_def exported_def keys(2))
  ultimately show thesis
    using that by (simp add: within_capacity_def word_less_nat_alt unat_DKR_SEGMENT_CAPACITY)
qed

definition demo_device :: device where
  "demo_device = \<lparr>dv_repos = (\<lambda>_. demo_dir), dv_labels = (\<lambda>_. demo_bob)\<rparr>"

lemma demo_dir_epoch: "rd_epoch demo_dir = Some demo_material"
  by (simp add: demo_dir_def)

lemma demo_material_fields:
  "em_epoch demo_material = 1" "em_refs_mac demo_material = replicate 32 11" "em_history_from demo_material = 0"
  "prior_refs_mac demo_material = []"
  by (simp_all add: demo_material_def exported_def)

lemma admin_keeps_every_epoch_witness:
  "\<exists>GJ d' m'. (admin_step demo_prims demo_hex demo_openmls GJ (demo_client ''ann'') demo_repo)\<^sup>*\<^sup>* demo_dir d' \<and>
     rd_epoch d' = Some m' \<and> em_epoch m' = 2 \<and>
     epoch_key_at demo_prims [] [] m' 1 = Inr (key_of_seed demo_prims (replicate 48 7) 1)"
proof -
  obtain d' m' where rot: "rotate_repo_group demo_openmls demo_group_draws demo_repo demo_dir = (d', Inr m')"
    "rd_epoch d' = Some m'" "em_epoch m' = 2" "within_capacity d'" by (rule demo_rotated) blast
  define GJ where "GJ = \<lparr>gj_print = (\<lambda>_. None), gj_parse = (\<lambda>_. None)\<rparr>"
  have run: "(admin_step demo_prims demo_hex demo_openmls GJ (demo_client ''ann'') demo_repo)\<^sup>*\<^sup>* demo_dir d'"
    by (rule r_into_rtranclp, rule admin_step.rotating [OF rot(1,4)])
  have "epoch_key_at demo_prims [] [] demo_material 1 = Inr (key_of_seed demo_prims (replicate 48 7) 1)"
    using demo_epoch_key [of "[]" "[]"] by (simp add: epoch_key_def demo_material_fields)
  then have "epoch_key_at demo_prims [] [] m' 1 = Inr (key_of_seed demo_prims (replicate 48 7) 1)"
    using admin_keeps_every_epoch [OF demo_openmls_laws(1) demo_more_laws(1,2) run demo_admin_inv demo_dir_epoch, of "[]" "[]"] rot(2)
    by simp
  with run rot(2,3) show ?thesis by blast
qed

lemma demo_team_inv: "members_inv demo_team"
  using collab_step_refines(1) [OF demo_server_inv, of "''ann''" "''r''" "Invite (demo_auth ''ann'') ''bob'' ''full''"]
  by (simp add: members_inv_def demo_team_parts(1))

lemma demo_get_repo:
  assumes "sv_store sv = sv_store demo_team" and "''ann'' \<in> access ''ann'' ''r'' sv"
  obtains r where "http_get_repo (demo_auth ''ann'') \<lparr>rn_owner = ''ann'', rn_name = ''r''\<rparr> sv = Inr r" "rr_id r = demo_repo"
proof -
  have "repos (sv_store demo_team) = repos (sv_store demo_server)"
    by (simp add: demo_team_parts(2) put_key_package_def)
  moreover obtain r where "map_of (repos (sv_store demo_server)) \<lparr>rn_owner = ''ann'', rn_name = ''r''\<rparr> = Some r" "\<not> rr_deleted r" "rr_id r = demo_repo"
    by (simp add: demo_server_def create_repo_def repo_create_def server_open_def store_open_def save_members_def demo_auth_def
        fix_len_def Let_def)
  ultimately show thesis
    using that assms by (simp add: http_get_repo_def get_repo_def get_by_name_def require_member_access demo_auth_user)
qed

lemma removal_closes_and_rekeys_witness:
  "\<exists>dv' sv' m. cmd_remove_member demo_openmls demo_group_draws [] (demo_auth ''ann'') \<lparr>rn_owner = ''ann'', rn_name = ''r''\<rparr> ''bob''
      demo_device demo_team = (dv', sv', Inr m) \<and> ''bob'' \<notin> access ''ann'' ''r'' sv'"
proof -
  let ?nm = "\<lparr>rn_owner = ''ann'', rn_name = ''r''\<rparr>"
  have "''ann'' \<in> access ''ann'' ''r'' demo_team" by (rule owner_access [OF demo_team_inv])
  then obtain sv' where rm: "remove_collab [] (demo_auth ''ann'') ''ann'' ''r'' ''bob'' demo_team = (sv', Inr ())"
    by (simp add: remove_collab_def require_member_access demo_auth_user Let_def)
  have "members_inv (collab_step ''ann'' ''r'' (Remove (demo_auth ''ann'') ''bob'') demo_team)"
    by (rule collab_step_refines(1) [OF demo_team_inv])
  then have "''ann'' \<in> access ''ann'' ''r'' sv'" "sv_store sv' = sv_store demo_team"
    using remove_collab_access [OF demo_team_inv rm] by (simp_all add: rm owner_access)
  then obtain r where r: "http_get_repo (demo_auth ''ann'') ?nm sv' = Inr r" "rr_id r = demo_repo"
    using demo_get_repo by blast
  obtain d' m' where rot: "rotate_repo_group demo_openmls demo_group_draws demo_repo demo_dir = (d', Inr m')"
    by (rule demo_rotated) blast
  have "dv_repos demo_device (rr_id r) = demo_dir" by (simp add: demo_device_def)
  then have run: "cmd_remove_member demo_openmls demo_group_draws [] (demo_auth ''ann'') ?nm ''bob'' demo_device demo_team
      = (set_repo demo_repo d' demo_device, sv', Inr m')"
    by (simp add: cmd_remove_member_def http_remove_collaborator_def rm r rot demo_auth_user)
  from removal_closes_and_rekeys [OF demo_openmls_laws(1) demo_team_inv _ this] run show ?thesis by auto
qed

definition demo_late_head :: ref_head where
  "demo_late_head = demo_head\<lparr>mls_epoch := 1, epoch_tag := epoch_tag_bytes demo_prims (replicate 32 11) 1 (bundle_root demo_head) (seq demo_head),
     pusher_sig := replicate MLDSA87_SIG_LEN 0\<rparr>"

lemma removed_member_still_authentic_witness:
  "\<exists>d' m' g. rotate_repo_group demo_openmls demo_group_draws demo_repo demo_dir = (d', Inr m') \<and> em_epoch m' = 2 \<and>
     load_persisted_group demo_openmls demo_repo d' = Inr g \<and> authentic demo_prims m' (om_members demo_openmls g) demo_late_head"
proof -
  obtain d' m' where rot: "rotate_repo_group demo_openmls demo_group_draws demo_repo demo_dir = (d', Inr m')" "em_epoch m' = 2"
    by (rule demo_rotated) blast
  have sig: "valid_sig demo_prims (replicate 2592 2) (leaf_sign_message demo_late_head) (pusher_sig demo_late_head)"
    by (simp add: valid_sig_iff demo_prims_def demo_late_head_def MLDSA87_SIG_LEN_def)
  have member: "replicate 2592 2 \<in> set (om_members demo_openmls 1)" by (simp add: demo_openmls_def)
  have h: "mls_epoch demo_late_head = em_epoch demo_material"
    "epoch_tag demo_late_head = epoch_tag_bytes demo_prims (em_refs_mac demo_material) (em_epoch demo_material) (bundle_root demo_late_head) (seq demo_late_head)"
    by (simp_all add: demo_late_head_def demo_material_fields)
  from removed_member_still_authentic [OF demo_openmls_laws(1) demo_more_laws(3,1) rot(1) demo_admin_inv demo_dir_epoch demo_loaded member h sig]
  show ?thesis using rot by blast
qed

lemma rotation_locks_members_out_witness:
  "\<exists>RJ d' m' plan h rm. rotate_repo_group demo_openmls demo_group_draws demo_repo demo_dir = (d', Inr m') \<and>
     build_push_plan demo_prims demo_hex RJ demo_keys demo_draw demo_repo [1] [] None m' [] 5 False False = Inr (plan, h, rm) \<and>
     fetch_bundles_since demo_prims demo_hex RJ [] (\<lambda>_. Inr []) [] [] (\<lambda>_. Inr [h]) (Inr None) demo_repo demo_material 4 (Some [])
       = Inl (Other (EpochBeyond 5 2 1))"
proof -
  obtain d' m' where rot: "rotate_repo_group demo_openmls demo_group_draws demo_repo demo_dir = (d', Inr m')"
    "rd_epoch d' = Some m'" "em_epoch m' = 2" "within_capacity d'" by (rule demo_rotated) blast
  define RJ :: refs_json where "RJ = \<lparr>to_json = (\<lambda>r. Some []), from_json = (\<lambda>_. None)\<rparr>"
  have step: "admin_step demo_prims demo_hex demo_openmls \<lparr>gj_print = (\<lambda>_. None), gj_parse = (\<lambda>_. None)\<rparr> (demo_client ''ann'') demo_repo demo_dir d'"
    by (rule admin_step.rotating [OF rot(1,4)])
  obtain m2 where "admin_inv demo_openmls demo_repo d'"
    by (rule admin_inv_step [OF demo_openmls_laws(1) demo_more_laws(1,2) demo_admin_inv step demo_dir_epoch]) blast
  then have "mat_ok m'" "em_history_from m' = 0" using rot(2) by (auto simp: admin_inv_def)
  then obtain ke where "epoch_key demo_prims (pd_dkr demo_draw) (pd_dkr' demo_draw) m' = Inr ke"
    by (simp add: epoch_key_def epoch_key_at_eq seed_for_def)
  from build_push_plan_unsigned_ok [OF this, where J = RJ] obtain plan h rm where
    plan: "build_push_plan demo_prims demo_hex RJ demo_keys demo_draw demo_repo [1] [] None m' [] 5 False False = Inr (plan, h, rm)"
    by (metis RJ_def refs_json.select_convs(1))
  have "om_epoch demo_openmls 1 = 1" by (simp add: demo_openmls_def)
  from rotation_locks_members_out [OF demo_openmls_laws(1) rot(1) demo_loaded, of demo_material, OF _ mat_ok_demo _ _ plan, of "[]" "\<lambda>_. Inr []" "[]" "[]" "Inr None" 4] this
  have "fetch_bundles_since demo_prims demo_hex RJ [] (\<lambda>_. Inr []) [] [] (\<lambda>_. Inr [h]) (Inr None) demo_repo demo_material 4 (Some [])
       = Inl (Other (EpochBeyond 5 2 1))"
    by (simp add: demo_material_fields)
  with rot(1) plan show ?thesis by blast
qed

lemma verify_heads_exact_witness:
  "verify_heads demo_prims [demo_head] \<and> verify_heads demo_prims (drop 1 [demo_head])"
  using verify_heads_exact [of "[demo_head]" demo_prims 1] by simp

end
