(* ===== verification/Checkout.thy ===== *)
theory Checkout
  imports Membership Texts
begin

text \<open>
  A checkout and the commands that move it: push, pull, fetch and clone of
  \<^verbatim>\<open>safehub-cli/src/cmds\<close> (push.rs, pull.rs, clone.rs and the bundle import of common.rs) over the client
  library and the host.  Git is a parameter, \<open>git_ops\<close>, one field per command that is run; a checkout
  is its \<^verbatim>\<open>.git/safehub\<close> files and the git repository.  Printing and the file \<^verbatim>\<open>push-N.json\<close> are left out.
\<close>

section \<open>Git\<close>

text \<open>
  A field that runs a command returns the repository after it and whether it succeeded; a command
  that cannot be started has failed.
\<close>

record 'g git_ops =
  g_rev_parse :: "'g \<Rightarrow> string \<Rightarrow> oid option"
  g_has_commit :: "'g \<Rightarrow> oid \<Rightarrow> bool"
  g_dag :: "'g \<Rightarrow> git_dag"
  g_bundle_create :: "'g \<Rightarrow> oid list \<Rightarrow> string \<Rightarrow> bytes option"
  g_index_pack :: "bytes \<Rightarrow> 'g \<Rightarrow> 'g \<times> bool"
  g_list_heads :: "bytes \<Rightarrow> 'g \<Rightarrow> string option"
  g_fetch :: "bytes \<Rightarrow> string list \<Rightarrow> 'g \<Rightarrow> 'g \<times> bool"
  g_update_ref :: "string \<Rightarrow> oid \<Rightarrow> 'g \<Rightarrow> 'g"
  g_is_ancestor :: "'g \<Rightarrow> string \<Rightarrow> string \<Rightarrow> bool"
  g_merge_ff_only :: "oid \<Rightarrow> 'g \<Rightarrow> 'g \<times> bool"
  g_merge :: "oid \<Rightarrow> 'g \<Rightarrow> 'g \<times> bool"
  g_rebase :: "oid \<Rightarrow> 'g \<Rightarrow> 'g \<times> bool"
  g_init :: "string option \<Rightarrow> 'g option"
  g_remote_add :: "string \<Rightarrow> 'g \<Rightarrow> 'g \<times> bool"
  g_object_format :: "'g \<Rightarrow> string"
  g_checkout_main :: "oid \<Rightarrow> 'g \<Rightarrow> 'g \<times> bool"
  g_multi_pack_index :: "'g \<Rightarrow> 'g"

section \<open>Reading a bundle\<close>

text \<open>The pack starts after the first empty line; \<open>i\<close> is the offset of the line at hand.\<close>

function pack_offset :: "nat \<Rightarrow> bytes \<Rightarrow> nat option" where
  "pack_offset i b =
     (if b = [] then None
      else case cut 0x0A b of
        (_, None) \<Rightarrow> None
      | (line, Some r) \<Rightarrow> if line = [] then Some (i + 1) else pack_offset (i + length line + 1) r)"
  by pat_completeness auto
termination by (relation "measure (\<lambda>(i, b). length b)") (auto simp: cut_Some dest: sym)

declare pack_offset.simps [simp del]

definition bundle_pack_offset :: "bytes \<Rightarrow> nat option" where
  "bundle_pack_offset b = pack_offset 0 b"

fun format_line :: "bytes list \<Rightarrow> string option" where
  "format_line [] = None"
| "format_line (line # rest) =
     (if line = [] then None
      else case strip_prefix (str_bytes ''@object-format='') line of
        Some r \<Rightarrow> from_utf8 r
      | None \<Rightarrow> format_line rest)"

definition bundle_object_format :: "bytes \<Rightarrow> string option" where
  "bundle_object_format b = format_line (split_on 0x0A (take 8192 b))"

text \<open>The refs a bundle lists, as refspecs.\<close>

fun import_refspecs :: "string list \<Rightarrow> string list" where
  "import_refspecs [] = []"
| "import_refspecs (line # rest) =
     (case split_ws line of
        None \<Rightarrow> import_refspecs rest
      | Some (_, n) \<Rightarrow>
          let name = trim n
          in if name = [] then import_refspecs rest
             else let dest = (case strip_prefix ''refs/'' name of Some d \<Rightarrow> d | None \<Rightarrow> name)
                  in (''+'' @ name @ '':refs/safehub/import/'' @ dest) # import_refspecs rest)"

definition import_bundle_via_fetch :: "'g git_ops \<Rightarrow> bytes \<Rightarrow> 'g \<Rightarrow> 'g \<times> bool" where
  "import_bundle_via_fetch G b g =
     (case g_list_heads G b g of
        None \<Rightarrow> (g, False)
      | Some out \<Rightarrow>
          let refspecs = import_refspecs (lines_of out)
          in if refspecs = [] then (g, True) else g_fetch G b refspecs g)"

definition import_bundle_objects :: "'g git_ops \<Rightarrow> bytes \<Rightarrow> 'g \<Rightarrow> 'g \<times> bool" where
  "import_bundle_objects G b g =
     (case bundle_pack_offset b of
        Some off \<Rightarrow>
          if take 4 (drop off b) = str_bytes ''PACK''
          then (case g_index_pack G (drop off b) g of
                  (g1, True) \<Rightarrow> (g1, True)
                | (g1, False) \<Rightarrow> import_bundle_via_fetch G b g1)
          else import_bundle_via_fetch G b g
      | None \<Rightarrow> import_bundle_via_fetch G b g)"

section \<open>The checkout\<close>

record 'g checkout =
  co_repo :: "repo_record option"
  co_seq_file :: "string option"
  co_head_file :: "string option"
  co_git :: 'g

definition load_local_repo :: "'g checkout \<Rightarrow> client_error + repo_record" where
  "load_local_repo co = ok_or (bail ''not a SafeHub checkout'') (co_repo co)"

definition local_applied_seq :: "'g checkout \<Rightarrow> u64" where
  "local_applied_seq co =
     (case co_seq_file co of None \<Rightarrow> 0 | Some s \<Rightarrow> (case parse_u64 (trim s) of None \<Rightarrow> 0 | Some n \<Rightarrow> n))"

definition local_applied_head :: "hex_codec \<Rightarrow> 'g checkout \<Rightarrow> head_hash option" where
  "local_applied_head X co =
     (case co_head_file co of
        None \<Rightarrow> None
      | Some s \<Rightarrow> (case head_hash_from_hex X (trim s) of Inl _ \<Rightarrow> None | Inr h \<Rightarrow> Some h))"

definition record_applied_seq :: "hex_codec \<Rightarrow> u64 \<Rightarrow> head_hash \<Rightarrow> 'g checkout \<Rightarrow> 'g checkout" where
  "record_applied_seq X sq h co = co\<lparr>co_seq_file := Some (word_string sq), co_head_file := Some (id_to_hex X h)\<rparr>"

definition record_applied_through :: "hex_codec \<Rightarrow> u64 \<Rightarrow> head_hash \<Rightarrow> 'g checkout \<Rightarrow> 'g checkout" where
  "record_applied_through X sq h co = co\<lparr>co_seq_file := Some (word_string sq), co_head_file := Some (id_to_hex X h)\<rparr>"

text \<open>What a command calls of the host, beside the uploads and appends of a push.\<close>

record 'h repo_client =
  rc_host :: "'h host"
  rc_get :: "'h \<Rightarrow> blob_id \<Rightarrow> client_error + bytes"
  rc_heads :: "'h \<Rightarrow> u64 \<Rightarrow> client_error + ref_head list"

definition http_repo_client ::
    "prims \<Rightarrow> head_json \<Rightarrow> hex_codec \<Rightarrow> blob_parsers \<Rightarrow> (blob_meta \<Rightarrow> string) \<Rightarrow> token_record \<Rightarrow> repo_id \<Rightarrow>
     server_state repo_client" where
  "http_repo_client P J X B show_meta au repo =
     \<lparr>rc_host = client_host P J X B show_meta au repo, rc_get = http_get_blob X au repo,
      rc_heads = (\<lambda>s c. http_heads_since J X au repo c s)\<rparr>"

definition tip_of :: "prims \<Rightarrow> hex_codec \<Rightarrow> refs_json \<Rightarrow> 'h repo_client \<Rightarrow> push_draw \<Rightarrow> repo_id \<Rightarrow> epoch_material \<Rightarrow> 'h \<Rightarrow>
     client_error + fetch_result option" where
  "tip_of P X RJ C dr repo m s = fetch_tip P X RJ (rc_get C s) (pd_dkr dr) (pd_dkr' dr) (hc_tip (rc_host C) s) repo m"

section \<open>Pushing\<close>

definition full_ref :: "string \<Rightarrow> string" where
  "full_ref dst = (if starts_with ''refs/'' dst then dst else ''refs/heads/'' @ dst)"

definition split_refspec :: "string \<Rightarrow> string \<times> string" where
  "split_refspec refspec =
     (case split_once (CHR '':'') refspec of
        Some (src, dst) \<Rightarrow> (src, dst)
      | None \<Rightarrow>
          if refspec = ''HEAD'' then (''HEAD'', ''refs/heads/main'')
          else if starts_with ''refs/'' refspec then (refspec, refspec)
          else (refspec, ''refs/heads/'' @ refspec))"

definition build_bundle_and_refs ::
    "'g git_ops \<Rightarrow> 'g \<Rightarrow> string \<Rightarrow> string \<Rightarrow> oid list \<Rightarrow> client_error + bytes \<times> refs_map \<times> string option" where
  "build_bundle_and_refs G g src dst exclude =
     rbind (ok_or (bail ''git rev-parse failed'') (g_rev_parse G g src)) (\<lambda>oid.
     rbind (ok_or (bail ''git bundle create failed'')
              (g_bundle_create G g (filter (\<lambda>x. x \<noteq> oid \<and> g_has_commit G g x) exclude) src)) (\<lambda>bundle.
       Inr (bundle, [(full_ref dst, oid)], Some (''ref: '' @ full_ref dst))))"

definition or_insert_all :: "refs_map \<Rightarrow> refs_map \<Rightarrow> refs_map" where
  "or_insert_all remote refs = fold (\<lambda>(k, v) m. if map_of m k = None then bt_insert k v m else m) remote refs"

text \<open>Between reading the tip and pushing: what to push, if anything.\<close>

definition decide_push ::
    "'g git_ops \<Rightarrow> 'g \<Rightarrow> repo_id \<Rightarrow> epoch_material \<Rightarrow> string \<Rightarrow> string \<Rightarrow> bool \<Rightarrow> refs_map \<Rightarrow> client_error + push_args option" where
  "decide_push G g repo m src dst force remote =
     (if (case g_rev_parse G g src of Some oid \<Rightarrow> map_of remote (full_ref dst) = Some oid | None \<Rightarrow> False) then Inr None
      else rbind (build_bundle_and_refs G g src dst (map snd remote)) (\<lambda>(bundle, refs0, head).
        let refs1 = or_insert_all remote refs0;
            refs2 = (case g_rev_parse G g src of Some oid \<Rightarrow> bt_insert (full_ref dst) oid refs1 | None \<Rightarrow> refs1);
            recomputed = (case classify_non_ff (Some (g_dag G g)) remote refs2 of Inr b \<Rightarrow> b | Inl _ \<Rightarrow> True)
        in if recomputed \<and> \<not> force then Inl (bail ''updates were rejected'')
           else Inr (Some \<lparr>pa_repo = repo, pa_bundle = bundle, pa_refs = refs2, pa_head = head, pa_material = m,
                          pa_non_ff = recomputed \<or> force, pa_window = DEFAULT_UPLOAD_WINDOW\<rparr>)))"

datatype push_done = Up_to_date | Pushed push_result | Deleted push_result

definition delete_args :: "repo_id \<Rightarrow> epoch_material \<Rightarrow> string \<Rightarrow> fetch_result option \<Rightarrow> client_error + push_args" where
  "delete_args repo m dst t =
     (let refs = (case t of Some f \<Rightarrow> er_refs (fr_refs f) | None \<Rightarrow> []);
          head = (case t of Some f \<Rightarrow> er_head (fr_refs f) | None \<Rightarrow> None)
      in if map_of refs (full_ref dst) = None then Inl (bail ''remote ref not present'')
         else Inr \<lparr>pa_repo = repo, pa_bundle = REF_ONLY_BUNDLE, pa_refs = bt_remove (full_ref dst) refs, pa_head = head,
                   pa_material = m, pa_non_ff = True, pa_window = DEFAULT_UPLOAD_WINDOW\<rparr>)"

text \<open>
  \<open>gap\<close> is what other clients do between the command's own read of the tip and the push, \<open>env\<close> what
  they do during the push.
\<close>

definition cmd_push ::
    "prims \<Rightarrow> hex_codec \<Rightarrow> refs_json \<Rightarrow> 'g git_ops \<Rightarrow> ('i, 'gr, 'k, 'w, 'm, 'c) openmls \<Rightarrow> 'h repo_client \<Rightarrow> (nat \<Rightarrow> push_draw) \<Rightarrow>
     ('h \<Rightarrow> 'h) \<Rightarrow> (nat \<Rightarrow> bool \<Rightarrow> 'h \<Rightarrow> 'h) \<Rightarrow> string \<Rightarrow> bool \<Rightarrow> device \<Rightarrow> 'g checkout \<Rightarrow> 'h \<Rightarrow>
     'g checkout \<times> 'h \<times> (client_error + push_done)" where
  "cmd_push P X RJ G M C draws gap env refspec0 force0 dv co s =
     (let (force, refspec) = (case strip_prefix ''+'' refspec0 of Some rest \<Rightarrow> (True, rest) | None \<Rightarrow> (force0, refspec0))
      in case rbind (load_local_repo co) (\<lambda>r. rbind (load_epoch_material (dv_repos dv (rr_id r))) (\<lambda>m. Inr (r, m))) of
           Inl e \<Rightarrow> (co, s, Inl e)
         | Inr (r, m) \<Rightarrow>
             let repo = rr_id r; K = push_keys_of M repo (dv_repos dv repo); tip = tip_of P X RJ C (draws 0) repo m s;
                 (src, dst) = split_refspec refspec
             in if CHR '':'' \<in> set refspec \<and> src = []
                then (case rbind tip (delete_args repo m dst) of
                        Inl e \<Rightarrow> (co, s, Inl e)
                      | Inr a \<Rightarrow> (case push_bundle P X RJ K (rc_host C) draws env a (gap s) of
                          (s1, Inl e) \<Rightarrow> (co, s1, Inl e)
                        | (s1, Inr res) \<Rightarrow> (co, s1, Inr (Deleted res))))
                else (case (case tip of Inr t \<Rightarrow> Inr t
                            | Inl e \<Rightarrow> if force then Inr None else Inl (bail ''cannot verify the remote tip'')) of
                        Inl e \<Rightarrow> (co, s, Inl e)
                      | Inr t \<Rightarrow>
                          (case decide_push G (co_git co) repo m src dst force
                                  (case t of Some f \<Rightarrow> er_refs (fr_refs f) | None \<Rightarrow> []) of
                             Inl e \<Rightarrow> (co, s, Inl e)
                           | Inr None \<Rightarrow> (co, s, Inr Up_to_date)
                           | Inr (Some a) \<Rightarrow> (case push_bundle P X RJ K (rc_host C) draws env a (gap s) of
                               (s1, Inl e) \<Rightarrow> (co, s1, Inl e)
                             | (s1, Inr res) \<Rightarrow>
                                 (record_applied_through X (seq (pr_head_accepted res)) (pr_head_hash res) co, s1, Inr (Pushed res))))))"

section \<open>Pulling\<close>

text \<open>Ref-only heads are recorded without an import; the first bundle that cannot be imported stops the replay.\<close>

fun apply_batch :: "prims \<Rightarrow> hex_codec \<Rightarrow> 'g git_ops \<Rightarrow> fetch_result list \<Rightarrow> 'g checkout \<Rightarrow> 'g checkout \<times> (client_error + unit)" where
  "apply_batch P X G [] co = (co, Inr ())"
| "apply_batch P X G (f # fs) co =
     (if is_ref_only_bundle (fr_bundle f)
      then apply_batch P X G fs (record_applied_seq X (seq (fr_head f)) (ref_head_hash P (fr_head f)) co)
      else case import_bundle_objects G (fr_bundle f) (co_git co) of
        (g, False) \<Rightarrow> (co\<lparr>co_git := g\<rparr>, Inl (bail ''could not import the bundle''))
      | (g, True) \<Rightarrow>
          apply_batch P X G fs (record_applied_seq X (seq (fr_head f)) (ref_head_hash P (fr_head f)) (co\<lparr>co_git := g\<rparr>)))"

definition track_tip :: "'g git_ops \<Rightarrow> refs_map \<Rightarrow> 'g \<Rightarrow> 'g" where
  "track_tip G refs g = fold (\<lambda>(n, oid) g. g_update_ref G (''refs/safehub/tip/'' @ n) oid g) refs g"

definition merge_target :: "enc_refs_map \<Rightarrow> string" where
  "merge_target refs =
     (case strip_prefix ''ref: '' (case er_head refs of Some h \<Rightarrow> h | None \<Rightarrow> []) of
        Some r \<Rightarrow> r
      | None \<Rightarrow>
          if map_of (er_refs refs) ''refs/heads/main'' \<noteq> None then ''refs/heads/main''
          else if map_of (er_refs refs) ''refs/heads/master'' \<noteq> None then ''refs/heads/master''
          else (case er_refs refs of [] \<Rightarrow> [] | (n, _) # _ \<Rightarrow> n))"

definition merge_tip :: "'g git_ops \<Rightarrow> bool \<Rightarrow> enc_refs_map \<Rightarrow> 'g \<Rightarrow> 'g \<times> (client_error + unit)" where
  "merge_tip G rebase refs g =
     (case map_of (er_refs refs) (merge_target refs) of
        None \<Rightarrow> (g, Inr ())
      | Some oid \<Rightarrow>
          if rebase
          then (case g_rebase G oid g of (g1, ok) \<Rightarrow> (g1, if ok then Inr () else Inl (bail ''rebase failed'')))
          else if g_is_ancestor G g ''HEAD'' oid
          then (case g_merge_ff_only G oid g of
                  (g1, True) \<Rightarrow> (g1, Inr ())
                | (g1, False) \<Rightarrow>
                    (case g_merge G oid g1 of (g2, ok) \<Rightarrow> (g2, if ok then Inr () else Inl (bail ''merge failed''))))
          else if g_is_ancestor G g oid ''HEAD'' then (g, Inr ())
          else (case g_merge G oid g of (g1, ok) \<Rightarrow> (g1, if ok then Inr () else Inl (bail ''merge failed''))))"

definition leaf_vks_of :: "push_keys \<Rightarrow> bytes list" where
  "leaf_vks_of K = (case pk_group K of Some v \<Rightarrow> gv_roster v | None \<Rightarrow> [])"

definition fetch_batch ::
    "prims \<Rightarrow> hex_codec \<Rightarrow> refs_json \<Rightarrow> 'h repo_client \<Rightarrow> push_draw \<Rightarrow> push_keys \<Rightarrow> repo_id \<Rightarrow> epoch_material \<Rightarrow> u64 \<Rightarrow>
     head_hash option \<Rightarrow> 'h \<Rightarrow> client_error + fetch_result list" where
  "fetch_batch P X RJ C dr K repo m have anchor s =
     fetch_bundles_since P X RJ (leaf_vks_of K) (rc_get C s) (pd_dkr dr) (pd_dkr' dr) (rc_heads C s) (hc_tip (rc_host C) s)
       repo m have anchor"

definition pull_batch ::
    "prims \<Rightarrow> hex_codec \<Rightarrow> refs_json \<Rightarrow> ('i, 'gr, 'k, 'w, 'm, 'c) openmls \<Rightarrow> 'h repo_client \<Rightarrow> push_draw \<Rightarrow> device \<Rightarrow>
     'g checkout \<Rightarrow> 'h \<Rightarrow> client_error + fetch_result list" where
  "pull_batch P X RJ M C dr dv co s =
     rbind (load_local_repo co) (\<lambda>r. rbind (load_epoch_material (dv_repos dv (rr_id r))) (\<lambda>m.
       fetch_batch P X RJ C dr (push_keys_of M (rr_id r) (dv_repos dv (rr_id r))) (rr_id r) m
         (local_applied_seq co) (local_applied_head X co) s))"

definition fetch_merge ::
    "prims \<Rightarrow> hex_codec \<Rightarrow> refs_json \<Rightarrow> 'g git_ops \<Rightarrow> ('i, 'gr, 'k, 'w, 'm, 'c) openmls \<Rightarrow> 'h repo_client \<Rightarrow> push_draw \<Rightarrow>
     bool \<Rightarrow> bool \<Rightarrow> device \<Rightarrow> 'g checkout \<Rightarrow> 'h \<Rightarrow> 'g checkout \<times> (client_error + unit)" where
  "fetch_merge P X RJ G M C dr merge rebase dv co s =
     (case pull_batch P X RJ M C dr dv co s of
        Inl e \<Rightarrow> (co, Inl e)
      | Inr batch \<Rightarrow>
          if batch = [] then (co, Inr ())
          else (case apply_batch P X G batch co of
                  (co1, Inl e) \<Rightarrow> (co1, Inl e)
                | (co1, Inr _) \<Rightarrow>
                    let refs = fr_refs (last batch); co2 = co1\<lparr>co_git := track_tip G (er_refs refs) (co_git co1)\<rparr>
                    in if \<not> merge then (co2, Inr ())
                       else (case merge_tip G rebase refs (co_git co2) of (g, r) \<Rightarrow> (co2\<lparr>co_git := g\<rparr>, r))))"

section \<open>Cloning\<close>

definition MIDX_REFRESH_EVERY :: nat where "MIDX_REFRESH_EVERY = 256"

definition maybe_refresh_multi_pack_index :: "'g git_ops \<Rightarrow> nat \<Rightarrow> 'g \<Rightarrow> 'g" where
  "maybe_refresh_multi_pack_index G imported g =
     (if imported = 0 \<or> imported mod MIDX_REFRESH_EVERY \<noteq> 0 then g else g_multi_pack_index G g)"

text \<open>The replay of a clone: the number of imports so far, and whether one failed.\<close>

fun clone_replay :: "'g git_ops \<Rightarrow> fetch_result list \<Rightarrow> nat \<Rightarrow> 'g \<Rightarrow> 'g \<times> nat \<times> bool" where
  "clone_replay G [] applied g = (g, applied, True)"
| "clone_replay G (f # fs) applied g =
     (if is_ref_only_bundle (fr_bundle f) then clone_replay G fs applied g
      else case import_bundle_objects G (fr_bundle f) g of
        (g1, False) \<Rightarrow> (g1, applied, False)
      | (g1, True) \<Rightarrow> clone_replay G fs (applied + 1) (maybe_refresh_multi_pack_index G (applied + 1) g1))"

definition batch_format :: "fetch_result list \<Rightarrow> string option" where
  "batch_format batch =
     (case find (\<lambda>f. \<not> is_ref_only_bundle (fr_bundle f)) batch of
        None \<Rightarrow> None
      | Some f \<Rightarrow> bundle_object_format (fr_bundle f))"

text \<open>An empty repository of the wanted object format with the remote added.\<close>

definition fresh_git :: "'g git_ops \<Rightarrow> string option \<Rightarrow> string \<Rightarrow> client_error + 'g" where
  "fresh_git G fmt remote =
     rbind (ok_or (bail ''git init failed'') (g_init G fmt)) (\<lambda>g.
       case g_remote_add G remote g of (g1, ok) \<Rightarrow> if ok then Inr g1 else Inl (bail ''git remote add failed''))"

definition clone_git :: "'g git_ops \<Rightarrow> string \<Rightarrow> fetch_result list \<Rightarrow> 'g \<Rightarrow> client_error + 'g" where
  "clone_git G remote batch g0 =
     rbind (case batch_format batch of
              Some fmt \<Rightarrow> if g_object_format G g0 \<noteq> fmt then fresh_git G (Some fmt) remote else Inr g0
            | None \<Rightarrow> Inr g0) (\<lambda>g1.
       case clone_replay G batch 0 g1 of
         (g2, applied, ok) \<Rightarrow>
           if \<not> ok then Inl (bail ''could not import the bundle'')
           else (let g3 = (if applied \<ge> 64 then g_multi_pack_index G g2 else g2)
                 in case er_refs (fr_refs (last batch)) of
                      [] \<Rightarrow> Inr g3
                    | (_, oid) # _ \<Rightarrow>
                        (case g_checkout_main G oid g3 of
                           (g4, ok4) \<Rightarrow> if ok4 then Inr g4 else Inl (bail ''bundles replayed but checkout failed''))))"

text \<open>What follows \<^verbatim>\<open>git init\<close>: without epoch material, or on an empty log, the clone stays empty.\<close>

definition clone_into ::
    "prims \<Rightarrow> hex_codec \<Rightarrow> refs_json \<Rightarrow> 'g git_ops \<Rightarrow> ('i, 'gr, 'k, 'w, 'm, 'c) openmls \<Rightarrow> 'h repo_client \<Rightarrow> push_draw \<Rightarrow>
     device \<Rightarrow> 'h \<Rightarrow> repo_record \<Rightarrow> string \<Rightarrow> 'g \<Rightarrow> client_error + 'g checkout" where
  "clone_into P X RJ G M C dr dv s r remote g0 =
     (let repo = rr_id r; co = \<lparr>co_repo = Some r, co_seq_file = None, co_head_file = None, co_git = g0\<rparr>
      in case load_epoch_material (dv_repos dv repo) of
           Inl _ \<Rightarrow> Inr co
         | Inr m \<Rightarrow>
             (case fetch_batch P X RJ C dr (push_keys_of M repo (dv_repos dv repo)) repo m 0 (Some head_hash_zero) s of
                Inl e \<Rightarrow> Inl (bail ''refusing to complete the clone'')
              | Inr batch \<Rightarrow>
                  if batch = [] then Inr co
                  else rbind (clone_git G remote batch g0) (\<lambda>g.
                    Inr (record_applied_seq X (seq (fr_head (last batch))) (ref_head_hash P (fr_head (last batch)))
                           (co\<lparr>co_git := g\<rparr>)))))"

text \<open>
  \<open>free\<close> says that the destination does not exist.  The result is the checkout that a successful
  command leaves; what a failed one leaves behind is not tracked.
\<close>

definition cmd_clone ::
    "prims \<Rightarrow> hex_codec \<Rightarrow> refs_json \<Rightarrow> 'g git_ops \<Rightarrow> ('i, 'gr, 'k, 'w, 'm, 'c) openmls \<Rightarrow> (repo_id \<Rightarrow> 'h repo_client) \<Rightarrow>
     (repo_name \<Rightarrow> 'h \<Rightarrow> client_error + repo_record) \<Rightarrow> push_draw \<Rightarrow> string \<Rightarrow> bool \<Rightarrow> device \<Rightarrow> 'h \<Rightarrow> client_error + 'g checkout" where
  "cmd_clone P X RJ G M C lookup dr arg free dv s =
     (let path = (case strip_prefix ''sit://'' arg of Some r \<Rightarrow> r
                  | None \<Rightarrow> (case strip_prefix ''safehub://'' arg of Some r \<Rightarrow> r | None \<Rightarrow> arg))
      in rbind (ok_or (bail ''expected owner/name'') (repo_name_parse path)) (\<lambda>nm.
         rbind (lookup nm s) (\<lambda>r.
         if \<not> free then Inl (bail ''destination already exists'')
         else let remote = ''sit://'' @ rn_owner nm @ ''/'' @ rn_name nm
              in rbind (fresh_git G None remote) (clone_into P X RJ G M (C (rr_id r)) dr dv s r remote))))"

section \<open>Bundle headers\<close>

definition header_of :: "bytes list \<Rightarrow> bytes \<Rightarrow> bytes" where
  "header_of lines pack = concat (map (\<lambda>l. l @ [0x0A]) lines) @ 0x0A # pack"

definition header_lines :: "bytes list \<Rightarrow> bool" where
  "header_lines lines \<longleftrightarrow> (\<forall>l \<in> set lines. l \<noteq> [] \<and> 0x0A \<notin> set l)"

lemma header_shape:
  assumes "0x0A \<notin> set a"
  shows "header_lines lines \<and> a @ 0x0A # r = header_of lines pack \<longleftrightarrow>
    (if a = [] then lines = [] \<and> pack = r
     else \<exists>ls. lines = a # ls \<and> header_lines ls \<and> r = header_of ls pack)"
proof (cases lines)
  case Nil
  then show ?thesis using assms first_sep [of "0x0A" a "[]" r pack] by (auto simp: header_of_def header_lines_def)
next
  case (Cons l ls)
  then show ?thesis
    using assms first_sep [of "0x0A" a l r "header_of ls pack"] by (auto simp: header_of_def header_lines_def)
qed

lemma pack_offset_iff:
  "pack_offset i b = Some off \<longleftrightarrow>
     (\<exists>lines pack. header_lines lines \<and> b = header_of lines pack \<and> off = i + length b - length pack)"
proof (induction i b arbitrary: off rule: pack_offset.induct)
  case (1 i b)
  show ?case
  proof (cases "cut (0x0A :: u8) b")
    case (Pair a o')
    show ?thesis
    proof (cases o')
      case None
      then have "0x0A \<notin> set b" using Pair by (simp add: cut_None)
      moreover have "0x0A \<in> set (header_of lines pack)" "[] \<noteq> header_of lines pack" for lines pack
        by (simp_all add: header_of_def)
      ultimately show ?thesis using Pair None by (subst pack_offset.simps) auto
    next
      case (Some r)
      with Pair have b: "b = a @ 0x0A # r" "0x0A \<notin> set a" by (simp_all add: cut_Some)
      show ?thesis
      proof (cases "a = []")
        case True
        then have "header_lines lines \<and> b = header_of lines pack \<longleftrightarrow> lines = [] \<and> pack = r" for lines pack
          using header_shape [OF b(2)] b(1) by simp
        then have "(\<exists>lines pack. header_lines lines \<and> b = header_of lines pack \<and> off = i + length b - length pack) \<longleftrightarrow>
            off = i + length b - length r" by (metis (no_types, lifting))
        moreover have "pack_offset i b = Some (i + 1)"
          using True b(1) Pair Some by (subst pack_offset.simps) simp
        then have "pack_offset i b = Some off \<longleftrightarrow> off = i + length b - length r" using True b(1) by auto
        ultimately show ?thesis by (simp only:)
      next
        case False
        have "pack_offset i b = pack_offset (i + length a + 1) r"
          using Pair Some False b(1) by (subst pack_offset.simps) simp
        moreover have "pack_offset (i + length a + 1) r = Some off \<longleftrightarrow>
            (\<exists>lines pack. header_lines lines \<and> r = header_of lines pack \<and> off = i + length a + 1 + length r - length pack)"
          using Pair Some False b(1) by (intro "1.IH") auto
        moreover have "length b = length a + 1 + length r" using b(1) by simp
        moreover have "header_lines lines \<and> b = header_of lines pack \<longleftrightarrow>
            (\<exists>ls. lines = a # ls \<and> header_lines ls \<and> r = header_of ls pack)" for lines pack
          using header_shape [OF b(2)] b(1) False by simp
        then have "(\<exists>lines pack. header_lines lines \<and> b = header_of lines pack \<and> off = i + length b - length pack) \<longleftrightarrow>
            (\<exists>ls pack. header_lines ls \<and> r = header_of ls pack \<and> off = i + length b - length pack)" by (metis (no_types, lifting))
        ultimately show ?thesis by (simp add: algebra_simps)
      qed
    qed
  qed
qed

text \<open>
  The packfile of a bundle starts right after the first empty line: an offset is found exactly
  when the bundle is a run of non-empty lines, an empty line and the rest, and it points to the rest.
\<close>

theorem bundle_pack_offset_exact:
  "(bundle_pack_offset b = Some off) =
     (\<exists>lines pack. (\<forall>l \<in> set lines. l \<noteq> [] \<and> 0x0A \<notin> set l) \<and> b = concat (map (\<lambda>l. l @ [0x0A]) lines) @ 0x0A # pack \<and>
        off = length b - length pack)"
  by (simp add: bundle_pack_offset_def pack_offset_iff header_lines_def header_of_def)

section \<open>One chain\<close>

text \<open>The heads a replay records: up to the first bundle that cannot be imported.\<close>

fun applied_heads :: "'g git_ops \<Rightarrow> fetch_result list \<Rightarrow> 'g \<Rightarrow> ref_head list" where
  "applied_heads G [] g = []"
| "applied_heads G (f # fs) g =
     (if is_ref_only_bundle (fr_bundle f) then fr_head f # applied_heads G fs g
      else case import_bundle_objects G (fr_bundle f) g of
        (g1, False) \<Rightarrow> []
      | (g1, True) \<Rightarrow> fr_head f # applied_heads G fs g1)"

definition marks :: "prims \<Rightarrow> hex_codec \<Rightarrow> 'g checkout \<Rightarrow> ref_head \<Rightarrow> bool" where
  "marks P X co h \<longleftrightarrow> co_seq_file co = Some (word_string (seq h)) \<and> co_head_file co = Some (id_to_hex X (ref_head_hash P h))"

lemma applied_heads_prefix: "\<exists>k. applied_heads G fs g = map fr_head (take k fs)"
proof (induction fs arbitrary: g)
  case (Cons f fs)
  then obtain k1 k2 where "applied_heads G fs g = map fr_head (take k1 fs)"
    "applied_heads G fs (fst (import_bundle_objects G (fr_bundle f) g)) = map fr_head (take k2 fs)" by blast
  then show ?case
    by (cases "import_bundle_objects G (fr_bundle f) g")
      (auto split: bool.split intro: exI [of _ 0] exI [of _ "Suc k1"] exI [of _ "Suc k2"])
qed simp

lemma apply_batch_marks:
  assumes "apply_batch P X G fs co = (co', r)"
  shows "(if applied_heads G fs (co_git co) = [] then co_seq_file co' = co_seq_file co \<and> co_head_file co' = co_head_file co
          else marks P X co' (last (applied_heads G fs (co_git co)))) \<and>
    co_repo co' = co_repo co \<and> (r = Inr () \<longrightarrow> applied_heads G fs (co_git co) = map fr_head fs)"
  using assms
proof (induction fs arbitrary: co)
  case (Cons f fs)
  let ?rec = "record_applied_seq X (seq (fr_head f)) (ref_head_hash P (fr_head f))"
  obtain g ok where i: "import_bundle_objects G (fr_bundle f) (co_git co) = (g, ok)" by fastforce
  show ?case
  proof (cases "is_ref_only_bundle (fr_bundle f) \<or> ok")
    case True
    then obtain g' where g': "applied_heads G (f # fs) (co_git co) = fr_head f # applied_heads G fs g'"
      "apply_batch P X G fs (?rec (co\<lparr>co_git := g'\<rparr>)) = (co', r)"
      using Cons.prems i by (cases "is_ref_only_bundle (fr_bundle f)") auto
    have g2: "co_git (?rec (co\<lparr>co_git := g'\<rparr>)) = g'" by (simp add: record_applied_seq_def)
    from Cons.IH [OF g'(2)] show ?thesis
      unfolding g'(1) g2 by (auto simp: record_applied_seq_def marks_def split: if_splits)
  next
    case False
    with Cons.prems i show ?thesis by auto
  qed
qed simp

text \<open>The heads a fetch or pull applies.\<close>

definition pulled_heads :: "'g git_ops \<Rightarrow> client_error + fetch_result list \<Rightarrow> 'g checkout \<Rightarrow> ref_head list" where
  "pulled_heads G res co = (case res of Inl _ \<Rightarrow> [] | Inr batch \<Rightarrow> applied_heads G batch (co_git co))"

lemma fetch_merge_marks:
  assumes "fetch_merge P X RJ G M C dr merge rebase dv co s = (co', r)"
  defines "hs \<equiv> pulled_heads G (pull_batch P X RJ M C dr dv co s) co"
  shows "co_repo co' = co_repo co \<and>
    (if hs = [] then co_seq_file co' = co_seq_file co \<and> co_head_file co' = co_head_file co else marks P X co' (last hs))"
proof (cases "pull_batch P X RJ M C dr dv co s")
  case (Inr batch)
  obtain co1 r1 where a: "apply_batch P X G batch co = (co1, r1)" by fastforce
  have "co_repo co' = co_repo co1 \<and> co_seq_file co' = co_seq_file co1 \<and> co_head_file co' = co_head_file co1"
    using assms(1) Inr a by (auto simp: fetch_merge_def Let_def split: if_splits sum.splits prod.splits)
  then show ?thesis
    using apply_batch_marks [OF a] Inr by (auto simp: hs_def pulled_heads_def marks_def)
qed (use assms in \<open>simp add: fetch_merge_def pulled_heads_def\<close>)

text \<open>
  The life of a checkout of a member with full history: it is cloned from a host that has a head, and
  then any hosts, members' devices and rosters follow; between the commands the user may do
  anything to the git repository.  \<open>hs\<close> are the heads applied so far.
\<close>

definition full_history :: "device \<Rightarrow> 'g checkout \<Rightarrow> bool" where
  "full_history dv co \<longleftrightarrow> (\<forall>r m. co_repo co = Some r \<longrightarrow> load_epoch_material (dv_repos dv (rr_id r)) = Inr m \<longrightarrow> em_history_from m = 0)"

inductive checkout_run ::
    "prims \<Rightarrow> hex_codec \<Rightarrow> refs_json \<Rightarrow> 'g git_ops \<Rightarrow> ('i, 'gr, 'k, 'w, 'm, 'c) openmls \<Rightarrow> 'h itself \<Rightarrow> ref_head list \<Rightarrow>
     'g checkout \<Rightarrow> bool"
  for P X RJ G M and h :: "'h itself" where
  cloned: "cmd_clone P X RJ G M C lookup dr arg free dv (s :: 'h) = Inr co \<Longrightarrow> full_history dv co \<Longrightarrow>
    co_repo co = Some r \<Longrightarrow> load_epoch_material (dv_repos dv (rr_id r)) = Inr m \<Longrightarrow>
    fetch_batch P X RJ (C (rr_id r)) dr (push_keys_of M (rr_id r) (dv_repos dv (rr_id r))) (rr_id r) m 0 (Some head_hash_zero) s
      = Inr batch \<Longrightarrow> batch \<noteq> [] \<Longrightarrow> checkout_run P X RJ G M h (map fr_head batch) co"
| pulled: "checkout_run P X RJ G M h hs co \<Longrightarrow> full_history dv co \<Longrightarrow>
    fetch_merge P X RJ G M C dr merge rebase dv co (s :: 'h) = (co', res) \<Longrightarrow>
    checkout_run P X RJ G M h (hs @ pulled_heads G (pull_batch P X RJ M C dr dv co s) co) co'"
| worked: "checkout_run P X RJ G M h hs co \<Longrightarrow> checkout_run P X RJ G M h hs (co\<lparr>co_git := g\<rparr>)"

lemma marks_head:
  assumes "marks P X co h" and "hex_roundtrips X" and "\<forall>i. length i = 64 \<longrightarrow> list_all (\<lambda>c. \<not> is_ws c) (hex_encode X i)"
  shows "local_applied_seq co = seq h \<and> local_applied_head X co = Some (ref_head_hash P h)"
proof -
  have "length (ref_head_hash P h) = 64" by (simp add: ref_head_hash_def head_hash_of_def)
  then show ?thesis
    using assms
    by (simp add: marks_def local_applied_seq_def local_applied_head_def trim_id id_to_hex_def head_hash_from_hex_def
        id_from_hex_def hex_roundtrips_def)
qed

lemma pull_batch_links:
  assumes "pull_batch P X RJ M C dr dv co s = Inr batch" and "full_history dv co" and "local_applied_head X co = Some a"
  shows "linked P a (map fr_head batch)"
  using assms fetch_links
  by (fastforce simp: pull_batch_def fetch_batch_def full_history_def load_local_repo_def rbind_Inr_conv ok_or_Inr_iff)

lemma linked_take: "linked P a hs \<Longrightarrow> linked P a (take k hs)"
  by (metis append_take_drop_id linked_append)

lemma cmd_clone_marks:
  assumes "cmd_clone P X RJ G M C lookup dr arg free dv s = Inr co" and "co_repo co = Some r"
    and "load_epoch_material (dv_repos dv (rr_id r)) = Inr m"
    and "fetch_batch P X RJ (C (rr_id r)) dr (push_keys_of M (rr_id r) (dv_repos dv (rr_id r))) (rr_id r) m 0 (Some head_hash_zero) s = Inr batch"
    and "batch \<noteq> []"
  shows "marks P X co (fr_head (last batch))"
proof -
  from assms(1) obtain r' g0 remote where rest: "clone_into P X RJ G M (C (rr_id r')) dr dv s r' remote g0 = Inr co"
    by (auto simp: cmd_clone_def Let_def rbind_Inr_conv split: if_splits)
  then have "co_repo co = Some r'"
    by (auto simp: clone_into_def Let_def record_applied_seq_def rbind_Inr_conv split: sum.splits if_splits)
  with assms(2) have "r' = r" by simp
  with rest assms(3-5) show ?thesis
    by (auto simp: clone_into_def Let_def marks_def record_applied_seq_def rbind_Inr_conv)
qed

lemma checkout_run_chain:
  assumes "checkout_run P X RJ G M h hs co" and "hex_roundtrips X"
    and "\<forall>i. length i = 64 \<longrightarrow> list_all (\<lambda>c. \<not> is_ws c) (hex_encode X i)"
  shows "hs \<noteq> [] \<and> linked P head_hash_zero hs \<and> marks P X co (last hs)"
  using assms(1)
proof (induction rule: checkout_run.induct)
  case (cloned C lookup dr arg free dv s co r m batch)
  have "em_history_from m = 0" using cloned by (simp add: full_history_def)
  then have "linked P head_hash_zero (map fr_head batch)"
    using fetch_links cloned.hyps(5) unfolding fetch_batch_def by blast
  moreover have "marks P X co (fr_head (last batch))"
    using cloned by (intro cmd_clone_marks)
  ultimately show ?case using cloned.hyps(6) by (simp add: last_map)
next
  case (pulled hs co dv C dr merge rebase s co' res)
  let ?new = "pulled_heads G (pull_batch P X RJ M C dr dv co s) co"
  have a: "local_applied_head X co = Some (ref_head_hash P (last hs))"
    using marks_head [of P X co "last hs"] pulled.IH assms(2,3) by simp
  have "linked P (ref_head_hash P (last hs)) ?new"
  proof (cases "pull_batch P X RJ M C dr dv co s")
    case (Inr batch)
    obtain k where "applied_heads G batch (co_git co) = map fr_head (take k batch)" using applied_heads_prefix [of G batch "co_git co"] by blast
    then have "?new = take k (map fr_head batch)" by (simp add: pulled_heads_def Inr take_map)
    with pull_batch_links [OF Inr pulled.hyps(2) a] show ?thesis by (simp add: linked_take)
  qed (simp add: pulled_heads_def)
  moreover have "if ?new = [] then marks P X co' (last hs) else marks P X co' (last ?new)"
    using fetch_merge_marks [OF pulled.hyps(3)] pulled.IH by (auto simp: marks_def)
  ultimately show ?case using pulled.IH by (auto simp: linked_append last_append split: if_splits)
next
  case (worked hs co g)
  then show ?case by (simp add: marks_def)
qed

lemma linked_same_tip:
  assumes "linked P a hs" and "linked P a hs'" and "hs \<noteq> [] \<Longrightarrow> hs' \<noteq> [] \<Longrightarrow> ref_head_hash P (last hs) = ref_head_hash P (last hs')"
    and "hs = [] \<Longrightarrow> hs' \<noteq> [] \<Longrightarrow> ref_head_hash P (last hs') = a" and "hs' = [] \<Longrightarrow> hs \<noteq> [] \<Longrightarrow> ref_head_hash P (last hs) = a"
    and "hashes_injective P (set hs \<union> set hs')" and "\<forall>h \<in> set hs \<union> set hs'. ref_head_hash P h \<noteq> a"
  shows "hs = hs'"
  using assms
proof (induction hs arbitrary: hs' rule: rev_induct)
  case Nil
  then show ?case by (cases hs' rule: rev_cases) auto
next
  case (snoc x xs)
  show ?case
  proof (cases hs' rule: rev_cases)
    case Nil
    then show ?thesis using snoc.prems by auto
  next
    case (snoc ys y)
    note prems = snoc.prems [unfolded snoc]
    have "x = y" using hashes_injectiveD [OF prems(6), of x y] prems(3) by simp
    moreover have "xs = ys"
    proof (rule snoc.IH)
      have l: "linked P a xs" "linked P a ys" "linked P (if xs = [] then a else ref_head_hash P (last xs)) [x]"
        "linked P (if ys = [] then a else ref_head_hash P (last ys)) [y]"
        using prems(1,2) by (auto simp: linked_append)
      then show "linked P a xs" "linked P a ys" by simp_all
      have "(if xs = [] then a else ref_head_hash P (last xs)) = (if ys = [] then a else ref_head_hash P (last ys))"
        using l(3,4) \<open>x = y\<close> by simp
      then show "xs \<noteq> [] \<Longrightarrow> ys \<noteq> [] \<Longrightarrow> ref_head_hash P (last xs) = ref_head_hash P (last ys)"
        "xs = [] \<Longrightarrow> ys \<noteq> [] \<Longrightarrow> ref_head_hash P (last ys) = a" "ys = [] \<Longrightarrow> xs \<noteq> [] \<Longrightarrow> ref_head_hash P (last xs) = a"
        by simp_all
      show "hashes_injective P (set xs \<union> set ys)" by (rule hashes_injective_mono [OF prems(6)]) auto
      show "\<forall>h \<in> set xs \<union> set ys. ref_head_hash P h \<noteq> a" using prems(7) by auto
    qed
    ultimately show ?thesis using snoc by simp
  qed
qed

definition hex_plain :: "hex_codec \<Rightarrow> bool" where
  "hex_plain X \<longleftrightarrow> hex_roundtrips X \<and> (\<forall>i. list_all (\<lambda>c. \<not> is_ws c) (hex_encode X i))"

lemma checkout_run_at:
  assumes "checkout_run P X RJ G M h hs co" and "hex_plain X"
  shows "hs \<noteq> [] \<and> linked P head_hash_zero hs \<and>
    local_applied_seq co = seq (last hs) \<and> local_applied_head X co = Some (ref_head_hash P (last hs))"
proof -
  have X: "hex_roundtrips X" "\<forall>i. length i = 64 \<longrightarrow> list_all (\<lambda>c. \<not> is_ws c) (hex_encode X i)"
    using assms(2) by (simp_all add: hex_plain_def)
  then show ?thesis using checkout_run_chain [OF assms(1) X] marks_head [OF _ X] by blast
qed

text \<open>
  C6.  A clone and everything it pulls later, from whatever hosts, is one chain: the applied heads link
  from the first head of the repository to the head whose hash and position the checkout has on
  disk, which every later fetch must extend.
\<close>

theorem checkout_is_one_chain:
  assumes "checkout_run P X RJ G M h hs co" and "hex_plain X"
  shows "hs \<noteq> [] \<and> linked P head_hash_zero hs \<and>
    local_applied_seq co = seq (last hs) \<and> local_applied_head X co = Some (ref_head_hash P (last hs))"
  using assms by (rule checkout_run_at)


section \<open>Catching up\<close>

lemma apply_batch_all:
  assumes "apply_batch P X G fs co = (co', Inr ())" and "fs \<noteq> []"
  shows "marks P X co' (fr_head (last fs))"
  using apply_batch_marks [OF assms(1)] assms(2) by (auto simp: last_map split: if_splits)

lemma fetch_all_map: "\<forall>h \<in> set hs. f h = Inr (b h) \<Longrightarrow> fetch_all f hs = Inr (map b hs)"
  by (induction hs) simp_all

text \<open>What an honest host answers a checkout that stands at position \<open>n\<close> of its log.\<close>

lemma of_nat_pred: "0 < n \<Longrightarrow> of_nat (n - Suc 0) + 1 = (of_nat n :: u64)"
  by (cases n) simp_all

lemma log_tip_take: "n \<le> length l \<Longrightarrow> log_tip P (take n l) = (if n = 0 then head_hash_zero else ref_head_hash P (l ! (n - 1)))"
  by (cases "l = []") (auto simp: log_tip_def last_conv_nth)

lemma honest_batch:
  assumes "http_inv P X au repo sv l" and "n \<le> length l" and "em_history_from m = 0"
    and "\<forall>h \<in> set (drop n l). authentic P m (leaf_vks_of K) h"
    and "\<forall>h \<in> set (drop n l). fetch_head_bundle P X RJ (http_get_blob X au repo sv) (pd_dkr dr) (pd_dkr' dr) repo m h = Inr (b h)"
  shows "fetch_batch P X RJ (http_repo_client P J X B show_meta au repo) dr K repo m (of_nat n) (Some (log_tip P (take n l))) sv
    = Inr (map b (drop n l))"
proof -
  have served: "http_heads_since J X au repo (of_nat n) sv = Inr (drop n l)"
    by (rule http_host.log_since_drop [OF assms(1,2)])
  have chain: "linked P (log_tip P (take n l)) (drop n l) \<and> consecutive (drop n l)"
    using http_host.anchored_fetch_ok [OF assms(1,2), of J] served
    by (simp add: log_tip_take [OF assms(2)] verify_head_chain_ok)
  then have ok: "verify_fetched_heads P (drop n l) m (Some (log_tip P (take n l))) (leaf_vks_of K) = Inr ()"
    using assms(4) unfolding verify_fetched_heads_ok by simp
  have "sorted_wrt (\<lambda>h k. seq h < seq k) l"
    using assms(1) by (auto simp: http_inv_def head_log_inv_def Let_def intro: log_shape_strict)
  then have "sorted_wrt (\<lambda>h k. seq h < seq k) (drop n l)" by (rule sorted_wrt_drop)
  then have "sorted (map seq (drop n l))"
    unfolding sorted_wrt_map by (rule sorted_wrt_mono_rel [rotated]) simp
  then have sort: "sort_key seq (drop n l) = drop n l" by (rule sort_key_id_if_sorted)
  have shape: "log_shape P l" using assms(1) by (simp add: http_inv_def head_log_inv_def Let_def)
  have "tip_check (of_nat n) (drop n l) (if l = [] then None else Some (last l)) = Inr ()"
    using assms(2) log_shape_num [OF shape, of "length l - 1"] shape
    by (auto simp: tip_check_ok last_conv_nth log_shape_def of_nat_pred)
  then show ?thesis
    using http_host.tip_law [OF assms(1), of J] served ok assms(3) fetch_all_map [OF assms(5)]
    by (simp add: fetch_batch_def http_repo_client_def fetch_bundles_since_def sort client_host_def)
qed

definition stands_at :: "prims \<Rightarrow> hex_codec \<Rightarrow> 'g checkout \<Rightarrow> ref_head list \<Rightarrow> bool" where
  "stands_at P X co l \<longleftrightarrow> local_applied_seq co = of_nat (length l) \<and> local_applied_head X co = Some (log_tip P l)"

lemma marks_stands:
  assumes "marks P X co (last l)" and "l \<noteq> []" and "log_shape P l" and "hex_plain X"
  shows "stands_at P X co l"
proof -
  have "seq (last l) = of_nat (length l)" using assms(2,3) by (simp add: log_shape_def last_conv_nth of_nat_pred)
  moreover have "local_applied_seq co = seq (last l) \<and> local_applied_head X co = Some (ref_head_hash P (last l))"
    using assms(4) by (intro marks_head [OF assms(1)]) (simp_all add: hex_plain_def)
  ultimately show ?thesis using assms(2) by (simp add: stands_at_def log_tip_def)
qed

lemma pull_batch_honest:
  assumes "http_inv P X au (rr_id r) sv l" and "n \<le> length l" and "stands_at P X co (take n l)"
    and "co_repo co = Some r" and "load_epoch_material (dv_repos dv (rr_id r)) = Inr m" and "em_history_from m = 0"
    and "\<forall>h \<in> set (drop n l). authentic P m (leaf_vks_of (push_keys_of M (rr_id r) (dv_repos dv (rr_id r)))) h"
    and "\<forall>h \<in> set (drop n l). fetch_head_bundle P X RJ (http_get_blob X au (rr_id r) sv) (pd_dkr dr) (pd_dkr' dr) (rr_id r) m h = Inr (b h)"
  shows "pull_batch P X RJ M (http_repo_client P J X B show_meta au (rr_id r)) dr dv co sv = Inr (map b (drop n l))"
  using assms honest_batch [OF assms(1,2,6-8)]
  by (simp add: pull_batch_def load_local_repo_def stands_at_def min_absorb2)

text \<open>
  C8.  Pulling catches up: a checkout that stands at any position of an honest host's log, all later
  heads being authentic, readable and importable, replays exactly the bundles after its position, in
  order, ends at the tip of the log, and a second pull then finds nothing to do.
\<close>

theorem pull_catches_up:
  assumes "http_inv P X au (rr_id r) sv l" and "n < length l" and "stands_at P X co (take n l)"
    and "co_repo co = Some r" and "load_epoch_material (dv_repos dv (rr_id r)) = Inr m" and "em_history_from m = 0"
    and "\<forall>h \<in> set (drop n l). authentic P m (leaf_vks_of (push_keys_of M (rr_id r) (dv_repos dv (rr_id r)))) h"
    and "\<forall>h \<in> set (drop n l). fetch_head_bundle P X RJ (http_get_blob X au (rr_id r) sv) (pd_dkr dr) (pd_dkr' dr) (rr_id r) m h = Inr (b h)"
    and "apply_batch P X G (map b (drop n l)) co = (co1, Inr ())" and "hex_plain X"
  shows "\<exists>co2. fetch_merge P X RJ G M (http_repo_client P J X B show_meta au (rr_id r)) dr False False dv co sv = (co2, Inr ()) \<and>
    stands_at P X co2 l \<and> co_git co2 = track_tip G (er_refs (fr_refs (b (last l)))) (co_git co1) \<and>
    fetch_merge P X RJ G M (http_repo_client P J X B show_meta au (rr_id r)) dr merge rebase dv co2 sv = (co2, Inr ())"
proof -
  let ?C = "http_repo_client P J X B show_meta au (rr_id r)" and ?batch = "map b (drop n l)"
  have batch: "pull_batch P X RJ M ?C dr dv co sv = Inr ?batch"
    using assms(2) by (intro pull_batch_honest [OF assms(1) _ assms(3-8)]) simp
  define co2 where "co2 = co1\<lparr>co_git := track_tip G (er_refs (fr_refs (last ?batch))) (co_git co1)\<rparr>"
  have last: "last ?batch = b (last l)" using assms(2) by (simp add: last_map)
  have run: "fetch_merge P X RJ G M ?C dr False False dv co sv = (co2, Inr ())"
    using assms(2,9) batch by (simp add: fetch_merge_def Let_def co2_def)
  have shape: "log_shape P l" using assms(1) by (simp add: http_inv_def head_log_inv_def Let_def)
  have "last l \<in> set (drop n l)" using assms(2) last_in_set [of "drop n l"] by simp
  from fetch_head_bundle_head [OF bspec [OF assms(8) this]] have "fr_head (b (last l)) = last l" .
  then have "marks P X co1 (last l)" "co_repo co1 = Some r"
    using apply_batch_all [OF assms(9)] apply_batch_marks [OF assms(9)] assms(2,4) last by simp_all
  then have "marks P X co2 (last l)" "co_repo co2 = Some r" by (simp_all add: co2_def marks_def)
  moreover have "l \<noteq> []" using assms(2) by auto
  ultimately have at: "stands_at P X co2 l" using marks_stands [OF _ _ shape assms(10)] by blast
  have "pull_batch P X RJ M ?C dr dv co2 sv = Inr (map b (drop (length l) l))"
    using at \<open>co_repo co2 = Some r\<close> by (intro pull_batch_honest [OF assms(1) _ _ _ assms(5,6)]) simp_all
  then have "fetch_merge P X RJ G M ?C dr merge rebase dv co2 sv = (co2, Inr ())" by (simp add: fetch_merge_def)
  with run at last show ?thesis by (auto simp: co2_def)
qed

section \<open>What a push leaves behind\<close>

text \<open>
  After a successful push the checkout claims to have applied everything up to its own head, whatever
  it had applied before: its object store is the one it had, and the next pull from the host, whose
  log may hold heads of others before the pushed one, imports nothing.
\<close>

theorem push_marks_unseen_applied:
  assumes "cmd_push P X RJ G M (http_repo_client P J X B show_meta au (rr_id r)) draws gap env refspec force dv co sv
      = (co', sv', Inr (Pushed res))"
    and "http_inv P X au (rr_id r) sv' (l @ [pr_head_accepted res])" and "pr_head_hash res = ref_head_hash P (pr_head_accepted res)"
    and "co_repo co = Some r" and "load_epoch_material (dv_repos dv (rr_id r)) = Inr m" and "em_history_from m = 0" and "hex_plain X"
  shows "co_git co' = co_git co \<and>
    fetch_merge P X RJ G M (http_repo_client P J X B show_meta au (rr_id r)) dr merge rebase dv co' sv' = (co', Inr ())"
proof -
  have co': "co' = record_applied_through X (seq (pr_head_accepted res)) (pr_head_hash res) co"
    using assms(1) by (auto simp: cmd_push_def Let_def split: prod.splits sum.splits option.splits if_splits)
  have shape: "log_shape P (l @ [pr_head_accepted res])" using assms(2) by (simp add: http_inv_def head_log_inv_def Let_def)
  have "marks P X co' (last (l @ [pr_head_accepted res]))" by (simp add: co' marks_def record_applied_through_def assms(3))
  from marks_stands [OF this _ shape assms(7)] have at: "stands_at P X co' (l @ [pr_head_accepted res])" by simp
  have "co_repo co' = Some r" using assms(4) by (simp add: co' record_applied_through_def)
  then have "pull_batch P X RJ M (http_repo_client P J X B show_meta au (rr_id r)) dr dv co' sv' = Inr (map undefined (drop (length (l @ [pr_head_accepted res])) (l @ [pr_head_accepted res])))"
    using at by (intro pull_batch_honest [OF assms(2) _ _ _ assms(5,6)]) simp_all
  then show ?thesis by (simp add: fetch_merge_def co' record_applied_through_def)
qed

section \<open>What a push writes\<close>

text \<open>A \<^verbatim>\<open>BTreeMap\<close> read from JSON is ordered, whatever the text.\<close>

definition json_maps :: "refs_json \<Rightarrow> bool" where
  "json_maps RJ \<longleftrightarrow> (\<forall>b r. from_json RJ b = Some r \<longrightarrow> bt_wf (er_refs r))"

definition push_target :: "string \<Rightarrow> string" where
  "push_target refspec = full_ref (snd (split_refspec (case strip_prefix ''+'' refspec of Some rest \<Rightarrow> rest | None \<Rightarrow> refspec)))"

lemma or_insert_all_map:
  "bt_wf m \<Longrightarrow> bt_wf (or_insert_all remote m) \<and>
     map_of (or_insert_all remote m) k = (case map_of m k of Some v \<Rightarrow> Some v | None \<Rightarrow> map_of remote k)"
proof (induction remote arbitrary: m)
  case (Cons p remote)
  obtain j v where p: "p = (j, v)" by fastforce
  let ?m = "if map_of m j = None then bt_insert j v m else m"
  have "bt_wf ?m" using Cons.prems by simp
  from Cons.IH [OF this] show ?case using Cons.prems by (auto simp: or_insert_all_def p split: option.splits)
qed (simp add: or_insert_all_def split: option.split)

lemma decide_push_args:
  assumes "decide_push G g repo m src dst force remote = Inr (Some a)"
  obtains oid where "g_rev_parse G g src = Some oid" "pa_material a = m" "bt_wf (pa_refs a)"
    "map_of (pa_refs a) = (map_of remote)(full_ref dst \<mapsto> oid)"
    "\<not> force \<Longrightarrow> \<not> pa_non_ff a \<and> classify_ff (Some (g_dag G g)) remote (pa_refs a) = Inr FastForward"
proof -
  from assms obtain oid where oid: "g_rev_parse G g src = Some oid"
    by (auto simp: decide_push_def build_bundle_and_refs_def rbind_Inr_conv ok_or_Inr_iff split: if_splits)
  let ?r1 = "or_insert_all remote [(full_ref dst, oid)]"
  have r1: "bt_wf ?r1" "map_of ?r1 k = (if k = full_ref dst then Some oid else map_of remote k)" for k
    using or_insert_all_map [of "[(full_ref dst, oid)]" remote k] by auto
  have a: "pa_refs a = bt_insert (full_ref dst) oid ?r1" "pa_material a = m"
    and ff: "\<not> force \<Longrightarrow> \<not> pa_non_ff a \<and> classify_non_ff (Some (g_dag G g)) remote (pa_refs a) = Inr False"
    using assms by (auto simp: decide_push_def build_bundle_and_refs_def rbind_Inr_conv ok_or_Inr_iff oid Let_def split: if_splits sum.splits)
  have "classify_ff (Some (g_dag G g)) remote (pa_refs a) = Inr FastForward" if unforced: "\<not> force"
  proof -
    obtain st where "classify_ff (Some (g_dag G g)) remote (pa_refs a) = Inr st" "\<not> is_non_ff st"
      using ff [OF unforced] by (auto simp: classify_non_ff_def rbind_Inr_conv)
    then show ?thesis by (cases st) (simp_all add: is_non_ff_def)
  qed
  moreover have "map_of (pa_refs a) = (map_of remote)(full_ref dst \<mapsto> oid)"
    using r1 by (auto simp: a)
  ultimately show thesis using that oid a ff r1(1) by simp
qed

lemma push_loop_planned:
  "push_loop P X J K H draws env a baseline r n s = (s', Inr res) \<Longrightarrow>
    \<exists>k t plan. plan_attempt P X J K (draws k) a baseline t = Inr (plan, pr_head_accepted res, pr_refs res)"
proof (induction r arbitrary: n s)
  case 0
  then show ?case
    by (subst (asm) push_loop.simps) (fastforce simp: Let_def rbind_Inr_conv split: sum.splits prod.splits if_splits)
next
  case (Suc r)
  from Suc.prems show ?case
    by (subst (asm) push_loop.simps)
      (fastforce simp: Let_def rbind_Inr_conv dest: Suc.IH split: sum.splits prod.splits if_splits)
qed

lemma push_bundle_planned:
  assumes "push_bundle P X J K H draws env a s = (s', Inr res)"
    and "rbind (hc_tip H s) (tip_refs P J (pd_dkr (draws 0)) (pd_dkr' (draws 0)) (pa_material a)) = Inr baseline"
  obtains k t plan where "plan_attempt P X J K (draws k) (a\<lparr>pa_window := DEFAULT_UPLOAD_WINDOW\<rparr>) baseline t
    = Inr (plan, pr_head_accepted res, pr_refs res)"
proof -
  have "push_loop P X J K H draws env (a\<lparr>pa_window := DEFAULT_UPLOAD_WINDOW\<rparr>) baseline DEFAULT_CAS_RETRIES 0 s = (s', Inr res)"
    using assms by (simp add: push_bundle_def push_bundle_with_retries_def)
  from push_loop_planned [OF this] show thesis using that by blast
qed

lemma tip_refs_wf: "tip_refs P J rng rng' m tp = Inr remote \<Longrightarrow> json_maps J \<Longrightarrow> bt_wf remote"
  by (auto simp: tip_refs_def open_refs_map_def json_maps_def rbind_Inr_conv ok_or_Inr_iff split: option.splits)

text \<open>The refs of an accepted push, name by name.\<close>

lemma planned_refs:
  assumes "plan_attempt P X J K dr a baseline t = Inr (plan, h, refs)" and "bt_wf (pa_refs a)" and "json_maps J"
  shows "\<exists>remote. map_of (er_refs refs) k =
    (if map_of (pa_refs a) k \<noteq> None \<and> map_of (pa_refs a) k \<noteq> map_of baseline k then map_of (pa_refs a) k
     else if pa_non_ff a \<and> map_of baseline k \<noteq> None \<and> map_of (pa_refs a) k = None then None else map_of remote k)"
proof -
  obtain remote where r: "tip_refs P J (pd_dkr dr) (pd_dkr' dr) (pa_material a) t = Inr remote"
    "reconcile_refs_for_cas baseline (pa_refs a) remote (pa_non_ff a) = Inr (er_refs refs)"
    using plan_attempt_head [OF assms(1)] by blast
  from reconcile_cases [OF assms(2) tip_refs_wf [OF r(1) assms(3)], of "pa_non_ff a" baseline] r(2)
  show ?thesis by fastforce
qed

lemma cmd_push_Pushed:
  assumes "cmd_push P X RJ G M C draws gap env refspec force dv co s = (co', s', Inr (Pushed res))"
    and "co_repo co = Some r" and "load_epoch_material (dv_repos dv (rr_id r)) = Inr m"
    and "tip_of P X RJ C (draws 0) (rr_id r) m s = Inr t"
  obtains a where
    "decide_push G (co_git co) (rr_id r) m (fst (split_refspec (case strip_prefix ''+'' refspec of Some rest \<Rightarrow> rest | None \<Rightarrow> refspec)))
       (snd (split_refspec (case strip_prefix ''+'' refspec of Some rest \<Rightarrow> rest | None \<Rightarrow> refspec)))
       (force \<or> strip_prefix ''+'' refspec \<noteq> None) (case t of Some f \<Rightarrow> er_refs (fr_refs f) | None \<Rightarrow> []) = Inr (Some a)"
    "push_bundle P X RJ (push_keys_of M (rr_id r) (dv_repos dv (rr_id r))) (rc_host C) draws env a (gap s) = (s', Inr res)"
  using assms
  by (auto simp: cmd_push_def Let_def load_local_repo_def split: prod.splits sum.splits option.splits if_splits)

text \<open>
  C9.  The fast-forward gate of the command: an unforced push that lands was classified as a
  fast-forward of the refs the command had read, so its head is not marked as a rewrite, and the ref
  it targets, if it existed there, advances in the local graph to the pushed commit.
\<close>

theorem unforced_push_advances:
  assumes "cmd_push P X RJ G M C draws gap env refspec False dv co s = (co', s', Inr (Pushed res))"
    and "strip_prefix ''+'' refspec = None"
    and "co_repo co = Some r" and "load_epoch_material (dv_repos dv (rr_id r)) = Inr m"
    and "tip_of P X RJ C (draws 0) (rr_id r) m s = Inr t"
    and "rbind (hc_tip (rc_host C) (gap s)) (tip_refs P RJ (pd_dkr (draws 0)) (pd_dkr' (draws 0)) m) = Inr now"
  shows "\<not> non_ff (pr_head_accepted res) \<and>
    (\<exists>oid. g_rev_parse G (co_git co) (fst (split_refspec refspec)) = Some oid \<and>
       (\<forall>f old. t = Some f \<longrightarrow> map_of (er_refs (fr_refs f)) (push_target refspec) = Some old \<longrightarrow>
          ref_advances (Some (g_dag G (co_git co))) (push_target refspec) old oid))"
proof -
  let ?dst = "snd (split_refspec refspec)" and ?R0 = "case t of Some f \<Rightarrow> er_refs (fr_refs f) | None \<Rightarrow> []"
  obtain a where a: "decide_push G (co_git co) (rr_id r) m (fst (split_refspec refspec)) ?dst False ?R0 = Inr (Some a)"
    and run: "push_bundle P X RJ (push_keys_of M (rr_id r) (dv_repos dv (rr_id r))) (rc_host C) draws env a (gap s) = (s', Inr res)"
    using cmd_push_Pushed [OF assms(1,3-5)] assms(2) by auto
  obtain oid where oid: "g_rev_parse G (co_git co) (fst (split_refspec refspec)) = Some oid" "pa_material a = m"
    "bt_wf (pa_refs a)" "map_of (pa_refs a) = (map_of ?R0)(full_ref ?dst \<mapsto> oid)"
    "\<not> pa_non_ff a" "classify_ff (Some (g_dag G (co_git co))) ?R0 (pa_refs a) = Inr FastForward"
    by (rule decide_push_args [OF a]) simp
  obtain k tp plan where "plan_attempt P X RJ (push_keys_of M (rr_id r) (dv_repos dv (rr_id r))) (draws k)
      (a\<lparr>pa_window := DEFAULT_UPLOAD_WINDOW\<rparr>) now tp = Inr (plan, pr_head_accepted res, pr_refs res)"
    using push_bundle_planned [OF run] assms(6) oid(2) by metis
  then have "non_ff (pr_head_accepted res) = pa_non_ff a"
    by (auto simp: plan_attempt_def plan_push_reader_def rbind_Inr_conv split: prod.splits elim!: build_push_plan_shape)
  moreover have "ref_advances (Some (g_dag G (co_git co))) (full_ref ?dst) old oid" if "map_of ?R0 (full_ref ?dst) = Some old" for old
  proof -
    have "(full_ref ?dst, oid) \<in> set (pa_refs a)" using oid(3,4) by (simp add: bt_wf_Some_iff [symmetric])
    with oid(6) that show ?thesis
      by (auto simp: classify_ff_def classify_loop_FastForward_iff split: if_splits)
  qed
  ultimately show ?thesis using oid(1,5) assms(2) by (auto simp: push_target_def)
qed

text \<open>
  C10.  The command reads the refs once for its check and again, as the base of its merge, when it
  pushes.  Whatever other devices landed between the two reads is put back: every ref other than the
  target that they moved away from the value first read is in the new head with that old value,
  also when the push was classified as a fast-forward.
\<close>

theorem stale_push_reverts_branches:
  assumes "cmd_push P X RJ G M C draws gap env refspec force dv co s = (co', s', Inr (Pushed res))"
    and "co_repo co = Some r" and "load_epoch_material (dv_repos dv (rr_id r)) = Inr m"
    and "tip_of P X RJ C (draws 0) (rr_id r) m s = Inr (Some f)"
    and "rbind (hc_tip (rc_host C) (gap s)) (tip_refs P RJ (pd_dkr (draws 0)) (pd_dkr' (draws 0)) m) = Inr now"
    and "map_of (er_refs (fr_refs f)) k = Some v" and "map_of now k \<noteq> Some v" and "k \<noteq> push_target refspec"
    and "json_maps RJ"
  shows "map_of (er_refs (pr_refs res)) k = Some v"
proof -
  let ?spec = "case strip_prefix ''+'' refspec of Some rest \<Rightarrow> rest | None \<Rightarrow> refspec"
  obtain a where a: "decide_push G (co_git co) (rr_id r) m (fst (split_refspec ?spec)) (snd (split_refspec ?spec))
      (force \<or> strip_prefix ''+'' refspec \<noteq> None) (er_refs (fr_refs f)) = Inr (Some a)"
    and run: "push_bundle P X RJ (push_keys_of M (rr_id r) (dv_repos dv (rr_id r))) (rc_host C) draws env a (gap s) = (s', Inr res)"
    using cmd_push_Pushed [OF assms(1-4)] by auto
  obtain oid where oid: "pa_material a = m" "bt_wf (pa_refs a)"
    "map_of (pa_refs a) = (map_of (er_refs (fr_refs f)))(full_ref (snd (split_refspec ?spec)) \<mapsto> oid)"
    by (rule decide_push_args [OF a])
  obtain i tp plan where "plan_attempt P X RJ (push_keys_of M (rr_id r) (dv_repos dv (rr_id r))) (draws i)
      (a\<lparr>pa_window := DEFAULT_UPLOAD_WINDOW\<rparr>) now tp = Inr (plan, pr_head_accepted res, pr_refs res)"
    using push_bundle_planned [OF run] assms(5) oid(1) by metis
  from planned_refs [OF this _ assms(9), of k] oid(2,3) assms(6-8) show ?thesis
    by (auto simp: push_target_def)
qed

end
