(* ===== verification/Scenario.thy ===== *)
theory Scenario
  imports Checkout
begin

text \<open>
  A concrete run for the closed examples: lower-case hexadecimal, a table of ref maps for JSON, a git
  that records what it imports, and a host on which pushes of one bundle land one after the other.
\<close>

section \<open>Hexadecimal\<close>

definition hex_digit :: "nat \<Rightarrow> char" where
  "hex_digit n = (if n < 10 then char_of (48 + n) else char_of (87 + n))"

definition hex_val :: "char \<Rightarrow> nat option" where
  "hex_val c = (let n = of_char c :: nat in if 48 \<le> n \<and> n < 58 then Some (n - 48) else if 97 \<le> n \<and> n < 103 then Some (n - 87) else None)"

fun unhex :: "string \<Rightarrow> bytes option" where
  "unhex [] = Some []"
| "unhex [_] = None"
| "unhex (a # b # s) =
     (case (hex_val a, hex_val b, unhex s) of
        (Some x, Some y, Some r) \<Rightarrow> Some (of_nat (16 * x + y) # r)
      | _ \<Rightarrow> None)"

definition hex16 :: hex_codec where
  "hex16 = \<lparr>hex_encode = (\<lambda>b. concat (map (\<lambda>x. [hex_digit (unat x div 16), hex_digit (unat x mod 16)]) b)), hex_decode = unhex\<rparr>"

lemma hex_val_digit: "n < 16 \<Longrightarrow> hex_val (hex_digit n) = Some n"
  by (simp add: hex_val_def hex_digit_def)

lemma hex_digit_plain: "n < 16 \<Longrightarrow> \<not> is_ws (hex_digit n)"
  by (simp add: is_ws_def hex_digit_def)

lemma hex16_plain: "hex_plain hex16"
proof -
  have small: "unat (x :: u8) div 16 < 16" for x using unsigned_less [of x, where 'a = nat] by simp
  have "unhex (hex_encode hex16 b) = Some b" for b
    by (induction b) (simp_all add: hex16_def hex_val_digit small)
  moreover have "list_all (\<lambda>c. \<not> is_ws c) (hex_encode hex16 b)" for b
    by (induction b) (simp_all add: hex16_def hex_digit_plain small)
  ultimately show ?thesis by (simp add: hex_plain_def hex_roundtrips_def) (simp add: hex16_def)
qed

lemma hex16_roundtrips: "hex_roundtrips hex16"
  using hex16_plain by (simp add: hex_plain_def)

section \<open>Ref maps\<close>

text \<open>A table of at most 255 ref maps; the text of an entry is its number.\<close>

fun index_of :: "'a \<Rightarrow> 'a list \<Rightarrow> nat" where
  "index_of x [] = 0"
| "index_of x (y # ys) = (if x = y then 0 else Suc (index_of x ys))"

lemma index_of_nth: "x \<in> set ys \<Longrightarrow> index_of x ys < length ys \<and> ys ! index_of x ys = x"
  by (induction ys) auto

definition table_json :: "enc_refs_map list \<Rightarrow> refs_json" where
  "table_json T =
     \<lparr>to_json = (\<lambda>r. if r \<in> set T then Some [of_nat (index_of r T)] else None),
      from_json = (\<lambda>b. case b of [i] \<Rightarrow> if unat i < length T then Some (T ! unat i) else None | _ \<Rightarrow> None)\<rparr>"

lemma table_json_prints: "to_json (table_json T) r = Some b \<Longrightarrow> length b = 1"
  by (auto simp: table_json_def split: if_splits)

lemma table_json_roundtrip:
  assumes "length T \<le> 255" and "to_json (table_json T) r = Some b"
  shows "from_json (table_json T) b = Some r"
proof -
  have r: "r \<in> set T" "b = [of_nat (index_of r T)]" using assms(2) by (auto simp: table_json_def split: if_splits)
  then have "index_of r T < length T" "T ! index_of r T = r" using index_of_nth [of r T] by blast+
  then show ?thesis using assms(1) r(2) by (simp add: table_json_def unat_of_nat take_bit_nat_eq_self)
qed

lemma table_json_maps: "\<forall>r \<in> set T. bt_wf (er_refs r) \<Longrightarrow> json_maps (table_json T)"
  by (auto simp: json_maps_def table_json_def split: list.splits if_splits)

section \<open>Pushes that land\<close>

lemma demo16_inv: "http_inv demo_prims hex16 (demo_auth ''ann'') demo_repo demo_server []"
proof -
  have "repo_id_from_hex hex16 (id_to_hex hex16 demo_repo) = Inr demo_repo"
    by (simp add: repo_id_from_hex_def id_from_hex_to_hex [OF hex16_roundtrips])
  then have "gate hex16 (demo_auth ''ann'') (id_to_hex hex16 demo_repo) demo_server = Inr demo_repo"
    using demo_server_repo by (auto simp: gate_exact demo_server_access demo_auth_def)
  then show ?thesis by (simp add: http_inv_def demo_server_log)
qed

lemma demo16_blobs: "http_blobs demo_prims hex16 demo_parsers (\<lambda>_. []) (demo_auth ''ann'') demo_repo {c} demo_server"
proof -
  have "blobs (sv_store demo_server) i = None" for i
    by (simp add: demo_server_def create_repo_def repo_create_def server_open_def store_open_def save_members_def Let_def)
  then show ?thesis
    using demo16_inv by (simp add: http_blobs_def http_inv_def hex16_roundtrips demo_parsers_def)
qed

definition demo_pid :: string where
  "demo_pid = hex_encode hex16 (fix_len 16 (pd_push_id demo_draw))"

text \<open>The one chunk of the bundle \<open>[1, 2, 3]\<close>.\<close>

lemma demo_chunk:
  obtains c where "bundle_chunks_seek demo_prims hex16 (pd_nonces demo_draw) demo_repo demo_pid [1, 2, 3] (fix_len 32 (pd_dek demo_draw)) = Inr [c]"
proof -
  obtain cs where cs: "bundle_chunks_seek demo_prims hex16 (pd_nonces demo_draw) demo_repo demo_pid [1, 2, 3] (fix_len 32 (pd_dek demo_draw)) = Inr cs"
    unfolding bundle_chunks_seek_def Let_def using chunk_loop_ok by blast
  have "unat (chunk_total [1, 2, 3]) = 1" by (simp add: chunk_total_def div_ceil_def BUNDLE_CHUNK_SIZE_def)
  then have "\<exists>c. cs = [c]" using cs by (auto simp: bundle_chunks_seek_def Let_def rbind_Inr_conv)
  then show thesis using cs that by blast
qed

definition demo_refs :: "refs_map \<Rightarrow> string option \<Rightarrow> encrypted_chunk \<Rightarrow> enc_refs_map" where
  "demo_refs refs head c =
     \<lparr>er_refs = refs, er_head = head, er_push_id = demo_pid, er_chunk_ids = [id_to_hex hex16 (bm_id (ec_meta c))]\<rparr>"

definition demo_args :: "refs_map \<Rightarrow> string option \<Rightarrow> push_args" where
  "demo_args refs head =
     \<lparr>pa_repo = demo_repo, pa_bundle = [1, 2, 3], pa_refs = refs, pa_head = head, pa_material = demo_material, pa_non_ff = False,
      pa_window = DEFAULT_UPLOAD_WINDOW\<rparr>"

abbreviation demo_client16 :: "server_state repo_client" where
  "demo_client16 \<equiv> http_repo_client demo_prims (\<lambda>_. None) hex16 demo_parsers (\<lambda>_. []) (demo_auth ''ann'') demo_repo"

lemma demo_step:
  assumes chunk: "bundle_chunks_seek demo_prims hex16 (pd_nonces demo_draw) demo_repo demo_pid [1, 2, 3] (fix_len 32 (pd_dek demo_draw)) = Inr [c]"
    and inv: "http_inv demo_prims hex16 (demo_auth ''ann'') demo_repo sv l" and len: "length l + 1 < 2 ^ 64"
    and blobs: "http_blobs demo_prims hex16 demo_parsers (\<lambda>_. []) (demo_auth ''ann'') demo_repo {ec_ciphertext c} sv"
    and remote: "tip_refs demo_prims (table_json T) [] [] demo_material (if l = [] then None else Some (last l)) = Inr remote"
    and merged: "reconcile_refs_for_cas remote refs remote False = Inr merged"
    and T: "demo_refs merged head c \<in> set T" "length T \<le> 255"
  obtains h sv' where
    "push_bundle demo_prims hex16 (table_json T) demo_keys (rc_host demo_client16) (\<lambda>_. demo_draw) (\<lambda>_ _ s. s) (demo_args refs head) sv
       = (sv', Inr \<lparr>pr_head_accepted = h, pr_head_hash = ref_head_hash demo_prims h, pr_refs = demo_refs merged head c\<rparr>)"
    "http_inv demo_prims hex16 (demo_auth ''ann'') demo_repo sv' (l @ [h])"
    "http_blobs demo_prims hex16 demo_parsers (\<lambda>_. []) (demo_auth ''ann'') demo_repo {ec_ciphertext c} sv'"
    "\<And>get. get (bm_id (ec_meta c)) = Inr (ec_ciphertext c) \<Longrightarrow>
       fetch_head_bundle demo_prims hex16 (table_json T) get [] [] demo_repo demo_material h
         = Inr \<lparr>fr_head = h, fr_refs = demo_refs merged head c, fr_bundle = [1, 2, 3]\<rparr>"
    "http_get_blob hex16 (demo_auth ''ann'') demo_repo sv' (bm_id (ec_meta c)) = Inr (ec_ciphertext c)"
    "authentic demo_prims demo_material [] h" "seq h = of_nat (length l) + 1" "repo_id h = demo_repo"
proof -
  let ?t = "if l = [] then None else Some (last l)" and ?J = "table_json T"
  obtain prev sq where pos: "next_position demo_prims ?t = (prev, sq)" by fastforce
  have "\<exists>b. to_json ?J (demo_refs merged head c) = Some b" using T(1) by (simp add: table_json_def)
  then have "\<exists>plan h rm. build_push_plan demo_prims hex16 ?J demo_keys demo_draw demo_repo [1, 2, 3] merged head demo_material prev sq False False
      = Inr (plan, h, rm)"
    using chunk by (intro build_push_plan_unsigned_ok [OF demo_epoch_key]) (auto simp: demo_refs_def demo_pid_def)
  then obtain plan h rm where b:
    "build_push_plan demo_prims hex16 ?J demo_keys demo_draw demo_repo [1, 2, 3] merged head demo_material prev sq False False = Inr (plan, h, rm)"
    by blast
  have "pp_chunks plan = [c]"
    using chunk by (rule_tac build_push_plan_shape [OF b]) (simp add: demo_pid_def)
  then have shape: "pp_chunks plan = [c]" "rm = demo_refs merged head c" "seq h = sq" "repo_id h = demo_repo" "authentic demo_prims demo_material [] h"
    by (rule_tac [!] build_push_plan_shape [OF b])
      (simp_all add: demo_refs_def demo_pid_def authentic_def demo_material_def exported_def refs_mac_at_def)
  let ?a = "(demo_args refs head)\<lparr>pa_window := DEFAULT_UPLOAD_WINDOW\<rparr>"
  have facts: "pd_dkr demo_draw = []" "pd_dkr' demo_draw = []" "\<not> pk_durable demo_keys" "hex_encode hex16 (fix_len 16 (pd_push_id demo_draw)) \<noteq> []"
    by (simp_all add: demo_draw_def demo_keys_def hex16_def fix_len_def)
  have p: "plan_attempt demo_prims hex16 ?J demo_keys demo_draw ?a remote ?t = Inr (plan, h, rm)"
    using b merged remote by (simp add: plan_attempt_def pos demo_args_def plan_push_reader_def facts)
  have "storable demo_repo h"
    using plan_attempt_storable [OF p] table_json_prints by (fastforce simp: demo_args_def facts)
  moreover have "gate hex16 (demo_auth ''ann'') (id_to_hex hex16 demo_repo) sv = Inr demo_repo" using inv by (simp add: http_inv_def)
  ultimately obtain sv' where
    run: "push_loop demo_prims hex16 ?J demo_keys (client_host demo_prims (\<lambda>_. None) hex16 demo_parsers (\<lambda>_. []) (demo_auth ''ann'') demo_repo)
        (\<lambda>_. demo_draw) (\<lambda>_ _ s. s) ?a remote DEFAULT_CAS_RETRIES 0 sv
      = (sv', Inr \<lparr>pr_head_accepted = h, pr_head_hash = ref_head_hash demo_prims h, pr_refs = rm\<rparr>)"
    and inv': "http_inv demo_prims hex16 (demo_auth ''ann'') demo_repo sv' (l @ [h])"
    and read: "\<forall>c \<in> set (pp_chunks plan). http_get_blob hex16 (demo_auth ''ann'') demo_repo sv' (bm_id (ec_meta c)) = Inr (ec_ciphertext c)"
    and blobs': "http_blobs demo_prims hex16 demo_parsers (\<lambda>_. []) (demo_auth ''ann'') demo_repo {ec_ciphertext c} sv'"
    using push_lands [where J = "\<lambda>_. None" and draws = "\<lambda>_. demo_draw" and n = 0 and r = DEFAULT_CAS_RETRIES, OF inv len blobs p] shape(1) by auto
  have "hc_tip (client_host demo_prims (\<lambda>_. None) hex16 demo_parsers (\<lambda>_. []) (demo_auth ''ann'') demo_repo) sv = Inr ?t"
    using http_host.tip_law [OF inv, of "\<lambda>_. None"] by (simp add: client_host_def)
  moreover have "pa_material ?a = demo_material" by (simp add: demo_args_def)
  ultimately have "push_bundle demo_prims hex16 ?J demo_keys (rc_host demo_client16) (\<lambda>_. demo_draw) (\<lambda>_ _ s. s) (demo_args refs head) sv
      = (sv', Inr \<lparr>pr_head_accepted = h, pr_head_hash = ref_head_hash demo_prims h, pr_refs = rm\<rparr>)"
    using run remote by (simp add: push_bundle_def push_bundle_with_retries_def http_repo_client_def facts)
  moreover have "fetch_head_bundle demo_prims hex16 ?J get [] [] demo_repo demo_material h
      = Inr \<lparr>fr_head = h, fr_refs = rm, fr_bundle = [1, 2, 3]\<rparr>" if "get (bm_id (ec_meta c)) = Inr (ec_ciphertext c)" for get
  proof -
    have "bundle_fits [1, 2, 3]" by (simp add: bundle_fits_def BUNDLE_CHUNK_SIZE_def)
    moreover have "\<forall>b. to_json ?J rm = Some b \<longrightarrow> from_json ?J b = Some rm" using table_json_roundtrip [OF T(2)] by blast
    moreover have "epoch_key_at demo_prims [] [] demo_material (em_epoch demo_material) = epoch_key demo_prims (pd_dkr demo_draw) (pd_dkr' demo_draw) demo_material"
      by (simp add: epoch_key_def facts)
    ultimately show ?thesis using planned_bundle_opens [OF b _ hex16_roundtrips facts(4)] that shape(1) by simp
  qed
  moreover have "http_get_blob hex16 (demo_auth ''ann'') demo_repo sv' (bm_id (ec_meta c)) = Inr (ec_ciphertext c)"
    using read shape(1) by simp
  moreover have "sq = of_nat (length l) + 1" using http_host.next_position_log [OF inv] pos by simp
  ultimately show thesis using that inv' blobs' shape(2-5) by simp
qed

section \<open>A device, a checkout, a git\<close>

definition demo_git :: "bytes list git_ops" where
  "demo_git =
     \<lparr>g_rev_parse = (\<lambda>_ _. Some ''2''), g_has_commit = (\<lambda>_ _. False),
      g_dag = (\<lambda>_. \<lparr>cat_file = (\<lambda>_. True), merge_base = (\<lambda>_ _. Some True)\<rparr>),
      g_bundle_create = (\<lambda>_ _ _. Some [1, 2, 3]), g_index_pack = (\<lambda>_ g. (g, False)),
      g_list_heads = (\<lambda>_ _. Some ''2 refs/heads/dev''), g_fetch = (\<lambda>b _ g. (g @ [b], True)), g_update_ref = (\<lambda>_ _ g. g),
      g_is_ancestor = (\<lambda>_ _ _. True), g_merge_ff_only = (\<lambda>_ g. (g, True)), g_merge = (\<lambda>_ g. (g, True)),
      g_rebase = (\<lambda>_ g. (g, True)), g_init = (\<lambda>_. Some []), g_remote_add = (\<lambda>_ g. (g, True)),
      g_object_format = (\<lambda>_. ''sha1''), g_checkout_main = (\<lambda>_ g. (g, True)), g_multi_pack_index = (\<lambda>g. g)\<rparr>"

definition demo_record :: repo_record where
  "demo_record = \<lparr>rr_id = demo_repo, rr_name = \<lparr>rn_owner = ''ann'', rn_name = ''r''\<rparr>, rr_created_by = ''ann'', rr_private = True,
     rr_archived = False, rr_deleted = False, rr_description = None\<rparr>"

definition demo_dev :: device where
  "demo_dev = \<lparr>dv_repos = (\<lambda>_. empty_dir\<lparr>rd_epoch := Some demo_material\<rparr>), dv_labels = (\<lambda>_. demo_bob)\<rparr>"

lemma demo_dev_facts:
  "load_epoch_material (dv_repos demo_dev i) = Inr demo_material" "push_keys_of demo_openmls i (dv_repos demo_dev i) = demo_keys"
  "leaf_vks_of demo_keys = []" "rr_id demo_record = demo_repo" "pd_dkr demo_draw = []" "pd_dkr' demo_draw = []"
  by (simp_all add: demo_dev_def empty_dir_def load_epoch_material_def push_keys_of_def load_persisted_group_def result_ok_def
      has_durable_group_def demo_keys_def leaf_vks_of_def demo_record_def demo_draw_def)

lemma demo_not_ref_only: "\<not> is_ref_only_bundle [1, 2, 3]"
  by (simp add: is_ref_only_bundle_def REF_ONLY_BUNDLE_def str_bytes_def)

lemma demo_import: "import_bundle_objects demo_git [1, 2, 3] g = (g @ [[1, 2, 3]], True)"
proof -
  have "bundle_pack_offset [1, 2, 3] = None"
    by (simp add: bundle_pack_offset_def pack_offset.simps [of 0 "[1, 2, 3]"])
  moreover have "import_refspecs (lines_of ''2 refs/heads/dev'') \<noteq> []"
    by (simp add: lines_of.simps is_ws_def trim_def Let_def)
  ultimately show ?thesis
    by (simp add: import_bundle_objects_def import_bundle_via_fetch_def demo_git_def Let_def)
qed

definition demo_checkout :: "bytes list checkout" where
  "demo_checkout = \<lparr>co_repo = Some demo_record, co_seq_file = None, co_head_file = None, co_git = []\<rparr>"

abbreviation main_at :: "oid \<Rightarrow> refs_map" where
  "main_at v \<equiv> [(''refs/heads/main'', v)]"

abbreviation dev_and_main :: refs_map where
  "dev_and_main \<equiv> [(''refs/heads/dev'', ''2''), (''refs/heads/main'', ''1'')]"

abbreviation dev_head :: "string option" where
  "dev_head \<equiv> Some ''ref: refs/heads/dev''"

lemma demo_decide:
  "decide_push demo_git g demo_repo demo_material ''dev'' ''refs/heads/dev'' False (main_at ''1'') = Inr (Some (demo_args dev_and_main dev_head))"
  by (simp add: decide_push_def demo_git_def build_bundle_and_refs_def full_ref_def starts_with_def or_insert_all_def
      classify_non_ff_def classify_ff_def is_non_ff_def demo_args_def Let_def)

lemma demo_spec:
  "strip_prefix ''+'' ''dev'' = None" "split_refspec ''dev'' = (''dev'', ''refs/heads/dev'')" "push_target ''dev'' = ''refs/heads/dev''"
  by (simp_all add: strip_prefix_def split_refspec_def starts_with_def push_target_def full_ref_def)

definition demo_table :: "encrypted_chunk \<Rightarrow> refs_json" where
  "demo_table c = table_json [demo_refs (main_at ''1'') None c, demo_refs dev_and_main dev_head c, demo_refs (main_at ''3'') None c]"

lemma demo_table_maps: "json_maps (demo_table c)"
  unfolding demo_table_def by (rule table_json_maps) (simp add: demo_refs_def)

lemma opened_refs: "fetch_head_bundle P X J get rng rng' repo m h = Inr res \<Longrightarrow>
    tip_refs P J rng rng' m (Some h) = Inr (er_refs (fr_refs res))"
  by (auto simp: fetch_head_bundle_def tip_refs_def rbind_Inr_conv split: if_splits)

lemma demo_cmd_push:
  assumes "fetch_head_bundle demo_prims hex16 RJ (http_get_blob hex16 (demo_auth ''ann'') demo_repo s) [] [] demo_repo demo_material h = Inr f"
    and "http_inv demo_prims hex16 (demo_auth ''ann'') demo_repo s (l @ [h])" and "er_refs (fr_refs f) = main_at ''1''"
    and "push_bundle demo_prims hex16 RJ demo_keys (rc_host demo_client16) (\<lambda>_. demo_draw) (\<lambda>_ _ s. s) (demo_args dev_and_main dev_head) (gap s)
      = (s', Inr res)" and "co_repo co = Some demo_record"
  shows "tip_of demo_prims hex16 RJ demo_client16 demo_draw demo_repo demo_material s = Inr (Some f) \<and>
    cmd_push demo_prims hex16 RJ demo_git demo_openmls demo_client16 (\<lambda>_. demo_draw) gap (\<lambda>_ _ s. s) ''dev'' False demo_dev co s
      = (record_applied_through hex16 (seq (pr_head_accepted res)) (pr_head_hash res) co, s', Inr (Pushed res))"
proof -
  have "hc_tip (rc_host demo_client16) s = Inr (Some h)"
    using http_host.tip_law [OF assms(2), of "\<lambda>_. None"] by (simp add: http_repo_client_def client_host_def)
  then have "tip_of demo_prims hex16 RJ demo_client16 demo_draw demo_repo demo_material s = Inr (Some f)"
    using assms(1) by (simp add: tip_of_def fetch_tip_def http_repo_client_def demo_dev_facts)
  then show ?thesis
    using assms(3-5)
    by (simp add: cmd_push_def load_local_repo_def demo_dev_facts demo_spec demo_decide)
qed

text \<open>
  The story: somebody pushed \<open>main\<close> at 1 (\<open>h1\<close>, state \<open>s1\<close>); a push of \<open>dev\<close> follows (\<open>h2\<close>, \<open>s2\<close>), or first
  another device moves \<open>main\<close> to 3 (\<open>hm\<close>, \<open>sm\<close>) and then the push of \<open>dev\<close> lands (\<open>h3\<close>, \<open>s3\<close>).
\<close>

lemma demo_story:
  obtains c h1 s1 h2 s2 hm sm h3 s3 where
    "http_inv demo_prims hex16 (demo_auth ''ann'') demo_repo s1 [h1]"
    "fetch_head_bundle demo_prims hex16 (demo_table c) (http_get_blob hex16 (demo_auth ''ann'') demo_repo s1) [] [] demo_repo demo_material h1
       = Inr \<lparr>fr_head = h1, fr_refs = demo_refs (main_at ''1'') None c, fr_bundle = [1, 2, 3]\<rparr>"
    "authentic demo_prims demo_material [] h1" "seq h1 = 1" "repo_id h1 = demo_repo"
    "push_bundle demo_prims hex16 (demo_table c) demo_keys (rc_host demo_client16) (\<lambda>_. demo_draw) (\<lambda>_ _ s. s) (demo_args dev_and_main dev_head) s1
       = (s2, Inr \<lparr>pr_head_accepted = h2, pr_head_hash = ref_head_hash demo_prims h2, pr_refs = demo_refs dev_and_main dev_head c\<rparr>)"
    "http_inv demo_prims hex16 (demo_auth ''ann'') demo_repo s2 [h1, h2]"
    "fetch_head_bundle demo_prims hex16 (demo_table c) (http_get_blob hex16 (demo_auth ''ann'') demo_repo s2) [] [] demo_repo demo_material h2
       = Inr \<lparr>fr_head = h2, fr_refs = demo_refs dev_and_main dev_head c, fr_bundle = [1, 2, 3]\<rparr>"
    "authentic demo_prims demo_material [] h2" "seq h2 = 2" "repo_id h2 = demo_repo"
    "fetch_head_bundle demo_prims hex16 (demo_table c) (http_get_blob hex16 (demo_auth ''ann'') demo_repo s2) [] [] demo_repo demo_material h1
       = Inr \<lparr>fr_head = h1, fr_refs = demo_refs (main_at ''1'') None c, fr_bundle = [1, 2, 3]\<rparr>"
    "http_inv demo_prims hex16 (demo_auth ''ann'') demo_repo sm [h1, hm]"
    "tip_refs demo_prims (demo_table c) [] [] demo_material (Some hm) = Inr (main_at ''3'')"
    "push_bundle demo_prims hex16 (demo_table c) demo_keys (rc_host demo_client16) (\<lambda>_. demo_draw) (\<lambda>_ _ s. s) (demo_args dev_and_main dev_head) sm
       = (s3, Inr \<lparr>pr_head_accepted = h3, pr_head_hash = ref_head_hash demo_prims h3, pr_refs = demo_refs dev_and_main dev_head c\<rparr>)"
    "http_inv demo_prims hex16 (demo_auth ''ann'') demo_repo s3 [h1, hm, h3]"
proof -
  obtain c where c: "bundle_chunks_seek demo_prims hex16 (pd_nonces demo_draw) demo_repo demo_pid [1, 2, 3] (fix_len 32 (pd_dek demo_draw)) = Inr [c]"
    by (rule demo_chunk)
  define T where "T = [demo_refs (main_at ''1'') None c, demo_refs dev_and_main dev_head c, demo_refs (main_at ''3'') None c]"
  have T: "demo_table c = table_json T" by (simp add: T_def demo_table_def)
  have rec: "reconcile_refs_for_cas [] (main_at ''1'') [] False = Inr (main_at ''1'')"
    "reconcile_refs_for_cas (main_at ''1'') dev_and_main (main_at ''1'') False = Inr dev_and_main"
    "reconcile_refs_for_cas (main_at ''1'') (main_at ''3'') (main_at ''1'') False = Inr (main_at ''3'')"
    "reconcile_refs_for_cas (main_at ''3'') dev_and_main (main_at ''3'') False = Inr dev_and_main"
    by (simp_all add: reconcile_refs_for_cas_def intended_updates_def moved_under_def Let_def)
  obtain h1 s1 where 1:
    "http_inv demo_prims hex16 (demo_auth ''ann'') demo_repo s1 [h1]"
    "http_blobs demo_prims hex16 demo_parsers (\<lambda>_. []) (demo_auth ''ann'') demo_repo {ec_ciphertext c} s1"
    "\<And>get. get (bm_id (ec_meta c)) = Inr (ec_ciphertext c) \<Longrightarrow>
       fetch_head_bundle demo_prims hex16 (table_json T) get [] [] demo_repo demo_material h1
         = Inr \<lparr>fr_head = h1, fr_refs = demo_refs (main_at ''1'') None c, fr_bundle = [1, 2, 3]\<rparr>"
    "http_get_blob hex16 (demo_auth ''ann'') demo_repo s1 (bm_id (ec_meta c)) = Inr (ec_ciphertext c)"
    "authentic demo_prims demo_material [] h1" "seq h1 = 1" "repo_id h1 = demo_repo"
    by (rule demo_step [OF c demo16_inv _ demo16_blobs _ rec(1), of T None]) (rule that | assumption | simp add: T_def tip_refs_def)+
  have t1: "tip_refs demo_prims (table_json T) [] [] demo_material (if [h1] = [] then None else Some (last [h1])) = Inr (main_at ''1'')"
    using opened_refs [OF 1(3), of "\<lambda>_. Inr (ec_ciphertext c)"] by (simp add: demo_refs_def)
  obtain h2 s2 where 2:
    "push_bundle demo_prims hex16 (table_json T) demo_keys (rc_host demo_client16) (\<lambda>_. demo_draw) (\<lambda>_ _ s. s) (demo_args dev_and_main dev_head) s1
       = (s2, Inr \<lparr>pr_head_accepted = h2, pr_head_hash = ref_head_hash demo_prims h2, pr_refs = demo_refs dev_and_main dev_head c\<rparr>)"
    "http_inv demo_prims hex16 (demo_auth ''ann'') demo_repo s2 [h1, h2]"
    "\<And>get. get (bm_id (ec_meta c)) = Inr (ec_ciphertext c) \<Longrightarrow>
       fetch_head_bundle demo_prims hex16 (table_json T) get [] [] demo_repo demo_material h2
         = Inr \<lparr>fr_head = h2, fr_refs = demo_refs dev_and_main dev_head c, fr_bundle = [1, 2, 3]\<rparr>"
    "http_get_blob hex16 (demo_auth ''ann'') demo_repo s2 (bm_id (ec_meta c)) = Inr (ec_ciphertext c)"
    "authentic demo_prims demo_material [] h2" "seq h2 = 2" "repo_id h2 = demo_repo"
    by (rule demo_step [OF c 1(1) _ 1(2) t1 rec(2), of dev_head]) (rule that | assumption | simp add: T_def)+
  obtain hm sm where m:
    "http_inv demo_prims hex16 (demo_auth ''ann'') demo_repo sm [h1, hm]"
    "http_blobs demo_prims hex16 demo_parsers (\<lambda>_. []) (demo_auth ''ann'') demo_repo {ec_ciphertext c} sm"
    "\<And>get. get (bm_id (ec_meta c)) = Inr (ec_ciphertext c) \<Longrightarrow>
       fetch_head_bundle demo_prims hex16 (table_json T) get [] [] demo_repo demo_material hm
         = Inr \<lparr>fr_head = hm, fr_refs = demo_refs (main_at ''3'') None c, fr_bundle = [1, 2, 3]\<rparr>"
    "http_get_blob hex16 (demo_auth ''ann'') demo_repo sm (bm_id (ec_meta c)) = Inr (ec_ciphertext c)"
    by (rule demo_step [OF c 1(1) _ 1(2) t1 rec(3), of None]) (rule that | assumption | simp add: T_def)+
  have tm: "tip_refs demo_prims (table_json T) [] [] demo_material (if [h1, hm] = [] then None else Some (last [h1, hm])) = Inr (main_at ''3'')"
    using opened_refs [OF m(3), of "\<lambda>_. Inr (ec_ciphertext c)"] by (simp add: demo_refs_def)
  obtain h3 s3 where
    "push_bundle demo_prims hex16 (table_json T) demo_keys (rc_host demo_client16) (\<lambda>_. demo_draw) (\<lambda>_ _ s. s) (demo_args dev_and_main dev_head) sm
       = (s3, Inr \<lparr>pr_head_accepted = h3, pr_head_hash = ref_head_hash demo_prims h3, pr_refs = demo_refs dev_and_main dev_head c\<rparr>)"
    "http_inv demo_prims hex16 (demo_auth ''ann'') demo_repo s3 [h1, hm, h3]"
    by (rule demo_step [OF c m(1) _ m(2) tm rec(4), of dev_head]) (rule that | assumption | simp add: T_def)+
  moreover note fetched = 1(3) [of "http_get_blob hex16 (demo_auth ''ann'') demo_repo s1", OF 1(4)]
    2(3) [of "http_get_blob hex16 (demo_auth ''ann'') demo_repo s2", OF 2(4)]
    1(3) [of "http_get_blob hex16 (demo_auth ''ann'') demo_repo s2", OF 2(4)]
  ultimately show thesis
    using that [where c = c, unfolded T, OF 1(1) fetched(1) 1(5-7) 2(1,2) fetched(2) 2(5-7) fetched(3) m(1)] tm by simp
qed

section \<open>Closed examples for the commands\<close>

lemma unforced_push_advances_witness:
  "\<exists>RJ s s' co' res. cmd_push demo_prims hex16 RJ demo_git demo_openmls demo_client16 (\<lambda>_. demo_draw) (\<lambda>s. s) (\<lambda>_ _ s. s) ''dev'' False
      demo_dev demo_checkout s = (co', s', Inr (Pushed res)) \<and> \<not> non_ff (pr_head_accepted res)"
proof -
  obtain c h1 s1 h2 s2 hm sm h3 s3 where story:
    "http_inv demo_prims hex16 (demo_auth ''ann'') demo_repo s1 [h1]"
    "fetch_head_bundle demo_prims hex16 (demo_table c) (http_get_blob hex16 (demo_auth ''ann'') demo_repo s1) [] [] demo_repo demo_material h1
       = Inr \<lparr>fr_head = h1, fr_refs = demo_refs (main_at ''1'') None c, fr_bundle = [1, 2, 3]\<rparr>"
    "push_bundle demo_prims hex16 (demo_table c) demo_keys (rc_host demo_client16) (\<lambda>_. demo_draw) (\<lambda>_ _ s. s) (demo_args dev_and_main dev_head) s1
       = (s2, Inr \<lparr>pr_head_accepted = h2, pr_head_hash = ref_head_hash demo_prims h2, pr_refs = demo_refs dev_and_main dev_head c\<rparr>)"
    by (rule demo_story) blast
  have co: "co_repo demo_checkout = Some demo_record" by (simp add: demo_checkout_def)
  have "er_refs (fr_refs \<lparr>fr_head = h1, fr_refs = demo_refs (main_at ''1'') None c, fr_bundle = [1, 2, 3]\<rparr>) = main_at ''1''"
    by (simp add: demo_refs_def)
  note push = demo_cmd_push [where gap = "\<lambda>s. s" and l = "[]" and co = demo_checkout, OF story(2) _ this story(3) co]
  note run = push [THEN conjunct2] and tip = push [THEN conjunct1]
  have inv: "http_inv demo_prims hex16 (demo_auth ''ann'') demo_repo s1 ([] @ [h1])" using story(1) by simp
  have "hc_tip (rc_host demo_client16) s1 = Inr (Some h1)"
    using http_host.tip_law [OF story(1), of "\<lambda>_. None"] by (simp add: http_repo_client_def client_host_def)
  then have "rbind (hc_tip (rc_host demo_client16) s1) (tip_refs demo_prims (demo_table c) (pd_dkr demo_draw) (pd_dkr' demo_draw) demo_material) = Inr (main_at ''1'')"
    using opened_refs [OF story(2)] by (simp add: demo_refs_def demo_dev_facts)
  from unforced_push_advances [where m = demo_material, OF run [OF inv] demo_spec(1) co _ _ this] tip [OF inv]
  have "\<not> non_ff h2" by (simp add: demo_dev_facts)
  with run [OF inv] show ?thesis
    by (intro exI [of _ "demo_table c"] exI [of _ s1] exI [of _ s2] exI conjI) (assumption | simp)+
qed

lemma stale_push_reverts_branches_witness:
  "\<exists>RJ gap s s' co' res now. cmd_push demo_prims hex16 RJ demo_git demo_openmls demo_client16 (\<lambda>_. demo_draw) gap (\<lambda>_ _ s. s) ''dev'' False
      demo_dev demo_checkout s = (co', s', Inr (Pushed res)) \<and>
    rbind (hc_tip (rc_host demo_client16) (gap s)) (tip_refs demo_prims RJ [] [] demo_material) = Inr now \<and>
    map_of now ''refs/heads/main'' = Some ''3'' \<and> map_of (er_refs (pr_refs res)) ''refs/heads/main'' = Some ''1''"
proof -
  obtain c h1 s1 h2 s2 hm sm h3 s3 where story:
    "http_inv demo_prims hex16 (demo_auth ''ann'') demo_repo s1 [h1]"
    "fetch_head_bundle demo_prims hex16 (demo_table c) (http_get_blob hex16 (demo_auth ''ann'') demo_repo s1) [] [] demo_repo demo_material h1
       = Inr \<lparr>fr_head = h1, fr_refs = demo_refs (main_at ''1'') None c, fr_bundle = [1, 2, 3]\<rparr>"
    "http_inv demo_prims hex16 (demo_auth ''ann'') demo_repo sm [h1, hm]"
    "tip_refs demo_prims (demo_table c) [] [] demo_material (Some hm) = Inr (main_at ''3'')"
    "push_bundle demo_prims hex16 (demo_table c) demo_keys (rc_host demo_client16) (\<lambda>_. demo_draw) (\<lambda>_ _ s. s) (demo_args dev_and_main dev_head) sm
       = (s3, Inr \<lparr>pr_head_accepted = h3, pr_head_hash = ref_head_hash demo_prims h3, pr_refs = demo_refs dev_and_main dev_head c\<rparr>)"
    by (rule demo_story) blast
  have co: "co_repo demo_checkout = Some demo_record" by (simp add: demo_checkout_def)
  have refs: "er_refs (fr_refs \<lparr>fr_head = h1, fr_refs = demo_refs (main_at ''1'') None c, fr_bundle = [1, 2, 3]\<rparr>) = main_at ''1''"
    by (simp add: demo_refs_def)
  have inv: "http_inv demo_prims hex16 (demo_auth ''ann'') demo_repo s1 ([] @ [h1])" using story(1) by simp
  note push = demo_cmd_push [where gap = "\<lambda>_. sm" and co = demo_checkout, OF story(2) inv refs story(5) co]
  have "hc_tip (rc_host demo_client16) sm = Inr (Some hm)"
    using http_host.tip_law [OF story(3), of "\<lambda>_. None"] by (simp add: http_repo_client_def client_host_def)
  then have now: "rbind (hc_tip (rc_host demo_client16) sm) (tip_refs demo_prims (demo_table c) [] [] demo_material) = Inr (main_at ''3'')"
    using story(4) by simp
  have "map_of (er_refs (demo_refs dev_and_main dev_head c)) ''refs/heads/main'' = Some ''1''"
    using stale_push_reverts_branches [where m = demo_material and k = "''refs/heads/main''" and v = "''1''" and now = "main_at ''3''", OF push [THEN conjunct2] co] push [THEN conjunct1] now
    by (simp add: demo_dev_facts demo_spec demo_table_maps demo_refs_def)
  with push [THEN conjunct2] now show ?thesis
    by (intro exI [of _ "demo_table c"] exI [of _ "\<lambda>_. sm"] exI [of _ s1] exI [of _ s3] exI conjI) (assumption | simp)+
qed

text \<open>A checkout that stands at the first of two heads.\<close>

definition checkout_at :: "ref_head \<Rightarrow> bytes list checkout" where
  "checkout_at h = record_applied_seq hex16 (seq h) (ref_head_hash demo_prims h) demo_checkout"

lemma checkout_at_facts: "co_repo (checkout_at h) = Some demo_record" "marks demo_prims hex16 (checkout_at h) h"
  by (simp_all add: checkout_at_def record_applied_seq_def demo_checkout_def marks_def)

lemma log_shape_first: "log_shape P [h1, h2] \<Longrightarrow> log_shape P [h1]"
  by (auto simp: log_shape_def less_Suc_eq)

lemma pull_catches_up_witness:
  "\<exists>RJ s h1 h2 co2. fetch_merge demo_prims hex16 RJ demo_git demo_openmls demo_client16 demo_draw False False demo_dev (checkout_at h1) s = (co2, Inr ()) \<and>
     stands_at demo_prims hex16 co2 [h1, h2] \<and> co_git co2 = [[1, 2, 3]]"
proof -
  obtain c h1 s1 h2 s2 hm sm h3 s3 where story:
    "http_inv demo_prims hex16 (demo_auth ''ann'') demo_repo s2 [h1, h2]"
    "fetch_head_bundle demo_prims hex16 (demo_table c) (http_get_blob hex16 (demo_auth ''ann'') demo_repo s2) [] [] demo_repo demo_material h2
       = Inr \<lparr>fr_head = h2, fr_refs = demo_refs dev_and_main dev_head c, fr_bundle = [1, 2, 3]\<rparr>"
    "authentic demo_prims demo_material [] h2"
    by (rule demo_story) blast
  let ?f = "\<lparr>fr_head = h2, fr_refs = demo_refs dev_and_main dev_head c, fr_bundle = [1, 2, 3]\<rparr>"
  have shape: "log_shape demo_prims [h1, h2]" using story(1) by (simp add: http_inv_def head_log_inv_def Let_def)
  have at: "stands_at demo_prims hex16 (checkout_at h1) (take 1 [h1, h2])"
    using marks_stands [OF _ _ log_shape_first [OF shape] hex16_plain, of "checkout_at h1"] by (simp add: checkout_at_facts)
  have co: "co_repo (checkout_at h1) = Some demo_record" by (rule checkout_at_facts)
  obtain co1 where apply_: "apply_batch demo_prims hex16 demo_git (map (\<lambda>_. ?f) (drop 1 [h1, h2])) (checkout_at h1) = (co1, Inr ())"
    "co_git co1 = [[1, 2, 3]]"
    by (simp add: demo_not_ref_only demo_import record_applied_seq_def checkout_at_def demo_checkout_def)
  have id: "rr_id demo_record = demo_repo" "em_history_from demo_material = 0" by (simp_all add: demo_dev_facts demo_material_fields)
  have "\<exists>co2. fetch_merge demo_prims hex16 (demo_table c) demo_git demo_openmls demo_client16 demo_draw False False demo_dev (checkout_at h1) s2 = (co2, Inr ()) \<and>
      stands_at demo_prims hex16 co2 [h1, h2] \<and> co_git co2 = track_tip demo_git (er_refs (fr_refs ?f)) (co_git co1)"
    using pull_catches_up [where n = 1 and m = demo_material and b = "\<lambda>_. ?f" and r = demo_record and J = "\<lambda>_. None"
        and B = demo_parsers and show_meta = "\<lambda>_. []" and M = demo_openmls and dv = demo_dev and dr = demo_draw and RJ = "demo_table c",
        OF _ _ at co _ id(2) _ _ apply_(1) hex16_plain] story
    unfolding id(1) by (simp add: demo_dev_facts) blast
  moreover have "track_tip demo_git refs g = g" for refs g
    by (induction refs) (simp_all add: track_tip_def demo_git_def case_prod_beta)
  ultimately show ?thesis using apply_(2) by metis
qed

lemma push_marks_unseen_applied_witness:
  "\<exists>RJ s h1 co' s' res. cmd_push demo_prims hex16 RJ demo_git demo_openmls demo_client16 (\<lambda>_. demo_draw) (\<lambda>s. s) (\<lambda>_ _ s. s) ''dev'' False
      demo_dev demo_checkout s = (co', s', Inr (Pushed res)) \<and>
    http_inv demo_prims hex16 (demo_auth ''ann'') demo_repo s' [h1, pr_head_accepted res] \<and> co_git co' = [] \<and>
    fetch_merge demo_prims hex16 RJ demo_git demo_openmls demo_client16 demo_draw True False demo_dev co' s' = (co', Inr ())"
proof -
  obtain c h1 s1 h2 s2 hm sm h3 s3 where story:
    "http_inv demo_prims hex16 (demo_auth ''ann'') demo_repo s1 [h1]"
    "fetch_head_bundle demo_prims hex16 (demo_table c) (http_get_blob hex16 (demo_auth ''ann'') demo_repo s1) [] [] demo_repo demo_material h1
       = Inr \<lparr>fr_head = h1, fr_refs = demo_refs (main_at ''1'') None c, fr_bundle = [1, 2, 3]\<rparr>"
    "push_bundle demo_prims hex16 (demo_table c) demo_keys (rc_host demo_client16) (\<lambda>_. demo_draw) (\<lambda>_ _ s. s) (demo_args dev_and_main dev_head) s1
       = (s2, Inr \<lparr>pr_head_accepted = h2, pr_head_hash = ref_head_hash demo_prims h2, pr_refs = demo_refs dev_and_main dev_head c\<rparr>)"
    "http_inv demo_prims hex16 (demo_auth ''ann'') demo_repo s2 [h1, h2]"
    by (rule demo_story) blast
  let ?res = "\<lparr>pr_head_accepted = h2, pr_head_hash = ref_head_hash demo_prims h2, pr_refs = demo_refs dev_and_main dev_head c\<rparr>"
  have co: "co_repo demo_checkout = Some demo_record" by (simp add: demo_checkout_def)
  have refs: "er_refs (fr_refs \<lparr>fr_head = h1, fr_refs = demo_refs (main_at ''1'') None c, fr_bundle = [1, 2, 3]\<rparr>) = main_at ''1''"
    by (simp add: demo_refs_def)
  have inv: "http_inv demo_prims hex16 (demo_auth ''ann'') demo_repo s1 ([] @ [h1])" using story(1) by simp
  note run = demo_cmd_push [where gap = "\<lambda>s. s" and co = demo_checkout, OF story(2) inv refs story(3) co, THEN conjunct2]
  have inv2: "http_inv demo_prims hex16 (demo_auth ''ann'') demo_repo s2 ([h1] @ [pr_head_accepted ?res])" using story(4) by simp
  have id: "rr_id demo_record = demo_repo" by (simp add: demo_dev_facts)
  have m: "load_epoch_material (dv_repos demo_dev demo_repo) = Inr demo_material" "em_history_from demo_material = 0"
    by (simp_all add: demo_dev_facts demo_material_fields)
  note claim = push_marks_unseen_applied [where r = demo_record, unfolded id, OF run inv2 _ co m hex16_plain, of demo_draw True False]
  have "co_git demo_checkout = []" by (simp add: demo_checkout_def)
  with claim run inv2 show ?thesis
    by (intro exI [of _ "demo_table c"] exI [of _ s1] exI [of _ h1] exI [of _ s2] exI conjI) (assumption | simp)+
qed

section \<open>Clones and pulls\<close>

lemma demo_fresh: "fresh_git demo_git fmt remote = Inr []"
  by (simp add: fresh_git_def demo_git_def)

lemma demo_clone:
  assumes "fetch_batch demo_prims hex16 RJ demo_client16 demo_draw demo_keys demo_repo demo_material 0 (Some head_hash_zero) s = Inr batch"
    and "batch \<noteq> []" and "\<forall>f \<in> set batch. fr_bundle f = [1, 2, 3]"
  shows "\<exists>co. cmd_clone demo_prims hex16 RJ demo_git demo_openmls (\<lambda>_. demo_client16) (\<lambda>_ _. Inr demo_record) demo_draw ''sit://ann/r'' True demo_dev s
      = Inr co \<and> co_repo co = Some demo_record"
proof -
  have "clone_replay demo_git fs n g = (g @ map fr_bundle fs, n + length fs, True)" if "\<forall>f \<in> set fs. fr_bundle f = [1, 2, 3]" for fs n g
    using that
  proof (induction fs arbitrary: n g)
    case (Cons f fs)
    have "maybe_refresh_multi_pack_index demo_git k g' = g'" for k g'
      by (simp add: maybe_refresh_multi_pack_index_def demo_git_def)
    then show ?case using Cons by (simp add: demo_not_ref_only demo_import)
  qed simp
  moreover have "batch_format batch = None"
    using assms(2,3) demo_not_ref_only
    by (cases batch) (simp_all add: batch_format_def bundle_object_format_def split_on_none strip_prefix_def str_bytes_def)
  moreover have "g_multi_pack_index demo_git g = g" "g_checkout_main demo_git oid g = (g, True)" for g oid
    by (simp_all add: demo_git_def)
  ultimately have "\<exists>g. clone_git demo_git remote batch [] = Inr g" for remote
    using assms(3)
    by (cases "er_refs (fr_refs (last batch))") (simp_all add: clone_git_def Let_def case_prod_beta)
  then obtain g where g: "clone_git demo_git ''sit://ann/r'' batch [] = Inr g" by blast
  have "repo_name_parse ''ann/r'' = Some \<lparr>rn_owner = ''ann'', rn_name = ''r''\<rparr>" by (simp add: repo_name_parse_def)
  then show ?thesis
    using assms g
    by (simp add: cmd_clone_def strip_prefix_def demo_fresh clone_into_def demo_dev_facts Let_def record_applied_seq_def)
qed

lemma demo_runs:
  obtains RJ h1 h2 co co' where
    "checkout_run demo_prims hex16 RJ demo_git demo_openmls TYPE(server_state) ([h1] @ [h2]) co"
    "checkout_run demo_prims hex16 RJ demo_git demo_openmls TYPE(server_state) [h1, h2] co'"
    "hashes_injective demo_prims {h1, h2}" "\<forall>k \<in> {h1, h2}. ref_head_hash demo_prims k \<noteq> head_hash_zero"
    "co_head_file co = co_head_file co'"
proof -
  obtain c h1 s1 h2 s2 hm sm h3 s3 where story:
    "http_inv demo_prims hex16 (demo_auth ''ann'') demo_repo s1 [h1]"
    "fetch_head_bundle demo_prims hex16 (demo_table c) (http_get_blob hex16 (demo_auth ''ann'') demo_repo s1) [] [] demo_repo demo_material h1
       = Inr \<lparr>fr_head = h1, fr_refs = demo_refs (main_at ''1'') None c, fr_bundle = [1, 2, 3]\<rparr>"
    "authentic demo_prims demo_material [] h1" "seq h1 = 1" "repo_id h1 = demo_repo"
    "http_inv demo_prims hex16 (demo_auth ''ann'') demo_repo s2 [h1, h2]"
    "fetch_head_bundle demo_prims hex16 (demo_table c) (http_get_blob hex16 (demo_auth ''ann'') demo_repo s2) [] [] demo_repo demo_material h2
       = Inr \<lparr>fr_head = h2, fr_refs = demo_refs dev_and_main dev_head c, fr_bundle = [1, 2, 3]\<rparr>"
    "authentic demo_prims demo_material [] h2" "seq h2 = 2" "repo_id h2 = demo_repo"
    "fetch_head_bundle demo_prims hex16 (demo_table c) (http_get_blob hex16 (demo_auth ''ann'') demo_repo s2) [] [] demo_repo demo_material h1
       = Inr \<lparr>fr_head = h1, fr_refs = demo_refs (main_at ''1'') None c, fr_bundle = [1, 2, 3]\<rparr>"
    by (rule demo_story) blast
  define b where "b h = (if h = h1 then \<lparr>fr_head = h1, fr_refs = demo_refs (main_at ''1'') None c, fr_bundle = [1, 2, 3]\<rparr>
      else \<lparr>fr_head = h2, fr_refs = demo_refs dev_and_main dev_head c, fr_bundle = [1, 2, 3]\<rparr>)" for h
  have diff: "h1 \<noteq> h2" using story(4,9) by auto
  have f: "map fr_head (map b [h1, h2]) = [h1, h2]" "fr_bundle (b h) = [1, 2, 3]" for h using diff by (simp_all add: b_def)
  have draws: "pd_dkr demo_draw = []" "pd_dkr' demo_draw = []" "leaf_vks_of demo_keys = []" "em_history_from demo_material = 0"
    by (simp_all add: demo_dev_facts demo_material_fields)
  have batch1: "fetch_batch demo_prims hex16 (demo_table c) demo_client16 demo_draw demo_keys demo_repo demo_material 0 (Some head_hash_zero) s1 = Inr [b h1]"
    using honest_batch [where n = 0 and K = demo_keys and b = b and dr = demo_draw and RJ = "demo_table c" and J = "\<lambda>_. None" and B = demo_parsers and show_meta = "\<lambda>_. []",
        OF story(1) _ draws(4)] story(2,3)
    by (simp add: draws log_tip_def b_def)
  have batch2: "fetch_batch demo_prims hex16 (demo_table c) demo_client16 demo_draw demo_keys demo_repo demo_material 0 (Some head_hash_zero) s2 = Inr [b h1, b h2]"
    using honest_batch [where n = 0 and K = demo_keys and b = b and dr = demo_draw and RJ = "demo_table c" and J = "\<lambda>_. None" and B = demo_parsers and show_meta = "\<lambda>_. []",
        OF story(6) _ draws(4)] story(3,7,8,11) diff
    by (simp add: draws log_tip_def b_def)
  have m: "load_epoch_material (dv_repos demo_dev (rr_id demo_record)) = Inr demo_material"
    "push_keys_of demo_openmls (rr_id demo_record) (dv_repos demo_dev (rr_id demo_record)) = demo_keys" "rr_id demo_record = demo_repo"
    by (simp_all add: demo_dev_facts)
  have full: "full_history demo_dev co" for co :: "bytes list checkout"
    by (simp add: full_history_def demo_dev_facts demo_material_fields)
  have run: "checkout_run demo_prims hex16 (demo_table c) demo_git demo_openmls TYPE(server_state) (map fr_head batch) co \<and>
      marks demo_prims hex16 co (fr_head (last batch))"
    if clone: "cmd_clone demo_prims hex16 (demo_table c) demo_git demo_openmls (\<lambda>_. demo_client16) (\<lambda>_ _. Inr demo_record) demo_draw ''sit://ann/r'' True demo_dev s = Inr co"
      and co: "co_repo co = Some demo_record" and ne: "batch \<noteq> []"
      and got: "fetch_batch demo_prims hex16 (demo_table c) demo_client16 demo_draw demo_keys demo_repo demo_material 0 (Some head_hash_zero) s = Inr batch"
    for s co batch
    using checkout_run.cloned [where h = "TYPE(server_state)", OF clone full co m(1)] cmd_clone_marks [OF clone co m(1)] got ne
      m(2) [unfolded m(3)]
    by (simp add: m(3))
  obtain co1 where co1: "cmd_clone demo_prims hex16 (demo_table c) demo_git demo_openmls (\<lambda>_. demo_client16) (\<lambda>_ _. Inr demo_record) demo_draw ''sit://ann/r'' True demo_dev s1 = Inr co1"
    "co_repo co1 = Some demo_record" using demo_clone [OF batch1] f(2) by auto
  obtain co' where co': "cmd_clone demo_prims hex16 (demo_table c) demo_git demo_openmls (\<lambda>_. demo_client16) (\<lambda>_ _. Inr demo_record) demo_draw ''sit://ann/r'' True demo_dev s2 = Inr co'"
    "co_repo co' = Some demo_record" using demo_clone [OF batch2] f(2) by auto
  have run1: "checkout_run demo_prims hex16 (demo_table c) demo_git demo_openmls TYPE(server_state) [h1] co1" "marks demo_prims hex16 co1 h1"
    using run [OF co1 _ batch1] by (simp_all add: b_def)
  have run': "checkout_run demo_prims hex16 (demo_table c) demo_git demo_openmls TYPE(server_state) [h1, h2] co'" "marks demo_prims hex16 co' h2"
    using run [OF co' _ batch2] diff by (simp_all add: b_def)
  have shape: "log_shape demo_prims [h1, h2]" using story(6) by (simp add: http_inv_def head_log_inv_def Let_def)
  have at: "stands_at demo_prims hex16 co1 (take 1 [h1, h2])"
    using marks_stands [OF _ _ log_shape_first [OF shape] hex16_plain, of co1] run1(2) by simp
  have pull: "pull_batch demo_prims hex16 (demo_table c) demo_openmls demo_client16 demo_draw demo_dev co1 s2 = Inr [b h2]"
    using pull_batch_honest [where r = demo_record and n = 1 and b = b and M = demo_openmls and dv = demo_dev and m = demo_material and dr = demo_draw
        and RJ = "demo_table c" and J = "\<lambda>_. None" and B = demo_parsers and show_meta = "\<lambda>_. []", unfolded m, OF story(6) _ at co1(2)] story(7,8) diff
    by (simp add: draws b_def demo_dev_facts)
  obtain co2 res where co2: "fetch_merge demo_prims hex16 (demo_table c) demo_git demo_openmls demo_client16 demo_draw False False demo_dev co1 s2 = (co2, res)"
    by fastforce
  have new: "pulled_heads demo_git (Inr [b h2]) co1 = [h2]"
    using diff by (simp add: pulled_heads_def b_def demo_not_ref_only demo_import)
  have "checkout_run demo_prims hex16 (demo_table c) demo_git demo_openmls TYPE(server_state) ([h1] @ [h2]) co2"
    using checkout_run.pulled [where h = "TYPE(server_state)", OF run1(1) full co2] by (simp add: pull new)
  moreover have "marks demo_prims hex16 co2 h2" using fetch_merge_marks [OF co2] by (simp add: pull new)
  then have "co_head_file co2 = co_head_file co'" using run'(2) by (simp add: marks_def)
  moreover have wf: "head_wf h1" "opaque_ok h1" "head_wf h2" "opaque_ok h2"
    using story(6) by (auto simp: http_inv_def head_log_inv_def Let_def storable_def)
  have bytes: "take 40 (sha512 demo_prims (canonical_bytes h)) = demo_repo @ u64_be (seq h)" if "repo_id h = demo_repo" for h
    using that by (simp add: sha512_def demo_prims_def canonical_bytes_def head_layout_def fix_len_def)
  have "sha512 demo_prims (canonical_bytes h1) \<noteq> sha512 demo_prims (canonical_bytes h2)"
    using bytes [OF story(5)] bytes [OF story(10)] story(4,9) by auto
  then have "hashes_injective demo_prims {h1, h2}" using wf by (auto simp: hashes_injective_def)
  moreover have "ref_head_hash demo_prims h \<noteq> head_hash_zero" if "repo_id h = demo_repo" for h
  proof
    assume "ref_head_hash demo_prims h = head_hash_zero"
    then have "take 40 (sha512 demo_prims (canonical_bytes h)) ! 0 = 0"
      by (simp add: ref_head_hash_def head_hash_of_def head_hash_zero_def)
    then show False by (simp add: bytes [OF that] nth_append)
  qed
  ultimately show thesis using that run'(1) story(5,10) by blast
qed

lemma checkout_is_one_chain_witness:
  "\<exists>RJ h1 h2 co. checkout_run demo_prims hex16 RJ demo_git demo_openmls TYPE(server_state) ([h1] @ [h2]) co \<and>
     local_applied_head hex16 co = Some (ref_head_hash demo_prims h2)"
proof -
  obtain RJ h1 h2 co co' where "checkout_run demo_prims hex16 RJ demo_git demo_openmls TYPE(server_state) ([h1] @ [h2]) co"
    by (rule demo_runs) blast
  with checkout_is_one_chain [OF this hex16_plain] show ?thesis by fastforce
qed


end
