(* ===== verification/Remote.thy ===== *)
theory Remote
  imports Scenario
begin

text \<open>
  The git remote helper of \<^verbatim>\<open>sit-remote-safehub/src/lib.rs\<close>: URLs, and the line protocol by which git
  lists, fetches and pushes through the client library.  The helper shares the checkout's \<^verbatim>\<open>repo.json\<close>;
  \<open>login\<close> is what \<^verbatim>\<open>HttpClient::from_disk\<close> answers.
\<close>

section \<open>URLs\<close>

definition strip_first :: "string list \<Rightarrow> string \<Rightarrow> string" where
  "strip_first pres u =
     (case filter (\<lambda>p. strip_prefix p u \<noteq> None) pres of [] \<Rightarrow> u | p # _ \<Rightarrow> drop (length p) u)"

definition parse_url :: "string \<Rightarrow> client_error + string" where
  "parse_url url =
     (let u = strip_first [''sit://'', ''sit::'', ''safehub://'', ''safehub::''] url;
          path = strip_first [''http://'', ''https://''] u;
          joined = (\<lambda>ow nm. if repo_name_parse (ow @ ''/'' @ nm) = None then Inl (bail ''invalid sit url'') else Inr (ow @ ''/'' @ nm))
      in case split_on (CHR ''/'') (trim_char (CHR ''/'') path) of
           [ow, nm] \<Rightarrow> joined ow nm
         | [_, ow, nm] \<Rightarrow> joined ow nm
         | _ \<Rightarrow> Inl (bail ''invalid sit url''))"

section \<open>The repository and its tip\<close>

record 'h helper_client =
  hp_login :: "client_error + unit"
  hp_get_repo :: "repo_name \<Rightarrow> 'h \<Rightarrow> client_error + repo_record"
  hp_repo :: "repo_id \<Rightarrow> 'h repo_client"

definition helper_resolve :: "'h helper_client \<Rightarrow> string \<Rightarrow> 'g checkout \<Rightarrow> 'h \<Rightarrow> 'g checkout \<times> (client_error + repo_record)" where
  "helper_resolve HC path co s =
     (case co_repo co of
        Some r \<Rightarrow> (co, Inr r)
      | None \<Rightarrow>
          (case rbind (ok_or (bail ''bad repo path'') (repo_name_parse path)) (\<lambda>nm.
                rbind (hp_login HC) (\<lambda>_. hp_get_repo HC nm s)) of
             Inl e \<Rightarrow> (co, Inl e)
           | Inr r \<Rightarrow> (co\<lparr>co_repo := Some r\<rparr>, Inr r)))"

text \<open>Everything that can go wrong while listing advertises an empty remote.\<close>

definition format_list_lines :: "refs_map \<Rightarrow> string option \<Rightarrow> string list" where
  "format_list_lines refs head =
     map (\<lambda>(nm, oid). oid @ '' '' @ nm) refs @
     (case head of
        None \<Rightarrow> []
      | Some sm \<Rightarrow> (case strip_prefix ''ref: '' sm of Some target \<Rightarrow> [CHR ''@'' # target @ '' HEAD''] | None \<Rightarrow> []))"

definition advertised :: "fetch_result \<Rightarrow> string list" where
  "advertised f =
     (let refs = er_refs (fr_refs f)
      in map (\<lambda>(nm, oid). oid @ '' '' @ nm) refs @
         (case er_head (fr_refs f) of
            Some sm \<Rightarrow> (case strip_prefix ''ref: '' sm of Some target \<Rightarrow> [CHR ''@'' # target @ '' HEAD''] | None \<Rightarrow> [])
          | None \<Rightarrow> (case refs of (nm, _) # _ \<Rightarrow> [CHR ''@'' # nm @ '' HEAD''] | [] \<Rightarrow> [])))"

definition helper_tip ::
    "prims \<Rightarrow> hex_codec \<Rightarrow> refs_json \<Rightarrow> 'h helper_client \<Rightarrow> push_draw \<Rightarrow> device \<Rightarrow> repo_record \<Rightarrow> 'h \<Rightarrow> client_error + fetch_result option" where
  "helper_tip P X RJ HC dr dv r s =
     rbind (load_epoch_material (dv_repos dv (rr_id r))) (\<lambda>m. tip_of P X RJ (hp_repo HC (rr_id r)) dr (rr_id r) m s)"

definition list_refs ::
    "prims \<Rightarrow> hex_codec \<Rightarrow> refs_json \<Rightarrow> 'h helper_client \<Rightarrow> push_draw \<Rightarrow> device \<Rightarrow> string \<Rightarrow> 'g checkout \<Rightarrow> 'h \<Rightarrow> 'g checkout \<times> string list" where
  "list_refs P X RJ HC dr dv path co s =
     (case helper_resolve HC path co s of
        (co1, Inl _) \<Rightarrow> (co1, [])
      | (co1, Inr r) \<Rightarrow>
          (case rbind (hp_login HC) (\<lambda>_. helper_tip P X RJ HC dr dv r s) of
             Inr (Some f) \<Rightarrow> (co1, advertised f)
           | _ \<Rightarrow> (co1, [])))"

text \<open>Only the bundle of the tip is imported, and a failed import is a warning.\<close>

definition do_fetch ::
    "prims \<Rightarrow> hex_codec \<Rightarrow> refs_json \<Rightarrow> 'g git_ops \<Rightarrow> 'h helper_client \<Rightarrow> push_draw \<Rightarrow> device \<Rightarrow> string \<Rightarrow> 'g checkout \<Rightarrow> 'h \<Rightarrow>
     'g checkout \<times> (client_error + unit)" where
  "do_fetch P X RJ G HC dr dv path co s =
     (case helper_resolve HC path co s of
        (co1, Inl e) \<Rightarrow> (co1, Inl e)
      | (co1, Inr r) \<Rightarrow>
          (case rbind (hp_login HC) (\<lambda>_. helper_tip P X RJ HC dr dv r s) of
             Inl e \<Rightarrow> (co1, Inl e)
           | Inr None \<Rightarrow> (co1, Inr ())
           | Inr (Some f) \<Rightarrow> (co1\<lparr>co_git := fst (g_fetch G (fr_bundle f) [] (co_git co1))\<rparr>, Inr ())))"

section \<open>Pushing\<close>

definition trim_plus :: "string \<Rightarrow> string" where
  "trim_plus s = dropWhile (\<lambda>c. c = CHR ''+'') s"

text \<open>What a refspec sends, given what is known of the tip: no fast-forward is checked here.\<close>

definition helper_args ::
    "'g git_ops \<Rightarrow> 'g \<Rightarrow> repo_id \<Rightarrow> epoch_material \<Rightarrow> bool \<Rightarrow> string \<Rightarrow> string \<Rightarrow> fetch_result option \<Rightarrow> client_error + push_args" where
  "helper_args G g repo m force src dst last_tip =
     (let git_refs = (case last_tip of Some f \<Rightarrow> er_refs (fr_refs f) | None \<Rightarrow> []);
          head = (case last_tip of Some f \<Rightarrow> er_head (fr_refs f) | None \<Rightarrow> None);
          dst_ref = full_ref dst
      in if src = []
         then (if map_of git_refs dst_ref = None then Inl (bail ''remote ref not present'')
               else Inr \<lparr>pa_repo = repo, pa_bundle = REF_ONLY_BUNDLE, pa_refs = bt_remove dst_ref git_refs, pa_head = head,
                         pa_material = m, pa_non_ff = True, pa_window = DEFAULT_UPLOAD_WINDOW\<rparr>)
         else rbind (ok_or (bail ''rev-parse'') (g_rev_parse G g src)) (\<lambda>oid.
              rbind (ok_or (bail ''git bundle create failed'') (g_bundle_create G g [] src)) (\<lambda>bundle.
                Inr \<lparr>pa_repo = repo, pa_bundle = bundle, pa_refs = bt_insert dst_ref oid git_refs, pa_head = Some (''ref: '' @ dst_ref),
                     pa_material = m, pa_non_ff = force, pa_window = DEFAULT_UPLOAD_WINDOW\<rparr>)))"

text \<open>\<open>gap\<close> is what other clients do between the helper's read of the last_tip and the push.\<close>

definition do_push ::
    "prims \<Rightarrow> hex_codec \<Rightarrow> refs_json \<Rightarrow> 'g git_ops \<Rightarrow> ('i, 'gr, 'k, 'w, 'm, 'c) openmls \<Rightarrow> 'h helper_client \<Rightarrow> (nat \<Rightarrow> push_draw) \<Rightarrow>
     ('h \<Rightarrow> 'h) \<Rightarrow> (nat \<Rightarrow> bool \<Rightarrow> 'h \<Rightarrow> 'h) \<Rightarrow> device \<Rightarrow> string \<Rightarrow> string \<Rightarrow> 'g checkout \<Rightarrow> 'h \<Rightarrow>
     'g checkout \<times> 'h \<times> (client_error + string \<times> push_result)" where
  "do_push P X RJ G M HC draws gap env dv path spec0 co s =
     (let force = starts_with ''+'' spec0; spec = trim_plus spec0
      in case split_once (CHR '':'') spec of
           None \<Rightarrow> (co, s, Inl (bail ''bad push refspec''))
         | Some (src, dst) \<Rightarrow>
             (case helper_resolve HC path co s of
                (co1, Inl e) \<Rightarrow> (co1, s, Inl e)
              | (co1, Inr r) \<Rightarrow>
                  (case rbind (hp_login HC) (\<lambda>_. load_epoch_material (dv_repos dv (rr_id r))) of
                     Inl e \<Rightarrow> (co1, s, Inl e)
                   | Inr m \<Rightarrow>
                       (let last_tip = (case tip_of P X RJ (hp_repo HC (rr_id r)) (draws 0) (rr_id r) m s of Inr t \<Rightarrow> t | Inl _ \<Rightarrow> None)
                        in case helper_args G (co_git co1) (rr_id r) m force src dst last_tip of
                             Inl e \<Rightarrow> (co1, s, Inl e)
                           | Inr a \<Rightarrow>
                               (case push_bundle P X RJ (push_keys_of M (rr_id r) (dv_repos dv (rr_id r))) (rc_host (hp_repo HC (rr_id r)))
                                       draws env a (gap s) of
                                  (s1, Inl e) \<Rightarrow> (co1, s1, Inl e)
                                | (s1, Inr res) \<Rightarrow> (co1, s1, Inr (dst, res)))))))"

section \<open>The line protocol\<close>

record 'g helper =
  hl_co :: "'g checkout"
  hl_fetch :: "(string \<times> string) list"
  hl_push :: "string list"
  hl_out :: "string list"

text \<open>What one invocation is given: the operations with their draws, and the text of an error.\<close>

record ('g, 'h) helper_ops =
  ho_list :: "'g checkout \<Rightarrow> 'h \<Rightarrow> 'g checkout \<times> string list"
  ho_fetch :: "'g checkout \<Rightarrow> 'h \<Rightarrow> 'g checkout \<times> (client_error + unit)"
  ho_push :: "string \<Rightarrow> 'g checkout \<Rightarrow> 'h \<Rightarrow> 'g checkout \<times> 'h \<times> (client_error + string)"
  ho_show :: "client_error \<Rightarrow> string"

definition error_dst :: "string \<Rightarrow> string" where
  "error_dst spec = (case split_on (CHR '':'') spec of _ # d # _ \<Rightarrow> d | _ \<Rightarrow> spec)"

definition push_answer :: "('g, 'h) helper_ops \<Rightarrow> string \<Rightarrow> client_error + string \<Rightarrow> string" where
  "push_answer H spec res =
     (case res of Inr dst \<Rightarrow> ''ok '' @ dst | Inl e \<Rightarrow> ''error '' @ error_dst spec @ '' '' @ ho_show H e)"

fun push_all :: "('g, 'h) helper_ops \<Rightarrow> string list \<Rightarrow> 'g checkout \<Rightarrow> 'h \<Rightarrow> 'g checkout \<times> 'h \<times> string list" where
  "push_all H [] co s = (co, s, [])"
| "push_all H (spec # specs) co s =
     (case ho_push H spec co s of
        (co1, s1, res) \<Rightarrow>
          (case push_all H specs co1 s1 of
             (co2, s2, out) \<Rightarrow>
               (co2, s2, push_answer H spec res # out)))"

definition say :: "string list \<Rightarrow> 'g helper \<Rightarrow> 'g helper" where
  "say ls h = h\<lparr>hl_out := hl_out h @ ls\<rparr>"

definition flush_pending :: "('g, 'h) helper_ops \<Rightarrow> 'g helper \<Rightarrow> 'h \<Rightarrow> 'g helper \<times> 'h \<times> (client_error + unit)" where
  "flush_pending H h s =
     (case (if hl_fetch h = [] then (hl_co h, Inr ()) else ho_fetch H (hl_co h) s) of
        (co, Inl e) \<Rightarrow> (h\<lparr>hl_co := co\<rparr>, s, Inl e)
      | (co, Inr _) \<Rightarrow>
          (let h1 = (if hl_fetch h = [] then h else say [[]] (h\<lparr>hl_co := co, hl_fetch := []\<rparr>))
           in if hl_push h1 = [] then (h1, s, Inr ())
              else (case push_all H (hl_push h1) (hl_co h1) s of
                      (co2, s2, out) \<Rightarrow> (say (out @ [[]]) (h1\<lparr>hl_co := co2, hl_push := []\<rparr>), s2, Inr ()))))"

definition helper_line :: "('g, 'h) helper_ops \<Rightarrow> string \<Rightarrow> 'g helper \<Rightarrow> 'h \<Rightarrow> 'g helper \<times> 'h \<times> (client_error + unit)" where
  "helper_line H line h s =
     (if line = [] then flush_pending H h s
      else if line = ''capabilities'' then (say [''fetch'', ''push'', ''option'', []] h, s, Inr ())
      else if starts_with ''option '' line then (say [''ok''] h, s, Inr ())
      else if line = ''list'' \<or> line = ''list for-push''
      then (case ho_list H (hl_co h) s of (co, out) \<Rightarrow> (say (out @ [[]]) (h\<lparr>hl_co := co\<rparr>), s, Inr ()))
      else case strip_prefix ''fetch '' line of
             Some rest \<Rightarrow>
               (h\<lparr>hl_fetch := hl_fetch h @ [(case cut (CHR '' '') rest of (sha, nm) \<Rightarrow> (sha, (case nm of Some x \<Rightarrow> x | None \<Rightarrow> [])))]\<rparr>, s, Inr ())
           | None \<Rightarrow>
               (case strip_prefix ''push '' line of
                  Some rest \<Rightarrow> (h\<lparr>hl_push := hl_push h @ [rest]\<rparr>, s, Inr ())
                | None \<Rightarrow> (h, s, Inr ())))"

fun run_helper :: "('g, 'h) helper_ops \<Rightarrow> string list \<Rightarrow> 'g helper \<Rightarrow> 'h \<Rightarrow> 'g helper \<times> 'h \<times> (client_error + unit)" where
  "run_helper H [] h s = (h, s, Inr ())"
| "run_helper H (line # rest) h s =
     (case helper_line H line h s of
        (h1, s1, Inl e) \<Rightarrow> (h1, s1, Inl e)
      | (h1, s1, Inr _) \<Rightarrow> run_helper H rest h1 s1)"

definition helper_ops_of ::
    "prims \<Rightarrow> hex_codec \<Rightarrow> refs_json \<Rightarrow> 'g git_ops \<Rightarrow> ('i, 'gr, 'k, 'w, 'm, 'c) openmls \<Rightarrow> 'h helper_client \<Rightarrow> (nat \<Rightarrow> push_draw) \<Rightarrow>
     ('h \<Rightarrow> 'h) \<Rightarrow> (nat \<Rightarrow> bool \<Rightarrow> 'h \<Rightarrow> 'h) \<Rightarrow> (client_error \<Rightarrow> string) \<Rightarrow> device \<Rightarrow> string \<Rightarrow> ('g, 'h) helper_ops" where
  "helper_ops_of P X RJ G M HC draws gap env show_err dv path =
     \<lparr>ho_list = list_refs P X RJ HC (draws 0) dv path, ho_fetch = do_fetch P X RJ G HC (draws 0) dv path,
      ho_push = (\<lambda>spec co s. apsnd (apsnd (\<lambda>r. rbind r (\<lambda>(dst, _). Inr dst))) (do_push P X RJ G M HC draws gap env dv path spec co s)),
      ho_show = show_err\<rparr>"

section \<open>What a URL names\<close>

lemma parse_url_parses: "parse_url url = Inr path \<Longrightarrow> repo_name_parse path \<noteq> None"
  by (auto simp: parse_url_def Let_def split: list.splits if_splits)

abbreviation schemes :: "string list" where
  "schemes \<equiv> [''sit://'', ''sit::'', ''safehub://'', ''safehub::'']"

lemma strip_first_scheme: "p \<in> set schemes \<Longrightarrow> strip_first schemes (p @ r) = r"
  by (auto simp: strip_first_def strip_prefix_def)

lemma strip_first_none: "list_all (\<lambda>p. strip_prefix p u = None) pres \<Longrightarrow> strip_first pres u = u"
  by (simp add: strip_first_def list_all_iff filter_empty_conv)

lemma trim_char_tight: "a \<noteq> [] \<Longrightarrow> b \<noteq> [] \<Longrightarrow> c \<notin> set a \<Longrightarrow> c \<notin> set b \<Longrightarrow> trim_char c (a @ r @ b) = a @ r @ b"
  by (cases a; cases b rule: rev_cases) (auto simp: trim_char_def)

text \<open>A piece without slashes followed by one slash is no HTTP prefix.\<close>

lemma no_http:
  assumes "CHR ''/'' \<notin> set a" and "r = [] \<or> List.hd r \<noteq> CHR ''/''"
    and "p \<in> {''http://'', ''https://''}"
  shows "strip_prefix p (a @ CHR ''/'' # r) = None"
proof (rule ccontr)
  assume "strip_prefix p (a @ CHR ''/'' # r) \<noteq> None"
  then obtain z where z: "a @ CHR ''/'' # r = p @ z" by (auto simp: strip_prefix_iff)
  obtain q where q: "p = q @ ''//''" "CHR ''/'' \<notin> set q"
    using assms(3) that [of "''http:''"] that [of "''https:''"] by auto
  have "a @ CHR ''/'' # r = q @ CHR ''/'' # (CHR ''/'' # z)" using z q(1) by simp
  then have "r = CHR ''/'' # z" using first_sep [OF assms(1) q(2)] by blast
  then show False using assms(2) by auto
qed

theorem url_names_repo:
  assumes "repo_name_parse path = Some nm" and "p \<in> set schemes" and "host \<noteq> []" and "CHR ''/'' \<notin> set host"
  shows "parse_url (p @ path) = Inr path" and "parse_url (p @ host @ ''/'' @ path) = Inr path"
proof -
  obtain ow n where path: "path = ow @ CHR ''/'' # n" "ow \<noteq> []" "n \<noteq> []" "CHR ''/'' \<notin> set ow" "CHR ''/'' \<notin> set n"
    using assms(1) by (auto simp: repo_name_parse_def split_once_Some_iff split: option.splits if_splits)
  have hd: "List.hd n \<noteq> CHR ''/''" "List.hd path \<noteq> CHR ''/''" "path \<noteq> []"
    using path by (cases n; cases ow; auto)+
  have pieces: "split_on (CHR ''/'') path = [ow, n]" "split_on (CHR ''/'') (host @ CHR ''/'' # path) = [host, ow, n]"
    using path(4,5) assms(4) by (simp_all add: path(1) split_on_first split_on_none)
  have "strip_prefix q path = None" "strip_prefix q (host @ CHR ''/'' # path) = None" if "q \<in> {''http://'', ''https://''}" for q
    using no_http [OF path(4) _ that, of n] no_http [OF assms(4) _ that, of path] hd(1,2) by (simp_all only: path(1)) blast+
  then have plain: "strip_first [''http://'', ''https://''] path = path"
    "strip_first [''http://'', ''https://''] (host @ CHR ''/'' # path) = host @ CHR ''/'' # path"
    by (simp_all add: strip_first_none)
  have tight: "trim_char (CHR ''/'') path = path" "trim_char (CHR ''/'') (host @ CHR ''/'' # path) = host @ CHR ''/'' # path"
    using trim_char_tight [of ow n "CHR ''/''" "''/''"] trim_char_tight [of host n "CHR ''/''" "CHR ''/'' # ow @ ''/''"] path assms(3,4)
    by simp_all
  show "parse_url (p @ path) = Inr path" "parse_url (p @ host @ ''/'' @ path) = Inr path"
    using assms(1)
    by (simp_all add: parse_url_def strip_first_scheme [OF assms(2)] plain tight pieces path(1) [symmetric])
qed

section \<open>One answer per refspec\<close>

lemma queue_pushes:
  "run_helper H (map (\<lambda>sp. ''push '' @ sp) specs @ rest) h s = run_helper H rest (h\<lparr>hl_push := hl_push h @ specs\<rparr>) s"
proof (induction specs arbitrary: h)
  case (Cons sp specs)
  have "helper_line H (''push '' @ sp) h s = (h\<lparr>hl_push := hl_push h @ [sp]\<rparr>, s, Inr ())"
    by (simp add: helper_line_def starts_with_def strip_prefix_def)
  then show ?case using Cons by simp
qed simp

lemma push_all_answers:
  "push_all H specs co s = (co', s', out) \<Longrightarrow>
    list_all2 (\<lambda>spec line. \<exists>co1 s1. line = push_answer H spec (snd (snd (ho_push H spec co1 s1)))) specs out"
proof (induction specs arbitrary: co s out)
  case (Cons spec specs)
  obtain co1 s1 res where p: "ho_push H spec co s = (co1, s1, res)" by (cases "ho_push H spec co s")
  obtain out1 where out: "push_all H specs co1 s1 = (co', s', out1)" "out = push_answer H spec res # out1"
    using Cons.prems p by (auto split: prod.splits)
  have "\<exists>co1 s1. push_answer H spec res = push_answer H spec (snd (snd (ho_push H spec co1 s1)))"
    using p by (metis snd_conv)
  then show ?case using Cons.IH [OF out(1)] out(2) by simp
qed simp

theorem push_batch_answered:
  assumes "hl_push h = []" and "hl_fetch h = []" and "specs \<noteq> []"
  shows "\<exists>co' s' out. run_helper H (map (\<lambda>sp. ''push '' @ sp) specs @ [[]]) h s =
      (h\<lparr>hl_co := co', hl_out := hl_out h @ out @ [[]]\<rparr>, s', Inr ()) \<and>
    list_all2 (\<lambda>spec line. \<exists>co1 s1. line = push_answer H spec (snd (snd (ho_push H spec co1 s1)))) specs out"
proof -
  obtain co' s' out where p: "push_all H specs (hl_co h) s = (co', s', out)" by (cases "push_all H specs (hl_co h) s")
  have "run_helper H (map (\<lambda>sp. ''push '' @ sp) specs @ [[]]) h s = (h\<lparr>hl_co := co', hl_out := hl_out h @ out @ [[]]\<rparr>, s', Inr ())"
    unfolding queue_pushes using assms p by (cases h) (simp add: helper_line_def flush_pending_def say_def)
  then show ?thesis using push_all_answers [OF p] by blast
qed

text \<open>A fetch that fails ends the helper before the pushes of the same flush, without an answer.\<close>

lemma failed_fetch_ends:
  assumes "hl_fetch h \<noteq> []" and "ho_fetch H (hl_co h) s = (co, Inl e)"
  shows "run_helper H ([] # rest) h s = (h\<lparr>hl_co := co\<rparr>, s, Inl e)"
  using assms by (simp add: helper_line_def flush_pending_def)

section \<open>What a helper push sends\<close>

lemma do_push_sends:
  assumes "do_push P X RJ G M HC draws gap env dv path spec co s = (co', s', Inr (dst, res))"
  obtains src r m a where "split_once (CHR '':'') (trim_plus spec) = Some (src, dst)"
    "helper_resolve HC path co s = (co', Inr r)" "load_epoch_material (dv_repos dv (rr_id r)) = Inr m"
    "helper_args G (co_git co') (rr_id r) m (starts_with ''+'' spec) src dst
       (case tip_of P X RJ (hp_repo HC (rr_id r)) (draws 0) (rr_id r) m s of Inr t \<Rightarrow> t | Inl _ \<Rightarrow> None) = Inr a"
    "push_bundle P X RJ (push_keys_of M (rr_id r) (dv_repos dv (rr_id r))) (rc_host (hp_repo HC (rr_id r))) draws env a (gap s)
       = (s', Inr res)"
  using assms
  by (auto simp: do_push_def Let_def rbind_Inr_conv split: prod.splits sum.splits option.splits)

lemma helper_args_update:
  assumes "helper_args G g repo m force src dst last_tip = Inr a" and "src \<noteq> []"
  obtains oid where "g_rev_parse G g src = Some oid" "pa_material a = m" "pa_non_ff a = force" "pa_head a = Some (''ref: '' @ full_ref dst)"
    "pa_refs a = bt_insert (full_ref dst) oid (case last_tip of Some f \<Rightarrow> er_refs (fr_refs f) | None \<Rightarrow> [])"
  using assms by (auto simp: helper_args_def Let_def rbind_Inr_conv ok_or_Inr_iff)

lemma planned_head:
  assumes "plan_attempt P X J K dr a baseline t = Inr (plan, h, refs)"
  shows "er_head refs = pa_head a \<and> non_ff h = pa_non_ff a"
  using assms by (auto simp: plan_attempt_def plan_push_reader_def rbind_Inr_conv split: prod.splits elim!: build_push_plan_shape)

text \<open>
  When the tip cannot be read, the helper advertises an empty remote, so that git sees nothing to
  reject, and a push without a plus then replaces whatever the target was, as a fast-forward; with a
  plus it also deletes every other ref.
\<close>

theorem unreadable_tip_overwritten:
  assumes "do_push P X RJ G M HC draws gap env dv path spec co s = (co', s', Inr (dst, res))"
    and "split_once (CHR '':'') (trim_plus spec) = Some (src, dst)" and "src \<noteq> []" and "co_repo co = Some r"
    and "load_epoch_material (dv_repos dv (rr_id r)) = Inr m"
    and "tip_of P X RJ (hp_repo HC (rr_id r)) (draws 0) (rr_id r) m s = Inl e"
    and "rbind (hc_tip (rc_host (hp_repo HC (rr_id r))) (gap s)) (tip_refs P RJ (pd_dkr (draws 0)) (pd_dkr' (draws 0)) m) = Inr now"
    and "g_rev_parse G (co_git co) src = Some oid" and "json_maps RJ"
  shows "snd (list_refs P X RJ HC (draws 0) dv path co s) = []"
    and "map_of now (full_ref dst) \<noteq> Some oid \<Longrightarrow> map_of (er_refs (pr_refs res)) (full_ref dst) = Some oid"
    and "non_ff (pr_head_accepted res) = starts_with ''+'' spec"
    and "starts_with ''+'' spec \<Longrightarrow> map_of now k \<noteq> None \<Longrightarrow> k \<noteq> full_ref dst \<Longrightarrow> map_of (er_refs (pr_refs res)) k = None"
proof -
  have resolved: "helper_resolve HC path co s = (co, Inr r)" using assms(4) by (simp add: helper_resolve_def)
  show "snd (list_refs P X RJ HC (draws 0) dv path co s) = []"
    using resolved assms(5,6) by (simp add: list_refs_def helper_tip_def split: sum.split) (simp add: rbind_Inr_conv)
  obtain a where a: "helper_args G (co_git co) (rr_id r) m (starts_with ''+'' spec) src dst None = Inr a"
    and run: "push_bundle P X RJ (push_keys_of M (rr_id r) (dv_repos dv (rr_id r))) (rc_host (hp_repo HC (rr_id r))) draws env a (gap s) = (s', Inr res)"
    using assms(2,5,6) resolved by (rule_tac do_push_sends [OF assms(1)]) (auto intro: that)
  then have refs: "pa_refs a = [(full_ref dst, oid)]" "pa_material a = m" "pa_non_ff a = starts_with ''+'' spec"
    using helper_args_update [OF a assms(3)] assms(8) by auto
  obtain i tp plan where plan: "plan_attempt P X RJ (push_keys_of M (rr_id r) (dv_repos dv (rr_id r))) (draws i)
      (a\<lparr>pa_window := DEFAULT_UPLOAD_WINDOW\<rparr>) now tp = Inr (plan, pr_head_accepted res, pr_refs res)"
    using push_bundle_planned [OF run] assms(7) refs(2) by metis
  show "non_ff (pr_head_accepted res) = starts_with ''+'' spec" using planned_head [OF plan] refs(3) by simp
  note new = planned_refs [OF plan _ assms(9)]
  show "map_of (er_refs (pr_refs res)) (full_ref dst) = Some oid" if "map_of now (full_ref dst) \<noteq> Some oid"
    using new [of "full_ref dst"] that refs(1) by auto
  show "map_of (er_refs (pr_refs res)) k = None" if "starts_with ''+'' spec" "map_of now k \<noteq> None" "k \<noteq> full_ref dst"
    using new [of k] that refs(1,3) by auto
qed

section \<open>The published HEAD\<close>

lemma landed_head:
  assumes "push_bundle P X RJ K H draws env a s = (s', Inr res)"
  shows "er_head (pr_refs res) = pa_head a"
proof -
  obtain baseline where "rbind (hc_tip H s) (tip_refs P RJ (pd_dkr (draws 0)) (pd_dkr' (draws 0)) (pa_material a)) = Inr baseline"
    using assms by (auto simp: push_bundle_def push_bundle_with_retries_def split: sum.splits)
  then obtain k t plan where "plan_attempt P X RJ K (draws k) (a\<lparr>pa_window := DEFAULT_UPLOAD_WINDOW\<rparr>) baseline t
      = Inr (plan, pr_head_accepted res, pr_refs res)"
    by (rule push_bundle_planned [OF assms])
  from planned_head [OF this] show ?thesis by simp
qed

lemma decided_head:
  "decide_push G g repo m src dst force remote = Inr (Some a) \<Longrightarrow> pa_head a = Some (''ref: '' @ full_ref dst)"
  by (auto simp: decide_push_def build_bundle_and_refs_def rbind_Inr_conv Let_def split: if_splits sum.splits)

lemma cmd_push_head:
  assumes "cmd_push P X RJ G M C draws gap env refspec force dv co s = (co', s', Inr (Pushed res))"
  shows "er_head (pr_refs res) = Some (''ref: '' @ push_target refspec)"
  using assms
  by (auto simp: cmd_push_def push_target_def Let_def dest!: landed_head decided_head split: prod.splits sum.splits option.splits if_splits)

lemma do_push_head:
  assumes "do_push P X RJ G M HC draws gap env dv path spec co s = (co', s', Inr (dst, res))" and "\<not> starts_with '':'' (trim_plus spec)"
  shows "er_head (pr_refs res) = Some (''ref: '' @ full_ref dst)"
proof -
  obtain src a last_tip g repo m K H where p: "split_once (CHR '':'') (trim_plus spec) = Some (src, dst)"
    "helper_args G g repo m (starts_with ''+'' spec) src dst last_tip = Inr a" "push_bundle P X RJ K H draws env a (gap s) = (s', Inr res)"
    by (rule do_push_sends [OF assms(1)]) (auto intro: that)
  have "src \<noteq> []" using p(1) assms(2) by (auto simp: split_once_Some_iff starts_with_def)
  from helper_args_update [OF p(2) this] landed_head [OF p(3)] show ?thesis by metis
qed

lemma merge_tip_follows_head:
  assumes "er_head refs = Some (''ref: '' @ target)" and "map_of (er_refs refs) target = Some oid"
  shows "fst (merge_tip G True refs g) = fst (g_rebase G oid g)"
    and "g_is_ancestor G g ''HEAD'' oid \<Longrightarrow> snd (g_merge_ff_only G oid g) \<Longrightarrow> fst (merge_tip G False refs g) = fst (g_merge_ff_only G oid g)"
    and "\<not> g_is_ancestor G g ''HEAD'' oid \<Longrightarrow> \<not> g_is_ancestor G g oid ''HEAD'' \<Longrightarrow> fst (merge_tip G False refs g) = fst (g_merge G oid g)"
proof -
  have "merge_target refs = target" using assms(1) by (simp add: merge_target_def strip_prefix_def)
  then show "fst (merge_tip G True refs g) = fst (g_rebase G oid g)"
    "g_is_ancestor G g ''HEAD'' oid \<Longrightarrow> snd (g_merge_ff_only G oid g) \<Longrightarrow> fst (merge_tip G False refs g) = fst (g_merge_ff_only G oid g)"
    "\<not> g_is_ancestor G g ''HEAD'' oid \<Longrightarrow> \<not> g_is_ancestor G g oid ''HEAD'' \<Longrightarrow> fst (merge_tip G False refs g) = fst (g_merge G oid g)"
    using assms(2) by (auto simp: merge_tip_def split: prod.splits bool.splits)
qed

lemma fetch_merge_merges:
  assumes "pull_batch P X RJ M C dr dv co s = Inr (fs @ [f])" and "apply_batch P X G (fs @ [f]) co = (co1, Inr ())"
  shows "co_git (fst (fetch_merge P X RJ G M C dr True rebase dv co s)) =
    fst (merge_tip G rebase (fr_refs f) (track_tip G (er_refs (fr_refs f)) (co_git co1)))"
  using assms by (simp add: fetch_merge_def Let_def split: prod.split)

text \<open>
  C40.  A push makes its target the head of the remote, whatever the target is, and a pull merges
  the head of the remote into whatever branch is checked out: after anybody pushed a branch or a tag,
  with the push command or through the git helper, every other member who pulls has the pushed commit
  merged into, or is rebased onto it from, the branch at hand.
\<close>

theorem pull_merges_last_pushed:
  assumes "(cmd_push P X RJ G M C draws gap env refspec force dv co s = (co', s', Inr (Pushed res)) \<and> target = push_target refspec) \<or>
      (do_push P X RJ G M HC draws gap env dv path spec co s = (co', s', Inr (dst, res)) \<and> \<not> starts_with '':'' (trim_plus spec) \<and>
       target = full_ref dst)"
    and "pull_batch P X RJ M C2 dr dv2 co2 s2 = Inr (fs @ [f])" and "fr_refs f = pr_refs res"
    and "apply_batch P X G2 (fs @ [f]) co2 = (co3, Inr ())"
    and "map_of (er_refs (pr_refs res)) target = Some oid" and "g = track_tip G2 (er_refs (pr_refs res)) (co_git co3)"
  shows "co_git (fst (fetch_merge P X RJ G2 M C2 dr True True dv2 co2 s2)) = fst (g_rebase G2 oid g) \<and>
    (g_is_ancestor G2 g ''HEAD'' oid \<longrightarrow> snd (g_merge_ff_only G2 oid g) \<longrightarrow>
       co_git (fst (fetch_merge P X RJ G2 M C2 dr True False dv2 co2 s2)) = fst (g_merge_ff_only G2 oid g)) \<and>
    (\<not> g_is_ancestor G2 g ''HEAD'' oid \<longrightarrow> \<not> g_is_ancestor G2 g oid ''HEAD'' \<longrightarrow>
       co_git (fst (fetch_merge P X RJ G2 M C2 dr True False dv2 co2 s2)) = fst (g_merge G2 oid g))"
proof -
  have "er_head (pr_refs res) = Some (''ref: '' @ target)" using assms(1) by (auto dest: cmd_push_head do_push_head)
  note merges = merge_tip_follows_head [OF this assms(5)]
  show ?thesis
    unfolding fetch_merge_merges [OF assms(2,4)] assms(3,6) by (intro conjI impI) (rule merges; assumption)+
qed

section \<open>A closed example\<close>

definition demo_helper :: "server_state helper_client" where
  "demo_helper = \<lparr>hp_login = Inr (), hp_get_repo = (\<lambda>_ _. Inr demo_record), hp_repo = (\<lambda>_. demo_client16)\<rparr>"

text \<open>A git in which the pulled commit and the branch at hand have diverged.\<close>

definition merging_git :: "bytes list git_ops" where
  "merging_git = demo_git\<lparr>g_is_ancestor := \<lambda>_ _ _. False, g_merge := \<lambda>oid g. (g @ [str_bytes oid], True)\<rparr>"

lemma merging_import: "import_bundle_objects merging_git [1, 2, 3] g = (g @ [[1, 2, 3]], True)"
proof -
  have fetched: "import_bundle_via_fetch merging_git = import_bundle_via_fetch demo_git"
    by (intro ext) (simp add: import_bundle_via_fetch_def merging_git_def Let_def split: option.split)
  have packed: "g_index_pack merging_git = g_index_pack demo_git" by (simp add: merging_git_def)
  have "import_bundle_objects merging_git b g = import_bundle_objects demo_git b g" for b
    unfolding import_bundle_objects_def fetched packed ..
  then show ?thesis by (simp add: demo_import)
qed

lemma demo_helper_push:
  assumes "fetch_head_bundle demo_prims hex16 RJ (http_get_blob hex16 (demo_auth ''ann'') demo_repo s) [] [] demo_repo demo_material h = Inr f"
    and "http_inv demo_prims hex16 (demo_auth ''ann'') demo_repo s (l @ [h])" and "er_refs (fr_refs f) = main_at ''1''"
    and "push_bundle demo_prims hex16 RJ demo_keys (rc_host demo_client16) (\<lambda>_. demo_draw) (\<lambda>_ _ s. s) (demo_args dev_and_main dev_head) s
      = (s', Inr res)"
  shows "do_push demo_prims hex16 RJ demo_git demo_openmls demo_helper (\<lambda>_. demo_draw) (\<lambda>s. s) (\<lambda>_ _ s. s) demo_dev ''ann/r'' ''dev:dev''
    demo_checkout s = (demo_checkout, s', Inr (''dev'', res))"
proof -
  have "co_repo demo_checkout = Some demo_record" by (simp add: demo_checkout_def)
  then have "tip_of demo_prims hex16 RJ demo_client16 demo_draw demo_repo demo_material s = Inr (Some f)"
    using demo_cmd_push [where gap = "\<lambda>s. s", OF assms] by blast
  moreover have "helper_args demo_git g demo_repo demo_material False ''dev'' ''dev'' (Some f) = Inr (demo_args dev_and_main dev_head)" for g
    using assms(3) by (simp add: helper_args_def demo_git_def full_ref_def starts_with_def demo_args_def Let_def)
  moreover have "starts_with ''+'' ''dev:dev'' = False" "trim_plus ''dev:dev'' = ''dev:dev''" "split_once (CHR '':'') ''dev:dev'' = Some (''dev'', ''dev'')"
    by (simp_all add: starts_with_def trim_plus_def)
  ultimately show ?thesis
    using assms(4) by (simp add: do_push_def helper_resolve_def demo_helper_def demo_checkout_def demo_dev_facts)
qed

lemma pull_merges_last_pushed_witness:
  "\<exists>RJ s s' h1 res. do_push demo_prims hex16 RJ demo_git demo_openmls demo_helper (\<lambda>_. demo_draw) (\<lambda>s. s) (\<lambda>_ _ s. s) demo_dev ''ann/r'' ''dev:dev''
      demo_checkout s = (demo_checkout, s', Inr (''dev'', res)) \<and>
    co_git (fst (fetch_merge demo_prims hex16 RJ merging_git demo_openmls demo_client16 demo_draw True False demo_dev (checkout_at h1) s'))
      = [[1, 2, 3], str_bytes ''2'']"
proof -
  obtain c h1 s1 h2 s2 where story:
    "http_inv demo_prims hex16 (demo_auth ''ann'') demo_repo s1 [h1]"
    "fetch_head_bundle demo_prims hex16 (demo_table c) (http_get_blob hex16 (demo_auth ''ann'') demo_repo s1) [] [] demo_repo demo_material h1
       = Inr \<lparr>fr_head = h1, fr_refs = demo_refs (main_at ''1'') None c, fr_bundle = [1, 2, 3]\<rparr>"
    "push_bundle demo_prims hex16 (demo_table c) demo_keys (rc_host demo_client16) (\<lambda>_. demo_draw) (\<lambda>_ _ s. s) (demo_args dev_and_main dev_head) s1
       = (s2, Inr \<lparr>pr_head_accepted = h2, pr_head_hash = ref_head_hash demo_prims h2, pr_refs = demo_refs dev_and_main dev_head c\<rparr>)"
    "http_inv demo_prims hex16 (demo_auth ''ann'') demo_repo s2 [h1, h2]"
    "fetch_head_bundle demo_prims hex16 (demo_table c) (http_get_blob hex16 (demo_auth ''ann'') demo_repo s2) [] [] demo_repo demo_material h2
       = Inr \<lparr>fr_head = h2, fr_refs = demo_refs dev_and_main dev_head c, fr_bundle = [1, 2, 3]\<rparr>"
    "authentic demo_prims demo_material [] h2"
    by (rule demo_story) blast
  let ?f = "\<lparr>fr_head = h2, fr_refs = demo_refs dev_and_main dev_head c, fr_bundle = [1, 2, 3]\<rparr>"
  let ?res = "\<lparr>pr_head_accepted = h2, pr_head_hash = ref_head_hash demo_prims h2, pr_refs = demo_refs dev_and_main dev_head c\<rparr>"
  have push: "do_push demo_prims hex16 (demo_table c) demo_git demo_openmls demo_helper (\<lambda>_. demo_draw) (\<lambda>s. s) (\<lambda>_ _ s. s) demo_dev ''ann/r''
      ''dev:dev'' demo_checkout s1 = (demo_checkout, s2, Inr (''dev'', ?res))"
    by (rule demo_helper_push [where l = "[]", OF story(2) _ _ story(3)]) (use story(1) in \<open>simp_all add: demo_refs_def\<close>)
  have shape: "log_shape demo_prims [h1, h2]" using story(4) by (simp add: http_inv_def head_log_inv_def Let_def)
  have at: "stands_at demo_prims hex16 (checkout_at h1) (take 1 [h1, h2])"
    using marks_stands [OF _ _ log_shape_first [OF shape] hex16_plain, of "checkout_at h1"] by (simp add: checkout_at_facts)
  have batch: "pull_batch demo_prims hex16 (demo_table c) demo_openmls demo_client16 demo_draw demo_dev (checkout_at h1) s2 = Inr ([] @ [?f])"
    using pull_batch_honest [where r = demo_record and n = 1 and b = "\<lambda>_. ?f" and M = demo_openmls and dv = demo_dev and m = demo_material and dr = demo_draw
        and RJ = "demo_table c" and J = "\<lambda>_. None" and B = demo_parsers and show_meta = "\<lambda>_. []", unfolded demo_dev_facts, OF story(4) _ at checkout_at_facts(1)]
      story(5,6) by (simp add: demo_dev_facts demo_material_fields)
  obtain co3 where co3: "apply_batch demo_prims hex16 merging_git ([] @ [?f]) (checkout_at h1) = (co3, Inr ())" "co_git co3 = [[1, 2, 3]]"
    by (simp add: demo_not_ref_only merging_import record_applied_seq_def checkout_at_def demo_checkout_def)
  have "track_tip merging_git refs g = g" for refs g
    by (induction refs) (simp_all add: track_tip_def merging_git_def demo_git_def case_prod_beta)
  moreover have dev: "full_ref ''dev'' = ''refs/heads/dev''" "\<not> starts_with '':'' (trim_plus ''dev:dev'')"
    by (simp_all add: full_ref_def starts_with_def trim_plus_def)
  moreover have "fr_refs ?f = pr_refs ?res" "map_of (er_refs (pr_refs ?res)) (full_ref ''dev'') = Some ''2''"
    by (simp_all add: demo_refs_def dev(1))
  moreover have "\<not> g_is_ancestor merging_git g a b" "g_merge merging_git oid g = (g @ [str_bytes oid], True)" for g a b oid
    by (simp_all add: merging_git_def)
  ultimately have "co_git (fst (fetch_merge demo_prims hex16 (demo_table c) merging_git demo_openmls demo_client16 demo_draw True False demo_dev (checkout_at h1) s2))
      = [[1, 2, 3], str_bytes ''2'']"
    using pull_merges_last_pushed [OF disjI2 [OF conjI [OF push conjI [OF dev(2) refl]]] batch _ co3(1) _ refl] co3(2) by simp
  with push show ?thesis by blast
qed

end
