(* ===== verification/Unicode.thy ===== *)
theory Unicode
  imports Prelude
begin

text \<open>
  Unicode text as Rust's standard library has it: a \<^verbatim>\<open>char\<close> is its scalar value, \<^verbatim>\<open>str::as_bytes\<close> is
  UTF-8, and \<^verbatim>\<open>from_utf8\<close> accepts exactly the encodings of scalar values.
\<close>

type_synonym uchar = nat
type_synonym utext = "uchar list"

definition scalar :: "uchar \<Rightarrow> bool" where
  "scalar c \<longleftrightarrow> c < 0xD800 \<or> 0xE000 \<le> c \<and> c < 0x110000"

text \<open>\<^verbatim>\<open>n as u8\<close>.\<close>

definition as_u8 :: "nat \<Rightarrow> u8" where
  "as_u8 n = of_nat n"

lemma unat_as_u8: "n < 256 \<Longrightarrow> unat (as_u8 n) = n"
  by (simp add: as_u8_def unat_of_nat)

definition utf8_char :: "uchar \<Rightarrow> bytes" where
  "utf8_char c =
     (if c < 0x80 then [as_u8 c]
      else if c < 0x800 then [as_u8 (0xC0 + c div 64), as_u8 (0x80 + c mod 64)]
      else if c < 0x10000 then [as_u8 (0xE0 + c div 4096), as_u8 (0x80 + c div 64 mod 64), as_u8 (0x80 + c mod 64)]
      else [as_u8 (0xF0 + c div 262144), as_u8 (0x80 + c div 4096 mod 64), as_u8 (0x80 + c div 64 mod 64),
            as_u8 (0x80 + c mod 64)])"

definition as_bytes :: "utext \<Rightarrow> bytes" where
  "as_bytes s = concat (map utf8_char s)"

lemma as_bytes_simps [simp]: "as_bytes [] = []" "as_bytes (c # s) = utf8_char c @ as_bytes s"
  "as_bytes (s @ t) = as_bytes s @ as_bytes t"
  by (simp_all add: as_bytes_def)

text \<open>The low six bits of a continuation byte.\<close>

definition cont_bits :: "u8 \<Rightarrow> nat option" where
  "cont_bits b = (if 0x80 \<le> unat b \<and> unat b < 0xC0 then Some (unat b - 0x80) else None)"

fun utf8_next :: "bytes \<Rightarrow> (uchar \<times> bytes) option" where
  "utf8_next [] = None"
| "utf8_next (b # r) =
     (let n = unat b in
      if n < 0x80 then Some (n, r)
      else if n < 0xC2 then None
      else if n < 0xE0 then
        (case r of
           x # r' \<Rightarrow> (case cont_bits x of Some i \<Rightarrow> Some ((n - 0xC0) * 64 + i, r') | None \<Rightarrow> None)
         | _ \<Rightarrow> None)
      else if n < 0xF0 then
        (case r of
           x # y # r' \<Rightarrow>
             (case (cont_bits x, cont_bits y) of
                (Some i, Some j) \<Rightarrow>
                  let c = (n - 0xE0) * 4096 + i * 64 + j in if 0x800 \<le> c \<and> scalar c then Some (c, r') else None
              | _ \<Rightarrow> None)
         | _ \<Rightarrow> None)
      else if n < 0xF5 then
        (case r of
           x # y # z # r' \<Rightarrow>
             (case (cont_bits x, cont_bits y, cont_bits z) of
                (Some i, Some j, Some k) \<Rightarrow>
                  let c = (n - 0xF0) * 262144 + i * 4096 + j * 64 + k
                  in if 0x10000 \<le> c \<and> scalar c then Some (c, r') else None
              | _ \<Rightarrow> None)
         | _ \<Rightarrow> None)
      else None)"

lemma utf8_next_shorter: "utf8_next b = Some (c, r) \<Longrightarrow> length r < length b"
  by (induction b rule: utf8_next.induct) (auto simp: Let_def split: if_splits list.splits option.splits)

function utf8_decode :: "bytes \<Rightarrow> utext option" where
  "utf8_decode b =
     (if b = [] then Some []
      else case utf8_next b of None \<Rightarrow> None | Some (c, r) \<Rightarrow> map_option ((#) c) (utf8_decode r))"
  by pat_completeness auto
termination by (relation "measure length") (auto dest: utf8_next_shorter)

declare utf8_decode.simps [simp del]

lemma cont_bits_as_u8: "i < 64 \<Longrightarrow> cont_bits (as_u8 (128 + i)) = Some i"
  by (simp add: cont_bits_def unat_as_u8)

lemma utf8_next_char:
  assumes "scalar c"
  shows "utf8_next (utf8_char c @ r) = Some (c, r)"
proof -
  have top: "c < 0x110000" using assms by (auto simp: scalar_def)
  have low: "cont_bits (as_u8 (0x80 + x mod 64)) = Some (x mod 64)" for x by (rule cont_bits_as_u8) simp
  have two: "c = c div 64 * 64 + c mod 64" by simp
  have three: "c = c div 4096 * 4096 + c div 64 mod 64 * 64 + c mod 64"
  proof -
    have "c div 4096 = c div 64 div 64" using div_mult2_eq [of c 64 64] by simp
    then show ?thesis using div_mult_mod_eq [of "c div 64" 64] two by linarith
  qed
  have "c div 4096 = c div 262144 * 64 + c div 4096 mod 64"
  proof -
    have "c div 262144 = c div 4096 div 64" using div_mult2_eq [of c 4096 64] by simp
    then show ?thesis using div_mult_mod_eq [of "c div 4096" 64] by linarith
  qed
  then have four: "c = c div 262144 * 262144 + c div 4096 mod 64 * 4096 + c div 64 mod 64 * 64 + c mod 64"
    using three by linarith
  consider "c < 0x80" | "0x80 \<le> c" "c < 0x800" | "0x800 \<le> c" "c < 0x10000" | "0x10000 \<le> c" by linarith
  then show ?thesis
  proof cases
    case 1
    then show ?thesis by (simp add: utf8_char_def unat_as_u8)
  next
    case 2
    define q where "q = c div 64"
    have q: "2 \<le> q" "q < 32" "c = q * 64 + c mod 64" using 2 two unfolding q_def by linarith+
    have "utf8_char c = [as_u8 (0xC0 + q), as_u8 (0x80 + c mod 64)]" using 2 by (simp add: utf8_char_def q_def)
    moreover have "unat (as_u8 (0xC0 + q)) = 0xC0 + q" using q by (intro unat_as_u8) simp
    ultimately show ?thesis using q by (simp add: low [simplified] Let_def)
  next
    case 3
    then have "unat (as_u8 (0xE0 + c div 4096)) = 0xE0 + c div 4096" by (intro unat_as_u8) simp
    with 3 three assms show ?thesis by (simp add: utf8_char_def low [simplified] Let_def)
  next
    case 4
    then have "unat (as_u8 (0xF0 + c div 262144)) = 0xF0 + c div 262144" using top by (intro unat_as_u8) simp
    with 4 four assms top show ?thesis by (simp add: utf8_char_def low [simplified] Let_def)
  qed
qed

lemma utf8_char_not_Nil [simp]: "utf8_char c \<noteq> []"
  by (simp add: utf8_char_def)

lemma utf8_decode_as_bytes: "list_all scalar s \<Longrightarrow> utf8_decode (as_bytes s) = Some s"
  by (induction s) (subst utf8_decode.simps, simp add: utf8_next_char)+

end
