(* ===== verification/Sgit_Diff.thy ===== *)
theory Sgit_Diff
  imports Unicode "HOL-Library.Sublist"
begin

text \<open>
  The two diffs of \<^verbatim>\<open>sgit-rs/src/diff.rs\<close>: \<^verbatim>\<open>ComDiff_line\<close> over lines and \<^verbatim>\<open>ComDiff_char\<close> over
  characters, the operations they produce, and applying them.  A document is
  the list of its units; \<^verbatim>\<open>usize\<close> is 64 bits, so that an index read from an encoded block may be any
  number below \<open>2 ^ 64\<close>.  What would panic is \<open>None\<close>.
\<close>

section \<open>Operations\<close>

datatype op = Insert (op_idx: nat) (op_m: utext) | Delete (op_idx: nat) (op_len: nat)

fun op_payload_bytes :: "op \<Rightarrow> nat" where
  "op_payload_bytes (Insert _ m) = length (as_bytes m)"
| "op_payload_bytes (Delete _ _) = 0"

definition payload_bytes :: "op list \<Rightarrow> nat" where
  "payload_bytes ops = sum_list (map op_payload_bytes ops)"

text \<open>
  Both appliers differ in the units only.  The sum \<^verbatim>\<open>s + *len\<close> wraps in a release build; \<^verbatim>\<open>drain(s..e)\<close>
  with \<open>e < s\<close> panics.
\<close>

fun apply_op :: "(utext \<Rightarrow> 'u list) \<Rightarrow> op \<Rightarrow> 'u list \<Rightarrow> 'u list option" where
  "apply_op units (Delete idx len) v =
     (let s = min idx (length v); e = min ((s + len) mod 2 ^ 64) (length v)
      in if e < s then None else Some (take s v @ drop e v))"
| "apply_op units (Insert idx m) v = (let s = min idx (length v) in Some (take s v @ units m @ drop s v))"

fun apply_ops :: "(utext \<Rightarrow> 'u list) \<Rightarrow> op list \<Rightarrow> 'u list \<Rightarrow> 'u list option" where
  "apply_ops units [] v = Some v"
| "apply_ops units (o1 # ops) v = (case apply_op units o1 v of None \<Rightarrow> None | Some v1 \<Rightarrow> apply_ops units ops v1)"

definition apply_chars :: "utext \<Rightarrow> op list \<Rightarrow> utext option" where
  "apply_chars base ops = apply_ops (\<lambda>m. m) ops base"

definition newline :: uchar where "newline = 10"

text \<open>\<open>cur\<close> is the line being collected.\<close>

fun split_loop :: "utext \<Rightarrow> utext \<Rightarrow> utext list" where
  "split_loop cur [] = (if cur = [] then [] else [cur])"
| "split_loop cur (c # s) = (if c = newline then (cur @ [c]) # split_loop [] s else split_loop (cur @ [c]) s)"

definition split_lines :: "utext \<Rightarrow> utext list" where
  "split_lines s = split_loop [] s"

definition apply_lines :: "utext \<Rightarrow> op list \<Rightarrow> utext option" where
  "apply_lines base ops = map_option concat (apply_ops split_lines ops (split_lines base))"

section \<open>Longest common subsequences\<close>

text \<open>
  The table, last row first: row \<open>i\<close> has the lengths for \<open>a[i..]\<close> against every \<open>b[j..]\<close>, filled from the
  right and from the row below.
\<close>

fun dp_row :: "'u \<Rightarrow> 'u list \<Rightarrow> u32 list \<Rightarrow> u32 list" where
  "dp_row x (y # ys) (n0 # n1 # below) =
     (let row = dp_row x ys (n1 # below)
      in (if x = y then n1 + 1 else max n0 (hd row)) # row)"
| "dp_row x _ _ = [0]"

fun dp_table :: "'u list \<Rightarrow> 'u list \<Rightarrow> u32 list list" where
  "dp_table [] b = [replicate (length b + 1) 0]"
| "dp_table (x # a) b = (let t = dp_table a b in dp_row x b (hd t) # t)"

function lcs_walk :: "'u list \<Rightarrow> 'u list \<Rightarrow> u32 list list \<Rightarrow> nat \<Rightarrow> nat \<Rightarrow> (nat \<times> nat) list" where
  "lcs_walk a b dp i j =
     (if i < length a \<and> j < length b then
        if a ! i = b ! j then (i, j) # lcs_walk a b dp (i + 1) (j + 1)
        else if dp ! (i + 1) ! j \<ge> dp ! i ! (j + 1) then lcs_walk a b dp (i + 1) j
        else lcs_walk a b dp i (j + 1)
      else [])"
  by pat_completeness auto
termination by (relation "measure (\<lambda>(a, b, dp, i, j). (length a - i) + (length b - j))") auto

declare lcs_walk.simps [simp del]

lemma lcs_walk_end: "\<not> (i < length a \<and> j < length b) \<Longrightarrow> lcs_walk a b dp i j = []"
  by (subst lcs_walk.simps) argo

definition lcs_pairs :: "'u list \<Rightarrow> 'u list \<Rightarrow> (nat \<times> nat) list" where
  "lcs_pairs a b = (if a = [] \<or> b = [] then [] else lcs_walk a b (dp_table a b) 0 0)"

section \<open>Line-granular diff\<close>

definition emit :: "nat \<Rightarrow> utext \<Rightarrow> nat \<Rightarrow> op list" where
  "emit del ins at = (if del > 0 then [Delete at del] else []) @ (if ins \<noteq> [] then [Insert at ins] else [])"

text \<open>\<open>cur\<close> is the index into the evolving document.\<close>

fun pairs_loop :: "utext list \<Rightarrow> utext list \<Rightarrow> (nat \<times> nat) list \<Rightarrow> nat \<Rightarrow> nat \<Rightarrow> nat \<Rightarrow> op list" where
  "pairs_loop old new [] oi ni cur = emit (length old - oi) (concat (drop ni new)) cur"
| "pairs_loop old new ((po, pn) # pairs) oi ni cur =
     (let del = po - oi; seg = take (pn - ni) (drop ni new); ins = concat seg
      in if del > 0 \<or> ins \<noteq> []
         then emit del ins cur @ pairs_loop old new pairs (po + 1) (pn + 1) (cur + length seg + 1)
         else pairs_loop old new pairs (po + 1) (pn + 1) (cur + 1))"

definition ops_from_pairs :: "utext list \<Rightarrow> utext list \<Rightarrow> (nat \<times> nat) list \<Rightarrow> op list" where
  "ops_from_pairs old new pairs = pairs_loop old new pairs 0 0 0"

definition com_diff_line :: "utext \<Rightarrow> utext \<Rightarrow> op list" where
  "com_diff_line old new =
     (let a = split_lines old; b = split_lines new in ops_from_pairs a b (lcs_pairs a b))"

section \<open>Segments\<close>

definition EDIT_COST :: nat where "EDIT_COST = 4"

datatype 'u seg = Eq (seg_units: "'u list") | Del (seg_units: "'u list") | Ins (seg_units: "'u list")

fun is_eq :: "'u seg \<Rightarrow> bool" where
  "is_eq (Eq _) = True"
| "is_eq _ = False"

text \<open>
  First half of a round: short equalities between two other segments become edits.  The flag \<open>first\<close>
  says that nothing has been put out; the second result is \<^verbatim>\<open>changed\<close>.
\<close>

fun absorb :: "bool \<Rightarrow> 'u seg list \<Rightarrow> 'u seg list \<times> bool" where
  "absorb first [] = ([], False)"
| "absorb first (s # segs) =
     (case absorb False segs of (out, ch) \<Rightarrow>
        if is_eq s \<and> \<not> first \<and> segs \<noteq> [] \<and> length (seg_units s) < EDIT_COST
        then (Del (seg_units s) # Ins (seg_units s) # out, True)
        else (s # out, ch))"

text \<open>The edits at the front of a list, their deletions, insertions and number, and what follows.\<close>

fun edit_run :: "'u seg list \<Rightarrow> 'u list \<times> 'u list \<times> nat \<times> 'u seg list" where
  "edit_run (Del v # segs) = (case edit_run segs of (d, i, n, r) \<Rightarrow> (v @ d, i, n + 1, r))"
| "edit_run (Ins v # segs) = (case edit_run segs of (d, i, n, r) \<Rightarrow> (d, v @ i, n + 1, r))"
| "edit_run segs = ([], [], 0, segs)"

lemma edit_run_shorter: "edit_run segs = (d, i, n, r) \<Longrightarrow> length r + n = length segs"
  by (induction segs arbitrary: d i n r rule: edit_run.induct) (auto split: prod.splits)

text \<open>
  Second half: adjacent equalities merge, empty ones go, and every run of edits becomes one deletion
  and one insertion.  \<open>acc\<close> is the equality at the end of what has been put out.
\<close>

definition push_eq :: "'u list \<Rightarrow> 'u seg list \<Rightarrow> 'u seg list \<times> bool" where
  "push_eq v merged =
     (if merged \<noteq> [] \<and> is_eq (last merged) then (butlast merged @ [Eq (seg_units (last merged) @ v)], True)
      else (merged @ [Eq v], False))"

function normalise :: "'u seg list \<Rightarrow> 'u seg list \<Rightarrow> bool \<Rightarrow> 'u seg list \<times> bool" where
  "normalise [] merged ch = (merged, ch)"
| "normalise (s # segs) merged ch =
     (if is_eq s then
        (if seg_units s = [] then normalise segs merged ch
         else case push_eq (seg_units s) merged of (m, c) \<Rightarrow> normalise segs m (ch \<or> c))
      else case edit_run (s # segs) of (d, i, n, r) \<Rightarrow>
        normalise r (merged @ (if d \<noteq> [] then [Del d] else []) @ (if i \<noteq> [] then [Ins i] else [])) (ch \<or> n > 2))"
  by pat_completeness auto
termination
proof (relation "measure (\<lambda>(segs, merged, ch). length segs)", goal_cases)
  case (4 s segs)
  then show ?case by (cases s) (auto dest!: edit_run_shorter split: prod.splits)
qed simp_all

definition cleanup_round :: "'u seg list \<Rightarrow> 'u seg list \<times> bool" where
  "cleanup_round segs = (case absorb True segs of (out, ch) \<Rightarrow> normalise out [] ch)"

text \<open>What a segment list says of the old and the new text.\<close>

definition old_of :: "'u seg list \<Rightarrow> 'u list" where
  "old_of segs = concat (map (\<lambda>s. case s of Eq v \<Rightarrow> v | Del v \<Rightarrow> v | Ins _ \<Rightarrow> []) segs)"

definition new_of :: "'u seg list \<Rightarrow> 'u list" where
  "new_of segs = concat (map (\<lambda>s. case s of Eq v \<Rightarrow> v | Del _ \<Rightarrow> [] | Ins v \<Rightarrow> v) segs)"

definition eqs :: "'u seg list \<Rightarrow> nat" where
  "eqs segs = length (filter is_eq segs)"

lemma of_simps [simp]:
  "old_of [] = []" "old_of (Eq v # s) = v @ old_of s" "old_of (Del v # s) = v @ old_of s" "old_of (Ins v # s) = old_of s"
  "new_of [] = []" "new_of (Eq v # s) = v @ new_of s" "new_of (Del v # s) = new_of s" "new_of (Ins v # s) = v @ new_of s"
  "old_of (s1 @ s2) = old_of s1 @ old_of s2" "new_of (s1 @ s2) = new_of s1 @ new_of s2"
  by (simp_all add: old_of_def new_of_def)

lemma eqs_simps [simp]:
  "eqs [] = 0" "eqs (s # r) = (if is_eq s then 1 else 0) + eqs r" "eqs (s1 @ s2) = eqs s1 + eqs s2"
  by (simp_all add: eqs_def)

lemma is_eq_seg: "is_eq s \<Longrightarrow> s = Eq (seg_units s)"
  by (cases s) auto

lemma absorb_spec:
  "absorb first segs = (out, ch) \<Longrightarrow>
     old_of out = old_of segs \<and> new_of out = new_of segs \<and> (if ch then eqs out < eqs segs else out = segs)"
proof (induction segs arbitrary: first out ch)
  case (Cons s segs)
  obtain o1 c1 where rec: "absorb False segs = (o1, c1)" by fastforce
  with Cons.IH [OF rec] Cons.prems show ?case by (cases s) (auto split: if_splits)
qed simp

lemma edit_run_spec:
  "edit_run segs = (d, i, n, r) \<Longrightarrow>
     old_of segs = d @ old_of r \<and> new_of segs = i @ new_of r \<and> eqs segs = eqs r \<and> length segs = n + length r \<and>
     (if d \<noteq> [] then 1 else 0) + (if i \<noteq> [] then 1 else 0) \<le> n"
proof (induction segs arbitrary: d i n r rule: edit_run.induct)
  case (1 v segs)
  then show ?case by (cases "edit_run segs") (fastforce split: if_splits)
next
  case (2 v segs)
  then show ?case by (cases "edit_run segs") (fastforce split: if_splits)
qed auto

lemma push_eq_spec:
  assumes "push_eq v merged = (m, c)"
  shows "old_of m = old_of merged @ v \<and> new_of m = new_of merged @ v \<and>
    (if c then eqs m = eqs merged \<and> length m = length merged else eqs m = Suc (eqs merged) \<and> length m = Suc (length merged))"
proof (cases "merged \<noteq> [] \<and> is_eq (last merged)")
  case True
  then obtain b w where m: "merged = b @ [Eq w]" by (metis append_butlast_last_id is_eq_seg)
  with assms show ?thesis by (auto simp: push_eq_def)
next
  case False
  with assms show ?thesis by (auto simp: push_eq_def)
qed

lemma normalise_spec:
  "normalise segs merged ch = (m, ch') \<Longrightarrow>
     old_of m = old_of merged @ old_of segs \<and> new_of m = new_of merged @ new_of segs \<and>
     eqs m \<le> eqs merged + eqs segs \<and> length m \<le> length merged + length segs \<and>
     (ch' \<longrightarrow> ch \<or> length m < length merged + length segs)"
proof (induction segs merged ch arbitrary: m ch' rule: normalise.induct)
  case (2 s segs merged ch)
  show ?case
  proof (cases "is_eq s")
    case True
    then obtain v where s: "s = Eq v" by (metis is_eq_seg)
    show ?thesis
    proof (cases "v = []")
      case True
      with 2 s show ?thesis by (fastforce split: if_splits)
    next
      case False
      obtain m1 c where push: "push_eq v merged = (m1, c)" by fastforce
      with 2(4) s False have rest: "normalise segs m1 (ch \<or> c) = (m, ch')" by simp
      have "old_of m = old_of m1 @ old_of segs \<and> new_of m = new_of m1 @ new_of segs \<and>
          eqs m \<le> eqs m1 + eqs segs \<and> length m \<le> length m1 + length segs \<and>
          (ch' \<longrightarrow> (ch \<or> c) \<or> length m < length m1 + length segs)"
        by (rule 2(2) [OF _ _ _ rest]) (use s False push in simp_all)
      with push_eq_spec [OF push] s show ?thesis by (auto split: if_splits)
    qed
  next
    case False
    obtain d i n r where run: "edit_run (s # segs) = (d, i, n, r)" by (metis prod_cases4)
    let ?m1 = "merged @ (if d \<noteq> [] then [Del d] else []) @ (if i \<noteq> [] then [Ins i] else [])"
    have rest: "normalise r ?m1 (ch \<or> n > 2) = (m, ch')" using 2(4) False run by simp
    have "old_of m = old_of ?m1 @ old_of r \<and> new_of m = new_of ?m1 @ new_of r \<and>
          eqs m \<le> eqs ?m1 + eqs r \<and> length m \<le> length ?m1 + length r \<and>
          (ch' \<longrightarrow> (ch \<or> n > 2) \<or> length m < length ?m1 + length r)"
      by (rule 2(3) [OF False run [symmetric] refl refl rest])
    with edit_run_spec [OF run] show ?thesis by (auto split: if_splits)
  qed
qed simp

lemma cleanup_round_spec:
  assumes "cleanup_round segs = (m, ch)"
  shows "old_of m = old_of segs \<and> new_of m = new_of segs \<and>
    (ch \<longrightarrow> eqs m < eqs segs \<or> eqs m \<le> eqs segs \<and> length m < length segs)"
proof -
  obtain out c where a: "absorb True segs = (out, c)" by fastforce
  with assms have "normalise out [] c = (m, ch)" by (simp add: cleanup_round_def)
  from absorb_spec [OF a] normalise_spec [OF this] show ?thesis by (auto split: if_splits)
qed

text \<open>Every round that changes something has fewer equalities, or as many and fewer segments.\<close>

function cleanup :: "'u seg list \<Rightarrow> 'u seg list" where
  "cleanup segs = (case cleanup_round segs of (m, ch) \<Rightarrow> if ch then cleanup m else m)"
  by pat_completeness auto
termination
  by (relation "measures [eqs, length]") (auto dest!: cleanup_round_spec [OF sym])

declare cleanup.simps [simp del]

section \<open>Character-granular diff\<close>

fun segs_loop :: "'u list \<Rightarrow> 'u list \<Rightarrow> (nat \<times> nat) list \<Rightarrow> nat \<Rightarrow> nat \<Rightarrow> 'u seg list" where
  "segs_loop a b [] oi ni =
     (if oi < length a then [Del (drop oi a)] else []) @ (if ni < length b then [Ins (drop ni b)] else [])"
| "segs_loop a b ((po, pn) # pairs) oi ni =
     (if po > oi then [Del (take (po - oi) (drop oi a))] else []) @
     (if pn > ni then [Ins (take (pn - ni) (drop ni b))] else []) @
     Eq [a ! po] # segs_loop a b pairs (po + 1) (pn + 1)"

definition segs_from_pairs :: "'u list \<Rightarrow> 'u list \<Rightarrow> (nat \<times> nat) list \<Rightarrow> 'u seg list" where
  "segs_from_pairs a b pairs = segs_loop a b pairs 0 0"

fun ops_from_segs :: "uchar seg list \<Rightarrow> nat \<Rightarrow> op list" where
  "ops_from_segs [] cur = []"
| "ops_from_segs (Eq v # segs) cur = ops_from_segs segs (cur + length v)"
| "ops_from_segs (Del v # segs) cur = Delete cur (length v) # ops_from_segs segs cur"
| "ops_from_segs (Ins v # segs) cur = Insert cur v # ops_from_segs segs (cur + length v)"

definition CHAR_LCS_CAP :: nat where "CHAR_LCS_CAP = 4096"

text \<open>The lengths of the common prefix, and of the common suffix of what remains.\<close>

function common_prefix :: "'u list \<Rightarrow> 'u list \<Rightarrow> nat \<Rightarrow> nat" where
  "common_prefix a b p = (if p < length a \<and> p < length b \<and> a ! p = b ! p then common_prefix a b (p + 1) else p)"
  by pat_completeness auto
termination by (relation "measure (\<lambda>(a, b, p). length a - p)") auto

function common_suffix :: "'u list \<Rightarrow> 'u list \<Rightarrow> nat \<Rightarrow> nat \<Rightarrow> nat" where
  "common_suffix a b p s =
     (if s < length a - p \<and> s < length b - p \<and> a ! (length a - 1 - s) = b ! (length b - 1 - s)
      then common_suffix a b p (s + 1) else s)"
  by pat_completeness auto
termination by (relation "measure (\<lambda>(a, b, p, s). length a - s)") auto

declare common_prefix.simps [simp del] common_suffix.simps [simp del]

lemma common_prefix_stop: "\<not> (p < length a \<and> p < length b \<and> a ! p = b ! p) \<Longrightarrow> common_prefix a b p = p"
  by (subst common_prefix.simps) argo

lemma common_suffix_stop:
  "\<not> (s < length a - p \<and> s < length b - p \<and> a ! (length a - 1 - s) = b ! (length b - 1 - s)) \<Longrightarrow> common_suffix a b p s = s"
  by (subst common_suffix.simps) argo

text \<open>The middle \<open>am\<close> of the old text, at position \<open>p\<close>, becomes \<open>bm\<close>: refined, or replaced whole when it is long.\<close>

definition middle_ops :: "nat \<Rightarrow> utext \<Rightarrow> utext \<Rightarrow> op list" where
  "middle_ops p am bm =
     (if length am \<le> CHAR_LCS_CAP \<and> length bm \<le> CHAR_LCS_CAP
      then ops_from_segs (cleanup (segs_from_pairs am bm (lcs_pairs am bm))) p
      else (if am \<noteq> [] then [Delete p (length am)] else []) @ (if bm \<noteq> [] then [Insert p bm] else []))"

definition com_diff_char :: "utext \<Rightarrow> utext \<Rightarrow> op list" where
  "com_diff_char ac bc =
     (let p = common_prefix ac bc 0; s = common_suffix ac bc p 0
      in middle_ops p (take (length ac - s - p) (drop p ac)) (take (length bc - s - p) (drop p bc)))"

section \<open>Matched pairs\<close>

text \<open>Pairs of equal units, increasing in both documents, from the positions \<open>i\<close> and \<open>j\<close> on.\<close>

fun matching :: "'u list \<Rightarrow> 'u list \<Rightarrow> nat \<Rightarrow> nat \<Rightarrow> (nat \<times> nat) list \<Rightarrow> bool" where
  "matching a b i j [] \<longleftrightarrow> i \<le> length a \<and> j \<le> length b"
| "matching a b i j ((po, pn) # pairs) \<longleftrightarrow>
     i \<le> po \<and> po < length a \<and> j \<le> pn \<and> pn < length b \<and> a ! po = b ! pn \<and> matching a b (po + 1) (pn + 1) pairs"

lemma matching_earlier: "matching a b i j pairs \<Longrightarrow> i' \<le> i \<Longrightarrow> j' \<le> j \<Longrightarrow> matching a b i' j' pairs"
  by (cases "(a, b, i, j, pairs)" rule: matching.cases) auto

lemma matching_walk: "i \<le> length a \<Longrightarrow> j \<le> length b \<Longrightarrow> matching a b i j (lcs_walk a b dp i j)"
proof (induction a b dp i j rule: lcs_walk.induct)
  case (1 a b dp i j)
  show ?case
  proof (cases "i < length a \<and> j < length b")
    case True
    consider "a ! i = b ! j" | "a ! i \<noteq> b ! j" "dp ! (i + 1) ! j \<ge> dp ! i ! (j + 1)"
      | "a ! i \<noteq> b ! j" "\<not> dp ! (i + 1) ! j \<ge> dp ! i ! (j + 1)" by blast
    then show ?thesis
    proof cases
      case 1
      with True "1.IH"(1) show ?thesis by (subst lcs_walk.simps) simp
    next
      case 2
      with True "1.IH"(2) show ?thesis by (subst lcs_walk.simps) (auto intro: matching_earlier [where i = "i + 1" and j = j])
    next
      case 3
      with True "1.IH"(3) show ?thesis by (subst lcs_walk.simps) (auto intro: matching_earlier [where i = i and j = "j + 1"])
    qed
  qed (use "1.prems" in \<open>simp add: lcs_walk_end\<close>)
qed

lemma matching_lcs: "matching a b 0 0 (lcs_pairs a b)"
  by (simp add: lcs_pairs_def matching_walk)

lemma drop_skip: "i \<le> p \<Longrightarrow> p < length a \<Longrightarrow> drop i a = take (p - i) (drop i a) @ a ! p # drop (Suc p) a"
  by (metis Cons_nth_drop_Suc append_take_drop_id drop_drop le_add_diff_inverse2)

lemma segs_loop_texts:
  "matching a b oi ni pairs \<Longrightarrow> old_of (segs_loop a b pairs oi ni) = drop oi a \<and> new_of (segs_loop a b pairs oi ni) = drop ni b"
proof (induction a b pairs oi ni rule: segs_loop.induct)
  case (2 a b po pn pairs oi ni)
  then have "matching a b (po + 1) (pn + 1) pairs" by simp
  from 2(1) [OF this] have "old_of (segs_loop a b ((po, pn) # pairs) oi ni) = take (po - oi) (drop oi a) @ a ! po # drop (Suc po) a"
    "new_of (segs_loop a b ((po, pn) # pairs) oi ni) = take (pn - ni) (drop ni b) @ a ! po # drop (Suc pn) b"
    by auto
  moreover have "a ! po = b ! pn" "oi \<le> po" "po < length a" "ni \<le> pn" "pn < length b" using 2(2) by simp_all
  ultimately show ?case using drop_skip [of oi po a] drop_skip [of ni pn b] by simp
qed auto

lemma cleanup_texts: "old_of (cleanup segs) = old_of segs \<and> new_of (cleanup segs) = new_of segs"
proof (induction segs rule: cleanup.induct)
  case (1 segs)
  obtain m ch where "cleanup_round segs = (m, ch)" by fastforce
  with 1 cleanup_round_spec [OF this] show ?case by (subst (1 2) cleanup.simps) simp
qed

section \<open>The diffs reconstruct the new text\<close>

lemma apply_ops_append:
  "apply_ops units (os1 @ os2) v = (case apply_ops units os1 v of None \<Rightarrow> None | Some w \<Rightarrow> apply_ops units os2 w)"
  by (induction os1 arbitrary: v) (auto split: option.splits)

lemma apply_Delete:
  "length pre + length del + length suf < 2 ^ 64 \<Longrightarrow>
     apply_op units (Delete (length pre) (length del)) (pre @ del @ suf) = Some (pre @ suf)"
  by (simp add: Let_def)

lemma apply_Insert: "apply_op units (Insert (length pre) m) (pre @ suf) = Some (pre @ units m @ suf)"
  by (simp add: Let_def)

lemma apply_segs:
  "length pre + length (old_of segs) + length (new_of segs) + length suf < 2 ^ 64 \<Longrightarrow>
     apply_ops (\<lambda>m. m) (ops_from_segs segs (length pre)) (pre @ old_of segs @ suf) = Some (pre @ new_of segs @ suf)"
proof (induction segs "length pre" arbitrary: pre rule: ops_from_segs.induct)
  case (2 v segs)
  from 2(1) [of "pre @ v"] 2(2) show ?case by simp
next
  case (3 v segs)
  have "apply_op (\<lambda>m. m) (Delete (length pre) (length v)) (pre @ v @ old_of segs @ suf) = Some (pre @ old_of segs @ suf)"
    using 3(2) apply_Delete [where suf = "old_of segs @ suf"] by (simp del: apply_op.simps)
  with 3 show ?case by (simp del: apply_op.simps)
next
  case (4 v segs)
  from 4(1) [of "pre @ v"] 4(2) apply_Insert [where m = v and pre = pre and units = "\<lambda>m. m" and suf = "old_of segs @ suf"]
  show ?case by (simp del: apply_op.simps)
qed simp

lemma common_prefix_spec:
  "take q a = take q b \<Longrightarrow> q \<le> length a \<Longrightarrow> q \<le> length b \<Longrightarrow>
     take (common_prefix a b q) a = take (common_prefix a b q) b \<and> common_prefix a b q \<le> length a \<and> common_prefix a b q \<le> length b"
proof (induction a b q rule: common_prefix.induct)
  case (1 a b q)
  show ?case
  proof (cases "q < length a \<and> q < length b \<and> a ! q = b ! q")
    case True
    with 1 show ?thesis by (subst (1 2 3 4) common_prefix.simps) (simp add: take_Suc_conv_app_nth)
  qed (use 1 in \<open>simp add: common_prefix_stop\<close>)
qed

lemma common_suffix_spec:
  "drop (length a - s) a = drop (length b - s) b \<Longrightarrow> s \<le> length a - p \<Longrightarrow> s \<le> length b - p \<Longrightarrow>
     (let t = common_suffix a b p s in drop (length a - t) a = drop (length b - t) b \<and> t \<le> length a - p \<and> t \<le> length b - p)"
proof (induction a b p s rule: common_suffix.induct)
  case (1 a b p s)
  show ?case
  proof (cases "s < length a - p \<and> s < length b - p \<and> a ! (length a - 1 - s) = b ! (length b - 1 - s)")
    case True
    have "drop (length c - Suc s) c = c ! (length c - Suc s) # drop (length c - s) c" if "s < length c" for c :: "'a list"
      using that Cons_nth_drop_Suc [of "length c - Suc s" c] by (simp add: Suc_diff_Suc)
    from this [of a] this [of b] True 1 show ?thesis by (subst common_suffix.simps) simp
  qed (use 1 in \<open>simp add: common_suffix_stop\<close>)
qed

lemma trimmed:
  assumes "p = common_prefix a b 0" and "s = common_suffix a b p 0"
  shows "a = take p a @ take (length a - s - p) (drop p a) @ drop (length a - s) a \<and>
    b = take p a @ take (length b - s - p) (drop p b) @ drop (length a - s) a"
proof -
  have p: "take p a = take p b" "p \<le> length a" "p \<le> length b"
    using common_prefix_spec [of 0 a b] assms(1) by auto
  have s: "drop (length a - s) a = drop (length b - s) b" "s \<le> length a - p" "s \<le> length b - p"
    using common_suffix_spec [of a 0 b p] assms(2) by (auto simp: Let_def)
  have split: "c = take p c @ take (length c - s - p) (drop p c) @ drop (length c - s) c"
    if "p \<le> length c" "s \<le> length c - p" for c :: "'a list"
  proof -
    have "length c - s - p + p = length c - s" using that by linarith
    then show ?thesis by (metis append_take_drop_id drop_drop)
  qed
  from split [OF p(2) s(2)] split [OF p(3) s(3)] p(1) s(1) show ?thesis by metis
qed

text \<open>The middle parts that the character diff refines, or replaces whole.\<close>

lemma char_diff_parts:
  obtains u am bm v where "old = u @ am @ v" "new = u @ bm @ v" "length u = common_prefix old new 0"
    "com_diff_char old new = middle_ops (length u) am bm"
proof -
  define p s where "p = common_prefix old new 0" and "s = common_suffix old new p 0"
  have "length (take p old) = p"
    using common_prefix_spec [of 0 old new] by (simp add: p_def)
  then have "length (take p old) = common_prefix old new 0"
    "com_diff_char old new = middle_ops (length (take p old)) (take (length old - s - p) (drop p old)) (take (length new - s - p) (drop p new))"
    by (simp_all only: com_diff_char_def Let_def p_def s_def)
  with trimmed [OF p_def s_def] show thesis by (blast intro: that)
qed

lemma refined_texts:
  "old_of (cleanup (segs_from_pairs a b (lcs_pairs a b))) = a \<and> new_of (cleanup (segs_from_pairs a b (lcs_pairs a b))) = b"
  using segs_loop_texts [OF matching_lcs [of a b]] by (simp add: cleanup_texts segs_from_pairs_def)

text \<open>
  C23.  The correctness condition of the character diff: applying its operations in order to the old
  text gives the new text, for every pair of texts that fit in memory together, whether the middle is
  refined or replaced whole.
\<close>

theorem char_diff_reconstructs:
  assumes "length old + length new < 2 ^ 64"
  shows "apply_chars old (com_diff_char old new) = Some new"
proof -
  obtain u am bm v where parts: "old = u @ am @ v" "new = u @ bm @ v" and ops: "com_diff_char old new = middle_ops (length u) am bm"
    by (rule char_diff_parts)
  have small: "length u + length am + length bm + length v < 2 ^ 64" using assms by (simp add: parts)
  have "apply_ops (\<lambda>m. m) (middle_ops (length u) am bm) (u @ am @ v) = Some (u @ bm @ v)"
  proof (cases "length am \<le> CHAR_LCS_CAP \<and> length bm \<le> CHAR_LCS_CAP")
    case True
    then show ?thesis
      using apply_segs [of u "cleanup (segs_from_pairs am bm (lcs_pairs am bm))" v] small refined_texts [of am bm]
      by (simp add: middle_ops_def)
  next
    case False
    have "apply_ops (\<lambda>m. m) (if am \<noteq> [] then [Delete (length u) (length am)] else []) (u @ am @ v) = Some (u @ v)"
      using small by (simp add: apply_Delete del: apply_op.simps)
    moreover have "apply_ops (\<lambda>m. m) (if bm \<noteq> [] then [Insert (length u) bm] else []) (u @ v) = Some (u @ bm @ v)"
      by (simp add: apply_Insert del: apply_op.simps)
    ultimately show ?thesis unfolding middle_ops_def if_not_P [OF False] by (simp only: apply_ops_append option.case)
  qed
  then show ?thesis by (simp add: apply_chars_def ops) (simp add: parts)
qed

section \<open>Lines\<close>

text \<open>What splitting yields: every line but the last ends with its only newline, none is empty.\<close>

fun lines_wf :: "utext list \<Rightarrow> bool" where
  "lines_wf [] \<longleftrightarrow> True"
| "lines_wf (l # ls) \<longleftrightarrow> l \<noteq> [] \<and> newline \<notin> set (butlast l) \<and> (ls \<noteq> [] \<longrightarrow> last l = newline) \<and> lines_wf ls"

lemma split_loop_run: "newline \<notin> set l \<Longrightarrow> split_loop cur (l @ s) = split_loop (cur @ l) s"
  by (induction l arbitrary: cur) auto

lemma split_lines_concat: "lines_wf ls \<Longrightarrow> split_lines (concat ls) = ls"
proof (induction ls)
  case (Cons l ls)
  define b x where "b = butlast l" and "x = last l"
  have l: "l = b @ [x]" "newline \<notin> set b" using Cons.prems by (simp_all add: b_def x_def)
  have "split_loop [] (l @ concat ls) = split_loop b (x # concat ls)"
    using split_loop_run [OF l(2), of "[]" "x # concat ls"] by (simp add: l(1))
  moreover have "split_loop [] (concat ls) = ls" using Cons by (simp add: split_lines_def)
  moreover have "ls = []" if "x \<noteq> newline" using Cons.prems that by (auto simp: x_def)
  ultimately have "split_loop [] (l @ concat ls) = l # ls" by (cases "x = newline") (simp_all add: l(1))
  then show ?case by (simp add: split_lines_def)
qed (simp add: split_lines_def)

lemma concat_split_loop: "concat (split_loop cur s) = cur @ s"
  by (induction cur s rule: split_loop.induct) auto

lemma concat_split_lines [simp]: "concat (split_lines s) = s"
  by (simp add: split_lines_def concat_split_loop)

lemma lines_wf_split: "newline \<notin> set cur \<Longrightarrow> lines_wf (split_loop cur s)"
proof (induction cur s rule: split_loop.induct)
  case (1 cur)
  then show ?case by (auto dest: in_set_butlastD)
qed auto

lemma lines_wf_split_lines [simp]: "lines_wf (split_lines s)"
  by (simp add: split_lines_def lines_wf_split)

lemma lines_wf_append: "lines_wf (xs @ ys) \<Longrightarrow> lines_wf xs \<and> lines_wf ys"
  by (induction xs) auto

lemma lines_wf_slice: "lines_wf ls \<Longrightarrow> lines_wf (take n (drop k ls))"
  by (metis append_take_drop_id lines_wf_append)

lemma lines_wf_nonempty: "lines_wf ls \<Longrightarrow> concat ls = [] \<longleftrightarrow> ls = []"
  by (cases ls) auto

lemma apply_emit:
  assumes "lines_wf seg" and "length pre + length del + length suf < 2 ^ 64"
  shows "apply_ops split_lines (emit (length del) (concat seg) (length pre)) (pre @ del @ suf) = Some (pre @ seg @ suf)"
proof -
  have "apply_ops split_lines (if length del > 0 then [Delete (length pre) (length del)] else []) (pre @ del @ suf) = Some (pre @ suf)"
    using apply_Delete [OF assms(2)] by (simp del: apply_op.simps)
  moreover have "apply_ops split_lines (if concat seg \<noteq> [] then [Insert (length pre) (concat seg)] else []) (pre @ suf) = Some (pre @ seg @ suf)"
    using apply_Insert [where pre = pre and m = "concat seg" and units = split_lines] assms(1) lines_wf_nonempty
    by (auto simp: split_lines_concat simp del: apply_op.simps)
  ultimately show ?thesis by (simp add: emit_def apply_ops_append)
qed

lemma pairs_loop_applies:
  "matching old new oi ni pairs \<Longrightarrow> lines_wf new \<Longrightarrow> length old + length new < 2 ^ 64 \<Longrightarrow>
     apply_ops split_lines (pairs_loop old new pairs oi ni ni) (take ni new @ drop oi old) = Some new"
proof (induction old new oi ni pairs rule: matching.induct)
  case (1 old new oi ni)
  then have ni: "length (take ni new) = ni" by simp
  have "lines_wf (drop ni new)" using 1(2) lines_wf_slice [of new "length new" ni] by simp
  moreover have "length (take ni new) + length (drop oi old) + length ([] :: utext list) < 2 ^ 64"
    using 1(1,3) by (auto simp: min_def)
  ultimately show ?case using apply_emit [of "drop ni new" "take ni new" "drop oi old" "[]"] unfolding ni by simp
next
  case (2 old new oi ni po pn pairs)
  let ?del = "take (po - oi) (drop oi old)" and ?seg = "take (pn - ni) (drop ni new)" and ?suf = "old ! po # drop (Suc po) old"
  have m: "oi \<le> po" "po < length old" "ni \<le> pn" "pn < length new" "old ! po = new ! pn" "matching old new (po + 1) (pn + 1) pairs"
    using 2(2) by simp_all
  have lens: "length (take ni new) = ni" "length ?del = po - oi" "ni + length ?seg + 1 = pn + 1" using m by simp_all
  have seg: "lines_wf ?seg" using lines_wf_slice 2(3) by blast
  have split: "drop oi old = ?del @ ?suf" by (rule drop_skip [OF m(1,2)])
  have new: "take ni new @ ?seg = take pn new" using m(3) by (metis le_add_diff_inverse take_add)
  have "apply_ops split_lines (emit (po - oi) (concat ?seg) ni) (take ni new @ drop oi old) = Some (take ni new @ ?seg @ ?suf)"
    using apply_emit [OF seg, of "take ni new" ?del ?suf] 2(4) m unfolding lens split [symmetric] by simp
  moreover have "take ni new @ ?seg @ ?suf = take (pn + 1) new @ drop (po + 1) old"
    using new m by (simp add: take_Suc_conv_app_nth flip: append_assoc)
  moreover have "apply_ops split_lines (pairs_loop old new pairs (po + 1) (pn + 1) (pn + 1)) (take (pn + 1) new @ drop (po + 1) old) = Some new"
    by (rule 2(1) [OF m(6) 2(3,4)])
  moreover have "pairs_loop old new ((po, pn) # pairs) oi ni ni =
      emit (po - oi) (concat ?seg) ni @ pairs_loop old new pairs (po + 1) (pn + 1) (pn + 1)"
  proof (cases "po - oi > 0 \<or> concat ?seg \<noteq> []")
    case True
    then show ?thesis using lens(3) by (simp add: Let_def)
  next
    case False
    then have "length ?seg = 0" using lines_wf_nonempty [OF seg] by (metis list.size(3))
    then have "ni + 1 = pn + 1" using lens(3) by linarith
    with False show ?thesis by (simp add: Let_def emit_def)
  qed
  ultimately show ?case by (simp add: apply_ops_append)
qed

text \<open>
  The correctness condition of the line diff: applying its operations in order to the old text
  gives the new text.
\<close>

theorem line_diff_reconstructs:
  assumes "length (split_lines old) + length (split_lines new) < 2 ^ 64"
  shows "apply_lines old (com_diff_line old new) = Some new"
  using pairs_loop_applies [OF matching_lcs _ assms] by (simp add: apply_lines_def com_diff_line_def ops_from_pairs_def Let_def)

section \<open>The matched pairs are a longest common subsequence\<close>

fun lcs_len :: "'u list \<Rightarrow> 'u list \<Rightarrow> nat" where
  "lcs_len (x # xs) (y # ys) = (if x = y then Suc (lcs_len xs ys) else max (lcs_len xs (y # ys)) (lcs_len (x # xs) ys))"
| "lcs_len _ _ = 0"

lemma lcs_len_Nil [simp]: "lcs_len a [] = 0"
  by (cases a) auto

lemma lcs_len_upper: "lcs_len a b \<le> min (length a) (length b)"
  by (induction a b rule: lcs_len.induct) auto

lemma lcs_len_maximal: "subseq zs a \<Longrightarrow> subseq zs b \<Longrightarrow> length zs \<le> lcs_len a b"
proof (induction a b arbitrary: zs rule: lcs_len.induct)
  case (1 x xs y ys)
  show ?case
  proof (cases zs)
    case (Cons z zs')
    consider "x = y" "z = x" | "x = y" "z \<noteq> x" | "x \<noteq> y" "z \<noteq> x" | "x \<noteq> y" "z \<noteq> y" by blast
    then show ?thesis
    proof cases
      case 1
      with "1.prems" Cons "1.IH"(1) [of zs'] show ?thesis by simp
    next
      case 2
      with "1.prems" Cons "1.IH"(1) [of zs] show ?thesis by simp
    next
      case 3
      with "1.prems" Cons "1.IH"(2) [of zs] show ?thesis by (simp add: le_max_iff_disj)
    next
      case 4
      with "1.prems" Cons "1.IH"(3) [of zs] show ?thesis by (simp add: le_max_iff_disj)
    qed
  qed simp
qed auto

text \<open>The row of the table for the suffix \<open>a\<close>.\<close>

fun lcs_row :: "'u list \<Rightarrow> 'u list \<Rightarrow> u32 list" where
  "lcs_row a [] = [0]"
| "lcs_row a (y # ys) = of_nat (lcs_len a (y # ys)) # lcs_row a ys"

lemma hd_lcs_row: "hd (lcs_row a b) = of_nat (lcs_len a b)"
  by (cases b) auto

lemma max_of_nat: "m < 2 ^ 32 \<Longrightarrow> n < 2 ^ 32 \<Longrightarrow> max (of_nat m) (of_nat n :: u32) = of_nat (max m n)"
  by (simp add: max_def word_le_nat_alt unat_of_nat)

lemma dp_row_lcs: "length a + 1 < 2 ^ 32 \<Longrightarrow> dp_row x b (lcs_row a b) = lcs_row (x # a) b"
proof (induction b)
  case (Cons y ys)
  obtain n1 below where row: "lcs_row a ys = n1 # below" by (cases ys) auto
  then have n1: "n1 = of_nat (lcs_len a ys)" using hd_lcs_row [of a ys] by simp
  have "lcs_len a (y # ys) < 2 ^ 32" "lcs_len (x # a) ys < 2 ^ 32"
    using lcs_len_upper [of a "y # ys"] lcs_len_upper [of "x # a" ys] Cons.prems by simp_all
  then show ?case
    using Cons row by (simp add: Let_def n1 hd_lcs_row max_of_nat)
qed simp

lemma dp_table_lcs:
  "length a < 2 ^ 32 \<Longrightarrow> length (dp_table a b) = Suc (length a) \<and> (\<forall>i \<le> length a. dp_table a b ! i = lcs_row (drop i a) b)"
proof (induction a)
  case Nil
  have "replicate (length b + 1) 0 = lcs_row [] b" by (induction b) auto
  then show ?case by simp
next
  case (Cons x a)
  then have "hd (dp_table a b) = lcs_row a b" by (cases "dp_table a b") (auto dest: spec [of _ 0])
  with Cons show ?case by (auto simp: Let_def nth_Cons dp_row_lcs split: nat.splits)
qed

lemma lcs_row_nth: "j \<le> length b \<Longrightarrow> lcs_row a b ! j = of_nat (lcs_len a (drop j b))"
  by (induction b arbitrary: j) (auto simp: nth_Cons split: nat.splits)

lemma length_lcs_walk:
  "length a < 2 ^ 32 \<Longrightarrow> i \<le> length a \<Longrightarrow> j \<le> length b \<Longrightarrow>
     length (lcs_walk a b (dp_table a b) i j) = lcs_len (drop i a) (drop j b)"
proof (induction a b "dp_table a b" i j rule: lcs_walk.induct)
  case (1 a b i j)
  show ?case
  proof (cases "i < length a \<and> j < length b")
    case True
    then have d: "drop i a = a ! i # drop (i + 1) a" "drop j b = b ! j # drop (j + 1) b"
      by (simp_all add: Cons_nth_drop_Suc)
    have entry: "dp_table a b ! k ! l = of_nat (lcs_len (drop k a) (drop l b))" if "k \<le> length a" "l \<le> length b" for k l
    proof -
      have "dp_table a b ! k = lcs_row (drop k a) b" using dp_table_lcs [OF "1.prems"(1), of b] that(1) by blast
      then show ?thesis using lcs_row_nth [OF that(2), of "drop k a"] by simp
    qed
    have small: "lcs_len (drop k a) (drop l b) < 2 ^ 32" for k l
      using lcs_len_upper [of "drop k a" "drop l b"] "1.prems"(1) by auto
    have le: "dp_table a b ! (i + 1) ! j \<ge> dp_table a b ! i ! (j + 1) \<longleftrightarrow>
        lcs_len (drop i a) (drop (j + 1) b) \<le> lcs_len (drop (i + 1) a) (drop j b)"
      using True small by (subst (1 2) entry) (simp_all add: word_le_nat_alt unat_of_nat)
    have len: "lcs_len (drop i a) (drop j b) =
        (if a ! i = b ! j then Suc (lcs_len (drop (i + 1) a) (drop (j + 1) b))
         else max (lcs_len (drop (i + 1) a) (drop j b)) (lcs_len (drop i a) (drop (j + 1) b)))"
      by (simp add: d)
    consider "a ! i = b ! j" | "a ! i \<noteq> b ! j" "dp_table a b ! (i + 1) ! j \<ge> dp_table a b ! i ! (j + 1)"
      | "a ! i \<noteq> b ! j" "\<not> dp_table a b ! (i + 1) ! j \<ge> dp_table a b ! i ! (j + 1)" by blast
    then show ?thesis
    proof cases
      case 1
      with True "1.prems"(1) "1.hyps"(1) len show ?thesis by (subst lcs_walk.simps) simp
    next
      case 2
      with True "1.prems"(1) "1.hyps"(2) len le show ?thesis by (subst lcs_walk.simps) simp
    next
      case 3
      with True "1.prems"(1) "1.hyps"(3) len le show ?thesis by (subst lcs_walk.simps) simp
    qed
  qed (use "1.prems" in \<open>auto simp: lcs_walk_end\<close>)
qed

lemma matching_subseq:
  "matching a b i j pairs \<Longrightarrow>
     subseq (map (\<lambda>(po, pn). a ! po) pairs) (drop i a) \<and> subseq (map (\<lambda>(po, pn). a ! po) pairs) (drop j b)"
proof (induction a b i j pairs rule: matching.induct)
  case (2 a b i j po pn pairs)
  then have m: "i \<le> po" "po < length a" "j \<le> pn" "pn < length b" "a ! po = b ! pn" "matching a b (po + 1) (pn + 1) pairs"
    by simp_all
  have later: "subseq (x # xs) (take k c @ x # d)" if "subseq xs d" for x :: 'a and xs k c d
    using that by (simp add: list_emb_append2)
  have "subseq (a ! po # map (\<lambda>(po, pn). a ! po) pairs) (drop i a)"
    by (subst drop_skip [OF m(1,2)]) (rule later, use 2(1) [OF m(6)] in simp)
  moreover have "subseq (b ! pn # map (\<lambda>(po, pn). a ! po) pairs) (drop j b)"
    by (subst drop_skip [OF m(3,4)]) (rule later, use 2(1) [OF m(6)] in simp)
  ultimately show ?case using m(5) by simp
qed simp

text \<open>
  The pairs the table walk returns match equal units in increasing order, and no common
  subsequence of the two documents is longer, as long as the 32-bit lengths of the table do not wrap.
\<close>

theorem lcs_pairs_longest:
  assumes "length a < 2 ^ 32"
  shows "matching a b 0 0 (lcs_pairs a b) \<and>
    (\<forall>zs. subseq zs a \<longrightarrow> subseq zs b \<longrightarrow> length zs \<le> length (lcs_pairs a b))"
proof -
  have "length (lcs_pairs a b) = lcs_len a b"
    using length_lcs_walk [OF assms, of 0 0 b] by (auto simp: lcs_pairs_def)
  then show ?thesis using matching_lcs lcs_len_maximal by metis
qed

lemma lcs_pairs_longest_witness:
  "lcs_pairs [1, 2, 3 :: nat] [2, 3, 4] = [(1, 0), (2, 1)] \<and>
   \<not> (\<exists>zs. subseq zs [1, 2, 3 :: nat] \<and> subseq zs [2, 3, 4] \<and> 2 < length zs)"
proof -
  have pairs: "lcs_pairs [1, 2, 3 :: nat] [2, 3, 4] = [(1, 0), (2, 1)]"
    by (simp add: lcs_pairs_def Let_def) (subst lcs_walk.simps, simp)+
  moreover have "length [1, 2, 3 :: nat] < 2 ^ 32" by simp
  ultimately show ?thesis
    using lcs_pairs_longest [of "[1, 2, 3 :: nat]" "[2, 3, 4]"] unfolding pairs by force
qed

section \<open>Sizes\<close>

lemma payload_simps [simp]:
  "payload_bytes [] = 0" "payload_bytes (o1 # os) = op_payload_bytes o1 + payload_bytes os"
  "payload_bytes (os1 @ os2) = payload_bytes os1 + payload_bytes os2"
  by (simp_all add: payload_bytes_def)

lemma payload_segs: "payload_bytes (ops_from_segs segs cur) \<le> length (as_bytes (new_of segs))"
  by (induction segs cur rule: ops_from_segs.induct) auto

lemma payload_emit: "payload_bytes (emit del ins at) = length (as_bytes ins)"
  by (simp add: emit_def)

lemma bytes_take_drop: "length (as_bytes (concat (take k l))) + length (as_bytes (concat (drop k l))) = length (as_bytes (concat l))"
  by (metis append_take_drop_id as_bytes_simps(3) concat_append length_append)

lemma payload_pairs:
  "matching old new oi ni pairs \<Longrightarrow> payload_bytes (pairs_loop old new pairs oi ni cur) \<le> length (as_bytes (concat (drop ni new)))"
proof (induction old new oi ni pairs arbitrary: cur rule: matching.induct)
  case (1 old new oi ni)
  then show ?case by (simp add: payload_emit)
next
  case (2 old new oi ni po pn pairs)
  let ?seg = "take (pn - ni) (drop ni new)"
  have m: "ni \<le> pn" "pn < length new" "matching old new (po + 1) (pn + 1) pairs" using 2(2) by simp_all
  have "length (as_bytes (concat (drop ni new))) = length (as_bytes (concat ?seg)) + length (as_bytes (concat (drop pn new)))"
    using bytes_take_drop [of "pn - ni" "drop ni new"] m(1) by simp
  moreover have "length (as_bytes (concat (drop (pn + 1) new))) \<le> length (as_bytes (concat (drop pn new)))"
    using m(2) by (simp flip: Cons_nth_drop_Suc)
  ultimately show ?case
    using 2(1) [OF m(3), of "cur + length ?seg + 1"] 2(1) [OF m(3), of "cur + 1"] by (auto simp: Let_def payload_emit)
qed

lemma common_prefix_same: "q \<le> length a \<Longrightarrow> common_prefix a a q = length a"
proof (induction "length a - q" arbitrary: q)
  case 0
  then show ?case by (simp add: common_prefix_stop)
next
  case (Suc n)
  then have "q < length a" by simp
  with Suc show ?case by (subst common_prefix.simps) simp
qed

lemma cleanup_Nil: "cleanup [] = []"
  by (subst cleanup.simps) (simp add: cleanup_round_def)

lemma lcs_walk_same: "i \<le> length a \<Longrightarrow> lcs_walk a a dp i i = map (\<lambda>k. (k, k)) [i..<length a]"
proof (induction "length a - i" arbitrary: i)
  case 0
  then show ?case by (simp add: lcs_walk_end)
next
  case (Suc n)
  then have "i < length a" by simp
  with Suc show ?case by (subst lcs_walk.simps) (simp add: upt_conv_Cons)
qed

lemma pairs_loop_same: "i \<le> length a \<Longrightarrow> pairs_loop a a (map (\<lambda>k. (k, k)) [i..<length a]) i i i = []"
proof (induction "length a - i" arbitrary: i)
  case 0
  then show ?case by (simp add: emit_def)
next
  case (Suc n)
  then have "i < length a" by simp
  with Suc show ?case by (simp add: upt_conv_Cons)
qed

text \<open>
  C24.  Neither diff sends more text than the new version has: the payload of a line delta is at most
  the new text's bytes, that of a character delta at most the bytes of what is left of it after the
  common prefix and suffix; and unchanged input gives no operation at all.
\<close>

theorem delta_payload_bounded:
  "payload_bytes (com_diff_line old new) \<le> length (as_bytes new) \<and>
   payload_bytes (com_diff_char old new) + length (as_bytes (take (common_prefix old new 0) new)) \<le> length (as_bytes new) \<and>
   com_diff_char old old = [] \<and> com_diff_line old old = []"
proof (intro conjI)
  show "payload_bytes (com_diff_line old new) \<le> length (as_bytes new)"
    using payload_pairs [OF matching_lcs, of "split_lines old" "split_lines new" 0]
    by (simp add: com_diff_line_def ops_from_pairs_def Let_def)
next
  obtain u am bm v where parts: "new = u @ bm @ v" "length u = common_prefix old new 0"
    and ops: "com_diff_char old new = middle_ops (length u) am bm"
    by (rule char_diff_parts [of old new]) blast
  have "payload_bytes (middle_ops (length u) am bm) \<le> length (as_bytes bm)"
    using payload_segs [of "cleanup (segs_from_pairs am bm (lcs_pairs am bm))" "length u"]
    by (simp add: middle_ops_def refined_texts)
  moreover have "take (common_prefix old new 0) new = u" using parts by (simp flip: parts(2))
  ultimately show "payload_bytes (com_diff_char old new) + length (as_bytes (take (common_prefix old new 0) new)) \<le> length (as_bytes new)"
    by (simp add: ops) (simp add: parts(1))
next
  obtain u am bm v where parts: "old = u @ am @ v" "old = u @ bm @ v" "length u = common_prefix old old 0"
    and ops: "com_diff_char old old = middle_ops (length u) am bm"
    by (rule char_diff_parts [of old old])
  have "common_prefix old old 0 = length old" by (rule common_prefix_same) simp
  then have "length u = length old" using parts(3) by simp
  then have "am = []" "bm = []" using parts(1,2) by auto
  then show "com_diff_char old old = []" by (simp add: ops middle_ops_def segs_from_pairs_def lcs_pairs_def cleanup_Nil)
next
  show "com_diff_line old old = []"
    using pairs_loop_same [of 0 "split_lines old"] lcs_walk_same [of 0 "split_lines old"]
    by (cases "split_lines old = []") (simp_all add: com_diff_line_def ops_from_pairs_def lcs_pairs_def Let_def emit_def)
qed

end
