(* ===== verification/Sgit_Codec.thy ===== *)
theory Sgit_Codec
  imports Sgit_Diff
begin

text \<open>
  The compact encoding of \<^verbatim>\<open>sgit-rs/src/diff.rs\<close>: a tag byte, LEB128 numbers and raw UTF-8 per
  operation, and its decoder.
\<close>

section \<open>The compact encoding\<close>

lemma unat_drop_7: "unat (drop_bit 7 v) = unat v div 128"
  unfolding unat_drop_bit_eq by (simp add: drop_bit_eq_div)

lemma unat_drop_7_less: "drop_bit 7 v \<noteq> 0 \<Longrightarrow> unat (drop_bit 7 v) < unat v \<and> 128 \<le> unat v"
proof -
  assume "drop_bit 7 v \<noteq> 0"
  then have "unat v div 128 \<noteq> 0" using unat_drop_7 [of v] by (metis unat_eq_zero)
  then have "128 \<le> unat v" by (metis div_less not_less)
  moreover from this have "unat v div 128 < unat v" by simp
  ultimately show ?thesis using unat_drop_7 [of v] by metis
qed

function put_uvar :: "u64 \<Rightarrow> bytes" where
  "put_uvar v =
     (let byte = ucast (v AND 0x7F); v' = drop_bit 7 v
      in if v' = 0 then [byte] else (byte OR 0x80) # put_uvar v')"
  by pat_completeness auto
termination by (relation "measure unat") (simp_all add: unat_drop_7_less)

declare put_uvar.simps [simp del]

fun get_uvar_loop :: "u64 \<Rightarrow> nat \<Rightarrow> bytes \<Rightarrow> (u64 \<times> bytes) option" where
  "get_uvar_loop v shift [] = None"
| "get_uvar_loop v shift (byte # b) =
     (let v' = v OR push_bit shift (ucast (byte AND 0x7F))
      in if byte AND 0x80 = 0 then Some (v', b)
         else if shift + 7 > 63 then None else get_uvar_loop v' (shift + 7) b)"

definition get_uvar :: "bytes \<Rightarrow> (u64 \<times> bytes) option" where
  "get_uvar b = get_uvar_loop 0 0 b"

lemma get_uvar_loop_shorter: "get_uvar_loop v shift b = Some (x, r) \<Longrightarrow> length r < length b"
  by (induction v shift b rule: get_uvar_loop.induct) (fastforce simp: Let_def split: if_splits)+

fun encode_op :: "op \<Rightarrow> bytes" where
  "encode_op (Delete idx len) = 0 # put_uvar (of_nat idx) @ put_uvar (of_nat len)"
| "encode_op (Insert idx m) =
     (let b = as_bytes m in 1 # put_uvar (of_nat idx) @ put_uvar (of_nat (length b)) @ b)"

definition encode_ops :: "op list \<Rightarrow> bytes" where
  "encode_ops ops = concat (map encode_op ops)"

text \<open>One round of \<^verbatim>\<open>decode_ops\<close>: an operation and what follows it.\<close>

definition decode_op :: "bytes \<Rightarrow> (op \<times> bytes) option" where
  "decode_op b =
     (case b of [] \<Rightarrow> None
      | tag # b1 \<Rightarrow>
        (case get_uvar b1 of None \<Rightarrow> None
         | Some (idx, b2) \<Rightarrow>
           (case get_uvar b2 of None \<Rightarrow> None
            | Some (n, b3) \<Rightarrow>
                if tag = 0 then Some (Delete (unat idx) (unat n), b3)
                else if tag = 1 then
                  (if length b3 < unat n then None
                   else case utf8_decode (take (unat n) b3) of None \<Rightarrow> None
                     | Some m \<Rightarrow> Some (Insert (unat idx) m, drop (unat n) b3))
                else None)))"

lemma decode_op_shorter: "decode_op b = Some (x, r) \<Longrightarrow> length r < length b"
  by (auto simp: decode_op_def get_uvar_def split: list.splits option.splits if_splits dest!: get_uvar_loop_shorter) linarith

function decode_ops :: "bytes \<Rightarrow> op list option" where
  "decode_ops b =
     (if b = [] then Some []
      else case decode_op b of None \<Rightarrow> None | Some (x, r) \<Rightarrow> map_option ((#) x) (decode_ops r))"
  by pat_completeness auto
termination by (relation "measure length") (auto dest: decode_op_shorter)

declare decode_ops.simps [simp del]

text \<open>A byte of the encoding: seven bits of the value, and whether more follow.\<close>

lemma bit_masks: "bit (0x7F :: int) i \<longleftrightarrow> i < 7" "bit (0x80 :: int) i \<longleftrightarrow> i = 7"
proof -
  have "(0x7F :: int) = mask 7" "(0x80 :: int) = push_bit 7 1"
    by (simp_all add: mask_eq_exp_minus_1 push_bit_eq_mult)
  then show "bit (0x7F :: int) i \<longleftrightarrow> i < 7" "bit (0x80 :: int) i \<longleftrightarrow> i = 7"
    by (auto simp only: bit_mask_iff bit_push_bit_iff bit_1_iff possible_bit_def) simp_all
qed

lemma low_byte:
  "(ucast (v AND 0x7F :: u64) :: u8) AND 0x80 = 0" "(ucast (v AND 0x7F :: u64) OR 0x80 :: u8) AND 0x80 \<noteq> 0"
  "ucast (ucast (v AND 0x7F :: u64) AND (0x7F :: u8)) = v AND (0x7F :: u64)"
  "ucast ((ucast (v AND 0x7F :: u64) OR 0x80) AND (0x7F :: u8)) = v AND (0x7F :: u64)"
proof -
  show "(ucast (v AND 0x7F :: u64) :: u8) AND 0x80 = 0" "ucast (ucast (v AND 0x7F :: u64) AND (0x7F :: u8)) = v AND (0x7F :: u64)"
    "ucast ((ucast (v AND 0x7F :: u64) OR 0x80) AND (0x7F :: u8)) = v AND (0x7F :: u64)"
    by (rule bit_eqI, auto simp: bit_and_iff bit_or_iff bit_unsigned_iff bit_masks)+
  have "bit ((ucast (v AND 0x7F :: u64) OR 0x80 :: u8) AND 0x80) 7" by (simp add: bit_and_iff bit_or_iff bit_masks)
  then show "(ucast (v AND 0x7F :: u64) OR 0x80 :: u8) AND 0x80 \<noteq> 0" by (metis bit_0_eq bot_apply bot_bool_def)
qed

lemma split_7: "(acc OR push_bit sh (v AND 0x7F)) OR push_bit (sh + 7) (drop_bit 7 v) = acc OR push_bit sh (v :: u64)"
proof (rule bit_word_eqI)
  fix i assume "i < LENGTH(64)"
  show "bit ((acc OR push_bit sh (v AND 0x7F)) OR push_bit (sh + 7) (drop_bit 7 v)) i \<longleftrightarrow> bit (acc OR push_bit sh v) i"
  proof (cases "sh + 7 \<le> i")
    case True
    then have "7 + (i - (sh + 7)) = i - sh" by simp
    with True show ?thesis by (auto simp: bit_or_iff bit_and_iff bit_push_bit_iff bit_drop_bit_eq bit_masks)
  next
    case False
    then show ?thesis by (auto simp: bit_or_iff bit_and_iff bit_push_bit_iff bit_masks)
  qed
qed

lemma get_put_uvar_loop:
  "unat v < 2 ^ (64 - sh) \<Longrightarrow> sh \<le> 63 \<Longrightarrow> get_uvar_loop acc sh (put_uvar v @ r) = Some (acc OR push_bit sh v, r)"
proof (induction v arbitrary: acc sh rule: put_uvar.induct)
  case (1 v)
  show ?case
  proof (cases "drop_bit 7 v = 0")
    case True
    then show ?thesis using split_7 [of acc sh v] by (subst put_uvar.simps) (simp add: Let_def low_byte)
  next
    case False
    then have "2 ^ 7 \<le> unat v" using unat_drop_7_less [OF False] by simp
    then have "(2 :: nat) ^ 7 < 2 ^ (64 - sh)" using "1.prems"(1) by (rule order_le_less_trans)
    then have "7 < 64 - sh" by (rule power_less_imp_less_exp [rotated]) simp
    then have sh: "sh + 7 \<le> 63" by simp
    then have "64 - sh = (64 - (sh + 7)) + 7" by simp
    then have "(2 :: nat) ^ (64 - sh) = 2 ^ (64 - (sh + 7)) * 2 ^ 7" by (metis power_add)
    then have "unat (drop_bit 7 v) < 2 ^ (64 - (sh + 7))"
      using "1.prems"(1) by (simp add: unat_drop_7 less_mult_imp_div_less)
    from "1.IH" [OF refl refl False this sh, of "acc OR push_bit sh (v AND 0x7F)"] split_7 [of acc sh v] sh False
    show ?thesis by (subst put_uvar.simps) (simp add: Let_def low_byte)
  qed
qed

lemma length_put_uvar_bound: "unat v < 2 ^ (7 * n) \<Longrightarrow> 0 < n \<Longrightarrow> length (put_uvar v) \<le> n"
proof (induction v arbitrary: n rule: put_uvar.induct)
  case (1 v)
  show ?case
  proof (cases "drop_bit 7 v = 0")
    case False
    then have "2 ^ 7 \<le> unat v" using unat_drop_7_less [OF False] by simp
    then have "(2 :: nat) ^ 7 < 2 ^ (7 * n)" using "1.prems"(1) by (rule order_le_less_trans)
    then have "7 < 7 * n" by (rule power_less_imp_less_exp [rotated]) simp
    then have "1 < n" by simp
    then obtain k where n: "n = Suc k" "0 < k" by (cases n) auto
    then have "unat (drop_bit 7 v) < 2 ^ (7 * k)"
      using "1.prems"(1) by (simp add: unat_drop_7 power_add less_mult_imp_div_less)
    from "1.IH" [OF refl refl False this n(2)] n False show ?thesis by (subst put_uvar.simps) (simp add: Let_def)
  qed (use "1.prems" in \<open>subst put_uvar.simps, simp add: Let_def\<close>)
qed

lemma get_put_uvar [simp]: "get_uvar (put_uvar v @ r) = Some (v, r)"
proof -
  have "unat v < 2 ^ (64 - 0)" using unat_u64_bound [of v] by simp
  from get_put_uvar_loop [OF this, of 0] show ?thesis by (simp add: get_uvar_def)
qed

lemma length_put_uvar: "length (put_uvar v) \<le> 10"
proof (rule length_put_uvar_bound)
  have "(2 :: nat) ^ 64 \<le> 2 ^ (7 * 10)" by (rule power_increasing) simp_all
  then show "unat v < 2 ^ (7 * 10)" using unat_u64_bound [of v] by linarith
qed simp

section \<open>Round trip and size\<close>

text \<open>Operations whose numbers are 64-bit indices and whose text is Unicode.\<close>

fun op_ok :: "op \<Rightarrow> bool" where
  "op_ok (Delete idx len) \<longleftrightarrow> idx < 2 ^ 64 \<and> len < 2 ^ 64"
| "op_ok (Insert idx m) \<longleftrightarrow> idx < 2 ^ 64 \<and> length (as_bytes m) < 2 ^ 64 \<and> list_all scalar m"

lemma decode_encode_op: "op_ok x \<Longrightarrow> decode_op (encode_op x @ r) = Some (x, r)"
  by (cases x) (simp_all add: decode_op_def Let_def unat_of_nat utf8_decode_as_bytes)

text \<open>
  Decoding an encoded block gives the operations back, whatever their number: the tags, the
  LEB128 numbers over the whole range of 64 bits and the UTF-8 text.
\<close>

theorem decode_encode_ops: "list_all op_ok ops \<Longrightarrow> decode_ops (encode_ops ops) = Some ops"
proof (induction ops)
  case (Cons x ops)
  have "encode_op x \<noteq> []" by (cases x) (simp_all add: Let_def)
  with Cons decode_encode_op [of x "encode_ops ops"] show ?case
    by (subst decode_ops.simps) (simp add: encode_ops_def)
qed (simp add: encode_ops_def decode_ops.simps)

text \<open>
  The framing of an operation costs at most 21 bytes, whatever the position and the length, so
  that a delta block is at most 21 bytes per operation larger than the text it inserts.
\<close>

theorem encoded_delta_bounded: "length (encode_ops ops) \<le> 21 * length ops + payload_bytes ops"
proof (induction ops)
  case (Cons x ops)
  have "length (encode_op x) \<le> 21 + op_payload_bytes x"
  proof (cases x)
    case (Insert idx m)
    then show ?thesis
      using length_put_uvar [of "of_nat idx"] length_put_uvar [of "of_nat (length (as_bytes m))"] by (simp add: Let_def)
  next
    case (Delete idx len)
    then show ?thesis using length_put_uvar [of "of_nat idx"] length_put_uvar [of "of_nat len"] by simp
  qed
  with Cons show ?case by (simp add: encode_ops_def)
qed (simp add: encode_ops_def)

lemma length_as_bytes: "length (as_bytes s) \<le> 4 * length s"
proof (induction s)
  case (Cons c s)
  have "length (utf8_char c) \<le> 4" by (simp add: utf8_char_def)
  with Cons show ?case by simp
qed simp

text \<open>A text of Unicode scalar values that fits in memory several times over.\<close>

definition text_ok :: "utext \<Rightarrow> bool" where
  "text_ok s \<longleftrightarrow> list_all scalar s \<and> length s < 2 ^ 60"

lemma op_ok_segs:
  "cur + length (old_of segs) + length (new_of segs) < 2 ^ 62 \<Longrightarrow> list_all scalar (new_of segs) \<Longrightarrow>
     list_all op_ok (ops_from_segs segs cur)"
proof (induction segs cur rule: ops_from_segs.induct)
  case (4 v segs cur)
  then show ?case using length_as_bytes [of v] by simp
qed simp_all

lemma op_ok_char_diff:
  assumes "text_ok old" and "text_ok new"
  shows "list_all op_ok (com_diff_char old new)"
proof -
  obtain u am bm v where parts: "old = u @ am @ v" "new = u @ bm @ v" and ops: "com_diff_char old new = middle_ops (length u) am bm"
    by (rule char_diff_parts)
  have small: "length u + length am < 2 ^ 60" "length u + length bm < 2 ^ 60" "list_all scalar bm"
    using assms by (simp_all add: text_ok_def parts)
  show ?thesis
    using small op_ok_segs [of "length u" "cleanup (segs_from_pairs am bm (lcs_pairs am bm))"] length_as_bytes [of bm]
    by (simp add: ops middle_ops_def refined_texts)
qed

text \<open>
  A character delta survives its encoding: whoever decodes the block of a diff and applies it to
  the old text has the new text.
\<close>

theorem delta_block_reconstructs:
  assumes "text_ok old" and "text_ok new"
  shows "\<exists>ops. decode_ops (encode_ops (com_diff_char old new)) = Some ops \<and> apply_chars old ops = Some new"
proof -
  have "length old + length new < 2 ^ 64" using assms by (simp add: text_ok_def)
  then show ?thesis
    using decode_encode_ops [OF op_ok_char_diff [OF assms]] char_diff_reconstructs by blast
qed

section \<open>Closed examples\<close>

lemma char_diff_reconstructs_witness:
  "apply_chars [97, 98, 10] (com_diff_char [97, 98, 10] [98, 99, 10]) = Some [98, 99, 10]"
  by (rule char_diff_reconstructs) simp

lemma line_diff_reconstructs_witness:
  "apply_lines [97, 10, 98, 10] (com_diff_line [97, 10, 98, 10] [98, 10, 99]) = Some [98, 10, 99]"
  by (rule line_diff_reconstructs) (simp add: split_lines_def newline_def)

lemma decode_encode_ops_witness: "decode_ops (encode_ops [Delete 3 2, Insert 3 [97, 0x20AC]]) = Some [Delete 3 2, Insert 3 [97, 0x20AC]]"
  by (rule decode_encode_ops) (simp add: utf8_char_def scalar_def)

lemma delta_block_reconstructs_witness:
  "\<exists>ops. decode_ops (encode_ops (com_diff_char [97, 98] [97, 0x20AC])) = Some ops \<and> apply_chars [97, 98] ops = Some [97, 0x20AC]"
  by (rule delta_block_reconstructs) (simp_all add: text_ok_def scalar_def)

text \<open>
  A block that decodes may still not apply: the end of a deletion wraps past its start and the
  release build panics, where a malformed block is meant to be an error.
\<close>

theorem decoded_block_may_panic:
  "decode_ops (encode_ops [Delete 1 (2 ^ 64 - 1)]) = Some [Delete 1 (2 ^ 64 - 1)] \<and>
   apply_chars [97, 98] [Delete 1 (2 ^ 64 - 1)] = None"
  using decode_encode_ops [of "[Delete 1 (2 ^ 64 - 1)]"] by (simp add: apply_chars_def Let_def)

lemma short_line_segs:
  "cleanup [Del [120], Ins [122], Eq [10], Eq [97], Eq [10], Del [121], Ins [119 :: uchar]] =
     [Del [120, 10, 97, 10, 121], Ins [122, 10, 97, 10, 119]]"
  by (subst cleanup.simps, simp add: cleanup_round_def EDIT_COST_def) (subst cleanup.simps, simp add: cleanup_round_def)

text \<open>
  The character delta is not always the smaller one: a short line between two changed ones is
  kept by the line diff, but the clean-up of the character diff sends it again.
\<close>

theorem char_delta_can_exceed_line_delta:
  "payload_bytes (com_diff_line [120, 10, 97, 10, 121, 10] [122, 10, 97, 10, 119, 10]) = 4 \<and>
   payload_bytes (com_diff_char [120, 10, 97, 10, 121, 10] [122, 10, 97, 10, 119, 10]) = 5"
proof
  have lines: "split_lines [120, 10, 97, 10, 121, 10] = [[120, 10], [97, 10], [121, 10]]"
    "split_lines [122, 10, 97, 10, 119, 10] = [[122, 10], [97, 10], [119, 10]]"
    by (simp_all add: split_lines_def newline_def)
  have "lcs_pairs [[120, 10], [97, 10], [121, 10]] [[122, 10], [97, 10], [119, 10 :: uchar]] = [(1, 1)]"
    by (simp add: lcs_pairs_def Let_def) (subst lcs_walk.simps, simp)+
  then show "payload_bytes (com_diff_line [120, 10, 97, 10, 121, 10] [122, 10, 97, 10, 119, 10]) = 4"
    by (simp add: com_diff_line_def lines Let_def ops_from_pairs_def emit_def utf8_char_def)
next
  let ?old = "[120, 10, 97, 10, 121, 10]" and ?new = "[122, 10, 97, 10, 119, 10 :: uchar]"
  have p: "common_prefix ?old ?new 0 = 0" by (rule common_prefix_stop) simp
  have "common_suffix ?old ?new 0 1 = 1" by (rule common_suffix_stop) simp
  then have s: "common_suffix ?old ?new 0 0 = 1" by (subst common_suffix.simps) simp
  have "lcs_pairs [120, 10, 97, 10, 121] [122, 10, 97, 10, 119 :: uchar] = [(1, 1), (2, 2), (3, 3)]"
    by (simp add: lcs_pairs_def Let_def) (subst lcs_walk.simps, simp)+
  then show "payload_bytes (com_diff_char ?old ?new) = 5"
    by (simp add: com_diff_char_def p s middle_ops_def CHAR_LCS_CAP_def segs_from_pairs_def short_line_segs utf8_char_def)
qed

end
