(* ===== verification/Sgit.thy ===== *)
theory Sgit
  imports Sgit_Codec Btree
begin

text \<open>
  The encrypted repositories of \<^verbatim>\<open>sgit-rs/src\<close>: lib.rs (initialising, updating, pulling, sharing),
  crypto.rs and merkle.rs.  AES-256, SHA-256, HKDF, ECDSA and base64 are the record \<open>sgit_prims\<close>; the
  nonces a process draws are a sequence \<open>nonces\<close> with a counter of those used.
\<close>

section \<open>Primitives\<close>

text \<open>\<open>sg_keystream key nonce i\<close> is byte \<open>i\<close> of the AES-CTR key stream.\<close>

record sgit_prims =
  sg_keystream :: "bytes \<Rightarrow> bytes \<Rightarrow> nat \<Rightarrow> u8"
  sg_sha256 :: "bytes \<Rightarrow> bytes"
  sg_kdf :: "bytes \<Rightarrow> bytes \<Rightarrow> bytes"
  sg_b64 :: "bytes \<Rightarrow> string"
  sg_unb64 :: "string \<Rightarrow> bytes option"
  sg_sign :: "bytes \<Rightarrow> bytes \<Rightarrow> bytes"
  sg_vk :: "bytes \<Rightarrow> bytes"
  sg_verify :: "bytes \<Rightarrow> bytes \<Rightarrow> bytes \<Rightarrow> bool"

datatype sgit_error =
  Bad_base64 | Short_ciphertext | Bad_utf8 | Malformed_delta | Acs_unsigned | No_write_access string | Forged
  | Missing_ciphertext string | Unknown_variant string | Panicked

definition NONCE_LEN :: nat where "NONCE_LEN = 16"

definition kdf :: "sgit_prims \<Rightarrow> bytes \<Rightarrow> string \<Rightarrow> bytes" where
  "kdf G mk rid = fix_len 32 (sg_kdf G mk (str_bytes rid))"

definition sha256 :: "sgit_prims \<Rightarrow> bytes list \<Rightarrow> bytes" where
  "sha256 G parts = fix_len 32 (sg_sha256 G (concat parts))"

definition apply_keystream :: "sgit_prims \<Rightarrow> bytes \<Rightarrow> bytes \<Rightarrow> bytes \<Rightarrow> bytes" where
  "apply_keystream G key nonce buf = xor_pad buf (map (sg_keystream G key nonce) [0..<length buf])"

definition enc :: "sgit_prims \<Rightarrow> bytes \<Rightarrow> bytes \<Rightarrow> bytes \<Rightarrow> bytes" where
  "enc G key draw pt = (let nonce = fix_len NONCE_LEN draw in nonce @ apply_keystream G key nonce pt)"

definition dec :: "sgit_prims \<Rightarrow> bytes \<Rightarrow> bytes \<Rightarrow> sgit_error + bytes" where
  "dec G key ct =
     (if length ct < NONCE_LEN then Inl Short_ciphertext
      else Inr (apply_keystream G key (take NONCE_LEN ct) (drop NONCE_LEN ct)))"

lemma dec_enc [simp]: "dec G key (enc G key draw pt) = Inr pt"
  by (simp add: dec_def enc_def Let_def apply_keystream_def)

text \<open>What base64 and ECDSA promise.\<close>

definition sgit_laws :: "sgit_prims \<Rightarrow> bool" where
  "sgit_laws G \<longleftrightarrow> (\<forall>b. sg_unb64 G (sg_b64 G b) = Some b) \<and> (\<forall>sk m. sg_verify G (sg_vk G sk) m (sg_sign G sk m))"

section \<open>The Merkle tree\<close>

definition sg_node :: "sgit_prims \<Rightarrow> bytes \<Rightarrow> bytes \<Rightarrow> bytes" where
  "sg_node G l r = sha256 G [str_bytes ''sgit-merkle-node'', l, r]"

text \<open>\<^verbatim>\<open>level.chunks(2)\<close>: the last single node is paired with itself.\<close>

fun sg_level :: "sgit_prims \<Rightarrow> bytes list \<Rightarrow> bytes list" where
  "sg_level G [] = []"
| "sg_level G [a] = [sg_node G a a]"
| "sg_level G (a # b # rest) = sg_node G a b # sg_level G rest"

lemma length_sg_level [simp]: "length (sg_level G l) = (length l + 1) div 2"
  by (induction G l rule: sg_level.induct) auto

function sg_root_loop :: "sgit_prims \<Rightarrow> bytes list \<Rightarrow> bytes" where
  "sg_root_loop G level = (if length level > 1 then sg_root_loop G (sg_level G level) else level ! 0)"
  by pat_completeness auto
termination by (relation "measure (\<lambda>(G, l). length l)") auto

declare sg_root_loop.simps [simp del]

definition dag_root :: "sgit_prims \<Rightarrow> bytes list \<Rightarrow> bytes" where
  "dag_root G leaves = (if leaves = [] then sha256 G [str_bytes ''sgit-merkle-empty''] else sg_root_loop G leaves)"

section \<open>Repositories\<close>

datatype variant = Char_Variant | Line_Variant

definition variant_parse :: "string \<Rightarrow> sgit_error + variant" where
  "variant_parse s =
     (if s = ''char'' \<or> s = ''sgitchar'' then Inr Char_Variant
      else if s = ''line'' \<or> s = ''sgitline'' then Inr Line_Variant
      else Inl (Unknown_variant s))"

record access_file =
  acs_read :: "(string \<times> string) list"
  acs_write :: "string list"
  acs_sig :: string

record sg_tag =
  tag_uid :: string
  tag_sig :: string

record ct_file =
  ct_base :: string
  ct_deltas :: "string list"
  ct_lines :: "string list"

definition ct_stored_bytes :: "ct_file \<Rightarrow> nat" where
  "ct_stored_bytes f =
     length (ct_base f) + sum_list (map length (ct_deltas f)) + sum_list (map length (ct_lines f))"

record ct_repo =
  ct_rid :: string
  ct_files :: "(string \<times> ct_file) list"
  ct_acs :: access_file
  ct_tag :: sg_tag

record sg_member =
  sm_uid :: string
  sm_mk :: bytes
  sm_sk :: bytes

definition key_for :: "sgit_prims \<Rightarrow> sg_member \<Rightarrow> string \<Rightarrow> bytes" where
  "key_for G m rid = kdf G (sm_mk m) rid"

record update_cost =
  delta_plaintext_bytes :: nat
  delta_ciphertext_bytes :: nat
  stored_bytes :: nat
  files_touched :: nat

definition acs_message :: "access_file \<Rightarrow> bytes" where
  "acs_message acs =
     str_bytes ''sgit-acs'' @ concat (map (\<lambda>w. str_bytes w @ [0x1F]) (acs_write acs)) @ [0x1E] @
     concat (map (\<lambda>(uid, wrap). str_bytes uid @ [0x1F] @ str_bytes wrap @ [0x1F]) (acs_read acs))"

definition tag_digest :: "sgit_prims \<Rightarrow> string \<Rightarrow> string \<Rightarrow> bytes \<Rightarrow> bytes" where
  "tag_digest G rid uid root = sha256 G [str_bytes rid, str_bytes uid, root]"

definition sign_root :: "sgit_prims \<Rightarrow> sg_member \<Rightarrow> string \<Rightarrow> bytes \<Rightarrow> string" where
  "sign_root G m rid root = sg_b64 G (sg_sign G (sm_sk m) (tag_digest G rid (sm_uid m) root))"

definition file_leaf :: "sgit_prims \<Rightarrow> string \<times> ct_file \<Rightarrow> bytes" where
  "file_leaf G p =
     sha256 G ([str_bytes (fst p), str_bytes (ct_base (snd p))] @ map str_bytes (ct_deltas (snd p)) @ map str_bytes (ct_lines (snd p)))"

definition ct_root :: "sgit_prims \<Rightarrow> (string \<times> ct_file) list \<Rightarrow> access_file \<Rightarrow> bytes" where
  "ct_root G files acs = dag_root G (map (file_leaf G) files @ [sha256 G [str_bytes (acs_sig acs)]])"

section \<open>Initialising\<close>

fun enc_lines :: "sgit_prims \<Rightarrow> bytes \<Rightarrow> (nat \<Rightarrow> bytes) \<Rightarrow> nat \<Rightarrow> utext list \<Rightarrow> string list \<times> nat" where
  "enc_lines G k nonces n [] = ([], n)"
| "enc_lines G k nonces n (l # ls) =
     (case enc_lines G k nonces (n + 1) ls of (out, n') \<Rightarrow> (sg_b64 G (enc G k (nonces n) (as_bytes l)) # out, n'))"

text \<open>A file encrypted whole; \<^verbatim>\<open>split_inclusive\<close> yields the lines of \<open>split_lines\<close>.\<close>

definition fresh_file :: "sgit_prims \<Rightarrow> bytes \<Rightarrow> (nat \<Rightarrow> bytes) \<Rightarrow> variant \<Rightarrow> nat \<Rightarrow> utext \<Rightarrow> ct_file \<times> nat" where
  "fresh_file G k nonces v n body =
     (case v of
        Char_Variant \<Rightarrow> (\<lparr>ct_base = sg_b64 G (enc G k (nonces n) (as_bytes body)), ct_deltas = [], ct_lines = []\<rparr>, n + 1)
      | Line_Variant \<Rightarrow>
          (case enc_lines G k nonces n (split_lines body) of
             (ls, n') \<Rightarrow> (\<lparr>ct_base = [], ct_deltas = [], ct_lines = ls\<rparr>, n')))"

fun fresh_files :: "sgit_prims \<Rightarrow> bytes \<Rightarrow> (nat \<Rightarrow> bytes) \<Rightarrow> variant \<Rightarrow> nat \<Rightarrow> (string \<times> utext) list \<Rightarrow>
    (string \<times> ct_file) list \<Rightarrow> (string \<times> ct_file) list \<times> nat" where
  "fresh_files G k nonces v n [] files = (files, n)"
| "fresh_files G k nonces v n ((name, body) # plain) files =
     (case fresh_file G k nonces v n body of (f, n') \<Rightarrow> fresh_files G k nonces v n' plain (bt_insert name f files))"

definition signed_acs :: "sgit_prims \<Rightarrow> sg_member \<Rightarrow> access_file \<Rightarrow> access_file" where
  "signed_acs G m acs = acs\<lparr>acs_sig := sg_b64 G (sg_sign G (sm_sk m) (acs_message acs))\<rparr>"

definition retag :: "sgit_prims \<Rightarrow> sg_member \<Rightarrow> ct_repo \<Rightarrow> ct_repo" where
  "retag G m r = r\<lparr>ct_tag := \<lparr>tag_uid = sm_uid m, tag_sig = sign_root G m (ct_rid r) (ct_root G (ct_files r) (ct_acs r))\<rparr>\<rparr>"

definition init_repo :: "sgit_prims \<Rightarrow> (nat \<Rightarrow> bytes) \<Rightarrow> sg_member \<Rightarrow> string \<Rightarrow> (string \<times> utext) list \<Rightarrow> variant \<Rightarrow> ct_repo" where
  "init_repo G nonces m rid plain v =
     (let files = fst (fresh_files G (key_for G m rid) nonces v 0 plain []);
          acs = signed_acs G m \<lparr>acs_read = [], acs_write = [sm_uid m], acs_sig = []\<rparr>
      in retag G m \<lparr>ct_rid = rid, ct_files = files, ct_acs = acs, ct_tag = \<lparr>tag_uid = [], tag_sig = []\<rparr>\<rparr>)"

section \<open>Updating\<close>

text \<open>The operations of a line delta on the ciphertext lines; the last result is the ciphertext written.\<close>

fun apply_ct_op :: "sgit_prims \<Rightarrow> bytes \<Rightarrow> (nat \<Rightarrow> bytes) \<Rightarrow> op \<Rightarrow> string list \<Rightarrow> nat \<Rightarrow> sgit_error + string list \<times> nat \<times> nat" where
  "apply_ct_op G k nonces (Delete idx len) ls n =
     (let s = min idx (length ls); e = min ((s + len) mod 2 ^ 64) (length ls)
      in if e < s then Inl Panicked else Inr (take s ls @ drop e ls, n, 0))"
| "apply_ct_op G k nonces (Insert idx text) ls n =
     (let s = min idx (length ls)
      in case enc_lines G k nonces n (split_lines text) of
           (enc_ls, n') \<Rightarrow> Inr (take s ls @ enc_ls @ drop s ls, n', sum_list (map length enc_ls)))"

fun apply_ct_ops :: "sgit_prims \<Rightarrow> bytes \<Rightarrow> (nat \<Rightarrow> bytes) \<Rightarrow> op list \<Rightarrow> string list \<Rightarrow> nat \<Rightarrow> sgit_error + string list \<times> nat \<times> nat" where
  "apply_ct_ops G k nonces [] ls n = Inr (ls, n, 0)"
| "apply_ct_ops G k nonces (o1 # ops) ls n =
     rbind (apply_ct_op G k nonces o1 ls n) (\<lambda>(ls1, n1, w1).
     rbind (apply_ct_ops G k nonces ops ls1 n1) (\<lambda>(ls2, n2, w2). Inr (ls2, n2, w1 + w2)))"

text \<open>A changed file: the new ciphertext file, the next nonce, and what it cost.\<close>

definition changed_file :: "sgit_prims \<Rightarrow> bytes \<Rightarrow> (nat \<Rightarrow> bytes) \<Rightarrow> variant \<Rightarrow> nat \<Rightarrow> utext \<Rightarrow> utext \<Rightarrow> ct_file \<Rightarrow> update_cost \<Rightarrow>
    sgit_error + ct_file \<times> nat \<times> update_cost" where
  "changed_file G k nonces v n old_body new_body f cost =
     (case v of
        Char_Variant \<Rightarrow>
          let ops = com_diff_char old_body new_body;
              block = sg_b64 G (enc G k (nonces n) (encode_ops ops))
          in Inr (f\<lparr>ct_deltas := ct_deltas f @ [block]\<rparr>, n + 1,
                  cost\<lparr>delta_plaintext_bytes := delta_plaintext_bytes cost + payload_bytes ops,
                       delta_ciphertext_bytes := delta_ciphertext_bytes cost + length block,
                       files_touched := files_touched cost + 1\<rparr>)
      | Line_Variant \<Rightarrow>
          let ops = com_diff_line old_body new_body
          in rbind (apply_ct_ops G k nonces ops (ct_lines f) n) (\<lambda>(ls, n', written).
               Inr (f\<lparr>ct_lines := ls\<rparr>, n',
                    cost\<lparr>delta_plaintext_bytes := delta_plaintext_bytes cost + payload_bytes ops,
                         delta_ciphertext_bytes := delta_ciphertext_bytes cost + written,
                         files_touched := files_touched cost + 1\<rparr>)))"

text \<open>The loop over the new plaintext; an error leaves the files changed so far.\<close>

fun update_files :: "sgit_prims \<Rightarrow> bytes \<Rightarrow> (nat \<Rightarrow> bytes) \<Rightarrow> variant \<Rightarrow> (string \<times> utext) list \<Rightarrow> (string \<times> utext) list \<Rightarrow>
    nat \<Rightarrow> update_cost \<Rightarrow> (string \<times> ct_file) list \<Rightarrow> (string \<times> ct_file) list \<times> (sgit_error + update_cost)" where
  "update_files G k nonces v old [] n cost files = (files, Inr cost)"
| "update_files G k nonces v old ((name, new_body) # new) n cost files =
     (case map_of old name of
        None \<Rightarrow>
          (case fresh_file G k nonces v n new_body of
             (f, n') \<Rightarrow>
               update_files G k nonces v old new n'
                 (cost\<lparr>delta_plaintext_bytes := delta_plaintext_bytes cost + length (as_bytes new_body),
                       delta_ciphertext_bytes := delta_ciphertext_bytes cost + ct_stored_bytes f,
                       files_touched := files_touched cost + 1\<rparr>)
                 (bt_insert name f files))
      | Some old_body \<Rightarrow>
          if old_body = new_body then update_files G k nonces v old new n cost files
          else (case map_of files name of
                  None \<Rightarrow> (files, Inl (Missing_ciphertext name))
                | Some f \<Rightarrow>
                    (case changed_file G k nonces v n old_body new_body f cost of
                       Inl e \<Rightarrow> (files, Inl e)
                     | Inr (f', n', cost') \<Rightarrow> update_files G k nonces v old new n' cost' (bt_insert name f' files))))"

definition drop_deleted :: "(string \<times> utext) list \<Rightarrow> (string \<times> utext) list \<Rightarrow> (string \<times> ct_file) list \<Rightarrow> (string \<times> ct_file) list" where
  "drop_deleted old new files = fold (\<lambda>(name, _) fs. if map_of new name = None then bt_remove name fs else fs) old files"

definition update_repo :: "sgit_prims \<Rightarrow> (nat \<Rightarrow> bytes) \<Rightarrow> sg_member \<Rightarrow> ct_repo \<Rightarrow> (string \<times> utext) list \<Rightarrow> (string \<times> utext) list \<Rightarrow>
    variant \<Rightarrow> ct_repo \<times> (sgit_error + update_cost)" where
  "update_repo G nonces m r old new v =
     (case update_files G (key_for G m (ct_rid r)) nonces v old new 0
         \<lparr>delta_plaintext_bytes = 0, delta_ciphertext_bytes = 0, stored_bytes = 0, files_touched = 0\<rparr> (ct_files r) of
        (files, Inl e) \<Rightarrow> (r\<lparr>ct_files := files\<rparr>, Inl e)
      | (files, Inr cost) \<Rightarrow>
          let files' = drop_deleted old new files; r' = retag G m (r\<lparr>ct_files := files'\<rparr>)
          in (r', Inr (cost\<lparr>stored_bytes := sum_list (map (ct_stored_bytes \<circ> snd) files')\<rparr>)))"

section \<open>Pulling\<close>

definition unb64 :: "sgit_prims \<Rightarrow> string \<Rightarrow> sgit_error + bytes" where
  "unb64 G s = ok_or Bad_base64 (sg_unb64 G s)"

definition decrypt_text :: "sgit_prims \<Rightarrow> bytes \<Rightarrow> string \<Rightarrow> sgit_error + utext" where
  "decrypt_text G k s = rbind (unb64 G s) (\<lambda>ct. rbind (dec G k ct) (\<lambda>pt. ok_or Bad_utf8 (utf8_decode pt)))"

fun replay :: "sgit_prims \<Rightarrow> bytes \<Rightarrow> string list \<Rightarrow> utext \<Rightarrow> sgit_error + utext" where
  "replay G k [] text = Inr text"
| "replay G k (block # blocks) text =
     rbind (unb64 G block) (\<lambda>ct. rbind (dec G k ct) (\<lambda>raw.
     rbind (ok_or Malformed_delta (decode_ops raw)) (\<lambda>ops.
     rbind (ok_or Panicked (apply_chars text ops)) (replay G k blocks))))"

fun decrypt_lines :: "sgit_prims \<Rightarrow> bytes \<Rightarrow> string list \<Rightarrow> sgit_error + utext" where
  "decrypt_lines G k [] = Inr []"
| "decrypt_lines G k (l # ls) = rbind (decrypt_text G k l) (\<lambda>t. rbind (decrypt_lines G k ls) (\<lambda>ts. Inr (t @ ts)))"

definition reveal :: "sgit_prims \<Rightarrow> bytes \<Rightarrow> variant \<Rightarrow> ct_file \<Rightarrow> sgit_error + utext" where
  "reveal G k v f =
     (case v of
        Char_Variant \<Rightarrow> rbind (decrypt_text G k (ct_base f)) (replay G k (ct_deltas f))
      | Line_Variant \<Rightarrow> decrypt_lines G k (ct_lines f))"

fun reveal_all :: "sgit_prims \<Rightarrow> bytes \<Rightarrow> variant \<Rightarrow> (string \<times> ct_file) list \<Rightarrow> sgit_error + (string \<times> utext) list" where
  "reveal_all G k v [] = Inr []"
| "reveal_all G k v ((name, f) # files) =
     rbind (reveal G k v f) (\<lambda>body. rbind (reveal_all G k v files) (\<lambda>out. Inr ((name, body) # out)))"

definition check_version :: "sgit_prims \<Rightarrow> ct_repo \<Rightarrow> bytes \<Rightarrow> sgit_error + unit" where
  "check_version G r author_vk =
     rbind (unb64 G (acs_sig (ct_acs r))) (\<lambda>asig.
     if \<not> sg_verify G author_vk (acs_message (ct_acs r)) asig then Inl Acs_unsigned
     else if tag_uid (ct_tag r) \<notin> set (acs_write (ct_acs r)) then Inl (No_write_access (tag_uid (ct_tag r)))
     else rbind (unb64 G (tag_sig (ct_tag r))) (\<lambda>tsig.
       if \<not> sg_verify G author_vk (tag_digest G (ct_rid r) (tag_uid (ct_tag r)) (ct_root G (ct_files r) (ct_acs r))) tsig
       then Inl Forged else Inr ()))"

definition pull_repo :: "sgit_prims \<Rightarrow> sg_member \<Rightarrow> ct_repo \<Rightarrow> bytes \<Rightarrow> variant \<Rightarrow> sgit_error + (string \<times> utext) list" where
  "pull_repo G m r author_vk v =
     rbind (check_version G r author_vk) (\<lambda>_. reveal_all G (key_for G m (ct_rid r)) v (ct_files r))"

section \<open>Sharing\<close>

definition share_key :: "sgit_prims \<Rightarrow> string \<Rightarrow> bytes" where
  "share_key G uid = kdf G (str_bytes uid) ''share''"

definition share_repo :: "sgit_prims \<Rightarrow> bytes \<Rightarrow> sg_member \<Rightarrow> ct_repo \<Rightarrow> string \<Rightarrow> bool \<Rightarrow> ct_repo" where
  "share_repo G nonce owner r uid wr =
     (let wrap = sg_b64 G (enc G (share_key G uid) nonce (key_for G owner (ct_rid r)));
          acs1 = (ct_acs r)\<lparr>acs_read := bt_insert uid wrap (acs_read (ct_acs r))\<rparr>;
          acs2 = (if wr \<and> uid \<notin> set (acs_write acs1) then acs1\<lparr>acs_write := acs_write acs1 @ [uid]\<rparr> else acs1)
      in retag G owner (r\<lparr>ct_acs := signed_acs G owner acs2\<rparr>))"

section \<open>Ciphertext that holds a text\<close>

definition lines_hold :: "sgit_prims \<Rightarrow> bytes \<Rightarrow> string list \<Rightarrow> utext list \<Rightarrow> bool" where
  "lines_hold G k = list_all2 (\<lambda>ct l. decrypt_text G k ct = Inr l)"

definition holds :: "sgit_prims \<Rightarrow> bytes \<Rightarrow> variant \<Rightarrow> ct_file \<Rightarrow> utext \<Rightarrow> bool" where
  "holds G k v f body =
     (case v of
        Char_Variant \<Rightarrow> reveal G k v f = Inr body
      | Line_Variant \<Rightarrow> lines_hold G k (ct_lines f) (split_lines body))"

lemma unb64_b64 [simp]: "sgit_laws G \<Longrightarrow> unb64 G (sg_b64 G b) = Inr b"
  by (simp add: unb64_def sgit_laws_def)

lemma decrypt_text_enc: "sgit_laws G \<Longrightarrow> list_all scalar t \<Longrightarrow> decrypt_text G k (sg_b64 G (enc G k d (as_bytes t))) = Inr t"
  by (simp add: decrypt_text_def utf8_decode_as_bytes)

lemma enc_lines_hold:
  "sgit_laws G \<Longrightarrow> list_all (list_all scalar) ls \<Longrightarrow> lines_hold G k (fst (enc_lines G k nonces n ls)) ls"
  by (induction ls arbitrary: n) (simp_all add: lines_hold_def decrypt_text_enc case_prod_beta)

lemma scalar_lines: "list_all scalar s \<longleftrightarrow> list_all (list_all scalar) (split_lines s)"
proof -
  have "list_all scalar (concat ls) \<longleftrightarrow> list_all (list_all scalar) ls" for ls by (induction ls) auto
  from this [of "split_lines s"] show ?thesis by simp
qed

lemma decrypt_lines_hold: "lines_hold G k cts ls \<Longrightarrow> decrypt_lines G k cts = Inr (concat ls)"
  unfolding lines_hold_def by (induction rule: list_all2_induct) auto

lemma holds_reveal: "holds G k v f body \<Longrightarrow> reveal G k v f = Inr body"
  by (cases v) (auto simp: holds_def reveal_def dest: decrypt_lines_hold)

lemma fresh_file_holds:
  "sgit_laws G \<Longrightarrow> list_all scalar body \<Longrightarrow> holds G k v (fst (fresh_file G k nonces v n body)) body"
  using enc_lines_hold [of G "split_lines body" k nonces n] scalar_lines [of body]
  by (cases v) (auto simp: holds_def reveal_def fresh_file_def decrypt_text_enc split: prod.splits)

text \<open>The ciphertext lines follow the plaintext lines through the operations of a delta.\<close>

fun op_scalar :: "op \<Rightarrow> bool" where
  "op_scalar (Insert _ m) = list_all scalar m"
| "op_scalar (Delete _ _) = True"

lemma lines_hold_simps:
  "lines_hold G k cts ls \<Longrightarrow> length cts = length ls"
  "lines_hold G k cts ls \<Longrightarrow> lines_hold G k (take i cts) (take i ls)"
  "lines_hold G k cts ls \<Longrightarrow> lines_hold G k (drop i cts) (drop i ls)"
  "lines_hold G k cts ls \<Longrightarrow> lines_hold G k cts' ls' \<Longrightarrow> lines_hold G k (cts @ cts') (ls @ ls')"
  by (simp_all add: lines_hold_def list_all2_lengthD list_all2_takeI list_all2_dropI list_all2_appendI)

lemma apply_ct_op_follows:
  assumes "sgit_laws G" and "op_scalar x" and "lines_hold G k cts ls" and "apply_op split_lines x ls = Some ls'"
  shows "\<exists>cts' n' w. apply_ct_op G k nonces x cts n = Inr (cts', n', w) \<and> lines_hold G k cts' ls'"
proof (cases x)
  case (Insert idx m)
  have "list_all (list_all scalar) (split_lines m)" using assms(2) scalar_lines Insert by simp
  from enc_lines_hold [OF assms(1) this] assms(3,4) Insert lines_hold_simps(1) [OF assms(3)] show ?thesis
    by (auto simp: Let_def split: prod.splits intro!: lines_hold_simps(2-4))
       (metis fst_conv lines_hold_simps(2-4))
next
  case (Delete idx len)
  with assms(3,4) lines_hold_simps(1) [OF assms(3)] show ?thesis
    by (auto simp: Let_def split: if_splits intro!: lines_hold_simps(2-4))
qed

lemma apply_ct_ops_follow:
  "sgit_laws G \<Longrightarrow> list_all op_scalar ops \<Longrightarrow> lines_hold G k cts ls \<Longrightarrow> apply_ops split_lines ops ls = Some ls' \<Longrightarrow>
     \<exists>cts' n' w. apply_ct_ops G k nonces ops cts n = Inr (cts', n', w) \<and> lines_hold G k cts' ls'"
proof (induction ops arbitrary: cts ls n)
  case (Cons x ops)
  then obtain ls1 where ls1: "apply_op split_lines x ls = Some ls1" "apply_ops split_lines ops ls1 = Some ls'"
    by (auto split: option.splits)
  obtain c1 n1 w1 where 1: "apply_ct_op G k nonces x cts n = Inr (c1, n1, w1)" "lines_hold G k c1 ls1"
    using apply_ct_op_follows [OF Cons.prems(1) _ Cons.prems(3) ls1(1), of nonces n] Cons.prems(2) by auto
  obtain c2 n2 w2 where "apply_ct_ops G k nonces ops c1 n1 = Inr (c2, n2, w2)" "lines_hold G k c2 ls'"
    using Cons.IH [OF Cons.prems(1) _ 1(2) ls1(2), of n1] Cons.prems(2) by auto
  with 1(1) show ?case by simp
qed auto

lemma op_scalar_pairs:
  "list_all (list_all scalar) new \<Longrightarrow> list_all op_scalar (pairs_loop old new pairs oi ni cur)"
proof (induction old new pairs oi ni cur rule: pairs_loop.induct)
  case (1 old new oi ni cur)
  then have "list_all (list_all scalar) (drop ni new)" by (auto simp: list_all_iff dest: in_set_dropD)
  then show ?case by (auto simp: emit_def list_all_iff)
next
  case (2 old new po pn pairs oi ni cur)
  let ?seg = "take (pn - ni) (drop ni new)"
  have "list_all (list_all scalar) ?seg" using 2(3) by (auto simp: list_all_iff dest: in_set_takeD in_set_dropD)
  then have "list_all op_scalar (emit (po - oi) (concat ?seg) cur)" by (auto simp: emit_def list_all_iff)
  with 2 show ?case by (simp add: Let_def)
qed

lemma length_split_lines: "length (split_lines s) \<le> length s"
proof -
  have "lines_wf ls \<Longrightarrow> length ls \<le> length (concat ls)" for ls
  proof (induction ls)
    case (Cons l ls)
    then show ?case by (cases l) auto
  qed simp
  from this [of "split_lines s"] show ?thesis by simp
qed

lemma changed_file_holds:
  assumes "sgit_laws G" and "text_ok old" and "text_ok new" and "holds G k v f old"
  shows "\<exists>f' n' cost'. changed_file G k nonces v n old new f cost = Inr (f', n', cost') \<and> holds G k v f' new"
proof (cases v)
  case Char_Variant
  obtain ops where ops: "decode_ops (encode_ops (com_diff_char old new)) = Some ops" "apply_chars old ops = Some new"
    using delta_block_reconstructs [OF assms(2,3)] by blast
  have rep: "replay G k (bs @ [sg_b64 G (enc G k d (encode_ops (com_diff_char old new)))]) t = Inr new"
    if "replay G k bs t = Inr old" for bs t d
    using that
  proof (induction bs arbitrary: t)
    case Nil
    then show ?case using ops assms(1) by simp
  qed (auto simp: rbind_Inr_conv)
  obtain t where "decrypt_text G k (ct_base f) = Inr t" "replay G k (ct_deltas f) t = Inr old"
    using assms(4) by (auto simp: Char_Variant holds_def reveal_def rbind_Inr_conv)
  then show ?thesis by (simp add: Char_Variant holds_def reveal_def changed_file_def Let_def rep)
next
  case Line_Variant
  have "length (split_lines old) + length (split_lines new) < 2 ^ 64"
    using length_split_lines [of old] length_split_lines [of new] assms(2,3) by (simp add: text_ok_def)
  then have "apply_ops split_lines (com_diff_line old new) (split_lines old) = Some (split_lines new)"
    using pairs_loop_applies [OF matching_lcs] by (simp add: com_diff_line_def ops_from_pairs_def Let_def)
  moreover have "list_all op_scalar (com_diff_line old new)"
    using assms(3) scalar_lines op_scalar_pairs by (simp add: com_diff_line_def ops_from_pairs_def Let_def text_ok_def)
  ultimately obtain cts' n' w where "apply_ct_ops G k nonces (com_diff_line old new) (ct_lines f) n = Inr (cts', n', w)"
    "lines_hold G k cts' (split_lines new)"
    using apply_ct_ops_follow [OF assms(1), of "com_diff_line old new" k "ct_lines f" "split_lines old"] assms(4)
    unfolding Line_Variant holds_def variant.case by blast
  then show ?thesis by (simp add: Line_Variant holds_def changed_file_def Let_def)
qed

section \<open>Versions that hold a plaintext tree\<close>

definition plain_ok :: "(string \<times> utext) list \<Rightarrow> bool" where
  "plain_ok plain \<longleftrightarrow> bt_wf plain \<and> (\<forall>p \<in> set plain. text_ok (snd p))"

definition files_hold :: "sgit_prims \<Rightarrow> bytes \<Rightarrow> variant \<Rightarrow> (string \<times> ct_file) list \<Rightarrow> (string \<times> utext) list \<Rightarrow> bool" where
  "files_hold G k v files plain \<longleftrightarrow> bt_wf files \<and> (\<forall>name. rel_option (holds G k v) (map_of files name) (map_of plain name))"

lemma plain_ok_text: "plain_ok plain \<Longrightarrow> map_of plain name = Some body \<Longrightarrow> text_ok body"
  using map_of_SomeD by (fastforce simp: plain_ok_def)

lemma reveal_all_map:
  "(\<forall>p \<in> set files. reveal G k v (snd p) = Inr (g (fst p))) \<Longrightarrow> reveal_all G k v files = Inr (map (\<lambda>p. (fst p, g (fst p))) files)"
  by (induction files) auto

lemma reveal_all_hold:
  assumes "files_hold G k v files plain" and "bt_wf plain"
  shows "reveal_all G k v files = Inr plain"
proof -
  let ?g = "\<lambda>name. the (map_of plain name)"
  let ?out = "map (\<lambda>p. (fst p, ?g (fst p))) files"
  have wf: "bt_wf files" and rel: "rel_option (holds G k v) (map_of files name) (map_of plain name)" for name
    using assms(1) by (simp_all add: files_hold_def)
  have "reveal G k v (snd p) = Inr (?g (fst p))" if "p \<in> set files" for p
  proof -
    have "map_of files (fst p) = Some (snd p)" using that wf by (simp add: bt_wf_Some_iff)
    with rel [of "fst p"] show ?thesis by (auto simp: option_rel_Some1 dest: holds_reveal)
  qed
  then have "reveal_all G k v files = Inr ?out" using reveal_all_map [where g = ?g] by blast
  moreover have "?out = plain"
  proof (rule bt_wf_ext [OF _ assms(2)])
    show "bt_wf ?out" using wf by (simp add: bt_wf_def comp_def)
    fix name
    have "map_of ?out name = map_option (\<lambda>_. ?g name) (map_of files name)" by (induction files) auto
    then show "map_of ?out name = map_of plain name"
      using rel [of name] by (cases "map_of files name"; cases "map_of plain name") auto
  qed
  ultimately show ?thesis by simp
qed

text \<open>The files of \<open>new\<close> hold their texts in \<open>files'\<close>, the others are as they were in \<open>files\<close>.\<close>

definition covers :: "sgit_prims \<Rightarrow> bytes \<Rightarrow> variant \<Rightarrow> (string \<times> utext) list \<Rightarrow> (string \<times> ct_file) list \<Rightarrow> (string \<times> ct_file) list \<Rightarrow> bool" where
  "covers G k v new files files' \<longleftrightarrow>
     (\<forall>name. case map_of new name of
        Some body \<Rightarrow> (\<exists>f. map_of files' name = Some f \<and> holds G k v f body)
      | None \<Rightarrow> map_of files' name = map_of files name)"

lemma covers_Nil [simp]: "covers G k v [] files files"
  by (simp add: covers_def)

lemma covers_Cons:
  assumes "covers G k v new (bt_insert name f files) files'" and "map_of new name = None" and "bt_wf files" and "holds G k v f body"
  shows "covers G k v ((name, body) # new) files files'"
  unfolding covers_def
proof
  fix x
  from assms(1) have at: "case map_of new x of Some body \<Rightarrow> (\<exists>f. map_of files' x = Some f \<and> holds G k v f body)
      | None \<Rightarrow> map_of files' x = map_of (bt_insert name f files) x"
    by (simp add: covers_def)
  show "case map_of ((name, body) # new) x of Some body \<Rightarrow> (\<exists>f. map_of files' x = Some f \<and> holds G k v f body)
      | None \<Rightarrow> map_of files' x = map_of files x"
  proof (cases "x = name")
    case True
    with at assms(2-4) show ?thesis by simp
  next
    case False
    with at assms(3) show ?thesis by (cases "map_of new x") simp_all
  qed
qed

lemma fresh_files_hold:
  "sgit_laws G \<Longrightarrow> \<forall>p \<in> set plain. text_ok (snd p) \<Longrightarrow> bt_wf files \<Longrightarrow> distinct (map fst plain) \<Longrightarrow>
     bt_wf (fst (fresh_files G k nonces v n plain files)) \<and> covers G k v plain files (fst (fresh_files G k nonces v n plain files))"
proof (induction plain arbitrary: n files)
  case (Cons p plain)
  obtain name body where p: "p = (name, body)" by fastforce
  obtain f n1 where f: "fresh_file G k nonces v n body = (f, n1)" by fastforce
  have "holds G k v f body"
    using fresh_file_holds [of G body k v nonces n] Cons.prems(1,2) f p by (simp add: text_ok_def)
  moreover have "map_of plain name = None" using Cons.prems(4) p by (simp add: map_of_eq_None_iff)
  ultimately show ?case
    using Cons.IH [of "bt_insert name f files" n1] Cons.prems covers_Cons [of G k v plain name f files]
    by (simp add: p f)
qed simp

lemma update_files_hold:
  "sgit_laws G \<Longrightarrow> bt_wf files \<Longrightarrow> distinct (map fst new) \<Longrightarrow> \<forall>p \<in> set new. text_ok (snd p) \<Longrightarrow> plain_ok old \<Longrightarrow>
   (\<forall>name b. name \<in> fst ` set new \<longrightarrow> map_of old name = Some b \<longrightarrow> (\<exists>f. map_of files name = Some f \<and> holds G k v f b)) \<Longrightarrow>
     \<exists>files' cost'. update_files G k nonces v old new n cost files = (files', Inr cost') \<and> bt_wf files' \<and> covers G k v new files files'"
proof (induction new arbitrary: n cost files)
  case (Cons p new)
  obtain name body where p: "p = (name, body)" by fastforce
  have fresh_name: "map_of new name = None" "name \<notin> fst ` set new" using Cons.prems(3) p by (auto simp: map_of_eq_None_iff)
  have step: "\<exists>files' cost'. update_files G k nonces v old new n1 cost1 (bt_insert name f files) = (files', Inr cost') \<and> bt_wf files' \<and>
       covers G k v (p # new) files files'" if "holds G k v f body" for f n1 cost1
  proof -
    have pre: "\<forall>x b. x \<in> fst ` set new \<longrightarrow> map_of old x = Some b \<longrightarrow>
        (\<exists>g. map_of (bt_insert name f files) x = Some g \<and> holds G k v g b)"
      using Cons.prems(2,6) fresh_name(2) by auto
    have "bt_wf (bt_insert name f files)" "distinct (map fst new)" "\<forall>q \<in> set new. text_ok (snd q)"
      using Cons.prems(2-4) by simp_all
    from Cons.IH [OF Cons.prems(1) this Cons.prems(5) pre, of n1 cost1] obtain files' cost' where
      res: "update_files G k nonces v old new n1 cost1 (bt_insert name f files) = (files', Inr cost')" "bt_wf files'"
      "covers G k v new (bt_insert name f files) files'" by blast
    from covers_Cons [OF res(3) fresh_name(1) Cons.prems(2) that] res(1,2) show ?thesis by (simp add: p)
  qed
  show ?case
  proof (cases "map_of old name")
    case None
    obtain f n1 where f: "fresh_file G k nonces v n body = (f, n1)" by fastforce
    have "holds G k v f body"
      using fresh_file_holds [of G body k v nonces n] Cons.prems(1,4) f p by (simp add: text_ok_def)
    from step [OF this] None f show ?thesis by (simp add: p)
  next
    case (Some b)
    then obtain f where f: "map_of files name = Some f" "holds G k v f b" 
      using spec [OF spec [OF Cons.prems(6), of name], of b] p by auto
    show ?thesis
    proof (cases "b = body")
      case True
      have same: "bt_insert name f files = files"
        using f(1) Cons.prems(2) by (intro bt_wf_ext) auto
      from step [of f, unfolded same] f(2) True Some show ?thesis by (simp add: p)
    next
      case False
      have "text_ok b" "text_ok body" using plain_ok_text [OF Cons.prems(5) Some] Cons.prems(4) p by simp_all
      then obtain f' n1 cost1 where "changed_file G k nonces v n b body f cost = Inr (f', n1, cost1)" "holds G k v f' body"
        using changed_file_holds [OF Cons.prems(1) _ _ f(2)] by blast
      with step [of f' n1 cost1] False Some f(1) show ?thesis by (simp add: p)
    qed
  qed
qed auto

lemma map_of_drop_deleted:
  "map_of (drop_deleted old new files) name =
     (if name \<in> fst ` set old \<and> map_of new name = None then None else map_of files name)"
proof (induction old arbitrary: files)
  case (Cons p old)
  obtain x b where p: "p = (x, b)" by fastforce
  have "drop_deleted (p # old) new files = drop_deleted old new (if map_of new x = None then bt_remove x files else files)"
    by (simp add: drop_deleted_def p)
  then show ?case by (cases "map_of new x") (auto simp: Cons.IH p)
qed (simp add: drop_deleted_def)

lemma bt_wf_drop_deleted: "bt_wf files \<Longrightarrow> bt_wf (drop_deleted old new files)"
  unfolding drop_deleted_def by (induction old arbitrary: files) auto

section \<open>Runs of an owner\<close>

text \<open>The owner initialises, updates and shares; \<open>plain\<close> is the plaintext of the last version.\<close>

inductive owner_run :: "sgit_prims \<Rightarrow> sg_member \<Rightarrow> variant \<Rightarrow> ct_repo \<Rightarrow> (string \<times> utext) list \<Rightarrow> bool"
  for G m v where
  started: "plain_ok plain \<Longrightarrow> owner_run G m v (init_repo G nonces m rid plain v) plain"
| updated: "owner_run G m v r old \<Longrightarrow> plain_ok new \<Longrightarrow> update_repo G nonces m r old new v = (r', res) \<Longrightarrow>
    owner_run G m v r' new"
| shared: "owner_run G m v r plain \<Longrightarrow> owner_run G m v (share_repo G nonce m r uid wr) plain"

text \<open>What a run keeps: the files hold the plaintext, and the owner signed the access file and the root.\<close>

definition owned :: "sgit_prims \<Rightarrow> sg_member \<Rightarrow> ct_repo \<Rightarrow> bool" where
  "owned G m r \<longleftrightarrow> sm_uid m \<in> set (acs_write (ct_acs r)) \<and> bt_wf (acs_read (ct_acs r)) \<and>
     acs_sig (ct_acs r) = sg_b64 G (sg_sign G (sm_sk m) (acs_message (ct_acs r))) \<and> r = retag G m r"

lemma acs_message_sig [simp]: "acs_message (acs\<lparr>acs_sig := s\<rparr>) = acs_message acs"
  by (simp add: acs_message_def)

lemma retag_fields [simp]:
  "ct_rid (retag G m r) = ct_rid r" "ct_files (retag G m r) = ct_files r" "ct_acs (retag G m r) = ct_acs r"
  "retag G m (retag G m r) = retag G m r"
  by (simp_all add: retag_def)

lemma owned_checks: "sgit_laws G \<Longrightarrow> owned G m r \<Longrightarrow> check_version G r (sg_vk G (sm_sk m)) = Inr ()"
proof -
  assume laws: "sgit_laws G" and own: "owned G m r"
  then have tag: "ct_tag r = \<lparr>tag_uid = sm_uid m, tag_sig = sign_root G m (ct_rid r) (ct_root G (ct_files r) (ct_acs r))\<rparr>"
    by (metis owned_def retag_def ct_repo.select_convs(4) ct_repo.surjective ct_repo.update_convs(4))
  show ?thesis
    using laws own by (simp add: check_version_def tag sign_root_def owned_def) (simp add: sgit_laws_def)
qed

lemma update_repo_holds:
  assumes "sgit_laws G" and "files_hold G (key_for G m (ct_rid r)) v (ct_files r) old" and "plain_ok old" and "plain_ok new"
  shows "\<exists>files cost. update_repo G nonces m r old new v = (retag G m (r\<lparr>ct_files := files\<rparr>), Inr cost) \<and>
    files_hold G (key_for G m (ct_rid r)) v files new"
proof -
  let ?k = "key_for G m (ct_rid r)"
  have wf: "bt_wf (ct_files r)" and rel: "rel_option (holds G ?k v) (map_of (ct_files r) name) (map_of old name)" for name
    using assms(2) by (simp_all add: files_hold_def)
  have pre: "\<forall>name b. name \<in> fst ` set new \<longrightarrow> map_of old name = Some b \<longrightarrow>
      (\<exists>f. map_of (ct_files r) name = Some f \<and> holds G ?k v f b)"
    using rel by (metis option_rel_Some2)
  have new: "distinct (map fst new)" "\<forall>p \<in> set new. text_ok (snd p)"
    using assms(4) bt_wf_distinct by (auto simp: plain_ok_def)
  obtain files cost where up: "update_files G ?k nonces v old new 0
        \<lparr>delta_plaintext_bytes = 0, delta_ciphertext_bytes = 0, stored_bytes = 0, files_touched = 0\<rparr> (ct_files r) = (files, Inr cost)"
    "bt_wf files" "covers G ?k v new (ct_files r) files"
    using update_files_hold [OF assms(1) wf new assms(3) pre] by blast
  have "rel_option (holds G ?k v) (map_of (drop_deleted old new files) name) (map_of new name)" for name
  proof (cases "map_of new name")
    case None
    then have "map_of files name = map_of (ct_files r) name"
      using up(3) by (auto simp: covers_def dest: spec [of _ name])
    moreover have "map_of (ct_files r) name = None" if "name \<notin> fst ` set old"
      using rel [of name] that by (metis map_of_eq_None_iff option_rel_Some1 not_None_eq)
    ultimately show ?thesis using None by (simp add: map_of_drop_deleted)
  next
    case (Some body)
    then show ?thesis using up(3) by (auto simp: covers_def map_of_drop_deleted dest!: spec [of _ name])
  qed
  then have "files_hold G ?k v (drop_deleted old new files) new"
    using up(2) bt_wf_drop_deleted by (simp add: files_hold_def)
  with up(1) show ?thesis by (auto simp: update_repo_def Let_def)
qed

lemma owner_run_keeps:
  assumes "owner_run G m v r plain" and "sgit_laws G"
  shows "owned G m r \<and> plain_ok plain \<and> files_hold G (key_for G m (ct_rid r)) v (ct_files r) plain"
  using assms(1)
proof induction
  case (started plain nonces rid)
  let ?k = "key_for G m rid"
  let ?files = "fst (fresh_files G ?k nonces v 0 plain [])"
  have "bt_wf ?files \<and> covers G ?k v plain [] ?files"
    by (rule fresh_files_hold [OF assms(2)]) (use started bt_wf_distinct in \<open>auto simp: plain_ok_def\<close>)
  then have "files_hold G ?k v ?files plain"
    unfolding files_hold_def covers_def by (auto split: option.splits) (metis (no_types, lifting) option.rel_intros not_None_eq)
  with started show ?case by (simp add: init_repo_def Let_def owned_def signed_acs_def acs_message_def)
next
  case (updated r old new nonces r' res)
  then obtain files cost where "r' = retag G m (r\<lparr>ct_files := files\<rparr>)" "files_hold G (key_for G m (ct_rid r)) v files new"
    using update_repo_holds [OF assms(2), of m r v old new nonces] by auto
  with updated show ?case by (simp add: owned_def)
next
  case (shared r plain nonce uid wr)
  then show ?case by (auto simp: share_repo_def Let_def owned_def signed_acs_def)
qed

text \<open>
  C15.  What the owner pulls is the last version: after any sequence of updates and grants, in either
  variant and whatever nonces were drawn, the version verifies and decrypts to exactly the plaintext
  of the last update.
\<close>

theorem owner_pulls_last_version:
  assumes "owner_run G m v r plain" and "sgit_laws G"
  shows "pull_repo G m r (sg_vk G (sm_sk m)) v = Inr plain"
proof -
  have keeps: "owned G m r" "plain_ok plain" "files_hold G (key_for G m (ct_rid r)) v (ct_files r) plain"
    using owner_run_keeps [OF assms] by blast+
  then show ?thesis
    using owned_checks [OF assms(2) keeps(1)] reveal_all_hold [OF keeps(3)] by (simp add: pull_repo_def plain_ok_def)
qed

text \<open>An update of a version the owner made never fails, and leaves a version that holds the new plaintext.\<close>

theorem owner_update_succeeds:
  assumes "owner_run G m v r old" and "sgit_laws G" and "plain_ok new"
  shows "\<exists>r' cost. update_repo G nonces m r old new v = (r', Inr cost) \<and> pull_repo G m r' (sg_vk G (sm_sk m)) v = Inr new"
proof -
  have keeps: "plain_ok old" "files_hold G (key_for G m (ct_rid r)) v (ct_files r) old"
    using owner_run_keeps [OF assms(1,2)] by blast+
  obtain r' cost where "update_repo G nonces m r old new v = (r', Inr cost)"
    using update_repo_holds [OF assms(2) keeps(2,1) assms(3)] by blast
  with owner_pulls_last_version [OF owner_run.updated [OF assms(1,3)] assms(2)] show ?thesis by blast
qed

section \<open>What a signed root binds\<close>

lemma sg_root_loop_single: "\<not> 1 < length l \<Longrightarrow> sg_root_loop G l = l ! 0"
  and sg_root_loop_up: "1 < length l \<Longrightarrow> sg_root_loop G l = sg_root_loop G (sg_level G l)"
  by (simp_all add: sg_root_loop.simps [of G l])

lemma sg_level_collision:
  "length xs = length ys \<Longrightarrow> xs \<noteq> ys \<Longrightarrow> sg_level G xs = sg_level G ys \<Longrightarrow>
     \<exists>a b c d. (a, b) \<noteq> (c, d) \<and> sg_node G a b = sg_node G c d"
proof (induction G xs arbitrary: ys rule: sg_level.induct)
  case (2 G a)
  then obtain b where "ys = [b]" by (cases ys) auto
  with 2 show ?case by (intro exI [of _ a] exI [of _ a] exI [of _ b] exI [of _ b]) auto
next
  case (3 G a b rest)
  then obtain c d rest' where ys: "ys = c # d # rest'" by (metis Suc_length_conv)
  show ?case
  proof (cases "(a, b) = (c, d)")
    case True
    with 3 ys show ?thesis by auto
  next
    case False
    with 3(4) ys show ?thesis by (intro exI [of _ a] exI [of _ b] exI [of _ c] exI [of _ d]) simp
  qed
qed simp

text \<open>
  The root binds the leaves of a tree of known size: two different leaf lists of one length with
  the same root exhibit a collision of the node hash.
\<close>

theorem dag_root_collision:
  assumes "length xs = length ys" and "xs \<noteq> ys" and "dag_root G xs = dag_root G ys"
  shows "\<exists>a b c d. (a, b) \<noteq> (c, d) \<and> sg_node G a b = sg_node G c d"
proof -
  have "length xs = length ys \<Longrightarrow> xs \<noteq> ys \<Longrightarrow> sg_root_loop G xs = sg_root_loop G ys \<Longrightarrow>
      \<exists>a b c d. (a, b) \<noteq> (c, d) \<and> sg_node G a b = sg_node G c d"
  proof (induction G xs arbitrary: ys rule: sg_root_loop.induct)
    case (1 G xs)
    show ?case
    proof (cases "1 < length xs")
      case False
      with 1(2,3) obtain a b where "xs = [a]" "ys = [b]" by (cases xs; cases ys) auto
      with 1(3,4) show ?thesis by (simp add: sg_root_loop_single)
    next
      case True
      then have roots: "sg_root_loop G (sg_level G xs) = sg_root_loop G (sg_level G ys)"
        using 1(2,4) sg_root_loop_up [of xs G] sg_root_loop_up [of ys G] by simp
      show ?thesis
      proof (cases "sg_level G xs = sg_level G ys")
        case True
        with sg_level_collision [OF 1(2,3)] show ?thesis by blast
      next
        case False
        with 1(1) [OF \<open>1 < length xs\<close> _ _ roots] 1(2) show ?thesis by simp
      qed
    qed
  qed
  then show ?thesis using assms by (cases "xs = []"; cases "ys = []") (auto simp: dag_root_def)
qed

text \<open>The size is not bound: an odd level hashes like the one with its last node repeated.\<close>

lemma sg_level_repeats: "even (length ls) \<Longrightarrow> sg_level G (ls @ [x]) = sg_level G (ls @ [x, x])"
  by (induction G ls rule: sg_level.induct) auto

lemma dag_root_repeats_last:
  assumes "even (length ls)" and "ls \<noteq> []"
  shows "dag_root G (ls @ [x]) = dag_root G (ls @ [x, x])"
  using assms sg_root_loop_up [of "ls @ [x]" G] sg_root_loop_up [of "ls @ [x, x]" G] sg_level_repeats [OF assms(1)]
  by (simp add: dag_root_def)

lemma check_version_root:
  "ct_root G files (ct_acs r) = ct_root G (ct_files r) (ct_acs r) \<Longrightarrow>
     check_version G (r\<lparr>ct_files := files\<rparr>) vk = check_version G r vk"
  by (simp add: check_version_def cong: if_cong)

text \<open>A file whose last deltas are passed off as lines has the same leaf.\<close>

definition hide_deltas :: "nat \<Rightarrow> ct_file \<Rightarrow> ct_file" where
  "hide_deltas n f = f\<lparr>ct_deltas := take n (ct_deltas f), ct_lines := drop n (ct_deltas f) @ ct_lines f\<rparr>"

lemma file_leaf_hide: "file_leaf G (name, hide_deltas n f) = file_leaf G (name, f)"
  by (simp add: file_leaf_def hide_deltas_def flip: map_append append_assoc)

lemma leaves_bt_insert:
  "map_of files name = Some f \<Longrightarrow> bt_wf files \<Longrightarrow> file_leaf G (name, f') = file_leaf G (name, f) \<Longrightarrow>
     map (file_leaf G) (bt_insert name f' files) = map (file_leaf G) files"
  by (induction name f' files rule: bt_insert.induct) (fastforce split: if_splits dest: map_of_SomeD)+

lemma replay_append: "replay G k (bs1 @ bs2) t = rbind (replay G k bs1 t) (replay G k bs2)"
  by (induction bs1 arbitrary: t) (auto simp: rbind_def split: sum.splits)

text \<open>
  C35.  The host can roll a file back to any of its versions without breaking a signature: the deltas
  after the chosen one, moved from one list of the ciphertext file to another, hash to the same leaf,
  and the reader does not apply them.
\<close>

theorem host_rolls_file_back:
  assumes "owner_run G m Char_Variant r plain" and "sgit_laws G" and "map_of (ct_files r) name = Some f"
  shows "\<exists>earlier. reveal G (key_for G m (ct_rid r)) Char_Variant (f\<lparr>ct_deltas := take n (ct_deltas f)\<rparr>) = Inr earlier \<and>
    pull_repo G m (r\<lparr>ct_files := bt_insert name (hide_deltas n f) (ct_files r)\<rparr>) (sg_vk G (sm_sk m)) Char_Variant
      = Inr (bt_insert name earlier plain)"
proof -
  let ?k = "key_for G m (ct_rid r)" and ?files = "bt_insert name (hide_deltas n f) (ct_files r)"
  have own: "owned G m r" "plain_ok plain" "files_hold G ?k Char_Variant (ct_files r) plain"
    using owner_run_keeps [OF assms(1,2)] by blast+
  have wf: "bt_wf (ct_files r)" and rel: "rel_option (holds G ?k Char_Variant) (map_of (ct_files r) x) (map_of plain x)" for x
    using own(3) by (simp_all add: files_hold_def)
  obtain body where "reveal G ?k Char_Variant f = Inr body"
    using rel [of name] assms(3) by (auto simp: option_rel_Some1 dest: holds_reveal)
  then obtain earlier where earlier: "reveal G ?k Char_Variant (f\<lparr>ct_deltas := take n (ct_deltas f)\<rparr>) = Inr earlier"
    using replay_append [of G ?k "take n (ct_deltas f)" "drop n (ct_deltas f)"]
    by (auto simp: reveal_def rbind_Inr_conv)
  have "ct_root G ?files (ct_acs r) = ct_root G (ct_files r) (ct_acs r)"
    using leaves_bt_insert [OF assms(3) wf file_leaf_hide] by (simp add: ct_root_def)
  from check_version_root [OF this] owned_checks [OF assms(2) own(1)]
  have "check_version G (r\<lparr>ct_files := ?files\<rparr>) (sg_vk G (sm_sk m)) = Inr ()" by simp
  moreover have "holds G ?k Char_Variant (hide_deltas n f) earlier"
    using earlier by (simp add: holds_def reveal_def hide_deltas_def)
  then have "files_hold G ?k Char_Variant ?files (bt_insert name earlier plain)"
    using wf own(2) rel by (simp add: files_hold_def plain_ok_def)
  then have "reveal_all G ?k Char_Variant ?files = Inr (bt_insert name earlier plain)"
    using reveal_all_hold own(2) by (simp add: plain_ok_def)
  ultimately show ?thesis using earlier by (simp add: pull_repo_def)
qed

text \<open>
  The host can add a file nobody wrote: named like the signature of the access file and sorted
  last, it repeats the last leaf, and every reader of the line variant accepts it.
\<close>

theorem host_adds_file:
  assumes "owner_run G m Line_Variant r plain" and "sgit_laws G" and "even (length (ct_files r))" and "ct_files r \<noteq> []"
  shows "pull_repo G m (r\<lparr>ct_files := ct_files r @ [(acs_sig (ct_acs r), \<lparr>ct_base = [], ct_deltas = [], ct_lines = []\<rparr>)]\<rparr>)
    (sg_vk G (sm_sk m)) Line_Variant = Inr (plain @ [(acs_sig (ct_acs r), [])])"
proof -
  let ?x = "(acs_sig (ct_acs r), \<lparr>ct_base = [], ct_deltas = [], ct_lines = []\<rparr>)"
  have own: "owned G m r" "plain_ok plain" "files_hold G (key_for G m (ct_rid r)) Line_Variant (ct_files r) plain"
    using owner_run_keeps [OF assms(1,2)] by blast+
  have "file_leaf G ?x = sha256 G [str_bytes (acs_sig (ct_acs r))]" by (simp add: file_leaf_def sha256_def str_bytes_def)
  then have "ct_root G (ct_files r @ [?x]) (ct_acs r) = ct_root G (ct_files r) (ct_acs r)"
    using dag_root_repeats_last [of "map (file_leaf G) (ct_files r)" G "file_leaf G ?x"] assms(3,4) by (simp add: ct_root_def)
  from check_version_root [OF this] owned_checks [OF assms(2) own(1)]
  have "check_version G (r\<lparr>ct_files := ct_files r @ [?x]\<rparr>) (sg_vk G (sm_sk m)) = Inr ()" by simp
  moreover have "reveal_all G k v (files @ [?x]) = Inr (out @ [(acs_sig (ct_acs r), [])])"
    if "reveal_all G k v files = Inr out" and "v = Line_Variant" for k v files out
    using that by (induction files arbitrary: out) (auto simp: rbind_Inr_conv reveal_def)
  ultimately show ?thesis
    using reveal_all_hold [OF own(3)] own(2) by (simp add: pull_repo_def plain_ok_def)
qed

text \<open>
  A grant publishes the repository key: it is wrapped under a key that is derived from the
  recipient's name alone, so that whoever reads the access file reads every file.
\<close>

theorem share_reveals_plaintext:
  assumes "owner_run G m v r plain" and "sgit_laws G"
  shows "\<exists>wrap ct k. map_of (acs_read (ct_acs (share_repo G nonce m r uid wr))) uid = Some wrap \<and>
    sg_unb64 G wrap = Some ct \<and> dec G (kdf G (str_bytes uid) ''share'') ct = Inr k \<and>
    reveal_all G k v (ct_files (share_repo G nonce m r uid wr)) = Inr plain"
proof -
  have "bt_wf (acs_read (ct_acs r))" "plain_ok plain" "files_hold G (key_for G m (ct_rid r)) v (ct_files r) plain"
    using owner_run_keeps [OF assms(1,2)] by (auto simp: owned_def)
  from reveal_all_hold [OF this(3)] this(1,2) show ?thesis
    using assms(2) by (simp add: share_repo_def Let_def signed_acs_def share_key_def sgit_laws_def plain_ok_def)
qed

section \<open>Closed examples\<close>

definition demo_sgit :: sgit_prims where
  "demo_sgit = \<lparr>sg_keystream = (\<lambda>k nonce i. of_nat i), sg_sha256 = (\<lambda>b. b), sg_kdf = (\<lambda>mk rid. mk @ rid),
     sg_b64 = map (\<lambda>x. char_of (unat x)), sg_unb64 = (\<lambda>s. Some (str_bytes s)), sg_sign = (\<lambda>sk m. sk @ m), sg_vk = (\<lambda>sk. sk),
     sg_verify = (\<lambda>vk m s. s = vk @ m)\<rparr>"

lemma demo_laws: "sgit_laws demo_sgit"
proof -
  have "of_char (char_of (unat x)) = x" for x :: u8
  proof -
    have "of_char (char_of (unat x)) = (of_nat (of_char (char_of (unat x))) :: u8)" by (rule of_nat_of_char [symmetric])
    also have "unat x < 2 ^ LENGTH(8)" by (rule unsigned_less)
    then have "of_nat (of_char (char_of (unat x))) = x" by (simp del: of_nat_of_char)
    finally show ?thesis .
  qed
  then show ?thesis by (simp add: sgit_laws_def demo_sgit_def str_bytes_def comp_def)
qed

definition demo_owner :: sg_member where
  "demo_owner = \<lparr>sm_uid = ''ann'', sm_mk = [1, 2], sm_sk = [3]\<rparr>"

definition demo_version :: "variant \<Rightarrow> (string \<times> utext) list \<Rightarrow> ct_repo" where
  "demo_version v plain = init_repo demo_sgit (\<lambda>i. [of_nat i]) demo_owner ''repo'' plain v"

definition demo_second :: ct_repo where
  "demo_second = fst (update_repo demo_sgit (\<lambda>i. [of_nat i]) demo_owner (demo_version Char_Variant [(''a'', [97])]) [(''a'', [97])] [(''a'', [98])] Char_Variant)"

lemma demo_runs_sgit:
  "owner_run demo_sgit demo_owner Char_Variant demo_second [(''a'', [98])]"
  "owner_run demo_sgit demo_owner Line_Variant (demo_version Line_Variant [(''a'', [97]), (''b'', [98])]) [(''a'', [97]), (''b'', [98])]"
proof -
  have ok: "plain_ok [(''a'', [97])]" "plain_ok [(''a'', [98])]" "plain_ok [(''a'', [97]), (''b'', [98])]"
    by (simp_all add: plain_ok_def text_ok_def scalar_def)
  show "owner_run demo_sgit demo_owner Line_Variant (demo_version Line_Variant [(''a'', [97]), (''b'', [98])]) [(''a'', [97]), (''b'', [98])]"
    unfolding demo_version_def by (rule owner_run.started) (rule ok)
  have first: "owner_run demo_sgit demo_owner Char_Variant (demo_version Char_Variant [(''a'', [97])]) [(''a'', [97])]"
    unfolding demo_version_def by (rule owner_run.started) (rule ok)
  show "owner_run demo_sgit demo_owner Char_Variant demo_second [(''a'', [98])]"
    unfolding demo_second_def by (rule owner_run.updated [OF first ok(2)]) (rule prod.collapse [symmetric])
qed

lemma owner_pulls_last_version_witness:
  "pull_repo demo_sgit demo_owner demo_second (sg_vk demo_sgit (sm_sk demo_owner)) Char_Variant = Inr [(''a'', [98])]"
  by (rule owner_pulls_last_version [OF demo_runs_sgit(1) demo_laws])

lemma owner_update_succeeds_witness:
  "\<exists>r' cost. update_repo demo_sgit (\<lambda>_. []) demo_owner demo_second [(''a'', [98])] [(''c'', [99])] Char_Variant = (r', Inr cost) \<and>
     pull_repo demo_sgit demo_owner r' (sg_vk demo_sgit (sm_sk demo_owner)) Char_Variant = Inr [(''c'', [99])]"
  by (rule owner_update_succeeds [OF demo_runs_sgit(1) demo_laws]) (simp add: plain_ok_def text_ok_def scalar_def)

lemma demo_second_file:
  "\<exists>block. map_of (ct_files demo_second) ''a'' = Some \<lparr>ct_base = sg_b64 demo_sgit (enc demo_sgit (key_for demo_sgit demo_owner ''repo'') [0] (as_bytes [97])),
     ct_deltas = [block], ct_lines = []\<rparr> \<and> ct_rid demo_second = ''repo''"
  by (simp add: demo_second_def demo_version_def update_repo_def init_repo_def Let_def fresh_file_def changed_file_def drop_deleted_def)

lemma host_rolls_file_back_witness:
  "\<exists>f. map_of (ct_files demo_second) ''a'' = Some f \<and>
     pull_repo demo_sgit demo_owner (demo_second\<lparr>ct_files := bt_insert ''a'' (hide_deltas 0 f) (ct_files demo_second)\<rparr>)
       (sg_vk demo_sgit (sm_sk demo_owner)) Char_Variant = Inr [(''a'', [97])]"
proof -
  obtain f block where f: "map_of (ct_files demo_second) ''a'' = Some f"
    "f = \<lparr>ct_base = sg_b64 demo_sgit (enc demo_sgit (key_for demo_sgit demo_owner ''repo'') [0] (as_bytes [97])), ct_deltas = [block], ct_lines = []\<rparr>"
    and rid: "ct_rid demo_second = ''repo''" using demo_second_file by auto
  have "decrypt_text demo_sgit (key_for demo_sgit demo_owner ''repo'') (ct_base f) = Inr [97]"
    unfolding f(2) ct_file.select_convs by (rule decrypt_text_enc [OF demo_laws]) (simp add: scalar_def)
  with host_rolls_file_back [OF demo_runs_sgit(1) demo_laws f(1), of 0] f(1) rid show ?thesis
    by (simp add: reveal_def)
qed

lemma host_adds_file_witness:
  "\<exists>s r. pull_repo demo_sgit demo_owner r (sg_vk demo_sgit (sm_sk demo_owner)) Line_Variant = Inr [(''a'', [97]), (''b'', [98]), (s, [])]"
proof -
  have "length (ct_files (demo_version Line_Variant [(''a'', [97]), (''b'', [98])])) = 2"
    by (simp add: demo_version_def init_repo_def Let_def fresh_file_def split_lines_def newline_def)
  with host_adds_file [OF demo_runs_sgit(2) demo_laws] show ?thesis by fastforce
qed

lemma share_reveals_plaintext_witness:
  "\<exists>wrap ct k. map_of (acs_read (ct_acs (share_repo demo_sgit [] demo_owner demo_second ''bob'' False))) ''bob'' = Some wrap \<and>
     sg_unb64 demo_sgit wrap = Some ct \<and> dec demo_sgit (kdf demo_sgit (str_bytes ''bob'') ''share'') ct = Inr k \<and>
     reveal_all demo_sgit k Char_Variant (ct_files (share_repo demo_sgit [] demo_owner demo_second ''bob'' False)) = Inr [(''a'', [98])]"
  by (rule share_reveals_plaintext [OF demo_runs_sgit(1) demo_laws])

lemma dag_root_collision_witness:
  "\<exists>a b c d. (a, b) \<noteq> (c, d) \<and> sg_node (demo_sgit\<lparr>sg_sha256 := \<lambda>_. []\<rparr>) a b = sg_node (demo_sgit\<lparr>sg_sha256 := \<lambda>_. []\<rparr>) c d"
proof (rule dag_root_collision [of "[[1], [2]]" "[[1], [3]]"])
  show "dag_root (demo_sgit\<lparr>sg_sha256 := \<lambda>_. []\<rparr>) [[1], [2]] = dag_root (demo_sgit\<lparr>sg_sha256 := \<lambda>_. []\<rparr>) [[1], [3]]"
    by (simp add: dag_root_def sg_root_loop_up sg_root_loop_single sg_node_def sha256_def)
qed simp_all

end
