(* ===== verification/Inbox.thy ===== *)
theory Inbox
  imports Membership Texts "HOL-Library.Countable"
begin

text \<open>
  Issues and pull requests without a trusted host: \<^verbatim>\<open>CollabMessage\<close> of \<^verbatim>\<open>safehub-types/src/messages.rs\<close>
  and the inbox of \<^verbatim>\<open>safehub-cli/src/cmds/common.rs\<close>.  Messages are sealed under the epoch MAC key,
  queued at the host, opened once by every device, kept in a directory of JSON files and folded into
  the current issues and pull requests.
\<close>

section \<open>Messages\<close>

datatype collab_message =
  PullRequest string string string string string string
| Issue string string string string
| Review string string string
| CiVerdict string string string "string option"
| Release string string string "string list" "string list"
| Label string "string option" "string option" string
| Milestone string "string option" string
| Secret string bytes "string option" string
| Variable string bytes string
| Gist string "string option" "(string \<times> string) list" string
| Project string string "(string \<times> string list) list" string
| CodespaceConfig string string string
| WorkflowRun string string string "string option"
| OrgDirectory string "string list" "(string \<times> string list) list"
| Comment string string string

section \<open>Folding\<close>

record folded_issue =
  fi_id :: string
  fi_title :: string
  fi_body :: string
  fi_state :: string
  fi_comments :: "string list"

record folded_pr =
  fp_id :: string
  fp_title :: string
  fp_body :: string
  fp_state :: string
  fp_head :: string
  fp_base :: string
  fp_comments :: "string list"
  fp_reviews :: "(string \<times> string) list"

type_synonym folded = "(string \<times> folded_issue) list \<times> (string \<times> folded_pr) list"

definition upsert_issue :: "string \<Rightarrow> string \<Rightarrow> string \<Rightarrow> string \<Rightarrow> (string \<times> folded_issue) list \<Rightarrow> (string \<times> folded_issue) list" where
  "upsert_issue ident ti bo st issues =
     (let e0 = (case map_of issues ident of
                  Some e \<Rightarrow> e
                | None \<Rightarrow> \<lparr>fi_id = ident, fi_title = ti, fi_body = bo, fi_state = st, fi_comments = []\<rparr>);
          e1 = (if ti \<noteq> [] then e0\<lparr>fi_title := ti\<rparr> else e0);
          e2 = (if bo \<noteq> [] then e1\<lparr>fi_body := bo\<rparr> else e1);
          e3 = (if st \<noteq> [] then e2\<lparr>fi_state := st\<rparr> else e2)
      in bt_insert ident e3 issues)"

definition upsert_pr ::
    "string \<Rightarrow> string \<Rightarrow> string \<Rightarrow> string \<Rightarrow> string \<Rightarrow> string \<Rightarrow> (string \<times> folded_pr) list \<Rightarrow> (string \<times> folded_pr) list" where
  "upsert_pr ident he ba ti bo st prs =
     (let e0 = (case map_of prs ident of
                  Some e \<Rightarrow> e
                | None \<Rightarrow> \<lparr>fp_id = ident, fp_title = ti, fp_body = bo, fp_state = st, fp_head = he, fp_base = ba,
                           fp_comments = [], fp_reviews = []\<rparr>);
          e1 = (if ti \<noteq> [] then e0\<lparr>fp_title := ti\<rparr> else e0);
          e2 = (if bo \<noteq> [] then e1\<lparr>fp_body := bo\<rparr> else e1);
          e3 = (if st \<noteq> [] then e2\<lparr>fp_state := st\<rparr> else e2);
          e4 = (if he \<noteq> [] then e3\<lparr>fp_head := he\<rparr> else e3);
          e5 = (if ba \<noteq> [] then e4\<lparr>fp_base := ba\<rparr> else e4)
      in bt_insert ident e5 prs)"

fun fold_message :: "collab_message \<Rightarrow> folded \<Rightarrow> folded" where
  "fold_message (Issue ident ti bo st) (issues, prs) = (upsert_issue ident ti bo st issues, prs)"
| "fold_message (PullRequest ident he ba ti bo st) (issues, prs) = (issues, upsert_pr ident he ba ti bo st prs)"
| "fold_message (Comment kind ident bo) (issues, prs) =
     (if kind = ''issue''
      then ((case map_of issues ident of
               Some i \<Rightarrow> bt_insert ident (i\<lparr>fi_comments := fi_comments i @ [bo]\<rparr>) issues | None \<Rightarrow> issues), prs)
      else if kind = ''pr''
      then (issues, (case map_of prs ident of
               Some p \<Rightarrow> bt_insert ident (p\<lparr>fp_comments := fp_comments p @ [bo]\<rparr>) prs | None \<Rightarrow> prs))
      else (issues, prs))"
| "fold_message (Review ident verdict bo) (issues, prs) =
     (issues, (case map_of prs ident of
        Some p \<Rightarrow> bt_insert ident (p\<lparr>fp_reviews := fp_reviews p @ [(verdict, bo)]\<rparr>) prs | None \<Rightarrow> prs))"
| "fold_message _ v = v"

definition fold_messages :: "(u64 \<times> collab_message) list \<Rightarrow> folded" where
  "fold_messages msgs = fold (fold_message \<circ> snd) msgs ([], [])"

definition fold_collab_inbox :: "(u64 \<times> collab_message) list \<Rightarrow> folded_issue list \<times> folded_pr list" where
  "fold_collab_inbox msgs = (let (issues, prs) = fold_messages msgs in (map snd issues, map snd prs))"

section \<open>Numbers\<close>

definition collab_number :: "string \<Rightarrow> u64" where
  "collab_number ident =
     (case parse_u64 (dropWhile (\<lambda>c. \<not> is_digit c) ident) of
        Some n \<Rightarrow> n
      | None \<Rightarrow> (case parse_u64 ident of Some n \<Rightarrow> n | None \<Rightarrow> 0))"

definition next_collab_number :: "string list \<Rightarrow> u64" where
  "next_collab_number ids = fold (\<lambda>ident m. max m (collab_number ident)) ids 0 + 1"

section \<open>The inbox directory\<close>

record inbox_json =
  ij_print :: "collab_message \<Rightarrow> bytes"
  ij_pretty :: "collab_message \<Rightarrow> bytes"
  ij_parse :: "bytes \<Rightarrow> collab_message option"
  ij_print_after :: "u64 \<Rightarrow> bytes"
  ij_parse_after :: "bytes \<Rightarrow> u64 option"

text \<open>What serde documents: what was printed is read back.\<close>

definition json_reads_back :: "inbox_json \<Rightarrow> bool" where
  "json_reads_back J \<longleftrightarrow> (\<forall>m. ij_parse J (ij_print J m) = Some m \<and> ij_parse J (ij_pretty J m) = Some m) \<and>
     (\<forall>n. ij_parse_after J (ij_print_after J n) = Some n)"

record inbox =
  ib_cursor :: "bytes option"
  ib_files :: "(string \<times> bytes) list"

definition load_mls_cursor :: "inbox_json \<Rightarrow> inbox \<Rightarrow> u64" where
  "load_mls_cursor J ib =
     (case ib_cursor ib of None \<Rightarrow> 0 | Some b \<Rightarrow> (case ij_parse_after J b of None \<Rightarrow> 0 | Some n \<Rightarrow> n))"

definition save_mls_cursor :: "inbox_json \<Rightarrow> u64 \<Rightarrow> inbox \<Rightarrow> inbox" where
  "save_mls_cursor J after ib = ib\<lparr>ib_cursor := Some (ij_print_after J after)\<rparr>"

text \<open>\<^verbatim>\<open>{:016}.json\<close>.\<close>

definition message_file :: "u64 \<Rightarrow> string" where
  "message_file n = replicate (16 - length (word_string n)) (CHR ''0'') @ word_string n @ ''.json''"

function trim_suffix :: "'a list \<Rightarrow> 'a list \<Rightarrow> 'a list" where
  "trim_suffix suf s =
     (if suf \<noteq> [] \<and> length suf \<le> length s \<and> drop (length s - length suf) s = suf
      then trim_suffix suf (take (length s - length suf) s) else s)"
  by pat_completeness auto
termination by (relation "measure (\<lambda>(suf, s). length s)") (auto simp: neq_Nil_conv)

declare trim_suffix.simps [simp del]

definition ends_with :: "'a list \<Rightarrow> 'a list \<Rightarrow> bool" where
  "ends_with suf s \<longleftrightarrow> length suf \<le> length s \<and> drop (length s - length suf) s = suf"

text \<open>One page of envelopes: the highest number seen, the directory, and what was opened.\<close>

fun take_envelopes ::
    "prims \<Rightarrow> inbox_json \<Rightarrow> epoch_material \<Rightarrow> mls_envelope list \<Rightarrow> u64 \<Rightarrow> (string \<times> bytes) list \<Rightarrow> (u64 \<times> collab_message) list \<Rightarrow>
     u64 \<times> (string \<times> bytes) list \<times> (u64 \<times> collab_message) list" where
  "take_envelopes P J m [] hi files out = (hi, files, out)"
| "take_envelopes P J m (env # envs) hi files out =
     (let hi' = max hi (env_seq env)
      in case open_collab P m (env_payload env) of
           Inl _ \<Rightarrow> take_envelopes P J m envs hi' files out
         | Inr pt \<Rightarrow>
             (case ij_parse J pt of
                None \<Rightarrow> take_envelopes P J m envs hi' files out
              | Some msg \<Rightarrow>
                  take_envelopes P J m envs hi' (dir_write (message_file (env_seq env)) (ij_pretty J msg) files)
                    (out @ [(env_seq env, msg)])))"

definition sync_inbox ::
    "prims \<Rightarrow> inbox_json \<Rightarrow> (u64 \<Rightarrow> client_error + mls_envelope list) \<Rightarrow> epoch_material \<Rightarrow> inbox \<Rightarrow>
     inbox \<times> (client_error + (u64 \<times> collab_message) list)" where
  "sync_inbox P J page m ib =
     (let after = load_mls_cursor J ib
      in case page after of
           Inl e \<Rightarrow> (ib, Inl e)
         | Inr envs \<Rightarrow>
             (let (hi, files, out) = take_envelopes P J m envs after (ib_files ib) [];
                  ib' = ib\<lparr>ib_files := files\<rparr>
              in (if hi > after then save_mls_cursor J hi ib' else ib', Inr out)))"

definition read_message :: "inbox_json \<Rightarrow> string \<times> bytes \<Rightarrow> client_error + (u64 \<times> collab_message)" where
  "read_message J entry =
     (case entry of (name, b) \<Rightarrow>
        rbind (ok_or (bail ''json'') (ij_parse J b)) (\<lambda>msg.
          Inr (case parse_u64 (trim_suffix ''.json'' name) of Some n \<Rightarrow> n | None \<Rightarrow> 0, msg)))"

fun read_all :: "('a \<Rightarrow> 'e + 'b) \<Rightarrow> 'a list \<Rightarrow> 'e + 'b list" where
  "read_all f [] = Inr []"
| "read_all f (x # xs) = rbind (f x) (\<lambda>y. rbind (read_all f xs) (\<lambda>ys. Inr (y # ys)))"

definition read_inbox_cache :: "inbox_json \<Rightarrow> inbox \<Rightarrow> client_error + (u64 \<times> collab_message) list" where
  "read_inbox_cache J ib =
     rbind (read_all (read_message J) (filter (\<lambda>(name, _). ends_with ''.json'' name) (ib_files ib)))
       (\<lambda>entries. Inr (sort_key fst entries))"

definition enqueue_collab ::
    "prims \<Rightarrow> inbox_json \<Rightarrow> 'h mls_client \<Rightarrow> bytes \<Rightarrow> epoch_material \<Rightarrow> collab_message \<Rightarrow> string \<Rightarrow> 'h \<Rightarrow> 'h \<times> (client_error + u64)" where
  "enqueue_collab P J C nonce m msg hint s =
     (case seal_collab P nonce m (ij_print J msg) of
        Inl e \<Rightarrow> (s, Inl e)
      | Inr sealed \<Rightarrow> mc_enqueue C sealed (Some hint) s)"

section \<open>What the fold computes\<close>

text \<open>The last text that is not empty.\<close>

definition latest :: "string list \<Rightarrow> string" where
  "latest xs = foldl (\<lambda>old new. if new \<noteq> [] then new else old) [] xs"

lemma latest_simps [simp]:
  "latest [] = []" "latest [x] = x" "latest (xs @ [x]) = (if x \<noteq> [] then x else latest xs)"
  by (simp_all add: latest_def)

text \<open>The messages about one issue, and the bodies of the comments on it that follow its opening.\<close>

fun issue_update :: "string \<Rightarrow> collab_message \<Rightarrow> (string \<times> string \<times> string) list" where
  "issue_update i (Issue ident ti bo st) = (if ident = i then [(ti, bo, st)] else [])"
| "issue_update i _ = []"

fun comment_on :: "string \<Rightarrow> string \<Rightarrow> collab_message \<Rightarrow> string list" where
  "comment_on kind i (Comment k ident bo) = (if k = kind \<and> ident = i then [bo] else [])"
| "comment_on kind i _ = []"

fun pr_update :: "string \<Rightarrow> collab_message \<Rightarrow> (string \<times> string \<times> string \<times> string \<times> string) list" where
  "pr_update i (PullRequest ident he ba ti bo st) = (if ident = i then [(he, ba, ti, bo, st)] else [])"
| "pr_update i _ = []"

fun review_of :: "string \<Rightarrow> collab_message \<Rightarrow> (string \<times> string) list" where
  "review_of i (Review ident v bo) = (if ident = i then [(v, bo)] else [])"
| "review_of i _ = []"

definition issue_now :: "string \<Rightarrow> collab_message list \<Rightarrow> folded_issue option" where
  "issue_now i ms =
     (let us = concat (map (issue_update i) ms);
          later = dropWhile (\<lambda>m. issue_update i m = []) ms
      in if us = [] then None
         else Some \<lparr>fi_id = i, fi_title = latest (map fst us), fi_body = latest (map (fst \<circ> snd) us),
                    fi_state = latest (map (snd \<circ> snd) us), fi_comments = concat (map (comment_on ''issue'' i) later)\<rparr>)"

definition pr_now :: "string \<Rightarrow> collab_message list \<Rightarrow> folded_pr option" where
  "pr_now i ms =
     (let us = concat (map (pr_update i) ms);
          later = dropWhile (\<lambda>m. pr_update i m = []) ms
      in if us = [] then None
         else Some \<lparr>fp_id = i, fp_title = latest (map (\<lambda>(_, _, ti, _, _). ti) us), fp_body = latest (map (\<lambda>(_, _, _, bo, _). bo) us),
                    fp_state = latest (map (\<lambda>(_, _, _, _, st). st) us), fp_head = latest (map (\<lambda>(he, _, _, _, _). he) us),
                    fp_base = latest (map (\<lambda>(_, ba, _, _, _). ba) us),
                    fp_comments = concat (map (comment_on ''pr'' i) later), fp_reviews = concat (map (review_of i) later)\<rparr>)"

lemma opened_iff:
  "concat (map f ms) = [] \<longleftrightarrow> (\<forall>m \<in> set ms. f m = [])"
  by simp

lemma later_snoc:
  "dropWhile (\<lambda>m. f m = []) (ms @ [m]) =
     (if concat (map f ms) = [] then (if f m = [] then [] else [m]) else dropWhile (\<lambda>m. f m = []) ms @ [m])"
  by (induction ms) auto

lemma fold_messages_snoc: "fold_messages (msgs @ [e]) = fold_message (snd e) (fold_messages msgs)"
  by (simp add: fold_messages_def)

lemma bt_wf_fold_message:
  assumes "bt_wf (fst v)" and "bt_wf (snd v)"
  shows "bt_wf (fst (fold_message m v)) \<and> bt_wf (snd (fold_message m v))"
  using assms by (cases "(m, v)" rule: fold_message.cases)
    (auto simp: upsert_issue_def upsert_pr_def Let_def split: option.splits)

lemma bt_wf_fold_messages: "bt_wf (fst (fold_messages msgs)) \<and> bt_wf (snd (fold_messages msgs))"
proof (induction msgs rule: rev_induct)
  case (snoc e msgs)
  then show ?case unfolding fold_messages_snoc by (intro bt_wf_fold_message) auto
qed (simp add: fold_messages_def)

lemma issues_exact: "map_of (fst (fold_messages msgs)) i = issue_now i (map snd msgs)"
proof (induction msgs rule: rev_induct)
  case (snoc e msgs)
  obtain issues prs where v: "fold_messages msgs = (issues, prs)" by fastforce
  then have wf: "bt_wf issues" and IH: "map_of issues i = issue_now i (map snd msgs)"
    using snoc bt_wf_fold_messages [of msgs] by auto
  let ?us = "concat (map (issue_update i) (map snd msgs))"
  have snoc_now: "map_of (fst (fold_message (snd e) (issues, prs))) i = issue_now i (map snd msgs @ [snd e])"
    using IH wf
    by (cases "snd e"; cases "?us = []")
      (auto simp: issue_now_def later_snoc upsert_issue_def Let_def simp del: concat_eq_Nil_conv split: option.splits)
  then show ?case by (simp add: fold_messages_snoc v)
qed (simp add: fold_messages_def issue_now_def)

lemma prs_exact: "map_of (snd (fold_messages msgs)) i = pr_now i (map snd msgs)"
proof (induction msgs rule: rev_induct)
  case (snoc e msgs)
  obtain issues prs where v: "fold_messages msgs = (issues, prs)" by fastforce
  then have wf: "bt_wf prs" and IH: "map_of prs i = pr_now i (map snd msgs)"
    using snoc bt_wf_fold_messages [of msgs] by auto
  let ?us = "concat (map (pr_update i) (map snd msgs))"
  have "map_of (snd (fold_message (snd e) (issues, prs))) i = pr_now i (map snd msgs @ [snd e])"
  proof (cases "snd e")
    case (PullRequest ident he ba ti bo st)
    then show ?thesis using IH wf
      by (cases "?us = []"; cases "ident = i")
        (simp_all add: pr_now_def later_snoc upsert_pr_def Let_def del: concat_eq_Nil_conv)
  qed (use IH wf in \<open>cases "?us = []"; auto simp: pr_now_def later_snoc Let_def simp del: concat_eq_Nil_conv
    split: option.splits\<close>)+
  then show ?case by (simp add: fold_messages_snoc v)
qed (simp add: fold_messages_def pr_now_def)

lemma find_key: "\<forall>(k, v) \<in> set m. f v = k \<Longrightarrow> find (\<lambda>v. f v = x) (map snd m) = map_of m x"
  by (induction m) auto

lemma map_key: "\<forall>(k, v) \<in> set m. f v = k \<Longrightarrow> map f (map snd m) = map fst m"
  by (induction m) auto

lemma fold_keys:
  "\<forall>(k, v) \<in> set (fst (fold_messages msgs)). fi_id v = k" "\<forall>(k, v) \<in> set (snd (fold_messages msgs)). fp_id v = k"
proof -
  have "fi_id v = k" if "(k, v) \<in> set (fst (fold_messages msgs))" for k v
    using that bt_wf_fold_messages [of msgs] issues_exact [of msgs k] bt_wf_Some_iff [of "fst (fold_messages msgs)" k v]
    by (auto simp: issue_now_def Let_def split: if_splits)
  then show "\<forall>(k, v) \<in> set (fst (fold_messages msgs)). fi_id v = k" by blast
  have "fp_id v = k" if "(k, v) \<in> set (snd (fold_messages msgs))" for k v
    using that bt_wf_fold_messages [of msgs] prs_exact [of msgs k] bt_wf_Some_iff [of "snd (fold_messages msgs)" k v]
    by (auto simp: pr_now_def Let_def split: if_splits)
  then show "\<forall>(k, v) \<in> set (snd (fold_messages msgs)). fp_id v = k" by blast
qed

lemma find_folded_issue: "find (\<lambda>e. fi_id e = i) (fst (fold_collab_inbox msgs)) = issue_now i (map snd msgs)"
  and find_folded_pr: "find (\<lambda>e. fp_id e = i) (snd (fold_collab_inbox msgs)) = pr_now i (map snd msgs)"
  using fold_keys [of msgs]
  by (simp_all add: fold_collab_inbox_def case_prod_beta Let_def find_key issues_exact prs_exact)

text \<open>
  C19.  Folding shows every issue and pull request once, in the order of their identifiers, each with the
  last texts that are not empty and with every comment and review that follows its opening, in order.
\<close>

theorem folded_inbox_exact:
  "let (issues, prs) = fold_collab_inbox msgs; ms = map snd msgs
   in sorted_wrt (<) (map fi_id issues) \<and> sorted_wrt (<) (map fp_id prs) \<and>
      find (\<lambda>e. fi_id e = i) issues = issue_now i ms \<and> find (\<lambda>e. fp_id e = i) prs = pr_now i ms"
  using bt_wf_fold_messages [of msgs] fold_keys [of msgs]
    find_folded_issue [of i msgs] find_folded_pr [of i msgs]
  by (simp add: fold_collab_inbox_def case_prod_beta Let_def map_key bt_wf_def del: map_map)

section \<open>Fresh numbers\<close>

lemma collab_number_word_string [simp]: "collab_number (word_string n) = n"
proof -
  have "dropWhile (\<lambda>c. \<not> is_digit c) (word_string n) = word_string n"
    using dec_string_digits [of "unat n"] by (cases "word_string n") auto
  then show ?thesis by (simp add: collab_number_def)
qed

lemma fold_max_ge:
  fixes f :: "'a \<Rightarrow> u64"
  shows "a \<le> fold (\<lambda>x m. max m (f x)) xs a \<and> (\<forall>x \<in> set xs. f x \<le> fold (\<lambda>x m. max m (f x)) xs a)"
proof (induction xs arbitrary: a)
  case (Cons x xs)
  show ?case using Cons.IH [of "max a (f x)"] by auto
qed simp

lemma fold_max_hit:
  fixes f :: "'a \<Rightarrow> u64"
  shows "fold (\<lambda>x m. max m (f x)) xs a = a \<or> (\<exists>x \<in> set xs. f x = fold (\<lambda>x m. max m (f x)) xs a)"
proof (induction xs arbitrary: a)
  case (Cons x xs)
  have "max a (f x) = a \<or> max a (f x) = f x" by (simp add: max_def)
  with Cons.IH [of "max a (f x)"] show ?case by auto
qed simp

lemma next_number_cases:
  "(if next_collab_number ids = 0 then \<exists>i \<in> set ids. collab_number i = - 1
    else word_string (next_collab_number ids) \<notin> set ids)"
proof -
  let ?m = "fold (\<lambda>i m. max m (collab_number i)) ids 0"
  have le: "collab_number i \<le> ?m" if "i \<in> set ids" for i
    using fold_max_ge [of 0 collab_number ids] that by blast
  show ?thesis
  proof (cases "next_collab_number ids = 0")
    case True
    then have "?m = - 1" by (simp add: next_collab_number_def eq_neg_iff_add_eq_0)
    then have "\<exists>i \<in> set ids. collab_number i = - 1" using fold_max_hit [of collab_number ids 0] by auto
    with True show ?thesis by simp
  next
    case False
    then have "unat (1 + ?m) = Suc (unat ?m)" by (intro unatSuc) (simp add: next_collab_number_def add.commute)
    then have "?m < ?m + 1" by (simp add: word_less_nat_alt add.commute)
    then have "word_string (next_collab_number ids) \<notin> set ids"
      using le [of "word_string (next_collab_number ids)"] by (auto simp: next_collab_number_def)
    with False show ?thesis by simp
  qed
qed

text \<open>
  The number of a new issue or pull request is not the identifier of any other, unless the numbers
  wrap; they wrap exactly when some identifier reads as \<open>2^64 - 1\<close>, and then the new number is 0.
\<close>

theorem new_number_fresh:
  "(if next_collab_number ids = 0 then \<exists>i \<in> set ids. collab_number i = - 1
    else word_string (next_collab_number ids) \<notin> set ids)"
  by (rule next_number_cases)

section \<open>File names\<close>

lemma undec_zeros: "undec (replicate k (CHR ''0'') @ s) = undec s"
proof -
  have "foldl (\<lambda>a c. 10 * a + (of_char c - 48)) 0 (replicate k CHR ''0'') = (0 :: nat)"
    by (induction k) simp_all
  then show ?thesis by (simp add: undec_def)
qed

lemma parse_padded [simp]: "parse_u64 (replicate k (CHR ''0'') @ word_string n) = Some n"
proof -
  let ?s = "replicate k (CHR ''0'') @ word_string n"
  have digits: "list_all is_digit ?s" and "?s \<noteq> []"
    using dec_string_digits [of "unat n"] by (auto simp: list_all_iff is_digit_def)
  moreover have "\<not> is_digit CHR ''+''" by (simp add: is_digit_def)
  ultimately have "(case ?s of [] \<Rightarrow> [] | c # r \<Rightarrow> if c = CHR ''+'' then r else ?s) = ?s"
    by (cases ?s) auto
  then show ?thesis
    using digits unat_u64_bound [of n] by (simp add: parse_u64_def undec_zeros undec_dec_string not_le)
qed

lemma trim_suffix_once:
  assumes "suf \<noteq> []" and "\<not> ends_with suf s"
  shows "trim_suffix suf (s @ suf) = s"
proof -
  have "\<not> (suf \<noteq> [] \<and> length suf \<le> length s \<and> drop (length s - length suf) s = suf)"
    using assms(2) unfolding ends_with_def by blast
  then have "trim_suffix suf s = s" by (subst trim_suffix.simps) (rule if_not_P)
  then show ?thesis using assms(1) by (subst trim_suffix.simps) simp
qed

lemma message_file_number [simp]: "parse_u64 (trim_suffix ''.json'' (message_file n)) = Some n"
proof -
  let ?d = "replicate (16 - length (word_string n)) (CHR ''0'') @ word_string n"
  have "\<not> ends_with ''.json'' ?d"
  proof
    assume "ends_with ''.json'' ?d"
    then have "CHR ''j'' \<in> set ?d"
      unfolding ends_with_def by (metis in_set_dropD list.set_intros(1) list.set_intros(2))
    then show False using set_dec_string [of "CHR ''j''" "unat n"] by auto
  qed
  then have "trim_suffix ''.json'' (message_file n) = ?d"
    using trim_suffix_once [of "''.json''" ?d] by (simp add: message_file_def)
  then show ?thesis by simp
qed

lemma message_file_inject [simp]: "message_file a = message_file b \<longleftrightarrow> a = b"
  by (metis message_file_number option.inject)

lemma message_file_ends [simp]: "ends_with ''.json'' (message_file n)"
  by (simp add: message_file_def ends_with_def)

section \<open>Synchronising\<close>

text \<open>What a device that holds \<open>m\<close> reads in an envelope.\<close>

definition opened :: "prims \<Rightarrow> inbox_json \<Rightarrow> epoch_material \<times> mls_envelope \<Rightarrow> (u64 \<times> collab_message) option" where
  "opened P J p =
     (case open_collab P (fst p) (env_payload (snd p)) of
        Inl _ \<Rightarrow> None | Inr pt \<Rightarrow> map_option (Pair (env_seq (snd p))) (ij_parse J pt))"

definition message_entry :: "inbox_json \<Rightarrow> u64 \<times> collab_message \<Rightarrow> string \<times> bytes" where
  "message_entry J x = (message_file (fst x), ij_pretty J (snd x))"

lemma opened_seq: "opened P J (m, e) = Some x \<Longrightarrow> fst x = env_seq e"
  by (auto simp: opened_def split: sum.splits)

lemma opened_nth: "x \<in> set (List.map_filter (opened P J) ps) \<Longrightarrow> \<exists>p \<in> set ps. opened P J p = Some x \<and> fst x = env_seq (snd p)"
  by (induction ps) (auto simp: map_filter_simps dest: opened_seq split: option.splits)

lemma take_envelopes_step:
  "take_envelopes P J m (e # envs) hi files out =
     (case opened P J (m, e) of
        None \<Rightarrow> take_envelopes P J m envs (max hi (env_seq e)) files out
      | Some x \<Rightarrow> take_envelopes P J m envs (max hi (env_seq e))
          (dir_write (message_file (env_seq e)) (ij_pretty J (snd x)) files) (out @ [x]))"
  by (simp add: opened_def Let_def split: sum.splits option.splits)

declare take_envelopes.simps(2) [simp del]

lemma take_envelopes_exact:
  assumes "sorted_wrt (<) (map env_seq envs)" and "\<forall>e \<in> set envs. \<forall>x \<in> set xs. fst x < env_seq e"
    and "\<forall>e \<in> set envs. hi < env_seq e"
  shows "take_envelopes P J m envs hi (map (message_entry J) xs) out =
    (if envs = [] then hi else env_seq (last envs),
     map (message_entry J) (xs @ List.map_filter (opened P J) (map (Pair m) envs)),
     out @ List.map_filter (opened P J) (map (Pair m) envs))"
  using assms
proof (induction envs arbitrary: hi xs out)
  case (Cons e envs)
  have top: "max hi (env_seq e) = env_seq e" using Cons.prems(3) by (simp add: max_absorb2 less_imp_le)
  have fresh: "message_file (env_seq e) \<notin> fst ` set (map (message_entry J) xs)"
    using Cons.prems(2) by (auto simp: message_entry_def)
  have IH: "take_envelopes P J m envs (env_seq e) (map (message_entry J) ys) zs =
      (if envs = [] then env_seq e else env_seq (last envs),
       map (message_entry J) (ys @ List.map_filter (opened P J) (map (Pair m) envs)),
       zs @ List.map_filter (opened P J) (map (Pair m) envs))"
    if "ys = xs \<or> (\<exists>msg. ys = xs @ [(env_seq e, msg)])" for ys zs
  proof (intro Cons.IH)
    have "fst x \<le> env_seq e" if "x \<in> set ys" for x
      using that \<open>ys = xs \<or> _\<close> Cons.prems(2) by (auto intro: less_imp_le)
    moreover have "\<forall>e' \<in> set envs. env_seq e < env_seq e'" using Cons.prems(1) by simp
    ultimately show "\<forall>e' \<in> set envs. \<forall>x \<in> set ys. fst x < env_seq e'" by (meson le_less_trans)
  qed (use Cons.prems in simp_all)
  show ?case
  proof (cases "opened P J (m, e)")
    case None
    then show ?thesis using IH [of xs]
      by (simp add: take_envelopes_step top map_filter_simps)
  next
    case (Some x)
    then obtain msg where x: "x = (env_seq e, msg)" using opened_seq by (metis prod.collapse)
    have "dir_write (message_file (env_seq e)) (ij_pretty J msg) (map (message_entry J) xs) =
        map (message_entry J) (xs @ [x])"
      by (simp only: dir_write_fresh [OF fresh]) (simp add: x message_entry_def)
    then show ?thesis using IH [of "xs @ [x]"] Some
      by (simp add: take_envelopes_step top map_filter_simps x del: map_append)
  qed
qed (simp add: map_filter_simps)

lemma read_all_map: "\<forall>x \<in> set xs. f x = Inr (g x) \<Longrightarrow> read_all f xs = Inr (map g xs)"
  by (induction xs) auto

lemma read_cache_exact:
  assumes "json_reads_back J" and "ib_files ib = map (message_entry J) xs" and "sorted (map fst xs)"
  shows "read_inbox_cache J ib = Inr xs"
proof -
  have "filter (\<lambda>(name, _). ends_with ''.json'' name) (ib_files ib) = map (message_entry J) xs"
    by (auto simp: assms(2) message_entry_def filter_id_conv)
  moreover have "read_all (read_message J) (map (message_entry J) xs) = Inr (map fst (map (\<lambda>x. (x, ())) xs))"
    using assms(1) by (induction xs) (auto simp: read_message_def message_entry_def json_reads_back_def ok_or_def)
  ultimately show ?thesis using assms(3) by (simp add: read_inbox_cache_def comp_def sorted_sort_id sort_key_id_if_sorted)
qed

text \<open>
  A device and an honest host: whatever the members enqueue and whatever else they do, the queue of the
  repository only grows at its end; the device synchronises with the material it holds at the time.  The
  last argument lists, for every envelope passed, the material it was read with.
\<close>

inductive inbox_run ::
    "prims \<Rightarrow> inbox_json \<Rightarrow> hex_codec \<Rightarrow> token_record \<Rightarrow> repo_id \<Rightarrow> server_state \<Rightarrow> inbox \<Rightarrow> epoch_material list \<Rightarrow> bool"
  for P J X au repo where
  fresh: "http_queue X au repo sv \<Longrightarrow> inbox_run P J X au repo sv \<lparr>ib_cursor = None, ib_files = []\<rparr> []"
| others: "inbox_run P J X au repo sv ib mats \<Longrightarrow> http_queue X au repo sv' \<Longrightarrow>
    queue_of repo sv' = queue_of repo sv @ envs \<Longrightarrow> inbox_run P J X au repo sv' ib mats"
| sync: "inbox_run P J X au repo sv ib mats \<Longrightarrow>
    sync_inbox P J (\<lambda>a. http_mls_fetch X au repo a sv) m ib = (ib', r) \<Longrightarrow>
    inbox_run P J X au repo sv ib' (mats @ replicate (min 100 (length (queue_of repo sv) - length mats)) m)"

lemma http_mls_fetch_after:
  assumes "http_queue X au repo sv" and "a \<le> length (queue_of repo sv)"
  shows "http_mls_fetch X au repo (of_nat a) sv = Inr (take 100 (drop a (queue_of repo sv)))"
  using assms fetch_queue [of "sv_store sv" repo a 100]
  by (simp add: http_mls_fetch_def mls_fetch_def gate_cases http_queue_def queue_of_def)

lemma queue_seqs:
  assumes "http_queue X au repo sv" and "i < length (queue_of repo sv)"
  shows "env_seq (queue_of repo sv ! i) = of_nat i + 1" and "i + 1 < 2 ^ 64"
  using assms by (auto simp: http_queue_def queue_of_def queue_inv_def)

text \<open>Nothing is read twice and nothing is passed over, but what could not be read then is never read.\<close>

definition inbox_holds :: "prims \<Rightarrow> inbox_json \<Rightarrow> mls_envelope list \<Rightarrow> epoch_material list \<Rightarrow> inbox \<Rightarrow> bool" where
  "inbox_holds P J envs mats ib \<longleftrightarrow> length mats \<le> length envs \<and> load_mls_cursor J ib = of_nat (length mats) \<and>
     ib_files ib = map (message_entry J) (List.map_filter (opened P J) (zip mats envs))"

lemma read_prefix_seqs:
  assumes "http_queue X au repo sv" and "length mats \<le> length (queue_of repo sv)"
  shows "\<forall>x \<in> set (List.map_filter (opened P J) (zip mats (queue_of repo sv))). unat (fst x) \<le> length mats"
    and "sorted (map fst (List.map_filter (opened P J) (zip mats (queue_of repo sv))))"
proof -
  let ?q = "queue_of repo sv"
  have num: "unat (env_seq (?q ! i)) = i + 1" if "i < length ?q" for i
    using that assms(1) queue_num [of "mls (sv_store sv) repo" i] by (simp add: http_queue_def queue_of_def)
  show "\<forall>x \<in> set (List.map_filter (opened P J) (zip mats ?q)). unat (fst x) \<le> length mats"
  proof
    fix x assume "x \<in> set (List.map_filter (opened P J) (zip mats ?q))"
    then obtain p where "p \<in> set (zip mats ?q)" "fst x = env_seq (snd p)" using opened_nth by blast
    then show "unat (fst x) \<le> length mats" using num by (auto simp: set_zip)
  qed
  have inc: "sorted (map env_seq ?q)"
    using num by (auto simp: sorted_iff_nth_mono word_le_nat_alt)
  have "map fst (List.map_filter (opened P J) ps) = map (env_seq \<circ> snd) (filter (\<lambda>p. opened P J p \<noteq> None) ps)" for ps
    by (induction ps) (auto simp: map_filter_simps dest: opened_seq split: option.splits)
  moreover have "sorted (map (env_seq \<circ> snd) (zip mats ?q))"
    using sorted_wrt_take [OF inc, of "length mats"] assms(2)
    by (simp add: map_map [symmetric] map_snd_zip_take min_absorb1 take_map del: map_map)
  ultimately show "sorted (map fst (List.map_filter (opened P J) (zip mats ?q)))"
    by (simp add: sorted_filter)
qed

lemma sync_holds:
  assumes "http_queue X au repo sv" and "json_reads_back J"
    and "inbox_holds P J (queue_of repo sv) mats ib"
    and "sync_inbox P J (\<lambda>a. http_mls_fetch X au repo a sv) m ib = (ib', r)"
  shows "inbox_holds P J (queue_of repo sv) (mats @ replicate (min 100 (length (queue_of repo sv) - length mats)) m) ib'
    \<and> (\<exists>out. r = Inr out)"
proof -
  let ?q = "queue_of repo sv" and ?c = "length mats"
  define page where "page = take 100 (drop ?c ?q)"
  have q: "length ?q < 2 ^ 64" using assms(1) by (simp add: http_queue_def queue_of_def queue_inv_def)
  have c: "?c \<le> length ?q" "load_mls_cursor J ib = of_nat ?c"
    and files: "ib_files ib = map (message_entry J) (List.map_filter (opened P J) (zip mats ?q))"
    using assms(3) by (auto simp: inbox_holds_def)
  have num: "unat (env_seq (?q ! i)) = i + 1" if "i < length ?q" for i
    using that assms(1) queue_num [of "mls (sv_store sv) repo" i] by (simp add: http_queue_def queue_of_def)
  have cu: "unat (of_nat ?c :: u64) = ?c" using c(1) q by (simp add: unat_of_nat take_bit_nat_eq_self)
  have later: "\<forall>e \<in> set page. of_nat ?c < env_seq e"
  proof
    fix e assume "e \<in> set page"
    then obtain i where "i < length page" "e = page ! i" by (auto simp: in_set_conv_nth)
    then have "?c + i < length ?q" "e = ?q ! (?c + i)" by (auto simp: page_def)
    then show "of_nat ?c < env_seq e" using num by (simp add: word_less_nat_alt cu)
  qed
  have "sorted_wrt (<) (map env_seq page)"
    using num by (auto simp: page_def sorted_wrt_iff_nth_less word_less_nat_alt)
  moreover have "\<forall>e \<in> set page. \<forall>x \<in> set (List.map_filter (opened P J) (zip mats ?q)). fst x < env_seq e"
    using read_prefix_seqs(1) [OF assms(1) c(1)] later by (force simp: word_less_nat_alt cu)
  ultimately have taken: "take_envelopes P J m page (of_nat ?c) (ib_files ib) [] =
      (if page = [] then of_nat ?c else env_seq (last page),
       map (message_entry J) (List.map_filter (opened P J) (zip mats ?q) @ List.map_filter (opened P J) (map (Pair m) page)),
       List.map_filter (opened P J) (map (Pair m) page))"
    using take_envelopes_exact later files by simp
  have len: "length page = min 100 (length ?q - ?c)" by (simp add: page_def)
  have high: "(if page = [] then of_nat ?c else env_seq (last page)) = (of_nat (?c + length page) :: u64)"
  proof (cases "page = []")
    case False
    then have i: "?c + (length page - 1) < length ?q" and "last page = ?q ! (?c + (length page - 1))"
      by (auto simp: page_def last_conv_nth min_def)
    with num [OF i] False have "unat (env_seq (last page)) = ?c + length page" by (cases page) simp_all
    with False show ?thesis by (metis of_nat_unat ucast_id)
  qed simp
  have "zip (mats @ replicate (length page) m) ?q = zip mats ?q @ map (Pair m) page"
  proof -
    have "zip mats (take ?c ?q) = zip mats ?q" using take_zip [of ?c mats ?q] by simp
    moreover have "zip (replicate (length page) m) (drop ?c ?q) = map (Pair m) page"
      using take_take [of 100 "length (drop ?c ?q)" "drop ?c ?q"]
      by (simp add: zip_replicate1 len page_def min.commute)
    ultimately show ?thesis by (simp add: zip_append1)
  qed
  then have ext: "List.map_filter (opened P J) (zip (mats @ replicate (length page) m) ?q) =
      List.map_filter (opened P J) (zip mats ?q) @ List.map_filter (opened P J) (map (Pair m) page)"
    by (simp add: map_filter_def)
  have fit: "unat (of_nat (?c + length page) :: u64) = ?c + length page"
  proof -
    have "?c + length page < 2 ^ 64" using q c(1) len by linarith
    then show ?thesis by (simp only: unat_of_nat) (simp add: take_bit_nat_eq_self)
  qed
  have page: "http_mls_fetch X au repo (of_nat ?c) sv = Inr page"
    using http_mls_fetch_after [OF assms(1) c(1)] by (simp add: page_def)
  have "load_mls_cursor J ib' = of_nat (?c + length page) \<and> ib_files ib' =
      map (message_entry J) (List.map_filter (opened P J) (zip (mats @ replicate (length page) m) ?q)) \<and> (\<exists>out. r = Inr out)"
  proof (cases "page = []")
    case True
    then show ?thesis using assms(4) taken files c(2)
      by (auto simp: sync_inbox_def page Let_def load_mls_cursor_def)
  next
    case False
    then have "(of_nat (?c + length page) :: u64) > of_nat ?c"
      using fit cu by (simp only: word_less_nat_alt) simp
    then have "ib' = save_mls_cursor J (of_nat (?c + length page)) (ib\<lparr>ib_files :=
        map (message_entry J) (List.map_filter (opened P J) (zip (mats @ replicate (length page) m) ?q))\<rparr>) \<and> (\<exists>out. r = Inr out)"
      using assms(4) taken unfolding high by (auto simp: sync_inbox_def c(2) page ext)
    then show ?thesis using assms(2) by (auto simp: json_reads_back_def save_mls_cursor_def load_mls_cursor_def)
  qed
  moreover have "?c + length page \<le> length ?q" using c(1) len by linarith
  ultimately show ?thesis unfolding inbox_holds_def len [symmetric] by simp
qed

lemma inbox_run_holds:
  assumes "inbox_run P J X au repo sv ib mats" and "json_reads_back J"
  shows "http_queue X au repo sv \<and> inbox_holds P J (queue_of repo sv) mats ib"
  using assms(1)
proof induction
  case (fresh sv)
  then show ?case by (simp add: inbox_holds_def load_mls_cursor_def map_filter_simps)
next
  case (others sv ib mats sv' envs)
  then show ?case by (simp add: inbox_holds_def zip_append2)
next
  case (sync sv ib mats m ib' r)
  then show ?case using sync_holds [OF _ assms(2)] by blast
qed

lemma inbox_run_cache:
  assumes "inbox_run P J X au repo sv ib mats" and "json_reads_back J"
  shows "read_inbox_cache J ib = Inr (List.map_filter (opened P J) (zip mats (queue_of repo sv))) \<and>
    load_mls_cursor J ib = of_nat (length mats) \<and> length mats \<le> length (queue_of repo sv)"
proof -
  have q: "http_queue X au repo sv" and holds: "inbox_holds P J (queue_of repo sv) mats ib"
    using inbox_run_holds [OF assms] by auto
  then show ?thesis
    using read_cache_exact [OF assms(2)] read_prefix_seqs(2) [OF q, of mats P J] by (simp add: inbox_holds_def)
qed

text \<open>
  C20.  Over any run of synchronisations on an honest host, whatever the members enqueue in between, the
  cache holds each envelope that was readable with the material of the synchronisation that passed it,
  once and in the order of the queue, and nothing else.
\<close>

theorem inbox_is_queue_prefix:
  assumes "inbox_run P J X au repo sv ib mats" and "json_reads_back J"
  shows "read_inbox_cache J ib = Inr (List.map_filter (opened P J) (zip mats (queue_of repo sv))) \<and>
    load_mls_cursor J ib = of_nat (length mats) \<and> length mats \<le> length (queue_of repo sv)"
  by (rule inbox_run_cache [OF assms])

fun sync_times :: "prims \<Rightarrow> inbox_json \<Rightarrow> (u64 \<Rightarrow> client_error + mls_envelope list) \<Rightarrow> epoch_material \<Rightarrow> nat \<Rightarrow> inbox \<Rightarrow> inbox" where
  "sync_times P J page m 0 ib = ib"
| "sync_times P J page m (Suc n) ib = sync_times P J page m n (fst (sync_inbox P J page m ib))"

lemma sync_times_run:
  assumes "inbox_run P J X au repo sv ib mats" and "json_reads_back J"
  shows "inbox_run P J X au repo sv (sync_times P J (\<lambda>a. http_mls_fetch X au repo a sv) m n ib)
    (mats @ replicate (min (100 * n) (length (queue_of repo sv) - length mats)) m)"
  using assms(1)
proof (induction n arbitrary: ib mats)
  case (Suc n)
  let ?page = "\<lambda>a. http_mls_fetch X au repo a sv" and ?left = "length (queue_of repo sv) - length mats"
  obtain ib' r where s: "sync_inbox P J ?page m ib = (ib', r)" by fastforce
  have "min 100 ?left + min (100 * n) (length (queue_of repo sv) - (length mats + min 100 ?left)) = min (100 * Suc n) ?left"
    by auto
  with Suc.IH [OF inbox_run.sync [OF Suc.prems s]] show ?case
    by (simp add: s replicate_add [symmetric])
qed simp

text \<open>
  Synchronising catches up: a device that synchronises once for every hundred envelopes ends with the
  whole queue read, and with every envelope that its material opens.
\<close>

theorem inbox_catches_up:
  assumes "inbox_run P J X au repo sv ib []" and "json_reads_back J" and "length (queue_of repo sv) \<le> 100 * n"
  shows "read_inbox_cache J (sync_times P J (\<lambda>a. http_mls_fetch X au repo a sv) m n ib) =
    Inr (List.map_filter (opened P J) (map (Pair m) (queue_of repo sv)))"
proof -
  have "inbox_run P J X au repo sv (sync_times P J (\<lambda>a. http_mls_fetch X au repo a sv) m n ib)
      (replicate (length (queue_of repo sv)) m)"
    using sync_times_run [OF assms(1,2), of m n] assms(3) by (simp add: min_absorb2)
  from inbox_run_cache [OF this assms(2)] show ?thesis by (simp add: zip_replicate1)
qed

section \<open>What a device loses, and what a host can replay\<close>

lemma unread_stays_unread:
  assumes "inbox_run P J X au repo sv ib mats" and "json_reads_back J" and "k < length mats"
    and "opened P J (mats ! k, queue_of repo sv ! k) = None"
    and "read_inbox_cache J ib = Inr msgs"
  shows "of_nat k + 1 \<notin> fst ` set msgs"
proof
  let ?q = "queue_of repo sv"
  have cache: "msgs = List.map_filter (opened P J) (zip mats ?q)" and len: "length mats \<le> length ?q"
    using inbox_run_cache [OF assms(1,2)] assms(5) by auto
  have q: "http_queue X au repo sv" using inbox_run_holds [OF assms(1,2)] by blast
  assume "of_nat k + 1 \<in> fst ` set msgs"
  then obtain p where p: "p \<in> set (zip mats ?q)" "opened P J p \<noteq> None" "env_seq (snd p) = of_nat k + 1"
    using opened_nth unfolding cache by (smt (verit) image_iff option.distinct(1))
  then obtain i where i: "i < length mats" "p = (mats ! i, ?q ! i)" using len by (auto simp: set_zip)
  have "of_nat i + 1 = (of_nat k + 1 :: u64)" using p(3) queue_seqs(1) [OF q, of i] i len by simp
  moreover have "unat (of_nat j :: u64) = j" if "j < length ?q" for j
    using queue_seqs(2) [OF q that] by (simp add: unat_of_nat take_bit_nat_eq_self)
  ultimately have "i = k" using i(1) assms(3) len by (metis add_right_cancel order.strict_trans2)
  with p(2) i(2) assms(4) show False by simp
qed

lemma open_collab_sealed:
  assumes "seal_collab P nonce m pt = Inr sealed"
  shows "open_collab P m sealed = Inr pt"
  using assms
  by (auto simp: seal_collab_def open_collab_def aead_seal_def aead_open_Inr_iff intro!: exI [of _ "fix_len 12 nonce"])

text \<open>
  C11.  A rotation drops mail: a message that was sealed before it and is fetched after it is passed over for
  good, in every later state of the inbox, although the device still holds the key that opens it.
\<close>

theorem rotation_loses_mail:
  assumes "commits_advance M" and "store_law M repo" and "admin_inv M repo d" and "rd_epoch d = Some m1"
    and "rotate_repo_group M gd repo d = (d', Inr m2)"
    and "seal_collab P nonce m1 (ij_print J msg) = Inr sealed" and "open_collab P m2 sealed = Inl e"
    and "inbox_run P J X au repo sv ib (before @ m2 # later)" and "json_reads_back J"
    and "env_payload (queue_of repo sv ! length before) = sealed"
  shows "refs_mac_at m2 (em_epoch m1) = Some (em_refs_mac m1) \<and> open_collab P m1 sealed = Inr (ij_print J msg) \<and>
    (\<forall>msgs. read_inbox_cache J ib = Inr msgs \<longrightarrow> of_nat (length before) + 1 \<notin> fst ` set msgs)"
proof -
  obtain g0 where g0: "load_persisted_group M repo d = Inr g0" and inv: "mat_ok m1" "em_epoch m1 = om_epoch M g0"
    using assms(3,4) by (auto simp: admin_inv_def)
  from assms(5) g0 obtain g c keys where s: "rotate_group M (gd_commit gd) g0 = Inr (g, c)"
    "m2 = invited_material g M keys (ek_transport keys) d"
    by (auto simp: rotate_repo_group_def invited_material_def Let_def rbind_Inr_conv split: sum.splits)
  let ?new = "exported (om_epoch M g) (ek_transport keys) (ek_refs keys) 0 (ek_transport keys)"
  have "om_epoch M g = om_epoch M g0 + 1" by (rule rotate_group_epoch [OF assms(1) s(1)])
  then have lt: "em_epoch m1 < em_epoch ?new" using next_epoch [OF inv(1)] by (simp add: exported_def inv(2))
  have "m2 = inherit (Some m1) ?new" by (simp add: s(2) invited_exported [OF assms(4)])
  then have "refs_mac_at m2 (em_epoch m1) = Some (em_refs_mac m1)"
    using refs_mac_at_inherit [OF inv(1) lt, of "em_epoch m1"] lt by (auto simp: refs_mac_at_def)
  moreover have "opened P J ((before @ m2 # later) ! length before, queue_of repo sv ! length before) = None"
    using assms(7,10) by (simp add: opened_def)
  ultimately show ?thesis
    using unread_stays_unread [OF assms(8,9), of "length before"] open_collab_sealed [OF assms(6)] by simp
qed

text \<open>
  A host that keeps an old frame can take a decision back: delivered again under a new number, the frame
  is accepted like a new message, and the issue shows its old state.
\<close>

theorem replay_reverts_issue:
  assumes "json_reads_back J" and "opened P J (m, env) = Some (q, Issue i ti bo st)" and "st \<noteq> []"
    and "ib_files ib = map (message_entry J) xs" and "sorted (map fst xs)"
    and "\<forall>x \<in> set xs. fst x < n" and "load_mls_cursor J ib < n"
    and "sync_inbox P J (\<lambda>_. Inr [env\<lparr>env_seq := n\<rparr>]) m ib = (ib', r)"
  shows "\<exists>shown. read_inbox_cache J ib' = Inr (xs @ [(n, Issue i ti bo st)]) \<and> load_mls_cursor J ib' = n \<and>
    find (\<lambda>e. fi_id e = i) (fst (fold_collab_inbox (xs @ [(n, Issue i ti bo st)]))) = Some shown \<and> fi_state shown = st"
proof -
  let ?ys = "xs @ [(n, Issue i ti bo st)]"
  have op: "opened P J (m, env\<lparr>env_seq := n\<rparr>) = Some (n, Issue i ti bo st)"
    using assms(2) by (auto simp: opened_def split: sum.splits)
  have "take_envelopes P J m [env\<lparr>env_seq := n\<rparr>] (load_mls_cursor J ib) (map (message_entry J) xs) [] =
      (n, map (message_entry J) ?ys, [(n, Issue i ti bo st)])"
    using take_envelopes_exact [of "[env\<lparr>env_seq := n\<rparr>]" xs "load_mls_cursor J ib" P J m "[]"] assms(6,7) op
    by (simp add: map_filter_simps)
  then have ib': "ib' = save_mls_cursor J n (ib\<lparr>ib_files := map (message_entry J) ?ys\<rparr>)"
    using assms(7,8) by (simp add: sync_inbox_def assms(4) Let_def)
  have "read_inbox_cache J ib' = Inr ?ys"
    using assms(5,6) by (intro read_cache_exact [OF assms(1)]) (auto simp: ib' save_mls_cursor_def sorted_append intro: less_imp_le)
  moreover have "load_mls_cursor J ib' = n"
    using assms(1) by (simp add: ib' save_mls_cursor_def load_mls_cursor_def json_reads_back_def)
  moreover have "find (\<lambda>e. fi_id e = i) (fst (fold_collab_inbox ?ys)) = issue_now i (map snd ?ys)"
    by (rule find_folded_issue)
  moreover have "\<exists>shown. issue_now i (map snd ?ys) = Some shown \<and> fi_state shown = st"
    using assms(3) by (simp add: issue_now_def Let_def)
  ultimately show ?thesis by metis
qed

section \<open>Closed examples\<close>

instance collab_message :: countable by countable_datatype

text \<open>A JSON codec that satisfies the law: a message is printed as its number.\<close>

definition demo_json :: inbox_json where
  "demo_json =
     \<lparr>ij_print = (\<lambda>m. str_bytes (dec_string (to_nat m))), ij_pretty = (\<lambda>m. str_bytes (dec_string (to_nat m))),
      ij_parse = (\<lambda>b. Some (from_nat (undec (bytes_str b)))), ij_print_after = u64_le, ij_parse_after = (\<lambda>b. Some (of_le_bytes b))\<rparr>"

lemma demo_json_ok: "json_reads_back demo_json"
  by (simp add: json_reads_back_def demo_json_def undec_dec_string)

lemma demo_pad:
  assumes "0 < len" and "length k = 32"
  shows "hd (expand_pad demo_prims k n a len) = hd k"
proof -
  have "hd (pad_loop demo_prims (hmac_sha512 demo_prims k x) len 0 0) = hd k" for x
    using assms by (subst pad_loop.simps) (cases k, simp_all add: sha512_def hmac_sha512_def demo_prims_def Let_def fix_len_def)
  then show ?thesis by (simp only: expand_pad_def Let_def)
qed

lemma demo_expand_keys:
  assumes "length k = 32"
  obtains mac where "expand_aead_keys demo_prims k = Inr (k, mac)"
  using assms by (simp add: expand_aead_keys_def hkdf_sha512_def demo_prims_def fix_len_def)

lemma hd_xor_pad: "a \<noteq> [] \<Longrightarrow> length a = length p \<Longrightarrow> hd (xor_pad a p) = hd a XOR hd p"
  by (cases a; cases p) auto

lemma demo_other_key:
  assumes "length k = 32" and "length k' = 32" and "hd k \<noteq> hd k'" and "length n = 12"
    and "seal_with_nonce demo_prims k aad pt n = Inr s"
  shows "\<exists>e. aead_open demo_prims k' aad s = Inl e"
proof (cases "aead_open demo_prims k' aad s")
  case (Inr pt')
  then obtain n' where n': "length n' = 12" "seal_with_nonce demo_prims k' aad pt' n' = Inr s"
    by (auto simp: aead_open_Inr_iff)
  obtain mac mac' where keys: "expand_aead_keys demo_prims k = Inr (k, mac)" "expand_aead_keys demo_prims k' = Inr (k', mac')"
    using demo_expand_keys assms(1,2) by metis
  let ?a = "xor_pad (COMMIT_BLOCK @ pt) (expand_pad demo_prims k n aad (48 + length pt))"
  let ?b = "xor_pad (COMMIT_BLOCK @ pt') (expand_pad demo_prims k' n' aad (48 + length pt'))"
  have "s = n @ ?a @ outer_hmac demo_prims mac aad ?a" "s = n' @ ?b @ outer_hmac demo_prims mac' aad ?b"
    using assms(5) n'(2) by (simp_all add: seal_with_nonce_Inr_iff [OF keys(1)] seal_with_nonce_Inr_iff [OF keys(2)] Let_def)
  moreover have ne: "?a \<noteq> []" "?b \<noteq> []" "COMMIT_BLOCK \<noteq> []"
    using length_xor_pad [of "COMMIT_BLOCK @ pt"] length_xor_pad [of "COMMIT_BLOCK @ pt'"] length_COMMIT_BLOCK
    by (metis add_is_0 length_append list.size(3) zero_neq_numeral)+
  ultimately have "hd ?a = hd ?b" using assms(4) n'(1) by (metis append_eq_append_conv hd_append2)
  then have "hd COMMIT_BLOCK XOR hd k = hd COMMIT_BLOCK XOR hd k'"
    using ne(3) assms(1,2) by (simp add: hd_xor_pad demo_pad)
  then have "hd k = hd k'" by (metis xor.assoc xor_self_eq xor.left_neutral)
  with assms(3) show ?thesis by simp
qed simp

lemma demo_team_gates: "u \<in> {''ann'', ''bob''} \<Longrightarrow> http_queue demo_hex (demo_auth u) demo_repo demo_team"
  using demo_team_gate [of u] demo_team_queue by (auto simp: http_queue_def demo_rid_hex)

lemma demo_sent:
  assumes "u \<in> {''ann'', ''bob''}"
  obtains sv' env where "http_queue demo_hex (demo_auth ''ann'') demo_repo sv'" "http_queue demo_hex (demo_auth ''bob'') demo_repo sv'"
    "queue_of demo_repo sv' = [env]" "env_payload env = payload"
proof -
  obtain sv' n where enq: "http_mls_enqueue demo_hex (demo_auth u) demo_repo payload None demo_team = (sv', Inr n)"
    using demo_team_gate [OF assms] by (auto simp: http_mls_enqueue_def mls_enqueue_def gate_cases demo_rid_hex case_prod_beta)
  have after: "http_queue demo_hex (demo_auth w) demo_repo sv' \<and> (\<exists>env. env_payload env = payload \<and> queue_of demo_repo sv' = [env])"
    if "w \<in> {''ann'', ''bob''}" for w
    using http_mls_enqueue_queue [OF demo_team_gates [OF that] _ enq] demo_team_queue by simp
  show thesis using after [of "''ann''"] after [of "''bob''"] that by auto
qed

lemma inbox_is_queue_prefix_witness:
  "\<exists>sv' ib r. sync_inbox demo_prims demo_json (\<lambda>a. http_mls_fetch demo_hex (demo_auth ''bob'') demo_repo a sv') demo_material
       \<lparr>ib_cursor = None, ib_files = []\<rparr> = (ib, r) \<and> length (queue_of demo_repo sv') = 1 \<and> load_mls_cursor demo_json ib = 1 \<and>
     read_inbox_cache demo_json ib = Inr (List.map_filter (opened demo_prims demo_json) (zip [demo_material] (queue_of demo_repo sv')))"
proof -
  obtain sv' where q: "http_queue demo_hex (demo_auth ''bob'') demo_repo sv'" "length (queue_of demo_repo sv') = 1"
    by (rule demo_sent [of "''ann''" "[]"]) simp_all
  obtain ib r where s: "sync_inbox demo_prims demo_json (\<lambda>a. http_mls_fetch demo_hex (demo_auth ''bob'') demo_repo a sv') demo_material
      \<lparr>ib_cursor = None, ib_files = []\<rparr> = (ib, r)" by fastforce
  have "inbox_run demo_prims demo_json demo_hex (demo_auth ''bob'') demo_repo sv' ib [demo_material]"
    using inbox_run.sync [OF inbox_run.fresh [OF q(1)] s] by (simp add: q(2))
  from inbox_is_queue_prefix [OF this demo_json_ok] s q(2) show ?thesis by auto
qed

lemma inbox_catches_up_witness:
  "read_inbox_cache demo_json (sync_times demo_prims demo_json (\<lambda>a. http_mls_fetch demo_hex (demo_auth ''bob'') demo_repo a demo_team)
     demo_material 1 \<lparr>ib_cursor = None, ib_files = []\<rparr>) = Inr []"
  using inbox_catches_up [OF inbox_run.fresh [OF demo_team_gates] demo_json_ok, of "''bob''" 1 demo_prims demo_material] demo_team_queue
  by (simp add: map_filter_simps)

lemma rotation_loses_mail_witness:
  "\<exists>d' m2 sealed sv' ib r. rotate_repo_group demo_openmls demo_group_draws demo_repo demo_dir = (d', Inr m2) \<and>
     seal_collab demo_prims [] demo_material (ij_print demo_json (Issue ''1'' ''t'' [] ''open'')) = Inr sealed \<and>
     map env_payload (queue_of demo_repo sv') = [sealed] \<and>
     sync_inbox demo_prims demo_json (\<lambda>a. http_mls_fetch demo_hex (demo_auth ''ann'') demo_repo a sv') m2
       \<lparr>ib_cursor = None, ib_files = []\<rparr> = (ib, r) \<and>
     refs_mac_at m2 1 = Some (em_refs_mac demo_material) \<and> read_inbox_cache demo_json ib = Inr []"
proof -
  let ?msg = "Issue ''1'' ''t'' [] ''open''"
  obtain d' m2 where rot: "rotate_repo_group demo_openmls demo_group_draws demo_repo demo_dir = (d', Inr m2)"
    "em_refs_mac m2 = fix_len 32 ([7] @ u64_le 2)" by (rule demo_rotated) blast
  obtain sealed where sealed: "seal_collab demo_prims [] demo_material (ij_print demo_json ?msg) = Inr sealed"
    using seal_with_nonce_ok [of demo_prims "em_refs_mac demo_material" "domain_label ''collab''" "ij_print demo_json ?msg" "fix_len 12 []"]
    by (auto simp: seal_collab_def aead_seal_def)
  have keys: "length (em_refs_mac demo_material) = 32" "length (em_refs_mac m2) = 32" "hd (em_refs_mac demo_material) \<noteq> hd (em_refs_mac m2)"
    unfolding rot(2) demo_material_fields by (simp_all add: fix_len_def)
  have "seal_with_nonce demo_prims (em_refs_mac demo_material) (domain_label ''collab'') (ij_print demo_json ?msg) (fix_len 12 []) = Inr sealed"
    using sealed by (simp only: seal_collab_def aead_seal_def map_err_Inr_iff)
  from demo_other_key [OF keys _ this] have "\<exists>e. open_collab demo_prims m2 sealed = Inl e"
    by (auto simp: open_collab_def)
  then obtain e where closed: "open_collab demo_prims m2 sealed = Inl e" by blast
  obtain sv' env where q: "http_queue demo_hex (demo_auth ''ann'') demo_repo sv'" "queue_of demo_repo sv' = [env]" "env_payload env = sealed"
    by (rule demo_sent [of "''ann''" sealed]) simp_all
  obtain ib r where s: "sync_inbox demo_prims demo_json (\<lambda>a. http_mls_fetch demo_hex (demo_auth ''ann'') demo_repo a sv') m2
      \<lparr>ib_cursor = None, ib_files = []\<rparr> = (ib, r)" by fastforce
  have run: "inbox_run demo_prims demo_json demo_hex (demo_auth ''ann'') demo_repo sv' ib ([] @ m2 # [])"
    using inbox_run.sync [OF inbox_run.fresh [OF q(1)] s] by (simp add: q(2))
  obtain msgs where msgs: "read_inbox_cache demo_json ib = Inr msgs" "length msgs \<le> 1" "\<forall>x \<in> set msgs. fst x = 1"
    using inbox_run_cache [OF run demo_json_ok] queue_seqs(1) [OF q(1), of 0]
    by (auto simp: q(2) map_filter_simps dest: opened_seq split: option.splits)
  have lost: "refs_mac_at m2 1 = Some (em_refs_mac demo_material) \<and> 1 \<notin> fst ` set msgs"
    using rotation_loses_mail [OF demo_openmls_laws(1) demo_more_laws(1) demo_admin_inv demo_dir_epoch rot(1) sealed closed run demo_json_ok]
      msgs(1) by (simp add: demo_material_fields q(2,3))
  then have none: "read_inbox_cache demo_json ib = Inr []" using msgs(1,3) by (cases msgs) auto
  have sent: "map env_payload (queue_of demo_repo sv') = [sealed]" by (simp add: q(2,3))
  show ?thesis
    by (rule exI [of _ d'], rule exI [of _ m2], rule exI [of _ sealed], rule exI [of _ sv'], rule exI [of _ ib], rule exI [of _ r])
      (intro conjI rot(1) sealed sent s none conjunct1 [OF lost])
qed

lemma replay_reverts_issue_witness:
  "\<exists>env ib' shown. opened demo_prims demo_json (demo_material, env) = Some (env_seq env, Issue ''1'' ''t'' [] ''open'') \<and>
     fst (sync_inbox demo_prims demo_json (\<lambda>_. Inr [env\<lparr>env_seq := 9\<rparr>]) demo_material
       \<lparr>ib_cursor = None, ib_files = [message_entry demo_json (8, Issue ''1'' ''t'' [] ''closed'')]\<rparr>) = ib' \<and>
     read_inbox_cache demo_json ib' = Inr [(8, Issue ''1'' ''t'' [] ''closed''), (9, Issue ''1'' ''t'' [] ''open'')] \<and>
     find (\<lambda>e. fi_id e = ''1'') (fst (fold_collab_inbox [(8, Issue ''1'' ''t'' [] ''closed''), (9, Issue ''1'' ''t'' [] ''open'')])) = Some shown \<and>
     fi_state shown = ''open''"
proof -
  let ?msg = "Issue ''1'' ''t'' [] ''open''"
  obtain sealed where sealed: "seal_collab demo_prims [] demo_material (ij_print demo_json ?msg) = Inr sealed"
    using seal_with_nonce_ok [of demo_prims "em_refs_mac demo_material" "domain_label ''collab''" "ij_print demo_json ?msg" "fix_len 12 []"]
    by (auto simp: seal_collab_def aead_seal_def)
  define env where "env = \<lparr>env_repo_id = demo_repo, env_seq = 1, env_payload = sealed, env_sender_hint = None\<rparr>"
  have op: "opened demo_prims demo_json (demo_material, env) = Some (env_seq env, ?msg)"
    using open_collab_sealed [OF sealed] demo_json_ok by (simp add: opened_def env_def json_reads_back_def)
  define ib where "ib = \<lparr>ib_cursor = None, ib_files = map (message_entry demo_json) [(8, Issue ''1'' ''t'' [] ''closed'')]\<rparr>"
  obtain ib' r where s: "sync_inbox demo_prims demo_json (\<lambda>_. Inr [env\<lparr>env_seq := 9\<rparr>]) demo_material ib = (ib', r)" by fastforce
  obtain shown where "read_inbox_cache demo_json ib' = Inr ([(8, Issue ''1'' ''t'' [] ''closed'')] @ [(9, ?msg)])"
    "find (\<lambda>e. fi_id e = ''1'') (fst (fold_collab_inbox ([(8, Issue ''1'' ''t'' [] ''closed'')] @ [(9, ?msg)]))) = Some shown" "fi_state shown = ''open''"
    using replay_reverts_issue [OF demo_json_ok op _ _ _ _ _ s, of "[(8, Issue ''1'' ''t'' [] ''closed'')]"]
    by (auto simp: ib_def load_mls_cursor_def)
  with op s show ?thesis by (intro exI [of _ env] exI [of _ ib'] exI [of _ shown]) (simp add: ib_def)
qed

end
