(* ===== verification/Sgit_Cli.thy ===== *)
theory Sgit_Cli
  imports Sgit Inbox
begin

text \<open>
  The command line over the comparison system, \<^verbatim>\<open>sgit-rs/src/bin/sgit.rs\<close>: a plaintext directory the
  user edits and a ciphertext repository beside it, which git pushes.  A directory is the sorted map of
  its files by relative path; git is the record \<open>sgit_git\<close>; \<open>sd_keys\<close> and \<open>sd_snapshot\<close> are the files
  this invocation uses for its keys and for the plaintext it pushed last.
\<close>

section \<open>State\<close>

record cli_tag =
  ctg_uid :: string
  ctg_sig :: string
  ctg_vk :: string

text \<open>The ciphertext repository: its \<^verbatim>\<open>.sgit\<close> files, and \<^verbatim>\<open>acs.json\<close> and \<^verbatim>\<open>tag.json\<close> under \<^verbatim>\<open>.sgit/\<close>.\<close>

record sgit_tree =
  wt_files :: "(string \<times> string) list"
  wt_acs :: "string option"
  wt_tag :: "cli_tag option"

record 'g sgit_desk =
  sd_plain :: "(string \<times> bytes) list"
  sd_tree :: sgit_tree
  sd_keys :: "(bytes \<times> bytes) option"
  sd_snapshot :: "(string \<times> utext) list option"
  sd_git :: 'g

text \<open>What is run of git: \<open>sw_commit\<close> is \<^verbatim>\<open>add -A\<close> and \<^verbatim>\<open>commit\<close> of the given tree; None is a failure.\<close>

record ('g, 'r) sgit_git =
  sw_init :: "'g \<Rightarrow> 'g option"
  sw_commit :: "sgit_tree \<Rightarrow> 'g \<Rightarrow> 'g option"
  sw_push :: "'g \<Rightarrow> 'r \<Rightarrow> 'r option"
  sw_clone :: "'r \<Rightarrow> ('g \<times> sgit_tree) option"
  sw_pull :: "'g \<Rightarrow> sgit_tree \<Rightarrow> 'r \<Rightarrow> ('g \<times> sgit_tree) option"

datatype cli_error = Git_failed | No_tag | No_keys | Lib sgit_error

definition RID :: string where "RID = ''sgit-repo''"

section \<open>Files\<close>

definition components :: "string \<Rightarrow> string list" where
  "components p = split_on (CHR ''/'') p"

definition hidden :: "string list \<Rightarrow> string \<Rightarrow> bool" where
  "hidden skip p \<longleftrightarrow> list_ex (\<lambda>c. c \<in> set skip) (components p)"

text \<open>Every file of the plaintext tree that is text; the others are passed over.\<close>

definition read_plain :: "(string \<times> bytes) list \<Rightarrow> (string \<times> utext) list" where
  "read_plain dir = List.map_filter (\<lambda>(p, b).
     if hidden [''.git'', ''.sgit''] p then None else map_option (Pair p) (utf8_decode b)) dir"

definition ct_file_path :: "string \<Rightarrow> string" where
  "ct_file_path rel = rel @ ''.sgit''"

definition read_ct_file :: "string \<Rightarrow> string \<times> string list" where
  "read_ct_file s = (case lines_of s of [] \<Rightarrow> ([], []) | base # deltas \<Rightarrow> (base, deltas))"

definition load_or_create_keys :: "bytes \<times> bytes \<Rightarrow> 'g sgit_desk \<Rightarrow> 'g sgit_desk \<times> bytes \<times> bytes" where
  "load_or_create_keys fresh d = (case sd_keys d of Some k \<Rightarrow> (d, k) | None \<Rightarrow> (d\<lparr>sd_keys := Some fresh\<rparr>, fresh))"

definition load_keys_strict :: "'g sgit_desk \<Rightarrow> cli_error + bytes \<times> bytes" where
  "load_keys_strict d = ok_or No_keys (sd_keys d)"

section \<open>The signed root\<close>

definition walk :: "string list \<Rightarrow> (string \<times> string) list \<Rightarrow> (string \<times> string) list" where
  "walk skip files = filter (\<lambda>(p, _). \<not> hidden skip p \<and> ends_with ''.sgit'' p) files"

text \<open>\<^verbatim>\<open>PathBuf\<close> compares component by component.\<close>

definition merkle_root_of :: "sgit_prims \<Rightarrow> sgit_tree \<Rightarrow> bytes" where
  "merkle_root_of G t =
     dag_root G (map (\<lambda>(p, body). sha256 G [str_bytes p, str_bytes body]) (sort_key (\<lambda>(p, _). components p) (walk [''.git''] (wt_files t))) @
       [sha256 G [str_bytes (case wt_acs t of Some a \<Rightarrow> a | None \<Rightarrow> [])]])"

definition write_tag :: "sgit_prims \<Rightarrow> bytes \<Rightarrow> string \<Rightarrow> sgit_tree \<Rightarrow> sgit_tree" where
  "write_tag G sk uid t =
     t\<lparr>wt_tag := Some \<lparr>ctg_uid = uid, ctg_sig = sg_b64 G (sg_sign G sk (tag_digest G RID uid (merkle_root_of G t))),
                       ctg_vk = sg_b64 G (sg_vk G sk)\<rparr>\<rparr>"

definition verify_tag :: "sgit_prims \<Rightarrow> sgit_tree \<Rightarrow> cli_error + unit" where
  "verify_tag G t =
     rbind (ok_or No_tag (wt_tag t)) (\<lambda>tag.
     rbind (map_err Lib (unb64 G (ctg_sig tag))) (\<lambda>sig.
     rbind (map_err Lib (unb64 G (ctg_vk tag))) (\<lambda>vk.
       if \<not> sg_verify G vk (tag_digest G RID (ctg_uid tag) (merkle_root_of G t)) sig then Inl (Lib Forged) else Inr ())))"

section \<open>Initialising and pushing\<close>

definition sgit_init ::
    "sgit_prims \<Rightarrow> ('g, 'r) sgit_git \<Rightarrow> (string \<Rightarrow> string) \<Rightarrow> bytes \<times> bytes \<Rightarrow> string \<Rightarrow> 'g sgit_desk \<Rightarrow> 'g sgit_desk \<times> (cli_error + unit)" where
  "sgit_init G C print_acs fresh uid d0 =
     (case sw_init C (sd_git d0) of
        None \<Rightarrow> (d0, Inl Git_failed)
      | Some g0 \<Rightarrow>
          (case load_or_create_keys fresh (d0\<lparr>sd_git := g0\<rparr>) of
             (d, mk, sk) \<Rightarrow>
               let t = write_tag G sk uid ((sd_tree d)\<lparr>wt_acs := Some (print_acs uid)\<rparr>)
               in (case sw_commit C t g0 of
                     None \<Rightarrow> (d\<lparr>sd_tree := t\<rparr>, Inl Git_failed)
                   | Some g \<Rightarrow> (d\<lparr>sd_tree := t, sd_git := g\<rparr>, Inr ()))))"

definition line_feed :: "string \<Rightarrow> string" where
  "line_feed l = l @ [CHR 0x0A]"

text \<open>A file written whole: one base line, or one line of ciphertext per line of text.\<close>

definition whole_file :: "sgit_prims \<Rightarrow> bytes \<Rightarrow> (nat \<Rightarrow> bytes) \<Rightarrow> variant \<Rightarrow> nat \<Rightarrow> utext \<Rightarrow> string \<times> nat" where
  "whole_file G k nonces v n body =
     (case v of
        Char_Variant \<Rightarrow> (line_feed (sg_b64 G (enc G k (nonces n) (as_bytes body))), n + 1)
      | Line_Variant \<Rightarrow> (case enc_lines G k nonces n (split_lines body) of (ls, n') \<Rightarrow> (concat (map line_feed ls), n')))"

text \<open>The loop over the new plaintext; the last number counts the changed files.\<close>

fun push_files :: "sgit_prims \<Rightarrow> bytes \<Rightarrow> (nat \<Rightarrow> bytes) \<Rightarrow> variant \<Rightarrow> (string \<times> utext) list \<Rightarrow> (string \<times> utext) list \<Rightarrow> nat \<Rightarrow> nat \<Rightarrow>
    (string \<times> string) list \<Rightarrow> (string \<times> string) list \<times> (cli_error + nat)" where
  "push_files G k nonces v old [] n changed files = (files, Inr changed)"
| "push_files G k nonces v old ((name, body) # new) n changed files =
     (let p = ct_file_path name;
          whole = (case whole_file G k nonces v n body of
                     (tx, n') \<Rightarrow> push_files G k nonces v old new n' (changed + 1) (bt_insert p tx files))
      in case map_of old name of
           None \<Rightarrow> whole
         | Some prev \<Rightarrow>
             if prev = body then push_files G k nonces v old new n changed files
             else (case v of
                     Line_Variant \<Rightarrow> whole
                   | Char_Variant \<Rightarrow>
                       (case map_of files p of
                          None \<Rightarrow> (files, Inl (Lib (Missing_ciphertext name)))
                        | Some tx \<Rightarrow>
                            let line = sg_b64 G (enc G k (nonces n) (encode_ops (com_diff_char prev body)))
                            in push_files G k nonces v old new (n + 1) (changed + 1) (bt_insert p (tx @ line_feed line) files))))"

definition gone_files :: "(string \<times> utext) list \<Rightarrow> (string \<times> utext) list \<Rightarrow> (string \<times> utext) list" where
  "gone_files old new = filter (\<lambda>(name, _). map_of new name = None) old"

definition snapshot_of :: "'g sgit_desk \<Rightarrow> (string \<times> utext) list" where
  "snapshot_of d = (case sd_snapshot d of Some m \<Rightarrow> m | None \<Rightarrow> [])"

text \<open>The answer is the numbers of changed and deleted files.\<close>

definition sgit_push ::
    "sgit_prims \<Rightarrow> ('g, 'r) sgit_git \<Rightarrow> (nat \<Rightarrow> bytes) \<Rightarrow> bytes \<times> bytes \<Rightarrow> string \<Rightarrow> variant \<Rightarrow> 'g sgit_desk \<Rightarrow> 'r \<Rightarrow>
     'g sgit_desk \<times> 'r \<times> (cli_error + nat \<times> nat)" where
  "sgit_push G C nonces fresh uid v d0 r =
     (case load_or_create_keys fresh d0 of
        (d, mk, sk) \<Rightarrow>
          let new = read_plain (sd_plain d); old = snapshot_of d
          in (case push_files G (kdf G mk RID) nonces v old new 0 0 (wt_files (sd_tree d)) of
                (files, Inl e) \<Rightarrow> (d\<lparr>sd_tree := (sd_tree d)\<lparr>wt_files := files\<rparr>\<rparr>, r, Inl e)
              | (files, Inr changed) \<Rightarrow>
                  let gone = gone_files old new;
                      t = (sd_tree d)\<lparr>wt_files := fold (\<lambda>(name, _). bt_remove (ct_file_path name)) gone files\<rparr>
                  in if changed = 0 \<and> gone = []
                     then (case sw_push C (sd_git d) r of None \<Rightarrow> (d\<lparr>sd_tree := t\<rparr>, r, Inl Git_failed) | Some r' \<Rightarrow> (d\<lparr>sd_tree := t\<rparr>, r', Inr (0, 0)))
                     else
                       let t' = write_tag G sk uid t; d1 = d\<lparr>sd_tree := t', sd_snapshot := Some new\<rparr>
                       in (case sw_commit C t' (sd_git d) of
                             None \<Rightarrow> (d1, r, Inl Git_failed)
                           | Some g \<Rightarrow>
                               (case sw_push C g r of
                                  None \<Rightarrow> (d1\<lparr>sd_git := g\<rparr>, r, Inl Git_failed)
                                | Some r' \<Rightarrow> (d1\<lparr>sd_git := g\<rparr>, r', Inr (changed, length gone))))))"

section \<open>Cloning and pulling\<close>

definition open_file :: "sgit_prims \<Rightarrow> bytes \<Rightarrow> variant \<Rightarrow> string \<Rightarrow> sgit_error + utext" where
  "open_file G k v tx =
     (case read_ct_file tx of
        (base, deltas) \<Rightarrow>
          (case v of
             Char_Variant \<Rightarrow> rbind (decrypt_text G k base) (replay G k deltas)
           | Line_Variant \<Rightarrow> decrypt_lines G k (filter (\<lambda>l. l \<noteq> []) (base # deltas))))"

text \<open>An error leaves the files written so far.\<close>

fun decrypt_files :: "sgit_prims \<Rightarrow> bytes \<Rightarrow> variant \<Rightarrow> (string \<times> string) list \<Rightarrow> (string \<times> bytes) list \<Rightarrow>
    (string \<times> bytes) list \<times> (cli_error + unit)" where
  "decrypt_files G k v [] plain = (plain, Inr ())"
| "decrypt_files G k v ((p, tx) # files) plain =
     (case open_file G k v tx of
        Inl e \<Rightarrow> (plain, Inl (Lib e))
      | Inr body \<Rightarrow> decrypt_files G k v files (bt_insert (trim_suffix ''.sgit'' p) (as_bytes body) plain))"

definition decrypt_into :: "sgit_prims \<Rightarrow> bytes \<Rightarrow> variant \<Rightarrow> 'g sgit_desk \<Rightarrow> 'g sgit_desk \<times> (cli_error + unit)" where
  "decrypt_into G k v d =
     (case decrypt_files G k v (walk [''.git'', ''.sgit''] (wt_files (sd_tree d))) (sd_plain d) of
        (plain, res) \<Rightarrow> (d\<lparr>sd_plain := plain\<rparr>, res))"

text \<open>Verify, take the key the reader was given, decrypt.\<close>

definition sgit_read :: "sgit_prims \<Rightarrow> variant \<Rightarrow> 'g sgit_desk \<Rightarrow> 'g sgit_desk \<times> (cli_error + unit)" where
  "sgit_read G v d =
     (case rbind (verify_tag G (sd_tree d)) (\<lambda>_. load_keys_strict d) of
        Inl e \<Rightarrow> (d, Inl e)
      | Inr (mk, _) \<Rightarrow> decrypt_into G (kdf G mk RID) v d)"

definition sgit_clone :: "sgit_prims \<Rightarrow> ('g, 'r) sgit_git \<Rightarrow> variant \<Rightarrow> 'g sgit_desk \<Rightarrow> 'r \<Rightarrow> 'g sgit_desk \<times> (cli_error + unit)" where
  "sgit_clone G C v d r =
     (case sw_clone C r of
        None \<Rightarrow> (d, Inl Git_failed)
      | Some (g, t) \<Rightarrow> sgit_read G v (d\<lparr>sd_git := g, sd_tree := t\<rparr>))"

definition sgit_pull :: "sgit_prims \<Rightarrow> ('g, 'r) sgit_git \<Rightarrow> variant \<Rightarrow> 'g sgit_desk \<Rightarrow> 'r \<Rightarrow> 'g sgit_desk \<times> (cli_error + unit)" where
  "sgit_pull G C v d r =
     (case sw_pull C (sd_git d) (sd_tree d) r of
        None \<Rightarrow> (d, Inl Git_failed)
      | Some (g, t) \<Rightarrow> sgit_read G v (d\<lparr>sd_git := g, sd_tree := t\<rparr>))"

section \<open>Files that hold a text\<close>

definition b64_line :: "string \<Rightarrow> bool" where
  "b64_line l \<longleftrightarrow> l \<noteq> [] \<and> CHR 0x0A \<notin> set l \<and> CHR 0x0D \<notin> set l"

text \<open>The alphabet of base64 has no line breaks, and something encodes to something.\<close>

definition b64_lines :: "sgit_prims \<Rightarrow> bool" where
  "b64_lines G \<longleftrightarrow> (\<forall>b. b \<noteq> [] \<longrightarrow> b64_line (sg_b64 G b))"

lemma enc_not_Nil [simp]: "enc G k draw pt \<noteq> []"
proof -
  have "length (enc G k draw pt) \<ge> NONCE_LEN" by (simp add: enc_def Let_def)
  then show ?thesis by (auto simp: NONCE_LEN_def)
qed

lemma b64_line_enc: "b64_lines G \<Longrightarrow> b64_line (sg_b64 G (enc G k draw pt))"
  by (simp add: b64_lines_def)

lemma lines_of_feeds: "list_all b64_line ls \<Longrightarrow> lines_of (concat (map line_feed ls)) = ls"
proof (induction ls)
  case (Cons l ls)
  then have l: "l \<noteq> []" "CHR 0x0A \<notin> set l" "last l \<noteq> CHR 0x0D"
    by (auto simp: b64_line_def) (metis last_in_set)
  have "lines_of (l @ CHR 0x0A # concat (map line_feed ls)) = chomp_cr l # lines_of (concat (map line_feed ls))"
    by (subst lines_of.simps) (simp add: cut_append l(2))
  moreover have "lines_of (concat (map line_feed ls)) = ls" using Cons by simp
  moreover have "concat (map line_feed (l # ls)) = l @ CHR 0x0A # concat (map line_feed ls)" by (simp add: line_feed_def)
  ultimately show ?case using l by (simp add: chomp_cr_def)
qed (simp add: lines_of.simps)

definition cli_holds :: "sgit_prims \<Rightarrow> bytes \<Rightarrow> variant \<Rightarrow> string \<Rightarrow> utext \<Rightarrow> bool" where
  "cli_holds G k v tx body \<longleftrightarrow>
     (\<exists>ls. tx = concat (map line_feed ls) \<and> list_all b64_line ls \<and>
        (case v of
           Char_Variant \<Rightarrow> (\<exists>base ds. ls = base # ds \<and> rbind (decrypt_text G k base) (replay G k ds) = Inr body)
         | Line_Variant \<Rightarrow> decrypt_lines G k ls = Inr body))"

lemma open_file_holds:
  assumes "cli_holds G k v tx body"
  shows "open_file G k v tx = Inr body"
proof -
  obtain ls where ls: "tx = concat (map line_feed ls)" "list_all b64_line ls"
    "case v of Char_Variant \<Rightarrow> (\<exists>base ds. ls = base # ds \<and> rbind (decrypt_text G k base) (replay G k ds) = Inr body)
     | Line_Variant \<Rightarrow> decrypt_lines G k ls = Inr body"
    using assms unfolding cli_holds_def by blast
  have lines: "lines_of tx = ls" unfolding ls(1) by (rule lines_of_feeds [OF ls(2)])
  show ?thesis
  proof (cases v)
    case Char_Variant
    then show ?thesis using ls(3) lines by (auto simp: open_file_def read_ct_file_def)
  next
    case Line_Variant
    have "filter (\<lambda>l. l \<noteq> []) ls = ls" using ls(2) by (auto simp: filter_id_conv list_all_iff b64_line_def)
    then show ?thesis using ls(2,3) lines Line_Variant by (cases ls) (auto simp: open_file_def read_ct_file_def b64_line_def)
  qed
qed

lemma enc_lines_b64: "b64_lines G \<Longrightarrow> list_all b64_line (fst (enc_lines G k nonces n ls))"
  by (induction ls arbitrary: n) (simp_all add: b64_line_enc case_prod_beta)

lemma whole_file_holds:
  assumes "sgit_laws G" and "b64_lines G" and "list_all scalar body"
  shows "cli_holds G k v (fst (whole_file G k nonces v n body)) body"
proof (cases v)
  case Char_Variant
  have "rbind (decrypt_text G k (sg_b64 G (enc G k (nonces n) (as_bytes body)))) (replay G k []) = Inr body"
    using decrypt_text_enc [OF assms(1,3)] by simp
  then show ?thesis using b64_line_enc [OF assms(2)]
    by (auto simp: Char_Variant cli_holds_def whole_file_def intro!: exI [of _ "[sg_b64 G (enc G k (nonces n) (as_bytes body))]"])
next
  case Line_Variant
  have "decrypt_lines G k (fst (enc_lines G k nonces n (split_lines body))) = Inr body"
    using decrypt_lines_hold [OF enc_lines_hold [OF assms(1)]] assms(3) scalar_lines by simp
  then show ?thesis using enc_lines_b64 [OF assms(2)]
    by (auto simp: Line_Variant cli_holds_def whole_file_def case_prod_beta intro!: exI [of _ "fst (enc_lines G k nonces n (split_lines body))"])
qed

lemma appended_delta_holds:
  assumes "sgit_laws G" and "b64_lines G" and "text_ok old" and "text_ok new" and "cli_holds G k Char_Variant tx old"
  shows "cli_holds G k Char_Variant (tx @ line_feed (sg_b64 G (enc G k draw (encode_ops (com_diff_char old new))))) new"
proof -
  obtain base ds where t: "tx = concat (map line_feed (base # ds))" "list_all b64_line (base # ds)"
    "rbind (decrypt_text G k base) (replay G k ds) = Inr old"
    using assms(5) by (auto simp: cli_holds_def)
  let ?block = "sg_b64 G (enc G k draw (encode_ops (com_diff_char old new)))"
  have "holds G k Char_Variant \<lparr>ct_base = base, ct_deltas = ds, ct_lines = []\<rparr> old"
    using t(3) by (simp add: holds_def reveal_def)
  then have "rbind (decrypt_text G k base) (replay G k (ds @ [?block])) = Inr new"
    using changed_file_holds [OF assms(1,3,4), where v = Char_Variant and k = k and nonces = "\<lambda>_. draw" and n = 0]
    by (fastforce simp: changed_file_def Let_def holds_def reveal_def)
  then show ?thesis
    using t(1,2) b64_line_enc [OF assms(2), of k draw]
    by (auto simp: cli_holds_def intro!: exI [of _ "base # ds @ [?block]"])
qed

section \<open>Trees that hold a plaintext\<close>

definition tree_holds :: "sgit_prims \<Rightarrow> bytes \<Rightarrow> variant \<Rightarrow> (string \<times> string) list \<Rightarrow> (string \<times> utext) list \<Rightarrow> bool" where
  "tree_holds G k v files plain \<longleftrightarrow> bt_wf files \<and>
     (\<forall>name. rel_option (cli_holds G k v) (map_of files (ct_file_path name)) (map_of plain name)) \<and>
     fst ` set files \<subseteq> range ct_file_path"

definition pushed_over :: "sgit_prims \<Rightarrow> bytes \<Rightarrow> variant \<Rightarrow> (string \<times> utext) list \<Rightarrow> (string \<times> string) list \<Rightarrow> (string \<times> string) list \<Rightarrow> bool" where
  "pushed_over G k v new files files' \<longleftrightarrow> bt_wf files' \<and>
     (\<forall>name. case map_of new name of
        Some body \<Rightarrow> (\<exists>tx. map_of files' (ct_file_path name) = Some tx \<and> cli_holds G k v tx body)
      | None \<Rightarrow> map_of files' (ct_file_path name) = map_of files (ct_file_path name)) \<and>
     fst ` set files' \<subseteq> fst ` set files \<union> range ct_file_path"

lemma ct_file_path_inject [simp]: "ct_file_path a = ct_file_path b \<longleftrightarrow> a = b"
  by (simp add: ct_file_path_def)

lemma pushed_over_Cons:
  assumes "pushed_over G k v new (bt_insert (ct_file_path name) tx files) files'" and "map_of new name = None" and "bt_wf files"
    and "cli_holds G k v tx body"
  shows "pushed_over G k v ((name, body) # new) files files'"
proof -
  have "case map_of ((name, body) # new) x of Some body \<Rightarrow> (\<exists>tx. map_of files' (ct_file_path x) = Some tx \<and> cli_holds G k v tx body)
      | None \<Rightarrow> map_of files' (ct_file_path x) = map_of files (ct_file_path x)" for x
    using assms by (cases "x = name"; cases "map_of new x") (auto simp: pushed_over_def dest!: spec [of _ x])
  moreover
  have "fst ` set (bt_insert (ct_file_path name) tx files) \<subseteq> insert (ct_file_path name) (fst ` set files)"
    using set_bt_insert [of "ct_file_path name" tx files] by fastforce
  then have "fst ` set files' \<subseteq> fst ` set files \<union> range ct_file_path"
    using assms(1) unfolding pushed_over_def by blast
  ultimately show ?thesis using assms(1) by (simp add: pushed_over_def)
qed

lemma push_files_hold:
  "sgit_laws G \<Longrightarrow> b64_lines G \<Longrightarrow> bt_wf files \<Longrightarrow> distinct (map fst new) \<Longrightarrow> \<forall>p \<in> set new. text_ok (snd p) \<Longrightarrow> plain_ok old \<Longrightarrow>
   (\<forall>name b. name \<in> fst ` set new \<longrightarrow> map_of old name = Some b \<longrightarrow>
      (\<exists>tx. map_of files (ct_file_path name) = Some tx \<and> cli_holds G k v tx b)) \<Longrightarrow>
     \<exists>files' c'. push_files G k nonces v old new n c files = (files', Inr c') \<and> pushed_over G k v new files files' \<and> c \<le> c' \<and>
       (c' = c \<longrightarrow> files' = files \<and> (\<forall>p \<in> set new. map_of old (fst p) = Some (snd p)))"
proof (induction new arbitrary: n c files)
  case (Cons p new)
  obtain name body where p: "p = (name, body)" by fastforce
  let ?ct = "ct_file_path name"
  have fresh_name: "map_of new name = None" "name \<notin> fst ` set new" using Cons.prems(4) p by (auto simp: map_of_eq_None_iff)
  have step: "\<exists>files' c'. push_files G k nonces v old new n1 c1 (bt_insert ?ct tx files) = (files', Inr c') \<and>
       pushed_over G k v (p # new) files files' \<and> c1 \<le> c' \<and>
       (c' = c1 \<longrightarrow> files' = bt_insert ?ct tx files \<and> (\<forall>q \<in> set new. map_of old (fst q) = Some (snd q)))"
    if "cli_holds G k v tx body" for tx n1 c1
  proof -
    have pre: "\<forall>x b. x \<in> fst ` set new \<longrightarrow> map_of old x = Some b \<longrightarrow>
        (\<exists>tx'. map_of (bt_insert ?ct tx files) (ct_file_path x) = Some tx' \<and> cli_holds G k v tx' b)"
      using Cons.prems(3,7) fresh_name(2) by auto
    have "bt_wf (bt_insert ?ct tx files)" "distinct (map fst new)" "\<forall>q \<in> set new. text_ok (snd q)"
      using Cons.prems(3-5) by simp_all
    from Cons.IH [OF Cons.prems(1,2) this Cons.prems(6) pre, of n1 c1] obtain files' c' where
      res: "push_files G k nonces v old new n1 c1 (bt_insert ?ct tx files) = (files', Inr c')"
      "pushed_over G k v new (bt_insert ?ct tx files) files'" "c1 \<le> c'"
      "c' = c1 \<longrightarrow> files' = bt_insert ?ct tx files \<and> (\<forall>q \<in> set new. map_of old (fst q) = Some (snd q))" by blast
    from pushed_over_Cons [OF res(2) fresh_name(1) Cons.prems(3) that] res(1,3,4) show ?thesis by (simp add: p)
  qed
  have ok: "text_ok body" using Cons.prems(5) p by simp
  obtain w n1 where w: "whole_file G k nonces v n body = (w, n1)" by fastforce
  have whole: "cli_holds G k v w body"
    using whole_file_holds [OF Cons.prems(1,2), of body k v nonces n] ok w by (simp add: text_ok_def)
  show ?case
  proof (cases "map_of old name")
    case None
    from step [OF whole, of n1 "c + 1"] None w show ?thesis by (auto simp: p)
  next
    case (Some b)
    then obtain tx where tx: "map_of files ?ct = Some tx" "cli_holds G k v tx b"
      using spec [OF spec [OF Cons.prems(7), of name], of b] p by auto
    show ?thesis
    proof (cases "b = body")
      case True
      have same: "bt_insert ?ct tx files = files"
        using tx(1) Cons.prems(3) by (intro bt_wf_ext) auto
      from step [of tx, unfolded same] tx(2) True Some show ?thesis by (auto simp: p)
    next
      case False
      show ?thesis
      proof (cases v)
        case Line_Variant
        from step [OF whole, of n1 "c + 1"] False Some w Line_Variant show ?thesis by (auto simp: p)
      next
        case Char_Variant
        have "text_ok b" by (rule plain_ok_text [OF Cons.prems(6) Some])
        from step [of "tx @ line_feed (sg_b64 G (enc G k (nonces n) (encode_ops (com_diff_char b body))))" "n + 1" "c + 1"]
          appended_delta_holds [OF Cons.prems(1,2) this ok] tx Char_Variant False Some show ?thesis by (auto simp: p Let_def)
      qed
    qed
  qed
qed (auto simp: pushed_over_def)

lemma map_of_removed:
  "bt_wf files \<Longrightarrow> bt_wf (fold (\<lambda>(name, _). bt_remove (ct_file_path name)) gone files) \<and>
   (\<forall>p. map_of (fold (\<lambda>(name, _). bt_remove (ct_file_path name)) gone files) p =
     (if p \<in> ct_file_path ` fst ` set gone then None else map_of files p))"
proof (induction gone arbitrary: files)
  case (Cons x gone)
  obtain name b where x: "x = (name, b)" by fastforce
  then show ?case using Cons.IH [of "bt_remove (ct_file_path name) files"] Cons.prems by auto
qed simp

lemma bt_wf_keys: "bt_wf m \<Longrightarrow> p \<in> fst ` set m \<longleftrightarrow> map_of m p \<noteq> None"
  by (simp add: map_of_eq_None_iff)

lemma gone_names: "fst ` set (gone_files old new) = {name \<in> fst ` set old. map_of new name = None}"
  by (force simp: gone_files_def)

text \<open>After the loop and the deletions the ciphertext holds the new plaintext, and nothing else.\<close>

lemma push_tree_holds:
  assumes "sgit_laws G" and "b64_lines G" and "tree_holds G k v files old" and "plain_ok old" and "plain_ok new"
  obtains files1 c where "push_files G k nonces v old new 0 0 files = (files1, Inr c)"
    "tree_holds G k v (fold (\<lambda>(name, _). bt_remove (ct_file_path name)) (gone_files old new) files1) new"
    "c = 0 \<Longrightarrow> gone_files old new = [] \<Longrightarrow> files1 = files \<and> new = old"
proof -
  have wf: "bt_wf files" and rel: "rel_option (cli_holds G k v) (map_of files (ct_file_path x)) (map_of old x)" for x
    using assms(3) by (simp_all add: tree_holds_def)
  have pre: "\<forall>name b. name \<in> fst ` set new \<longrightarrow> map_of old name = Some b \<longrightarrow>
      (\<exists>tx. map_of files (ct_file_path name) = Some tx \<and> cli_holds G k v tx b)"
    using rel by (metis option_rel_Some2)
  have new: "distinct (map fst new)" "\<forall>p \<in> set new. text_ok (snd p)"
    using assms(5) bt_wf_distinct by (auto simp: plain_ok_def)
  from push_files_hold [OF assms(1,2) wf new assms(4) pre, of nonces 0 0] obtain files1 c where
    run: "push_files G k nonces v old new 0 0 files = (files1, Inr c)" and over: "pushed_over G k v new files files1"
    and same: "c = 0 \<longrightarrow> files1 = files \<and> (\<forall>p \<in> set new. map_of old (fst p) = Some (snd p))" by auto
  let ?files = "fold (\<lambda>(name, _). bt_remove (ct_file_path name)) (gone_files old new) files1"
  have wf1: "bt_wf files1" using over by (simp add: pushed_over_def)
  note rem = map_of_removed [OF wf1, of "gone_files old new"]
  have "rel_option (cli_holds G k v) (map_of ?files (ct_file_path x)) (map_of new x)" for x
  proof (cases "map_of new x")
    case None
    then have "map_of files1 (ct_file_path x) = map_of files (ct_file_path x)"
      using over by (auto simp: pushed_over_def dest: spec [of _ x])
    moreover have "map_of files (ct_file_path x) = None" if "x \<notin> fst ` set old"
      using rel [of x] that by (metis map_of_eq_None_iff option_rel_Some1 not_None_eq)
    ultimately show ?thesis using None rem by (auto simp: gone_names)
  next
    case (Some body)
    then show ?thesis using over rem by (auto simp: pushed_over_def gone_names dest!: spec [of _ x])
  qed
  moreover have "fst ` set ?files \<subseteq> range ct_file_path"
  proof -
    have "fst ` set ?files \<subseteq> fst ` set files1" using rem wf1 by (simp add: subset_iff bt_wf_keys)
    moreover have "fst ` set files1 \<subseteq> fst ` set files \<union> range ct_file_path" using over by (simp add: pushed_over_def)
    moreover have "fst ` set files \<subseteq> range ct_file_path" using assms(3) by (simp add: tree_holds_def)
    ultimately show ?thesis by blast
  qed
  ultimately have holds: "tree_holds G k v ?files new" using rem by (simp add: tree_holds_def)
  have "new = old" if "c = 0" "gone_files old new = []"
  proof (rule bt_wf_ext)
    show "bt_wf new" "bt_wf old" using assms(4,5) by (simp_all add: plain_ok_def)
    fix x
    have "fst ` set (gone_files old new) = {}" using that(2) by simp
    then have none: "map_of old x = None" if "map_of new x = None" using that unfolding gone_names by (auto simp: map_of_eq_None_iff)
    have "map_of old x = Some b" if "map_of new x = Some b" for b
      using same \<open>c = 0\<close> map_of_SomeD [OF that] by auto
    then show "map_of new x = map_of old x" using none by (cases "map_of new x") auto
  qed
  with that run holds same show thesis by blast
qed

section \<open>What a reader gets\<close>

definition path_ok :: "string \<Rightarrow> bool" where
  "path_ok name \<longleftrightarrow> \<not> hidden [''.git'', ''.sgit''] (ct_file_path name) \<and> \<not> hidden [''.git'', ''.sgit''] name \<and> \<not> ends_with ''.sgit'' name"

definition names_ok :: "(string \<times> utext) list \<Rightarrow> bool" where
  "names_ok plain \<longleftrightarrow> (\<forall>p \<in> set plain. path_ok (fst p))"

lemma ends_with_path [simp]: "ends_with ''.sgit'' (ct_file_path name)"
  by (simp add: ends_with_def ct_file_path_def)

lemma trim_suffix_path: "\<not> ends_with ''.sgit'' name \<Longrightarrow> trim_suffix ''.sgit'' (ct_file_path name) = name"
  by (subst trim_suffix.simps, subst trim_suffix.simps) (auto simp: ends_with_def ct_file_path_def)

lemma decrypt_files_ok:
  "\<forall>(p, tx) \<in> set files. \<exists>name. p = ct_file_path name \<and> path_ok name \<and> open_file G k v tx = Inr (g name) \<Longrightarrow> bt_wf plain \<Longrightarrow>
     \<exists>plain'. decrypt_files G k v files plain = (plain', Inr ()) \<and> bt_wf plain' \<and>
       (\<forall>x. map_of plain' x = (if ct_file_path x \<in> fst ` set files then Some (as_bytes (g x)) else map_of plain x))"
proof (induction files arbitrary: plain)
  case (Cons q files)
  obtain name tx where q: "q = (ct_file_path name, tx)" "path_ok name" "open_file G k v tx = Inr (g name)"
    using Cons.prems(1) by fastforce
  then have stem: "trim_suffix ''.sgit'' (ct_file_path name) = name" by (simp add: trim_suffix_path path_ok_def)
  have "bt_wf (bt_insert name (as_bytes (g name)) plain)" using Cons.prems(2) by simp
  with Cons.IH [OF _ this] Cons.prems(1) obtain plain' where p: "decrypt_files G k v files (bt_insert name (as_bytes (g name)) plain) = (plain', Inr ())"
    "bt_wf plain'" "\<forall>x. map_of plain' x =
       (if ct_file_path x \<in> fst ` set files then Some (as_bytes (g x)) else map_of (bt_insert name (as_bytes (g name)) plain) x)" by auto
  then show ?case using q stem Cons.prems(2) by (auto intro!: exI [of _ plain'])
qed auto

lemma walk_all: "\<forall>p \<in> fst ` set files. ends_with ''.sgit'' p \<and> \<not> hidden skip p \<Longrightarrow> walk skip files = files"
  by (auto simp: walk_def filter_id_conv)

lemma decrypted_tree:
  assumes "tree_holds G k v files plain" and "plain_ok plain" and "names_ok plain"
  shows "decrypt_files G k v (walk [''.git'', ''.sgit''] files) [] = (map (apsnd as_bytes) plain, Inr ())"
proof -
  have wf: "bt_wf files" and rel: "rel_option (cli_holds G k v) (map_of files (ct_file_path x)) (map_of plain x)" for x
    using assms(1) by (simp_all add: tree_holds_def)
  let ?g = "\<lambda>x. the (map_of plain x)"
  have each: "\<exists>name. p = ct_file_path name \<and> path_ok name \<and> open_file G k v tx = Inr (?g name)" if "(p, tx) \<in> set files" for p tx
  proof -
    have "p \<in> fst ` set files" using that by force
    then obtain name where p: "p = ct_file_path name" using assms(1) by (auto simp: tree_holds_def)
    have "map_of files p = Some tx" using that wf by (simp add: bt_wf_Some_iff)
    then obtain body where body: "map_of plain name = Some body" "cli_holds G k v tx body"
      using rel [of name] p by (auto simp: option_rel_Some1)
    then have "path_ok name" using assms(3) by (auto simp: names_ok_def dest!: map_of_SomeD)
    with p body show ?thesis using open_file_holds by auto
  qed
  have walked: "walk [''.git'', ''.sgit''] files = files"
    by (rule walk_all) (use each in \<open>force simp: path_ok_def\<close>)
  from decrypt_files_ok [where files = files and g = ?g and plain = "[]"] each obtain plain' where
    run: "decrypt_files G k v files [] = (plain', Inr ())" "bt_wf plain'"
      "\<And>x. map_of plain' x = (if ct_file_path x \<in> fst ` set files then Some (as_bytes (?g x)) else None)" by fastforce
  have "plain' = map (apsnd as_bytes) plain"
  proof (rule bt_wf_ext [OF run(2)])
    have "map fst (map (apsnd as_bytes) plain) = map fst plain" by simp
    then show "bt_wf (map (apsnd as_bytes) plain)" using assms(2) unfolding bt_wf_def plain_ok_def by simp
    fix x
    have at: "map_of (map (apsnd as_bytes) ps) x = map_option as_bytes (map_of ps x)" for ps :: "(string \<times> utext) list" by (induction ps) auto
    show "map_of plain' x = map_of (map (apsnd as_bytes) plain) x"
      using rel [of x] wf by (cases "map_of plain x") (auto simp: run(3) at bt_wf_keys option_rel_Some2)
  qed
  then show ?thesis using run(1) walked by simp
qed

text \<open>What git promises: a commit holds the tree, and who clones after a push gets the pushed commit's tree.\<close>

definition git_law :: "('g, 'r) sgit_git \<Rightarrow> ('g \<Rightarrow> sgit_tree) \<Rightarrow> bool" where
  "git_law C head_tree \<longleftrightarrow> (\<forall>t g g'. sw_commit C t g = Some g' \<longrightarrow> head_tree g' = t) \<and>
     (\<forall>g r r'. sw_push C g r = Some r' \<longrightarrow> (\<exists>g2. sw_clone C r' = Some (g2, head_tree g)))"

text \<open>
  A device whose ciphertext repository is committed, signed, and holds exactly the snapshot.
\<close>

definition in_step :: "sgit_prims \<Rightarrow> ('g \<Rightarrow> sgit_tree) \<Rightarrow> variant \<Rightarrow> bytes \<Rightarrow> 'g sgit_desk \<Rightarrow> bool" where
  "in_step G head_tree v mk d \<longleftrightarrow> (\<exists>sk. sd_keys d = Some (mk, sk)) \<and> verify_tag G (sd_tree d) = Inr () \<and>
     head_tree (sd_git d) = sd_tree d \<and> plain_ok (snapshot_of d) \<and> names_ok (snapshot_of d) \<and>
     tree_holds G (kdf G mk RID) v (wt_files (sd_tree d)) (snapshot_of d)"

lemma merkle_root_tag [simp]: "merkle_root_of G (t\<lparr>wt_tag := x\<rparr>) = merkle_root_of G t"
  by (simp add: merkle_root_of_def)

lemma verify_write_tag [simp]: "sgit_laws G \<Longrightarrow> verify_tag G (write_tag G sk uid t) = Inr ()"
  by (simp add: verify_tag_def write_tag_def) (simp add: sgit_laws_def)

lemma write_tag_files [simp]: "wt_files (write_tag G sk uid t) = wt_files t" "wt_acs (write_tag G sk uid t) = wt_acs t"
  by (simp_all add: write_tag_def)

lemma init_in_step:
  assumes "sgit_laws G" and "git_law C head_tree" and "sgit_init G C print_acs (mk, sk) uid d0 = (d, Inr ())"
    and "wt_files (sd_tree d0) = []" and "sd_snapshot d0 = None" and "sd_keys d0 = None"
  shows "in_step G head_tree v mk d"
  using assms by (auto simp: sgit_init_def load_or_create_keys_def Let_def in_step_def snapshot_of_def plain_ok_def names_ok_def
      tree_holds_def git_law_def split: option.splits)

text \<open>
  A push that answers keeps the device in step with what it pushed, whether or not anything changed.
\<close>

lemma push_in_step:
  assumes "sgit_laws G" and "b64_lines G" and "git_law C head_tree" and "in_step G head_tree v mk d"
    and "plain_ok (read_plain (sd_plain d))" and "names_ok (read_plain (sd_plain d))"
    and "sgit_push G C nonces fresh uid v d r = (d', r', Inr report)"
  shows "in_step G head_tree v mk d'" "snapshot_of d' = read_plain (sd_plain d)" "\<exists>g2. sw_clone C r' = Some (g2, sd_tree d')"
proof -
  let ?new = "read_plain (sd_plain d)" and ?old = "snapshot_of d" and ?files = "wt_files (sd_tree d)" and ?k = "kdf G mk RID"
  obtain sk where keys: "sd_keys d = Some (mk, sk)" using assms(4) by (auto simp: in_step_def)
  have st: "verify_tag G (sd_tree d) = Inr ()" "head_tree (sd_git d) = sd_tree d" "plain_ok ?old" "names_ok ?old"
    "tree_holds G ?k v ?files ?old" using assms(4) keys by (auto simp: in_step_def)
  obtain files1 c where run: "push_files G ?k nonces v ?old ?new 0 0 ?files = (files1, Inr c)"
    and holds: "tree_holds G ?k v (fold (\<lambda>(name, _). bt_remove (ct_file_path name)) (gone_files ?old ?new) files1) ?new"
    and same: "c = 0 \<Longrightarrow> gone_files ?old ?new = [] \<Longrightarrow> files1 = ?files \<and> ?new = ?old"
    using push_tree_holds [OF assms(1,2) st(5,3) assms(5), of nonces] by blast
  let ?t = "(sd_tree d)\<lparr>wt_files := fold (\<lambda>(name, _). bt_remove (ct_file_path name)) (gone_files ?old ?new) files1\<rparr>"
  have "in_step G head_tree v mk d' \<and> snapshot_of d' = ?new \<and> (\<exists>g2. sw_clone C r' = Some (g2, sd_tree d'))"
  proof (cases "c = 0 \<and> gone_files ?old ?new = []")
    case True
    then have eq: "files1 = ?files" "?new = ?old" using same by blast+
    have t: "?t = sd_tree d" using True eq by simp
    have "sw_push C (sd_git d) r = Some r'" "d' = d"
      using assms(7) keys True run t by (auto simp: sgit_push_def load_or_create_keys_def Let_def split: option.splits)
    moreover have "\<exists>g2. sw_clone C r' = Some (g2, head_tree (sd_git d))"
      using assms(3) calculation(1) unfolding git_law_def by blast
    ultimately show ?thesis using assms(4) st(2) eq by simp
  next
    case False
    let ?t' = "write_tag G sk uid ?t"
    obtain g where g: "sw_commit C ?t' (sd_git d) = Some g" "sw_push C g r = Some r'"
      "d' = d\<lparr>sd_tree := ?t', sd_snapshot := Some ?new, sd_git := g\<rparr>"
      using assms(7) keys False run by (auto simp: sgit_push_def load_or_create_keys_def Let_def split: option.splits if_splits)
    have head: "head_tree g = ?t'" using assms(3) g(1) unfolding git_law_def by blast
    have "\<exists>g2. sw_clone C r' = Some (g2, head_tree g)" using assms(3) g(2) unfolding git_law_def by blast
    with head show ?thesis using assms(1,5,6) keys holds by (simp add: g(3) in_step_def snapshot_of_def)
  qed
  then show "in_step G head_tree v mk d'" "snapshot_of d' = ?new" "\<exists>g2. sw_clone C r' = Some (g2, sd_tree d')" by blast+
qed

text \<open>
  C14.  Who clones gets what was pushed: after any push that answers, from a device in step, a reader with
  the repository's key clones the remote and finds exactly the pushed texts in its directory; and the
  pusher's device is in step again.  In both variants, changed and deleted files included.
\<close>

theorem clone_after_push:
  assumes "sgit_laws G" and "b64_lines G" and "git_law C head_tree" and "in_step G head_tree v mk d"
    and "plain_ok (read_plain (sd_plain d))" and "names_ok (read_plain (sd_plain d))"
    and "sgit_push G C nonces fresh uid v d r = (d', r', Inr report)"
    and "sd_keys reader = Some (mk, sk2)" and "sd_plain reader = []"
  shows "in_step G head_tree v mk d' \<and>
    (\<exists>reader'. sgit_clone G C v reader r' = (reader', Inr ()) \<and> sd_plain reader' = map (apsnd as_bytes) (read_plain (sd_plain d)))"
proof -
  note pushed = push_in_step [OF assms(1-7)]
  obtain g2 where clone: "sw_clone C r' = Some (g2, sd_tree d')" using pushed(3) by blast
  have st: "verify_tag G (sd_tree d') = Inr ()" "tree_holds G (kdf G mk RID) v (wt_files (sd_tree d')) (read_plain (sd_plain d))"
    using pushed(1) by (auto simp: in_step_def pushed(2))
  have "sgit_clone G C v reader r' = (reader\<lparr>sd_git := g2, sd_tree := sd_tree d', sd_plain := map (apsnd as_bytes) (read_plain (sd_plain d))\<rparr>, Inr ())"
    using decrypted_tree [OF st(2) assms(5,6)] st(1) assms(8,9)
    by (simp add: sgit_clone_def clone sgit_read_def load_keys_strict_def decrypt_into_def)
  with pushed(1) show ?thesis by simp
qed

section \<open>What the tag and the snapshot do not do\<close>

text \<open>
  The tag names the key it is checked with: a reader accepts any tree at all, whoever wrote it, once it is
  signed with some key, so a host that replaces or rolls back the ciphertext signs it itself.
\<close>

theorem tag_vouches_for_itself:
  assumes "sgit_laws G" and "sd_keys reader = Some (mk, sk2)" and "sw_clone C r = Some (g, write_tag G sk_host uid t)"
  shows "sgit_clone G C v reader r = decrypt_into G (kdf G mk RID) v (reader\<lparr>sd_git := g, sd_tree := write_tag G sk_host uid t\<rparr>)"
  using assms by (simp add: sgit_clone_def sgit_read_def load_keys_strict_def)

lemma pull_leaves_snapshot: "sgit_pull G C v d r = (d', res) \<Longrightarrow> sd_snapshot d' = sd_snapshot d"
  by (auto simp: sgit_pull_def sgit_read_def decrypt_into_def split: option.splits sum.splits prod.splits)

lemma open_appended:
  assumes "b64_lines G" and "sgit_laws G" and "cli_holds G k Char_Variant tx t1"
  shows "open_file G k Char_Variant (tx @ line_feed (sg_b64 G (enc G k draw blob))) =
    rbind (ok_or Malformed_delta (decode_ops blob)) (\<lambda>ops. ok_or Panicked (apply_chars t1 ops))"
proof -
  obtain base ds where t: "tx = concat (map line_feed (base # ds))" "list_all b64_line (base # ds)"
    "rbind (decrypt_text G k base) (replay G k ds) = Inr t1"
    using assms(3) by (auto simp: cli_holds_def)
  let ?block = "sg_b64 G (enc G k draw blob)"
  have "lines_of (concat (map line_feed (base # ds @ [?block]))) = base # ds @ [?block]"
    by (rule lines_of_feeds) (use t(2) b64_line_enc [OF assms(1), of k draw blob] in simp)
  then have lines: "lines_of (tx @ line_feed ?block) = base # ds @ [?block]" by (simp add: t(1))
  have "replay G k (bs @ [?block]) t = rbind (replay G k bs t)
      (\<lambda>t1. rbind (ok_or Malformed_delta (decode_ops blob)) (\<lambda>ops. ok_or Panicked (apply_chars t1 ops)))" for bs t
  proof (induction bs arbitrary: t)
    case Nil
    have "rbind x Inr = x" for x :: "sgit_error + utext" by (cases x) auto
    moreover have "replay G k [] = Inr" by (rule ext) simp
    ultimately show ?case using assms(2) by simp
  next
    case (Cons b bs)
    then show ?case by (auto simp: rbind_def split: sum.splits)
  qed
  then show ?thesis using t(3) by (auto simp: open_file_def read_ct_file_def lines rbind_def split: sum.splits)
qed

text \<open>
  A pull does not move the snapshot, so the next push of a changed file encodes the difference to the text
  pushed before the pull and appends it to the text that was pulled: readers apply the delta to a text it was not made for.
\<close>

theorem pull_then_push_corrupts:
  assumes "sgit_laws G" and "b64_lines G" and "sgit_pull G C Char_Variant d r = (d1, Inr ())"
    and "sd_snapshot d = Some old" and "map_of old name = Some t0" and "text_ok t0" and "text_ok t2" and "t2 \<noteq> t0"
    and "map_of (wt_files (sd_tree d1)) (ct_file_path name) = Some tx" and "cli_holds G k Char_Variant tx t1"
  shows "sd_snapshot d1 = Some old \<and> (\<exists>ops tx'. apply_chars t0 ops = Some t2 \<and>
    push_files G k nonces Char_Variant old [(name, t2)] n c (wt_files (sd_tree d1)) =
      (bt_insert (ct_file_path name) tx' (wt_files (sd_tree d1)), Inr (c + 1)) \<and>
    open_file G k Char_Variant tx' = ok_or Panicked (apply_chars t1 ops))"
proof -
  obtain ops where ops: "decode_ops (encode_ops (com_diff_char t0 t2)) = Some ops" "apply_chars t0 ops = Some t2"
    using delta_block_reconstructs [OF assms(6,7)] by blast
  have "open_file G k Char_Variant (tx @ line_feed (sg_b64 G (enc G k (nonces n) (encode_ops (com_diff_char t0 t2))))) =
      ok_or Panicked (apply_chars t1 ops)"
    by (simp add: open_appended [OF assms(2,1,10)] ops(1))
  then show ?thesis
    using pull_leaves_snapshot [OF assms(3)] assms(4,5,8,9) ops(2) by (auto simp: Let_def)
qed

lemma push_files_same:
  "\<forall>p \<in> set new. map_of old (fst p) = Some (snd p) \<Longrightarrow> push_files G k nonces v old new n c files = (files, Inr c)"
  by (induction new) (auto simp: Let_def)

lemma push_files_errors: "push_files G k nonces v old new n c files = (files', Inl e) \<Longrightarrow> \<exists>x. e = Lib x"
proof (induction new arbitrary: n c files)
  case (Cons p new)
  obtain name body where "p = (name, body)" by fastforce
  then show ?case using Cons by (auto simp: Let_def split: option.splits if_splits variant.splits prod.splits)
qed simp

text \<open>
  A commit that fails is forgotten: the snapshot is written before it, so the next push of the same plaintext
  finds nothing changed, pushes the old commit again and reports success.
\<close>

theorem failed_commit_is_forgotten:
  assumes "sgit_push G C nonces fresh uid v d r = (d', r', Inl Git_failed)"
    and "\<forall>t. sw_commit C t (sd_git d) = None" and "sw_push C (sd_git d) r \<noteq> None" and "plain_ok (read_plain (sd_plain d))"
  shows "sgit_push G C2 nonces2 fresh2 uid2 v d' r2 =
    (case sw_push C2 (sd_git d) r2 of None \<Rightarrow> (d', r2, Inl Git_failed) | Some r3 \<Rightarrow> (d', r3, Inr (0, 0)))"
proof -
  let ?new = "read_plain (sd_plain d)"
  obtain d1 mk sk where k: "load_or_create_keys fresh d = (d1, mk, sk)" "sd_keys d1 = Some (mk, sk)" "sd_plain d1 = sd_plain d"
    "sd_git d1 = sd_git d" by (cases "sd_keys d"; cases fresh) (auto simp: load_or_create_keys_def)
  obtain t where d': "d' = d1\<lparr>sd_tree := t, sd_snapshot := Some ?new\<rparr>"
    using assms(1-3) k
    by (auto simp: sgit_push_def Let_def dest: push_files_errors split: option.splits sum.splits prod.splits if_splits)
  have same: "\<forall>p \<in> set ?new. map_of ?new (fst p) = Some (snd p)"
    using assms(4) by (auto simp: plain_ok_def bt_wf_Some_iff)
  then have "gone_files ?new ?new = []" by (force simp: gone_files_def filter_empty_conv)
  then show ?thesis
    using k by (simp add: d' sgit_push_def load_or_create_keys_def snapshot_of_def push_files_same [OF same] Let_def split: option.split)
qed

text \<open>A file whose name ends in \<^verbatim>\<open>.sgit\<close> comes back under the name without it, over a file of that name.\<close>

theorem suffix_names_collide:
  "trim_suffix ''.sgit'' (ct_file_path (ct_file_path name)) = trim_suffix ''.sgit'' (ct_file_path name)"
  by (subst trim_suffix.simps) (simp add: ct_file_path_def)

section \<open>A closed example\<close>

text \<open>Where git succeeds a push of a device in step answers.\<close>

lemma push_answers:
  assumes "sgit_laws G" and "b64_lines G" and "in_step G head_tree v mk d"
    and "plain_ok (read_plain (sd_plain d))" and "\<forall>t g. sw_commit C t g \<noteq> None" and "\<forall>g r. sw_push C g r \<noteq> None"
  shows "\<exists>d' r' report. sgit_push G C nonces fresh uid v d r = (d', r', Inr report)"
proof -
  obtain sk where keys: "sd_keys d = Some (mk, sk)" "plain_ok (snapshot_of d)"
    "tree_holds G (kdf G mk RID) v (wt_files (sd_tree d)) (snapshot_of d)" using assms(3) by (auto simp: in_step_def)
  obtain files1 c where "push_files G (kdf G mk RID) nonces v (snapshot_of d) (read_plain (sd_plain d)) 0 0 (wt_files (sd_tree d)) = (files1, Inr c)"
    using push_tree_holds [OF assms(1,2) keys(3,2) assms(4), of nonces] by blast
  moreover have "\<exists>cm. \<forall>t g. sw_commit C t g = Some (cm t g)" "\<exists>ps. \<forall>g r. sw_push C g r = Some (ps g r)"
    using assms(5,6) by (auto intro!: exI [of _ "\<lambda>t g. the (sw_commit C t g)"] exI [of _ "\<lambda>g r. the (sw_push C g r)"])
  then obtain cm ps where "\<And>t g. sw_commit C t g = Some (cm t g)" "\<And>g r. sw_push C g r = Some (ps g r)" by blast
  ultimately show ?thesis using keys(1) by (auto simp: sgit_push_def load_or_create_keys_def Let_def)
qed

text \<open>Bytes as pairs of letters, and a git that keeps the last tree.\<close>

definition letters :: "bytes \<Rightarrow> string" where
  "letters b = concat (map (\<lambda>x. [char_of (65 + unat x div 16), char_of (65 + unat x mod 16)]) b)"

fun unletters :: "string \<Rightarrow> bytes option" where
  "unletters [] = Some []"
| "unletters [_] = None"
| "unletters (a # b # s) = map_option ((#) (of_nat (16 * (of_char a - 65) + (of_char b - 65)))) (unletters s)"

definition letter_sgit :: sgit_prims where
  "letter_sgit = demo_sgit\<lparr>sg_b64 := letters, sg_unb64 := unletters\<rparr>"

definition demo_sgit_git :: "(sgit_tree, sgit_tree) sgit_git" where
  "demo_sgit_git = \<lparr>sw_init = Some, sw_commit = (\<lambda>t _. Some t), sw_push = (\<lambda>g _. Some g), sw_clone = (\<lambda>r. Some (r, r)),
     sw_pull = (\<lambda>_ _ r. Some (r, r))\<rparr>"

definition demo_sgit_desk :: "sgit_tree sgit_desk" where
  "demo_sgit_desk = \<lparr>sd_plain = [(''a'', [97])], sd_tree = \<lparr>wt_files = [], wt_acs = None, wt_tag = None\<rparr>, sd_keys = None, sd_snapshot = None,
     sd_git = \<lparr>wt_files = [], wt_acs = None, wt_tag = None\<rparr>\<rparr>"

lemma of_char_letter: "n < 16 \<Longrightarrow> (of_char (char_of (65 + n)) :: nat) = 65 + n"
  by (simp add: of_char_of)

lemma unletters_letters: "unletters (letters b) = Some b"
proof (induction b)
  case (Cons x b)
  have "unat x < 256" using unsigned_less [of x, where 'a = nat] by simp
  then have n: "unat x div 16 < 16" "unat x mod 16 < 16" by simp_all
  have "16 * (65 + unat x div 16 - 65) + (65 + unat x mod 16 - 65) = unat x" by simp
  then have "of_nat (16 * (of_char (char_of (65 + unat x div 16)) - 65) + (of_char (char_of (65 + unat x mod 16)) - 65)) = x"
    using of_char_letter [OF n(1)] of_char_letter [OF n(2)] by simp
  then show ?case using Cons by (simp add: letters_def)
qed (simp add: letters_def)

lemma letter_laws: "sgit_laws letter_sgit" "b64_lines letter_sgit"
proof -
  show "sgit_laws letter_sgit" using demo_laws unletters_letters by (simp add: sgit_laws_def letter_sgit_def)
  have "c \<noteq> CHR 0x0A \<and> c \<noteq> CHR 0x0D" if c: "c \<in> set (letters b)" for b c
  proof -
    obtain x :: u8 where "c = char_of (65 + unat x div 16) \<or> c = char_of (65 + unat x mod 16)"
      using c by (auto simp: letters_def)
    moreover have "unat x div 16 < 16" "unat x mod 16 < 16" using unsigned_less [of x, where 'a = nat] by simp_all
    ultimately have "65 \<le> (of_char c :: nat)" using of_char_letter by auto
    then show ?thesis by auto
  qed
  moreover have "letters b \<noteq> []" if "b \<noteq> []" for b using that by (cases b) (simp_all add: letters_def)
  ultimately show "b64_lines letter_sgit" by (auto simp: b64_lines_def b64_line_def letter_sgit_def)
qed

lemma demo_sgit_plain:
  "read_plain [(''a'', [97])] = [(''a'', [97])]" "plain_ok [(''a'', [97])]" "names_ok [(''a'', [97])]" "utf8_char 97 = [97]"
proof -
  show char: "utf8_char 97 = [97]" by (simp add: utf8_char_def as_u8_def)
  then have bytes: "as_bytes [97] = [97]" by (simp add: as_bytes_def)
  have "utf8_decode (as_bytes [97]) = Some [97]" by (rule utf8_decode_as_bytes) (simp add: scalar_def)
  then have "utf8_decode [97] = Some [97]" by (simp only: bytes)
  then show "read_plain [(''a'', [97])] = [(''a'', [97])]"
    by (simp add: read_plain_def map_filter_simps hidden_def components_def split_on_none)
  show "plain_ok [(''a'', [97])]" by (simp add: plain_ok_def text_ok_def scalar_def)
  show "names_ok [(''a'', [97])]" by (simp add: names_ok_def path_ok_def hidden_def components_def split_on_none ct_file_path_def ends_with_def)
qed

lemma clone_after_push_witness:
  "\<exists>d d' r' report reader reader'. sgit_init letter_sgit demo_sgit_git (\<lambda>_. []) ([1], [2]) ''ann'' demo_sgit_desk = (d, Inr ()) \<and>
     sgit_push letter_sgit demo_sgit_git (\<lambda>_. []) ([], []) ''ann'' Char_Variant d (sd_tree demo_sgit_desk) = (d', r', Inr report) \<and>
     sgit_clone letter_sgit demo_sgit_git Char_Variant reader r' = (reader', Inr ()) \<and> sd_plain reader' = [(''a'', [97])]"
proof -
  have law: "git_law demo_sgit_git (\<lambda>t. t)" by (simp add: git_law_def demo_sgit_git_def)
  obtain d where d: "sgit_init letter_sgit demo_sgit_git (\<lambda>_. []) ([1], [2]) ''ann'' demo_sgit_desk = (d, Inr ())" "sd_plain d = [(''a'', [97])]"
    by (simp add: sgit_init_def load_or_create_keys_def demo_sgit_git_def demo_sgit_desk_def Let_def)
  have step: "in_step letter_sgit (\<lambda>t. t) Char_Variant [1] d"
    by (rule init_in_step [OF letter_laws(1) law d(1)]) (simp_all add: demo_sgit_desk_def)
  have plain: "plain_ok (read_plain (sd_plain d))" "names_ok (read_plain (sd_plain d))" by (simp_all add: d(2) demo_sgit_plain)
  have "\<exists>d' r' report. sgit_push letter_sgit demo_sgit_git (\<lambda>_. []) ([], []) ''ann'' Char_Variant d (sd_tree demo_sgit_desk) = (d', r', Inr report)"
    by (rule push_answers [OF letter_laws step plain(1)]) (simp_all add: demo_sgit_git_def)
  then obtain d' r' report where push: "sgit_push letter_sgit demo_sgit_git (\<lambda>_. []) ([], []) ''ann'' Char_Variant d (sd_tree demo_sgit_desk) = (d', r', Inr report)" by blast
  let ?reader = "demo_sgit_desk\<lparr>sd_plain := [], sd_keys := Some ([1], [9])\<rparr>"
  obtain reader' where "sgit_clone letter_sgit demo_sgit_git Char_Variant ?reader r' = (reader', Inr ())" "sd_plain reader' = [(''a'', [97])]"
    using clone_after_push [OF letter_laws law step plain push, of ?reader] by (auto simp: d(2) demo_sgit_plain)
  with d(1) push show ?thesis by blast
qed

end
