(* ===== verification/Tickets.thy ===== *)
theory Tickets
  imports Inbox Checkout
begin

text \<open>
  The commands \<^verbatim>\<open>issue\<close>, \<^verbatim>\<open>pr\<close> and \<^verbatim>\<open>inbox\<close> of \<^verbatim>\<open>safehub-cli\<close> (cmds/issue.rs, cmds/pr.rs,
  cmds/inbox.rs): a device reads its inbox, decides, and enqueues sealed messages.
\<close>

section \<open>A device at work\<close>

text \<open>The directory the command runs in, the device's keys and its inboxes; what it calls of the host.\<close>

record 'g desk =
  dk_co :: "'g checkout"
  dk_dv :: device
  dk_inbox :: "repo_id \<Rightarrow> inbox"

record 'h desk_client =
  dc_mls :: "repo_id \<Rightarrow> 'h mls_client"
  dc_get_repo :: "repo_name \<Rightarrow> 'h \<Rightarrow> client_error + repo_record"

definition resolve_repo :: "'h desk_client \<Rightarrow> string option \<Rightarrow> 'g desk \<Rightarrow> 'h \<Rightarrow> client_error + repo_record" where
  "resolve_repo C explicit dk s =
     (case explicit of
        Some nm \<Rightarrow> rbind (ok_or (bail ''expected owner/name'') (repo_name_parse nm)) (\<lambda>n. dc_get_repo C n s)
      | None \<Rightarrow> ok_or (bail ''not a safehub checkout; pass --repo owner/name'') (co_repo (dk_co dk)))"

definition material_for :: "'g desk \<Rightarrow> repo_id \<Rightarrow> client_error + epoch_material" where
  "material_for dk repo = load_epoch_material (dv_repos (dk_dv dk) repo)"

definition open_repo :: "'h desk_client \<Rightarrow> string option \<Rightarrow> 'g desk \<Rightarrow> 'h \<Rightarrow> client_error + repo_record \<times> epoch_material" where
  "open_repo C explicit dk s =
     rbind (resolve_repo C explicit dk s) (\<lambda>r. rbind (material_for dk (rr_id r)) (\<lambda>m. Inr (r, m)))"

text \<open>Synchronise, then read the whole cache.\<close>

definition read_mail ::
    "prims \<Rightarrow> inbox_json \<Rightarrow> 'h desk_client \<Rightarrow> repo_id \<Rightarrow> epoch_material \<Rightarrow> 'g desk \<Rightarrow> 'h \<Rightarrow>
     'g desk \<times> (client_error + (u64 \<times> collab_message) list)" where
  "read_mail P J C repo m dk s =
     (case sync_inbox P J (\<lambda>a. mc_fetch (dc_mls C repo) a s) m (dk_inbox dk repo) of
        (ib, res) \<Rightarrow> (dk\<lparr>dk_inbox := (dk_inbox dk)(repo := ib)\<rparr>, rbind res (\<lambda>_. read_inbox_cache J ib)))"

definition load_issues ::
    "prims \<Rightarrow> inbox_json \<Rightarrow> 'h desk_client \<Rightarrow> string option \<Rightarrow> 'g desk \<Rightarrow> 'h \<Rightarrow> 'g desk \<times> (client_error + folded_issue list)" where
  "load_issues P J C explicit dk s =
     (case open_repo C explicit dk s of
        Inl e \<Rightarrow> (dk, Inl e)
      | Inr (r, m) \<Rightarrow> apsnd (\<lambda>res. rbind res (\<lambda>msgs. Inr (fst (fold_collab_inbox msgs)))) (read_mail P J C (rr_id r) m dk s))"

definition load_prs ::
    "prims \<Rightarrow> inbox_json \<Rightarrow> 'h desk_client \<Rightarrow> string option \<Rightarrow> 'g desk \<Rightarrow> 'h \<Rightarrow> 'g desk \<times> (client_error + folded_pr list)" where
  "load_prs P J C explicit dk s =
     (case open_repo C explicit dk s of
        Inl e \<Rightarrow> (dk, Inl e)
      | Inr (r, m) \<Rightarrow> apsnd (\<lambda>res. rbind res (\<lambda>msgs. Inr (snd (fold_collab_inbox msgs)))) (read_mail P J C (rr_id r) m dk s))"

definition find_issue ::
    "prims \<Rightarrow> inbox_json \<Rightarrow> 'h desk_client \<Rightarrow> string option \<Rightarrow> string \<Rightarrow> 'g desk \<Rightarrow> 'h \<Rightarrow> 'g desk \<times> (client_error + folded_issue)" where
  "find_issue P J C explicit ident dk s =
     apsnd (\<lambda>res. rbind res (\<lambda>issues. ok_or (bail ''issue not found in decrypted inbox'')
       (find (\<lambda>e. fi_id e = ident \<or> CHR ''#'' # fi_id e = ident) issues))) (load_issues P J C explicit dk s)"

definition find_pr ::
    "prims \<Rightarrow> inbox_json \<Rightarrow> 'h desk_client \<Rightarrow> string option \<Rightarrow> string \<Rightarrow> 'g desk \<Rightarrow> 'h \<Rightarrow> 'g desk \<times> (client_error + folded_pr)" where
  "find_pr P J C explicit ident dk s =
     apsnd (\<lambda>res. rbind res (\<lambda>prs. ok_or (bail ''PR not found in decrypted inbox'')
       (find (\<lambda>p. fp_id p = ident \<or> CHR ''#'' # fp_id p = ident) prs))) (load_prs P J C explicit dk s)"

section \<open>Issues\<close>

text \<open>\<open>gap\<close> is what other clients do between reading the inbox and enqueueing the message.\<close>

fun attach_labels ::
    "prims \<Rightarrow> inbox_json \<Rightarrow> 'h mls_client \<Rightarrow> (nat \<Rightarrow> bytes) \<Rightarrow> nat \<Rightarrow> epoch_material \<Rightarrow> string \<Rightarrow> string list \<Rightarrow> 'h \<Rightarrow>
     'h \<times> (client_error + unit)" where
  "attach_labels P J C nonces k m ident [] s = (s, Inr ())"
| "attach_labels P J C nonces k m ident (l # ls) s =
     (case enqueue_collab P J C (nonces k) m (Label l None (Some (''attached to issue '' @ ident)) ''create'') ''issue-label'' s of
        (s1, Inl e) \<Rightarrow> (s1, Inl e)
      | (s1, Inr _) \<Rightarrow> attach_labels P J C nonces (k + 1) m ident ls s1)"

definition issue_create ::
    "prims \<Rightarrow> inbox_json \<Rightarrow> 'h desk_client \<Rightarrow> (nat \<Rightarrow> bytes) \<Rightarrow> ('h \<Rightarrow> 'h) \<Rightarrow> string \<Rightarrow> string \<Rightarrow> string list \<Rightarrow> string option \<Rightarrow>
     'g desk \<Rightarrow> 'h \<Rightarrow> 'g desk \<times> 'h \<times> (client_error + string \<times> u64)" where
  "issue_create P J C nonces gap title body labels explicit dk s =
     (case open_repo C explicit dk s of
        Inl e \<Rightarrow> (dk, s, Inl e)
      | Inr (r, m) \<Rightarrow>
          (case read_mail P J C (rr_id r) m dk s of
             (dk1, Inl e) \<Rightarrow> (dk1, s, Inl e)
           | (dk1, Inr msgs) \<Rightarrow>
               (let ident = word_string (next_collab_number (map fi_id (fst (fold_collab_inbox msgs))))
                in case enqueue_collab P J (dc_mls C (rr_id r)) (nonces 0) m (Issue ident title body ''open'') ''issue'' (gap s) of
                     (s1, Inl e) \<Rightarrow> (dk1, s1, Inl e)
                   | (s1, Inr n) \<Rightarrow>
                       (case attach_labels P J (dc_mls C (rr_id r)) nonces 1 m ident labels s1 of
                          (s2, Inl e) \<Rightarrow> (dk1, s2, Inl e)
                        | (s2, Inr _) \<Rightarrow> (dk1, s2, Inr (ident, n))))))"

definition mark_issue ::
    "prims \<Rightarrow> inbox_json \<Rightarrow> 'h desk_client \<Rightarrow> bytes \<Rightarrow> string option \<Rightarrow> string \<Rightarrow> string \<Rightarrow> 'g desk \<Rightarrow> 'h \<Rightarrow>
     'g desk \<times> 'h \<times> (client_error + unit)" where
  "mark_issue P J C nonce explicit ident st dk s =
     (case open_repo C explicit dk s of
        Inl e \<Rightarrow> (dk, s, Inl e)
      | Inr (r, m) \<Rightarrow>
          (case find_issue P J C (Some (repo_name_display (rr_name r))) ident dk s of
             (dk1, Inl e) \<Rightarrow> (dk1, s, Inl e)
           | (dk1, Inr i) \<Rightarrow>
               (case enqueue_collab P J (dc_mls C (rr_id r)) nonce m (Issue (fi_id i) (fi_title i) [] st) ''issue-state'' s of
                  (s1, res) \<Rightarrow> (dk1, s1, rbind res (\<lambda>_. Inr ())))))"

definition issue_close where
  "issue_close P J C nonce explicit ident = mark_issue P J C nonce explicit ident ''closed''"

definition issue_reopen where
  "issue_reopen P J C nonce explicit ident = mark_issue P J C nonce explicit ident ''open''"

definition send_message ::
    "prims \<Rightarrow> inbox_json \<Rightarrow> 'h desk_client \<Rightarrow> bytes \<Rightarrow> string option \<Rightarrow> collab_message \<Rightarrow> string \<Rightarrow> 'g desk \<Rightarrow> 'h \<Rightarrow>
     'g desk \<times> 'h \<times> (client_error + u64)" where
  "send_message P J C nonce explicit msg hint dk s =
     (case open_repo C explicit dk s of
        Inl e \<Rightarrow> (dk, s, Inl e)
      | Inr (r, m) \<Rightarrow> (dk, enqueue_collab P J (dc_mls C (rr_id r)) nonce m msg hint s))"

definition issue_comment where
  "issue_comment P J C nonce explicit ident body = send_message P J C nonce explicit (Comment ''issue'' ident body) ''issue-comment''"

definition issue_edit ::
    "prims \<Rightarrow> inbox_json \<Rightarrow> 'h desk_client \<Rightarrow> bytes \<Rightarrow> string option \<Rightarrow> string \<Rightarrow> string option \<Rightarrow> string option \<Rightarrow> 'g desk \<Rightarrow> 'h \<Rightarrow>
     'g desk \<times> 'h \<times> (client_error + u64)" where
  "issue_edit P J C nonce explicit ident title body dk s =
     (case open_repo C explicit dk s of
        Inl e \<Rightarrow> (dk, s, Inl e)
      | Inr (r, m) \<Rightarrow>
          (case find_issue P J C (Some (repo_name_display (rr_name r))) ident dk s of
             (dk1, Inl e) \<Rightarrow> (dk1, s, Inl e)
           | (dk1, Inr i) \<Rightarrow>
               (dk1, enqueue_collab P J (dc_mls C (rr_id r)) nonce m
                  (Issue (fi_id i) (case title of Some t \<Rightarrow> t | None \<Rightarrow> fi_title i)
                     (case body of Some b \<Rightarrow> b | None \<Rightarrow> fi_body i) (fi_state i)) ''issue-edit'' s)))"

definition issue_delete ::
    "prims \<Rightarrow> inbox_json \<Rightarrow> 'h desk_client \<Rightarrow> (nat \<Rightarrow> bytes) \<Rightarrow> string option \<Rightarrow> string \<Rightarrow> bool \<Rightarrow> 'g desk \<Rightarrow> 'h \<Rightarrow>
     'g desk \<times> 'h \<times> (client_error + u64)" where
  "issue_delete P J C nonces explicit ident yes dk s =
     (if \<not> yes then (dk, s, Inl (bail ''refusing to delete without --yes''))
      else case mark_issue P J C (nonces 0) explicit ident ''closed'' dk s of
             (dk1, s1, Inl e) \<Rightarrow> (dk1, s1, Inl e)
           | (dk1, s1, Inr _) \<Rightarrow> send_message P J C (nonces 1) explicit (Comment ''issue'' ident ''[deleted]'') ''issue-delete'' dk1 s1)"

definition shown_issues :: "string option \<Rightarrow> folded_issue list \<Rightarrow> folded_issue list" where
  "shown_issues state issues =
     (let flt = (case state of Some st \<Rightarrow> st | None \<Rightarrow> ''open'') in filter (\<lambda>i. \<not> (flt \<noteq> ''all'' \<and> fi_state i \<noteq> flt)) issues)"

definition issue_counts :: "folded_issue list \<Rightarrow> nat \<times> nat" where
  "issue_counts issues =
     (length (filter (\<lambda>i. fi_state i = ''open'') issues), length (filter (\<lambda>i. fi_state i = ''closed'') issues))"

section \<open>Pull requests\<close>

definition pr_create ::
    "prims \<Rightarrow> inbox_json \<Rightarrow> 'h desk_client \<Rightarrow> bytes \<Rightarrow> ('h \<Rightarrow> 'h) \<Rightarrow> string \<Rightarrow> string \<Rightarrow> string \<Rightarrow> string \<Rightarrow> string option \<Rightarrow>
     'g desk \<Rightarrow> 'h \<Rightarrow> 'g desk \<times> 'h \<times> (client_error + string \<times> u64)" where
  "pr_create P J C nonce gap title body base head explicit dk s =
     (case open_repo C explicit dk s of
        Inl e \<Rightarrow> (dk, s, Inl e)
      | Inr (r, m) \<Rightarrow>
          (case read_mail P J C (rr_id r) m dk s of
             (dk1, Inl e) \<Rightarrow> (dk1, s, Inl e)
           | (dk1, Inr msgs) \<Rightarrow>
               (let ident = word_string (next_collab_number (map fp_id (snd (fold_collab_inbox msgs))))
                in case enqueue_collab P J (dc_mls C (rr_id r)) nonce m (PullRequest ident head base title body ''open'')
                          ''pr-create'' (gap s) of
                     (s1, res) \<Rightarrow> (dk1, s1, rbind res (\<lambda>n. Inr (ident, n))))))"

definition mark_pr ::
    "prims \<Rightarrow> inbox_json \<Rightarrow> 'h desk_client \<Rightarrow> bytes \<Rightarrow> repo_record \<Rightarrow> folded_pr \<Rightarrow> string \<Rightarrow> 'g desk \<Rightarrow> 'h \<Rightarrow> 'h \<times> (client_error + unit)" where
  "mark_pr P J C nonce r p st dk s =
     (case material_for dk (rr_id r) of
        Inl e \<Rightarrow> (s, Inl e)
      | Inr m \<Rightarrow> apsnd (\<lambda>res. rbind res (\<lambda>_. Inr ()))
          (enqueue_collab P J (dc_mls C (rr_id r)) nonce m
             (PullRequest (fp_id p) (fp_head p) (fp_base p) (fp_title p) [] st) ''pr-state'' s))"

text \<open>Resolve the repository, find the pull request in the inbox, and go on with both.\<close>

definition with_pr ::
    "prims \<Rightarrow> inbox_json \<Rightarrow> 'h desk_client \<Rightarrow> string option \<Rightarrow> string \<Rightarrow> (repo_record \<Rightarrow> folded_pr \<Rightarrow> 'g desk \<Rightarrow> 'h \<Rightarrow> 'g desk \<times> 'h \<times> (client_error + 'r)) \<Rightarrow>
     'g desk \<Rightarrow> 'h \<Rightarrow> 'g desk \<times> 'h \<times> (client_error + 'r)" where
  "with_pr P J C explicit ident body dk s =
     (case resolve_repo C explicit dk s of
        Inl e \<Rightarrow> (dk, s, Inl e)
      | Inr r \<Rightarrow>
          (case find_pr P J C (Some (repo_name_display (rr_name r))) ident dk s of
             (dk1, Inl e) \<Rightarrow> (dk1, s, Inl e)
           | (dk1, Inr p) \<Rightarrow> body r p dk1 s))"

definition pr_close where
  "pr_close P J C nonce explicit ident = with_pr P J C explicit ident (\<lambda>r p dk s. (dk, mark_pr P J C nonce r p ''closed'' dk s))"

definition pr_reopen where
  "pr_reopen P J C nonce explicit ident = with_pr P J C explicit ident (\<lambda>r p dk s. (dk, mark_pr P J C nonce r p ''open'' dk s))"

definition pr_review where
  "pr_review P J C nonce explicit ident verdict body = send_message P J C nonce explicit (Review ident verdict body) ''pr-review''"

definition pr_comment where
  "pr_comment P J C nonce explicit ident body = send_message P J C nonce explicit (Comment ''pr'' ident body) ''pr-comment''"

definition pr_edit ::
    "prims \<Rightarrow> inbox_json \<Rightarrow> 'h desk_client \<Rightarrow> bytes \<Rightarrow> string option \<Rightarrow> string \<Rightarrow> string option \<Rightarrow> string option \<Rightarrow> string option \<Rightarrow>
     string option \<Rightarrow> 'g desk \<Rightarrow> 'h \<Rightarrow> 'g desk \<times> 'h \<times> (client_error + u64)" where
  "pr_edit P J C nonce explicit ident title body base head dk s =
     (case open_repo C explicit dk s of
        Inl e \<Rightarrow> (dk, s, Inl e)
      | Inr (r, m) \<Rightarrow>
          (case find_pr P J C (Some (repo_name_display (rr_name r))) ident dk s of
             (dk1, Inl e) \<Rightarrow> (dk1, s, Inl e)
           | (dk1, Inr p) \<Rightarrow>
               (dk1, enqueue_collab P J (dc_mls C (rr_id r)) nonce m
                  (PullRequest (fp_id p) (case head of Some h \<Rightarrow> h | None \<Rightarrow> fp_head p) (case base of Some b \<Rightarrow> b | None \<Rightarrow> fp_base p)
                     (case title of Some t \<Rightarrow> t | None \<Rightarrow> fp_title p) (case body of Some b \<Rightarrow> b | None \<Rightarrow> fp_body p) (fp_state p))
                  ''pr-edit'' s)))"

definition shown_prs :: "string option \<Rightarrow> folded_pr list \<Rightarrow> folded_pr list" where
  "shown_prs state prs =
     (let flt = (case state of Some st \<Rightarrow> st | None \<Rightarrow> ''open'') in filter (\<lambda>p. \<not> (flt \<noteq> ''all'' \<and> fp_state p \<noteq> flt)) prs)"

definition pr_counts :: "folded_pr list \<Rightarrow> nat \<times> nat \<times> nat" where
  "pr_counts prs =
     (length (filter (\<lambda>p. fp_state p = ''open'') prs), length (filter (\<lambda>p. fp_state p = ''closed'') prs),
      length (filter (\<lambda>p. fp_state p = ''merged'') prs))"

section \<open>Pull requests and the working tree\<close>

text \<open>The git commands these subcommands run; \<open>pg_switch branch start\<close> is \<^verbatim>\<open>git checkout -B\<close>.\<close>

record 'g pr_git =
  pg_fetch :: "bytes \<Rightarrow> 'g \<Rightarrow> 'g"
  pg_switch :: "string \<Rightarrow> string \<Rightarrow> 'g \<Rightarrow> 'g \<times> bool"
  pg_checkout :: "string \<Rightarrow> 'g \<Rightarrow> 'g"
  pg_merge_no_ff :: "string \<Rightarrow> string \<Rightarrow> 'g \<Rightarrow> 'g \<times> bool"
  pg_diff :: "string \<Rightarrow> 'g \<Rightarrow> bool"

definition on_git :: "('g \<Rightarrow> 'g) \<Rightarrow> 'g desk \<Rightarrow> 'g desk" where
  "on_git f dk = dk\<lparr>dk_co := (dk_co dk)\<lparr>co_git := f (co_git (dk_co dk))\<rparr>\<rparr>"

datatype pr_checkout_result = From_tip oid | From_local | By_hand

definition pr_tip_oid :: "refs_map \<Rightarrow> string \<Rightarrow> oid option" where
  "pr_tip_oid refs head =
     (case map_of refs (''refs/heads/'' @ head) of Some o1 \<Rightarrow> Some o1 | None \<Rightarrow> map_of refs head)"

definition pr_checkout ::
    "prims \<Rightarrow> inbox_json \<Rightarrow> 'h desk_client \<Rightarrow> hex_codec \<Rightarrow> refs_json \<Rightarrow> (repo_id \<Rightarrow> 'h repo_client) \<Rightarrow> push_draw \<Rightarrow> 'g pr_git \<Rightarrow>
     string option \<Rightarrow> string \<Rightarrow> 'g desk \<Rightarrow> 'h \<Rightarrow> 'g desk \<times> 'h \<times> (client_error + pr_checkout_result)" where
  "pr_checkout P J C X RJ RC dr G explicit ident =
     with_pr P J C explicit ident (\<lambda>r p dk s.
       let head = fp_head p; branch = ''pr-'' @ ident;
           tip = (case material_for dk (rr_id r) of
                    Inl _ \<Rightarrow> None
                  | Inr m \<Rightarrow> (case tip_of P X RJ (RC (rr_id r)) dr (rr_id r) m s of Inr (Some f) \<Rightarrow> Some f | _ \<Rightarrow> None));
           dk1 = (case tip of Some f \<Rightarrow> on_git (pg_fetch G (fr_bundle f)) dk | None \<Rightarrow> dk)
       in case (case tip of Some f \<Rightarrow> pr_tip_oid (er_refs (fr_refs f)) head | None \<Rightarrow> None) of
            Some o1 \<Rightarrow> (on_git (\<lambda>g. fst (pg_switch G branch o1 g)) dk1, s, Inr (From_tip o1))
          | None \<Rightarrow>
              (case pg_switch G branch head (co_git (dk_co dk1)) of
                 (g, ok) \<Rightarrow> (on_git (\<lambda>_. g) dk1, s, Inr (if ok then From_local else By_hand))))"

definition pr_diff ::
    "prims \<Rightarrow> inbox_json \<Rightarrow> 'h desk_client \<Rightarrow> 'g pr_git \<Rightarrow> string option \<Rightarrow> string \<Rightarrow> 'g desk \<Rightarrow> 'h \<Rightarrow>
     'g desk \<times> 'h \<times> (client_error + unit)" where
  "pr_diff P J C G explicit ident =
     with_pr P J C explicit ident (\<lambda>r p dk s.
       (dk, s, if pg_diff G (fp_base p @ ''...'' @ fp_head p) (co_git (dk_co dk)) then Inr ()
               else Inl (bail ''git diff failed'')))"

datatype merge_result = Merged push_done | Push_deferred client_error | Marked_only

definition pr_merge ::
    "prims \<Rightarrow> inbox_json \<Rightarrow> 'h desk_client \<Rightarrow> bytes \<Rightarrow> 'g pr_git \<Rightarrow>
     (device \<Rightarrow> 'g checkout \<Rightarrow> 'h \<Rightarrow> 'g checkout \<times> 'h \<times> (client_error + push_done)) \<Rightarrow>
     string option \<Rightarrow> string \<Rightarrow> 'g desk \<Rightarrow> 'h \<Rightarrow> 'g desk \<times> 'h \<times> (client_error + merge_result)" where
  "pr_merge P J C nonce G push explicit ident =
     with_pr P J C explicit ident (\<lambda>r p dk s.
       case mark_pr P J C nonce r p ''merged'' dk s of
         (s1, Inl e) \<Rightarrow> (dk, s1, Inl e)
       | (s1, Inr _) \<Rightarrow>
           (case pg_merge_no_ff G (fp_head p) (''Merge PR #'' @ ident) (pg_checkout G (fp_base p) (co_git (dk_co dk))) of
              (g, False) \<Rightarrow> (on_git (\<lambda>_. g) dk, s1, Inr Marked_only)
            | (g, True) \<Rightarrow>
                (case push (dk_dv dk) ((dk_co dk)\<lparr>co_git := g\<rparr>) s1 of
                   (co, s2, Inr done) \<Rightarrow> (dk\<lparr>dk_co := co\<rparr>, s2, Inr (Merged done))
                 | (co, s2, Inl e) \<Rightarrow> (dk\<lparr>dk_co := co\<rparr>, s2, Inr (Push_deferred e)))))"

text \<open>\<^verbatim>\<open>push::run("sit", "HEAD")\<close>, what a merge runs.\<close>

definition push_head ::
    "prims \<Rightarrow> hex_codec \<Rightarrow> refs_json \<Rightarrow> 'g git_ops \<Rightarrow> ('i, 'gr, 'k, 'w, 'm, 'c) openmls \<Rightarrow> 'h repo_client \<Rightarrow> (nat \<Rightarrow> push_draw) \<Rightarrow>
     ('h \<Rightarrow> 'h) \<Rightarrow> (nat \<Rightarrow> bool \<Rightarrow> 'h \<Rightarrow> 'h) \<Rightarrow> device \<Rightarrow> 'g checkout \<Rightarrow> 'h \<Rightarrow> 'g checkout \<times> 'h \<times> (client_error + push_done)" where
  "push_head P X RJ G M RC draws gap env dv co s = cmd_push P X RJ G M RC draws gap env ''HEAD'' False dv co s"

text \<open>\<^verbatim>\<open>str::contains\<close>.\<close>

definition contains_str :: "string \<Rightarrow> string \<Rightarrow> bool" where
  "contains_str pat s = list_ex (\<lambda>k. take (length pat) (drop k s) = pat) [0..<Suc (length s)]"

definition related_verdict :: "string \<Rightarrow> string \<Rightarrow> u64 \<times> collab_message \<Rightarrow> (string \<times> string \<times> string \<times> string) list" where
  "related_verdict ident pr x =
     (case snd x of
        CiVerdict commit status summary run \<Rightarrow>
          (if (case run of Some r \<Rightarrow> contains_str ident r \<or> contains_str pr r | None \<Rightarrow> True)
           then [(status, commit, (case run of Some r \<Rightarrow> r | None \<Rightarrow> ''-''), summary)] else [])
      | _ \<Rightarrow> [])"

definition pr_checks ::
    "prims \<Rightarrow> inbox_json \<Rightarrow> 'h desk_client \<Rightarrow> string option \<Rightarrow> string \<Rightarrow> 'g desk \<Rightarrow> 'h \<Rightarrow>
     'g desk \<times> (client_error + (string \<times> string \<times> string \<times> string) list)" where
  "pr_checks P J C explicit ident dk s =
     (case open_repo C explicit dk s of
        Inl e \<Rightarrow> (dk, Inl e)
      | Inr (r, m) \<Rightarrow>
          (case sync_inbox P J (\<lambda>a. mc_fetch (dc_mls C (rr_id r)) a s) m (dk_inbox dk (rr_id r)) of
             (ib, Inl e) \<Rightarrow> (dk\<lparr>dk_inbox := (dk_inbox dk)(rr_id r := ib)\<rparr>, Inl e)
           | (ib, Inr _) \<Rightarrow>
               (case find_pr P J C (Some (repo_name_display (rr_name r))) ident (dk\<lparr>dk_inbox := (dk_inbox dk)(rr_id r := ib)\<rparr>) s of
                  (dk1, Inl e) \<Rightarrow> (dk1, Inl e)
                | (dk1, Inr p) \<Rightarrow>
                    (dk1, rbind (read_inbox_cache J (dk_inbox dk1 (rr_id r)))
                       (\<lambda>msgs. Inr (concat (map (related_verdict ident (fp_id p)) msgs)))))))"

section \<open>The inbox command\<close>

fun message_kind :: "collab_message \<Rightarrow> string" where
  "message_kind (PullRequest _ _ _ _ _ _) = ''pr''"
| "message_kind (Issue _ _ _ _) = ''issue''"
| "message_kind (Review _ _ _) = ''review''"
| "message_kind (CiVerdict _ _ _ _) = ''ci''"
| "message_kind (Release _ _ _ _ _) = ''release''"
| "message_kind (Label _ _ _ _) = ''label''"
| "message_kind (Milestone _ _ _) = ''milestone''"
| "message_kind (Secret _ _ _ _) = ''secret''"
| "message_kind (Variable _ _ _) = ''variable''"
| "message_kind (Gist _ _ _ _) = ''gist''"
| "message_kind (Project _ _ _ _) = ''project''"
| "message_kind (CodespaceConfig _ _ _) = ''codespace''"
| "message_kind (WorkflowRun _ _ _ _) = ''workflow_run''"
| "message_kind (OrgDirectory _ _ _) = ''org''"
| "message_kind (Comment _ _ _) = ''comment''"

fun message_summary :: "collab_message \<Rightarrow> string" where
  "message_summary (PullRequest i _ _ ti _ _) = i @ '' '' @ ti"
| "message_summary (Issue i ti _ _) = i @ '' '' @ ti"
| "message_summary (Review i v _) = i @ '' '' @ v"
| "message_summary (CiVerdict c st _ _) = st @ '' '' @ c"
| "message_summary (Release tag ti _ _ _) = tag @ '' '' @ ti"
| "message_summary (Label nm _ _ act) = act @ '' '' @ nm"
| "message_summary (Milestone ti _ st) = st @ '' '' @ ti"
| "message_summary (Secret nm _ _ act) = act @ '' '' @ nm"
| "message_summary (Variable nm _ act) = act @ '' '' @ nm"
| "message_summary (Gist i _ _ act) = act @ '' '' @ i"
| "message_summary (Project i ti _ _) = i @ '' '' @ ti"
| "message_summary (CodespaceConfig nm _ act) = act @ '' '' @ nm"
| "message_summary (WorkflowRun i w st _) = i @ '' '' @ w @ '' '' @ st"
| "message_summary (OrgDirectory org ms _) = org @ '' members='' @ dec_string (length ms)"
| "message_summary (Comment kind i _) = kind @ '' '' @ i"

definition inbox_list ::
    "prims \<Rightarrow> inbox_json \<Rightarrow> 'h desk_client \<Rightarrow> string option \<Rightarrow> 'g desk \<Rightarrow> 'h \<Rightarrow> 'g desk \<times> (client_error + (u64 \<times> string \<times> string) list)" where
  "inbox_list P J C explicit dk s =
     (case open_repo C explicit dk s of
        Inl e \<Rightarrow> (dk, Inl e)
      | Inr (r, m) \<Rightarrow> apsnd (\<lambda>res. rbind res (\<lambda>msgs. Inr (map (\<lambda>(n, msg). (n, message_kind msg, message_summary msg)) msgs)))
          (read_mail P J C (rr_id r) m dk s))"

definition inbox_sync ::
    "prims \<Rightarrow> inbox_json \<Rightarrow> 'h desk_client \<Rightarrow> string option \<Rightarrow> 'g desk \<Rightarrow> 'h \<Rightarrow> 'g desk \<times> (client_error + nat)" where
  "inbox_sync P J C explicit dk s =
     (case open_repo C explicit dk s of
        Inl e \<Rightarrow> (dk, Inl e)
      | Inr (r, m) \<Rightarrow>
          (case sync_inbox P J (\<lambda>a. mc_fetch (dc_mls C (rr_id r)) a s) m (dk_inbox dk (rr_id r)) of
             (ib, res) \<Rightarrow> (dk\<lparr>dk_inbox := (dk_inbox dk)(rr_id r := ib)\<rparr>, rbind res (\<lambda>out. Inr (length out)))))"

section \<open>What a caught-up device shows\<close>

text \<open>The messages of a queue that open under one epoch MAC key.\<close>

definition mail :: "prims \<Rightarrow> inbox_json \<Rightarrow> bytes \<Rightarrow> mls_envelope list \<Rightarrow> (u64 \<times> collab_message) list" where
  "mail P J k envs = List.map_filter (\<lambda>e.
     case map_err AeadErr (aead_open P k (domain_label ''collab'') (env_payload e)) of
       Inl _ \<Rightarrow> None | Inr pt \<Rightarrow> map_option (Pair (env_seq e)) (ij_parse J pt)) envs"

lemma mail_snoc:
  "mail P J k (envs @ [e]) = mail P J k envs @
     (case map_err AeadErr (aead_open P k (domain_label ''collab'') (env_payload e)) of
       Inl _ \<Rightarrow> [] | Inr pt \<Rightarrow> (case ij_parse J pt of None \<Rightarrow> [] | Some msg \<Rightarrow> [(env_seq e, msg)]))"
  by (simp add: mail_def map_filter_def split: sum.split option.split)

lemma opened_mail:
  "length ms = length envs \<Longrightarrow> \<forall>m \<in> set ms. em_refs_mac m = k \<Longrightarrow>
     List.map_filter (opened P J) (zip ms envs) = mail P J k envs"
proof (induction ms envs rule: list_induct2)
  case (Cons m ms e envs)
  then show ?case by (simp add: mail_def map_filter_simps opened_def open_collab_def split: sum.split option.split)
qed (simp add: mail_def map_filter_simps)

text \<open>A device that holds \<open>k\<close> and has read the whole queue.\<close>

definition caught_up :: "prims \<Rightarrow> inbox_json \<Rightarrow> hex_codec \<Rightarrow> token_record \<Rightarrow> repo_id \<Rightarrow> bytes \<Rightarrow> server_state \<Rightarrow> inbox \<Rightarrow> bool" where
  "caught_up P J X au repo k sv ib \<longleftrightarrow>
     (\<exists>mats. inbox_run P J X au repo sv ib mats \<and> length mats = length (queue_of repo sv) \<and> (\<forall>m \<in> set mats. em_refs_mac m = k))"

lemma caught_up_cache:
  assumes "caught_up P J X au repo k sv ib" and "json_reads_back J"
  shows "read_inbox_cache J ib = Inr (mail P J k (queue_of repo sv))"
  using assms inbox_run_cache [OF _ assms(2)] by (auto simp: caught_up_def opened_mail)

text \<open>The issues that the members see: one function of the queue, stepped by every message.\<close>

definition tracker :: "prims \<Rightarrow> inbox_json \<Rightarrow> bytes \<Rightarrow> repo_id \<Rightarrow> server_state \<Rightarrow> string \<Rightarrow> folded_issue option" where
  "tracker P J k repo sv i = issue_now i (map snd (mail P J k (queue_of repo sv)))"

definition unless_empty :: "string \<Rightarrow> string \<Rightarrow> string" where
  "unless_empty new old = (if new \<noteq> [] then new else old)"

fun issue_step :: "collab_message \<Rightarrow> (string \<Rightarrow> folded_issue option) \<Rightarrow> string \<Rightarrow> folded_issue option" where
  "issue_step (Issue i ti bo st) f =
     f(i \<mapsto> (case f i of
       None \<Rightarrow> \<lparr>fi_id = i, fi_title = ti, fi_body = bo, fi_state = st, fi_comments = []\<rparr>
     | Some e \<Rightarrow> e\<lparr>fi_title := unless_empty ti (fi_title e), fi_body := unless_empty bo (fi_body e),
                   fi_state := unless_empty st (fi_state e)\<rparr>))"
| "issue_step (Comment kind i bo) f =
     (if kind = ''issue'' then f(i := map_option (\<lambda>e. e\<lparr>fi_comments := fi_comments e @ [bo]\<rparr>) (f i)) else f)"
| "issue_step _ f = f"

lemma issue_now_snoc: "(\<lambda>i. issue_now i (ms @ [m])) = issue_step m (\<lambda>i. issue_now i ms)"
proof
  fix i
  let ?us = "concat (map (issue_update i) ms)"
  show "issue_now i (ms @ [m]) = issue_step m (\<lambda>i. issue_now i ms) i"
    by (cases m; cases "?us = []")
      (auto simp: issue_now_def later_snoc unless_empty_def Let_def simp del: concat_eq_Nil_conv)
qed

lemma issue_now_id: "issue_now i ms = Some e \<Longrightarrow> fi_id e = i"
  by (auto simp: issue_now_def Let_def split: if_splits)

text \<open>The commands over the handlers.\<close>

definition http_desk ::
    "prims \<Rightarrow> head_json \<Rightarrow> hex_codec \<Rightarrow> blob_parsers \<Rightarrow> (blob_meta \<Rightarrow> string) \<Rightarrow> token_record \<Rightarrow> server_state desk_client" where
  "http_desk P HJ X B show_meta au = \<lparr>dc_mls = http_mls_client P HJ X B show_meta au, dc_get_repo = http_get_repo au\<rparr>"

lemma enqueue_mail:
  assumes "http_queue X au repo sv" and "http_queue X au2 repo sv" and "length (queue_of repo sv) + 1 < 2 ^ 64"
    and "json_reads_back J"
  obtains sv' n where "enqueue_collab P J (http_mls_client P HJ X B show_meta au repo) nonce m msg hint sv = (sv', Inr n)"
    "http_queue X au2 repo sv'" "\<exists>env. queue_of repo sv' = queue_of repo sv @ [env]"
    "mail P J (em_refs_mac m) (queue_of repo sv') = mail P J (em_refs_mac m) (queue_of repo sv) @ [(of_nat (length (queue_of repo sv)) + 1, msg)]"
proof -
  obtain sealed where sealed: "seal_collab P nonce m (ij_print J msg) = Inr sealed"
    using seal_with_nonce_ok [of P "em_refs_mac m" "domain_label ''collab''" "ij_print J msg" "fix_len 12 nonce"]
    by (auto simp: seal_collab_def aead_seal_def)
  obtain sv' n where enq: "http_mls_enqueue X au repo sealed (Some hint) sv = (sv', Inr n)"
    using assms(1) by (auto simp: http_mls_enqueue_def mls_enqueue_def http_queue_def gate_cases case_prod_beta)
  from http_mls_enqueue_queue [OF assms(2,3) enq] obtain env where
    q: "http_queue X au2 repo sv'" "env_payload env = sealed" "queue_of repo sv' = queue_of repo sv @ [env]" by blast
  have "env_seq env = of_nat (length (queue_of repo sv)) + 1"
    using queue_seqs(1) [OF q(1), of "length (queue_of repo sv)"] by (simp add: q(3))
  moreover have "map_err AeadErr (aead_open P (em_refs_mac m) (domain_label ''collab'') sealed) = Inr (ij_print J msg)"
    using open_collab_sealed [OF sealed] by (simp add: open_collab_def)
  ultimately have "mail P J (em_refs_mac m) (queue_of repo sv') =
      mail P J (em_refs_mac m) (queue_of repo sv) @ [(of_nat (length (queue_of repo sv)) + 1, msg)]"
    using assms(4) by (simp add: q(2,3) mail_snoc json_reads_back_def)
  moreover have "enqueue_collab P J (http_mls_client P HJ X B show_meta au repo) nonce m msg hint sv = (sv', Inr n)"
    using enq by (simp add: enqueue_collab_def sealed http_mls_client_def)
  ultimately show thesis using that q by blast
qed

text \<open>
  A desk that is ready to work on \<open>repo\<close>: the repository resolves, the device holds material with the
  key \<open>k\<close>, its inbox was only ever read with that key, and one page brings it up to date.
\<close>

definition ready ::
    "prims \<Rightarrow> inbox_json \<Rightarrow> hex_codec \<Rightarrow> server_state desk_client \<Rightarrow> token_record \<Rightarrow> string option \<Rightarrow> repo_record \<Rightarrow> epoch_material \<Rightarrow>
     'g desk \<Rightarrow> server_state \<Rightarrow> bool" where
  "ready P J X C au explicit r m dk sv \<longleftrightarrow>
     open_repo C explicit dk sv = Inr (r, m) \<and> repo_name_parse (repo_name_display (rr_name r)) = Some (rr_name r) \<and>
     (\<exists>r2. dc_get_repo C (rr_name r) sv = Inr r2 \<and> rr_id r2 = rr_id r) \<and>
     (\<exists>mats. inbox_run P J X au (rr_id r) sv (dk_inbox dk (rr_id r)) mats \<and> (\<forall>m' \<in> set mats. em_refs_mac m' = em_refs_mac m) \<and>
        length (queue_of (rr_id r) sv) \<le> length mats + 100)"

lemma ready_reads:
  assumes "ready P J X (http_desk P HJ X B show_meta au) au explicit r m dk sv" and "json_reads_back J"
  obtains dk' where
    "read_mail P J (http_desk P HJ X B show_meta au) (rr_id r) m dk sv = (dk', Inr (mail P J (em_refs_mac m) (queue_of (rr_id r) sv)))"
    "ready P J X (http_desk P HJ X B show_meta au) au explicit r m dk' sv"
    "caught_up P J X au (rr_id r) (em_refs_mac m) sv (dk_inbox dk' (rr_id r))" "dk_dv dk' = dk_dv dk" "dk_co dk' = dk_co dk"
proof -
  let ?C = "http_desk P HJ X B show_meta au" and ?repo = "rr_id r"
  obtain mats where run: "inbox_run P J X au ?repo sv (dk_inbox dk ?repo) mats" "\<forall>m' \<in> set mats. em_refs_mac m' = em_refs_mac m"
    "length (queue_of ?repo sv) \<le> length mats + 100" using assms(1) by (auto simp: ready_def)
  obtain ib res where s: "sync_inbox P J (\<lambda>a. http_mls_fetch X au ?repo a sv) m (dk_inbox dk ?repo) = (ib, res)" by fastforce
  have holds: "http_queue X au ?repo sv" "inbox_holds P J (queue_of ?repo sv) mats (dk_inbox dk ?repo)"
    using inbox_run_holds [OF run(1) assms(2)] by auto
  obtain out where res: "res = Inr out" using sync_holds [OF holds(1) assms(2) holds(2) s] by blast
  have len: "length mats \<le> length (queue_of ?repo sv)" using holds(2) by (simp add: inbox_holds_def)
  define mats' where "mats' = mats @ replicate (min 100 (length (queue_of ?repo sv) - length mats)) m"
  have run': "inbox_run P J X au ?repo sv ib mats'" using inbox_run.sync [OF run(1) s] by (simp add: mats'_def)
  have full: "length mats' = length (queue_of ?repo sv)" "\<forall>m' \<in> set mats'. em_refs_mac m' = em_refs_mac m"
    using run(2,3) len by (auto simp: mats'_def)
  have up: "caught_up P J X au ?repo (em_refs_mac m) sv ib" using run' full by (auto simp: caught_up_def)
  have "read_mail P J ?C ?repo m dk sv =
      (dk\<lparr>dk_inbox := (dk_inbox dk)(?repo := ib)\<rparr>, Inr (mail P J (em_refs_mac m) (queue_of ?repo sv)))"
    using s res caught_up_cache [OF up assms(2)] by (simp add: read_mail_def http_desk_def http_mls_client_def)
  moreover have "ready P J X ?C au explicit r m (dk\<lparr>dk_inbox := (dk_inbox dk)(?repo := ib)\<rparr>) sv"
    using assms(1) run' full
    by (auto simp: ready_def open_repo_def resolve_repo_def material_for_def intro!: exI [of _ mats'] split: option.splits)
  ultimately show thesis using that up by simp
qed

text \<open>A reader of the folded inbox sees the tracker.\<close>

theorem caught_up_shows_tracker:
  assumes "caught_up P J X au repo k sv ib" and "json_reads_back J"
  shows "\<exists>msgs. read_inbox_cache J ib = Inr msgs \<and> find (\<lambda>e. fi_id e = i) (fst (fold_collab_inbox msgs)) = tracker P J k repo sv i"
  using caught_up_cache [OF assms] find_folded_issue by (auto simp: tracker_def)

definition plain_ident :: "string \<Rightarrow> bool" where
  "plain_ident ident \<longleftrightarrow> (case ident of [] \<Rightarrow> True | c # _ \<Rightarrow> c \<noteq> CHR ''#'')"

lemma ready_finds:
  assumes "ready P J X (http_desk P HJ X B show_meta au) au explicit r m dk sv" and "json_reads_back J" and "plain_ident ident"
  obtains dk' where
    "find_issue P J (http_desk P HJ X B show_meta au) (Some (repo_name_display (rr_name r))) ident dk sv =
       (dk', ok_or (bail ''issue not found in decrypted inbox'') (tracker P J (em_refs_mac m) (rr_id r) sv ident))"
    "ready P J X (http_desk P HJ X B show_meta au) au explicit r m dk' sv"
proof -
  let ?C = "http_desk P HJ X B show_meta au"
  obtain dk' where mail: "read_mail P J ?C (rr_id r) m dk sv = (dk', Inr (mail P J (em_refs_mac m) (queue_of (rr_id r) sv)))"
    "ready P J X ?C au explicit r m dk' sv"
    by (rule ready_reads [OF assms(1,2)])
  obtain r2 where r2: "dc_get_repo ?C (rr_name r) sv = Inr r2" "rr_id r2 = rr_id r" using assms(1) by (auto simp: ready_def)
  have "open_repo ?C (Some (repo_name_display (rr_name r))) dk sv = Inr (r2, m)"
    using assms(1) r2 by (auto simp: ready_def open_repo_def resolve_repo_def rbind_Inr_conv ok_or_def)
  then have "load_issues P J ?C (Some (repo_name_display (rr_name r))) dk sv =
      (dk', Inr (fst (fold_collab_inbox (mail P J (em_refs_mac m) (queue_of (rr_id r) sv)))))"
    using mail(1) by (simp add: load_issues_def r2(2))
  moreover have "CHR ''#'' # x \<noteq> ident" for x using assms(3) by (auto simp: plain_ident_def)
  ultimately have "find_issue P J ?C (Some (repo_name_display (rr_name r))) ident dk sv =
      (dk', ok_or (bail ''issue not found in decrypted inbox'') (tracker P J (em_refs_mac m) (rr_id r) sv ident))"
    by (simp add: find_issue_def find_folded_issue tracker_def)
  with that mail(2) show thesis by blast
qed

lemma ready_queue:
  assumes "ready P J X C au explicit r m dk sv" and "json_reads_back J"
  shows "http_queue X au (rr_id r) sv"
  using assms inbox_run_holds [OF _ assms(2)] by (auto simp: ready_def)

lemma tracker_step:
  assumes "mail P J k (queue_of repo sv') = mail P J k (queue_of repo sv) @ [(n, msg)]"
  shows "tracker P J k repo sv' = issue_step msg (tracker P J k repo sv)"
proof -
  have "tracker P J k repo s = (\<lambda>i. issue_now i (map snd (mail P J k (queue_of repo s))))" for s
    by (simp add: tracker_def fun_eq_iff)
  then show ?thesis using issue_now_snoc [of "map snd (mail P J k (queue_of repo sv))" msg] assms by simp
qed

text \<open>The commands on an existing issue, and what each is to do to the tracker.\<close>

datatype issue_cmd = Close string | Reopen string | Say string string | Edit string "string option" "string option"

fun issue_ident :: "issue_cmd \<Rightarrow> string" where
  "issue_ident (Close i) = i" | "issue_ident (Reopen i) = i" | "issue_ident (Say i _) = i" | "issue_ident (Edit i _ _) = i"

fun run_issue ::
    "prims \<Rightarrow> inbox_json \<Rightarrow> 'h desk_client \<Rightarrow> bytes \<Rightarrow> string option \<Rightarrow> issue_cmd \<Rightarrow> 'g desk \<Rightarrow> 'h \<Rightarrow> 'g desk \<times> 'h \<times> (client_error + unit)" where
  "run_issue P J C nonce explicit (Close i) dk s = issue_close P J C nonce explicit i dk s"
| "run_issue P J C nonce explicit (Reopen i) dk s = issue_reopen P J C nonce explicit i dk s"
| "run_issue P J C nonce explicit (Say i body) dk s =
     apsnd (apsnd (\<lambda>res. rbind res (\<lambda>_. Inr ()))) (issue_comment P J C nonce explicit i body dk s)"
| "run_issue P J C nonce explicit (Edit i ti bo) dk s =
     apsnd (apsnd (\<lambda>res. rbind res (\<lambda>_. Inr ()))) (issue_edit P J C nonce explicit i ti bo dk s)"

fun abs_issue :: "issue_cmd \<Rightarrow> (string \<Rightarrow> folded_issue option) \<Rightarrow> (string \<Rightarrow> folded_issue option) option" where
  "abs_issue (Close i) f = map_option (\<lambda>e. f(i \<mapsto> e\<lparr>fi_state := ''closed''\<rparr>)) (f i)"
| "abs_issue (Reopen i) f = map_option (\<lambda>e. f(i \<mapsto> e\<lparr>fi_state := ''open''\<rparr>)) (f i)"
| "abs_issue (Say i body) f = Some (f(i := map_option (\<lambda>e. e\<lparr>fi_comments := fi_comments e @ [body]\<rparr>) (f i)))"
| "abs_issue (Edit i ti bo) f =
     map_option (\<lambda>e. f(i \<mapsto> e\<lparr>fi_title := unless_empty (case ti of Some t \<Rightarrow> t | None \<Rightarrow> []) (fi_title e),
                             fi_body := unless_empty (case bo of Some b \<Rightarrow> b | None \<Rightarrow> []) (fi_body e)\<rparr>)) (f i)"

lemma unless_empty_simps [simp]: "unless_empty x x = x" "unless_empty [] x = x"
  by (simp_all add: unless_empty_def)

lemma set_state_refines:
  assumes "ready P J X (http_desk P HJ X B show_meta au) au explicit r m dk sv" and "json_reads_back J" and "plain_ident i"
    and "length (queue_of (rr_id r) sv) + 1 < 2 ^ 64" and "st \<noteq> []"
  shows "\<exists>dk' sv'. case tracker P J (em_refs_mac m) (rr_id r) sv i of
      None \<Rightarrow> mark_issue P J (http_desk P HJ X B show_meta au) nonce explicit i st dk sv =
                (dk', sv, Inl (bail ''issue not found in decrypted inbox''))
    | Some e \<Rightarrow> mark_issue P J (http_desk P HJ X B show_meta au) nonce explicit i st dk sv = (dk', sv', Inr ()) \<and>
        tracker P J (em_refs_mac m) (rr_id r) sv' = (tracker P J (em_refs_mac m) (rr_id r) sv)(i \<mapsto> e\<lparr>fi_state := st\<rparr>)"
proof -
  let ?C = "http_desk P HJ X B show_meta au" and ?f = "tracker P J (em_refs_mac m) (rr_id r) sv"
  have op: "open_repo ?C explicit dk sv = Inr (r, m)" using assms(1) by (simp add: ready_def)
  have q: "http_queue X au (rr_id r) sv" by (rule ready_queue [OF assms(1,2)])
  obtain dk' where found: "find_issue P J ?C (Some (repo_name_display (rr_name r))) i dk sv =
      (dk', ok_or (bail ''issue not found in decrypted inbox'') (?f i))" by (rule ready_finds [OF assms(1-3)])
  show ?thesis
  proof (cases "?f i")
    case None
    then show ?thesis using op found by (auto simp: mark_issue_def ok_or_def)
  next
    case (Some e)
    then have ident: "fi_id e = i" unfolding tracker_def by (rule issue_now_id)
    obtain sv' n where enq: "enqueue_collab P J (http_mls_client P HJ X B show_meta au (rr_id r)) nonce m
        (Issue (fi_id e) (fi_title e) [] st) ''issue-state'' sv = (sv', Inr n)"
      and mail: "mail P J (em_refs_mac m) (queue_of (rr_id r) sv') =
        mail P J (em_refs_mac m) (queue_of (rr_id r) sv) @ [(of_nat (length (queue_of (rr_id r) sv)) + 1, Issue (fi_id e) (fi_title e) [] st)]"
      by (rule enqueue_mail [OF q q assms(4,2)])
    have "tracker P J (em_refs_mac m) (rr_id r) sv' = ?f(i \<mapsto> e\<lparr>fi_state := st\<rparr>)"
      unfolding tracker_step [OF mail] using assms(5) by (simp add: ident Some) (simp add: unless_empty_def)
    moreover have "mark_issue P J ?C nonce explicit i st dk sv = (dk', sv', Inr ())"
      using op found enq by (simp add: mark_issue_def Some ok_or_def) (simp add: http_desk_def)
    ultimately show ?thesis by (auto simp: Some)
  qed
qed

lemma edit_refines:
  assumes "ready P J X (http_desk P HJ X B show_meta au) au explicit r m dk sv" and "json_reads_back J"
    and "plain_ident i" and "length (queue_of (rr_id r) sv) + 1 < 2 ^ 64"
  shows "\<exists>dk' sv'. case abs_issue (Edit i ti bo) (tracker P J (em_refs_mac m) (rr_id r) sv) of
      None \<Rightarrow> run_issue P J (http_desk P HJ X B show_meta au) nonce explicit (Edit i ti bo) dk sv =
                (dk', sv, Inl (bail ''issue not found in decrypted inbox''))
    | Some f' \<Rightarrow> run_issue P J (http_desk P HJ X B show_meta au) nonce explicit (Edit i ti bo) dk sv = (dk', sv', Inr ()) \<and>
        tracker P J (em_refs_mac m) (rr_id r) sv' = f'"
proof -
  let ?C = "http_desk P HJ X B show_meta au" and ?f = "tracker P J (em_refs_mac m) (rr_id r) sv"
  have op: "open_repo ?C explicit dk sv = Inr (r, m)" using assms(1) by (simp add: ready_def)
  have q: "http_queue X au (rr_id r) sv" by (rule ready_queue [OF assms(1,2)])
  obtain dk' where found: "find_issue P J ?C (Some (repo_name_display (rr_name r))) i dk sv =
      (dk', ok_or (bail ''issue not found in decrypted inbox'') (?f i))"
    using ready_finds [OF assms(1,2,3)] by blast
  show ?thesis
  proof (cases "?f i")
    case None
    then show ?thesis using op found by (auto simp: issue_edit_def ok_or_def)
  next
    case (Some e)
    then have ident: "fi_id e = i" unfolding tracker_def by (rule issue_now_id)
    let ?msg = "Issue (fi_id e) (case ti of Some t \<Rightarrow> t | None \<Rightarrow> fi_title e) (case bo of Some b \<Rightarrow> b | None \<Rightarrow> fi_body e) (fi_state e)"
    obtain sv' n where enq: "enqueue_collab P J (http_mls_client P HJ X B show_meta au (rr_id r)) nonce m ?msg ''issue-edit'' sv = (sv', Inr n)"
      and mail: "mail P J (em_refs_mac m) (queue_of (rr_id r) sv') =
        mail P J (em_refs_mac m) (queue_of (rr_id r) sv) @ [(of_nat (length (queue_of (rr_id r) sv)) + 1, ?msg)]"
      by (rule enqueue_mail [OF q q assms(4,2)])
    have "abs_issue (Edit i ti bo) ?f = Some (tracker P J (em_refs_mac m) (rr_id r) sv')"
      unfolding tracker_step [OF mail] by (cases ti; cases bo) (simp_all add: ident Some)
    moreover have "issue_edit P J ?C nonce explicit i ti bo dk sv = (dk', sv', Inr n)"
      using op found enq by (simp add: issue_edit_def Some ok_or_def) (simp add: http_desk_def)
    ultimately show ?thesis by (auto simp: Some simp del: abs_issue.simps split: option.split)
  qed
qed

text \<open>
  C18.  The issue commands refine a tracker: on an honest host, closing, reopening, editing and commenting
  change what every caught-up member sees exactly like the abstract operation, and a command on an
  issue nobody sees fails and sends nothing; only a comment is sent all the same, and lost.
\<close>

theorem issue_commands_refine:
  assumes "ready P J X (http_desk P HJ X B show_meta au) au explicit r m dk sv" and "json_reads_back J"
    and "plain_ident (issue_ident c)" and "length (queue_of (rr_id r) sv) + 1 < 2 ^ 64"
  shows "\<exists>dk' sv'. case abs_issue c (tracker P J (em_refs_mac m) (rr_id r) sv) of
      None \<Rightarrow> run_issue P J (http_desk P HJ X B show_meta au) nonce explicit c dk sv =
                (dk', sv, Inl (bail ''issue not found in decrypted inbox''))
    | Some f' \<Rightarrow> run_issue P J (http_desk P HJ X B show_meta au) nonce explicit c dk sv = (dk', sv', Inr ()) \<and>
        tracker P J (em_refs_mac m) (rr_id r) sv' = f'"
proof -
  let ?C = "http_desk P HJ X B show_meta au" and ?f = "tracker P J (em_refs_mac m) (rr_id r) sv"
  have op: "open_repo ?C explicit dk sv = Inr (r, m)" using assms(1) by (simp add: ready_def)
  have q: "http_queue X au (rr_id r) sv" by (rule ready_queue [OF assms(1,2)])
  note send = enqueue_mail [OF q q assms(4,2), where P = P and HJ = HJ and B = B and ?show_meta = show_meta and m = m and nonce = nonce]
  show ?thesis
  proof (cases c)
    case (Close i)
    then show ?thesis
      using set_state_refines [OF assms(1,2) _ assms(4), of i "''closed''" nonce] assms(3)
      by (auto simp: issue_close_def split: option.splits)
  next
    case (Reopen i)
    then show ?thesis
      using set_state_refines [OF assms(1,2) _ assms(4), of i "''open''" nonce] assms(3)
      by (auto simp: issue_reopen_def split: option.splits)
  next
    case (Say i body)
    obtain sv' n where enq: "enqueue_collab P J (http_mls_client P HJ X B show_meta au (rr_id r)) nonce m
        (Comment ''issue'' i body) ''issue-comment'' sv = (sv', Inr n)"
      and mail: "mail P J (em_refs_mac m) (queue_of (rr_id r) sv') =
        mail P J (em_refs_mac m) (queue_of (rr_id r) sv) @ [(of_nat (length (queue_of (rr_id r) sv)) + 1, Comment ''issue'' i body)]"
      by (rule send)
    show ?thesis using op enq tracker_step [OF mail]
      by (simp add: Say issue_comment_def send_message_def) (simp add: http_desk_def)
  next
    case (Edit i ti bo)
    then have "plain_ident i" using assms(3) by simp
    then show ?thesis unfolding Edit by (rule edit_refines [OF assms(1,2) _ assms(4)])
  qed
qed

section \<open>Creating issues\<close>

lemma create_sends:
  assumes "ready P J X (http_desk P HJ X B show_meta au) au explicit r m dk sv" and "json_reads_back J"
    and "http_queue X au (rr_id r) (gap sv)" and "http_queue X au2 (rr_id r) (gap sv)" and "length (queue_of (rr_id r) (gap sv)) + 1 < 2 ^ 64"
  obtains dk' sv' n where
    "issue_create P J (http_desk P HJ X B show_meta au) nonces gap title body [] explicit dk sv = (dk', sv',
       Inr (word_string (next_collab_number (map fi_id (fst (fold_collab_inbox (mail P J (em_refs_mac m) (queue_of (rr_id r) sv)))))), n))"
    "mail P J (em_refs_mac m) (queue_of (rr_id r) sv') = mail P J (em_refs_mac m) (queue_of (rr_id r) (gap sv)) @
       [(of_nat (length (queue_of (rr_id r) (gap sv))) + 1,
         Issue (word_string (next_collab_number (map fi_id (fst (fold_collab_inbox (mail P J (em_refs_mac m) (queue_of (rr_id r) sv))))))) title body ''open'')]"
    "http_queue X au2 (rr_id r) sv'" "length (queue_of (rr_id r) sv') = length (queue_of (rr_id r) (gap sv)) + 1"
proof -
  let ?C = "http_desk P HJ X B show_meta au" and ?mail = "mail P J (em_refs_mac m) (queue_of (rr_id r) sv)"
  let ?i = "word_string (next_collab_number (map fi_id (fst (fold_collab_inbox ?mail))))"
  obtain dk' where read: "read_mail P J ?C (rr_id r) m dk sv = (dk', Inr ?mail)" by (rule ready_reads [OF assms(1,2)])
  obtain sv' n where enq: "enqueue_collab P J (http_mls_client P HJ X B show_meta au (rr_id r)) (nonces 0) m
      (Issue ?i title body ''open'') ''issue'' (gap sv) = (sv', Inr n)"
    "http_queue X au2 (rr_id r) sv'" "\<exists>env. queue_of (rr_id r) sv' = queue_of (rr_id r) (gap sv) @ [env]"
    "mail P J (em_refs_mac m) (queue_of (rr_id r) sv') = mail P J (em_refs_mac m) (queue_of (rr_id r) (gap sv)) @
       [(of_nat (length (queue_of (rr_id r) (gap sv))) + 1, Issue ?i title body ''open'')]"
    by (rule enqueue_mail [OF assms(3-5,2)])
  have "issue_create P J ?C nonces gap title body [] explicit dk sv = (dk', sv', Inr (?i, n))"
    using assms(1) enq(1) by (simp add: issue_create_def ready_def read Let_def) (simp add: http_desk_def)
  with enq(2-4) that show thesis by auto
qed

lemma new_ident_unused:
  assumes "next_collab_number (map fi_id (fst (fold_collab_inbox msgs))) \<noteq> 0"
  shows "issue_now (word_string (next_collab_number (map fi_id (fst (fold_collab_inbox msgs))))) (map snd msgs) = None"
proof -
  let ?ids = "map fi_id (fst (fold_collab_inbox msgs))"
  have "word_string (next_collab_number ?ids) \<notin> set ?ids"
    using next_number_cases [of ?ids] assms by simp
  then have "find (\<lambda>e. fi_id e = word_string (next_collab_number ?ids)) (fst (fold_collab_inbox msgs)) = None"
    by (simp add: find_None_iff) (metis image_eqI)
  then show ?thesis by (simp only: find_folded_issue)
qed

text \<open>
  A created issue is new and everyone sees it: on an honest host, with nobody creating at the same time,
  its number is unused and every caught-up member sees exactly the title and body, open and without comments.
\<close>

theorem created_issue_is_new:
  assumes "ready P J X (http_desk P HJ X B show_meta au) au explicit r m dk sv" and "json_reads_back J"
    and "length (queue_of (rr_id r) sv) + 1 < 2 ^ 64"
    and "issue_create P J (http_desk P HJ X B show_meta au) nonces (\<lambda>s. s) title body [] explicit dk sv = (dk', sv', res)"
  shows "\<exists>(i :: u64) n. res = Inr (word_string i, n) \<and> (i \<noteq> 0 \<longrightarrow>
    tracker P J (em_refs_mac m) (rr_id r) sv (word_string i) = None \<and>
    tracker P J (em_refs_mac m) (rr_id r) sv' = (tracker P J (em_refs_mac m) (rr_id r) sv)(word_string i \<mapsto>
      \<lparr>fi_id = word_string i, fi_title = title, fi_body = body, fi_state = ''open'', fi_comments = []\<rparr>))"
proof -
  define i where "i = next_collab_number (map fi_id (fst (fold_collab_inbox (mail P J (em_refs_mac m) (queue_of (rr_id r) sv)))))"
  have q: "http_queue X au (rr_id r) sv" by (rule ready_queue [OF assms(1,2)])
  obtain n where res: "res = Inr (word_string i, n)" and mail: "mail P J (em_refs_mac m) (queue_of (rr_id r) sv') =
      mail P J (em_refs_mac m) (queue_of (rr_id r) sv) @ [(of_nat (length (queue_of (rr_id r) sv)) + 1, Issue (word_string i) title body ''open'')]"
    using create_sends [OF assms(1,2), of "\<lambda>s. s" au nonces title body] q assms(3,4) unfolding i_def by auto
  have "tracker P J (em_refs_mac m) (rr_id r) sv (word_string i) = None" if "i \<noteq> 0"
    using new_ident_unused that unfolding tracker_def i_def by blast
  with res tracker_step [OF mail] show ?thesis by - (rule exI [of _ i], rule exI [of _ n], auto)
qed

text \<open>
  C12.  Two members who create an issue at the same time create one: both read the same number, and the later
  message overwrites title and body of the earlier one, for every caught-up member.
\<close>

theorem racing_creates_merge:
  assumes "ready P J X (http_desk P HJ X B show_meta au) au explicit r m dk sv"
    and "ready P J X (http_desk P HJ X B show_meta au2) au2 explicit2 r m2 dk2 sv" and "em_refs_mac m2 = em_refs_mac m"
    and "json_reads_back J" and "length (queue_of (rr_id r) sv) + 2 < 2 ^ 64"
    and "issue_create P J (http_desk P HJ X B show_meta au2) nonces2 (\<lambda>s. s) title2 body2 [] explicit2 dk2 sv = (dk2', sv2, res2)"
    and "issue_create P J (http_desk P HJ X B show_meta au) nonces (\<lambda>_. sv2) title body [] explicit dk sv = (dk', sv', res)"
  shows "\<exists>(i :: u64) n n2. res = Inr (word_string i, n) \<and> res2 = Inr (word_string i, n2) \<and> (i \<noteq> 0 \<longrightarrow>
    tracker P J (em_refs_mac m) (rr_id r) sv' = (tracker P J (em_refs_mac m) (rr_id r) sv)(word_string i \<mapsto>
      \<lparr>fi_id = word_string i, fi_title = unless_empty title title2, fi_body = unless_empty body body2, fi_state = ''open'', fi_comments = []\<rparr>))"
proof -
  define i where "i = next_collab_number (map fi_id (fst (fold_collab_inbox (mail P J (em_refs_mac m) (queue_of (rr_id r) sv)))))"
  let ?f = "tracker P J (em_refs_mac m) (rr_id r) sv"
  have q: "http_queue X au (rr_id r) sv" "http_queue X au2 (rr_id r) sv"
    using ready_queue [OF assms(1,4)] ready_queue [OF assms(2,4)] by auto
  obtain n2 where res2: "res2 = Inr (word_string i, n2)" and mail2: "mail P J (em_refs_mac m) (queue_of (rr_id r) sv2) =
      mail P J (em_refs_mac m) (queue_of (rr_id r) sv) @ [(of_nat (length (queue_of (rr_id r) sv)) + 1, Issue (word_string i) title2 body2 ''open'')]"
    and q2: "http_queue X au (rr_id r) sv2" "length (queue_of (rr_id r) sv2) = length (queue_of (rr_id r) sv) + 1"
    using create_sends [OF assms(2,4), of "\<lambda>s. s" au nonces2 title2 body2] q assms(5,6) unfolding assms(3) i_def by auto
  obtain n where res: "res = Inr (word_string i, n)" and mail: "mail P J (em_refs_mac m) (queue_of (rr_id r) sv') =
      mail P J (em_refs_mac m) (queue_of (rr_id r) sv2) @ [(of_nat (length (queue_of (rr_id r) sv2)) + 1, Issue (word_string i) title body ''open'')]"
    using create_sends [OF assms(1,4), of "\<lambda>_. sv2" au nonces title body] q2 assms(5,7) unfolding i_def by auto
  have "?f (word_string i) = None" if "i \<noteq> 0"
    using new_ident_unused that unfolding tracker_def i_def by blast
  with res res2 show ?thesis
    unfolding tracker_step [OF mail] tracker_step [OF mail2]
    by - (rule exI [of _ i], rule exI [of _ n], rule exI [of _ n2], auto simp: unless_empty_def)
qed

section \<open>What a merge pushes\<close>

text \<open>
  A merge pushes \<^verbatim>\<open>HEAD\<close> to \<^verbatim>\<open>refs/heads/main\<close>, whatever the base of the pull request: the merge
  commit becomes the tip of \<^verbatim>\<open>main\<close>, and the base branch is left where the remote has it.
\<close>

theorem merge_goes_to_main:
  assumes "with_pr P J C explicit ident (\<lambda>r p dk s. (dk, s, Inr (r, p))) dk s = (dk1, s, Inr (r, p))"
    and "mark_pr P J C nonce r p ''merged'' dk1 s = (s1, Inr ())"
    and "pg_merge_no_ff PG (fp_head p) (''Merge PR #'' @ ident) (pg_checkout PG (fp_base p) (co_git (dk_co dk1))) = (g, True)"
    and "pr_merge P J C nonce PG (push_head P X RJ G M RC draws gap env) explicit ident dk s = (dk', s', Inr (Merged (Pushed res)))"
    and "co_repo (dk_co dk1) = Some r'" and "load_epoch_material (dv_repos (dk_dv dk1) (rr_id r')) = Inr m"
    and "tip_of P X RJ RC (draws 0) (rr_id r') m s1 = Inr t"
    and "rbind (hc_tip (rc_host RC) (gap s1)) (tip_refs P RJ (pd_dkr (draws 0)) (pd_dkr' (draws 0)) m) = Inr now"
    and "json_maps RJ"
  shows "\<exists>oid. g_rev_parse G g ''HEAD'' = Some oid \<and>
    (map_of now ''refs/heads/main'' \<noteq> Some oid \<longrightarrow> map_of (er_refs (pr_refs res)) ''refs/heads/main'' = Some oid)"
proof -
  have main: "split_refspec ''HEAD'' = (''HEAD'', ''refs/heads/main'')" "full_ref ''refs/heads/main'' = ''refs/heads/main''"
    by (simp_all add: split_refspec_def full_ref_def starts_with_def)
  have merge: "pr_merge P J C nonce PG (push_head P X RJ G M RC draws gap env) explicit ident dk s =
      (case cmd_push P X RJ G M RC draws gap env ''HEAD'' False (dk_dv dk1) ((dk_co dk1)\<lparr>co_git := g\<rparr>) s1 of
         (co, s2, Inr done) \<Rightarrow> (dk1\<lparr>dk_co := co\<rparr>, s2, Inr (Merged done))
       | (co, s2, Inl e) \<Rightarrow> (dk1\<lparr>dk_co := co\<rparr>, s2, Inr (Push_deferred e)))"
    using assms(1-3) by (auto simp: pr_merge_def with_pr_def push_head_def split: sum.splits prod.splits)
  then obtain co where push: "cmd_push P X RJ G M RC draws gap env ''HEAD'' False (dk_dv dk1) ((dk_co dk1)\<lparr>co_git := g\<rparr>) s1 = (co, s', Inr (Pushed res))"
    using assms(4) by (auto split: prod.splits sum.splits)
  let ?R0 = "case t of Some f \<Rightarrow> er_refs (fr_refs f) | None \<Rightarrow> []"
  obtain a where a: "decide_push G g (rr_id r') m ''HEAD'' ''refs/heads/main'' False ?R0 = Inr (Some a)"
    and run: "push_bundle P X RJ (push_keys_of M (rr_id r') (dv_repos (dk_dv dk1) (rr_id r'))) (rc_host RC) draws env a (gap s1) = (s', Inr res)"
    using cmd_push_Pushed [OF push _ assms(6,7)] assms(5) by (auto simp: strip_prefix_def main)
  obtain oid where oid: "g_rev_parse G g ''HEAD'' = Some oid" "pa_material a = m" "bt_wf (pa_refs a)"
    "map_of (pa_refs a) = (map_of ?R0)(full_ref ''refs/heads/main'' \<mapsto> oid)"
    by (rule decide_push_args [OF a])
  obtain i tp plan where "plan_attempt P X RJ (push_keys_of M (rr_id r') (dv_repos (dk_dv dk1) (rr_id r'))) (draws i)
      (a\<lparr>pa_window := DEFAULT_UPLOAD_WINDOW\<rparr>) now tp = Inr (plan, pr_head_accepted res, pr_refs res)"
    using push_bundle_planned [OF run] assms(8) oid(2) by metis
  from planned_refs [OF this _ assms(9), of "''refs/heads/main''"] oid(1,3,4) main(2) show ?thesis by auto
qed

text \<open>A number written like the listings show it, with \<open>#\<close>: a comment is accepted, and nobody sees it.\<close>

theorem hash_comment_lost:
  assumes "ready P J X (http_desk P HJ X B show_meta au) au explicit r m dk sv" and "json_reads_back J"
    and "length (queue_of (rr_id r) sv) + 1 < 2 ^ 64" and "tracker P J (em_refs_mac m) (rr_id r) sv (CHR ''#'' # i) = None"
  shows "\<exists>sv' n. issue_comment P J (http_desk P HJ X B show_meta au) nonce explicit (CHR ''#'' # i) body dk sv = (dk, sv', Inr n) \<and>
    tracker P J (em_refs_mac m) (rr_id r) sv' = tracker P J (em_refs_mac m) (rr_id r) sv"
proof -
  have q: "http_queue X au (rr_id r) sv" by (rule ready_queue [OF assms(1,2)])
  obtain sv' n where enq: "enqueue_collab P J (http_mls_client P HJ X B show_meta au (rr_id r)) nonce m
      (Comment ''issue'' (CHR ''#'' # i) body) ''issue-comment'' sv = (sv', Inr n)"
    and mail: "mail P J (em_refs_mac m) (queue_of (rr_id r) sv') =
      mail P J (em_refs_mac m) (queue_of (rr_id r) sv) @ [(of_nat (length (queue_of (rr_id r) sv)) + 1, Comment ''issue'' (CHR ''#'' # i) body)]"
    by (rule enqueue_mail [OF q q assms(3,2)])
  have "(tracker P J (em_refs_mac m) (rr_id r) sv)(CHR ''#'' # i := None) = tracker P J (em_refs_mac m) (rr_id r) sv"
    using assms(4) by auto
  then show ?thesis
    using assms(1,4) enq tracker_step [OF mail]
    by (simp add: ready_def issue_comment_def send_message_def) (simp add: http_desk_def)
qed

section \<open>Closed examples\<close>

lemma demo_team_access: "access ''ann'' ''r'' demo_team = {''bob'', ''ann''}"
proof -
  have "access ''ann'' ''r'' demo_team = access ''ann'' ''r'' (collab_step ''ann'' ''r'' (Invite (demo_auth ''ann'') ''bob'' ''full'') demo_server)"
    by (simp add: access_def demo_team_parts(1))
  then show ?thesis unfolding collab_step_refines(2) [OF demo_server_inv] by (simp add: demo_server_access demo_auth_user)
qed

abbreviation demo_name :: repo_name where "demo_name \<equiv> \<lparr>rn_owner = ''ann'', rn_name = ''r''\<rparr>"

abbreviation demo_desk_client :: "string \<Rightarrow> server_state desk_client" where
  "demo_desk_client u \<equiv> http_desk demo_prims (\<lambda>_. None) demo_hex demo_parsers (\<lambda>_. []) (demo_auth u)"

definition demo_desk :: "repo_record \<Rightarrow> unit desk" where
  "demo_desk r = \<lparr>dk_co = \<lparr>co_repo = Some r, co_seq_file = None, co_head_file = None, co_git = ()\<rparr>, dk_dv = demo_device,
     dk_inbox = (\<lambda>_. \<lparr>ib_cursor = None, ib_files = []\<rparr>)\<rparr>"

lemma demo_tracker_ready:
  obtains r where "rr_name r = demo_name" "rr_id r = demo_repo"
    "\<And>u. u \<in> {''ann'', ''bob''} \<Longrightarrow> http_get_repo (demo_auth u) demo_name demo_team = Inr r"
proof -
  have "repos (sv_store demo_team) = repos (sv_store demo_server)"
    by (simp add: demo_team_parts(2) put_key_package_def)
  moreover obtain r where "map_of (repos (sv_store demo_server)) demo_name = Some r" "\<not> rr_deleted r" and r: "rr_id r = demo_repo" "rr_name r = demo_name"
    by (simp add: demo_server_def create_repo_def repo_create_def server_open_def store_open_def save_members_def demo_auth_def
        fix_len_def Let_def)
  ultimately have "http_get_repo (demo_auth u) demo_name demo_team = Inr r" if "u \<in> {''ann'', ''bob''}" for u
    using that by (auto simp: http_get_repo_def get_repo_def get_by_name_def require_member_access demo_auth_user demo_team_access)
  with r that show thesis by blast
qed

lemma demo_ready:
  assumes "u \<in> {''ann'', ''bob''}" and "rr_name r = demo_name" "rr_id r = demo_repo"
    and "http_get_repo (demo_auth u) demo_name demo_team = Inr r"
  shows "ready demo_prims demo_json demo_hex (demo_desk_client u) (demo_auth u) None r demo_material (demo_desk r) demo_team"
proof -
  have "open_repo (demo_desk_client u) None (demo_desk r) demo_team = Inr (r, demo_material)"
    by (simp add: open_repo_def resolve_repo_def demo_desk_def material_for_def demo_device_def load_epoch_material_def demo_dir_epoch ok_or_def)
  moreover have "repo_name_parse (repo_name_display demo_name) = Some demo_name"
    by (simp add: repo_name_parse_iff)
  moreover have "inbox_run demo_prims demo_json demo_hex (demo_auth u) demo_repo demo_team (dk_inbox (demo_desk r) demo_repo) []"
    using inbox_run.fresh [OF demo_team_gates [OF assms(1)]] by (simp add: demo_desk_def)
  ultimately show ?thesis
    using assms demo_team_queue by (auto simp: ready_def http_desk_def intro!: exI [of _ "[]"])
qed

lemma created_issue_is_new_witness:
  "\<exists>r dk' sv' i n. issue_create demo_prims demo_json (demo_desk_client ''ann'') (\<lambda>_. []) (\<lambda>s. s) ''t'' ''b'' [] None (demo_desk r) demo_team
     = (dk', sv', Inr (i, n))"
proof -
  obtain r where r: "rr_name r = demo_name" "rr_id r = demo_repo" "http_get_repo (demo_auth ''ann'') demo_name demo_team = Inr r"
    using demo_tracker_ready by (metis insertI1)
  obtain dk' sv' res where run: "issue_create demo_prims demo_json (demo_desk_client ''ann'') (\<lambda>_. []) (\<lambda>s. s) ''t'' ''b'' [] None (demo_desk r) demo_team
      = (dk', sv', res)" by (metis prod.collapse)
  have "\<exists>(i :: u64) n. res = Inr (word_string i, n)"
    using created_issue_is_new [OF demo_ready [OF _ r] demo_json_ok _ run] demo_team_queue r(2) by auto
  with run show ?thesis by blast
qed

lemma racing_creates_merge_witness:
  "\<exists>r dk' sv' dk2 sv2 i n n2.
     issue_create demo_prims demo_json (demo_desk_client ''bob'') (\<lambda>_. []) (\<lambda>s. s) ''other'' [] [] None (demo_desk r) demo_team = (dk2, sv2, Inr (i, n2)) \<and>
     issue_create demo_prims demo_json (demo_desk_client ''ann'') (\<lambda>_. []) (\<lambda>_. sv2) ''t'' ''b'' [] None (demo_desk r) demo_team = (dk', sv', Inr (i, n)) \<and>
     map_option fi_title (tracker demo_prims demo_json (replicate 32 11) demo_repo sv' i) = Some ''t''"
proof -
  obtain r where r: "rr_name r = demo_name" "rr_id r = demo_repo"
    and get: "\<And>u. u \<in> {''ann'', ''bob''} \<Longrightarrow> http_get_repo (demo_auth u) demo_name demo_team = Inr r"
    by (rule demo_tracker_ready) blast
  obtain dk2 sv2 res2 where run2: "issue_create demo_prims demo_json (demo_desk_client ''bob'') (\<lambda>_. []) (\<lambda>s. s) ''other'' [] [] None (demo_desk r) demo_team
      = (dk2, sv2, res2)" by (metis prod.collapse)
  obtain dk' sv' res where run: "issue_create demo_prims demo_json (demo_desk_client ''ann'') (\<lambda>_. []) (\<lambda>_. sv2) ''t'' ''b'' [] None (demo_desk r) demo_team
      = (dk', sv', res)" by (metis prod.collapse)
  obtain i :: u64 and n n2 where res: "res = Inr (word_string i, n)" "res2 = Inr (word_string i, n2)"
    and merged: "i \<noteq> 0 \<longrightarrow> tracker demo_prims demo_json (em_refs_mac demo_material) (rr_id r) sv' =
      (tracker demo_prims demo_json (em_refs_mac demo_material) (rr_id r) demo_team)(word_string i \<mapsto>
      \<lparr>fi_id = word_string i, fi_title = unless_empty ''t'' ''other'', fi_body = unless_empty ''b'' [], fi_state = ''open'', fi_comments = []\<rparr>)"
    using racing_creates_merge [OF demo_ready [OF _ r get] demo_ready [OF _ r get] _ demo_json_ok _ run2 run]
      demo_team_queue r(2) by auto
  have "res2 = Inr (word_string (1 :: u64), n2)"
  proof -
    have rb: "ready demo_prims demo_json demo_hex (demo_desk_client ''bob'') (demo_auth ''bob'') None r demo_material (demo_desk r) demo_team"
      by (rule demo_ready [OF _ r get]) simp_all
    have q: "http_queue demo_hex (demo_auth ''bob'') (rr_id r) demo_team" "length (queue_of (rr_id r) demo_team) + 1 < 2 ^ 64"
      using demo_team_queue by (simp_all add: r(2))
    obtain dk3 sv3 n3 where c: "issue_create demo_prims demo_json (demo_desk_client ''bob'') (\<lambda>_. []) (\<lambda>s. s) ''other'' [] [] None (demo_desk r) demo_team
        = (dk3, sv3, Inr (word_string (next_collab_number (map fi_id (fst (fold_collab_inbox
            (mail demo_prims demo_json (em_refs_mac demo_material) (queue_of (rr_id r) demo_team)))))), n3))"
      using create_sends [OF rb demo_json_ok, where gap = "\<lambda>s. s", OF q(1) q(1) q(2), of "\<lambda>_. []" "''other''" "[]"] by blast
    have "next_collab_number (map fi_id (fst (fold_collab_inbox
        (mail demo_prims demo_json (em_refs_mac demo_material) (queue_of (rr_id r) demo_team))))) = 1"
      using demo_team_queue by (simp add: r(2) mail_def map_filter_simps fold_collab_inbox_def fold_messages_def next_collab_number_def)
    with c run2 res(2) show ?thesis by simp
  qed
  then have "i \<noteq> 0" using res(2) by auto
  with merged have "map_option fi_title (tracker demo_prims demo_json (replicate 32 11) demo_repo sv' (word_string i)) = Some ''t''"
    by (simp add: r(2) demo_material_fields unless_empty_def)
  with run run2 res show ?thesis by blast
qed

lemma issue_commands_refine_witness:
  "\<exists>r dk' sv'. run_issue demo_prims demo_json (demo_desk_client ''ann'') [] None (Say ''1'' ''hi'') (demo_desk r) demo_team = (dk', sv', Inr ()) \<and>
     tracker demo_prims demo_json (replicate 32 11) demo_repo sv' ''1'' = None"
proof -
  obtain r where r: "rr_name r = demo_name" "rr_id r = demo_repo" "http_get_repo (demo_auth ''ann'') demo_name demo_team = Inr r"
    using demo_tracker_ready by (metis insertI1)
  have none: "tracker demo_prims demo_json k demo_repo demo_team i = None" for k i
    using demo_team_queue by (simp add: tracker_def mail_def map_filter_simps issue_now_def)
  obtain dk' sv' where "run_issue demo_prims demo_json (demo_desk_client ''ann'') [] None (Say ''1'' ''hi'') (demo_desk r) demo_team = (dk', sv', Inr ())"
    "tracker demo_prims demo_json (replicate 32 11) demo_repo sv' = (tracker demo_prims demo_json (replicate 32 11) demo_repo demo_team)(''1'' := None)"
    using issue_commands_refine [OF demo_ready [OF _ r] demo_json_ok, of "Say ''1'' ''hi''" "[]"] demo_team_queue
    by (auto simp: r(2) plain_ident_def none demo_material_fields simp del: run_issue.simps)
  then show ?thesis by (intro exI [of _ r] exI [of _ dk'] exI [of _ sv'] conjI) simp_all
qed

end
