(* ===== verification/Pages.thy ===== *)
theory Pages
  imports Membership Texts "HOL-Library.Product_Lexorder"
begin

text \<open>
  What the local browser \<^verbatim>\<open>safehub-browse\<close> does with names and texts that others chose: the HTML and
  URL functions of \<^verbatim>\<open>html.rs\<close>, and \<^verbatim>\<open>git.rs\<close>, which checks revisions and paths, runs git and reads
  what it prints.  Strings are their bytes.  The commands of git are a parameter, as are
  \<^verbatim>\<open>from_utf8_lossy\<close> and \<^verbatim>\<open>to_lowercase\<close>.
\<close>

section \<open>HTML\<close>

definition escape_char :: "char \<Rightarrow> string" where
  "escape_char c =
     (if c = CHR ''&'' then ''&amp;''
      else if c = CHR ''<'' then ''&lt;''
      else if c = CHR ''>'' then ''&gt;''
      else if c = CHR 0x22 then ''&quot;''
      else if c = CHR 0x27 then ''&#39;''
      else [c])"

definition escape :: "string \<Rightarrow> string" where
  "escape s = concat (map escape_char s)"

text \<open>An opening tag with one attribute.\<close>

definition tag1 :: "string \<Rightarrow> string \<Rightarrow> string \<Rightarrow> string" where
  "tag1 el attr val = ''<'' @ el @ '' '' @ attr @ ''='' @ [CHR 0x22] @ val @ [CHR 0x22] @ ''>''"

definition state_pill :: "string \<Rightarrow> string \<Rightarrow> string" where
  "state_pill kind state =
     (let (cls, label) =
        (if kind = ''pull'' \<and> state = ''merged'' then (''merged'', ''Merged'')
         else if kind = ''pull'' \<and> state = ''closed'' then (''closed'', ''Closed'')
         else if kind = ''pull'' then (''open'', ''Open'')
         else if state = ''closed'' then (''closed'', ''Closed'')
         else (''open'', ''Open''))
      in tag1 ''span'' ''class'' (''state '' @ cls) @ label @ ''</span>'')"

definition diff_class :: "string \<Rightarrow> string" where
  "diff_class line =
     (if starts_with ''+'' line \<and> \<not> starts_with ''+++'' line then ''add''
      else if starts_with ''-'' line \<and> \<not> starts_with ''---'' line then ''del'' else [])"

definition diff_line :: "string \<Rightarrow> string" where
  "diff_line line =
     (if diff_class line = [] then escape line else tag1 ''span'' ''class'' (diff_class line) @ escape line @ ''</span>'') @ [CHR 0x0A]"

definition render_diff_html :: "string \<Rightarrow> string" where
  "render_diff_html patch = tag1 ''div'' ''class'' ''diff'' @ concat (map diff_line (lines_of patch)) @ ''</div>''"

definition code_row :: "nat \<Rightarrow> string \<Rightarrow> string" where
  "code_row n line =
     ''<tr>'' @ tag1 ''td'' ''class'' ''ln'' @ dec_string n @ ''</td>'' @ tag1 ''td'' ''class'' ''lc'' @ escape line @ ''</td></tr>''"

definition code_with_lines :: "string \<Rightarrow> string" where
  "code_with_lines content =
     ''<table class='' @ [CHR 0x22] @ ''line-table'' @ [CHR 0x22] @ '' aria-label='' @ [CHR 0x22] @ ''File contents'' @ [CHR 0x22] @ ''><tbody>'' @
     concat (map (\<lambda>(i, line). code_row (i + 1) line) (enumerate 0 (lines_of content))) @
     (if content = [] then code_row 1 [] else []) @ ''</tbody></table>''"

section \<open>URLs\<close>

definition unreserved :: "char \<Rightarrow> bool" where
  "unreserved c \<longleftrightarrow>
     (let n = of_char c :: nat
      in 65 \<le> n \<and> n \<le> 90 \<or> 97 \<le> n \<and> n \<le> 122 \<or> is_digit c \<or> c \<in> {CHR ''-'', CHR ''_'', CHR ''.'', CHR ''~''})"

text \<open>One digit of \<^verbatim>\<open>{:02X}\<close>.\<close>

definition hex_upper :: "nat \<Rightarrow> char" where
  "hex_upper n = (if n < 10 then char_of (48 + n) else char_of (55 + n))"

definition encode_byte :: "char \<Rightarrow> string" where
  "encode_byte c = (if unreserved c then [c] else [CHR ''%'', hex_upper (of_char c div 16), hex_upper (of_char c mod 16)])"

definition encode_path_seg :: "string \<Rightarrow> string" where
  "encode_path_seg s = concat (map encode_byte s)"

definition encode_ref :: "string \<Rightarrow> string" where
  "encode_ref rv = encode_path_seg rv"

definition from_hex :: "char \<Rightarrow> nat option" where
  "from_hex c =
     (let n = of_char c
      in if 48 \<le> n \<and> n \<le> 57 then Some (n - 48)
         else if 97 \<le> n \<and> n \<le> 102 then Some (n - 87)
         else if 65 \<le> n \<and> n \<le> 70 then Some (n - 55) else None)"

fun percent_bytes :: "string \<Rightarrow> string" where
  "percent_bytes [] = []"
| "percent_bytes (c # s) =
     (case (if c = CHR ''%'' then (case s of a # b # _ \<Rightarrow> Some (from_hex a, from_hex b) | _ \<Rightarrow> None) else None) of
        Some (Some x, Some y) \<Rightarrow> char_of (16 * x + y) # percent_bytes (drop 2 s)
      | _ \<Rightarrow> (if c = CHR ''+'' then CHR '' '' else c) # percent_bytes s)"

definition percent_decode :: "(string \<Rightarrow> string) \<Rightarrow> string \<Rightarrow> string" where
  "percent_decode lossy s = lossy (percent_bytes s)"

definition decode_ref :: "(string \<Rightarrow> string) \<Rightarrow> string \<Rightarrow> string" where
  "decode_ref lossy s = percent_decode lossy s"

fun join_parts :: "'a list \<Rightarrow> 'a list list \<Rightarrow> 'a list" where
  "join_parts sep [] = []"
| "join_parts sep [x] = x"
| "join_parts sep (x # y # r) = x @ sep @ join_parts sep (y # r)"

definition encode_path_seg_path :: "string \<Rightarrow> string" where
  "encode_path_seg_path path = join_parts ''/'' (map encode_path_seg (split_on (CHR ''/'') path))"

definition decode_path :: "(string \<Rightarrow> string) \<Rightarrow> string \<Rightarrow> string" where
  "decode_path lossy path =
     join_parts ''/'' (filter (\<lambda>s. s \<noteq> []) (map (percent_decode lossy) (split_on (CHR ''/'') path)))"

definition link1 :: "string \<Rightarrow> string \<Rightarrow> string" where
  "link1 href text = tag1 ''a'' ''href'' href @ text @ ''</a>''"

text \<open>The crumbs of the path read so far, \<open>acc\<close>; the last one is not a link.\<close>

fun crumbs :: "string \<Rightarrow> string \<Rightarrow> string \<Rightarrow> string list \<Rightarrow> string" where
  "crumbs prefix er acc [] = []"
| "crumbs prefix er acc (part # parts) =
     (let acc' = (if acc = [] then part else acc @ ''/'' @ part)
      in tag1 ''span'' ''class'' ''sep'' @ ''/</span>'' @
         (if parts = [] then ''<strong>'' @ escape part @ ''</strong>''
          else link1 (prefix @ ''/tree/'' @ er @ ''/'' @ encode_path_seg_path acc') (escape part)) @
         crumbs prefix er acc' parts)"

definition breadcrumb :: "string \<Rightarrow> string \<Rightarrow> bool \<Rightarrow> string \<Rightarrow> string" where
  "breadcrumb rv path is_blob prefix =
     (let er = encode_ref rv
      in ''<nav class='' @ [CHR 0x22] @ ''breadcrumb'' @ [CHR 0x22] @ '' aria-label='' @ [CHR 0x22] @ ''Breadcrumb'' @ [CHR 0x22] @ ''>'' @
         link1 (prefix @ ''/tree/'' @ er) (escape rv) @
         (if path = [] then [] else crumbs prefix er [] (filter (\<lambda>p. p \<noteq> []) (split_on (CHR ''/'') path))) @ ''</nav>'')"

section \<open>Revisions and paths\<close>

fun check_parts :: "string list \<Rightarrow> client_error + string list" where
  "check_parts [] = Inr []"
| "check_parts (part # parts) =
     (if part = [] \<or> part = ''.'' then check_parts parts
      else if part = ''..'' then Inl (bail ''path escape (..) is not allowed'')
      else if CHR 0x00 \<in> set part then Inl (bail ''invalid path component'')
      else rbind (check_parts parts) (\<lambda>ps. Inr (part # ps)))"

definition normalize_repo_path :: "string \<Rightarrow> client_error + string" where
  "normalize_repo_path path0 =
     (let path = dropWhile (\<lambda>c. c = CHR ''/'') (trim path0)
      in if path = [] then Inr []
         else if starts_with ''/'' path then Inl (bail ''absolute paths are not allowed'')
         else rbind (check_parts (split_on (CHR ''/'') path)) (\<lambda>ps. Inr (join_parts ''/'' ps)))"

definition rev_char_banned :: "char \<Rightarrow> bool" where
  "rev_char_banned c \<longleftrightarrow>
     c \<in> {CHR 0x00, CHR 0x0A, CHR 0x0D, CHR '' '', CHR 0x09, CHR '';'', CHR ''|'', CHR ''&'', CHR 0x60, CHR ''$'', CHR ''('', CHR '')'',
           CHR ''<'', CHR ''>''}"

definition validate_rev :: "string \<Rightarrow> client_error + unit" where
  "validate_rev rv =
     (if rv = [] then Inl (bail ''empty revision'')
      else if list_ex rev_char_banned rv then Inl (bail ''invalid revision characters'')
      else if str_contains ''..'' rv \<and> \<not> str_contains ''...'' rv \<and> CHR ''/'' \<in> set rv then Inl (bail ''invalid revision'')
      else Inr ())"

definition looks_text :: "bytes \<Rightarrow> bool" where
  "looks_text b \<longleftrightarrow> \<not> list_ex (\<lambda>x. x = 0) (take 8000 b)"

section \<open>What git prints\<close>

text \<open>\<^verbatim>\<open>git_raw\<close> and \<^verbatim>\<open>git_bytes\<close> on one repository: what a command with these arguments prints, if it succeeds.\<close>

record page_git =
  pg_raw :: "string list \<Rightarrow> client_error + string"
  pg_bytes :: "string list \<Rightarrow> client_error + bytes"

function split_words :: "string \<Rightarrow> string list" where
  "split_words s =
     (let t = dropWhile is_ws s
      in if t = [] then [] else takeWhile (\<lambda>c. \<not> is_ws c) t # split_words (dropWhile (\<lambda>c. \<not> is_ws c) t))"
  by pat_completeness auto
termination
proof (relation "measure length", simp)
  fix s t :: string
  assume t: "t = dropWhile is_ws s" "t \<noteq> []"
  obtain c r where c: "t = c # r" using t(2) by (cases t) auto
  then have "\<not> is_ws c" using t hd_dropWhile [of is_ws s] by (metis list.sel(1))
  then have "length (dropWhile (\<lambda>c. \<not> is_ws c) t) < length t" by (simp add: c less_Suc_eq_le length_dropWhile_le)
  also have "length t \<le> length s" using t by (simp add: length_dropWhile_le)
  finally show "(dropWhile (\<lambda>c. \<not> is_ws c) t, s) \<in> measure length" by simp
qed

declare split_words.simps [simp del]

record tree_entry =
  te_name :: string
  te_path :: string
  te_type :: string
  te_mode :: string
  te_sha :: string
  te_size :: "u64 option"

definition tree_record :: "string \<Rightarrow> string \<Rightarrow> tree_entry list" where
  "tree_record path rec =
     (case split_once (CHR 0x09) rec of
        None \<Rightarrow> []
      | Some (meta, name) \<Rightarrow>
          (case split_words meta of
             mode # ty # sha # sz # _ \<Rightarrow>
               [\<lparr>te_name = name, te_path = (if path = [] then name else path @ ''/'' @ name), te_type = ty, te_mode = mode, te_sha = sha,
                 te_size = (if sz = ''-'' then None else parse_u64 sz)\<rparr>]
           | _ \<Rightarrow> []))"

definition parse_tree :: "string \<Rightarrow> string \<Rightarrow> tree_entry list" where
  "parse_tree path out = concat (map (tree_record path) (filter (\<lambda>r. r \<noteq> []) (split_on (CHR 0x00) out)))"

definition entry_key :: "(string \<Rightarrow> string) \<Rightarrow> tree_entry \<Rightarrow> bool \<times> string" where
  "entry_key lower e = (te_type e \<noteq> ''tree'', lower (te_name e))"

definition list_tree :: "page_git \<Rightarrow> (string \<Rightarrow> string) \<Rightarrow> string \<Rightarrow> string \<Rightarrow> client_error + tree_entry list" where
  "list_tree G lower rv path0 =
     rbind (validate_rev rv) (\<lambda>_. rbind (normalize_repo_path path0) (\<lambda>path.
     rbind (pg_raw G [''ls-tree'', ''-z'', ''-l'', ''--full-name'', if path = [] then rv @ ''^{tree}'' else rv @ '':'' @ path])
       (\<lambda>out. Inr (sort_key (entry_key lower) (parse_tree path out)))))"

record blob_view =
  bv_path :: string
  bv_sha :: string
  bv_size :: u64
  bv_binary :: bool
  bv_content :: string

definition read_blob :: "page_git \<Rightarrow> (string \<Rightarrow> string) \<Rightarrow> string \<Rightarrow> string \<Rightarrow> client_error + blob_view" where
  "read_blob G lossy rv path0 =
     rbind (validate_rev rv) (\<lambda>_. rbind (normalize_repo_path path0) (\<lambda>path.
       if path = [] then Inl (bail ''empty blob path'')
       else let spec = rv @ '':'' @ path
            in rbind (pg_raw G [''cat-file'', ''-s'', spec]) (\<lambda>meta. rbind (pg_bytes G [''show'', spec]) (\<lambda>b.
                 let sz = (case parse_u64 (trim meta) of Some n \<Rightarrow> n | None \<Rightarrow> 0)
                 in Inr \<lparr>bv_path = path,
                         bv_sha = trim (case pg_raw G [''rev-parse'', spec] of Inr x \<Rightarrow> x | Inl _ \<Rightarrow> ''unknown''),
                         bv_size = sz, bv_binary = \<not> looks_text b,
                         bv_content = (if \<not> looks_text b then ''Binary file ('' @ word_string sz @ '' bytes)'' else lossy (bytes_str b))\<rparr>))))"

definition resolve_ref :: "page_git \<Rightarrow> string \<Rightarrow> client_error + string" where
  "resolve_ref G rv0 =
     (let rv = trim rv0
      in if rv = [] then Inl (bail ''empty revision'')
         else rbind (validate_rev rv) (\<lambda>_. rbind (pg_raw G [''rev-parse'', ''--verify'', rv @ ''^{commit}'']) (\<lambda>out. Inr (trim out))))"

definition default_ref :: "page_git \<Rightarrow> client_error + string" where
  "default_ref G =
     (let said = (\<lambda>args. case pg_raw G args of Inr s \<Rightarrow> trim s | Inl _ \<Rightarrow> []);
          a = said [''symbolic-ref'', ''--short'', ''HEAD'']; b = said [''rev-parse'', ''--abbrev-ref'', ''HEAD'']
      in if a \<noteq> [] then Inr a
         else if b \<noteq> [] \<and> b \<noteq> ''HEAD'' then Inr b
         else rbind (pg_raw G [''rev-parse'', ''--short'', ''HEAD'']) (\<lambda>s. Inr (trim s)))"

record commit_info =
  cm_sha :: string
  cm_short :: string
  cm_message :: string
  cm_subject :: string
  cm_author :: string
  cm_email :: string
  cm_date :: string
  cm_parents :: "string list"

definition commit_record :: "string \<Rightarrow> commit_info list" where
  "commit_record rec0 =
     (let rec = trim_char (CHR 0x0D) (trim_char (CHR 0x0A) rec0)
      in if rec = [] then []
         else case split_on (CHR 0x1F) rec of
                sha # short # author # email # date # parents # subject # rest \<Rightarrow>
                  (let body = trim (case rest of b # _ \<Rightarrow> b | [] \<Rightarrow> [])
                   in [\<lparr>cm_sha = sha, cm_short = short,
                         cm_message = (if body = [] then subject else subject @ [CHR 0x0A, CHR 0x0A] @ body),
                         cm_subject = subject, cm_author = author, cm_email = email, cm_date = date,
                         cm_parents = split_words parents\<rparr>])
              | _ \<Rightarrow> [])"

definition parse_commits :: "string \<Rightarrow> commit_info list" where
  "parse_commits out = concat (map commit_record (split_on (CHR 0x1E) out))"

definition log_format :: string where
  "log_format = ''--pretty=format:%H%x1f%h%x1f%an%x1f%ae%x1f%aI%x1f%P%x1f%s%x1f%b%x1e''"

definition list_commits :: "page_git \<Rightarrow> string \<Rightarrow> nat \<Rightarrow> client_error + commit_info list" where
  "list_commits G rv limit =
     rbind (validate_rev rv) (\<lambda>_. rbind (pg_raw G [''log'', ''-n'' @ dec_string limit, log_format, rv]) (\<lambda>out. Inr (parse_commits out)))"

definition last_commit_for_path :: "page_git \<Rightarrow> string \<Rightarrow> string \<Rightarrow> client_error + commit_info option" where
  "last_commit_for_path G rv path0 =
     rbind (validate_rev rv) (\<lambda>_. rbind (normalize_repo_path path0) (\<lambda>path.
     rbind (pg_raw G ([''log'', ''-n1'', log_format, rv] @ (if path = [] then [] else [''--'', path]))) (\<lambda>out.
       Inr (case parse_commits out of c # _ \<Rightarrow> Some c | [] \<Rightarrow> None))))"

definition path_is_tree :: "page_git \<Rightarrow> string \<Rightarrow> string \<Rightarrow> client_error + bool" where
  "path_is_tree G rv path0 =
     rbind (validate_rev rv) (\<lambda>_. rbind (normalize_repo_path path0) (\<lambda>path.
       if path = [] then Inr True
       else rbind (pg_raw G [''cat-file'', ''-t'', rv @ '':'' @ path]) (\<lambda>t. Inr (trim t = ''tree''))))"

text \<open>The changed files of a commit: status and path, tab-separated.\<close>

definition diff_file :: "string \<Rightarrow> (string \<times> string) list" where
  "diff_file line0 =
     (let line = trim line0
      in if line = [] then []
         else case split_on (CHR 0x09) line of
                status # path # _ \<Rightarrow> if path = [] then [] else [(path, status)]
              | _ \<Rightarrow> [])"

record commit_diff =
  cd_commit :: commit_info
  cd_stat :: string
  cd_patch :: string
  cd_files :: "(string \<times> string) list"

definition commit_detail :: "page_git \<Rightarrow> string \<Rightarrow> client_error + commit_diff" where
  "commit_detail G sha =
     rbind (validate_rev sha) (\<lambda>_. rbind (resolve_ref G sha) (\<lambda>full. rbind (list_commits G full 1) (\<lambda>cs.
       case cs of
         [] \<Rightarrow> Inl (bail ''commit not found'')
       | c # _ \<Rightarrow>
           let or_empty = (\<lambda>r. case r of Inr x \<Rightarrow> x | Inl (_ :: client_error) \<Rightarrow> [])
           in Inr \<lparr>cd_commit = c,
                   cd_stat = trim (or_empty (pg_raw G [''show'', ''--stat'', ''--format='', ''--no-color'', full])),
                   cd_patch = or_empty (pg_raw G [''show'', ''--format='', ''--no-color'', ''--find-renames'', full]),
                   cd_files = concat (map diff_file
                     (lines_of (or_empty (pg_raw G [''show'', ''--name-status'', ''--format='', ''--no-color'', full]))))\<rparr>)))"

record branch_info =
  br_name :: string
  br_current :: bool
  br_remote :: bool
  br_sha :: string

definition branch_line :: "string \<Rightarrow> branch_info list" where
  "branch_line line =
     (case split_on (CHR 0x00) line of
        name # sha # mark # full # _ \<Rightarrow>
          if drop (length name - 5) name = ''/HEAD'' then []
          else [\<lparr>br_name = name, br_current = (mark = ''*''), br_remote = starts_with ''refs/remotes/'' full, br_sha = sha\<rparr>]
      | _ \<Rightarrow> [])"

definition list_branches :: "page_git \<Rightarrow> client_error + branch_info list" where
  "list_branches G =
     rbind (pg_raw G [''for-each-ref'', ''--format=%(refname:short)%00%(objectname)%00%(HEAD)%00%(refname)'', ''refs/heads'', ''refs/remotes''])
       (\<lambda>out. Inr (sort_key (\<lambda>b. (br_remote b, br_name b)) (concat (map branch_line (lines_of out)))))"

definition tag_line :: "string \<Rightarrow> (string \<times> string) list" where
  "tag_line line = (case split_on (CHR 0x00) line of name # sha # _ \<Rightarrow> if name = [] then [] else [(name, sha)] | _ \<Rightarrow> [])"

definition list_tags :: "page_git \<Rightarrow> client_error + (string \<times> string) list" where
  "list_tags G =
     rbind (pg_raw G [''for-each-ref'', ''--sort=-creatordate'', ''--format=%(refname:short)%00%(objectname)'', ''refs/tags''])
       (\<lambda>out. Inr (concat (map tag_line (lines_of out))))"

section \<open>Handlers\<close>

text \<open>A page is shown, redirects, or reports an error with its status; \<open>'p\<close> is what a page shows.\<close>

datatype 'p page = Shows 'p | Redirects string | Fails nat

definition page_of :: "nat \<Rightarrow> client_error + 'p \<Rightarrow> 'p page" where
  "page_of st r = (case r of Inr p \<Rightarrow> Shows p | Inl _ \<Rightarrow> Fails st)"

definition home_page :: "page_git \<Rightarrow> string \<Rightarrow> 'p page" where
  "home_page G prefix = (case default_ref G of Inr rv \<Rightarrow> Redirects (prefix @ ''/tree/'' @ encode_ref rv) | Inl _ \<Rightarrow> Fails 500)"

definition tree_page :: "page_git \<Rightarrow> (string \<Rightarrow> string) \<Rightarrow> string \<Rightarrow> string \<Rightarrow> tree_entry list page" where
  "tree_page G lower rv path = page_of 404 (rbind (resolve_ref G rv) (\<lambda>_. list_tree G lower rv path))"

text \<open>The arguments of a handler are what the router extracted from the URL.\<close>

definition tree_or_blob ::
    "page_git \<Rightarrow> (string \<Rightarrow> string) \<Rightarrow> (string \<Rightarrow> string) \<Rightarrow> string \<Rightarrow> string \<Rightarrow> string \<Rightarrow> tree_entry list page" where
  "tree_or_blob G lower lossy prefix rv0 path0 =
     (let rv = decode_ref lossy rv0; path = decode_path lossy path0
      in case path_is_tree G rv path of
           Inl _ \<Rightarrow> Fails 404
         | Inr True \<Rightarrow> tree_page G lower rv path
         | Inr False \<Rightarrow> Redirects (prefix @ ''/blob/'' @ encode_ref rv @ ''/'' @ encode_path_seg_path path))"

definition blob_page :: "page_git \<Rightarrow> (string \<Rightarrow> string) \<Rightarrow> string \<Rightarrow> string \<Rightarrow> blob_view page" where
  "blob_page G lossy rv0 path0 = page_of 404 (read_blob G lossy (decode_ref lossy rv0) (decode_path lossy path0))"

definition commits_page :: "page_git \<Rightarrow> (string \<Rightarrow> string) \<Rightarrow> string \<Rightarrow> commit_info list page" where
  "commits_page G lossy rv0 = page_of 404 (list_commits G (decode_ref lossy rv0) 100)"

definition commit_page :: "page_git \<Rightarrow> (string \<Rightarrow> string) \<Rightarrow> string \<Rightarrow> commit_diff page" where
  "commit_page G lossy sha = page_of 404 (commit_detail G (decode_ref lossy sha))"

section \<open>Escaping\<close>

lemma escape_simps [simp]: "escape [] = []" "escape (c # s) = escape_char c @ escape s" "escape (s @ t) = escape s @ escape t"
  by (simp_all add: escape_def)

lemma escape_markup: "set (escape s) \<inter> {CHR ''<'', CHR ''>'', CHR 0x22, CHR 0x27} = {}"
  by (induction s) (auto simp: escape_char_def)

lemma escape_char_prefix: "escape_char c @ x = escape_char d @ y \<longleftrightarrow> c = d \<and> x = y"
  by (auto simp: escape_char_def split: if_splits)

lemma escape_char_not_Nil [simp]: "escape_char c \<noteq> []"
  by (simp add: escape_char_def)

theorem escape_inject: "escape s = escape t \<longleftrightarrow> s = t"
proof (induction s arbitrary: t)
  case Nil
  then show ?case by (cases t) simp_all
next
  case (Cons c s)
  then show ?case by (cases t) (simp_all add: escape_char_prefix)
qed

lemma escape_no_lt [simp]: "count_list (escape s) (CHR ''<'') = 0"
  using escape_markup [of s] by (auto simp: count_list_0_iff)

lemma count_tag1:
  "count_list (tag1 el a v) (CHR ''<'') = 1 + count_list el (CHR ''<'') + count_list a (CHR ''<'') + count_list v (CHR ''<'')"
  by (simp add: tag1_def)

lemma diff_class_cases: "diff_class l \<in> {[], ''add'', ''del''}"
  by (simp add: diff_class_def)

lemma count_diff_line: "count_list (diff_line l) (CHR ''<'') = (if diff_class l = [] then 0 else 2)"
  using diff_class_cases [of l] by (auto simp: diff_line_def count_tag1)

text \<open>
  Whatever a patch contains, the page has the markup of its template and no other: the opening
  brackets are those of the frame and of the added and removed lines.
\<close>

theorem diff_markup_is_ours:
  "count_list (render_diff_html patch) (CHR ''<'') = 2 + 2 * length (filter (\<lambda>l. diff_class l \<noteq> []) (lines_of patch))"
proof -
  have "count_list (concat (map diff_line ls)) (CHR ''<'') = 2 * length (filter (\<lambda>l. diff_class l \<noteq> []) ls)" for ls
    by (induction ls) (simp_all add: count_diff_line)
  then show ?thesis by (simp add: render_diff_html_def count_tag1)
qed

section \<open>Encoding and decoding URLs\<close>

lemma char_nat_bound: "(of_char c :: nat) < 256"
  by (rule of_char_mod_256 [of c, symmetric, THEN ssubst, where P = "\<lambda>n. n < 256"]) simp

lemma from_hex_upper: "n < 16 \<Longrightarrow> from_hex (hex_upper n) = Some n"
  by (simp add: from_hex_def hex_upper_def Let_def)

lemma percent_byte: "percent_bytes (encode_byte c @ r) = c # percent_bytes r"
proof (cases "unreserved c")
  case True
  then have "c \<noteq> CHR ''%'' \<and> c \<noteq> CHR ''+''" by (auto simp: unreserved_def is_digit_def Let_def)
  then show ?thesis using True by (simp add: encode_byte_def)
next
  case False
  have "(of_char c :: nat) div 16 < 16" using char_nat_bound [of c] by (intro less_mult_imp_div_less) simp
  then show ?thesis using False by (simp add: encode_byte_def from_hex_upper numeral_2_eq_2)
qed

lemma percent_bytes_encode: "percent_bytes (encode_path_seg s @ r) = s @ percent_bytes r"
  by (induction s) (simp_all add: encode_path_seg_def percent_byte)

theorem percent_decode_encode: "lossy s = s \<Longrightarrow> percent_decode lossy (encode_path_seg s) = s"
  using percent_bytes_encode [of s "[]"] by (simp add: percent_decode_def)

lemma encode_no_slash: "CHR ''/'' \<notin> set (encode_path_seg s)"
proof -
  have "of_char (hex_upper n) \<noteq> (47 :: nat)" if "n < 16" for n using that by (simp add: hex_upper_def)
  moreover have "of_char CHR ''/'' = (47 :: nat)" by simp
  ultimately have "CHR ''/'' \<noteq> hex_upper n" if "n < 16" for n using that by metis
  moreover have "(of_char c :: nat) div 16 < 16" for c using char_nat_bound [of c] by (intro less_mult_imp_div_less) simp
  ultimately have "CHR ''/'' \<notin> set (encode_byte c)" for c
    by (auto simp: encode_byte_def unreserved_def is_digit_def Let_def)
  then show ?thesis by (simp add: encode_path_seg_def)
qed

lemma split_on_not_Nil [simp]: "split_on c s \<noteq> []"
  by (subst split_on.simps) (simp split: prod.split option.split)

lemma split_on_pieces: "x \<in> set (split_on c s) \<Longrightarrow> c \<notin> set x"
proof (induction c s rule: split_on.induct)
  case (1 c s)
  then show ?case
    by (cases "cut c s"; cases "snd (cut c s)") (auto simp: split_on.simps [of c s] cut_Some cut_None)
qed

lemma join_split [simp]: "join_parts [c] (split_on c s) = s"
proof (induction c s rule: split_on.induct)
  case (1 c s)
  obtain a r where ar: "cut c s = (a, r)" by fastforce
  show ?case
  proof (cases r)
    case None
    then have "c \<notin> set s" using ar by (simp add: cut_None)
    then show ?thesis by (simp add: split_on_none)
  next
    case (Some t)
    then have "s = a @ c # t" "c \<notin> set a" using ar by (simp_all add: cut_Some)
    then have "s = a @ c # t" "split_on c s = a # split_on c t" by (simp_all add: split_on_first)
    moreover have "join_parts [c] (split_on c t) = t" using 1 ar Some by simp
    moreover have "join_parts [c] (a # xs) = a @ c # join_parts [c] xs" if "xs \<noteq> []" for xs using that by (cases xs) simp_all
    ultimately show ?thesis by simp
  qed
qed

lemma split_join: "xs \<noteq> [] \<Longrightarrow> \<forall>x \<in> set xs. c \<notin> set x \<Longrightarrow> split_on c (join_parts [c] xs) = xs"
  by (induction "[c]" xs rule: join_parts.induct) (simp_all add: split_on_none split_on_first)

text \<open>A link made by the page leads to the path it was made for, provided no piece of it is empty.\<close>

theorem link_leads_to_path:
  assumes "\<forall>x \<in> set (split_on (CHR ''/'') path). x \<noteq> [] \<and> lossy x = x"
  shows "decode_path lossy (encode_path_seg_path path) = path"
proof -
  let ?xs = "split_on (CHR ''/'') path"
  have "split_on (CHR ''/'') (encode_path_seg_path path) = map encode_path_seg ?xs"
    unfolding encode_path_seg_path_def by (rule split_join) (simp_all add: encode_no_slash)
  moreover have "map (percent_decode lossy) (map encode_path_seg ?xs) = ?xs"
    using assms by (auto simp: percent_decode_encode intro!: map_idI)
  moreover have "filter (\<lambda>s. s \<noteq> []) ?xs = ?xs" using assms by (simp add: filter_id_conv)
  ultimately show ?thesis by (simp add: decode_path_def)
qed

text \<open>
  The router has already decoded what a handler decodes again: a name is found by its own link exactly
  when it holds no plus sign (among the names without per cent signs).
\<close>

lemma percent_bytes_plain: "CHR ''%'' \<notin> set s \<Longrightarrow> percent_bytes s = map (\<lambda>c. if c = CHR ''+'' then CHR '' '' else c) s"
  by (induction s) auto

theorem plus_names_unreachable:
  assumes "router (encode_ref s) = s" and "\<forall>t. lossy t = t" and "CHR ''%'' \<notin> set s"
  shows "decode_ref lossy (router (encode_ref s)) = s \<longleftrightarrow> CHR ''+'' \<notin> set s"
proof -
  have "map (\<lambda>c. if c = CHR ''+'' then CHR '' '' else c) s = s \<longleftrightarrow> CHR ''+'' \<notin> set s"
    by (induction s) auto
  then show ?thesis using assms by (simp add: decode_ref_def percent_decode_def percent_bytes_plain)
qed

section \<open>Paths stay inside\<close>

definition bad_part :: "string \<Rightarrow> bool" where
  "bad_part = (\<lambda>part. part = ''..'' \<or> CHR 0x00 \<in> set part)"

definition kept_part :: "string \<Rightarrow> bool" where
  "kept_part = (\<lambda>part. part \<noteq> [] \<and> part \<noteq> ''.'')"

lemma check_parts_exact:
  "(case check_parts parts of Inl _ \<Rightarrow> list_ex bad_part parts | Inr ps \<Rightarrow> \<not> list_ex bad_part parts \<and> ps = filter kept_part parts)"
  by (induction parts) (auto simp: bad_part_def kept_part_def split: sum.splits)

lemma split_leading: "filter (\<lambda>p. p \<noteq> []) (split_on c (dropWhile (\<lambda>x. x = c) s)) = filter (\<lambda>p. p \<noteq> []) (split_on c s)"
proof (induction s)
  case (Cons x s)
  then show ?case using split_on_first [of c "[]" s] by simp
qed simp

lemma split_leading_set: "p \<noteq> [] \<Longrightarrow> p \<in> set (split_on c (dropWhile (\<lambda>x. x = c) s)) \<longleftrightarrow> p \<in> set (split_on c s)"
  using arg_cong [OF split_leading [of c s], of set] by auto

lemma bad_part_not_Nil: "bad_part p \<Longrightarrow> p \<noteq> []"
  by (auto simp: bad_part_def)

lemma dropWhile_head: "\<not> (take 1 (dropWhile (\<lambda>x. x = c) s) = [c])"
  by (induction s) auto

text \<open>
  A path is refused exactly when one of its pieces is \<^verbatim>\<open>..\<close> or holds a zero byte; otherwise what git is
  asked for is the pieces that are neither empty nor \<^verbatim>\<open>.\<close>, so it names something inside the tree.
\<close>

theorem normalize_exact:
  "case normalize_repo_path path of
     Inl _ \<Rightarrow> list_ex bad_part (split_on (CHR ''/'') (trim path))
   | Inr q \<Rightarrow> \<not> list_ex bad_part (split_on (CHR ''/'') (trim path)) \<and>
       q = join_parts ''/'' (filter kept_part (split_on (CHR ''/'') (trim path)))"
proof -
  let ?p = "dropWhile (\<lambda>c. c = CHR ''/'') (trim path)"
  have bad: "list_ex bad_part (split_on (CHR ''/'') ?p) = list_ex bad_part (split_on (CHR ''/'') (trim path))"
    using split_leading_set [of _ "CHR ''/''" "trim path"] bad_part_not_Nil by (auto simp: list_ex_iff)
  have "filter kept_part xs = filter kept_part (filter (\<lambda>p. p \<noteq> []) xs)" for xs
    by (simp add: kept_part_def conj_commute cong: conj_cong)
  then have kept: "filter kept_part (split_on (CHR ''/'') ?p) = filter kept_part (split_on (CHR ''/'') (trim path))"
    using split_leading [of "CHR ''/''" "trim path"] by metis
  show ?thesis
  proof (cases "?p = []")
    case True
    then have "\<not> list_ex bad_part (split_on (CHR ''/'') (trim path))" "filter kept_part (split_on (CHR ''/'') (trim path)) = []"
      unfolding bad [symmetric] kept [symmetric] True by (simp_all add: split_on_none bad_part_def kept_part_def)
    then show ?thesis using True by (simp add: normalize_repo_path_def)
  next
    case False
    have "\<not> starts_with ''/'' ?p" using dropWhile_head [of "CHR ''/''" "trim path"] by (simp add: starts_with_def)
    then show ?thesis
      using False check_parts_exact [of "split_on (CHR ''/'') ?p"]
      by (auto simp: normalize_repo_path_def Let_def bad kept split: sum.splits)
  qed
qed

section \<open>Revisions become options\<close>

text \<open>
  The check of a revision stops shell metacharacters but not a leading dash, and the commits page
  hands the revision to git as a bare argument: a URL makes git write the log to a file of its choice.
\<close>

theorem revision_becomes_option:
  assumes "lossy ''--output=/home/u/.profile'' = ''--output=/home/u/.profile''"
  shows "commits_page G lossy ''--output=/home/u/.profile'' =
    page_of 404 (rbind (pg_raw G [''log'', ''-n100'', log_format, ''--output=/home/u/.profile'']) (\<lambda>out. Inr (parse_commits out)))"
proof -
  have "decode_ref lossy ''--output=/home/u/.profile'' = ''--output=/home/u/.profile''"
    using assms by (simp add: decode_ref_def percent_decode_def)
  moreover have "validate_rev ''--output=/home/u/.profile'' = Inr ()" by (simp add: validate_rev_def rev_char_banned_def)
  moreover have "dec_string 100 = ''100''" by code_simp
  ultimately show ?thesis by (simp add: commits_page_def list_commits_def)
qed

section \<open>Reading the log\<close>

text \<open>
  What git prints for a commit under \<open>log_format\<close>: the eight fields with unit separators, a record
  separator, and a line feed between commits.  The last field, the body of the message, is whatever
  the author wrote.
\<close>

definition printed_fields :: "string list \<Rightarrow> string" where
  "printed_fields fs = join_parts [CHR 0x1F] fs"

definition printed_log :: "string list list \<Rightarrow> string" where
  "printed_log cs = join_parts [CHR 0x0A] (map (\<lambda>fs. printed_fields fs @ [CHR 0x1E]) cs)"

definition shown_commit :: "string list \<Rightarrow> commit_info" where
  "shown_commit fs =
     \<lparr>cm_sha = fs ! 0, cm_short = fs ! 1,
      cm_message = (if trim (fs ! 7) = [] then fs ! 6 else fs ! 6 @ [CHR 0x0A, CHR 0x0A] @ trim (fs ! 7)),
      cm_subject = fs ! 6, cm_author = fs ! 2, cm_email = fs ! 3, cm_date = fs ! 4, cm_parents = split_words (fs ! 5)\<rparr>"

definition plain_commit :: "string list \<Rightarrow> bool" where
  "plain_commit fs \<longleftrightarrow> length fs = 8 \<and> fs ! 0 \<noteq> [] \<and> hd (fs ! 0) \<notin> {CHR 0x0A, CHR 0x0D} \<and>
     (\<forall>f \<in> set fs. CHR 0x1F \<notin> set f \<and> CHR 0x1E \<notin> set f)"

definition drop_end :: "'a \<Rightarrow> 'a list \<Rightarrow> 'a list" where
  "drop_end c s = rev (dropWhile (\<lambda>x. x = c) (rev s))"

lemma trim_char_drop_end:
  assumes "x \<noteq> c" and "u \<noteq> c"
  shows "trim_char c (x # p @ u # body) = x # p @ u # drop_end c body"
  using assms by (simp add: trim_char_def drop_end_def dropWhile_append)

lemma trim_drop_end: "is_ws c \<Longrightarrow> trim (drop_end c s) = trim s"
proof (induction s rule: rev_induct)
  case (snoc x s)
  show ?case
  proof (cases "x = c")
    case True
    then have "drop_end c (s @ [x]) = drop_end c s" by (simp add: drop_end_def)
    moreover have "trim (s @ [x]) = trim s" if "is_ws x" for x
    proof (cases "\<forall>y \<in> set s. is_ws y")
      case True
      then have "dropWhile is_ws s = []" "dropWhile is_ws (s @ [x]) = []" using that by (simp_all only: dropWhile_eq_Nil_conv) auto
      then show ?thesis by (simp only: trim_def)
    next
      case False
      then have "dropWhile is_ws (s @ [x]) = dropWhile is_ws s @ [x]" by (auto simp: dropWhile_append)
      then show ?thesis using that by (simp add: trim_def)
    qed
    ultimately show ?thesis using snoc True by simp
  qed (simp add: drop_end_def)
qed (simp add: drop_end_def)

lemma drop_end_set: "set (drop_end c s) \<subseteq> set s"
  by (auto simp: drop_end_def dest: set_dropWhileD)

lemma trim_char_lead: "trim_char c (c # s) = trim_char c s"
  by (simp add: trim_char_def)

lemma record_shown:
  assumes "plain_commit fs" and "pre \<in> {[], [CHR 0x0A]}"
  shows "commit_record (pre @ printed_fields fs) = [shown_commit fs]"
proof -
  have "length fs = 8" using assms(1) by (simp add: plain_commit_def)
  then obtain a b c d e f g h where fs: "fs = [a, b, c, d, e, f, g, h]"
    by (auto simp: numeral_eq_Suc length_Suc_conv)
  obtain x a' where a: "a = x # a'" "x \<noteq> CHR 0x0A" "x \<noteq> CHR 0x0D" using assms(1) by (cases a) (auto simp: plain_commit_def fs)
  let ?u = "CHR 0x1F"
  define mid where "mid = a' @ ?u # b @ ?u # c @ ?u # d @ ?u # e @ ?u # f @ ?u # g"
  have p: "printed_fields fs = x # mid @ ?u # h" by (simp add: printed_fields_def fs a(1) mid_def)
  define body where "body = drop_end (CHR 0x0D) (drop_end (CHR 0x0A) h)"
  have "trim_char (CHR 0x0A) (pre @ printed_fields fs) = x # mid @ ?u # drop_end (CHR 0x0A) h"
    using assms(2) trim_char_drop_end [OF a(2)] by (auto simp: p trim_char_lead)
  then have rec: "trim_char (CHR 0x0D) (trim_char (CHR 0x0A) (pre @ printed_fields fs)) = x # mid @ ?u # body"
    using a(3) by (simp only: body_def) (rule trim_char_drop_end, simp_all)
  have clean: "?u \<notin> set a" "?u \<notin> set b" "?u \<notin> set c" "?u \<notin> set d" "?u \<notin> set e" "?u \<notin> set f" "?u \<notin> set g" "?u \<notin> set h"
    using assms(1) by (simp_all add: plain_commit_def fs)
  have "set body \<subseteq> set h" unfolding body_def by (meson drop_end_set subset_trans)
  then have "?u \<notin> set body" using clean(8) by blast
  then have "split_on ?u (x # mid @ ?u # body) = [a, b, c, d, e, f, g, body]"
    using clean split_on_first [OF clean(1)] by (simp add: a(1) mid_def split_on_first split_on_none)
  moreover have "trim body = trim h" by (simp add: body_def trim_drop_end is_ws_def)
  ultimately show ?thesis unfolding commit_record_def rec by (simp add: shown_commit_def fs)
qed

lemma printed_no_separator: "plain_commit fs \<Longrightarrow> CHR 0x1E \<notin> set (printed_fields fs)"
proof -
  have "CHR 0x1E \<notin> set (join_parts [CHR 0x1F] xs)" if "\<forall>f \<in> set xs. CHR 0x1E \<notin> set f" for xs
    using that by (induction "[CHR 0x1F]" xs rule: join_parts.induct) simp_all
  then show "plain_commit fs \<Longrightarrow> ?thesis" by (simp add: plain_commit_def printed_fields_def)
qed

lemma parse_commits_first:
  "CHR 0x1E \<notin> set a \<Longrightarrow> parse_commits (a @ CHR 0x1E # r) = commit_record a @ parse_commits r"
  by (simp add: parse_commits_def split_on_first)

lemma parse_commits_Nil [simp]: "parse_commits [] = []"
  by (simp add: parse_commits_def split_on_none commit_record_def trim_char_def)

text \<open>The log is read back as it was printed, if no field holds a separator.\<close>

theorem log_read_back: "list_all plain_commit cs \<Longrightarrow> parse_commits (printed_log cs) = map shown_commit cs"
proof -
  have "list_all plain_commit cs \<Longrightarrow> cs \<noteq> [] \<Longrightarrow> pre \<in> {[], [CHR 0x0A]} \<Longrightarrow>
      parse_commits (pre @ printed_log cs) = map shown_commit cs" for pre
  proof (induction cs arbitrary: pre)
    case (Cons fs cs)
    have clean: "CHR 0x1E \<notin> set (pre @ printed_fields fs)" using printed_no_separator [of fs] Cons.prems by auto
    have shown: "commit_record (pre @ printed_fields fs) = [shown_commit fs]" using record_shown Cons.prems by simp
    show ?case
    proof (cases cs)
      case Nil
      have "pre @ printed_log [fs] = (pre @ printed_fields fs) @ CHR 0x1E # []" by (simp add: printed_log_def)
      then show ?thesis using parse_commits_first [OF clean, of "[]"] shown by (simp add: Nil)
    next
      case (Cons fs' cs')
      have "pre @ printed_log (fs # cs) = (pre @ printed_fields fs) @ CHR 0x1E # ([CHR 0x0A] @ printed_log cs)"
        by (simp add: printed_log_def Cons)
      then show ?thesis using parse_commits_first [OF clean] shown Cons.IH [of "[CHR 0x0A]"] Cons.prems Cons by simp
    qed
  qed simp
  from this [of "[]"] show "list_all plain_commit cs \<Longrightarrow> ?thesis"
    by (cases "cs = []") (simp_all add: printed_log_def)
qed

text \<open>
  The body of a message is the author's: one that holds a record separator and further fields is shown
  as two commits, the second of whatever author, date and hash the body says.
\<close>

theorem commit_body_forges_history:
  assumes "plain_commit (fs @ [body])" and "plain_commit forged"
  shows "parse_commits (printed_log [fs @ [body @ CHR 0x1E # printed_fields forged]]) =
    [shown_commit (fs @ [body]), shown_commit forged]"
proof -
  have join: "join_parts [c] (xs @ [x @ y]) = join_parts [c] (xs @ [x]) @ y" for c :: char and xs x y
    by (induction xs rule: join_parts.induct [of _ "[c]"]) simp_all
  have "printed_log [fs @ [body @ CHR 0x1E # printed_fields forged]] =
      printed_fields (fs @ [body]) @ CHR 0x1E # (printed_fields forged @ CHR 0x1E # [])"
    by (simp add: printed_log_def printed_fields_def join)
  then show ?thesis
    using assms parse_commits_first printed_no_separator record_shown [of _ "[]"] by simp
qed

end
