(* ===== verification/Browse.thy ===== *)
theory Browse
  imports Tickets Pages
begin

text \<open>
  What the local browser \<^verbatim>\<open>safehub-browse\<close> changes: issues and pull requests through its forms
  (routes.rs over collab.rs), access to the repository (routes.rs), and the mirror of the published tip
  (remote.rs).  collab.rs repeats the inbox functions of the command line word for word; Inbox models
  both.  A form arrives parsed; the page it leads to is a redirection or an error.
\<close>

section \<open>The inbox behind the pages\<close>

definition load_repo_record :: "'g checkout \<Rightarrow> client_error + repo_record" where
  "load_repo_record co = ok_or (bail ''no SafeHub binding (.git/safehub/repo.json); clone or create with `sh`/`sit`'') (co_repo co)"

definition web_open :: "'g desk \<Rightarrow> client_error + repo_record \<times> epoch_material" where
  "web_open dk = rbind (load_repo_record (dk_co dk)) (\<lambda>r. rbind (material_for dk (rr_id r)) (\<lambda>m. Inr (r, m)))"

text \<open>A page of the browser is shown from the cache when the host does not answer.\<close>

definition load_folded ::
    "prims \<Rightarrow> inbox_json \<Rightarrow> 'h desk_client \<Rightarrow> 'g desk \<Rightarrow> 'h \<Rightarrow>
     'g desk \<times> (client_error + repo_record \<times> folded_issue list \<times> folded_pr list)" where
  "load_folded P J C dk s =
     (case web_open dk of
        Inl e \<Rightarrow> (dk, Inl e)
      | Inr (r, m) \<Rightarrow>
          (case sync_inbox P J (\<lambda>a. mc_fetch (dc_mls C (rr_id r)) a s) m (dk_inbox dk (rr_id r)) of
             (ib, _) \<Rightarrow> (dk\<lparr>dk_inbox := (dk_inbox dk)(rr_id r := ib)\<rparr>,
                         rbind (read_inbox_cache J ib) (\<lambda>msgs. Inr (r, fold_collab_inbox msgs)))))"

section \<open>Issues and pull requests\<close>

text \<open>\<open>gap\<close> is what other clients do between the page's read of the inbox and its message.\<close>

definition web_create_issue ::
    "prims \<Rightarrow> inbox_json \<Rightarrow> 'h desk_client \<Rightarrow> bytes \<Rightarrow> ('h \<Rightarrow> 'h) \<Rightarrow> string \<Rightarrow> string \<Rightarrow> 'g desk \<Rightarrow> 'h \<Rightarrow>
     'g desk \<times> 'h \<times> (client_error + string)" where
  "web_create_issue P J C nonce gap title body dk s =
     (case web_open dk of
        Inl e \<Rightarrow> (dk, s, Inl e)
      | Inr (r, m) \<Rightarrow>
          (case read_mail P J C (rr_id r) m dk s of
             (dk1, Inl e) \<Rightarrow> (dk1, s, Inl e)
           | (dk1, Inr msgs) \<Rightarrow>
               (let ident = word_string (next_collab_number (map fi_id (fst (fold_collab_inbox msgs))))
                in case enqueue_collab P J (dc_mls C (rr_id r)) nonce m (Issue ident title body ''open'') ''issue'' (gap s) of
                     (s1, res) \<Rightarrow> (dk1, s1, rbind res (\<lambda>_. Inr ident)))))"

definition web_create_pr ::
    "prims \<Rightarrow> inbox_json \<Rightarrow> 'h desk_client \<Rightarrow> bytes \<Rightarrow> ('h \<Rightarrow> 'h) \<Rightarrow> string \<Rightarrow> string \<Rightarrow> string \<Rightarrow> string \<Rightarrow> 'g desk \<Rightarrow> 'h \<Rightarrow>
     'g desk \<times> 'h \<times> (client_error + string)" where
  "web_create_pr P J C nonce gap title body base head dk s =
     (case web_open dk of
        Inl e \<Rightarrow> (dk, s, Inl e)
      | Inr (r, m) \<Rightarrow>
          (case read_mail P J C (rr_id r) m dk s of
             (dk1, Inl e) \<Rightarrow> (dk1, s, Inl e)
           | (dk1, Inr msgs) \<Rightarrow>
               (let ident = word_string (next_collab_number (map fp_id (snd (fold_collab_inbox msgs))))
                in case enqueue_collab P J (dc_mls C (rr_id r)) nonce m (PullRequest ident head base title body ''open'')
                          ''pr-create'' (gap s) of
                     (s1, res) \<Rightarrow> (dk1, s1, rbind res (\<lambda>_. Inr ident)))))"

text \<open>The message an action sends on an issue that was found, with its hint.\<close>

definition issue_action_message :: "string \<Rightarrow> string \<Rightarrow> string \<Rightarrow> folded_issue \<Rightarrow> client_error + collab_message \<times> string" where
  "issue_action_message ident action body i =
     (if action = ''comment'' then Inr (Comment ''issue'' ident body, ''issue-comment'')
      else if action = ''close'' \<or> action = ''reopen''
      then Inr (Issue (fi_id i) (fi_title i) [] (if action = ''close'' then ''closed'' else ''open''), ''issue-state'')
      else Inl (bail (''unknown action '' @ action)))"

definition apply_issue_action ::
    "prims \<Rightarrow> inbox_json \<Rightarrow> 'h desk_client \<Rightarrow> bytes \<Rightarrow> string \<Rightarrow> string \<Rightarrow> string \<Rightarrow> 'g desk \<Rightarrow> 'h \<Rightarrow> 'g desk \<times> 'h \<times> (client_error + unit)" where
  "apply_issue_action P J C nonce ident action body dk s =
     (case web_open dk of
        Inl e \<Rightarrow> (dk, s, Inl e)
      | Inr (r, m) \<Rightarrow>
          (case read_mail P J C (rr_id r) m dk s of
             (dk1, Inl e) \<Rightarrow> (dk1, s, Inl e)
           | (dk1, Inr msgs) \<Rightarrow>
               (case rbind (ok_or (bail ''issue not found'') (find (\<lambda>i. fi_id i = ident) (fst (fold_collab_inbox msgs))))
                       (issue_action_message ident action body) of
                  Inl e \<Rightarrow> (dk1, s, Inl e)
                | Inr (msg, hint) \<Rightarrow>
                    (case enqueue_collab P J (dc_mls C (rr_id r)) nonce m msg hint s of
                       (s1, res) \<Rightarrow> (dk1, s1, rbind res (\<lambda>_. Inr ()))))))"

definition pr_action_message ::
    "string \<Rightarrow> string \<Rightarrow> string \<Rightarrow> string \<Rightarrow> string \<Rightarrow> folded_pr \<Rightarrow> client_error + collab_message \<times> string" where
  "pr_action_message ident action body verdict review_body p =
     (if action = ''comment'' then Inr (Comment ''pr'' ident body, ''pr-comment'')
      else if action = ''review'' then Inr (Review ident (if verdict = [] then ''comment'' else verdict) review_body, ''pr-review'')
      else if action = ''close'' \<or> action = ''reopen''
      then Inr (PullRequest (fp_id p) (fp_head p) (fp_base p) (fp_title p) [] (if action = ''close'' then ''closed'' else ''open''),
                ''pr-state'')
      else Inl (bail (''unknown action '' @ action)))"

definition apply_pr_action ::
    "prims \<Rightarrow> inbox_json \<Rightarrow> 'h desk_client \<Rightarrow> bytes \<Rightarrow> string \<Rightarrow> string \<Rightarrow> string \<Rightarrow> string \<Rightarrow> string \<Rightarrow> 'g desk \<Rightarrow> 'h \<Rightarrow>
     'g desk \<times> 'h \<times> (client_error + unit)" where
  "apply_pr_action P J C nonce ident action body verdict review_body dk s =
     (case web_open dk of
        Inl e \<Rightarrow> (dk, s, Inl e)
      | Inr (r, m) \<Rightarrow>
          (case read_mail P J C (rr_id r) m dk s of
             (dk1, Inl e) \<Rightarrow> (dk1, s, Inl e)
           | (dk1, Inr msgs) \<Rightarrow>
               (case rbind (ok_or (bail ''PR not found'') (find (\<lambda>p. fp_id p = ident) (snd (fold_collab_inbox msgs))))
                       (pr_action_message ident action body verdict review_body) of
                  Inl e \<Rightarrow> (dk1, s, Inl e)
                | Inr (msg, hint) \<Rightarrow>
                    (case enqueue_collab P J (dc_mls C (rr_id r)) nonce m msg hint s of
                       (s1, res) \<Rightarrow> (dk1, s1, rbind res (\<lambda>_. Inr ()))))))"

text \<open>Where a form leads.\<close>

definition answer :: "string \<Rightarrow> client_error + string \<Rightarrow> 'p page" where
  "answer where_to res = (case res of Inr i \<Rightarrow> Redirects (where_to @ i) | Inl _ \<Rightarrow> Fails 400)"

definition issue_create_form where
  "issue_create_form P J C nonce gap title body dk s = apsnd (apsnd (answer ''/issues/'')) (web_create_issue P J C nonce gap title body dk s)"

definition issue_action_form where
  "issue_action_form P J C nonce ident action body dk s =
     apsnd (apsnd (\<lambda>res. answer ''/issues/'' (rbind res (\<lambda>_. Inr ident)))) (apply_issue_action P J C nonce ident action body dk s)"

definition default_main :: string where
  "default_main = ''main''"

definition pr_create_form where
  "pr_create_form P J C nonce gap title head base body dk s =
     apsnd (apsnd (answer ''/pulls/''))
       (web_create_pr P J C nonce gap title body (case base of Some b \<Rightarrow> b | None \<Rightarrow> default_main) head dk s)"

definition pr_action_form where
  "pr_action_form P J C nonce ident action body verdict review_body dk s =
     apsnd (apsnd (\<lambda>res. answer ''/pulls/'' (rbind res (\<lambda>_. Inr ident))))
       (apply_pr_action P J C nonce ident action body verdict review_body dk s)"

section \<open>Access\<close>

record access_form =
  af_action :: string
  af_user :: string
  af_history :: string
  af_confirm :: string

definition http_archive_repo :: "token_record \<Rightarrow> repo_name \<Rightarrow> bool \<Rightarrow> server_state \<Rightarrow> server_state \<times> (client_error + repo_record)" where
  "http_archive_repo au rn archived sv =
     apsnd (map_err (\<lambda>st. Api st [])) (patch_repo au (rn_owner rn) (rn_name rn) (Some archived) None sv)"

definition current_user_is_repo_admin :: "token_record \<Rightarrow> 'g checkout \<Rightarrow> client_error + bool" where
  "current_user_is_repo_admin au co = rbind (load_repo_record co) (\<lambda>r. Inr (tr_user au = rn_owner (rr_name r)))"

definition apply_access ::
    "prims \<Rightarrow> head_json \<Rightarrow> hex_codec \<Rightarrow> blob_parsers \<Rightarrow> (blob_meta \<Rightarrow> string) \<Rightarrow> ('i, 'gr, 'k, 'w, 'm, 'c) openmls \<Rightarrow> grant_json \<Rightarrow>
     group_draws \<Rightarrow> string \<Rightarrow> token_record \<Rightarrow> access_form \<Rightarrow> 'g desk \<Rightarrow> server_state \<Rightarrow> 'g desk \<times> server_state \<times> (client_error + string)" where
  "apply_access P HJ X B show_meta M GJ gd now au form dk sv =
     (case load_repo_record (dk_co dk) of
        Inl e \<Rightarrow> (dk, sv, Inl e)
      | Inr r \<Rightarrow>
          if tr_user au \<noteq> rn_owner (rr_name r)
          then (dk, sv, Inl (bail ''only the repository owner/admin can invite, remove, rotate, archive, or delete''))
          else if af_action form = ''invite'' then
            (let history = (if af_history form = [] then ''full'' else af_history form)
             in case http_invite_collaborator now au (rr_name r) (af_user form) history sv of
                  (sv1, Inl e) \<Rightarrow> (dk, sv1, Inl e)
                | (sv1, Inr _) \<Rightarrow>
                    (case invite_member_mls_with_graft P X M GJ (http_mls_client P HJ X B show_meta au (rr_id r)) gd (rr_id r) (af_user form)
                            (history = ''forward_only'' \<or> history = ''forward-only'') None (dv_repos (dk_dv dk) (rr_id r)) sv1 of
                       (d, sv2, _) \<Rightarrow> (dk\<lparr>dk_dv := set_repo (rr_id r) d (dk_dv dk)\<rparr>, sv2, Inr ''/settings/access'')))
          else if af_action form = ''remove'' then
            (case http_remove_collaborator now au (rr_name r) (af_user form) sv of
               (sv1, res) \<Rightarrow> (dk, sv1, rbind res (\<lambda>_. Inr ''/settings/access'')))
          else if af_action form = ''rotate'' then
            (case rotate_repo_group M gd (rr_id r) (dv_repos (dk_dv dk) (rr_id r)) of
               (d, res) \<Rightarrow> (dk\<lparr>dk_dv := set_repo (rr_id r) d (dk_dv dk)\<rparr>, sv, rbind res (\<lambda>_. Inr ''/settings/access'')))
          else if af_action form = ''archive'' then
            (case http_archive_repo au (rr_name r) (\<not> rr_archived r) sv of
               (sv1, res) \<Rightarrow> (dk, sv1, rbind res (\<lambda>_. Inr ''/settings'')))
          else if af_action form = ''delete'' then
            (if af_confirm form \<noteq> ''yes'' then (dk, sv, Inl (bail ''confirm delete with the checkbox''))
             else case http_delete_repo au (rr_name r) sv of
                    (sv1, res) \<Rightarrow> (dk, sv1, rbind res (\<lambda>_. Inr ''/settings'')))
          else (dk, sv, Inl (bail (''unknown action '' @ af_action form))))"

definition access_action where
  "access_action P HJ X B show_meta M GJ gd now au form dk sv =
     apsnd (apsnd (answer [])) (apply_access P HJ X B show_meta M GJ gd now au form dk sv)"

section \<open>The mirror\<close>

text \<open>
  The git commands run on the bare repository \<^verbatim>\<open>.git/safehub/browse-mirror.git\<close>: each returns the mirror
  after it and whether it succeeded.  \<open>mg_open\<close> is \<^verbatim>\<open>Repo::open\<close>.
\<close>

record 'v mirror_git =
  mg_init :: "'v option"
  mg_import :: "bytes \<Rightarrow> 'v \<Rightarrow> 'v \<times> bool"
  mg_update_ref :: "string \<Rightarrow> oid \<Rightarrow> 'v \<Rightarrow> 'v \<times> bool"
  mg_set_head :: "string \<Rightarrow> 'v \<Rightarrow> 'v \<times> bool"
  mg_open :: "'v \<Rightarrow> bool"

definition allowed_ref :: "string \<Rightarrow> bool" where
  "allowed_ref name \<longleftrightarrow>
     (starts_with ''refs/heads/'' name \<or> starts_with ''refs/tags/'' name \<or> starts_with ''refs/remotes/'' name) \<and>
     \<not> str_contains ''..'' name \<and> CHR 0x5C \<notin> set name \<and> \<not> list_ex is_ws name"

fun update_refs :: "'v mirror_git \<Rightarrow> refs_map \<Rightarrow> nat \<Rightarrow> 'v \<Rightarrow> 'v \<times> (client_error + nat)" where
  "update_refs V [] n g = (g, Inr n)"
| "update_refs V ((name, oid) # refs) n g =
     (if \<not> allowed_ref name then update_refs V refs n g
      else case mg_update_ref V name oid g of
             (g1, False) \<Rightarrow> (g1, Inl (bail (''update mirror ref '' @ name)))
           | (g1, True) \<Rightarrow> update_refs V refs (n + 1) g1)"

definition import_tip :: "'v mirror_git \<Rightarrow> fetch_result \<Rightarrow> 'v \<Rightarrow> 'v \<times> (client_error + nat)" where
  "import_tip V f g =
     (case mg_import V (fr_bundle f) g of
        (g1, False) \<Rightarrow> (g1, Inl (bail ''import decrypted bundle into isolated mirror''))
      | (g1, True) \<Rightarrow>
          (case update_refs V (er_refs (fr_refs f)) 0 g1 of
             (g2, Inl e) \<Rightarrow> (g2, Inl e)
           | (g2, Inr n) \<Rightarrow>
               (case (case er_head (fr_refs f) of Some h \<Rightarrow> strip_prefix ''ref: '' h | None \<Rightarrow> None) of
                  None \<Rightarrow> (g2, Inr n)
                | Some target \<Rightarrow>
                    (if \<not> allowed_ref target then (g2, Inr n)
                     else case mg_set_head V target g2 of
                            (g3, ok) \<Rightarrow> (g3, if ok then Inr n else Inl (bail ''git symbolic-ref failed''))))))"

definition mirror_summary :: "ref_head \<Rightarrow> nat \<Rightarrow> string" where
  "mirror_summary h updated =
     (let dot = [CHR '' '', CHR 0xC2, CHR 0xB7, CHR '' '']
      in ''Fetched SafeHub tip seq '' @ word_string (seq h) @ dot @ ''epoch '' @ word_string (mls_epoch h) @ dot @
         dec_string updated @ '' refs'')"

text \<open>What the mirror is filled from; \<open>login\<close> says whether this device has credentials.\<close>

definition mirror_tip ::
    "prims \<Rightarrow> hex_codec \<Rightarrow> refs_json \<Rightarrow> (client_error + unit) \<Rightarrow> (repo_id \<Rightarrow> 'h repo_client) \<Rightarrow> push_draw \<Rightarrow> 'g desk \<Rightarrow> 'h \<Rightarrow>
     client_error + fetch_result" where
  "mirror_tip P X RJ login RC dr dk s =
     rbind (ok_or (bail ''This is not a SafeHub checkout.'') (co_repo (dk_co dk))) (\<lambda>r.
     rbind login (\<lambda>_.
     rbind (material_for dk (rr_id r)) (\<lambda>m.
     rbind (tip_of P X RJ (RC (rr_id r)) dr (rr_id r) m s) (ok_or (bail ''SafeHub remote has no published tip'')))))"

definition fetch_remote ::
    "prims \<Rightarrow> hex_codec \<Rightarrow> refs_json \<Rightarrow> (client_error + unit) \<Rightarrow> (repo_id \<Rightarrow> 'h repo_client) \<Rightarrow> push_draw \<Rightarrow> 'v mirror_git \<Rightarrow> 'g desk \<Rightarrow> 'h \<Rightarrow>
     'v option \<Rightarrow> 'v option \<times> (client_error + string)" where
  "fetch_remote P X RJ login RC dr V dk s mirror =
     (case mirror_tip P X RJ login RC dr dk s of
        Inl e \<Rightarrow> (mirror, Inl e)
      | Inr f \<Rightarrow>
          (case (case mirror of Some g \<Rightarrow> Some g | None \<Rightarrow> mg_init V) of
             None \<Rightarrow> (None, Inl (bail ''git init --bare failed''))
           | Some g \<Rightarrow>
               (case import_tip V f g of
                  (g1, Inl e) \<Rightarrow> (Some g1, Inl e)
                | (g1, Inr n) \<Rightarrow>
                    (Some g1, if mg_open V g1 then Inr (mirror_summary (fr_head f) n) else Inl (bail ''open fetched SafeHub mirror'')))))"

text \<open>The browser's view of the mirror: the directory, and whether a handle on it is open.\<close>

record 'v remote_state =
  rs_mirror :: "'v option"
  rs_repo :: bool
  rs_error :: "string option"
  rs_summary :: "string option"

definition mirror_repo :: "'v remote_state \<Rightarrow> 'v option" where
  "mirror_repo st = (if rs_repo st then rs_mirror st else None)"

definition mirror_fetch ::
    "(client_error \<Rightarrow> string) \<Rightarrow> prims \<Rightarrow> hex_codec \<Rightarrow> refs_json \<Rightarrow> (client_error + unit) \<Rightarrow> (repo_id \<Rightarrow> 'h repo_client) \<Rightarrow> push_draw \<Rightarrow>
     'v mirror_git \<Rightarrow> 'g desk \<Rightarrow> 'h \<Rightarrow> 'v remote_state \<Rightarrow> 'v remote_state \<times> (client_error + unit)" where
  "mirror_fetch explain P X RJ login RC dr V dk s st =
     (case fetch_remote P X RJ login RC dr V dk s (rs_mirror st) of
        (mi, Inr summary) \<Rightarrow> (st\<lparr>rs_mirror := mi, rs_repo := True, rs_error := None, rs_summary := Some summary\<rparr>, Inr ())
      | (mi, Inl e) \<Rightarrow> (st\<lparr>rs_mirror := mi, rs_error := Some (explain e)\<rparr>, Inl (bail (explain e))))"

definition load_existing :: "'v mirror_git \<Rightarrow> 'v remote_state \<Rightarrow> 'v remote_state" where
  "load_existing V st =
     (case rs_mirror st of
        Some g \<Rightarrow> if mg_open V g then st\<lparr>rs_repo := True, rs_summary := Some ''Previously fetched SafeHub mirror''\<rparr> else st
      | None \<Rightarrow> st)"

section \<open>The forms and the command line\<close>

lemma web_open_cli:
  assumes "co_repo (dk_co dk) \<noteq> None"
  shows "web_open dk = open_repo C None dk s"
  using assms by (auto simp: web_open_def open_repo_def load_repo_record_def resolve_repo_def)

text \<open>
  The form for a new issue is the command: in a bound checkout it leaves the desk and the host exactly
  as \<^verbatim>\<open>issue create\<close> without labels does, with the same number or the same error; likewise for pull requests.
\<close>

theorem forms_are_commands:
  assumes "co_repo (dk_co dk) \<noteq> None"
  shows "web_create_issue P J C (nonces 0) gap title body dk s =
           apsnd (apsnd (\<lambda>res. rbind res (\<lambda>(i, _). Inr i))) (issue_create P J C nonces gap title body [] None dk s)"
    and "web_create_pr P J C nonce gap title body base head dk s =
           apsnd (apsnd (\<lambda>res. rbind res (\<lambda>(i, _). Inr i))) (pr_create P J C nonce gap title body base head None dk s)"
  using web_open_cli [OF assms, of C s]
  by (auto simp: web_create_issue_def issue_create_def web_create_pr_def pr_create_def Let_def rbind_def split: sum.splits prod.splits)

text \<open>What an action on a shown issue does to the tracker; anything else is refused.\<close>

definition abs_action :: "string \<Rightarrow> string \<Rightarrow> string \<Rightarrow> (string \<Rightarrow> folded_issue option) \<Rightarrow> (string \<Rightarrow> folded_issue option) option" where
  "abs_action ident action body f =
     (case f ident of
        None \<Rightarrow> None
      | Some e \<Rightarrow>
          if action = ''comment'' then Some (f(ident \<mapsto> e\<lparr>fi_comments := fi_comments e @ [body]\<rparr>))
          else if action = ''close'' then Some (f(ident \<mapsto> e\<lparr>fi_state := ''closed''\<rparr>))
          else if action = ''reopen'' then Some (f(ident \<mapsto> e\<lparr>fi_state := ''open''\<rparr>))
          else None)"

text \<open>
  The actions of the issue page refine the tracker: on an honest host every caught-up member sees
  exactly the abstract action, and an action on an issue nobody sees, or one that is not known, is
  refused and sends nothing; here, unlike on the command line, also a comment.
\<close>

theorem web_actions_refine:
  assumes "ready P J X (http_desk P HJ X B show_meta au) au None r m dk sv" and "json_reads_back J"
    and "length (queue_of (rr_id r) sv) + 1 < 2 ^ 64"
  shows "\<exists>dk' sv'. case abs_action i action body (tracker P J (em_refs_mac m) (rr_id r) sv) of
      None \<Rightarrow> (\<exists>e. apply_issue_action P J (http_desk P HJ X B show_meta au) nonce i action body dk sv = (dk', sv, Inl e))
    | Some f' \<Rightarrow> apply_issue_action P J (http_desk P HJ X B show_meta au) nonce i action body dk sv = (dk', sv', Inr ()) \<and>
        tracker P J (em_refs_mac m) (rr_id r) sv' = f'"
proof -
  let ?C = "http_desk P HJ X B show_meta au" and ?f = "tracker P J (em_refs_mac m) (rr_id r) sv"
  have "co_repo (dk_co dk) \<noteq> None"
    using assms(1) by (cases "co_repo (dk_co dk)") (auto simp: ready_def open_repo_def resolve_repo_def)
  then have op: "web_open dk = Inr (r, m)"
    using web_open_cli [of dk ?C sv] assms(1) by (simp add: ready_def)
  have q: "http_queue X au (rr_id r) sv" by (rule ready_queue [OF assms(1,2)])
  obtain dk' where read: "read_mail P J ?C (rr_id r) m dk sv = (dk', Inr (mail P J (em_refs_mac m) (queue_of (rr_id r) sv)))"
    by (rule ready_reads [OF assms(1,2)])
  have found: "find (\<lambda>e. fi_id e = i) (fst (fold_collab_inbox (mail P J (em_refs_mac m) (queue_of (rr_id r) sv)))) = ?f i"
    by (simp add: find_folded_issue tracker_def)
  show ?thesis
  proof (cases "rbind (ok_or (bail ''issue not found'') (?f i)) (issue_action_message i action body)")
    case (Inl e)
    moreover have "abs_action i action body ?f = None"
      using Inl by (auto simp: abs_action_def issue_action_message_def ok_or_def split: option.splits if_splits)
    ultimately show ?thesis using op read found by (simp add: apply_issue_action_def)
  next
    case (Inr x)
    obtain msg hint where x: "x = (msg, hint)" by fastforce
    obtain e where e: "?f i = Some e" "issue_action_message i action body e = Inr (msg, hint)"
      using Inr x by (auto simp: ok_or_def split: option.splits)
    have ident: "fi_id e = i" using e(1) unfolding tracker_def by (rule issue_now_id)
    obtain sv' n where enq: "enqueue_collab P J (http_mls_client P HJ X B show_meta au (rr_id r)) nonce m msg hint sv = (sv', Inr n)"
      and mail: "mail P J (em_refs_mac m) (queue_of (rr_id r) sv') =
        mail P J (em_refs_mac m) (queue_of (rr_id r) sv) @ [(of_nat (length (queue_of (rr_id r) sv)) + 1, msg)]"
      by (rule enqueue_mail [OF q q assms(3,2)])
    have "abs_action i action body ?f = Some (tracker P J (em_refs_mac m) (rr_id r) sv')"
      unfolding tracker_step [OF mail] using e ident
      by (auto simp: abs_action_def issue_action_message_def unless_empty_def split: if_splits)
    moreover have "apply_issue_action P J ?C nonce i action body dk sv = (dk', sv', Inr ())"
      using op read found Inr x enq by (simp add: apply_issue_action_def) (simp add: http_desk_def)
    ultimately show ?thesis by auto
  qed
qed

section \<open>What the access page does\<close>

text \<open>The page is closed to all but the owner: no form of another user changes the device or the host.\<close>

theorem access_owner_only:
  assumes "apply_access P HJ X B show_meta M GJ gd now au form dk sv = (dk', sv', res)"
    and "\<not> (\<exists>r. co_repo (dk_co dk) = Some r \<and> tr_user au = rn_owner (rr_name r))"
  shows "dk' = dk \<and> sv' = sv \<and> (\<exists>e. res = Inl e)"
  using assms by (cases "co_repo (dk_co dk)") (auto simp: apply_access_def load_repo_record_def)

lemma remove_form:
  assumes "apply_access P HJ X B show_meta M GJ gd now au form dk sv = (dk', sv', Inr u)" and "af_action form = ''remove''"
  obtains r where "co_repo (dk_co dk) = Some r" "tr_user au = rn_owner (rr_name r)" "dk' = dk"
    "remove_collab now au (rn_owner (rr_name r)) (rn_name (rr_name r)) (af_user form) sv = (sv', Inr ())"
  using assms by (cases "co_repo (dk_co dk)")
    (auto simp: apply_access_def load_repo_record_def http_remove_collaborator_def apsnd_def map_prod_def rbind_Inr_conv
      split: if_splits prod.splits sum.splits)

text \<open>
  C33.  Removing a member on the page closes the host to it and nothing else: unlike the command, the page
  does not rotate the keys.  The owner's device is unchanged, and what the owner pushes next opens with
  the material the removed member already has, wherever it gets the chunks from.
\<close>

theorem web_remove_keeps_keys:
  assumes "members_inv sv" and "co_repo (dk_co dk) = Some r" and "af_action form = ''remove''" and "af_user form \<noteq> rn_owner (rr_name r)"
    and "apply_access P HJ X B show_meta M GJ gd now au form dk sv = (dk', sv', Inr u)"
    and "build_push_plan P X RJ (push_keys_of M (rr_id r) (dv_repos (dk_dv dk') (rr_id r))) dr (rr_id r) bundle git_refs hsym m
           prev sq nonff sign = Inr (plan, h, refs)"
    and "load_epoch_material (dv_repos (dk_dv dk') (rr_id r)) = Inr m"
    and "bundle_fits bundle" and "hex_roundtrips X" and "hex_encode X (fix_len 16 (pd_push_id dr)) \<noteq> []"
    and "\<forall>b. to_json RJ refs = Some b \<longrightarrow> from_json RJ b = Some refs"
    and "epoch_key_at P rng rng' m_removed (em_epoch m) = epoch_key P (pd_dkr dr) (pd_dkr' dr) m"
    and "\<forall>c \<in> set (pp_chunks plan). get (bm_id (ec_meta c)) = Inr (ec_ciphertext c)"
  shows "af_user form \<notin> access (rn_owner (rr_name r)) (rn_name (rr_name r)) sv' \<and>
    load_epoch_material (dv_repos (dk_dv dk) (rr_id r)) = Inr m \<and>
    fetch_head_bundle P X RJ get rng rng' (rr_id r) m_removed h = Inr \<lparr>fr_head = h, fr_refs = refs, fr_bundle = bundle\<rparr>"
proof -
  have "dk' = dk" and rm: "remove_collab now au (rn_owner (rr_name r)) (rn_name (rr_name r)) (af_user form) sv = (sv', Inr ())"
    using remove_form [OF assms(5,3)] assms(2) by auto
  moreover have "af_user form \<notin> access (rn_owner (rr_name r)) (rn_name (rr_name r)) sv'"
    using remove_collab_access [OF assms(1) rm assms(4)] by blast
  moreover note planned_bundle_opens [OF assms(6,8-13)]
  ultimately show ?thesis using assms(7) by simp
qed

text \<open>
  The archive button works once: it toggles the copy of the record in the checkout, which it never
  updates, so every later click sends the same value and the repository stays as the first click left it.
\<close>

theorem archive_sticks:
  assumes "apply_access P HJ X B show_meta M GJ gd now au form dk sv = (dk', sv', Inr u)" and "af_action form = ''archive''"
    and "co_repo (dk_co dk) = Some r" and "repos_inv (sv_store sv)"
  shows "dk' = dk \<and>
    (\<exists>r'. get_by_name (rn_owner (rr_name r)) (rn_name (rr_name r)) (sv_store sv') = Some r' \<and> rr_archived r' = (\<not> rr_archived r))"
proof -
  let ?own = "rn_owner (rr_name r)" and ?nm = "rn_name (rr_name r)"
  obtain r2 where p: "dk' = dk" "patch_repo au ?own ?nm (Some (\<not> rr_archived r)) None sv = (sv', Inr r2)"
    using assms(1-3) by (auto simp: apply_access_def load_repo_record_def http_archive_repo_def apsnd_def map_prod_def rbind_Inr_conv
      split: if_splits prod.splits sum.splits)
  obtain r0 where r0: "map_of (repos (sv_store sv)) \<lparr>rn_owner = ?own, rn_name = ?nm\<rparr> = Some r0"
    using p(2) by (auto simp: patch_repo_def get_by_name_def split: if_splits sum.splits option.splits)
  have "rr_name r0 = \<lparr>rn_owner = ?own, rn_name = ?nm\<rparr>" using assms(4) r0 by (auto simp: repos_inv_def)
  then show ?thesis
    using p r0 by (auto simp: patch_repo_def get_by_name_def repo_update_def Let_def split: if_splits sum.splits)
qed

text \<open>
  An invitation on the page reports success whatever becomes of the key material: when no Welcome can be made,
  because the invited user has published no key package, say, the user is on the access list all the same.
\<close>

theorem invite_hides_failure:
  assumes "apply_access P HJ X B show_meta M GJ gd now au form dk sv = (dk', sv', res)" and "af_action form = ''invite''"
    and "co_repo (dk_co dk) = Some r" and "tr_user au = rn_owner (rr_name r)"
    and "http_invite_collaborator now au (rr_name r) (af_user form) (if af_history form = [] then ''full'' else af_history form) sv = (sv1, Inr u)"
    and "invite_commit M (http_mls_client P HJ X B show_meta au (rr_id r)) gd (rr_id r) (af_user form)
           (af_history form = ''forward_only'' \<or> af_history form = ''forward-only'') (dv_repos (dk_dv dk) (rr_id r)) sv1 = Inl e"
  shows "res = Inr ''/settings/access'' \<and> sv' = sv1 \<and> dv_repos (dk_dv dk') = dv_repos (dk_dv dk)"
  using assms
  by (auto simp: apply_access_def load_repo_record_def invite_member_mls_with_graft_def Let_def set_repo_def split: if_splits)

section \<open>What the mirror shows\<close>

text \<open>What git documents of these commands: only \<^verbatim>\<open>update-ref\<close> moves a ref, and one that fails leaves it.\<close>

definition mirror_law :: "'v mirror_git \<Rightarrow> ('v \<Rightarrow> string \<Rightarrow> oid option) \<Rightarrow> bool" where
  "mirror_law V refs_of \<longleftrightarrow>
     (\<forall>g. mg_init V = Some g \<longrightarrow> refs_of g = Map.empty) \<and>
     (\<forall>b g. refs_of (fst (mg_import V b g)) = refs_of g) \<and>
     (\<forall>t g. refs_of (fst (mg_set_head V t g)) = refs_of g) \<and>
     (\<forall>n x g. refs_of (fst (mg_update_ref V n x g)) = (if snd (mg_update_ref V n x g) then (refs_of g)(n \<mapsto> x) else refs_of g))"

definition shown_refs :: "refs_map \<Rightarrow> refs_map" where
  "shown_refs refs = filter (\<lambda>(n, _). allowed_ref n) refs"

text \<open>The updates are a prefix of the shown refs, all of them when none fails.\<close>

lemma update_refs_prefix:
  assumes "mirror_law V refs_of" and "update_refs V refs n g = (g', res)"
  shows "\<exists>k \<le> length (shown_refs refs). refs_of g' = refs_of g ++ map_of (rev (take k (shown_refs refs))) \<and>
    (\<forall>m. res = Inr m \<longrightarrow> k = length (shown_refs refs) \<and> m = n + k)"
  using assms(2)
proof (induction refs arbitrary: n g)
  case (Cons x refs)
  obtain name oid where x: "x = (name, oid)" by fastforce
  obtain g1 ok where u: "mg_update_ref V name oid g = (g1, ok)" by fastforce
  have law: "refs_of g1 = (if ok then (refs_of g)(name \<mapsto> oid) else refs_of g)"
    using assms(1) u unfolding mirror_law_def by (metis fst_conv snd_conv)
  consider "\<not> allowed_ref name" | "allowed_ref name" "\<not> ok" | "allowed_ref name" ok by blast
  then show ?case
  proof cases
    case 1
    then show ?thesis using Cons by (simp add: x shown_refs_def)
  next
    case 2
    then show ?thesis using Cons.prems law by (intro exI [of _ 0]) (auto simp: x u)
  next
    case 3
    then have "update_refs V refs (n + 1) g1 = (g', res)" using Cons.prems by (simp add: x u)
    from Cons.IH [OF this] obtain k where k: "k \<le> length (shown_refs refs)"
      "refs_of g' = refs_of g1 ++ map_of (rev (take k (shown_refs refs)))"
      "\<forall>m. res = Inr m \<longrightarrow> k = length (shown_refs refs) \<and> m = n + 1 + k" by blast
    then show ?thesis using 3 law by (intro exI [of _ "Suc k"]) (auto simp: x shown_refs_def fun_eq_iff map_add_def split: option.split)
  qed
qed (auto simp: shown_refs_def)

lemma import_tip_refs:
  assumes "mirror_law V refs_of" and "import_tip V f g = (g', res)"
  shows "\<exists>k \<le> length (shown_refs (er_refs (fr_refs f))).
    refs_of g' = refs_of g ++ map_of (rev (take k (shown_refs (er_refs (fr_refs f))))) \<and>
    (\<forall>n. res = Inr n \<longrightarrow> k = length (shown_refs (er_refs (fr_refs f))) \<and> n = k)"
proof -
  let ?R = "er_refs (fr_refs f)"
  obtain g1 ok where im: "mg_import V (fr_bundle f) g = (g1, ok)" by fastforce
  have im_refs: "refs_of g1 = refs_of g" using assms(1) im unfolding mirror_law_def by (metis fst_conv)
  show ?thesis
  proof (cases ok)
    case False
    then show ?thesis using assms(2) im im_refs by (intro exI [of _ 0]) (auto simp: import_tip_def)
  next
    case True
    obtain g2 r2 where up: "update_refs V ?R 0 g1 = (g2, r2)" by fastforce
    from update_refs_prefix [OF assms(1) up] obtain k where k: "k \<le> length (shown_refs ?R)"
      "refs_of g2 = refs_of g ++ map_of (rev (take k (shown_refs ?R)))" "\<forall>n. r2 = Inr n \<longrightarrow> k = length (shown_refs ?R) \<and> n = k"
      using im_refs by auto
    have "refs_of (fst (mg_set_head V t g2)) = refs_of g2" for t using assms(1) unfolding mirror_law_def by blast
    then have "refs_of g' = refs_of g2 \<and> (\<forall>n. res = Inr n \<longrightarrow> r2 = Inr n)"
      using assms(2) im up True
      by (auto simp: import_tip_def split: sum.splits option.splits if_splits prod.splits) (metis fst_conv)+
    then show ?thesis using k by (intro exI [of _ k]) auto
  qed
qed

definition had_refs :: "('v \<Rightarrow> string \<Rightarrow> oid option) \<Rightarrow> 'v option \<Rightarrow> string \<Rightarrow> oid option" where
  "had_refs refs_of mirror = (case mirror of Some g \<Rightarrow> refs_of g | None \<Rightarrow> Map.empty)"

lemma fetch_remote_refs:
  assumes "mirror_law V refs_of" and "mirror_tip P X RJ login RC dr dk s = Inr f" and "bt_wf (er_refs (fr_refs f))"
    and "fetch_remote P X RJ login RC dr V dk s mi = (mi', res)"
  obtains k where "k \<le> length (shown_refs (er_refs (fr_refs f)))"
    "had_refs refs_of mi' = had_refs refs_of mi ++ map_of (take k (shown_refs (er_refs (fr_refs f))))"
    "\<And>summary. res = Inr summary \<Longrightarrow> k = length (shown_refs (er_refs (fr_refs f))) \<and> summary = mirror_summary (fr_head f) k"
proof -
  let ?S = "shown_refs (er_refs (fr_refs f))"
  have "distinct (map fst ?S)" using bt_wf_distinct [OF assms(3)] by (simp add: shown_refs_def distinct_map_filter)
  then have "distinct (map fst (rev (take k ?S)))" for k by (simp add: take_map [symmetric] rev_map [symmetric])
  then have dist: "map_of (rev (take k ?S)) = map_of (take k ?S)" for k
    by (intro map_of_inject_set [THEN iffD2]) (auto simp: take_map [symmetric] rev_map [symmetric])
  show thesis
  proof (cases "case mi of Some g \<Rightarrow> Some g | None \<Rightarrow> mg_init V")
    case None
    then show thesis using assms(2,4) that [of 0] by (auto simp: fetch_remote_def had_refs_def split: option.splits)
  next
    case (Some g)
    have g: "refs_of g = had_refs refs_of mi"
      using Some assms(1) by (auto simp: had_refs_def mirror_law_def split: option.splits)
    obtain g1 r1 where im: "import_tip V f g = (g1, r1)" by fastforce
    from import_tip_refs [OF assms(1) im] dist g obtain k where k: "k \<le> length ?S"
      "refs_of g1 = had_refs refs_of mi ++ map_of (take k ?S)" "\<forall>n. r1 = Inr n \<longrightarrow> k = length ?S \<and> n = k" by auto
    have "mi' = Some g1 \<and> (\<forall>summary. res = Inr summary \<longrightarrow> (\<exists>n. r1 = Inr n \<and> summary = mirror_summary (fr_head f) n))"
      using assms(2,4) Some im by (auto simp: fetch_remote_def split: sum.splits if_splits)
    then show thesis using k that [of k] by (auto simp: had_refs_def)
  qed
qed

text \<open>
  After a fetch the mirror has every ref of the published tip that may be shown, at the published
  commit, and every other ref is as it was: a branch deleted upstream stays.
\<close>

theorem mirror_shows_tip:
  assumes "mirror_law V refs_of" and "mirror_tip P X RJ login RC dr dk s = Inr f" and "bt_wf (er_refs (fr_refs f))"
    and "mirror_fetch explain P X RJ login RC dr V dk s st = (st', Inr ())"
  shows "\<exists>g. mirror_repo st' = Some g \<and> refs_of g n =
    (case (if allowed_ref n then map_of (er_refs (fr_refs f)) n else None) of
       Some oid \<Rightarrow> Some oid
     | None \<Rightarrow> had_refs refs_of (rs_mirror st) n)"
proof -
  let ?R = "er_refs (fr_refs f)"
  obtain mi' summary where fr: "fetch_remote P X RJ login RC dr V dk s (rs_mirror st) = (mi', Inr summary)"
    "st' = st\<lparr>rs_mirror := mi', rs_repo := True, rs_error := None, rs_summary := Some summary\<rparr>"
    using assms(4) by (auto simp: mirror_fetch_def split: prod.splits sum.splits)
  from fetch_remote_refs [OF assms(1-3) fr(1)] have refs: "had_refs refs_of mi' = had_refs refs_of (rs_mirror st) ++ map_of (shown_refs ?R)"
    by auto
  obtain g where g: "mi' = Some g" using fr(1) assms(2) by (auto simp: fetch_remote_def split: option.splits sum.splits prod.splits)
  have "map_of (shown_refs R) n = (if allowed_ref n then map_of R n else None)" for R
    by (induction R) (auto simp: shown_refs_def)
  then show ?thesis using refs g
    by (auto simp: fr(2) mirror_repo_def had_refs_def map_add_def split: option.split)
qed

text \<open>
  A fetch that fails on the way does not preserve the mirror: the page keeps the handle and the summary of the last
  success, but the directory behind it holds the refs of the new tip up to the one that failed.
\<close>

theorem failed_refresh_mixes:
  assumes "mirror_law V refs_of" and "mirror_tip P X RJ login RC dr dk s = Inr f" and "bt_wf (er_refs (fr_refs f))"
    and "mirror_fetch explain P X RJ login RC dr V dk s st = (st', Inl e)"
  shows "rs_repo st' = rs_repo st \<and> rs_summary st' = rs_summary st \<and> (\<exists>k \<le> length (shown_refs (er_refs (fr_refs f))).
    had_refs refs_of (rs_mirror st') = had_refs refs_of (rs_mirror st) ++ map_of (take k (shown_refs (er_refs (fr_refs f)))))"
proof -
  obtain mi' e' where fr: "fetch_remote P X RJ login RC dr V dk s (rs_mirror st) = (mi', Inl e')"
    "st' = st\<lparr>rs_mirror := mi', rs_error := Some (explain e')\<rparr>"
    using assms(4) by (auto simp: mirror_fetch_def split: prod.splits sum.splits)
  show ?thesis using fetch_remote_refs [OF assms(1-3) fr(1)] by (auto simp: fr(2))
qed

text \<open>A fetch that learns nothing changes nothing but the error shown.\<close>

theorem refresh_without_tip:
  assumes "mirror_tip P X RJ login RC dr dk s = Inl e"
  shows "mirror_fetch explain P X RJ login RC dr V dk s st = (st\<lparr>rs_error := Some (explain e)\<rparr>, Inl (bail (explain e)))"
  using assms by (simp add: mirror_fetch_def fetch_remote_def)

section \<open>Closed examples\<close>

lemma demo_plan_opens:
  obtains J c plan h refs where
    "build_push_plan demo_prims demo_hex J K demo_draw repo [1, 2, 3] [] None demo_material [] 1 False False = Inr (plan, h, refs)"
    "\<forall>b. to_json J refs = Some b \<longrightarrow> from_json J b = Some refs" "pp_chunks plan = [c]" "bundle_fits [1, 2, 3]"
    "hex_encode demo_hex (fix_len 16 (pd_push_id demo_draw)) \<noteq> []"
proof -
  let ?pid = "hex_encode demo_hex (fix_len 16 (pd_push_id demo_draw))"
  obtain cs where cs: "bundle_chunks_seek demo_prims demo_hex (pd_nonces demo_draw) repo ?pid [1, 2, 3] (fix_len 32 (pd_dek demo_draw)) = Inr cs"
    unfolding bundle_chunks_seek_def Let_def using chunk_loop_ok by blast
  define J where "J = \<lparr>to_json = (\<lambda>r. Some []), from_json = (\<lambda>_. Some \<lparr>er_refs = [], er_head = None, er_push_id = ?pid,
      er_chunk_ids = map (\<lambda>c. id_to_hex demo_hex (bm_id (ec_meta c))) cs\<rparr>)\<rparr>"
  from build_push_plan_unsigned_ok [OF demo_epoch_key, where J = J] obtain plan h refs where
    plan: "build_push_plan demo_prims demo_hex J K demo_draw repo [1, 2, 3] [] None demo_material [] 1 False False = Inr (plan, h, refs)"
    by (metis J_def refs_json.select_convs(1))
  from plan cs have pc: "pp_chunks plan = cs"
    by (rule_tac build_push_plan_shape [OF plan]) simp
  have "unat (chunk_total [1, 2, 3]) = 1"
    by (simp add: chunk_total_def div_ceil_def BUNDLE_CHUNK_SIZE_def)
  then obtain c where c: "cs = [c]"
    using cs by (auto simp: bundle_chunks_seek_def Let_def rbind_Inr_conv)
  have "\<forall>b. to_json J refs = Some b \<longrightarrow> from_json J b = Some refs"
    using plan by (rule_tac build_push_plan_shape [OF plan]) (simp add: J_def pc)
  moreover have "?pid \<noteq> []" by (simp add: demo_hex_def fix_len_def demo_draw_def)
  ultimately show thesis
    using that [OF plan] pc c by (simp add: bundle_fits_def BUNDLE_CHUNK_SIZE_def)
qed

lemma web_remove_keeps_keys_witness:
  "\<exists>r dk' sv' J get h refs.
     apply_access demo_prims (\<lambda>_. None) demo_hex demo_parsers (\<lambda>_. []) demo_openmls \<lparr>gj_print = (\<lambda>_. None), gj_parse = (\<lambda>_. None)\<rparr>
       demo_group_draws [] (demo_auth ''ann'')
       \<lparr>af_action = ''remove'', af_user = ''bob'', af_history = [], af_confirm = []\<rparr> (demo_desk r) demo_team = (dk', sv', Inr ''/settings/access'') \<and>
     ''bob'' \<notin> access ''ann'' ''r'' sv' \<and>
     fetch_head_bundle demo_prims demo_hex J get [] [] demo_repo demo_material h = Inr \<lparr>fr_head = h, fr_refs = refs, fr_bundle = [1, 2, 3]\<rparr>"
proof -
  obtain r where r: "rr_name r = demo_name" "rr_id r = demo_repo" "http_get_repo (demo_auth ''ann'') demo_name demo_team = Inr r"
    using demo_tracker_ready by (metis insertI1)
  let ?form = "\<lparr>af_action = ''remove'', af_user = ''bob'', af_history = [], af_confirm = []\<rparr>"
  let ?GJ = "\<lparr>gj_print = (\<lambda>_. None), gj_parse = (\<lambda>_. None)\<rparr>"
  have "''ann'' \<in> access ''ann'' ''r'' demo_team" by (rule owner_access [OF demo_team_inv])
  then obtain sv' where rm: "remove_collab [] (demo_auth ''ann'') ''ann'' ''r'' ''bob'' demo_team = (sv', Inr ())"
    by (simp add: remove_collab_def require_member_access demo_auth_user Let_def)
  have run: "apply_access demo_prims (\<lambda>_. None) demo_hex demo_parsers (\<lambda>_. []) demo_openmls ?GJ demo_group_draws [] (demo_auth ''ann'')
      ?form (demo_desk r) demo_team = (demo_desk r, sv', Inr ''/settings/access'')"
    by (simp add: apply_access_def load_repo_record_def demo_desk_def http_remove_collaborator_def r demo_auth_user rm)
  obtain J c plan h refs where p:
    "build_push_plan demo_prims demo_hex J (push_keys_of demo_openmls (rr_id r) (dv_repos (dk_dv (demo_desk r)) (rr_id r))) demo_draw (rr_id r)
       [1, 2, 3] [] None demo_material [] 1 False False = Inr (plan, h, refs)"
    "\<forall>b. to_json J refs = Some b \<longrightarrow> from_json J b = Some refs" "pp_chunks plan = [c]" "bundle_fits [1, 2, 3]"
    "hex_encode demo_hex (fix_len 16 (pd_push_id demo_draw)) \<noteq> []"
    by (rule demo_plan_opens)
  have "load_epoch_material (dv_repos (dk_dv (demo_desk r)) (rr_id r)) = Inr demo_material"
    by (simp add: demo_desk_def demo_device_def load_epoch_material_def demo_dir_epoch ok_or_def)
  from web_remove_keeps_keys [OF demo_team_inv _ _ _ run p(1) this p(4) demo_hex_roundtrips p(5,2),
      where m_removed = demo_material and rng = "[]" and rng' = "[]" and get = "\<lambda>_. Inr (ec_ciphertext c)"]
  have "''bob'' \<notin> access ''ann'' ''r'' sv' \<and>
      fetch_head_bundle demo_prims demo_hex J (\<lambda>_. Inr (ec_ciphertext c)) [] [] demo_repo demo_material h
        = Inr \<lparr>fr_head = h, fr_refs = refs, fr_bundle = [1, 2, 3]\<rparr>"
    by (simp add: demo_desk_def r p(3) epoch_key_def [symmetric] demo_epoch_key)
  with run show ?thesis by blast
qed

lemma web_actions_refine_witness:
  "\<exists>r dk' e. apply_issue_action demo_prims demo_json (demo_desk_client ''ann'') [] ''1'' ''comment'' ''hi'' (demo_desk r) demo_team
     = (dk', demo_team, Inl e)"
proof -
  obtain r where r: "rr_name r = demo_name" "rr_id r = demo_repo" "http_get_repo (demo_auth ''ann'') demo_name demo_team = Inr r"
    using demo_tracker_ready by (metis insertI1)
  have none: "tracker demo_prims demo_json k demo_repo demo_team i = None" for k i
    using demo_team_queue by (simp add: tracker_def mail_def map_filter_simps issue_now_def)
  show ?thesis
    using web_actions_refine [OF demo_ready [OF _ r] demo_json_ok, where i = "''1''" and action = "''comment''" and body = "''hi''" and nonce = "[]"]
      demo_team_queue by (auto simp: r(2) none abs_action_def)
qed

end
