(* ===== verification/Records.thy ===== *)
theory Records
  imports Tickets
begin

text \<open>
  The commands of \<^verbatim>\<open>safehub-cli\<close> whose state is a fold of the decrypted inbox: \<^verbatim>\<open>label\<close>, \<^verbatim>\<open>milestone\<close>,
  \<^verbatim>\<open>secret\<close>, \<^verbatim>\<open>variable\<close>, \<^verbatim>\<open>gist\<close>, \<^verbatim>\<open>project\<close>, \<^verbatim>\<open>codespace\<close>, \<^verbatim>\<open>run\<close> and \<^verbatim>\<open>release\<close>
  (cmds/label.rs, milestone.rs, secret.rs, variable.rs, gist.rs, project.rs, workflow.rs, release.rs).
  Every command either reads the whole mailbox or adds one message to the queue; what differs is the fold.
\<close>

section \<open>Reading and sending\<close>

text \<open>Resolve the repository, load the material, synchronise, and fold the cache.\<close>

definition read_with ::
    "prims \<Rightarrow> inbox_json \<Rightarrow> 'h desk_client \<Rightarrow> string option \<Rightarrow> (epoch_material \<Rightarrow> (u64 \<times> collab_message) list \<Rightarrow> client_error + 'r) \<Rightarrow>
     'g desk \<Rightarrow> 'h \<Rightarrow> 'g desk \<times> (client_error + 'r)" where
  "read_with P J C explicit f dk s =
     (case open_repo C explicit dk s of
        Inl e \<Rightarrow> (dk, Inl e)
      | Inr (r, m) \<Rightarrow> apsnd (\<lambda>res. rbind res (f m)) (read_mail P J C (rr_id r) m dk s))"

text \<open>The name is asked for before anything else.\<close>

definition send_named ::
    "prims \<Rightarrow> inbox_json \<Rightarrow> 'h desk_client \<Rightarrow> bytes \<Rightarrow> string option \<Rightarrow> string \<Rightarrow> string option \<Rightarrow> (string \<Rightarrow> collab_message) \<Rightarrow> string \<Rightarrow>
     'g desk \<Rightarrow> 'h \<Rightarrow> 'g desk \<times> 'h \<times> (client_error + u64)" where
  "send_named P J C nonce explicit why name build hint dk s =
     (case name of
        None \<Rightarrow> (dk, s, Inl (bail why))
      | Some nm \<Rightarrow> send_message P J C nonce explicit (build nm) hint dk s)"

text \<open>A register of named entries: \<^verbatim>\<open>delete\<close> removes the name, any other action writes it.\<close>

definition apply_change :: "string \<Rightarrow> 'v \<Rightarrow> string \<Rightarrow> (string \<times> 'v) list \<Rightarrow> (string \<times> 'v) list" where
  "apply_change nm v act entries = (if act = ''delete'' then bt_remove nm entries else bt_insert nm v entries)"

definition first_of :: "string \<Rightarrow> 'a list \<Rightarrow> client_error + 'a" where
  "first_of why xs = (case xs of [] \<Rightarrow> Inl (bail why) | x # _ \<Rightarrow> Inr x)"

section \<open>Labels\<close>

definition labels_of :: "(u64 \<times> collab_message) list \<Rightarrow> (string \<times> string option \<times> string option) list" where
  "labels_of msgs =
     fold (\<lambda>(_, msg) seen. case msg of Label nm color descr act \<Rightarrow> apply_change nm (color, descr) act seen | _ \<Rightarrow> seen) msgs []"

definition unwrap_or_default :: "string option \<Rightarrow> string" where
  "unwrap_or_default x = (case x of Some s \<Rightarrow> s | None \<Rightarrow> [])"

definition label_list ::
    "prims \<Rightarrow> inbox_json \<Rightarrow> 'h desk_client \<Rightarrow> string option \<Rightarrow> 'g desk \<Rightarrow> 'h \<Rightarrow> 'g desk \<times> (client_error + (string \<times> string \<times> string) list)" where
  "label_list P J C explicit =
     read_with P J C explicit (\<lambda>_ msgs. Inr (map (\<lambda>(nm, color, descr). (nm, unwrap_or_default color, unwrap_or_default descr)) (labels_of msgs)))"

definition label_create where
  "label_create P J C nonce explicit name color descr =
     send_named P J C nonce explicit ''label name required'' name (\<lambda>nm. Label nm color descr ''create'') ''label''"

definition label_delete where
  "label_delete P J C nonce explicit name =
     send_named P J C nonce explicit ''label name required'' name (\<lambda>nm. Label nm None None ''delete'') ''label-delete''"

section \<open>Milestones\<close>

record folded_milestone =
  fm_title :: string
  fm_due :: "string option"
  fm_state :: string

definition upsert_milestone :: "string \<Rightarrow> string option \<Rightarrow> string \<Rightarrow> (string \<times> folded_milestone) list \<Rightarrow> (string \<times> folded_milestone) list" where
  "upsert_milestone title due st ms =
     (let e0 = (case map_of ms title of Some e \<Rightarrow> e | None \<Rightarrow> \<lparr>fm_title = title, fm_due = due, fm_state = st\<rparr>);
          e1 = (if due \<noteq> None then e0\<lparr>fm_due := due\<rparr> else e0);
          e2 = (if st \<noteq> [] then e1\<lparr>fm_state := st\<rparr> else e1)
      in bt_insert title e2 ms)"

definition milestone_map :: "(u64 \<times> collab_message) list \<Rightarrow> (string \<times> folded_milestone) list" where
  "milestone_map msgs = fold (\<lambda>(_, msg) ms. case msg of Milestone title due st \<Rightarrow> upsert_milestone title due st ms | _ \<Rightarrow> ms) msgs []"

definition fold_milestones :: "(u64 \<times> collab_message) list \<Rightarrow> folded_milestone list" where
  "fold_milestones msgs = map snd (milestone_map msgs)"

definition milestone_create where
  "milestone_create P J C nonce explicit title due = send_message P J C nonce explicit (Milestone title due ''open'') ''milestone''"

definition milestone_list ::
    "prims \<Rightarrow> inbox_json \<Rightarrow> 'h desk_client \<Rightarrow> string option \<Rightarrow> string option \<Rightarrow> 'g desk \<Rightarrow> 'h \<Rightarrow>
     'g desk \<times> (client_error + (string \<times> string \<times> string) list)" where
  "milestone_list P J C explicit state =
     (let flt = (case state of Some st \<Rightarrow> st | None \<Rightarrow> ''open'')
      in read_with P J C explicit (\<lambda>_ msgs. Inr
           (map (\<lambda>m. (fm_state m, fm_title m, case fm_due m of Some d \<Rightarrow> d | None \<Rightarrow> ''-''))
             (filter (\<lambda>m. \<not> (flt \<noteq> ''all'' \<and> fm_state m \<noteq> flt)) (fold_milestones msgs)))))"

definition set_state ::
    "prims \<Rightarrow> inbox_json \<Rightarrow> 'h desk_client \<Rightarrow> bytes \<Rightarrow> string option \<Rightarrow> string \<Rightarrow> string \<Rightarrow> 'g desk \<Rightarrow> 'h \<Rightarrow>
     'g desk \<times> 'h \<times> (client_error + unit)" where
  "set_state P J C nonce explicit title st dk s =
     (case open_repo C explicit dk s of
        Inl e \<Rightarrow> (dk, s, Inl e)
      | Inr (r, m) \<Rightarrow>
          (case read_mail P J C (rr_id r) m dk s of
             (dk1, Inl e) \<Rightarrow> (dk1, s, Inl e)
           | (dk1, Inr msgs) \<Rightarrow>
               (let due = Option.bind (find (\<lambda>m. fm_title m = title) (fold_milestones msgs)) fm_due
                in case enqueue_collab P J (dc_mls C (rr_id r)) nonce m (Milestone title due st) ''milestone-state'' s of
                     (s1, res) \<Rightarrow> (dk1, s1, rbind res (\<lambda>_. Inr ())))))"

definition milestone_close where
  "milestone_close P J C nonce explicit title = set_state P J C nonce explicit title ''closed''"

definition milestone_reopen where
  "milestone_reopen P J C nonce explicit title = set_state P J C nonce explicit title ''open''"

section \<open>Secrets and variables\<close>

text \<open>With a key package the seal key is derived from the transport secret, and the key package only binds.\<close>

definition seal_secret_for_runner ::
    "prims \<Rightarrow> bytes \<Rightarrow> epoch_material \<Rightarrow> bytes \<Rightarrow> bytes option \<Rightarrow> client_error + bytes" where
  "seal_secret_for_runner P nonce m pt runner_kp =
     (case runner_kp of
        Some kp \<Rightarrow>
          (let aad = domain_label ''secret-kp'' @ kp
           in rbind (map_err AeadErr (derive_secret_seal_key P (em_transport m)))
                (\<lambda>key. map_err AeadErr (aead_seal P key aad pt nonce)))
      | None \<Rightarrow> seal_collab P nonce m pt)"

definition secret_names :: "(u64 \<times> collab_message) list \<Rightarrow> (string \<times> unit) list" where
  "secret_names msgs = fold (\<lambda>(_, msg) names. case msg of Secret nm _ _ act \<Rightarrow> apply_change nm () act names | _ \<Rightarrow> names) msgs []"

definition secret_list ::
    "prims \<Rightarrow> inbox_json \<Rightarrow> 'h desk_client \<Rightarrow> string option \<Rightarrow> 'g desk \<Rightarrow> 'h \<Rightarrow> 'g desk \<times> (client_error + string list)" where
  "secret_list P J C explicit = read_with P J C explicit (\<lambda>_ msgs. Inr (map fst (secret_names msgs)))"

text \<open>\<open>env\<close> is the environment variable that stands in for the argument; the first key package of the runner is taken.\<close>

definition secret_set ::
    "prims \<Rightarrow> inbox_json \<Rightarrow> 'h desk_client \<Rightarrow> bytes \<Rightarrow> bytes \<Rightarrow> string option \<Rightarrow> string option \<Rightarrow> bytes option \<Rightarrow> bytes option \<Rightarrow> user_id option \<Rightarrow>
     'g desk \<Rightarrow> 'h \<Rightarrow> 'g desk \<times> 'h \<times> (client_error + u64)" where
  "secret_set P J C nonce nonce2 explicit name body env runner dk s =
     (case name of
        None \<Rightarrow> (dk, s, Inl (bail ''secret name required''))
      | Some nm \<Rightarrow>
          (case (case body of Some b \<Rightarrow> Some b | None \<Rightarrow> env) of
             None \<Rightarrow> (dk, s, Inl (bail ''provide --body or SAFEHUB_SECRET_VALUE env''))
           | Some v \<Rightarrow>
               (case open_repo C explicit dk s of
                  Inl e \<Rightarrow> (dk, s, Inl e)
                | Inr (r, m) \<Rightarrow>
                    (case (case runner of
                             None \<Rightarrow> Inr None
                           | Some u \<Rightarrow> rbind (mc_list_key_packages (dc_mls C (rr_id r)) u s)
                               (\<lambda>pkgs. Inr (case pkgs of [] \<Rightarrow> None | p # _ \<Rightarrow> Some (kpr_key_package p)))) of
                       Inl e \<Rightarrow> (dk, s, Inl e)
                     | Inr kp \<Rightarrow>
                         (case seal_secret_for_runner P nonce m v kp of
                            Inl e \<Rightarrow> (dk, s, Inl e)
                          | Inr sealed \<Rightarrow>
                              (dk, enqueue_collab P J (dc_mls C (rr_id r)) nonce2 m (Secret nm sealed runner ''set'') ''secret'' s))))))"

definition secret_delete where
  "secret_delete P J C nonce explicit name =
     send_named P J C nonce explicit ''secret name required'' name (\<lambda>nm. Secret nm [] None ''delete'') ''secret-delete''"

definition variable_names :: "(u64 \<times> collab_message) list \<Rightarrow> (string \<times> unit) list" where
  "variable_names msgs = fold (\<lambda>(_, msg) names. case msg of Variable nm _ act \<Rightarrow> apply_change nm () act names | _ \<Rightarrow> names) msgs []"

definition variable_list ::
    "prims \<Rightarrow> inbox_json \<Rightarrow> 'h desk_client \<Rightarrow> string option \<Rightarrow> 'g desk \<Rightarrow> 'h \<Rightarrow> 'g desk \<times> (client_error + string list)" where
  "variable_list P J C explicit = read_with P J C explicit (\<lambda>_ msgs. Inr (map fst (variable_names msgs)))"

definition variable_sealed :: "string \<Rightarrow> (u64 \<times> collab_message) list \<Rightarrow> bytes option" where
  "variable_sealed name msgs =
     fold (\<lambda>(_, msg) sealed. case msg of
             Variable nm v act \<Rightarrow> if nm \<noteq> name then sealed else if act = ''delete'' then None else Some v
           | _ \<Rightarrow> sealed) msgs None"

definition variable_get ::
    "prims \<Rightarrow> inbox_json \<Rightarrow> 'h desk_client \<Rightarrow> string option \<Rightarrow> string \<Rightarrow> 'g desk \<Rightarrow> 'h \<Rightarrow> 'g desk \<times> (client_error + bytes)" where
  "variable_get P J C explicit name =
     read_with P J C explicit (\<lambda>m msgs.
       rbind (ok_or (bail (''variable '' @ name @ '' not found'')) (variable_sealed name msgs)) (open_collab P m))"

definition variable_set ::
    "prims \<Rightarrow> inbox_json \<Rightarrow> 'h desk_client \<Rightarrow> bytes \<Rightarrow> bytes \<Rightarrow> string option \<Rightarrow> string option \<Rightarrow> bytes option \<Rightarrow> bytes option \<Rightarrow>
     'g desk \<Rightarrow> 'h \<Rightarrow> 'g desk \<times> 'h \<times> (client_error + u64)" where
  "variable_set P J C nonce nonce2 explicit name body env dk s =
     (case name of
        None \<Rightarrow> (dk, s, Inl (bail ''variable name required''))
      | Some nm \<Rightarrow>
          (case (case body of Some b \<Rightarrow> Some b | None \<Rightarrow> env) of
             None \<Rightarrow> (dk, s, Inl (bail ''provide --body or SAFEHUB_VARIABLE_VALUE env''))
           | Some v \<Rightarrow>
               (case open_repo C explicit dk s of
                  Inl e \<Rightarrow> (dk, s, Inl e)
                | Inr (r, m) \<Rightarrow>
                    (case seal_secret_for_runner P nonce m v None of
                       Inl e \<Rightarrow> (dk, s, Inl e)
                     | Inr sealed \<Rightarrow>
                         (dk, enqueue_collab P J (dc_mls C (rr_id r)) nonce2 m (Variable nm sealed ''set'') ''variable'' s)))))"

definition variable_delete where
  "variable_delete P J C nonce explicit name =
     send_named P J C nonce explicit ''variable name required'' name (\<lambda>nm. Variable nm [] ''delete'') ''variable-delete''"

section \<open>Gists\<close>

text \<open>\<^verbatim>\<open>Path::file_name\<close> on a path with forward slashes.\<close>

definition file_name :: "string \<Rightarrow> string option" where
  "file_name p =
     (let comps = filter (\<lambda>c. c \<noteq> [] \<and> c \<noteq> ''.'') (split_on (CHR ''/'') p)
      in if comps = [] \<or> last comps = ''..'' then None else Some (last comps))"

text \<open>The files named on the command line, with what reading each gives.\<close>

fun read_named :: "(string \<times> string option) list \<Rightarrow> (string \<times> string) list \<Rightarrow> client_error + (string \<times> string) list" where
  "read_named [] acc = Inr acc"
| "read_named ((_, None) # files) acc = Inl Io"
| "read_named ((p, Some body) # files) acc =
     read_named files (bt_insert (case file_name p of Some n \<Rightarrow> n | None \<Rightarrow> ''file'') body acc)"

definition gist_create ::
    "prims \<Rightarrow> inbox_json \<Rightarrow> 'h desk_client \<Rightarrow> ((string \<times> string) list \<Rightarrow> bytes) \<Rightarrow> string \<Rightarrow> bytes \<Rightarrow> bytes \<Rightarrow> string option \<Rightarrow>
     (string \<times> string option) list \<Rightarrow> string option \<Rightarrow> 'g desk \<Rightarrow> 'h \<Rightarrow> 'g desk \<times> 'h \<times> (client_error + string \<times> u64 \<times> blob_id)" where
  "gist_create P J C js short_id nonce nonce2 explicit files descr dk s =
     (case open_repo C explicit dk s of
        Inl e \<Rightarrow> (dk, s, Inl e)
      | Inr (r, m) \<Rightarrow>
          (case read_named files [] of
             Inl e \<Rightarrow> (dk, s, Inl e)
           | Inr entries \<Rightarrow>
               if entries = [] then (dk, s, Inl (bail ''provide at least one file''))
               else let ident = ''gist-'' @ short_id
                    in case put_sealed_object P (mc_host (dc_mls C (rr_id r))) nonce m (js entries) (''gist-'' @ ident) s of
                         (s1, Inl e) \<Rightarrow> (dk, s1, Inl e)
                       | (s1, Inr blob) \<Rightarrow>
                           (case enqueue_collab P J (dc_mls C (rr_id r)) nonce2 m (Gist ident descr entries ''create'') ''gist'' s1 of
                              (s2, res) \<Rightarrow> (dk, s2, rbind res (\<lambda>n. Inr (ident, n, blob))))))"

definition gists_of :: "(u64 \<times> collab_message) list \<Rightarrow> (string \<times> string) list" where
  "gists_of msgs =
     fold (\<lambda>(_, msg) live. case msg of Gist ident descr _ act \<Rightarrow> apply_change ident (unwrap_or_default descr) act live | _ \<Rightarrow> live) msgs []"

definition gist_list ::
    "prims \<Rightarrow> inbox_json \<Rightarrow> 'h desk_client \<Rightarrow> string option \<Rightarrow> 'g desk \<Rightarrow> 'h \<Rightarrow> 'g desk \<times> (client_error + (string \<times> string) list)" where
  "gist_list P J C explicit = read_with P J C explicit (\<lambda>_ msgs. Inr (gists_of msgs))"

definition gist_bodies :: "string \<Rightarrow> (u64 \<times> collab_message) list \<Rightarrow> (string option \<times> (string \<times> string) list) list" where
  "gist_bodies ident msgs =
     List.map_filter (\<lambda>(_, msg). case msg of
       Gist i descr files act \<Rightarrow> if i = ident \<and> act \<noteq> ''delete'' then Some (descr, files) else None | _ \<Rightarrow> None) msgs"

definition gist_view ::
    "prims \<Rightarrow> inbox_json \<Rightarrow> 'h desk_client \<Rightarrow> string option \<Rightarrow> string option \<Rightarrow> 'g desk \<Rightarrow> 'h \<Rightarrow>
     'g desk \<times> (client_error + string option \<times> (string \<times> string) list)" where
  "gist_view P J C explicit name dk s =
     (case name of
        None \<Rightarrow> (dk, Inl (bail ''gist id required''))
      | Some ident \<Rightarrow>
          read_with P J C explicit (\<lambda>_ msgs. first_of (''gist '' @ ident @ '' not found'') (gist_bodies ident msgs)) dk s)"

definition gist_edit ::
    "prims \<Rightarrow> inbox_json \<Rightarrow> 'h desk_client \<Rightarrow> bytes \<Rightarrow> string option \<Rightarrow> string option \<Rightarrow> (string \<times> string option) list \<Rightarrow>
     'g desk \<Rightarrow> 'h \<Rightarrow> 'g desk \<times> 'h \<times> (client_error + u64)" where
  "gist_edit P J C nonce explicit name files dk s =
     (case name of
        None \<Rightarrow> (dk, s, Inl (bail ''gist id required''))
      | Some ident \<Rightarrow>
          (case open_repo C explicit dk s of
             Inl e \<Rightarrow> (dk, s, Inl e)
           | Inr (r, m) \<Rightarrow>
               (case read_named files [] of
                  Inl e \<Rightarrow> (dk, s, Inl e)
                | Inr entries \<Rightarrow>
                    (dk, enqueue_collab P J (dc_mls C (rr_id r)) nonce m (Gist ident None entries ''edit'') ''gist-edit'' s))))"

definition gist_delete where
  "gist_delete P J C nonce explicit name =
     send_named P J C nonce explicit ''gist id required'' name (\<lambda>i. Gist i None [] ''delete'') ''gist-delete''"

section \<open>Boards and codespace drafts\<close>

definition boards_of :: "(u64 \<times> collab_message) list \<Rightarrow> (string \<times> string \<times> (string \<times> string list) list) list" where
  "boards_of msgs =
     List.map_filter (\<lambda>(_, msg). case msg of
       Project i title cols act \<Rightarrow> if act \<noteq> ''delete'' then Some (i, title, cols) else None | _ \<Rightarrow> None) msgs"

definition project_list ::
    "prims \<Rightarrow> inbox_json \<Rightarrow> 'h desk_client \<Rightarrow> string option \<Rightarrow> 'g desk \<Rightarrow> 'h \<Rightarrow> 'g desk \<times> (client_error + (string \<times> string) list)" where
  "project_list P J C explicit = read_with P J C explicit (\<lambda>_ msgs. Inr (map (\<lambda>(i, title, _). (i, title)) (boards_of msgs)))"

definition project_view ::
    "prims \<Rightarrow> inbox_json \<Rightarrow> 'h desk_client \<Rightarrow> string option \<Rightarrow> u32 option \<Rightarrow> 'g desk \<Rightarrow> 'h \<Rightarrow>
     'g desk \<times> (client_error + string \<times> string \<times> (string \<times> string list) list)" where
  "project_view P J C explicit number dk s =
     (case number of
        None \<Rightarrow> (dk, Inl (bail ''project number/id required''))
      | Some n \<Rightarrow>
          (let want = dec_string (unat n)
           in read_with P J C explicit (\<lambda>_ msgs.
                first_of ''project not found'' (filter (\<lambda>(i, title, _). i = want \<or> title = want) (boards_of msgs))) dk s))"

definition project_create ::
    "prims \<Rightarrow> inbox_json \<Rightarrow> 'h desk_client \<Rightarrow> string \<Rightarrow> bytes \<Rightarrow> string option \<Rightarrow> string option \<Rightarrow> 'g desk \<Rightarrow> 'h \<Rightarrow>
     'g desk \<times> 'h \<times> (client_error + u64)" where
  "project_create P J C short_id nonce explicit title =
     send_message P J C nonce explicit
       (Project (take 6 short_id) (case title of Some t \<Rightarrow> t | None \<Rightarrow> ''Project'')
          (bt_insert ''Done'' [] (bt_insert ''In Progress'' [] (bt_insert ''Todo'' [] []))) ''create'') ''project''"

definition drafts_of :: "(u64 \<times> collab_message) list \<Rightarrow> string list" where
  "drafts_of msgs =
     List.map_filter (\<lambda>(_, msg). case msg of
       CodespaceConfig nm _ act \<Rightarrow> if act \<noteq> ''delete'' then Some nm else None | _ \<Rightarrow> None) msgs"

definition codespace_list ::
    "prims \<Rightarrow> inbox_json \<Rightarrow> 'h desk_client \<Rightarrow> string option \<Rightarrow> 'g desk \<Rightarrow> 'h \<Rightarrow> 'g desk \<times> (client_error + string list)" where
  "codespace_list P J C explicit = read_with P J C explicit (\<lambda>_ msgs. Inr (drafts_of msgs))"

definition draft_config :: string where
  \<open>draft_config = ''{"image":"devcontainer","machine":"local-draft","note":"encrypted draft; not a hosted VM"}''\<close>

definition codespace_create ::
    "prims \<Rightarrow> inbox_json \<Rightarrow> 'h desk_client \<Rightarrow> string \<Rightarrow> bytes \<Rightarrow> string option \<Rightarrow> string option \<Rightarrow> string \<Rightarrow> 'g desk \<Rightarrow> 'h \<Rightarrow>
     'g desk \<times> 'h \<times> (client_error + u64)" where
  "codespace_create P J C short_id nonce explicit name config =
     send_message P J C nonce explicit
       (CodespaceConfig (case name of Some n \<Rightarrow> n | None \<Rightarrow> ''cs-'' @ short_id) (if config = [] then draft_config else config) ''create'')
       ''codespace''"

definition codespace_delete where
  "codespace_delete P J C nonce explicit name =
     send_named P J C nonce explicit ''name required'' name (\<lambda>nm. CodespaceConfig nm [] ''delete'') ''codespace-delete''"

section \<open>Workflows and runs\<close>

text \<open>\<^verbatim>\<open>Path::extension\<close>: what follows the last dot of the file name, unless that dot comes first.\<close>

definition path_ext :: "string \<Rightarrow> string option" where
  "path_ext p =
     Option.bind (file_name p) (\<lambda>n.
       let dots = split_on (CHR ''.'') n
       in if length dots < 2 \<or> (length dots = 2 \<and> hd dots = []) then None else Some (last dots))"

definition workflow_dirs :: "string list" where
  "workflow_dirs = [''.safehub/workflows'', ''.github/workflows'']"

text \<open>\<open>entries d\<close> is the listing of a directory, \<^term>\<open>None\<close> when \<open>d\<close> is none; \<open>body p\<close> is what reading an existing path gives.\<close>

definition workflow_list ::
    "'h desk_client \<Rightarrow> (string \<Rightarrow> string list option) \<Rightarrow> string option \<Rightarrow> 'g desk \<Rightarrow> 'h \<Rightarrow> client_error + string list" where
  "workflow_list C entries explicit dk s =
     rbind (resolve_repo C explicit dk s) (\<lambda>_. Inr (concat (map (\<lambda>d. case entries d of None \<Rightarrow> []
       | Some ns \<Rightarrow> filter (\<lambda>n. path_ext n = Some ''yml'' \<or> path_ext n = Some ''yaml'') ns) workflow_dirs)))"

fun find_workflow :: "(string \<Rightarrow> (client_error + string) option) \<Rightarrow> string \<Rightarrow> string list \<Rightarrow> client_error + string" where
  "find_workflow body name [] = Inl (bail (''workflow '' @ name @ '' not found in local encrypted checkout''))"
| "find_workflow body name (d # ds) =
     (case body (d @ ''/'' @ name) of
        Some res \<Rightarrow> res
      | None \<Rightarrow> (case body (d @ ''/'' @ name @ ''.yml'') of Some res \<Rightarrow> res | None \<Rightarrow> find_workflow body name ds))"

definition workflow_view ::
    "'h desk_client \<Rightarrow> (string \<Rightarrow> (client_error + string) option) \<Rightarrow> string option \<Rightarrow> string option \<Rightarrow> 'g desk \<Rightarrow> 'h \<Rightarrow> client_error + string" where
  "workflow_view C body explicit name dk s =
     rbind (resolve_repo C explicit dk s) (\<lambda>_.
     rbind (ok_or (bail ''workflow name required'') name) (\<lambda>nm. find_workflow body nm workflow_dirs))"

text \<open>\<open>head\<close> is the outcome of \<^verbatim>\<open>git rev-parse HEAD\<close>: none when git cannot be started, else its success and its output.\<close>

definition workflow_run ::
    "prims \<Rightarrow> inbox_json \<Rightarrow> 'h desk_client \<Rightarrow> string \<Rightarrow> (bool \<times> string) option \<Rightarrow> bytes \<Rightarrow> string option \<Rightarrow> string option \<Rightarrow> string option \<Rightarrow>
     'g desk \<Rightarrow> 'h \<Rightarrow> 'g desk \<times> 'h \<times> (client_error + u64)" where
  "workflow_run P J C short_id head nonce explicit name commit =
     send_named P J C nonce explicit ''workflow name required'' name (\<lambda>nm.
       WorkflowRun (''run-'' @ short_id) nm ''queued''
         (case commit of Some c \<Rightarrow> Some c | None \<Rightarrow> (case head of Some (True, out) \<Rightarrow> Some (trim out) | _ \<Rightarrow> None))) ''workflow-run''"

datatype run_row =
  Run_Row string string string string
| Verdict_Row string string string string

definition run_row_of :: "u64 \<times> collab_message \<Rightarrow> run_row option" where
  "run_row_of x =
     (case snd x of
        WorkflowRun i work st commit \<Rightarrow> Some (Run_Row i work st (unwrap_or_default commit))
      | CiVerdict commit st summary run \<Rightarrow> Some (Verdict_Row (unwrap_or_default run) st commit summary)
      | _ \<Rightarrow> None)"

definition run_list ::
    "prims \<Rightarrow> inbox_json \<Rightarrow> 'h desk_client \<Rightarrow> string option \<Rightarrow> 'g desk \<Rightarrow> 'h \<Rightarrow> 'g desk \<times> (client_error + run_row list)" where
  "run_list P J C explicit = read_with P J C explicit (\<lambda>_ msgs. Inr (List.map_filter run_row_of msgs))"

definition runs_named :: "string \<Rightarrow> (u64 \<times> collab_message) list \<Rightarrow> collab_message list" where
  "runs_named ident msgs =
     filter (\<lambda>msg. case msg of WorkflowRun i _ _ _ \<Rightarrow> i = ident | _ \<Rightarrow> False) (map snd msgs)"

definition run_view ::
    "prims \<Rightarrow> inbox_json \<Rightarrow> 'h desk_client \<Rightarrow> string option \<Rightarrow> string option \<Rightarrow> 'g desk \<Rightarrow> 'h \<Rightarrow> 'g desk \<times> (client_error + collab_message)" where
  "run_view P J C explicit name dk s =
     (case name of
        None \<Rightarrow> (dk, Inl (bail ''run id required''))
      | Some ident \<Rightarrow>
          read_with P J C explicit (\<lambda>_ msgs. first_of (''run '' @ ident @ '' not found in decrypted inbox'') (runs_named ident msgs)) dk s)"

text \<open>\<^verbatim>\<open>watch\<close> builds the view command, drops it, and lists the runs of the directory it stands in.\<close>

definition run_watch ::
    "prims \<Rightarrow> inbox_json \<Rightarrow> 'h desk_client \<Rightarrow> string option \<Rightarrow> string option \<Rightarrow> 'g desk \<Rightarrow> 'h \<Rightarrow> 'g desk \<times> (client_error + run_row list)" where
  "run_watch P J C explicit name = run_list P J C None"

definition run_rerun ::
    "prims \<Rightarrow> inbox_json \<Rightarrow> 'h desk_client \<Rightarrow> string \<Rightarrow> (bool \<times> string) option \<Rightarrow> bytes \<Rightarrow> bytes \<Rightarrow> string option \<Rightarrow> string option \<Rightarrow>
     string \<Rightarrow> string \<Rightarrow> string option \<Rightarrow> 'g desk \<Rightarrow> 'h \<Rightarrow> 'g desk \<times> 'h \<times> (client_error + u64)" where
  "run_rerun P J C short_id head nonce nonce2 explicit name st summary commit dk s =
     (case open_repo C explicit dk s of
        Inl e \<Rightarrow> (dk, s, Inl e)
      | Inr (r, m) \<Rightarrow>
          (let run = (case name of Some i \<Rightarrow> i | None \<Rightarrow> ''run-'' @ short_id);
               c = (case commit of Some c \<Rightarrow> c | None \<Rightarrow> (case head of Some (_, out) \<Rightarrow> trim out | None \<Rightarrow> []))
           in case enqueue_collab P J (dc_mls C (rr_id r)) nonce m (WorkflowRun run ''rerun'' ''completed'' (Some c)) ''run-rerun'' s of
                (s1, Inl e) \<Rightarrow> (dk, s1, Inl e)
              | (s1, Inr _) \<Rightarrow>
                  (dk, enqueue_collab P J (dc_mls C (rr_id r)) nonce2 m (CiVerdict c st summary (Some run)) ''ci-verdict'' s1)))"

definition run_cancel where
  "run_cancel P J C nonce explicit name =
     send_named P J C nonce explicit ''run id required'' name (\<lambda>i. WorkflowRun i [] ''cancelled'' None) ''run-cancel''"

section \<open>Releases\<close>

definition asset_name :: "string \<Rightarrow> string" where
  "asset_name p = (case file_name p of Some n \<Rightarrow> n | None \<Rightarrow> ''asset'')"

text \<open>Upload the assets, in order; an unreadable file or a refused upload ends the command.\<close>

fun upload_assets ::
    "prims \<Rightarrow> hex_codec \<Rightarrow> 'h host \<Rightarrow> (nat \<Rightarrow> string) \<Rightarrow> (nat \<Rightarrow> bytes) \<Rightarrow> nat \<Rightarrow> epoch_material \<Rightarrow> string \<Rightarrow> (string \<times> bytes option) list \<Rightarrow>
     string list \<Rightarrow> string list \<Rightarrow> 'h \<Rightarrow> 'h \<times> (client_error + string list \<times> string list)" where
  "upload_assets P X H short_id nonces k m tag [] ids names s = (s, Inr (ids, names))"
| "upload_assets P X H short_id nonces k m tag ((_, None) # files) ids names s = (s, Inl Io)"
| "upload_assets P X H short_id nonces k m tag ((p, Some b) # files) ids names s =
     (case put_sealed_object P H (nonces k) m b (''release-'' @ tag @ ''-'' @ short_id k) s of
        (s1, Inl e) \<Rightarrow> (s1, Inl e)
      | (s1, Inr i) \<Rightarrow>
          upload_assets P X H short_id nonces (k + 1) m tag files (ids @ [id_to_hex X i])
            (names @ [asset_name p]) s1)"

definition release_create ::
    "prims \<Rightarrow> inbox_json \<Rightarrow> 'h desk_client \<Rightarrow> hex_codec \<Rightarrow> (nat \<Rightarrow> string) \<Rightarrow> (nat \<Rightarrow> bytes) \<Rightarrow> bytes \<Rightarrow> string option \<Rightarrow> string \<Rightarrow> string \<Rightarrow>
     string \<Rightarrow> (string \<times> bytes option) list \<Rightarrow> 'g desk \<Rightarrow> 'h \<Rightarrow> 'g desk \<times> 'h \<times> (client_error + u64)" where
  "release_create P J C X short_id nonces nonce explicit tag title notes assets dk s =
     (case open_repo C explicit dk s of
        Inl e \<Rightarrow> (dk, s, Inl e)
      | Inr (r, m) \<Rightarrow>
          (case upload_assets P X (mc_host (dc_mls C (rr_id r))) short_id nonces 0 m tag assets [] [] s of
             (s1, Inl e) \<Rightarrow> (dk, s1, Inl e)
           | (s1, Inr (ids, names)) \<Rightarrow>
               (dk, enqueue_collab P J (dc_mls C (rr_id r)) nonce m
                  (Release tag (if title = [] then tag else title) notes ids names) ''release'' s1)))"

definition release_list ::
    "prims \<Rightarrow> inbox_json \<Rightarrow> 'h desk_client \<Rightarrow> string option \<Rightarrow> 'g desk \<Rightarrow> 'h \<Rightarrow> 'g desk \<times> (client_error + (string \<times> string) list)" where
  "release_list P J C explicit =
     read_with P J C explicit (\<lambda>_ msgs. Inr (List.map_filter (\<lambda>(_, msg). case msg of
       Release tag title _ _ _ \<Rightarrow> Some (tag, title) | _ \<Rightarrow> None) msgs))"

text \<open>The messages of one tag, in queue order: title, notes, blob ids and names.\<close>

definition releases_of :: "string \<Rightarrow> (u64 \<times> collab_message) list \<Rightarrow> (string \<times> string \<times> string list \<times> string list) list" where
  "releases_of tag msgs =
     List.map_filter (\<lambda>(_, msg). case msg of
       Release t title notes ids names \<Rightarrow> if t = tag then Some (title, notes, ids, names) else None | _ \<Rightarrow> None) msgs"

definition release_view ::
    "prims \<Rightarrow> inbox_json \<Rightarrow> 'h desk_client \<Rightarrow> string option \<Rightarrow> string option \<Rightarrow> 'g desk \<Rightarrow> 'h \<Rightarrow>
     'g desk \<times> (client_error + string \<times> string \<times> (string \<times> string) list)" where
  "release_view P J C explicit tag =
     read_with P J C explicit (\<lambda>_ msgs.
       rbind (ok_or (bail ''tag required'') tag) (\<lambda>t.
       rbind (first_of (''release '' @ t @ '' not found in decrypted inbox'') (releases_of t msgs)) (\<lambda>(title, notes, ids, names).
         Inr (title, notes, zip names ids))))"

text \<open>\<^verbatim>\<open>Path::join\<close>: an absolute second part replaces the first.\<close>

definition join_path :: "string \<Rightarrow> string \<Rightarrow> string" where
  "join_path dir name =
     (if starts_with ''/'' name then name else if dir = [] \<or> last dir = CHR ''/'' then dir @ name else dir @ ''/'' @ name)"

text \<open>The assets of a release, one after another; what was written before an error stays.\<close>

fun download_assets ::
    "prims \<Rightarrow> hex_codec \<Rightarrow> (blob_id \<Rightarrow> client_error + bytes) \<Rightarrow> epoch_material \<Rightarrow> string \<Rightarrow> (string \<times> string) list \<Rightarrow>
     (string \<times> bytes) list \<Rightarrow> (string \<times> bytes) list \<times> (client_error + unit)" where
  "download_assets P X get m dir [] written = (written, Inr ())"
| "download_assets P X get m dir ((name, hex) # rest) written =
     (case blob_id_from_hex X hex of
        Inl _ \<Rightarrow> (written, Inl (bail ''bad blob id''))
      | Inr i \<Rightarrow>
          (case get_sealed_object P get m i of
             Inl e \<Rightarrow> (written, Inl e)
           | Inr pt \<Rightarrow> download_assets P X get m dir rest (written @ [(join_path dir name, pt)])))"

definition release_download ::
    "prims \<Rightarrow> inbox_json \<Rightarrow> 'h desk_client \<Rightarrow> hex_codec \<Rightarrow> string option \<Rightarrow> string option \<Rightarrow> string \<Rightarrow> 'g desk \<Rightarrow> 'h \<Rightarrow>
     'g desk \<times> (string \<times> bytes) list \<times> (client_error + unit)" where
  "release_download P J C X explicit tag dir dk s =
     (case open_repo C explicit dk s of
        Inl e \<Rightarrow> (dk, [], Inl e)
      | Inr (r, m) \<Rightarrow>
          (case read_mail P J C (rr_id r) m dk s of
             (dk1, Inl e) \<Rightarrow> (dk1, [], Inl e)
           | (dk1, Inr msgs) \<Rightarrow>
               (case tag of
                  None \<Rightarrow> (dk1, [], Inl (bail ''tag required''))
                | Some t \<Rightarrow>
                    (case releases_of t msgs of
                       [] \<Rightarrow> (dk1, [], Inl (bail (''release '' @ t @ '' not found'')))
                     | (_, _, ids, names) # _ \<Rightarrow>
                         (dk1, download_assets P X (mc_get (dc_mls C (rr_id r)) s) m dir (zip names ids) [])))))"

definition release_delete ::
    "prims \<Rightarrow> inbox_json \<Rightarrow> 'h desk_client \<Rightarrow> bytes \<Rightarrow> string option \<Rightarrow> string option \<Rightarrow> 'g desk \<Rightarrow> 'h \<Rightarrow>
     'g desk \<times> 'h \<times> (client_error + u64)" where
  "release_delete P J C nonce explicit tag dk s =
     (case open_repo C explicit dk s of
        Inl e \<Rightarrow> (dk, s, Inl e)
      | Inr (r, m) \<Rightarrow>
          (case tag of
             None \<Rightarrow> (dk, s, Inl (bail ''tag required''))
           | Some t \<Rightarrow>
               (dk, enqueue_collab P J (dc_mls C (rr_id r)) nonce m (Release t [] ''__deleted__'' [] []) ''release-delete'' s)))"

section \<open>What the folds compute\<close>

text \<open>
  The last message about a name decides.  The four registers share the law; it is proved once for any
  fold that steps like them.
\<close>

definition last_word :: "(collab_message \<Rightarrow> (string \<times> 'v \<times> string) option) \<Rightarrow> string \<Rightarrow> (u64 \<times> collab_message) list \<Rightarrow> 'v option" where
  "last_word change nm msgs =
     (case rev (filter (\<lambda>c. fst c = nm) (List.map_filter (\<lambda>x. change (snd x)) msgs)) of
        [] \<Rightarrow> None
      | (_, v, act) # _ \<Rightarrow> if act = ''delete'' then None else Some v)"

lemma last_word_snoc:
  "last_word change nm (msgs @ [x]) =
     (case change (snd x) of
        None \<Rightarrow> last_word change nm msgs
      | Some (nm', v, act) \<Rightarrow> if nm' = nm then (if act = ''delete'' then None else Some v) else last_word change nm msgs)"
  by (simp add: last_word_def map_filter_def split: option.split)

lemma last_word_nil [simp]: "last_word change nm [] = None"
  by (simp add: last_word_def map_filter_simps)

lemma apply_change_simps [simp]:
  "bt_wf entries \<Longrightarrow> bt_wf (apply_change nm v act entries)"
  "bt_wf entries \<Longrightarrow> map_of (apply_change nm v act entries) i =
     (if i = nm then (if act = ''delete'' then None else Some v) else map_of entries i)"
  by (simp_all add: apply_change_def)

locale name_register =
  fixes change :: "collab_message \<Rightarrow> (string \<times> 'v \<times> string) option"
    and keep :: "(u64 \<times> collab_message) list \<Rightarrow> (string \<times> 'v) list"
  assumes keep_nil: "keep [] = []"
    and keep_snoc: "keep (msgs @ [x]) =
      (case change (snd x) of None \<Rightarrow> keep msgs | Some (nm, v, act) \<Rightarrow> apply_change nm v act (keep msgs))"
begin

lemma wf: "bt_wf (keep msgs)"
  by (induction msgs rule: rev_induct) (auto simp: keep_nil keep_snoc split: option.split)

lemma lookup: "map_of (keep msgs) nm = last_word change nm msgs"
  by (induction msgs rule: rev_induct)
    (auto simp: keep_nil keep_snoc last_word_snoc wf split: option.split)

lemma listed: "nm \<in> fst ` set (keep msgs) \<longleftrightarrow> last_word change nm msgs \<noteq> None"
  by (simp add: lookup [symmetric] map_of_eq_None_iff)

lemma ordered: "sorted_wrt (<) (map fst (keep msgs))"
  using wf by (simp add: bt_wf_def)

lemma silent: "change (snd x) = None \<Longrightarrow> keep (msgs @ [x]) = keep msgs"
  by (simp add: keep_snoc)

end

definition label_change :: "collab_message \<Rightarrow> (string \<times> (string option \<times> string option) \<times> string) option" where
  "label_change msg = (case msg of Label nm color descr act \<Rightarrow> Some (nm, (color, descr), act) | _ \<Rightarrow> None)"

definition secret_change :: "collab_message \<Rightarrow> (string \<times> unit \<times> string) option" where
  "secret_change msg = (case msg of Secret nm _ _ act \<Rightarrow> Some (nm, (), act) | _ \<Rightarrow> None)"

definition variable_change :: "collab_message \<Rightarrow> (string \<times> unit \<times> string) option" where
  "variable_change msg = (case msg of Variable nm _ act \<Rightarrow> Some (nm, (), act) | _ \<Rightarrow> None)"

definition gist_change :: "collab_message \<Rightarrow> (string \<times> string \<times> string) option" where
  "gist_change msg = (case msg of Gist ident descr _ act \<Rightarrow> Some (ident, unwrap_or_default descr, act) | _ \<Rightarrow> None)"

interpretation labels: name_register label_change labels_of
  by unfold_locales (auto simp: labels_of_def label_change_def case_prod_beta split: collab_message.split)

interpretation secrets: name_register secret_change secret_names
  by unfold_locales (auto simp: secret_names_def secret_change_def case_prod_beta split: collab_message.split)

interpretation variables: name_register variable_change variable_names
  by unfold_locales (auto simp: variable_names_def variable_change_def case_prod_beta split: collab_message.split)

interpretation gists: name_register gist_change gists_of
  by unfold_locales (auto simp: gists_of_def gist_change_def case_prod_beta split: collab_message.split)

text \<open>
  The two loops over the variables agree: \<^verbatim>\<open>get\<close> finds a value for exactly the names that \<^verbatim>\<open>list\<close> shows.
\<close>

theorem variable_get_iff_listed:
  "variable_sealed name msgs \<noteq> None \<longleftrightarrow> name \<in> set (map fst (variable_names msgs))"
proof -
  have "variable_sealed name msgs \<noteq> None \<longleftrightarrow> last_word variable_change name msgs \<noteq> None"
  proof (induction msgs rule: rev_induct)
    case (snoc x msgs)
    then show ?case
      by (cases "snd x") (simp_all add: variable_sealed_def last_word_snoc variable_change_def case_prod_beta)
  qed (simp add: variable_sealed_def)
  then show ?thesis by (simp add: variables.listed)
qed

text \<open>What a name shows depends on the last message about it only; the rows come in the order of the names.\<close>

theorem label_list_exact:
  "sorted_wrt (<) (map fst (labels_of msgs)) \<and> map_of (labels_of msgs) nm = last_word label_change nm msgs"
  using labels.ordered labels.lookup by blast

text \<open>
  Commands that print the first match: what they print once, they print for ever.
\<close>

locale first_wins =
  fixes pick :: "(u64 \<times> collab_message) list \<Rightarrow> 'a list"
  assumes pick_append: "pick (xs @ ys) = pick xs @ pick ys"
begin

lemma frozen: "first_of why (pick xs) = Inr a \<Longrightarrow> first_of why (pick (xs @ ys)) = Inr a"
  by (auto simp: pick_append first_of_def split: list.splits)

lemma frozen_bind:
  "rbind (first_of why (pick xs)) f = Inr a \<Longrightarrow> rbind (first_of why (pick (xs @ ys))) f = Inr a"
  by (cases "first_of why (pick xs)") (simp_all add: frozen)

end

lemma map_filter_append: "List.map_filter f (xs @ ys) = List.map_filter f xs @ List.map_filter f ys"
  by (simp add: map_filter_def)

interpretation gist_first: first_wins "gist_bodies ident" for ident
  by unfold_locales (simp add: gist_bodies_def map_filter_append)

interpretation run_first: first_wins "runs_named ident" for ident
  by unfold_locales (simp add: runs_named_def)

interpretation release_first: first_wins "releases_of tag" for tag
  by unfold_locales (simp add: releases_of_def map_filter_append)

text \<open>Milestones: state and due date are the last ones given.\<close>

lemma milestone_snoc:
  "milestone_map (msgs @ [x]) = (case snd x of Milestone title due st \<Rightarrow> upsert_milestone title due st (milestone_map msgs) | _ \<Rightarrow> milestone_map msgs)"
  by (auto simp: milestone_map_def case_prod_beta split: collab_message.split)

lemma upsert_milestone_eq:
  "upsert_milestone title due st ms =
     bt_insert title
       (case map_of ms title of
          None \<Rightarrow> \<lparr>fm_title = title, fm_due = due, fm_state = st\<rparr>
        | Some e \<Rightarrow> e\<lparr>fm_due := (if due = None then fm_due e else due), fm_state := unless_empty st (fm_state e)\<rparr>) ms"
  by (cases "map_of ms title") (auto simp: upsert_milestone_def Let_def unless_empty_def)

lemma milestone_inv: "bt_wf (milestone_map msgs)" "(t, e) \<in> set (milestone_map msgs) \<Longrightarrow> fm_title e = t"
proof (induction msgs arbitrary: t e rule: rev_induct)
  case (snoc x msgs)
  { case 1 then show ?case using snoc(1) by (cases "snd x") (simp_all add: milestone_snoc upsert_milestone_eq) }
  { case 2
    show ?case
    proof (cases "snd x")
      case (Milestone t' d st)
      define new where "new = (case map_of (milestone_map msgs) t' of
          None \<Rightarrow> \<lparr>fm_title = t', fm_due = d, fm_state = st\<rparr>
        | Some e \<Rightarrow> e\<lparr>fm_due := (if d = None then fm_due e else d), fm_state := unless_empty st (fm_state e)\<rparr>)"
      have "fm_title new = t'"
      proof (cases "map_of (milestone_map msgs) t'")
        case (Some e')
        then show ?thesis using snoc(2) [OF map_of_SomeD [OF Some]] by (simp add: new_def)
      qed (simp add: new_def)
      moreover have "(t, e) \<in> insert (t', new) (set (milestone_map msgs))"
        using 2 set_bt_insert [of t' new "milestone_map msgs"] by (auto simp: milestone_snoc Milestone upsert_milestone_eq new_def)
      ultimately show ?thesis using snoc(2) [of t e] by blast
    qed (use 2 snoc(2) in \<open>simp_all add: milestone_snoc\<close>) }
qed (simp_all add: milestone_map_def)

lemma find_milestone:
  "find (\<lambda>m. fm_title m = title) (fold_milestones msgs) = map_of (milestone_map msgs) title"
proof -
  have "(\<And>t e. (t, e) \<in> set ms \<Longrightarrow> fm_title e = t) \<Longrightarrow> find (\<lambda>m. fm_title m = title) (map snd ms) = map_of ms title"
    for ms :: "(string \<times> folded_milestone) list"
  proof (induction ms)
    case (Cons p ms)
    obtain t e where p: "p = (t, e)" by (cases p)
    have "fm_title e = t" using Cons.prems [of t e] p by simp
    moreover have "find (\<lambda>m. fm_title m = title) (map snd ms) = map_of ms title"
      by (rule Cons.IH) (rule Cons.prems, simp)
    ultimately show ?case by (simp add: p)
  qed simp
  from this [OF milestone_inv(2)] show ?thesis by (simp add: fold_milestones_def)
qed

lemma upsert_milestone_lookup:
  "bt_wf ms \<Longrightarrow> map_of (upsert_milestone title due st ms) t =
     (if t = title
      then Some (case map_of ms title of
                   None \<Rightarrow> \<lparr>fm_title = title, fm_due = due, fm_state = st\<rparr>
                 | Some e \<Rightarrow> e\<lparr>fm_due := (if due = None then fm_due e else due), fm_state := unless_empty st (fm_state e)\<rparr>)
      else map_of ms t)"
  by (simp add: upsert_milestone_eq)

section \<open>Over the handlers\<close>

text \<open>What a member reads is the mail of the queue; what a member sends is the mail's next message.\<close>

lemma ready_open: "ready P J X C au explicit r m dk sv \<Longrightarrow> open_repo C explicit dk sv = Inr (r, m)"
  by (simp add: ready_def)

lemma reads_mail:
  assumes "ready P J X (http_desk P HJ X B show_meta au) au explicit r m dk sv" and "json_reads_back J"
  shows "snd (read_with P J (http_desk P HJ X B show_meta au) explicit f dk sv) = f m (mail P J (em_refs_mac m) (queue_of (rr_id r) sv))"
  by (rule ready_reads [OF assms]) (simp add: read_with_def ready_open [OF assms(1)])

lemma enqueued_mail:
  assumes "http_queue X au repo sv" and "length (queue_of repo sv) + 1 < 2 ^ 64" and "json_reads_back J"
    and "enqueue_collab P J (http_mls_client P HJ X B show_meta au repo) nonce m msg hint sv = (sv', res)"
  obtains n k where "res = Inr n" "mail P J (em_refs_mac m) (queue_of repo sv') = mail P J (em_refs_mac m) (queue_of repo sv) @ [(k, msg)]"
proof -
  obtain sv'' n where "enqueue_collab P J (http_mls_client P HJ X B show_meta au repo) nonce m msg hint sv = (sv'', Inr n)"
    "mail P J (em_refs_mac m) (queue_of repo sv'') = mail P J (em_refs_mac m) (queue_of repo sv) @ [(of_nat (length (queue_of repo sv)) + 1, msg)]"
    by (rule enqueue_mail [OF assms(1,1,2,3)])
  with assms(4) show thesis by (intro that [of n]) auto
qed

lemma sent_mail:
  assumes "ready P J X (http_desk P HJ X B show_meta au) au explicit r m dk sv" and "json_reads_back J"
    and "length (queue_of (rr_id r) sv) + 1 < 2 ^ 64"
    and "send_message P J (http_desk P HJ X B show_meta au) nonce explicit msg hint dk sv = (dk', sv', res)"
  obtains n k where "res = Inr n"
    "mail P J (em_refs_mac m) (queue_of (rr_id r) sv') = mail P J (em_refs_mac m) (queue_of (rr_id r) sv) @ [(k, msg)]"
proof -
  have "enqueue_collab P J (http_mls_client P HJ X B show_meta au (rr_id r)) nonce m msg hint sv = (sv', res)"
    using assms(4) ready_open [OF assms(1)] by (simp add: send_message_def http_desk_def)
  from enqueued_mail [OF ready_queue [OF assms(1,2)] assms(3,2) this] that show thesis by blast
qed

lemmas send_defs =
  send_named_def label_create_def label_delete_def gist_delete_def codespace_delete_def run_cancel_def

text \<open>A created label is shown to every member, under its name's place in the order.\<close>

theorem label_create_shown:
  assumes "ready P J X (http_desk P HJ X B show_meta au) au explicit r m dk sv" and "json_reads_back J"
    and "length (queue_of (rr_id r) sv) + 1 < 2 ^ 64"
    and "label_create P J (http_desk P HJ X B show_meta au) nonce explicit (Some nm) color descr dk sv = (dk', sv', res)"
    and "ready P J X (http_desk P HJ X B show_meta au2) au2 explicit2 r2 m2 dk2 sv'"
    and "rr_id r2 = rr_id r" and "em_refs_mac m2 = em_refs_mac m"
  shows "\<exists>n. res = Inr n \<and> snd (label_list P J (http_desk P HJ X B show_meta au2) explicit2 dk2 sv') =
    Inr (map (\<lambda>(nm, c, d). (nm, unwrap_or_default c, unwrap_or_default d))
      (bt_insert nm (color, descr) (labels_of (mail P J (em_refs_mac m) (queue_of (rr_id r) sv)))))"
  by (rule sent_mail [OF assms(1-3) assms(4) [unfolded send_defs option.case]])
    (simp add: label_list_def reads_mail [OF assms(5,2)] assms(6,7) labels.keep_snoc label_change_def apply_change_def)

text \<open>
  Attaching a label to an issue is a label creation: it replaces the colour and the description that the
  label had in the repository.
\<close>

theorem attaching_overwrites_label:
  "labels_of (msgs @ [(k, Label nm None (Some (''attached to issue '' @ ident)) ''create'')]) =
     bt_insert nm (None, Some (''attached to issue '' @ ident)) (labels_of msgs)"
  by (simp add: labels.keep_snoc label_change_def apply_change_def)

text \<open>A variable that a member sets is what every member with the same epoch MAC key gets.\<close>

theorem variable_set_then_get:
  assumes "ready P J X (http_desk P HJ X B show_meta au) au explicit r m dk sv" and "json_reads_back J"
    and "length (queue_of (rr_id r) sv) + 1 < 2 ^ 64"
    and "variable_set P J (http_desk P HJ X B show_meta au) nonce nonce2 explicit (Some nm) (Some v) env dk sv = (dk', sv', res)"
    and "ready P J X (http_desk P HJ X B show_meta au2) au2 explicit2 r2 m2 dk2 sv'"
    and "rr_id r2 = rr_id r" and "em_refs_mac m2 = em_refs_mac m"
  shows "(\<exists>n. res = Inr n) \<and> snd (variable_get P J (http_desk P HJ X B show_meta au2) explicit2 nm dk2 sv') = Inr v"
proof -
  obtain sealed where sealed: "seal_collab P nonce m v = Inr sealed"
    using seal_with_nonce_ok [of P "em_refs_mac m" "domain_label ''collab''" v "fix_len 12 nonce"]
    by (auto simp: seal_collab_def aead_seal_def)
  then have open_it: "open_collab P m2 sealed = Inr v"
    using open_collab_sealed [OF sealed] by (simp add: open_collab_def assms(7))
  have "enqueue_collab P J (http_mls_client P HJ X B show_meta au (rr_id r)) nonce2 m (Variable nm sealed ''set'') ''variable'' sv = (sv', res)"
    using assms(4) ready_open [OF assms(1)] by (simp add: variable_set_def seal_secret_for_runner_def sealed http_desk_def)
  then obtain n k where "res = Inr n"
    "mail P J (em_refs_mac m) (queue_of (rr_id r) sv') = mail P J (em_refs_mac m) (queue_of (rr_id r) sv) @ [(k, Variable nm sealed ''set'')]"
    by (rule enqueued_mail [OF ready_queue [OF assms(1,2)] assms(3,2)])
  then show ?thesis
    by (simp add: variable_get_def reads_mail [OF assms(5,2)] assms(6,7) variable_sealed_def ok_or_def open_it)
qed

text \<open>
  After a rotation the value is gone: it was sealed under the MAC key of its epoch and is opened with the
  current one, although the name is still listed and the device holds the old key in its history.
\<close>

theorem variable_lost_after_rotation:
  assumes "open_repo C explicit dk s = Inr (r, m2)" and "read_mail P J C (rr_id r) m2 dk s = (dk', Inr msgs)"
    and "variable_sealed nm msgs = Some sealed" and "seal_collab P nonce m1 v = Inr sealed" and "open_collab P m2 sealed = Inl e"
  shows "snd (variable_get P J C explicit nm dk s) = Inl e \<and> (\<exists>names. snd (variable_list P J C explicit dk s) = Inr names \<and> nm \<in> set names) \<and>
    open_collab P m1 sealed = Inr v"
  using assms(3) variable_get_iff_listed [of nm msgs] open_collab_sealed [OF assms(4)]
  by (simp add: variable_get_def variable_list_def read_with_def assms(1,2,5) ok_or_def)

text \<open>
  A secret \<^verbatim>\<open>sealed to a runner\<close> opens with the transport secret of the epoch and the public key package:
  every member of the group has both, and the runner's private key has no part in it.
\<close>

theorem runner_secret_opens_for_members:
  assumes "seal_secret_for_runner P nonce m v (Some kp) = Inr sealed" and "em_transport m' = em_transport m"
  shows "\<exists>key. derive_secret_seal_key P (em_transport m') = Inr key \<and> aead_open P key (domain_label ''secret-kp'' @ kp) sealed = Inr v"
  using assms
  by (auto simp: seal_secret_for_runner_def Let_def rbind_Inr_conv aead_seal_def aead_open_Inr_iff) (metis length_fix_len)

text \<open>
  Views that stop at the first match never change: whatever is sent after a gist, a run or a release was
  first shown (an edit, a deletion, a cancellation, a new release of the same tag), the command prints the same.
\<close>

theorem first_match_is_final:
  assumes "ready P J X (http_desk P HJ X B show_meta au) au explicit r m dk sv" and "json_reads_back J"
    and "length (queue_of (rr_id r) sv) + 1 < 2 ^ 64"
    and "send_message P J (http_desk P HJ X B show_meta au) nonce explicit msg hint dk sv = (dk', sv', res)"
    and "ready P J X (http_desk P HJ X B show_meta au) au explicit r m dk' sv'"
  shows "snd (gist_view P J (http_desk P HJ X B show_meta au) explicit (Some i) dk sv) = Inr g \<Longrightarrow>
      snd (gist_view P J (http_desk P HJ X B show_meta au) explicit (Some i) dk' sv') = Inr g"
    and "snd (run_view P J (http_desk P HJ X B show_meta au) explicit (Some i) dk sv) = Inr run \<Longrightarrow>
      snd (run_view P J (http_desk P HJ X B show_meta au) explicit (Some i) dk' sv') = Inr run"
    and "snd (release_view P J (http_desk P HJ X B show_meta au) explicit (Some i) dk sv) = Inr rel \<Longrightarrow>
      snd (release_view P J (http_desk P HJ X B show_meta au) explicit (Some i) dk' sv') = Inr rel"
proof -
  obtain k where after: "mail P J (em_refs_mac m) (queue_of (rr_id r) sv') = mail P J (em_refs_mac m) (queue_of (rr_id r) sv) @ [(k, msg)]"
    by (rule sent_mail [OF assms(1-4)])
  note reads = reads_mail [OF assms(1,2)] reads_mail [OF assms(5,2)] after
  show "snd (gist_view P J (http_desk P HJ X B show_meta au) explicit (Some i) dk sv) = Inr g \<Longrightarrow>
      snd (gist_view P J (http_desk P HJ X B show_meta au) explicit (Some i) dk' sv') = Inr g"
    by (simp add: gist_view_def reads gist_first.frozen)
  show "snd (run_view P J (http_desk P HJ X B show_meta au) explicit (Some i) dk sv) = Inr run \<Longrightarrow>
      snd (run_view P J (http_desk P HJ X B show_meta au) explicit (Some i) dk' sv') = Inr run"
    by (simp add: run_view_def reads run_first.frozen)
  show "snd (release_view P J (http_desk P HJ X B show_meta au) explicit (Some i) dk sv) = Inr rel \<Longrightarrow>
      snd (release_view P J (http_desk P HJ X B show_meta au) explicit (Some i) dk' sv') = Inr rel"
    unfolding release_view_def reads ok_or_def option.case rbind_simps by (rule release_first.frozen_bind)
qed

text \<open>An edit of a gist empties its description in the list, and no one sees the new text.\<close>

theorem gist_edit_empties_description:
  assumes "gist_bodies i msgs = shown # rest"
  shows "map_of (gists_of (msgs @ [(k, Gist i None files ''edit'')])) i = Some [] \<and>
    first_of why (gist_bodies i (msgs @ [(k, Gist i None files ''edit'')])) = Inr shown"
  using assms gist_first.frozen [of why i msgs shown]
  by (simp add: gists.lookup last_word_snoc gist_change_def unwrap_or_default_def first_of_def)

text \<open>Deleting a codespace draft changes nothing in what the command lists.\<close>

theorem deleted_draft_stays_listed:
  assumes "ready P J X (http_desk P HJ X B show_meta au) au explicit r m dk sv" and "json_reads_back J"
    and "length (queue_of (rr_id r) sv) + 1 < 2 ^ 64"
    and "codespace_delete P J (http_desk P HJ X B show_meta au) nonce explicit (Some nm) dk sv = (dk', sv', res)"
    and "ready P J X (http_desk P HJ X B show_meta au) au explicit r m dk' sv'"
  shows "(\<exists>n. res = Inr n) \<and> snd (codespace_list P J (http_desk P HJ X B show_meta au) explicit dk' sv') =
    snd (codespace_list P J (http_desk P HJ X B show_meta au) explicit dk sv)"
  by (rule sent_mail [OF assms(1-3) assms(4) [unfolded send_defs option.case]])
    (simp add: codespace_list_def reads_mail [OF assms(1,2)] reads_mail [OF assms(5,2)] drafts_of_def map_filter_append map_filter_simps)

text \<open>Closing a milestone: the due date stays and the state changes; a title that no one created becomes a closed milestone.\<close>

theorem milestone_close_shown:
  assumes "ready P J X (http_desk P HJ X B show_meta au) au explicit r m dk sv" and "json_reads_back J"
    and "length (queue_of (rr_id r) sv) + 1 < 2 ^ 64"
    and "milestone_close P J (http_desk P HJ X B show_meta au) nonce explicit title dk sv = (dk', sv', res)"
  shows "res = Inr () \<and> (\<forall>t. map_of (milestone_map (mail P J (em_refs_mac m) (queue_of (rr_id r) sv'))) t =
    (if t = title
     then Some \<lparr>fm_title = title, fm_due = Option.bind (map_of (milestone_map (mail P J (em_refs_mac m) (queue_of (rr_id r) sv))) title) fm_due,
                fm_state = ''closed''\<rparr>
     else map_of (milestone_map (mail P J (em_refs_mac m) (queue_of (rr_id r) sv))) t))"
proof -
  let ?before = "mail P J (em_refs_mac m) (queue_of (rr_id r) sv)"
  let ?due = "Option.bind (map_of (milestone_map ?before) title) fm_due"
  obtain dk1 where "read_mail P J (http_desk P HJ X B show_meta au) (rr_id r) m dk sv = (dk1, Inr ?before)"
    by (rule ready_reads [OF assms(1,2)])
  then obtain res' where enq: "enqueue_collab P J (http_mls_client P HJ X B show_meta au (rr_id r)) nonce m (Milestone title ?due ''closed'') ''milestone-state'' sv = (sv', res')"
    and res: "res = rbind res' (\<lambda>_. Inr ())"
    using assms(4) ready_open [OF assms(1)]
    by (auto simp: milestone_close_def set_state_def find_milestone http_desk_def Let_def split: prod.splits)
  obtain n k where sent: "res' = Inr n" "mail P J (em_refs_mac m) (queue_of (rr_id r) sv') = ?before @ [(k, Milestone title ?due ''closed'')]"
    by (rule enqueued_mail [OF ready_queue [OF assms(1,2)] assms(3,2) enq])
  have titled: "fm_title e = title" if "map_of (milestone_map ?before) title = Some e" for e
    using milestone_inv(2) map_of_SomeD [OF that] by blast
  show ?thesis
    using titled by (cases "map_of (milestone_map ?before) title")
      (auto simp: sent res milestone_snoc upsert_milestone_lookup [OF milestone_inv(1)] unless_empty_def)
qed

text \<open>
  \<^verbatim>\<open>project view\<close> takes a number, the boards have six hexadecimal digits for an id: a board whose id and
  title each contain a character that is no digit cannot be viewed at all.
\<close>

theorem project_view_needs_number:
  assumes "open_repo C explicit dk s = Inr (r, m)" and "read_mail P J C (rr_id r) m dk s = (dk', Inr msgs)"
    and "\<forall>(i, title, cols) \<in> set (boards_of msgs). \<not> list_all is_digit i \<and> \<not> list_all is_digit title"
  shows "project_view P J C explicit (Some n) dk s = (dk', Inl (bail ''project not found''))"
proof -
  have "filter (\<lambda>(i, title, _). i = dec_string (unat n) \<or> title = dec_string (unat n)) (boards_of msgs) = []"
    using assms(3) dec_string_digits [of "unat n"] by (fastforce simp: filter_empty_conv)
  then show ?thesis by (simp add: project_view_def read_with_def assms(1,2) first_of_def)
qed

text \<open>\<^verbatim>\<open>run watch\<close> ignores the run and the repository it is given.\<close>

theorem watch_ignores_arguments: "run_watch P J C explicit name = run_watch P J C explicit' name'"
  by (simp add: run_watch_def)

text \<open>
  A release message names the files that a download writes, and nobody checks the names: one that is an
  absolute path is written there, whatever directory the user asked for.
\<close>

theorem download_writes_anywhere:
  assumes "open_repo C explicit dk s = Inr (r, m)" and "read_mail P J C (rr_id r) m dk s = (dk', Inr msgs)"
    and "releases_of t msgs = (title, notes, [hex], [CHR ''/'' # path]) # rest" and "blob_id_from_hex X hex = Inr i"
    and "get_sealed_object P (mc_get (dc_mls C (rr_id r)) s) m i = Inr pt"
  shows "release_download P J C X explicit (Some t) dir dk s = (dk', [(CHR ''/'' # path, pt)], Inr ())"
  by (simp add: release_download_def assms join_path_def starts_with_def)

section \<open>Release assets\<close>

text \<open>What \<^verbatim>\<open>put_sealed_object\<close> uploads, and that any blob host gives it back.\<close>

definition object_ct :: "prims \<Rightarrow> epoch_material \<Rightarrow> bytes \<Rightarrow> bytes \<Rightarrow> client_error + bytes" where
  "object_ct P m pt nonce =
     rbind (map_err AeadErr (derive_cas_seal_key P (em_transport m)))
       (\<lambda>key. map_err AeadErr (aead_seal P key (domain_label ''cas-obj'') pt nonce))"

lemma object_ct_total: "\<exists>ct. object_ct P m pt nonce = Inr ct"
proof -
  obtain key where "derive_cas_seal_key P (em_transport m) = Inr key"
    by (auto simp: derive_cas_seal_key_def hkdf_sha512_def AEAD_KEY_LEN_def ok_or_def)
  then show ?thesis using seal_with_nonce_ok [of P key] by (simp add: object_ct_def aead_seal_def)
qed

lemma get_object:
  assumes "object_ct P m pt nonce = Inr ct" and "em_transport m' = em_transport m" and "get i = Inr ct"
  shows "get_sealed_object P get m' i = Inr pt"
  using assms
  by (auto simp: object_ct_def get_sealed_object_def rbind_Inr_conv aead_seal_def aead_open_Inr_iff) (metis length_fix_len)

lemma put_sealed_object_ct:
  "object_ct P m pt nonce = Inr ct \<Longrightarrow>
     \<exists>meta. put_sealed_object P H nonce m pt pid s =
       (case hc_put H meta ct s of (s1, Inl e) \<Rightarrow> (s1, Inl e) | (s1, Inr _) \<Rightarrow> (s1, Inr (blob_id_of_ciphertext P ct)))"
  by (simp add: put_sealed_object_def object_ct_def Let_def) blast

text \<open>One entry per asset: the blob named can be read, and holds the asset sealed.\<close>

definition asset_stored :: "prims \<Rightarrow> (blob_id \<Rightarrow> client_error + bytes) \<Rightarrow> epoch_material \<Rightarrow> blob_id \<Rightarrow> string \<times> bytes \<Rightarrow> bool" where
  "asset_stored P get m i f \<longleftrightarrow> (\<exists>ct nonce. object_ct P m (snd f) nonce = Inr ct \<and> get i = Inr ct)"

context blob_host
begin

lemma upload_assets_ok:
  assumes "binv s" and "\<forall>j < length files. \<forall>ct. object_ct P m (snd (files ! j)) (nonces (k + j)) = Inr ct \<longrightarrow> ct \<in> C"
  shows "\<exists>s' ids. upload_assets P X H short_id nonces k m tag (map (apsnd Some) files) ids0 names0 s =
      (s', Inr (ids0 @ map (id_to_hex X) ids, names0 @ map (asset_name \<circ> fst) files)) \<and>
    binv s' \<and> list_all2 (asset_stored P (get s') m) ids files \<and> (\<forall>i d. get s i = Inr d \<longrightarrow> get s' i = Inr d)"
  using assms
proof (induction files arbitrary: k ids0 names0 s)
  case (Cons f files)
  obtain p b where f: "f = (p, b)" by (cases f)
  obtain ct where ct: "object_ct P m b (nonces k) = Inr ct" using object_ct_total by blast
  with Cons.prems(2) have "ct \<in> C" by (force simp: f)
  obtain meta where put: "put_sealed_object P H (nonces k) m b (''release-'' @ tag @ ''-'' @ short_id k) s =
      (case hc_put H meta ct s of (s1, Inl e) \<Rightarrow> (s1, Inl e) | (s1, Inr _) \<Rightarrow> (s1, Inr (blob_id_of_ciphertext P ct)))"
    using put_sealed_object_ct [OF ct, of H "''release-'' @ tag @ ''-'' @ short_id k" s] by blast
  obtain s1 where s1: "hc_put H meta ct s = (s1, Inr (blob_id_of_ciphertext P ct))" "binv s1"
    "get s1 (blob_id_of_ciphertext P ct) = Inr ct" "\<forall>i d. get s i = Inr d \<longrightarrow> get s1 i = Inr d"
    using put_ok [OF Cons.prems(1) \<open>ct \<in> C\<close>, of meta] by blast
  have later: "\<forall>j < length files. \<forall>ct. object_ct P m (snd (files ! j)) (nonces (k + 1 + j)) = Inr ct \<longrightarrow> ct \<in> C"
    using Cons.prems(2) by (metis Suc_less_eq add.commute add_Suc length_Cons nth_Cons_Suc plus_1_eq_Suc)
  obtain s2 ids where s2: "upload_assets P X H short_id nonces (k + 1) m tag (map (apsnd Some) files)
        (ids0 @ [id_to_hex X (blob_id_of_ciphertext P ct)]) (names0 @ [asset_name p]) s1 =
      (s2, Inr ((ids0 @ [id_to_hex X (blob_id_of_ciphertext P ct)]) @ map (id_to_hex X) ids, (names0 @ [asset_name p]) @ map (asset_name \<circ> fst) files))"
    "binv s2" "list_all2 (asset_stored P (get s2) m) ids files" "\<forall>i d. get s1 i = Inr d \<longrightarrow> get s2 i = Inr d"
    using Cons.IH [of s1 "k + 1" "ids0 @ [id_to_hex X (blob_id_of_ciphertext P ct)]" "names0 @ [asset_name p]", OF s1(2) later] by blast
  have "asset_stored P (get s2) m (blob_id_of_ciphertext P ct) f" using ct s1(3) s2(4) by (auto simp: asset_stored_def f)
  moreover have "upload_assets P X H short_id nonces k m tag (map (apsnd Some) (f # files)) ids0 names0 s =
      upload_assets P X H short_id nonces (k + 1) m tag (map (apsnd Some) files)
        (ids0 @ [id_to_hex X (blob_id_of_ciphertext P ct)]) (names0 @ [asset_name p]) s1"
    by (simp only: f list.map apsnd_conv upload_assets.simps put s1(1) prod.case sum.case)
  ultimately show ?case
    using s1(4) s2
    by (intro exI [of _ s2] exI [of _ "blob_id_of_ciphertext P ct # ids"]) (simp add: f comp_def del: upload_assets.simps list.map(2)[of "apsnd Some"])
qed auto

end

lemma download_stored:
  assumes "list_all2 (asset_stored P get m) ids files" and "\<forall>i \<in> set ids. length i = 64"
    and "hex_roundtrips X" and "em_transport m' = em_transport m"
  shows "download_assets P X get m' dir (zip (map (asset_name \<circ> fst) files) (map (id_to_hex X) ids)) w =
    (w @ map (\<lambda>(p, b). (join_path dir (asset_name p), b)) files, Inr ())"
  using assms(1,2)
proof (induction ids files arbitrary: w rule: list_all2_induct)
  case (Cons i ids f files)
  obtain p b where f: "f = (p, b)" by (cases f)
  have "get_sealed_object P get m' i = Inr b" using Cons(1) get_object [OF _ assms(4)] by (auto simp: asset_stored_def f)
  moreover have "blob_id_from_hex X (id_to_hex X i) = Inr i"
    using Cons.prems by (simp add: blob_id_from_hex_def id_from_hex_to_hex [OF assms(3)])
  ultimately show ?case using Cons by (simp add: f)
qed simp

text \<open>What a release leaves alone: the queue until the message, the members, the repositories.\<close>

lemma upload_assets_frame:
  assumes "upload_assets P X (client_host P HJ X B show_meta au repo) short_id nonces k m tag files ids names sv = (sv', res)"
  shows "mls (sv_store sv') = mls (sv_store sv)" "gate X au2 rid sv' = gate X au2 rid sv"
    "repos (sv_store sv') = repos (sv_store sv)" "sv_members sv' = sv_members sv"
proof -
  have put: "mls (sv_store s1) = mls (sv_store s) \<and> gate X au2 rid s1 = gate X au2 rid s \<and> repos (sv_store s1) = repos (sv_store s) \<and>
      sv_members s1 = sv_members s"
    if "put_sealed_object P (client_host P HJ X B show_meta au repo) n m b pid s = (s1, res)" for n b pid s s1 res
  proof -
    have "repos (sv_store (fst (http_put_blob P X B show_meta au repo mm c s))) = repos (sv_store s) \<and>
        sv_members (fst (http_put_blob P X B show_meta au repo mm c s)) = sv_members s" for mm c
      by (auto simp: http_put_blob_def put_blob_def blob_put_def Let_def case_prod_beta split: sum.splits)
    then have "repos (sv_store s1) = repos (sv_store s) \<and> sv_members s1 = sv_members s"
      using that by (auto simp: put_sealed_object_def client_host_def Let_def split: sum.splits prod.splits) (metis fst_conv)+
    then show ?thesis using put_sealed_queue [of P HJ X B show_meta au repo n m b pid s au2 rid] that by simp
  qed
  have "mls (sv_store sv') = mls (sv_store sv) \<and> gate X au2 rid sv' = gate X au2 rid sv \<and>
      repos (sv_store sv') = repos (sv_store sv) \<and> sv_members sv' = sv_members sv"
    using assms
  proof (induction files arbitrary: k ids names sv)
    case (Cons f files)
    obtain p ob where f: "f = (p, ob)" by (cases f)
    show ?case
    proof (cases ob)
      case (Some b)
      obtain s1 r1 where e: "put_sealed_object P (client_host P HJ X B show_meta au repo) (nonces k) m b (''release-'' @ tag @ ''-'' @ short_id k) sv = (s1, r1)"
        by (cases "put_sealed_object P (client_host P HJ X B show_meta au repo) (nonces k) m b (''release-'' @ tag @ ''-'' @ short_id k) sv")
      note run = Cons.prems [unfolded f Some upload_assets.simps e prod.case]
      show ?thesis
      proof (cases r1)
        case (Inr i)
        from Cons.IH [OF run [unfolded Inr sum.case]] put [OF e] show ?thesis by simp
      qed (use put [OF e] run in simp)
    qed (use Cons.prems in \<open>simp add: f\<close>)
  qed simp
  then show "mls (sv_store sv') = mls (sv_store sv)" "gate X au2 rid sv' = gate X au2 rid sv"
    "repos (sv_store sv') = repos (sv_store sv)" "sv_members sv' = sv_members sv" by simp_all
qed

lemma enqueue_collab_frame:
  assumes "enqueue_collab P J (http_mls_client P HJ X B show_meta au repo) nonce m msg hint sv = (sv', res)"
  shows "blobs (sv_store sv') = blobs (sv_store sv)" "gate X2 au2 rid sv' = gate X2 au2 rid sv"
    "repos (sv_store sv') = repos (sv_store sv)" "sv_members sv' = sv_members sv"
proof -
  have "sv' = sv \<or> (\<exists>env. sv' = sv\<lparr>sv_store := fst (enqueue env (sv_store sv))\<rparr>)"
    using assms by (auto simp: enqueue_collab_def http_mls_client_def http_mls_enqueue_def mls_enqueue_def case_prod_beta split: sum.splits)
  moreover have "gate X2 au2 rid (sv\<lparr>sv_store := fst (enqueue env (sv_store sv))\<rparr>) = gate X2 au2 rid sv" for env
    by (intro gate_store) (simp add: enqueue_def Let_def)
  ultimately show "blobs (sv_store sv') = blobs (sv_store sv)" "gate X2 au2 rid sv' = gate X2 au2 rid sv"
    "repos (sv_store sv') = repos (sv_store sv)" "sv_members sv' = sv_members sv"
    by (auto simp: enqueue_def Let_def)
qed

lemma release_created:
  assumes "ready P J X (http_desk P HJ X B show_meta au) au explicit r m dk sv" and "json_reads_back J"
    and "length (queue_of (rr_id r) sv) + 1 < 2 ^ 64" and "http_blobs P X B show_meta au (rr_id r) C sv"
    and "\<forall>j < length files. \<forall>ct. object_ct P m (snd (files ! j)) (nonces j) = Inr ct \<longrightarrow> ct \<in> C"
    and "release_create P J (http_desk P HJ X B show_meta au) X short_id nonces nonce explicit tag title notes (map (apsnd Some) files) dk sv
      = (dk', sv', res)"
  obtains n k ids env where "res = Inr n" "queue_of (rr_id r) sv' = queue_of (rr_id r) sv @ [env]"
    "mail P J (em_refs_mac m) (queue_of (rr_id r) sv') = mail P J (em_refs_mac m) (queue_of (rr_id r) sv) @
       [(k, Release tag (if title = [] then tag else title) notes (map (id_to_hex X) ids) (map (asset_name \<circ> fst) files))]"
    "list_all2 (asset_stored P (http_get_blob X au (rr_id r) sv') m) ids files"
    "http_queue X au (rr_id r) sv'" "\<And>a rid. gate X a rid sv' = gate X a rid sv"
    "repos (sv_store sv') = repos (sv_store sv)" "sv_members sv' = sv_members sv"
proof -
  let ?repo = "rr_id r" and ?before = "mail P J (em_refs_mac m) (queue_of (rr_id r) sv)"
  obtain sv1 ids where up: "upload_assets P X (client_host P HJ X B show_meta au ?repo) short_id nonces 0 m tag (map (apsnd Some) files) [] [] sv =
      (sv1, Inr (map (id_to_hex X) ids, map (asset_name \<circ> fst) files))"
    "http_blobs P X B show_meta au ?repo C sv1" "list_all2 (asset_stored P (http_get_blob X au ?repo sv1) m) ids files"
    using http_blob_host.upload_assets_ok [OF assms(4), of files m nonces 0 X HJ short_id tag "[]" "[]"] assms(5) by auto
  let ?msg = "Release tag (if title = [] then tag else title) notes (map (id_to_hex X) ids) (map (asset_name \<circ> fst) files)"
  note kept = upload_assets_frame [OF up(1)]
  have queue: "queue_of ?repo sv1 = queue_of ?repo sv" "http_queue X au ?repo sv1"
    using ready_queue [OF assms(1,2)] by (simp_all add: queue_of_def http_queue_def kept)
  have enq: "enqueue_collab P J (http_mls_client P HJ X B show_meta au ?repo) nonce m ?msg ''release'' sv1 = (sv', res)"
    using assms(6) ready_open [OF assms(1)] up(1) by (simp add: release_create_def http_desk_def http_mls_client_def)
  have room: "length (queue_of ?repo sv1) + 1 < 2 ^ 64" using assms(3) by (simp add: queue(1))
  obtain sv2 n env k where "enqueue_collab P J (http_mls_client P HJ X B show_meta au ?repo) nonce m ?msg ''release'' sv1 = (sv2, Inr n)"
    "http_queue X au ?repo sv2" "queue_of ?repo sv2 = queue_of ?repo sv1 @ [env]"
    "mail P J (em_refs_mac m) (queue_of ?repo sv2) = mail P J (em_refs_mac m) (queue_of ?repo sv1) @ [(k, ?msg)]"
    by (rule enqueue_mail [OF queue(2,2) room assms(2)]) blast
  with enq have sent: "res = Inr n" "http_queue X au ?repo sv'" "queue_of ?repo sv' = queue_of ?repo sv @ [env]"
    "mail P J (em_refs_mac m) (queue_of ?repo sv') = ?before @ [(k, ?msg)]"
    by (auto simp: queue(1))
  have gates: "gate X au (id_to_hex X ?repo) sv1 = Inr ?repo" "gate X au (id_to_hex X ?repo) sv' = Inr ?repo" and X: "hex_roundtrips X"
    using up(2) sent(2) by (simp_all add: http_blobs_def http_queue_def)
  have "list_all2 (asset_stored P (http_get_blob X au ?repo sv') m) ids files"
    using up(3) by (simp add: asset_stored_def [abs_def] http_get_blob_eq [OF gates(1) X] http_get_blob_eq [OF gates(2) X] enqueue_collab_frame [OF enq])
  with sent show thesis by (intro that) (simp_all add: kept enqueue_collab_frame [OF enq])
qed

text \<open>
  C21.  Publishing and downloading a release: the assets that a member uploads with a release come back,
  byte for byte and under their file names, when another member with the same epoch material downloads the first
  release of that tag.
\<close>

theorem release_download_create:
  assumes "ready P J X (http_desk P HJ X B show_meta au) au explicit r m dk sv" and "json_reads_back J"
    and "length (queue_of (rr_id r) sv) + 1 < 2 ^ 64" and "http_blobs P X B show_meta au (rr_id r) C sv"
    and "\<forall>j < length files. \<forall>ct. object_ct P m (snd (files ! j)) (nonces j) = Inr ct \<longrightarrow> ct \<in> C"
    and "releases_of tag (mail P J (em_refs_mac m) (queue_of (rr_id r) sv)) = []"
    and "release_create P J (http_desk P HJ X B show_meta au) X short_id nonces nonce explicit tag title notes (map (apsnd Some) files) dk sv
      = (dk', sv', res)"
    and "ready P J X (http_desk P HJ X B show_meta au2) au2 explicit2 r2 m2 dk2 sv'"
    and "rr_id r2 = rr_id r" and "em_refs_mac m2 = em_refs_mac m" and "em_transport m2 = em_transport m"
  shows "(\<exists>n. res = Inr n) \<and> snd (release_download P J (http_desk P HJ X B show_meta au2) X explicit2 (Some tag) dir dk2 sv') =
    (map (\<lambda>(p, b). (join_path dir (asset_name p), b)) files, Inr ())"
proof -
  let ?repo = "rr_id r" and ?title = "if title = [] then tag else title"
  have X: "hex_roundtrips X" using assms(4) by (simp add: http_blobs_def)
  obtain n k ids where made: "res = Inr n" "mail P J (em_refs_mac m) (queue_of ?repo sv') = mail P J (em_refs_mac m) (queue_of ?repo sv) @
       [(k, Release tag ?title notes (map (id_to_hex X) ids) (map (asset_name \<circ> fst) files))]"
    "list_all2 (asset_stored P (http_get_blob X au ?repo sv') m) ids files" "http_queue X au ?repo sv'"
    by (rule release_created [OF assms(1-5,7)]) blast
  have gates: "gate X au (id_to_hex X ?repo) sv' = Inr ?repo" "gate X au2 (id_to_hex X ?repo) sv' = Inr ?repo"
    using made(4) ready_queue [OF assms(8,2)] by (simp_all add: http_queue_def assms(9))
  have stored: "list_all2 (asset_stored P (http_get_blob X au2 ?repo sv') m) ids files"
    using made(3) by (simp add: asset_stored_def [abs_def] http_get_blob_eq [OF gates(1) X] http_get_blob_eq [OF gates(2) X])
  have "\<forall>i \<in> set ids. length i = 64"
  proof
    fix i assume "i \<in> set ids"
    then obtain f where "asset_stored P (http_get_blob X au2 ?repo sv') m i f"
      using stored by (metis in_set_conv_nth list_all2_conv_all_nth)
    then show "length i = 64" by (auto simp: asset_stored_def http_get_blob_eq [OF gates(2) X])
  qed
  note down = download_stored [OF stored this X assms(11)]
  obtain dk3 where read: "read_mail P J (http_desk P HJ X B show_meta au2) (rr_id r2) m2 dk2 sv' =
      (dk3, Inr (mail P J (em_refs_mac m2) (queue_of (rr_id r2) sv')))"
    by (rule ready_reads [OF assms(8,2)])
  have "releases_of tag (mail P J (em_refs_mac m) (queue_of ?repo sv')) = [(?title, notes, map (id_to_hex X) ids, map (asset_name \<circ> fst) files)]"
    by (simp add: made(2) release_first.pick_append assms(6)) (simp add: releases_of_def map_filter_simps)
  then have "release_download P J (http_desk P HJ X B show_meta au2) X explicit2 (Some tag) dir dk2 sv' =
      (dk3, download_assets P X (http_get_blob X au2 ?repo sv') m2 dir (zip (map (asset_name \<circ> fst) files) (map (id_to_hex X) ids)) [])"
    using ready_open [OF assms(8)] read by (simp add: release_download_def assms(9,10)) (simp add: http_desk_def http_mls_client_def)
  with made(1) down show ?thesis by simp
qed

lemma http_get_repo_frame:
  assumes "repos (sv_store sv') = repos (sv_store sv)" and "sv_members sv' = sv_members sv"
  shows "http_get_repo au rn sv' = http_get_repo au rn sv"
proof -
  have "require_member sv' = require_member sv"
    by (simp add: fun_eq_iff require_member_def load_members_def assms(2))
  then show ?thesis by (simp add: http_get_repo_def get_repo_def get_by_name_def assms(1) split: option.split)
qed

lemma release_download_create_witness:
  "\<exists>r dk' sv' n.
     release_create demo_prims demo_json (demo_desk_client ''ann'') demo_hex (\<lambda>_. []) (\<lambda>_. []) [] None ''v1'' [] ''notes''
       [(''out/a.bin'', Some [1, 2, 3])] (demo_desk r) demo_team = (dk', sv', Inr n) \<and>
     snd (release_download demo_prims demo_json (demo_desk_client ''bob'') demo_hex None (Some ''v1'') ''dl'' (demo_desk r) sv') =
       ([(''dl/a.bin'', [1, 2, 3])], Inr ())"
proof -
  obtain r where r: "rr_name r = demo_name" "rr_id r = demo_repo"
    and get: "\<And>u. u \<in> {''ann'', ''bob''} \<Longrightarrow> http_get_repo (demo_auth u) demo_name demo_team = Inr r"
    by (rule demo_tracker_ready) blast
  note ann = demo_ready [OF _ r get, of "''ann''", simplified] and bob = demo_ready [OF _ r get, of "''bob''", simplified]
  obtain ct where ct: "object_ct demo_prims demo_material [1, 2, 3] [] = Inr ct" using object_ct_total by blast
  have "blobs (sv_store demo_team) i = None" for i
    by (simp add: demo_team_parts(2) put_key_package_def demo_server_def create_repo_def repo_create_def server_open_def store_open_def
        save_members_def Let_def)
  then have blobs: "http_blobs demo_prims demo_hex demo_parsers (\<lambda>_. []) (demo_auth ''ann'') (rr_id r) {ct} demo_team"
    using demo_team_gates [of "''ann''"] by (simp add: http_blobs_def http_queue_def demo_hex_roundtrips demo_parsers_def r(2))
  obtain dk' sv' res where run: "release_create demo_prims demo_json (demo_desk_client ''ann'') demo_hex (\<lambda>_. []) (\<lambda>_. []) [] None ''v1'' [] ''notes''
       (map (apsnd Some) [(''out/a.bin'', [1, 2, 3])]) (demo_desk r) demo_team = (dk', sv', res)" by (metis prod.collapse)
  have room: "length (queue_of (rr_id r) demo_team) + 1 < 2 ^ 64" using demo_team_queue by (simp add: r(2))
  have inC: "\<forall>j < length [(''out/a.bin'', [1, 2, 3 :: u8])]. \<forall>c. object_ct demo_prims demo_material (snd ([(''out/a.bin'', [1, 2, 3])] ! j)) [] = Inr c \<longrightarrow> c \<in> {ct}"
    using ct by simp
  obtain env where made: "queue_of (rr_id r) sv' = queue_of (rr_id r) demo_team @ [env]" "http_queue demo_hex (demo_auth ''ann'') (rr_id r) sv'"
    "\<And>a rid. gate demo_hex a rid sv' = gate demo_hex a rid demo_team"
    "repos (sv_store sv') = repos (sv_store demo_team)" "sv_members sv' = sv_members demo_team"
    by (rule release_created [OF ann demo_json_ok room blobs inC run]) blast
  have q: "http_queue demo_hex (demo_auth ''bob'') (rr_id r) sv'"
    using made(2) demo_team_gates [of "''bob''"] by (simp add: http_queue_def made(3) r(2))
  have "ready demo_prims demo_json demo_hex (demo_desk_client ''bob'') (demo_auth ''bob'') None r demo_material (demo_desk r) sv'"
    using bob inbox_run.fresh [OF q, of demo_prims demo_json] made(1) demo_team_queue get [of "''bob''"]
      http_get_repo_frame [OF made(4,5), of "demo_auth ''bob''" demo_name]
    by (auto simp: ready_def http_desk_def demo_desk_def r open_repo_def resolve_repo_def material_for_def intro!: exI [of _ "[]"])
  note there = release_download_create [OF ann demo_json_ok room blobs inC _ run this refl refl refl, of "''dl''"]
  have "split_on (CHR ''/'') ''out/a.bin'' = [''out'', ''a.bin'']"
    using split_on_first [of "CHR ''/''" "''out''" "''a.bin''"] by (simp add: split_on_none)
  then have name: "join_path ''dl'' (asset_name ''out/a.bin'') = ''dl/a.bin''"
    by (simp add: asset_name_def file_name_def join_path_def starts_with_def)
  have "releases_of ''v1'' (mail demo_prims demo_json (em_refs_mac demo_material) (queue_of (rr_id r) demo_team)) = []"
    using demo_team_queue by (simp add: r(2) mail_def map_filter_simps releases_of_def)
  from there [OF this] obtain n where "res = Inr n"
    "snd (release_download demo_prims demo_json (demo_desk_client ''bob'') demo_hex None (Some ''v1'') ''dl'' (demo_desk r) sv') =
       ([(''dl/a.bin'', [1, 2, 3])], Inr ())"
    by (auto simp only: name list.map prod.case)
  with run show ?thesis by (intro exI [of _ r] exI [of _ dk'] exI [of _ sv'] exI [of _ n] conjI) (simp_all only: list.map apsnd_conv)
qed

end
