(* ===== verification/Lfs.thy ===== *)
theory Lfs
  imports Records
begin

text \<open>
  Large files (\<^verbatim>\<open>safehub-cli/src/cmds/lfs.rs\<close>): tracked files are sealed into the blob store and replaced
  in the working tree by a three-line stub beside a pointer file; a fetch reads stubs and pointers and puts the contents back.
\<close>

section \<open>Configuration and pointers\<close>

record lfs_pointer =
  lp_version :: string
  lp_oid :: string
  lp_size :: u64

text \<open>serde over the two files: the list of patterns, and one pointer.\<close>

record lfs_json =
  lj_config :: "string list \<Rightarrow> bytes"
  lj_parse_config :: "bytes \<Rightarrow> string list option"
  lj_pointer :: "lfs_pointer \<Rightarrow> bytes"
  lj_parse_pointer :: "string \<Rightarrow> lfs_pointer option"

text \<open>The working tree: the files under the paths that the walk spells, and \<^verbatim>\<open>.safehub-lfs.json\<close>.\<close>

record work_tree =
  wt_config :: "bytes option"
  wt_files :: "(string \<times> bytes) list"

definition load_config :: "lfs_json \<Rightarrow> work_tree \<Rightarrow> string list" where
  "load_config LJ w =
     (case wt_config w of None \<Rightarrow> [] | Some b \<Rightarrow> (case lj_parse_config LJ b of None \<Rightarrow> [] | Some ps \<Rightarrow> ps))"

definition save_config :: "lfs_json \<Rightarrow> string list \<Rightarrow> work_tree \<Rightarrow> work_tree" where
  "save_config LJ ps w = w\<lparr>wt_config := Some (lj_config LJ ps)\<rparr>"

definition matches_pattern :: "string \<Rightarrow> string \<Rightarrow> bool" where
  "matches_pattern path pat =
     (case strip_prefix ''*.'' pat of
        Some ext \<Rightarrow> path_ext path = Some ext
      | None \<Rightarrow> contains_str pat path)"

definition lfs_track :: "lfs_json \<Rightarrow> string \<Rightarrow> work_tree \<Rightarrow> work_tree" where
  "lfs_track LJ pat w =
     (let ps = load_config LJ w in save_config LJ (if pat \<in> set ps then ps else ps @ [pat]) w)"

section \<open>The walk\<close>

text \<open>What stands at a path: a file, or a directory with its entries in the order the system lists them.\<close>

datatype dir_tree = Leaf | Folder "(string \<times> dir_tree) list"

fun walkdir_lite :: "string \<Rightarrow> dir_tree \<Rightarrow> string list"
  and walk_entries :: "string \<Rightarrow> (string \<times> dir_tree) list \<Rightarrow> string list" where
  "walkdir_lite p Leaf = [p]"
| "walkdir_lite p (Folder es) = walk_entries p es"
| "walk_entries p [] = []"
| "walk_entries p ((n, t) # es) =
     (if n = ''.git'' then [] else walkdir_lite (join_path p n) t) @ walk_entries p es"

section \<open>Pushing\<close>

definition lfs_stub :: "lfs_pointer \<Rightarrow> string" where
  "lfs_stub ptr =
     ''version '' @ lp_version ptr @ [CHR 0x0A] @ ''oid sha512:'' @ lp_oid ptr @ [CHR 0x0A] @ ''size '' @ word_string (lp_size ptr) @ [CHR 0x0A]"

definition lfs_pointer_of :: "hex_codec \<Rightarrow> blob_id \<Rightarrow> bytes \<Rightarrow> lfs_pointer" where
  "lfs_pointer_of X i b = \<lparr>lp_version = ''safehub-lfs-v1'', lp_oid = id_to_hex X i, lp_size = of_nat (length b)\<rparr>"

definition replace_by_stub :: "lfs_json \<Rightarrow> string \<Rightarrow> lfs_pointer \<Rightarrow> (string \<times> bytes) list \<Rightarrow> (string \<times> bytes) list" where
  "replace_by_stub LJ file ptr files =
     dir_write file (str_bytes (lfs_stub ptr)) (dir_write (file @ ''.safehub-lfs'') (lj_pointer LJ ptr) files)"

fun lfs_push_files ::
    "prims \<Rightarrow> hex_codec \<Rightarrow> lfs_json \<Rightarrow> 'h host \<Rightarrow> (nat \<Rightarrow> string) \<Rightarrow> (nat \<Rightarrow> bytes) \<Rightarrow> nat \<Rightarrow> epoch_material \<Rightarrow> string list \<Rightarrow> string list \<Rightarrow>
     (string \<times> lfs_pointer) list \<Rightarrow> (string \<times> bytes) list \<Rightarrow> 'h \<Rightarrow>
     (string \<times> bytes) list \<times> 'h \<times> (client_error + (string \<times> lfs_pointer) list)" where
  "lfs_push_files P X LJ H short_id nonces k m pats [] ptrs files s = (files, s, Inr ptrs)"
| "lfs_push_files P X LJ H short_id nonces k m pats (file # rest) ptrs files s =
     (if \<not> list_ex (matches_pattern file) pats then lfs_push_files P X LJ H short_id nonces k m pats rest ptrs files s
      else if path_ext file = Some ''safehub-lfs'' then lfs_push_files P X LJ H short_id nonces k m pats rest ptrs files s
      else case map_of files file of
             None \<Rightarrow> (files, s, Inl Io)
           | Some b \<Rightarrow>
               (case put_sealed_object P H (nonces k) m b (''lfs-'' @ short_id k) s of
                  (s1, Inl e) \<Rightarrow> (files, s1, Inl e)
                | (s1, Inr i) \<Rightarrow>
                    (let ptr = lfs_pointer_of X i b
                     in lfs_push_files P X LJ H short_id nonces (k + 1) m pats rest (bt_insert file ptr ptrs)
                          (replace_by_stub LJ file ptr files) s1)))"

text \<open>\<open>tree\<close> is what stands at the given path, \<^term>\<open>None\<close> when nothing does; the result is the number of objects.\<close>

definition lfs_push ::
    "prims \<Rightarrow> hex_codec \<Rightarrow> lfs_json \<Rightarrow> 'h desk_client \<Rightarrow> (nat \<Rightarrow> string) \<Rightarrow> (nat \<Rightarrow> bytes) \<Rightarrow> string \<Rightarrow> dir_tree option \<Rightarrow> 'g desk \<Rightarrow>
     work_tree \<Rightarrow> 'h \<Rightarrow> work_tree \<times> 'h \<times> (client_error + nat)" where
  "lfs_push P X LJ C short_id nonces path tree dk w s =
     (case rbind (ok_or (bail ''not a SafeHub checkout; run `sit clone` or `sh repo create --clone`'') (co_repo (dk_co dk)))
             (\<lambda>r. rbind (material_for dk (rr_id r)) (\<lambda>m. Inr (r, m))) of
        Inl e \<Rightarrow> (w, s, Inl e)
      | Inr (r, m) \<Rightarrow>
          (let pats = load_config LJ w
           in if pats = [] then (w, s, Inl (bail ''no patterns; run `sh lfs track '*.bin'` first''))
              else case tree of
                     None \<Rightarrow> (w, s, Inl Io)
                   | Some t \<Rightarrow>
                       (case lfs_push_files P X LJ (mc_host (dc_mls C (rr_id r))) short_id nonces 0 m pats (walkdir_lite path t) [] (wt_files w) s of
                          (files, s1, res) \<Rightarrow> (w\<lparr>wt_files := files\<rparr>, s1, rbind res (\<lambda>ptrs. Inr (length ptrs))))))"

section \<open>Fetching\<close>

text \<open>\<^verbatim>\<open>trim_start_matches(prefix)\<close>.\<close>

function trim_start :: "'a list \<Rightarrow> 'a list \<Rightarrow> 'a list" where
  "trim_start pre s =
     (if pre = [] then s else case strip_prefix pre s of None \<Rightarrow> s | Some r \<Rightarrow> trim_start pre r)"
  by pat_completeness auto
termination
  by (relation "measure (\<lambda>(pre, s). length s)") (auto simp: strip_prefix_iff split: option.splits)

declare trim_start.simps [simp del]

text \<open>The object a text names: on the first line that starts with \<^verbatim>\<open>oid sha512:\<close>, or as a pointer.\<close>

definition named_oid :: "lfs_json \<Rightarrow> string \<Rightarrow> string option" where
  "named_oid LJ body =
     (case find (starts_with ''oid sha512:'') (lines_of body) of
        Some line \<Rightarrow> Some (trim_start ''oid sha512:'' line)
      | None \<Rightarrow> map_option lp_oid (lj_parse_pointer LJ body))"

text \<open>\<^verbatim>\<open>with_extension("")\<close> on a path that has one.\<close>

definition drop_ext :: "string \<Rightarrow> string" where
  "drop_ext p = rev (tl (dropWhile (\<lambda>c. c \<noteq> CHR ''.'') (rev p)))"

fun lfs_fetch_files ::
    "prims \<Rightarrow> hex_codec \<Rightarrow> lfs_json \<Rightarrow> (blob_id \<Rightarrow> client_error + bytes) \<Rightarrow> epoch_material \<Rightarrow> string list \<Rightarrow> (string \<times> bytes) list \<Rightarrow>
     (string \<times> bytes) list \<times> (client_error + unit)" where
  "lfs_fetch_files P X LJ get m [] files = (files, Inr ())"
| "lfs_fetch_files P X LJ get m (file # rest) files =
     (case Option.bind (Option.bind (map_of files file) from_utf8) (named_oid LJ) of
        None \<Rightarrow> lfs_fetch_files P X LJ get m rest files
      | Some oid \<Rightarrow>
          (case blob_id_from_hex X (trim oid) of
             Inl _ \<Rightarrow> (files, Inl (bail ''bad oid''))
           | Inr i \<Rightarrow>
               (case get_sealed_object P get m i of
                  Inl e \<Rightarrow> (files, Inl e)
                | Inr pt \<Rightarrow>
                    lfs_fetch_files P X LJ get m rest
                      (dir_write (if path_ext file = Some ''safehub-lfs'' then drop_ext file else file) pt files))))"

definition lfs_fetch ::
    "prims \<Rightarrow> hex_codec \<Rightarrow> lfs_json \<Rightarrow> 'h desk_client \<Rightarrow> string \<Rightarrow> dir_tree option \<Rightarrow> 'g desk \<Rightarrow> work_tree \<Rightarrow> 'h \<Rightarrow>
     work_tree \<times> (client_error + unit)" where
  "lfs_fetch P X LJ C path tree dk w s =
     (case rbind (ok_or (bail ''not a SafeHub checkout; run `sit clone` or `sh repo create --clone`'') (co_repo (dk_co dk)))
             (\<lambda>r. rbind (material_for dk (rr_id r)) (\<lambda>m. Inr (r, m))) of
        Inl e \<Rightarrow> (w, Inl e)
      | Inr (r, m) \<Rightarrow>
          (case tree of
             None \<Rightarrow> (w, Inl Io)
           | Some t \<Rightarrow>
               (case lfs_fetch_files P X LJ (mc_get (dc_mls C (rr_id r)) s) m (walkdir_lite path t) (wt_files w) of
                  (files, res) \<Rightarrow> (w\<lparr>wt_files := files\<rparr>, res))))"

section \<open>A stub names its object\<close>

definition is_hex :: "char \<Rightarrow> bool" where
  "is_hex c \<longleftrightarrow> is_digit c \<or> c \<in> set ''abcdef''"

text \<open>What the hex crate documents: lower-case hexadecimal digits.\<close>

definition hex_plain :: "hex_codec \<Rightarrow> bool" where
  "hex_plain X \<longleftrightarrow> (\<forall>b. list_all is_hex (hex_encode X b))"

lemma is_hex_facts:
  "is_hex c \<Longrightarrow> c \<noteq> CHR 0x0A \<and> c \<noteq> CHR 0x0D \<and> c \<noteq> CHR ''o'' \<and> \<not> is_ws c \<and> (of_char c :: nat) < 128"
  by (auto simp: is_hex_def is_digit_def is_ws_def)

lemma lines_of_line: "CHR 0x0A \<notin> set a \<Longrightarrow> a \<noteq> [] \<Longrightarrow> last a \<noteq> CHR 0x0D \<Longrightarrow> lines_of (a @ CHR 0x0A # r) = a # lines_of r"
  by (subst lines_of.simps) (simp add: cut_append chomp_cr_def)

lemma str_bytes_ascii: "list_all (\<lambda>c. (of_char c :: nat) < 128) s \<Longrightarrow> list_all (\<lambda>b. b < 0x80) (str_bytes s)"
proof (induction s)
  case (Cons c s)
  have "unat (of_char c :: u8) = of_char c"
  proof -
    have "(of_char c :: nat) mod 256 = of_char c" by (rule of_char_mod_256)
    moreover have "(of_char c :: u8) = of_nat (of_char c)" by (simp only: of_nat_of_char)
    ultimately show ?thesis by (simp only: unat_of_nat) (simp add: take_bit_eq_mod)
  qed
  then show ?case using Cons by (simp add: str_bytes_def word_less_nat_alt)
qed (simp add: str_bytes_def)

lemma stub_names_object:
  assumes "list_all is_hex (lp_oid ptr)" and "lp_version ptr = ''safehub-lfs-v1''"
  shows "from_utf8 (str_bytes (lfs_stub ptr)) = Some (lfs_stub ptr)" "named_oid LJ (lfs_stub ptr) = Some (lp_oid ptr)" "trim (lp_oid ptr) = lp_oid ptr"
proof -
  let ?oid = "lp_oid ptr"
  have oid: "\<And>c. c \<in> set ?oid \<Longrightarrow> c \<noteq> CHR 0x0A \<and> c \<noteq> CHR 0x0D \<and> c \<noteq> CHR ''o'' \<and> \<not> is_ws c \<and> (of_char c :: nat) < 128"
    using assms(1) is_hex_facts by (auto simp: list_all_iff)
  have digits: "\<And>c. c \<in> set (word_string (lp_size ptr)) \<Longrightarrow> (of_char c :: nat) < 128"
    using dec_string_digits [of "unat (lp_size ptr)"] by (fastforce simp: list_all_iff is_digit_def)
  have "list_all (\<lambda>c. (of_char c :: nat) < 128) (lfs_stub ptr)"
    using oid digits by (auto simp: lfs_stub_def assms(2) list_all_iff)
  then show "from_utf8 (str_bytes (lfs_stub ptr)) = Some (lfs_stub ptr)"
    using utf8_ok_ascii [OF str_bytes_ascii] by (simp add: from_utf8_def)
  have "lines_of (lfs_stub ptr) = ''version safehub-lfs-v1'' # lines_of ((''oid sha512:'' @ ?oid) @ CHR 0x0A # ''size '' @ word_string (lp_size ptr) @ [CHR 0x0A])"
    using lines_of_line [of "''version safehub-lfs-v1''"] by (simp add: lfs_stub_def assms(2))
  moreover have "lines_of ((''oid sha512:'' @ ?oid) @ CHR 0x0A # r) = (''oid sha512:'' @ ?oid) # lines_of r" for r
    by (rule lines_of_line) (use oid in \<open>auto dest: last_in_set\<close>)
  ultimately have first: "find (starts_with ''oid sha512:'') (lines_of (lfs_stub ptr)) = Some (''oid sha512:'' @ ?oid)"
    by (simp add: starts_with_def)
  have "strip_prefix ''oid sha512:'' ?oid = None"
    using oid by (cases ?oid) (auto simp: strip_prefix_def)
  then have "trim_start ''oid sha512:'' (''oid sha512:'' @ ?oid) = ?oid"
    by (subst trim_start.simps, simp only: strip_prefix_append option.case) (simp add: trim_start.simps)
  with first show "named_oid LJ (lfs_stub ptr) = Some ?oid" by (simp add: named_oid_def)
  show "trim ?oid = ?oid" using oid by (intro trim_id) (simp add: list_all_iff)
qed

section \<open>Pushing and fetching one file\<close>

context blob_host
begin

lemma push_one:
  assumes "binv s" and "list_ex (matches_pattern file) pats" and "path_ext file \<noteq> Some ''safehub-lfs''" and "map_of files file = Some b"
    and "object_ct P m b (nonces k) = Inr ct" and "ct \<in> C"
  shows "\<exists>s'. lfs_push_files P X LJ H short_id nonces k m pats [file] [] files s =
      (replace_by_stub LJ file (lfs_pointer_of X (blob_id_of_ciphertext P ct) b) files, s',
       Inr [(file, lfs_pointer_of X (blob_id_of_ciphertext P ct) b)]) \<and>
    binv s' \<and> get s' (blob_id_of_ciphertext P ct) = Inr ct \<and> (\<forall>i d. get s i = Inr d \<longrightarrow> get s' i = Inr d)"
proof -
  obtain meta where put: "put_sealed_object P H (nonces k) m b (''lfs-'' @ short_id k) s =
      (case hc_put H meta ct s of (s1, Inl e) \<Rightarrow> (s1, Inl e) | (s1, Inr _) \<Rightarrow> (s1, Inr (blob_id_of_ciphertext P ct)))"
    using put_sealed_object_ct [OF assms(5), of H "''lfs-'' @ short_id k" s] by blast
  obtain s1 where s1: "hc_put H meta ct s = (s1, Inr (blob_id_of_ciphertext P ct))" "binv s1"
    "get s1 (blob_id_of_ciphertext P ct) = Inr ct" "\<forall>i d. get s i = Inr d \<longrightarrow> get s1 i = Inr d"
    using put_ok [OF assms(1,6), of meta] by blast
  have "put_sealed_object P H (nonces k) m b (''lfs-'' @ short_id k) s = (s1, Inr (blob_id_of_ciphertext P ct))"
    unfolding put s1(1) by simp
  with s1 assms(2-4) show ?thesis by (intro exI [of _ s1]) (simp add: Let_def)
qed

end

text \<open>Reading the stub back, with whatever else the tree holds.\<close>

lemma fetch_stub:
  assumes "hex_roundtrips X" and "hex_plain X" and "length i = 64" and "get_sealed_object P get m i = Inr b"
    and "map_of files file = Some (str_bytes (lfs_stub (lfs_pointer_of X i b')))" and "path_ext file \<noteq> Some ''safehub-lfs''"
  shows "lfs_fetch_files P X LJ get m [file] files = (dir_write file b files, Inr ())"
proof -
  let ?ptr = "lfs_pointer_of X i b'"
  have "list_all is_hex (lp_oid ?ptr)" "lp_version ?ptr = ''safehub-lfs-v1''" and oid: "lp_oid ?ptr = id_to_hex X i"
    using assms(2) by (simp_all add: lfs_pointer_of_def id_to_hex_def hex_plain_def)
  note stub = stub_names_object [OF this(1,2)]
  have "blob_id_from_hex X (trim (lp_oid ?ptr)) = Inr i"
    using assms(3) by (simp only: stub(3)) (simp add: oid blob_id_from_hex_def id_from_hex_to_hex [OF assms(1)])
  then show ?thesis using assms(4-6) stub(1,2) by simp
qed

lemma lfs_pushed:
  assumes "http_blobs P X B show_meta au (rr_id r) C sv" and "co_repo (dk_co dk) = Some r" and "material_for dk (rr_id r) = Inr m"
    and "list_ex (matches_pattern file) (load_config LJ w)" and "path_ext file \<noteq> Some ''safehub-lfs''"
    and "map_of (wt_files w) file = Some b" and "object_ct P m b (nonces 0) = Inr ct" and "ct \<in> C"
    and "lfs_push P X LJ (http_desk P HJ X B show_meta au) short_id nonces file (Some Leaf) dk w sv = (w', sv', res)"
  shows "res = Inr 1" "wt_config w' = wt_config w" "http_blobs P X B show_meta au (rr_id r) C sv'"
    "map_of (wt_files w') file = Some (str_bytes (lfs_stub (lfs_pointer_of X (blob_id_of_ciphertext P ct) b)))"
    "http_get_blob X au (rr_id r) sv' (blob_id_of_ciphertext P ct) = Inr ct"
proof -
  let ?pats = "load_config LJ w" and ?ptr = "lfs_pointer_of X (blob_id_of_ciphertext P ct) b"
  from http_blob_host.push_one [where k = 0 and nonces = nonces and files = "wt_files w", OF assms(1,4-8)] obtain sv1 where
    push: "lfs_push_files P X LJ (client_host P HJ X B show_meta au (rr_id r)) short_id nonces 0 m ?pats [file] [] (wt_files w) sv =
      (replace_by_stub LJ file ?ptr (wt_files w), sv1, Inr [(file, ?ptr)])"
    and sv1: "http_blobs P X B show_meta au (rr_id r) C sv1" "http_get_blob X au (rr_id r) sv1 (blob_id_of_ciphertext P ct) = Inr ct" by blast
  have "?pats \<noteq> []" using assms(4) by auto
  then have pushed: "res = Inr 1" "sv' = sv1" "w' = w\<lparr>wt_files := replace_by_stub LJ file ?ptr (wt_files w)\<rparr>"
    using assms(9) push by (auto simp: lfs_push_def assms(2,3) ok_or_def http_desk_def http_mls_client_def Let_def simp del: lfs_push_files.simps)
  with sv1 show "res = Inr 1" "wt_config w' = wt_config w" "http_blobs P X B show_meta au (rr_id r) C sv'"
    "map_of (wt_files w') file = Some (str_bytes (lfs_stub ?ptr))" "http_get_blob X au (rr_id r) sv' (blob_id_of_ciphertext P ct) = Inr ct"
    by (simp_all add: replace_by_stub_def)
qed

text \<open>
  One member pushes a tracked file, another has the stub (it travels in the git tree) and fetches: the file
  has its contents again.
\<close>

theorem lfs_fetch_push:
  assumes "http_blobs P X B show_meta au (rr_id r) C sv" and "hex_plain X"
    and "co_repo (dk_co dk) = Some r" and "material_for dk (rr_id r) = Inr m"
    and "list_ex (matches_pattern file) (load_config LJ w)" and "path_ext file \<noteq> Some ''safehub-lfs''"
    and "map_of (wt_files w) file = Some b" and "object_ct P m b (nonces 0) = Inr ct" and "ct \<in> C"
    and "lfs_push P X LJ (http_desk P HJ X B show_meta au) short_id nonces file (Some Leaf) dk w sv = (w', sv', res)"
    and "co_repo (dk_co dk2) = Some r2" and "rr_id r2 = rr_id r" and "material_for dk2 (rr_id r) = Inr m2" and "em_transport m2 = em_transport m"
    and "gate X au2 (id_to_hex X (rr_id r)) sv' = Inr (rr_id r)" and "map_of (wt_files w2) file = map_of (wt_files w') file"
  shows "res = Inr 1 \<and> lfs_fetch P X LJ (http_desk P HJ X B show_meta au2) file (Some Leaf) dk2 w2 sv' =
      (w2\<lparr>wt_files := dir_write file b (wt_files w2)\<rparr>, Inr ())"
proof -
  let ?repo = "rr_id r" and ?i = "blob_id_of_ciphertext P ct"
  note pushed = lfs_pushed [OF assms(1,3-10)]
  have X: "hex_roundtrips X" and g: "gate X au (id_to_hex X ?repo) sv' = Inr ?repo"
    using pushed(3) by (simp_all add: http_blobs_def)
  have "http_get_blob X au2 ?repo sv' ?i = Inr ct"
    using pushed(5) by (simp add: http_get_blob_eq [OF g X] http_get_blob_eq [OF assms(15) X])
  from get_object [where get = "http_get_blob X au2 ?repo sv'" and i = ?i, OF assms(8,14) this] have "get_sealed_object P (http_get_blob X au2 ?repo sv') m2 ?i = Inr b" .
  from fetch_stub [where get = "http_get_blob X au2 ?repo sv'" and files = "wt_files w2" and b' = b, OF X assms(2) _ this] pushed(4) assms(6,16)
  have "lfs_fetch_files P X LJ (http_get_blob X au2 ?repo sv') m2 [file] (wt_files w2) = (dir_write file b (wt_files w2), Inr ())" by simp
  with pushed(1) show ?thesis
    by (simp add: lfs_fetch_def assms(11-13) ok_or_def http_desk_def http_mls_client_def del: lfs_fetch_files.simps)
qed

text \<open>
  A push does not recognise its own stubs: pushed once more, the stub itself is sealed and uploaded, and a
  fetch then gives the first stub back where the contents were.
\<close>

theorem second_push_loses_contents:
  assumes "http_blobs P X B show_meta au (rr_id r) C sv" and "hex_plain X"
    and "co_repo (dk_co dk) = Some r" and "material_for dk (rr_id r) = Inr m"
    and "list_ex (matches_pattern file) (load_config LJ w)" and "path_ext file \<noteq> Some ''safehub-lfs''"
    and "map_of (wt_files w) file = Some b" and "object_ct P m b (nonces 0) = Inr ct" and "ct \<in> C"
    and "stub = str_bytes (lfs_stub (lfs_pointer_of X (blob_id_of_ciphertext P ct) b))"
    and "object_ct P m stub (nonces2 0) = Inr ct2" and "ct2 \<in> C"
    and "lfs_push P X LJ (http_desk P HJ X B show_meta au) short_id nonces file (Some Leaf) dk w sv = (w1, sv1, res1)"
    and "lfs_push P X LJ (http_desk P HJ X B show_meta au) short_id2 nonces2 file (Some Leaf) dk w1 sv1 = (w2, sv2, res2)"
  shows "lfs_fetch P X LJ (http_desk P HJ X B show_meta au) file (Some Leaf) dk w2 sv2 =
    (w2\<lparr>wt_files := dir_write file stub (wt_files w2)\<rparr>, Inr ())"
proof -
  note first = lfs_pushed [OF assms(1,3-9,13)]
  have conf: "list_ex (matches_pattern file) (load_config LJ w1)" using assms(5) first(2) by (simp add: load_config_def)
  have there: "map_of (wt_files w1) file = Some stub" using first(4) assms(10) by simp
  note second = lfs_pushed [OF first(3) assms(3,4) conf assms(6) there assms(11,12,14)]
  have "gate X au (id_to_hex X (rr_id r)) sv2 = Inr (rr_id r)" using second(3) by (simp add: http_blobs_def)
  from lfs_fetch_push [OF first(3) assms(2-4) conf assms(6) there assms(11,12,14) assms(3) refl assms(4) refl this refl]
  show ?thesis by simp
qed

end
