(* ===== verification/Finder.thy ===== *)
theory Finder
  imports Records
begin

text \<open>
  Commands that look across the member's own decrypted data: \<^verbatim>\<open>search\<close> and \<^verbatim>\<open>status\<close>
  (\<^verbatim>\<open>safehub-cli/src/cmds/search.rs\<close>, \<^verbatim>\<open>status.rs\<close>).
\<close>

record 'h finder_client = "'h desk_client" +
  fc_list_repos :: "'h \<Rightarrow> client_error + repo_record list"

section \<open>Search\<close>

text \<open>\<open>lower\<close> is \<^verbatim>\<open>str::to_lowercase\<close>.\<close>

definition hay_has :: "(string \<Rightarrow> string) \<Rightarrow> string \<Rightarrow> string list \<Rightarrow> bool" where
  "hay_has lower q parts \<longleftrightarrow>
     contains_str (lower q) (lower (concat (map (\<lambda>(k, p). (if k = 0 then [] else '' '') @ p) (enumerate 0 parts))))"

definition repo_flags :: "repo_record \<Rightarrow> string" where
  "repo_flags r = (if rr_archived r then ''archived'' else if rr_private r then ''private'' else ''public'')"

definition search_repos ::
    "('h, 'm) finder_client_scheme \<Rightarrow> (string \<Rightarrow> string) \<Rightarrow> string option \<Rightarrow> 'h \<Rightarrow> client_error + (string \<times> string) list" where
  "search_repos C lower query s =
     rbind (fc_list_repos C s) (\<lambda>rs.
       let q = lower (unwrap_or_default query)
       in Inr (List.map_filter (\<lambda>r.
            let nm = rn_owner (rr_name r) @ ''/'' @ rn_name (rr_name r)
            in if q = [] \<or> contains_str q (lower nm) then Some (nm, repo_flags r) else None) rs))"

definition search_issues ::
    "prims \<Rightarrow> inbox_json \<Rightarrow> 'h desk_client \<Rightarrow> (string \<Rightarrow> string) \<Rightarrow> string option \<Rightarrow> string option \<Rightarrow> 'g desk \<Rightarrow> 'h \<Rightarrow>
     'g desk \<times> (client_error + (string \<times> string \<times> string) list)" where
  "search_issues P J C lower query explicit dk s =
     (case query of
        None \<Rightarrow> (dk, Inl (bail ''search query required''))
      | Some q \<Rightarrow> read_with P J C explicit (\<lambda>_ msgs. Inr
          (map (\<lambda>i. (fi_id i, fi_state i, fi_title i))
            (filter (\<lambda>i. hay_has lower q [fi_id i, fi_title i, fi_body i]) (fst (fold_collab_inbox msgs))))) dk s)"

definition search_prs ::
    "prims \<Rightarrow> inbox_json \<Rightarrow> 'h desk_client \<Rightarrow> (string \<Rightarrow> string) \<Rightarrow> string option \<Rightarrow> string option \<Rightarrow> 'g desk \<Rightarrow> 'h \<Rightarrow>
     'g desk \<times> (client_error + (string \<times> string \<times> string) list)" where
  "search_prs P J C lower query explicit dk s =
     (case query of
        None \<Rightarrow> (dk, Inl (bail ''search query required''))
      | Some q \<Rightarrow> read_with P J C explicit (\<lambda>_ msgs. Inr
          (map (\<lambda>p. (fp_id p, fp_state p, fp_title p))
            (filter (\<lambda>p. hay_has lower q [fp_id p, fp_title p, fp_body p]) (snd (fold_collab_inbox msgs))))) dk s)"

text \<open>
  \<open>grep\<close> is \<^verbatim>\<open>git grep\<close> in the directory when it is a repository: an error, or its success and its output.
\<close>

datatype code_hits = Grep_out string | Bundle_lines "(nat \<times> string) list" | No_index

definition search_code ::
    "prims \<Rightarrow> hex_codec \<Rightarrow> refs_json \<Rightarrow> 'h desk_client \<Rightarrow> (repo_id \<Rightarrow> 'h repo_client) \<Rightarrow> push_draw \<Rightarrow> (bytes \<Rightarrow> string) \<Rightarrow>
     (string \<Rightarrow> client_error + bool \<times> string) option \<Rightarrow> string option \<Rightarrow> string option \<Rightarrow> 'g desk \<Rightarrow> 'h \<Rightarrow> client_error + code_hits" where
  "search_code P X RJ C RC dr lossy grep query explicit dk s =
     (case query of
        None \<Rightarrow> Inl (bail ''search query required'')
      | Some q \<Rightarrow>
          rbind (case grep of None \<Rightarrow> Inr None | Some g \<Rightarrow>
                   rbind (g q) (\<lambda>(ok, out). Inr (if ok \<or> out \<noteq> [] then Some out else None))) (\<lambda>found.
            case found of
              Some out \<Rightarrow> Inr (Grep_out out)
            | None \<Rightarrow>
                (case rbind (open_repo C explicit dk s) (\<lambda>(r, m). tip_of P X RJ (RC (rr_id r)) dr (rr_id r) m s) of
                   Inr (Some f) \<Rightarrow>
                     Inr (Bundle_lines (filter (\<lambda>(n, line). contains_str q line) (enumerate 1 (lines_of (lossy (fr_bundle f))))))
                 | _ \<Rightarrow> Inr No_index)))"

section \<open>Status\<close>

record status_page =
  sp_issues :: "(string \<times> folded_issue) list"
  sp_prs :: "(string \<times> folded_pr) list"

definition no_status :: status_page where
  "no_status = \<lparr>sp_issues = [], sp_prs = []\<rparr>"

definition excluded_names :: "string option \<Rightarrow> string list" where
  "excluded_names ex = filter (\<lambda>n. n \<noteq> []) (map trim (split_on (CHR '','') (unwrap_or_default ex)))"

definition status_repos ::
    "('h, 'm) finder_client_scheme \<Rightarrow> string option \<Rightarrow> 'g desk \<Rightarrow> 'h \<Rightarrow> client_error + repo_record list" where
  "status_repos C repo dk s =
     (case repo of
        Some nm \<Rightarrow> rbind (ok_or (bail ''expected owner/name'') (repo_name_parse nm)) (\<lambda>n. rbind (dc_get_repo C n s) (\<lambda>r. Inr [r]))
      | None \<Rightarrow>
          (case resolve_repo (desk_client.truncate C) None dk s of
             Inr r \<Rightarrow> Inr [r]
           | Inl _ \<Rightarrow> rbind (fc_list_repos C s) (\<lambda>rs. Inr (filter (\<lambda>r. \<not> rr_deleted r \<and> \<not> rr_archived r) rs))))"

text \<open>What one repository adds: its open issues and pull requests; without keys or with a broken cache it adds nothing.\<close>

definition add_repo ::
    "prims \<Rightarrow> inbox_json \<Rightarrow> ('h, 'm) desk_client_scheme \<Rightarrow> string list \<Rightarrow> 'h \<Rightarrow> repo_record \<Rightarrow> 'g desk \<times> status_page \<Rightarrow> 'g desk \<times> status_page" where
  "add_repo P J C exclude s r = (\<lambda>(dk, page).
     let name = repo_name_display (rr_name r)
     in if name \<in> set exclude then (dk, page)
        else case material_for dk (rr_id r) of
               Inl _ \<Rightarrow> (dk, page)
             | Inr m \<Rightarrow>
                 (let (ib, _) = sync_inbox P J (\<lambda>a. mc_fetch (dc_mls C (rr_id r)) a s) m (dk_inbox dk (rr_id r));
                      dk1 = dk\<lparr>dk_inbox := (dk_inbox dk)(rr_id r := ib)\<rparr>
                  in case read_inbox_cache J ib of
                       Inl _ \<Rightarrow> (dk1, page)
                     | Inr cache \<Rightarrow>
                         (case fold_collab_inbox cache of (issues, prs) \<Rightarrow>
                            (dk1, \<lparr>sp_issues = sp_issues page @ map (Pair name) (filter (\<lambda>i. fi_state i = ''open'') issues),
                                   sp_prs = sp_prs page @ map (Pair name) (filter (\<lambda>p. fp_state p = ''open'') prs)\<rparr>))))"

definition status_run ::
    "prims \<Rightarrow> inbox_json \<Rightarrow> ('h, 'm) finder_client_scheme \<Rightarrow> string option \<Rightarrow> string option \<Rightarrow> 'g desk \<Rightarrow> 'h \<Rightarrow>
     'g desk \<times> (client_error + status_page)" where
  "status_run P J C repo exclude dk s =
     (case status_repos C repo dk s of
        Inl e \<Rightarrow> (dk, Inl e)
      | Inr rs \<Rightarrow> apsnd Inr (fold (add_repo P J C (excluded_names exclude) s) rs (dk, no_status)))"

text \<open>The three sections that are printed: issues, pull requests, and the pull requests without a review.\<close>

definition issue_rows :: "status_page \<Rightarrow> (string \<times> string \<times> string) list" where
  "issue_rows page = map (\<lambda>(n, i). (n, fi_id i, fi_title i)) (sp_issues page)"

definition pr_rows :: "status_page \<Rightarrow> (string \<times> string \<times> string \<times> string \<times> string) list" where
  "pr_rows page = map (\<lambda>(n, p). (n, fp_id p, fp_title p, fp_head p, fp_base p)) (sp_prs page)"

definition review_rows :: "status_page \<Rightarrow> (string \<times> string \<times> string) list" where
  "review_rows page = map (\<lambda>(n, p). (n, fp_id p, fp_title p)) (filter (\<lambda>(n, p). fp_reviews p = []) (sp_prs page))"

section \<open>Properties\<close>

text \<open>What status shows for a repository is what listing its open issues and pull requests shows.\<close>

theorem status_agrees_with_lists:
  assumes "material_for dk (rr_id r) = Inr m" and "repo_name_display (rr_name r) \<notin> set exclude"
    and "read_mail P J C (rr_id r) m dk s = (dk', Inr msgs)"
  shows "add_repo P J C exclude s r (dk, page) =
    (dk', \<lparr>sp_issues = sp_issues page @ map (Pair (repo_name_display (rr_name r))) (shown_issues None (fst (fold_collab_inbox msgs))),
          sp_prs = sp_prs page @ map (Pair (repo_name_display (rr_name r))) (shown_prs None (snd (fold_collab_inbox msgs)))\<rparr>)"
  using assms
  by (auto simp: add_repo_def read_mail_def shown_issues_def shown_prs_def rbind_Inr_conv Let_def case_prod_beta split: prod.splits)

text \<open>
  Status never fails on a repository: with a host that refuses every request it shows the cache as it was,
  and says nothing about it.
\<close>

theorem status_hides_dead_host:
  assumes "material_for dk (rr_id r) = Inr m" and "repo_name_display (rr_name r) \<notin> set exclude"
    and "\<forall>a. mc_fetch (dc_mls C (rr_id r)) a s = Inl (e a)" and "read_inbox_cache J (dk_inbox dk (rr_id r)) = Inr msgs"
  shows "add_repo P J C exclude s r (dk, no_status) =
      (dk, \<lparr>sp_issues = map (Pair (repo_name_display (rr_name r))) (shown_issues None (fst (fold_collab_inbox msgs))),
            sp_prs = map (Pair (repo_name_display (rr_name r))) (shown_prs None (snd (fold_collab_inbox msgs)))\<rparr>)"
    and "\<exists>e. snd (read_mail P J C (rr_id r) m dk s) = Inl e"
  using assms
  by (auto simp: add_repo_def read_mail_def sync_inbox_def shown_issues_def shown_prs_def no_status_def Let_def case_prod_beta)

text \<open>Without keys, or excluded, a repository changes nothing.\<close>

theorem status_skips:
  "repo_name_display (rr_name r) \<in> set exclude \<or> (\<exists>e. material_for dk (rr_id r) = Inl e) \<Longrightarrow>
     add_repo P J C exclude s r (dk, page) = (dk, page)"
  by (auto simp: add_repo_def Let_def)

text \<open>The empty query finds every issue, closed ones included.\<close>

lemma contains_empty [simp]: "contains_str [] s"
  by (auto simp: contains_str_def list_ex_iff)

theorem search_empty_finds_all:
  assumes "lower [] = []"
  shows "search_issues P J C lower (Some []) explicit =
    read_with P J C explicit (\<lambda>_ msgs. Inr (map (\<lambda>i. (fi_id i, fi_state i, fi_title i)) (fst (fold_collab_inbox msgs))))"
  by (simp add: search_issues_def hay_has_def assms fun_eq_iff)

end
