(* ===== verification/Spec2Isabelle.thy ===== *)
theory Spec2Isabelle
  imports Consolidate Identity Collab Scenario Remote Sgit_Cli Browse Lfs Finder
begin

text \<open>
  SafeHub: end-to-end encrypted git hosting, a verification library beside the Rust workspace
  \<^verbatim>\<open>src/code/crates\<close>.

  The program.  Members of a repository share an MLS group.  A member turns its commits into a git
  bundle, cuts it into chunks, seals them under a fresh data key, and uploads the ciphertexts to a
  host that is not trusted with contents.  A ref head (\<^verbatim>\<open>RefHead\<close>) names the chunks, carries the data
  key and the ref map sealed under a key of the group's epoch, is signed, and points to the previous
  head by hash; the host keeps the heads as a log that grows by compare-and-swap.  Other members fetch
  the heads after the last one they trust, verify chain, epoch tag and signature, and open the bundle.
  Administrators authorize force pushes and consolidations of the log; members compare checkpoints to
  detect a host that shows different logs to different members; dual key regression derives the keys
  of the epochs a member was granted.

  Theories, in the order of the layers they model.
  \<^item> Prelude: byte strings, the fixed-width layouts, the byte cursor, the locale \<open>wire_codec\<close>, the
    error monad on sums, the rule collections \<open>byte_len\<close> and \<open>wire_simps\<close>.  Btree: a \<^verbatim>\<open>BTreeMap\<close> as its
    sorted list of entries.
  \<^item> Canon (\<^verbatim>\<open>safehub-types\<close>: ids.rs, refs.rs, canon.rs): identifiers, heads, key-log entries, grafts and
    their byte encodings.
  \<^item> Aead (\<^verbatim>\<open>safehub-crypto\<close>: params.rs, aead.rs), Dkr (dkr.rs), Mldsa (mldsa.rs): the committing AEAD,
    interval key regression, signed transcripts.
  \<^item> Client_Error, Policy (\<^verbatim>\<open>safehub-client\<close>: error.rs, policy.rs): fast-forward classification,
    co-signatures, quorums, epoch tags, the check of a head chain.
  \<^item> Merkle, Consolidate (consolidate.rs), Fork (fork.rs), Identity (identity.rs): receipts with
    Merkle proofs, checkpoints and their comparison, pins and device anchors.
  \<^item> Storage (\<^verbatim>\<open>safehub-storage\<close>: local.rs), Users and Server (\<^verbatim>\<open>safehub-server\<close>: users.rs, auth.rs,
    browse.rs, routes.rs), Collab (collab.rs): the host's state and every handler that changes it.
  \<^item> Material (mls_local.rs: keys), PushPlan and PushFetch (pushfetch.rs), Http (http.rs), End_To_End: the
    client's side, and the client composed with the host's handlers.
  \<^item> Mls (\<^verbatim>\<open>safehub-crypto\<close>: mls.rs) wraps the group operations of OpenMLS; Group (mls_local.rs: flows)
    creates a repository group, invites, accepts a Welcome and rotates; Membership (\<^verbatim>\<open>safehub-cli\<close>:
    cmds/repo.rs) is the repository commands over the host and the device's directories.
  \<^item> Texts: the string functions of the standard library the commands use.  Checkout (\<^verbatim>\<open>safehub-cli\<close>:
    cmds/push.rs, pull.rs, clone.rs and the bundle import of common.rs): a working copy with its
    markers, pushed, fetched and cloned over the client and the host.  Scenario: one concrete
    repository with several pushes, for the closed examples of Checkout.
  \<^item> Remote (\<^verbatim>\<open>sit-remote-safehub\<close>: lib.rs): the git remote helper, its URLs, its line protocol and its
    own listing, fetch and push over the client library.
  \<^item> Inbox (\<^verbatim>\<open>safehub-types\<close>: messages.rs, \<^verbatim>\<open>safehub-cli\<close>: the inbox of common.rs) and Tickets (cmds/issue.rs,
    pr.rs, inbox.rs): sealed messages on the host's queue, their cache on a device, the issues and pull
    requests they fold into, and the commands; the tracker that all caught-up members see.
  \<^item> Records (\<^verbatim>\<open>safehub-cli\<close>: cmds/label.rs, milestone.rs, secret.rs, variable.rs, gist.rs, project.rs, workflow.rs,
    release.rs): what else is folded out of the inbox, each register by its last or its first message, and
    release assets in the blob store.  Lfs (cmds/lfs.rs): large files behind stubs.  Finder (cmds/search.rs,
    status.rs): searching and summing up the member's own decrypted data.
  \<^item> Pages and Browse (\<^verbatim>\<open>safehub-browse\<close>: html.rs, git.rs; routes.rs, collab.rs, remote.rs): the local browser,
    what it makes of names and texts that others chose, its forms over the inbox and the access list,
    and the mirror of the published tip it shows.
  \<^item> Unicode: UTF-8 and the character strings of the standard library.  Sgit_Diff, Sgit_Codec and Sgit
    (\<^verbatim>\<open>sgit-rs\<close>: diff.rs; crypto.rs, merkle.rs, lib.rs): the comparison system, a repository encrypted
    file by file with signed Merkle roots; its two diffs over one longest common subsequence, the
    encoding of a delta, and init, update, pull and share with what a host can do to them.  Sgit_Cli
    (bin/sgit.rs): the wrapper that keeps the ciphertext of a directory under git.

  State.  A Rust struct is a record with the same fields, an enum a datatype, \<^verbatim>\<open>u8/u32/u64\<close> are words
  and wrap as in a release build, a map on disk is a partial function or the list of directory
  entries in the order they are read.  A method that changes its receiver returns the new state; a
  fallible one returns a sum whose left side is the error.  The host's state is \<open>server_state\<close>: the
  store (\<open>local_store\<close>), the accounts and the member files.

  Interfaces are locales, each interpreted on the model of the code that provides it: \<open>wire_codec\<close>
  (self-delimiting fields), \<open>sealed_box\<close> (open accepts exactly what seal makes), \<open>cas_log\<close> (an
  append-only log behind compare-and-swap; provided by the store), \<open>push_host = cas_log + put\<close> and
  \<open>paged_log\<close> (provided by the HTTP methods over the handlers), \<open>blob_host\<close> (uploads that stay readable;
  provided likewise), \<open>name_register\<close> (the last message about a name decides) and \<open>first_wins\<close> (the first one does),
  provided by the folds of Records.  The client's retry loop, paging and upload waves are proved once inside the
  locales and reach the properties through the interpretations.

  What the lemmas show.  Encoders are injective and decoders are characterised on all inputs; sealed
  boxes, quorums, chain checks and the fast-forward classification are characterised by if and only
  if; the compare-and-swap append has an exact outcome on every store that holds a log, also after a
  crash between its two writes; invariants of the store, the queue, the tokens, the member files and the
  issue index hold after every operation; access control refines an abstract access list; a push
  with concurrent clients has exactly the outcomes listed; what one member pushes another fetches
  byte for byte.  Some theorems state behaviour that the comments of the code exclude; they are
  named as such.

  Parameters.  \<open>prims\<close> holds SHA-512, HMAC, HKDF and the lattice signature, \<open>inbox_json\<close> serde over messages, \<open>sgit_prims\<close> SHA-256, HKDF, the cipher and the
  encodings SGit uses; \<open>hex_codec\<close>, the JSON
  parsers and printers, git (\<open>git_ops\<close>, one field per command that is run), Argon2, clocks and random draws are arguments.  Where a
  property needs documented behaviour of one of them (no collision on two given inputs, printing then
  parsing gives the value back, a signature made with a key verifies), it is a hypothesis of that
  property, and its witness instantiates it with a concrete function.  OpenMLS is the record \<open>openmls\<close>
  of the calls the code makes; what RFC 9420 and its documentation promise of them is stated as
  \<open>commits_advance\<close> (a Commit starts the next epoch), \<open>welcome_agrees\<close> (who joins shares the exporter),
  \<open>store_law\<close> (what is stored is read back), \<open>update_keeps_roster\<close> and \<open>exports_ok\<close>.

  Bounds and fuel.  Nothing runs on fuel: the paging loop terminates because the cursor grows in 64
  bits, the upload waves because the list shrinks, the retry loop because the retries do, Merkle
  levels because a level with two or more nodes is longer than the next, the clean-up of a character
  diff because every round drops a segment.  Logs are shorter than 2^64
  heads and bundles at most 2^32 - 1 chunks of 4 MiB (the code's chunk number is 32 bits wide).

  Not modelled.  The OpenMLS library itself and the adapters around it that no flow uses; the HTML of whole
  pages, Markdown, process start-up and the plaintext git mirror; the commands of the command line other than those of
  Membership, Checkout, Tickets, Records, Lfs and Finder; timing, memory and concurrency
  inside one host process (a handler is one step).
\<close>

end
